(* ===== verification/Prelude.thy ===== *)
theory Prelude
  imports Main "HOL-Library.Word" "HOL-Library.Finite_Map" "HOL-Library.List_Lexorder"
    "HOL-Library.Char_ord"
begin

unbundle bit_operations_syntax

text \<open>
  Shared ground of the development: the machine types of the Rust sources, the \<open>Result\<close>
  plumbing (\<open>?\<close>, \<open>ok_or\<close>, loops that return early), checked arithmetic, little-endian
  byte encodings, chunked byte lists, ordered-map iteration, and the generic lemmas about them.

  Conventions:
  \<^item> \<open>u8\<close>, \<open>u16\<close>, \<open>u32\<close>, \<open>u64\<close> are words of that width; \<open>i32\<close> is a 32-bit
    word read with \<open>sint\<close>;
  \<^item> \<open>usize\<close> counts are \<open>nat\<close>; where the code saturates or checks them the bound
    \<open>usize_max\<close> is written out;
  \<^item> a \<open>str\<close> or \<open>String\<close> is the list of its UTF-8 bytes (a HOL \<open>char\<close> is one byte), so
    its length is \<open>str::len\<close> and its order is the order of \<open>BTreeMap<String, _>\<close>;
  \<^item> \<open>Result<A, E>\<close> is the sum \<open>E + A\<close> (\<open>Inl\<close> is \<open>Err\<close>);
  \<^item> \<open>BTreeMap<K, V>\<close> is \<open>(K, V) fmap\<close>; a loop over it runs over its entries in key order;
  \<^item> \<open>Arc<T>\<close> and \<open>Box<T>\<close> are \<open>T\<close>: the code never mutates through a shared \<open>Arc\<close>
    (\<open>Arc::make_mut\<close> copies first), so sharing is not observable.
\<close>

section \<open>Machine types\<close>

type_synonym u8 = "8 word"
type_synonym u16 = "16 word"
type_synonym u32 = "32 word"
type_synonym u64 = "64 word"
type_synonym i32 = "32 word"
type_synonym digest = "8 word list"

abbreviation usize_max :: nat where
  "usize_max \<equiv> 2 ^ 64 - 1"

named_theorems result_iff \<open>case analysis of a successful or failed \<open>Result\<close>\<close>
named_theorems word_facts \<open>facts about checked word arithmetic and byte encodings\<close>

section \<open>Result plumbing\<close>

definition rbind :: "'e + 'a \<Rightarrow> ('a \<Rightarrow> 'e + 'b) \<Rightarrow> 'e + 'b" where
  "rbind m f = (case m of Inl e \<Rightarrow> Inl e | Inr x \<Rightarrow> f x)"

definition map_err :: "('e \<Rightarrow> 'f) \<Rightarrow> 'e + 'a \<Rightarrow> 'f + 'a" where
  "map_err f m = (case m of Inl e \<Rightarrow> Inl (f e) | Inr x \<Rightarrow> Inr x)"

definition ok_or :: "'e \<Rightarrow> 'a option \<Rightarrow> 'e + 'a" where
  "ok_or e opt = (case opt of None \<Rightarrow> Inl e | Some x \<Rightarrow> Inr x)"

lemma rbind_simps [simp]:
  "rbind (Inl e) f = Inl e"
  "rbind (Inr x) f = f x"
  by (simp_all add: rbind_def)

lemma map_err_simps [simp]:
  "map_err g (Inl e) = Inl (g e)"
  "map_err g (Inr x) = Inr x"
  by (simp_all add: map_err_def)

lemma ok_or_simps [simp]:
  "ok_or e None = Inl e"
  "ok_or e (Some x) = Inr x"
  by (simp_all add: ok_or_def)

lemma rbind_eq_Inr [result_iff]:
  "rbind m f = Inr y \<longleftrightarrow> (\<exists>x. m = Inr x \<and> f x = Inr y)"
  by (cases m) auto

lemma rbind_eq_Inl [result_iff]:
  "rbind m f = Inl e \<longleftrightarrow> m = Inl e \<or> (\<exists>x. m = Inr x \<and> f x = Inl e)"
  by (cases m) auto

lemma map_err_eq_Inr [result_iff]: "map_err f m = Inr y \<longleftrightarrow> m = Inr y"
  by (cases m) auto

lemma map_err_eq_Inl [result_iff]: "map_err f m = Inl e \<longleftrightarrow> (\<exists>d. m = Inl d \<and> e = f d)"
  by (cases m) auto

lemma ok_or_eq_Inr [result_iff]: "ok_or e m = Inr y \<longleftrightarrow> m = Some y"
  by (cases m) auto

lemma ok_or_eq_Inl [result_iff]: "ok_or e m = Inl d \<longleftrightarrow> m = None \<and> d = e"
  by (cases m) auto

lemma rbind_cong [fundef_cong]:
  "m = m' \<Longrightarrow> (\<And>x. m' = Inr x \<Longrightarrow> f x = g x) \<Longrightarrow> rbind m f = rbind m' g"
  by (cases m') auto

lemma rbind_assoc: "rbind (rbind m f) g = rbind m (\<lambda>x. rbind (f x) g)"
  by (cases m) auto

text \<open>A \<open>for\<close> loop whose body uses \<open>?\<close>, and \<open>collect::<Result<Vec<_>, _>>()\<close>.\<close>

fun rfold :: "('a \<Rightarrow> 's \<Rightarrow> 'e + 's) \<Rightarrow> 'a list \<Rightarrow> 's \<Rightarrow> 'e + 's" where
  "rfold f [] s = Inr s"
| "rfold f (x # xs) s = rbind (f x s) (rfold f xs)"

fun rmap :: "('a \<Rightarrow> 'e + 'b) \<Rightarrow> 'a list \<Rightarrow> 'e + 'b list" where
  "rmap f [] = Inr []"
| "rmap f (x # xs) = rbind (f x) (\<lambda>y. rbind (rmap f xs) (\<lambda>ys. Inr (y # ys)))"

lemma rfold_append: "rfold f (xs @ ys) s = rbind (rfold f xs s) (rfold f ys)"
  by (induction xs arbitrary: s) (simp_all add: rbind_assoc fun_eq_iff cong: rbind_cong)

lemma rfold_invariant:
  assumes "rfold f xs s = Inr t" and "P s"
    and "\<And>x s t. x \<in> set xs \<Longrightarrow> P s \<Longrightarrow> f x s = Inr t \<Longrightarrow> P t"
  shows "P t"
  using assms
proof (induction xs arbitrary: s)
  case Nil
  then show ?case by simp
next
  case (Cons x xs)
  from Cons.prems(1) obtain u where u: "f x s = Inr u" "rfold f xs u = Inr t"
    by (auto simp: result_iff)
  have "P u" by (rule Cons.prems(3) [OF _ Cons.prems(2) u(1)]) simp
  moreover have "\<And>y s t. y \<in> set xs \<Longrightarrow> P s \<Longrightarrow> f y s = Inr t \<Longrightarrow> P t"
    by (rule Cons.prems(3)) simp_all
  ultimately show ?case by (rule Cons.IH [OF u(2)])
qed

text \<open>A loop that only checks.\<close>

lemma rfold_unit_iff: "rfold f xs () = Inr () \<longleftrightarrow> (\<forall>x \<in> set xs. f x () = Inr ())"
  by (induction xs) (auto simp: result_iff)

lemma rfold_all_ok:
  assumes "\<And>x s. x \<in> set xs \<Longrightarrow> f x s = Inr (g x s)"
  shows "rfold f xs s = Inr (fold g xs s)"
  using assms by (induction xs arbitrary: s) auto

lemma rmap_all_ok:
  assumes "\<And>x. x \<in> set xs \<Longrightarrow> f x = Inr (g x)"
  shows "rmap f xs = Inr (map g xs)"
  using assms by (induction xs) auto

lemma rmap_map: "rmap f (map g xs) = rmap (f \<circ> g) xs"
  by (induction xs) simp_all

lemma rmap_Inr_length: "rmap f xs = Inr ys \<Longrightarrow> length ys = length xs"
  by (induction xs arbitrary: ys) (auto simp: result_iff)

lemma rmap_Inr_nth:
  "rmap f xs = Inr ys \<Longrightarrow> i < length xs \<Longrightarrow> f (xs ! i) = Inr (ys ! i)"
proof (induction xs arbitrary: ys i)
  case Nil
  then show ?case by simp
next
  case (Cons x xs)
  then show ?case by (cases i) (auto simp: result_iff)
qed

section \<open>Searching a slice\<close>

text \<open>\<open>iter().position(p)\<close>: the index of the first element that satisfies \<open>p\<close>.\<close>

fun position :: "('a \<Rightarrow> bool) \<Rightarrow> 'a list \<Rightarrow> nat option" where
  "position P [] = None"
| "position P (x # xs) = (if P x then Some 0 else map_option Suc (position P xs))"

lemma position_None_iff: "position P xs = None \<longleftrightarrow> (\<forall>x \<in> set xs. \<not> P x)"
  by (induction xs) auto

lemma position_SomeD: "position P xs = Some i \<Longrightarrow> i < length xs \<and> P (xs ! i)"
  by (induction xs arbitrary: i) (auto split: if_splits)

lemma position_first: "position P xs = Some i \<Longrightarrow> j < i \<Longrightarrow> \<not> P (xs ! j)"
proof (induction xs arbitrary: i j)
  case Nil
  then show ?case by simp
next
  case (Cons x xs)
  then show ?case by (cases j) (auto split: if_splits)
qed

lemma position_SomeI:
  "i < length xs \<Longrightarrow> P (xs ! i) \<Longrightarrow> (\<And>j. j < i \<Longrightarrow> \<not> P (xs ! j)) \<Longrightarrow> position P xs = Some i"
proof (induction xs arbitrary: i)
  case Nil
  then show ?case by simp
next
  case (Cons x xs)
  show ?case
  proof (cases i)
    case 0
    with Cons.prems show ?thesis by simp
  next
    case (Suc k)
    have "\<not> P x" using Cons.prems(3) [of 0] Suc by simp
    moreover have "position P xs = Some k"
      using Cons.prems(1,2) Cons.prems(3) [of "Suc _"] Suc by (intro Cons.IH) auto
    ultimately show ?thesis using Suc by simp
  qed
qed

lemma position_append:
  "position P (xs @ ys) =
     (case position P xs of Some i \<Rightarrow> Some i
      | None \<Rightarrow> map_option (\<lambda>i. length xs + i) (position P ys))"
  by (induction xs; cases "position P ys") (auto split: option.splits)

section \<open>Checked arithmetic\<close>

definition checked_add :: "'a::len word \<Rightarrow> 'a word \<Rightarrow> 'a word option" where
  "checked_add a b = (if unat a + unat b < 2 ^ LENGTH('a) then Some (a + b) else None)"

lemma checked_add_Some [word_facts]:
  "checked_add a b = Some c \<Longrightarrow> unat c = unat a + unat b"
  by (auto simp: checked_add_def unat_word_ariths split: if_splits)

lemma checked_add_one_greater [word_facts]:
  assumes "checked_add a (1 :: 'a::len word) = Some c"
  shows "a < c"
proof -
  have "unat c = unat a + unat (1 :: 'a word)"
    using assms by (rule checked_add_Some)
  moreover have "unat (1 :: 'a word) = 1" by simp
  ultimately show ?thesis by (simp add: word_less_nat_alt)
qed

lemma checked_add_one_None:
  "checked_add a (1 :: 'a::len word) = None \<longleftrightarrow> unat a = 2 ^ LENGTH('a) - 1"
proof -
  have "unat a < 2 ^ LENGTH('a)" by (rule unsigned_less)
  moreover have "checked_add a 1 = None \<longleftrightarrow> \<not> unat a + 1 < 2 ^ LENGTH('a)"
    by (simp add: checked_add_def)
  ultimately show ?thesis by linarith
qed

definition usize_checked_add :: "nat \<Rightarrow> nat \<Rightarrow> nat option" where
  "usize_checked_add a b = (if a + b \<le> usize_max then Some (a + b) else None)"

definition usize_saturating_add :: "nat \<Rightarrow> nat \<Rightarrow> nat" where
  "usize_saturating_add a b = min (a + b) usize_max"

lemma sint_inject [simp]: "sint a = sint b \<longleftrightarrow> a = (b :: 'a::len word)"
  by (auto intro: signed_word_eqI)

text \<open>Masks written as numerals are \<open>take_bit\<close>, which the bit-level simplification rules know.\<close>

lemma and_masks:
  "(w :: 'a::len word) AND 15 = take_bit 4 w"
  "(w :: 'a::len word) AND 255 = take_bit 8 w"
  by (simp_all add: take_bit_eq_mask mask_eq_exp_minus_1)

lemma word_le_mask_iff:
  assumes "n < LENGTH('a)"
  shows "(w :: 'a::len word) \<le> mask n \<longleftrightarrow> take_bit n w = w"
proof -
  have "(2 :: nat) ^ n < 2 ^ LENGTH('a)"
    using assms by (rule power_strict_increasing) simp
  then have "unat (of_nat (2 ^ n - 1) :: 'a word) = 2 ^ n - 1"
    by (simp only: unat_of_nat) (rule mod_less, linarith)
  moreover have "(mask n :: 'a word) = of_nat (2 ^ n - 1)"
    by (simp add: mask_eq_exp_minus_1 of_nat_diff)
  ultimately have m: "unat (mask n :: 'a word) = 2 ^ n - 1" by simp
  have "w \<le> mask n \<longleftrightarrow> unat w < 2 ^ n"
    using zero_less_power [of "2 :: nat" n] unfolding word_le_nat_alt m by linarith
  also have "\<dots> \<longleftrightarrow> take_bit n (unat w) = unat w"
    by (rule take_bit_nat_eq_self_iff [symmetric])
  also have "\<dots> \<longleftrightarrow> take_bit n w = w"
    by (simp add: word_eq_iff_unsigned [where 'a = nat] unsigned_take_bit_eq)
  finally show ?thesis .
qed

lemma of_nat_unat_id [simp]: "(of_nat (unat w) :: 'a::len word) = w"
  by (simp add: of_nat_unat)

section \<open>Little-endian bytes\<close>

text \<open>\<open>to_le_bytes\<close> of an \<open>n\<close>-byte integer, and \<open>from_le_bytes\<close>.\<close>

fun le_bytes :: "nat \<Rightarrow> 'a::len word \<Rightarrow> u8 list" where
  "le_bytes 0 w = []"
| "le_bytes (Suc n) w = ucast w # le_bytes n (drop_bit 8 w)"

fun of_le :: "u8 list \<Rightarrow> 'a::len word" where
  "of_le [] = 0"
| "of_le (b # bs) = ucast b OR push_bit 8 (of_le bs)"

lemma length_le_bytes [simp]: "length (le_bytes n w) = n"
  by (induction n arbitrary: w) simp_all

lemma of_le_le_bytes: "of_le (le_bytes n w) = take_bit (8 * n) w"
proof (induction n arbitrary: w)
  case 0
  show ?case by simp
next
  case (Suc n)
  have "ucast (ucast w :: u8) OR push_bit 8 (take_bit (8 * n) (drop_bit 8 w))
        = take_bit (8 * Suc n) w"
    by (rule bit_word_eqI) (auto simp: bit_simps)
  with Suc.IH show ?case by simp
qed

lemma bit_of_le_bound: "bit (of_le bs :: 'a::len word) i \<Longrightarrow> i < 8 * length bs"
proof (induction bs arbitrary: i)
  case Nil
  then show ?case by simp
next
  case (Cons b bs)
  show ?case
  proof (cases "i < 8")
    case False
    with Cons.prems have "bit (of_le bs :: 'a word) (i - 8)"
      by (auto simp: bit_simps dest: bit_imp_le_length)
    then have "i - 8 < 8 * length bs" by (rule Cons.IH)
    with False show ?thesis by simp
  qed simp
qed

lemma le_bytes_of_le:
  "8 * length bs \<le> LENGTH('a) \<Longrightarrow> le_bytes (length bs) (of_le bs :: 'a::len word) = bs"
proof (induction bs)
  case Nil
  show ?case by simp
next
  case (Cons b bs)
  have low: "ucast (ucast b OR push_bit 8 (of_le bs) :: 'a word) = b"
    using Cons.prems by (intro bit_word_eqI) (auto simp: bit_simps)
  have "le_bytes (length bs) (drop_bit 8 (ucast b OR push_bit 8 (of_le bs :: 'a word))) = bs"
  proof -
    have "drop_bit 8 (ucast b OR push_bit 8 (of_le bs :: 'a word)) = of_le bs"
      using Cons.prems
      by (intro bit_word_eqI) (auto simp: bit_simps dest: bit_imp_le_length bit_of_le_bound)
    with Cons show ?thesis by simp
  qed
  with low show ?case by simp
qed

lemma le_bytes_inj:
  "8 * n = LENGTH('a) \<Longrightarrow> le_bytes n (v :: 'a::len word) = le_bytes n w \<Longrightarrow> v = w"
  by (metis of_le_le_bytes take_bit_length_eq)

text \<open>\<open>as_chunks::<N>().0\<close>: the full chunks of \<open>n\<close> elements, the remainder dropped.\<close>

function chunks_exact :: "nat \<Rightarrow> 'a list \<Rightarrow> 'a list list" where
  "chunks_exact n xs =
     (if n = 0 \<or> length xs < n then [] else take n xs # chunks_exact n (drop n xs))"
  by pat_completeness auto
termination
  by (relation "measure (\<lambda>(n, xs). length xs)") auto

declare chunks_exact.simps [simp del]

lemma chunks_exact_Nil [simp]: "chunks_exact n [] = []"
  by (subst chunks_exact.simps) auto

lemma chunks_exact_append:
  "0 < n \<Longrightarrow> length c = n \<Longrightarrow> chunks_exact n (c @ xs) = c # chunks_exact n xs"
  using chunks_exact.simps [of n "c @ xs"] by simp

lemma chunks_exact_concat:
  "0 < n \<Longrightarrow> (\<forall>c \<in> set cs. length c = n) \<Longrightarrow> chunks_exact n (concat cs) = cs"
  by (induction cs) (simp_all add: chunks_exact_append)

lemma chunks_exact_map_concat:
  "0 < n \<Longrightarrow> (\<And>x. length (f x) = n) \<Longrightarrow> chunks_exact n (concat (map f xs)) = map f xs"
  by (rule chunks_exact_concat) auto

lemma chunks_exact_length_each: "c \<in> set (chunks_exact n xs) \<Longrightarrow> length c = n"
proof (induction n xs rule: chunks_exact.induct)
  case (1 n xs)
  then show ?case by (subst (asm) chunks_exact.simps) (auto split: if_splits)
qed

lemma concat_chunks_exact:
  "0 < n \<Longrightarrow> n dvd length xs \<Longrightarrow> concat (chunks_exact n xs) = xs"
proof (induction n xs rule: chunks_exact.induct)
  case (1 n xs)
  show ?case
  proof (cases "length xs < n")
    case True
    with "1.prems" have "xs = []" by (auto dest: dvd_imp_le)
    then show ?thesis by simp
  next
    case False
    with "1.prems" have "n dvd length (drop n xs)" by (simp add: dvd_minus_self)
    with 1 False show ?thesis by (subst chunks_exact.simps) simp
  qed
qed

lemma length_chunks_exact: "0 < n \<Longrightarrow> length (chunks_exact n xs) = length xs div n"
proof (induction n xs rule: chunks_exact.induct)
  case (1 n xs)
  then show ?case by (subst chunks_exact.simps) (auto simp: le_div_geq not_less)
qed

lemma length_concat_fixed:
  "(\<And>x. length (f x) = n) \<Longrightarrow> length (concat (map f xs)) = n * length xs"
  by (induction xs) simp_all

section \<open>Ordered maps\<close>

text \<open>
  Iteration over a \<open>BTreeMap\<close>: its entries in ascending key order, its keys, and \<open>len\<close>.
\<close>

abbreviation fm_entries :: "('k::linorder, 'v) fmap \<Rightarrow> ('k \<times> 'v) list" where
  "fm_entries \<equiv> sorted_list_of_fmap"

definition fm_keys :: "('k::linorder, 'v) fmap \<Rightarrow> 'k list" where
  "fm_keys m = sorted_list_of_fset (fmdom m)"

definition fm_len :: "('k, 'v) fmap \<Rightarrow> nat" where
  "fm_len m = fcard (fmdom m)"

abbreviation fm_has :: "('k, 'v) fmap \<Rightarrow> 'k \<Rightarrow> bool" where
  "fm_has m k \<equiv> fmlookup m k \<noteq> None"

text \<open>\<open>values().any(p)\<close>.\<close>

definition fm_any :: "('v \<Rightarrow> bool) \<Rightarrow> ('k::linorder, 'v) fmap \<Rightarrow> bool" where
  "fm_any p m = list_ex (p \<circ> snd) (fm_entries m)"

lemma fm_has_iff: "k |\<in>| fmdom m \<longleftrightarrow> fm_has m k"
  by (simp add: fmlookup_dom_iff)

lemma set_fm_keys [simp]: "set (fm_keys m) = fset (fmdom m)"
  by (simp add: fm_keys_def)

lemma fm_keys_sorted_set: "fm_keys m = sorted_list_of_set (fset (fmdom m))"
  by (simp add: fm_keys_def sorted_list_of_fset.rep_eq)

lemma sorted_fm_keys [simp]: "sorted (fm_keys m)" "distinct (fm_keys m)"
  by (simp_all add: fm_keys_sorted_set)

lemma map_fst_fm_entries: "map fst (fm_entries m) = fm_keys m"
  by (simp add: sorted_list_of_fmap_def fm_keys_def comp_def)

lemma map_of_fm_entries: "map_of (fm_entries m) = fmlookup m"
  by (rule map_of_sorted_list)

lemma distinct_fm_entries: "distinct (map fst (fm_entries m))"
  by (simp add: map_fst_fm_entries)

lemma set_fm_entries: "(k, v) \<in> set (fm_entries m) \<longleftrightarrow> fmlookup m k = Some v"
  using map_of_eq_Some_iff [OF distinct_fm_entries, of m k v] by (simp add: map_of_fm_entries)

lemma length_fm_entries: "length (fm_entries m) = fm_len m"
proof -
  have "length (fm_entries m) = length (fm_keys m)"
    by (metis length_map map_fst_fm_entries)
  also have "\<dots> = card (set (fm_keys m))"
    by (rule distinct_card [symmetric]) simp
  finally show ?thesis by (simp add: fm_len_def fcard.rep_eq)
qed

lemma fm_any_iff: "fm_any p m \<longleftrightarrow> (\<exists>k v. fmlookup m k = Some v \<and> p v)"
  unfolding fm_any_def list_ex_iff by (force simp flip: set_fm_entries)

lemma fm_len_upd: "fm_len (fmupd k v m) = (if fm_has m k then fm_len m else Suc (fm_len m))"
  by (auto simp: fm_len_def fcard_finsert_if fmlookup_dom_iff)

lemma fm_len_drop: "fm_len (fmdrop k m) = (if fm_has m k then fm_len m - 1 else fm_len m)"
  by (auto simp: fm_len_def fcard.rep_eq fmlookup_dom_iff card_Diff_singleton_if)

lemma fm_len_0_iff: "fm_len m = 0 \<longleftrightarrow> m = fmempty"
proof
  assume "fm_len m = 0"
  then have "fmdom m = {||}" by (simp add: fm_len_def)
  then show "m = fmempty" by (intro fmap_ext) (auto dest: fmdom_notD)
qed (simp add: fm_len_def)

lemma fm_len_empty [simp]: "fm_len fmempty = 0"
  by (simp add: fm_len_def)

lemma fm_eqI: "(\<And>k. fmlookup m k = fmlookup n k) \<Longrightarrow> m = n"
  by (rule fmap_ext) simp

text \<open>Inserting a list of entries one by one: the last entry of a key wins.\<close>

lemma fold_fmupd_lookup_by:
  "fmlookup (fold (\<lambda>e m. fmupd (k e) (v e) m) es m) i =
     (case map_of (rev (map (\<lambda>e. (k e, v e)) es)) i of Some x \<Rightarrow> Some x | None \<Rightarrow> fmlookup m i)"
  by (induction es arbitrary: m) (auto simp: map_add_def split: option.splits)

lemma map_of_rev_distinct: "distinct (map fst kvs) \<Longrightarrow> map_of (rev kvs) = map_of kvs"
  by (rule map_of_inject_set [THEN iffD2]) (simp_all flip: rev_map)

lemma map_of_same_set:
  "distinct (map fst xs) \<Longrightarrow> distinct (map fst ys) \<Longrightarrow> set xs = set ys \<Longrightarrow> map_of xs = map_of ys"
  using map_of_inject_set by blast

lemma fold_fmupd_lookup:
  "distinct (map fst kvs) \<Longrightarrow> fmlookup (fold (\<lambda>(k, v). fmupd k v) kvs m) x =
     (case map_of kvs x of Some v \<Rightarrow> Some v | None \<Rightarrow> fmlookup m x)"
  using fold_fmupd_lookup_by [of fst snd kvs m x] by (simp add: case_prod_unfold map_of_rev_distinct)

lemma fold_fm_entries: "fold (\<lambda>kv m. fmupd (fst kv) (snd kv) m) (fm_entries m) n = n ++\<^sub>f m"
  by (rule fm_eqI)
    (auto simp: fold_fmupd_lookup_by map_of_rev_distinct distinct_fm_entries map_of_fm_entries split: option.splits)

lemma fold_fm_entries_pair: "fold (\<lambda>(k, v). fmupd k v) (fm_entries m) fmempty = m"
  using fold_fm_entries [of m fmempty] by (simp add: case_prod_unfold)

text \<open>A fallible map succeeds when every element does; words are told apart by their values.\<close>

lemma rmap_ok: "(\<And>x. x \<in> set xs \<Longrightarrow> \<exists>y. f x = Inr y) \<Longrightarrow> \<exists>ys. rmap f xs = Inr ys"
proof (induction xs)
  case (Cons x xs)
  from Cons.prems [of x] obtain y where "f x = Inr y" by auto
  moreover have "\<exists>ys. rmap f xs = Inr ys" using Cons by simp
  ultimately show ?case by auto
qed simp

lemma unat_inject: "unat v = unat w \<longleftrightarrow> v = (w :: 'a::len word)"
  by (auto intro: unsigned_word_eqI)

end
