(* ===== verification/Interfaces.thy ===== *)
theory Interfaces
  imports Prelude "HOL-Library.Multiset"
begin

text \<open>
  The interfaces between components, as locales: what a client relies on and a provider
  promises. Each locale is interpreted, in the theory of the component that provides it, on
  the definitions that model that component.

  \<^item> \<open>codec\<close>, \<open>strict_codec\<close>: encoders and decoders (keys, packed ids, byte payloads);
  \<^item> \<open>cell_store\<close>: block storage as read by delta, dispatch, commit and query code;
  \<^item> \<open>bounded_sink\<close>: containers that refuse an element once their declared capacity is reached;
  \<^item> \<open>handle_table\<close>: tables of reference-counted handles, as the publication code uses them.
\<close>

section \<open>Encoders and decoders\<close>

locale codec =
  fixes wf :: "'a \<Rightarrow> bool"
    and encode :: "'a \<Rightarrow> 'b"
    and decode :: "'b \<Rightarrow> 'e + 'a"
  assumes decode_encode: "wf x \<Longrightarrow> decode (encode x) = Inr x"
begin

lemma encode_inject: "wf x \<Longrightarrow> wf y \<Longrightarrow> encode x = encode y \<longleftrightarrow> x = y"
  by (metis decode_encode sum.inject(2))

lemma encode_inj_on: "inj_on encode {x. wf x}"
  by (auto simp: inj_on_def encode_inject)

end

text \<open>A decoder is strict when it accepts nothing but the encoder's own output.\<close>

locale strict_codec = codec +
  assumes encode_decode: "decode y = Inr x \<Longrightarrow> wf x \<and> encode x = y"
begin

lemma decode_iff: "decode y = Inr x \<longleftrightarrow> wf x \<and> y = encode x"
  using decode_encode encode_decode by blast

lemma decode_rejects_iff: "(\<exists>e. decode y = Inl e) \<longleftrightarrow> y \<notin> encode ` {x. wf x}"
proof (cases "decode y")
  case (Inl e)
  then show ?thesis by (auto simp: decode_encode)
next
  case (Inr x)
  then show ?thesis using encode_decode [OF Inr] by auto
qed

lemma decode_inject: "decode y = Inr x \<Longrightarrow> decode z = Inr x \<Longrightarrow> y = z"
  by (simp add: decode_iff)

end

section \<open>Cell stores\<close>

text \<open>
  A store of \<open>n\<close> cells: reading back what was written, leaving the other cells alone, and
  keeping the representation invariant. The client lemma is that a loop of writes leaves in
  each cell the last value written to it.
\<close>

locale cell_store =
  fixes n :: nat
    and inv :: "'s \<Rightarrow> bool"
    and rd :: "'s \<Rightarrow> nat \<Rightarrow> 'v"
    and wr :: "nat \<Rightarrow> 'v \<Rightarrow> 's \<Rightarrow> 's"
  assumes wr_inv: "inv s \<Longrightarrow> i < n \<Longrightarrow> inv (wr i v s)"
    and rd_wr: "inv s \<Longrightarrow> i < n \<Longrightarrow> j < n \<Longrightarrow> rd (wr i v s) j = (if j = i then v else rd s j)"
begin

definition wr_all :: "(nat \<times> 'v) list \<Rightarrow> 's \<Rightarrow> 's" where
  "wr_all es s = fold (\<lambda>(i, v). wr i v) es s"

lemma wr_all_inv: "inv s \<Longrightarrow> \<forall>e \<in> set es. fst e < n \<Longrightarrow> inv (wr_all es s)"
  unfolding wr_all_def by (induction es arbitrary: s) (auto simp: wr_inv split: prod.splits)

lemma rd_wr_all:
  "inv s \<Longrightarrow> \<forall>e \<in> set es. fst e < n \<Longrightarrow> j < n \<Longrightarrow>
     rd (wr_all es s) j = (case map_of (rev es) j of Some v \<Rightarrow> v | None \<Rightarrow> rd s j)"
  unfolding wr_all_def
proof (induction es arbitrary: s)
  case Nil
  then show ?case by simp
next
  case (Cons e es)
  obtain i v where e: "e = (i, v)" by (cases e)
  with Cons.prems have i: "i < n" by simp
  have "rd (fold (\<lambda>(i, v). wr i v) es (wr i v s)) j =
      (case map_of (rev es) j of Some w \<Rightarrow> w | None \<Rightarrow> rd (wr i v s) j)"
    using Cons.prems i by (intro Cons.IH) (auto simp: wr_inv)
  then show ?case
    using Cons.prems i e by (simp add: rd_wr map_add_def split: option.splits)
qed

lemma rd_wr_all_untouched:
  "inv s \<Longrightarrow> \<forall>e \<in> set es. fst e < n \<Longrightarrow> j < n \<Longrightarrow> j \<notin> fst ` set es \<Longrightarrow>
     rd (wr_all es s) j = rd s j"
  by (simp add: rd_wr_all map_of_eq_None_iff [THEN iffD2] split: option.splits)

end

section \<open>Bounded sinks\<close>

text \<open>A container with a declared capacity: it takes an element or refuses it, never truncates.\<close>

locale bounded_sink =
  fixes content :: "'s \<Rightarrow> 'a list"
    and cap :: "'s \<Rightarrow> nat"
    and push :: "'a \<Rightarrow> 's \<Rightarrow> 'e + 's"
  assumes push_ok: "length (content s) < cap s \<Longrightarrow>
      \<exists>t. push x s = Inr t \<and> content t = content s @ [x] \<and> cap t = cap s"
    and push_full: "cap s \<le> length (content s) \<Longrightarrow> \<exists>e. push x s = Inl e"
begin

lemma push_InrD:
  assumes "push x s = Inr t"
  shows "content t = content s @ [x]" "cap t = cap s" "length (content t) \<le> cap t"
proof -
  have "length (content s) < cap s"
    using push_full [of s x] assms by (cases "cap s \<le> length (content s)") auto
  with push_ok [OF this, of x] assms
  show "content t = content s @ [x]" "cap t = cap s" "length (content t) \<le> cap t" by auto
qed

lemma push_all_content:
  "rfold push xs s = Inr t \<Longrightarrow> content t = content s @ xs \<and> cap t = cap s"
proof (induction xs arbitrary: s)
  case Nil
  then show ?case by simp
next
  case (Cons x xs)
  then obtain u where "push x s = Inr u" "rfold push xs u = Inr t"
    by (auto simp: result_iff)
  with Cons.IH [of u] push_InrD [of x s u] show ?case by simp
qed

lemma push_all_ok_iff:
  "length (content s) \<le> cap s \<Longrightarrow>
     (\<exists>t. rfold push xs s = Inr t) \<longleftrightarrow> length (content s) + length xs \<le> cap s"
proof (induction xs arbitrary: s)
  case Nil
  then show ?case by simp
next
  case (Cons x xs)
  show ?case
  proof (cases "length (content s) < cap s")
    case True
    then obtain t where t: "push x s = Inr t" "content t = content s @ [x]" "cap t = cap s"
      using push_ok by blast
    with True Cons.IH [of t] show ?thesis by simp
  next
    case False
    with push_full [of s x] show ?thesis by auto
  qed
qed

end

section \<open>Handle tables\<close>

text \<open>
  A table whose slots are counted by outstanding handles: \<open>ok s H\<close> says that the table \<open>s\<close> accounts
  for exactly the multiset \<open>H\<close> of handles. Duplicating and releasing a handle keep the account.
\<close>

locale handle_table =
  fixes ok :: "'s \<Rightarrow> 'h multiset \<Rightarrow> bool"
    and dup :: "'h \<Rightarrow> 's \<Rightarrow> 's"
    and release :: "'h \<Rightarrow> 's \<Rightarrow> 's"
  assumes dup_ok: "ok s H \<Longrightarrow> h \<in># H \<Longrightarrow> size H < usize_max \<Longrightarrow> ok (dup h s) (add_mset h H)"
    and release_ok: "ok s H \<Longrightarrow> h \<in># H \<Longrightarrow> ok (release h s) (H - {#h#})"
begin

lemma release_added: "ok s (add_mset h H) \<Longrightarrow> ok (release h s) H"
  using release_ok [of s "add_mset h H" h] by simp

lemma release_dup: "ok s H \<Longrightarrow> h \<in># H \<Longrightarrow> size H < usize_max \<Longrightarrow> ok (release h (dup h s)) H"
  by (rule release_added) (rule dup_ok)

lemma release_all: "ok s (mset hs + H) \<Longrightarrow> ok (fold release hs s) H"
  by (induction hs arbitrary: s) (auto dest: release_added)

text \<open>Handing one handle over to a new owner while another is retired.\<close>

lemma exchange:
  assumes "ok s (add_mset old (add_mset new H))" "size H + 2 < usize_max"
  shows "ok (release old (dup new s)) (add_mset new (add_mset new H))"
proof -
  have "ok (dup new s) (add_mset new (add_mset old (add_mset new H)))"
    using assms by (intro dup_ok) simp_all
  then show ?thesis by (intro release_added) (simp add: add_mset_commute)
qed

end

end
