(* ===== verification/Strings.thy ===== *)
theory Strings
  imports Interfaces
begin

text \<open>
  The string routines of the Rust standard library that the sources use, on byte strings:
  \<open>str::split\<close> on a character, decimal \<open>Display\<close> and \<open>parse::<i64>\<close> of integers, lower-case
  hexadecimal. Each comes with the facts the key and identity codecs need: splitting a joined
  list, decimal text is canonical, and parsing inverts printing.
\<close>

section \<open>Splitting and joining\<close>

fun split_on :: "char \<Rightarrow> string \<Rightarrow> string list" where
  "split_on c [] = [[]]"
| "split_on c (x # xs) =
     (if x = c then [] # split_on c xs
      else (case split_on c xs of [] \<Rightarrow> [[x]] | p # ps \<Rightarrow> (x # p) # ps))"

fun join_with :: "char \<Rightarrow> string list \<Rightarrow> string" where
  "join_with c [] = []"
| "join_with c [p] = p"
| "join_with c (p # q # ps) = p @ c # join_with c (q # ps)"

lemma split_on_ne [simp]: "split_on c s \<noteq> []"
  by (induction s) (auto split: list.splits)

lemma split_on_single: "c \<notin> set p \<Longrightarrow> split_on c p = [p]"
  by (induction p) auto

lemma split_on_step: "c \<notin> set p \<Longrightarrow> split_on c (p @ c # s) = p # split_on c s"
  by (induction p) auto

lemma split_on_join:
  "ps \<noteq> [] \<Longrightarrow> \<forall>p \<in> set ps. c \<notin> set p \<Longrightarrow> split_on c (join_with c ps) = ps"
  by (induction c ps rule: join_with.induct) (simp_all add: split_on_single split_on_step)

lemma join_with_Cons: "ps \<noteq> [] \<Longrightarrow> join_with c (p # ps) = p @ c # join_with c ps"
  by (cases ps) simp_all

lemma join_split: "join_with c (split_on c s) = s"
proof (induction s)
  case Nil
  show ?case by simp
next
  case (Cons x xs)
  show ?case
  proof (cases "x = c")
    case True
    with Cons.IH show ?thesis by (simp add: join_with_Cons)
  next
    case False
    obtain p ps where sp: "split_on c xs = p # ps"
      by (cases "split_on c xs") simp_all
    with False Cons.IH show ?thesis by (cases ps) simp_all
  qed
qed

section \<open>Decimal text\<close>

definition is_digit :: "char \<Rightarrow> bool" where
  "is_digit c \<longleftrightarrow> 48 \<le> (of_char c :: nat) \<and> (of_char c :: nat) \<le> 57"

definition digit_val :: "char \<Rightarrow> nat" where
  "digit_val c = of_char c - 48"

definition digit_char :: "nat \<Rightarrow> char" where
  "digit_char d = char_of (48 + d)"

text \<open>\<open>Display\<close> of an unsigned and of a signed integer.\<close>

function dec_nat :: "nat \<Rightarrow> string" where
  "dec_nat n = (if n < 10 then [digit_char n] else dec_nat (n div 10) @ [digit_char (n mod 10)])"
  by pat_completeness auto
termination
  by (relation "measure id") auto

declare dec_nat.simps [simp del]

definition dec_int :: "int \<Rightarrow> string" where
  "dec_int i = (if i < 0 then CHR ''-'' # dec_nat (nat (- i)) else dec_nat (nat i))"

definition dec_val :: "string \<Rightarrow> nat" where
  "dec_val s = foldl (\<lambda>a c. 10 * a + digit_val c) 0 s"

text \<open>\<open>ilog10\<close> of a positive integer.\<close>

function ilog10 :: "nat \<Rightarrow> nat" where
  "ilog10 n = (if n < 10 then 0 else Suc (ilog10 (n div 10)))"
  by pat_completeness auto
termination
  by (relation "measure id") auto

declare ilog10.simps [simp del]

definition i64_in_range :: "int \<Rightarrow> bool" where
  "i64_in_range v \<longleftrightarrow> - (2 ^ 63) \<le> v \<and> v < 2 ^ 63"

text \<open>\<open>str::parse::<i64>\<close>: an optional sign, at least one digit, the value in range.\<close>

definition parse_i64 :: "string \<Rightarrow> int option" where
  "parse_i64 s =
     (let (neg, ds) = (case s of [] \<Rightarrow> (False, [])
                       | c # cs \<Rightarrow> if c = CHR ''-'' then (True, cs)
                                  else if c = CHR ''+'' then (False, cs) else (False, s));
          v = (if neg then - int (dec_val ds) else int (dec_val ds))
      in if ds = [] \<or> \<not> list_all is_digit ds \<or> \<not> i64_in_range v then None else Some v)"

lemma digit_char_facts:
  assumes "d < 10"
  shows "digit_val (digit_char d) = d" "is_digit (digit_char d)"
    "digit_char d = CHR ''0'' \<longleftrightarrow> d = 0"
proof -
  have v: "(of_char (digit_char d) :: nat) = 48 + d"
    using assms by (simp add: digit_char_def)
  then show "digit_val (digit_char d) = d" "is_digit (digit_char d)"
    using assms by (simp_all add: digit_val_def is_digit_def)
  have "digit_char d = CHR ''0'' \<longleftrightarrow> (of_char (digit_char d) :: nat) = of_char (CHR ''0'')"
    by (simp only: of_char_eq_iff)
  then show "digit_char d = CHR ''0'' \<longleftrightarrow> d = 0" by (simp add: v)
qed

lemma digit_char_val: "is_digit c \<Longrightarrow> digit_char (digit_val c) = c"
  by (simp add: is_digit_def digit_val_def digit_char_def)

lemma digit_val_less: "is_digit c \<Longrightarrow> digit_val c < 10"
  by (auto simp: is_digit_def digit_val_def)

lemma digit_val_0: "is_digit c \<Longrightarrow> digit_val c = 0 \<longleftrightarrow> c = CHR ''0''"
  using digit_char_val [of c] digit_char_facts(3) [of 0] by (auto simp: digit_val_def)

lemma dec_val_snoc [simp]: "dec_val (s @ [c]) = 10 * dec_val s + digit_val c"
  by (simp add: dec_val_def)

lemma dec_val_Nil [simp]: "dec_val [] = 0"
  by (simp add: dec_val_def)

lemma dec_nat_ne [simp]: "dec_nat n \<noteq> []"
  by (subst dec_nat.simps) simp

lemma dec_val_dec_nat [simp]: "dec_val (dec_nat n) = n"
proof (induction n rule: dec_nat.induct)
  case (1 n)
  show ?case
  proof (cases "n < 10")
    case True
    then show ?thesis
      by (subst dec_nat.simps) (simp add: dec_val_def digit_char_facts)
  next
    case False
    with 1 show ?thesis by (subst dec_nat.simps) (simp add: digit_char_facts)
  qed
qed

lemma dec_nat_digits: "list_all is_digit (dec_nat n)"
proof (induction n rule: dec_nat.induct)
  case (1 n)
  then show ?case by (subst dec_nat.simps) (auto simp: digit_char_facts)
qed

lemma dec_nat_hd_zero: "hd (dec_nat n) = CHR ''0'' \<longleftrightarrow> n = 0"
proof (induction n rule: dec_nat.induct)
  case (1 n)
  show ?case
  proof (cases "n < 10")
    case True
    then show ?thesis by (subst dec_nat.simps) (simp add: digit_char_facts)
  next
    case False
    then have "hd (dec_nat n) = hd (dec_nat (n div 10))"
      by (subst dec_nat.simps) simp
    with False 1 show ?thesis by (simp add: div_eq_0_iff)
  qed
qed

lemma length_dec_nat_le: "0 < k \<Longrightarrow> length (dec_nat n) \<le> k \<longleftrightarrow> n < 10 ^ k"
proof (induction n arbitrary: k rule: dec_nat.induct)
  case (1 n)
  show ?case
  proof (cases "n < 10")
    case True
    with 1(2) have "n < 10 ^ k" by (cases k) (auto intro: less_le_trans [of n 10])
    with True 1(2) show ?thesis by (subst dec_nat.simps) simp
  next
    case False
    have len: "length (dec_nat n) = Suc (length (dec_nat (n div 10)))"
      using False by (subst dec_nat.simps) simp
    obtain j where k: "k = Suc j" using 1(2) by (cases k) auto
    show ?thesis
    proof (cases "j = 0")
      case True
      with False show ?thesis by (simp add: len k)
    next
      case False
      then have "length (dec_nat (n div 10)) \<le> j \<longleftrightarrow> n div 10 < 10 ^ j"
        using 1(1) [OF \<open>\<not> n < 10\<close>] by simp
      then show ?thesis by (simp add: len k div_less_iff_less_mult mult.commute)
    qed
  qed
qed

lemma dec_nat_dec_val:
  "list_all is_digit s \<Longrightarrow> s \<noteq> [] \<Longrightarrow> (hd s = CHR ''0'' \<longrightarrow> s = ''0'') \<Longrightarrow> dec_nat (dec_val s) = s"
proof (induction s rule: rev_induct)
  case Nil
  then show ?case by simp
next
  case (snoc c s)
  have c: "digit_val c < 10" "digit_char (digit_val c) = c"
    using snoc.prems(1) by (simp_all add: digit_val_less digit_char_val)
  show ?case
  proof (cases "s = []")
    case True
    with c show ?thesis by (subst dec_nat.simps) (simp add: dec_val_def)
  next
    case False
    with snoc.prems have s: "dec_nat (dec_val s) = s" "hd s \<noteq> CHR ''0''"
      by (auto intro!: snoc.IH)
    with dec_nat_hd_zero [of "dec_val s"] have "dec_val s \<noteq> 0" by auto
    with c s(1) show ?thesis by (subst dec_nat.simps) simp
  qed
qed

lemma digit_neq_minus: "is_digit c \<Longrightarrow> c \<noteq> CHR ''-''"
  "is_digit c \<Longrightarrow> c \<noteq> CHR ''+''" "is_digit c \<Longrightarrow> c \<noteq> CHR '':''"
  by (auto simp: is_digit_def)

lemma dec_nat_no_colon: "CHR '':'' \<notin> set (dec_nat n)"
  using dec_nat_digits [of n] digit_neq_minus(3) by (auto simp: list_all_iff)

lemma dec_int_no_colon: "CHR '':'' \<notin> set (dec_int i)"
  by (simp add: dec_int_def dec_nat_no_colon)

section \<open>Bytes and debug text\<close>

text \<open>A lower-case hexadecimal digit.\<close>

definition hex_digit :: "nat \<Rightarrow> char" where
  "hex_digit d = (if d < 10 then char_of (48 + d) else char_of (87 + d))"

text \<open>\<open>str::as_bytes\<close>.\<close>

definition str_bytes :: "string \<Rightarrow> u8 list" where
  "str_bytes s = map of_char s"

lemma length_str_bytes [simp]: "length (str_bytes s) = length s"
  by (simp add: str_bytes_def)

lemma of_char_u8_inject: "(of_char c :: u8) = of_char d \<longleftrightarrow> c = d"
proof
  assume eq: "(of_char c :: u8) = of_char d"
  have conv: "(of_char e :: u8) = of_nat (of_char e)" for e
    by (simp add: of_char_def)
  have "unat (of_nat (of_char e) :: u8) = (of_char e :: nat)" for e
    by (simp add: unat_of_nat)
  with eq have "(of_char c :: nat) = of_char d" by (metis conv)
  then show "c = d" by (simp only: of_char_eq_iff)
qed simp

lemma str_bytes_inject [simp]: "str_bytes s = str_bytes t \<longleftrightarrow> s = t"
  unfolding str_bytes_def by (rule inj_map_eq_map) (simp add: inj_def of_char_u8_inject)

text \<open>
  \<open>{:?}\<close> as the derived implementations print it: a list or map joins its items with a comma and
  a space. A string is quoted; the strings printed here contain nothing that needs an escape.
\<close>

fun comma_join :: "string list \<Rightarrow> string" where
  "comma_join [] = []"
| "comma_join [p] = p"
| "comma_join (p # q # ps) = p @ '', '' @ comma_join (q # ps)"

definition dbg_list :: "('a \<Rightarrow> string) \<Rightarrow> 'a list \<Rightarrow> string" where
  "dbg_list f xs = ''['' @ comma_join (map f xs) @ '']''"

definition dbg_map :: "('a \<Rightarrow> string) \<Rightarrow> ('b \<Rightarrow> string) \<Rightarrow> ('a \<times> 'b) list \<Rightarrow> string" where
  "dbg_map f g kvs = ''{'' @ comma_join (map (\<lambda>(k, v). f k @ '': '' @ g v) kvs) @ ''}''"

definition dbg_quoted :: "string \<Rightarrow> string" where
  "dbg_quoted s = [CHR 0x22] @ s @ [CHR 0x22]"

text \<open>
  \<open>{:?}\<close> of a string that may need escapes: the quote, the backslash and the ASCII control
  characters, exactly as \<open>char::escape_debug_ext\<close> writes them. Bytes of multi-byte characters are
  printed as they are, which is exact for printable, non-combining characters.
\<close>

function hex_nat :: "nat \<Rightarrow> string" where
  "hex_nat n = (if n < 16 then [hex_digit n] else hex_nat (n div 16) @ [hex_digit (n mod 16)])"
  by pat_completeness auto
termination
  by (relation "measure id") auto

declare hex_nat.simps [simp del]

definition dbg_char :: "char \<Rightarrow> string" where
  "dbg_char c =
     (let b = (of_char c :: nat)
      in if b = 0 then [CHR 0x5C, CHR ''0'']
         else if b = 9 then [CHR 0x5C, CHR ''t'']
         else if b = 10 then [CHR 0x5C, CHR ''n'']
         else if b = 13 then [CHR 0x5C, CHR ''r'']
         else if b = 34 then [CHR 0x5C, CHR 0x22]
         else if b = 92 then [CHR 0x5C, CHR 0x5C]
         else if b < 32 \<or> b = 127 then [CHR 0x5C] @ ''u{'' @ hex_nat b @ ''}''
         else [c])"

definition dbg_str :: "string \<Rightarrow> string" where
  "dbg_str s = [CHR 0x22] @ concat (map dbg_char s) @ [CHR 0x22]"

definition dbg_bytes :: "u8 list \<Rightarrow> string" where
  "dbg_bytes bs = dbg_list (\<lambda>b. dec_nat (unat b)) bs"

section \<open>Hexadecimal text\<close>

text \<open>\<open>format!("{b:02x}")\<close> of one byte, and of a byte string.\<close>

definition hex_byte :: "u8 \<Rightarrow> string" where
  "hex_byte b = [hex_digit (unat b div 16), hex_digit (unat b mod 16)]"

definition hex_string :: "u8 list \<Rightarrow> string" where
  "hex_string bs = concat (map hex_byte bs)"

lemma of_char_hex_digit:
  "d < 16 \<Longrightarrow> (of_char (hex_digit d) :: nat) = (if d < 10 then 48 + d else 87 + d)"
  by (simp add: hex_digit_def)

lemma hex_digit_inj:
  assumes "d < 16" "e < 16" "hex_digit d = hex_digit e"
  shows "d = e"
proof -
  have "(if d < 10 then 48 + d else 87 + d) = (if e < 10 then 48 + e else 87 + e)"
    using assms by (simp only: of_char_hex_digit [symmetric])
  with assms(1,2) show ?thesis by (simp split: if_splits)
qed

lemma hex_byte_inj:
  assumes eq: "hex_byte a = hex_byte b"
  shows "a = b"
proof -
  have "unat a < 2 ^ LENGTH(8)" "unat b < 2 ^ LENGTH(8)" by (rule unsigned_less)+
  then have lt: "unat a div 16 < 16" "unat b div 16 < 16" by (simp_all add: div_less_iff_less_mult)
  from eq have digits: "hex_digit (unat a div 16) = hex_digit (unat b div 16)"
    "hex_digit (unat a mod 16) = hex_digit (unat b mod 16)"
    by (simp_all only: hex_byte_def list.inject)
  have "unat a div 16 = unat b div 16"
    by (rule hex_digit_inj [OF lt digits(1)])
  moreover have "unat a mod 16 = unat b mod 16"
    by (rule hex_digit_inj [OF _ _ digits(2)]) simp_all
  ultimately have "unat a = unat b" by (metis mult_div_mod_eq)
  then show ?thesis by (rule unsigned_word_eqI)
qed

lemma length_hex_byte [simp]: "length (hex_byte b) = 2"
  by (simp add: hex_byte_def)

lemma hex_string_chunks: "chunks_exact 2 (hex_string bs) = map hex_byte bs"
  unfolding hex_string_def by (rule chunks_exact_map_concat) simp_all

lemma hex_string_inj: "hex_string as = hex_string bs \<longleftrightarrow> as = bs"
proof
  assume "hex_string as = hex_string bs"
  then have "map hex_byte as = map hex_byte bs"
    by (metis hex_string_chunks)
  then show "as = bs"
    by (rule map_injective) (rule injI, erule hex_byte_inj)
qed simp

lemma length_hex_string: "length (hex_string bs) = 2 * length bs"
  unfolding hex_string_def by (rule length_concat_fixed) simp

section \<open>UTF-8\<close>

text \<open>
  \<open>str::from_utf8\<close>: the well-formed byte sequences of the Unicode standard (no overlong forms, no
  surrogates, nothing above U+10FFFF).
\<close>

definition byte_of :: "char \<Rightarrow> nat" where
  "byte_of c = of_char c"

definition utf8_cont :: "nat \<Rightarrow> bool" where
  "utf8_cont b \<longleftrightarrow> 0x80 \<le> b \<and> b \<le> 0xBF"

definition utf8_three :: "nat \<Rightarrow> nat \<Rightarrow> bool" where
  "utf8_three a b \<longleftrightarrow> (a = 0xE0 \<and> 0xA0 \<le> b \<and> b \<le> 0xBF) \<or> (0xE1 \<le> a \<and> a \<le> 0xEC \<and> utf8_cont b) \<or>
     (a = 0xED \<and> 0x80 \<le> b \<and> b \<le> 0x9F) \<or> (0xEE \<le> a \<and> a \<le> 0xEF \<and> utf8_cont b)"

definition utf8_four :: "nat \<Rightarrow> nat \<Rightarrow> bool" where
  "utf8_four a b \<longleftrightarrow> (a = 0xF0 \<and> 0x90 \<le> b \<and> b \<le> 0xBF) \<or> (0xF1 \<le> a \<and> a \<le> 0xF3 \<and> utf8_cont b) \<or>
     (a = 0xF4 \<and> 0x80 \<le> b \<and> b \<le> 0x8F)"

text \<open>What a Rust \<open>String\<close> guarantees of its bytes.\<close>

fun str_ok :: "string \<Rightarrow> bool" where
  "str_ok [] = True"
| "str_ok (c # s) =
     (let a = byte_of c in
      if a < 0x80 then str_ok s
      else if 0xC2 \<le> a \<and> a \<le> 0xDF then 1 \<le> length s \<and> utf8_cont (byte_of (s ! 0)) \<and> str_ok (drop 1 s)
      else if 0xE0 \<le> a \<and> a \<le> 0xEF
      then 2 \<le> length s \<and> utf8_three a (byte_of (s ! 0)) \<and> utf8_cont (byte_of (s ! 1)) \<and> str_ok (drop 2 s)
      else 3 \<le> length s \<and> utf8_four a (byte_of (s ! 0)) \<and> utf8_cont (byte_of (s ! 1)) \<and>
        utf8_cont (byte_of (s ! 2)) \<and> str_ok (drop 3 s))"

text \<open>\<open>char::len_utf8\<close> of the character that starts with a given byte.\<close>

definition utf8_len :: "nat \<Rightarrow> nat" where
  "utf8_len a = (if a < 0x80 then 1 else if a < 0xE0 then 2 else if a < 0xF0 then 3 else 4)"

definition bytes_str :: "u8 list \<Rightarrow> string" where
  "bytes_str bs = map (\<lambda>b. char_of (unat b)) bs"

definition from_utf8 :: "u8 list \<Rightarrow> string option" where
  "from_utf8 bs = (if str_ok (bytes_str bs) then Some (bytes_str bs) else None)"

lemma unat_of_char: "unat (of_char c :: u8) = (of_char c :: nat)"
proof -
  have "(of_char c :: u8) = of_nat (of_char c)" by (simp add: of_char_def)
  then show ?thesis by (simp add: unat_of_nat)
qed

lemma bytes_str_bytes [simp]: "bytes_str (str_bytes s) = s"
  by (simp add: bytes_str_def str_bytes_def unat_of_char comp_def)

lemma str_bytes_str [simp]: "str_bytes (bytes_str bs) = bs"
proof -
  have "(of_char (char_of (unat b)) :: u8) = b" for b :: u8
  proof (rule unsigned_word_eqI)
    have "unat b < 2 ^ LENGTH(8)" by (rule unsigned_less)
    then show "unat (of_char (char_of (unat b)) :: u8) = unat b" by (simp add: unat_of_char)
  qed
  then show ?thesis by (simp add: bytes_str_def str_bytes_def comp_def)
qed

lemma from_utf8_str: "str_ok s \<Longrightarrow> from_utf8 (str_bytes s) = Some s"
  by (simp add: from_utf8_def)

lemma from_utf8_Some: "from_utf8 bs = Some s \<longleftrightarrow> str_ok s \<and> bs = str_bytes s"
  by (auto simp: from_utf8_def)

declare str_ok.simps(2) [simp del]

lemma str_ok_ascii: "byte_of c < 0x80 \<Longrightarrow> str_ok (c # s) = str_ok s"
  by (simp add: str_ok.simps)

lemma str_ok_ascii_all: "list_all (\<lambda>c. byte_of c < 0x80) s \<Longrightarrow> str_ok s"
  by (induction s) (simp_all add: str_ok_ascii)

lemma str_ok_append: "str_ok s \<Longrightarrow> str_ok (s @ t) = str_ok t"
proof (induction s rule: str_ok.induct)
  case 1
  then show ?case by simp
next
  case (2 c s)
  then show ?case
    by (auto simp: str_ok.simps(2) [of c] Let_def nth_append numeral_2_eq_2 numeral_3_eq_3 split: if_splits)
qed

lemma str_ok_concat: "(\<And>s. s \<in> set ss \<Longrightarrow> str_ok s) \<Longrightarrow> str_ok (concat ss)"
  by (induction ss) (simp_all add: str_ok_append)

text \<open>A well-formed string that is not empty starts with one whole character.\<close>

lemma str_ok_char:
  assumes "str_ok (c # s)"
  shows "utf8_len (byte_of c) - 1 \<le> length s" "str_ok (drop (utf8_len (byte_of c) - 1) s)"
    "\<forall>d \<in> set (take (utf8_len (byte_of c) - 1) s). 0x80 \<le> byte_of d"
proof -
  have 4: "byte_of c < 0xF0 \<or> 0xF0 \<le> byte_of c" by auto
  show "utf8_len (byte_of c) - 1 \<le> length s" "str_ok (drop (utf8_len (byte_of c) - 1) s)"
    using assms by (auto simp: str_ok.simps(2) utf8_len_def Let_def utf8_four_def utf8_three_def split: if_splits)
  show "\<forall>d \<in> set (take (utf8_len (byte_of c) - 1) s). 0x80 \<le> byte_of d"
    using assms
    by (auto simp: str_ok.simps(2) utf8_len_def Let_def utf8_four_def utf8_three_def utf8_cont_def
        in_set_conv_nth less_Suc_eq numeral_2_eq_2 numeral_3_eq_3 split: if_splits)
qed

end
