(* ===== verification/Contract.thy ===== *)
theory Contract
  imports Strings
begin

text \<open>
  The constants of the voxel world contract (\<open>lumio-voxel-contracts/src/voxel_world.rs\<close>): key
  prefixes and arities, extents and limits, the stable table of error codes, and the functions
  that look an identifier up in those tables. Every error the development returns is one of
  these strings, as in the code, so that a lemma about an error names the id a client sees.
\<close>

section \<open>Limits\<close>

definition SECTION_KEY_ARITY :: nat where [simp]: "SECTION_KEY_ARITY = 3"
definition CHUNK_KEY_ARITY :: nat where [simp]: "CHUNK_KEY_ARITY = 2"
definition SECTION_COORD_MIN :: int where [simp]: "SECTION_COORD_MIN = - 2147483648"
definition SECTION_COORD_MAX :: int where [simp]: "SECTION_COORD_MAX = 2147483647"
definition SECTION_EXTENT :: nat where [simp]: "SECTION_EXTENT = 16"
definition SECTION_CELLS :: nat where [simp]: "SECTION_CELLS = 4096"
definition SECTION_Y_MIN :: int where [simp]: "SECTION_Y_MIN = 0"
definition SECTION_Y_MAX :: int where [simp]: "SECTION_Y_MAX = 15"
definition PALETTE_MAX_ENTRIES :: nat where [simp]: "PALETTE_MAX_ENTRIES = 256"
definition BLOCK_TYPE_MAX :: u32 where [simp]: "BLOCK_TYPE_MAX = 16777215"
definition BLOCK_STATE_MAX :: u32 where [simp]: "BLOCK_STATE_MAX = 255"
definition BLOCK_TYPE_SCOPE_MASK :: u32 where [simp]: "BLOCK_TYPE_SCOPE_MASK = 8388608"
definition SYSTEM_RESERVED_TYPE_MAX :: u32 where [simp]: "SYSTEM_RESERVED_TYPE_MAX = 255"
definition FIRST_OFFICIAL_BLOCK_TYPE :: u32 where [simp]: "FIRST_OFFICIAL_BLOCK_TYPE = 256"
definition GLOBAL_SEGMENT_MAX :: u32 where [simp]: "GLOBAL_SEGMENT_MAX = 8388607"
definition ROOM_LOCAL_SEGMENT_MIN :: u32 where [simp]: "ROOM_LOCAL_SEGMENT_MIN = 8388608"
definition WORLD_Y_MIN :: int where [simp]: "WORLD_Y_MIN = 0"
definition WORLD_Y_MAX :: int where [simp]: "WORLD_Y_MAX = 255"
definition MAX_CELLS_PER_READ_REQUEST :: nat where [simp]: "MAX_CELLS_PER_READ_REQUEST = 262144"
definition MAX_ENTRIES_PER_WRITE_BATCH :: nat where [simp]: "MAX_ENTRIES_PER_WRITE_BATCH = 65536"
definition FIRST_CATALOG_BLOCK_TYPE :: u32 where [simp]: "FIRST_CATALOG_BLOCK_TYPE = 256"
definition CELL_OFFSET_Y_STRIDE :: u16 where [simp]: "CELL_OFFSET_Y_STRIDE = 256"
definition CELL_OFFSET_Z_STRIDE :: u16 where [simp]: "CELL_OFFSET_Z_STRIDE = 16"
definition CELL_OFFSET_X_STRIDE :: u16 where [simp]: "CELL_OFFSET_X_STRIDE = 1"
definition CELL_OFFSET_MAX :: u16 where [simp]: "CELL_OFFSET_MAX = 4095"
definition BLOCK_TYPE_SHIFT :: nat where [simp]: "BLOCK_TYPE_SHIFT = 8"
definition BLOCK_TYPE_AIR :: u32 where [simp]: "BLOCK_TYPE_AIR = 0"
definition BLOCK_TYPE_ERROR :: u32 where [simp]: "BLOCK_TYPE_ERROR = 1"
definition BLOCK_TYPE_ECS_OCCUPANCY :: u32 where [simp]: "BLOCK_TYPE_ECS_OCCUPANCY = 2"
definition BLOCK_TYPE_STRUCTURE_PLACEHOLDER :: u32 where [simp]: "BLOCK_TYPE_STRUCTURE_PLACEHOLDER = 3"
definition RESERVED_BLOCK_TYPE_MIN :: u32 where [simp]: "RESERVED_BLOCK_TYPE_MIN = 4"
definition DELTA_BYTES_PER_ENTRY :: nat where [simp]: "DELTA_BYTES_PER_ENTRY = 6"
definition SHORT_TICKET_PAYLOAD_LENGTH :: nat where [simp]: "SHORT_TICKET_PAYLOAD_LENGTH = 0"

section \<open>Keys\<close>

definition SECTION_KEY_PREFIX :: string where "SECTION_KEY_PREFIX = ''s''"
definition CHUNK_KEY_PREFIX :: string where "CHUNK_KEY_PREFIX = ''c''"

section \<open>Error codes\<close>

definition UNKNOWN_SECTION_KEY :: string where "UNKNOWN_SECTION_KEY = ''unknown_section_key''"
definition UNKNOWN_CHUNK_KEY :: string where "UNKNOWN_CHUNK_KEY = ''unknown_chunk_key''"
definition SECTION_Y_OUT_OF_RANGE :: string where "SECTION_Y_OUT_OF_RANGE = ''section_y_out_of_range''"
definition COORDINATE_OUT_OF_BOUNDS :: string where "COORDINATE_OUT_OF_BOUNDS = ''coordinate_out_of_bounds''"
definition SECTION_UNAVAILABLE :: string where "SECTION_UNAVAILABLE = ''section_unavailable''"
definition STALE_SECTION_REVISION :: string where "STALE_SECTION_REVISION = ''stale_section_revision''"
definition PALETTE_OVERFLOW :: string where "PALETTE_OVERFLOW = ''palette_overflow''"
definition SECTION_ENCODING_MISMATCH :: string where "SECTION_ENCODING_MISMATCH = ''section_encoding_mismatch''"
definition SECTION_DIGEST_MISMATCH :: string where "SECTION_DIGEST_MISMATCH = ''section_digest_mismatch''"
definition DIRTY_SECTION_NOT_DURABLE :: string where "DIRTY_SECTION_NOT_DURABLE = ''dirty_section_not_durable''"
definition LIGHTING_IN_PAYLOAD :: string where "LIGHTING_IN_PAYLOAD = ''lighting_in_payload''"
definition CHUNK_CARRIES_DATA_ERROR :: string where "CHUNK_CARRIES_DATA_ERROR = ''chunk_carries_data''"
definition PALETTE_RECLAIM_BEFORE_ESCALATION :: string where "PALETTE_RECLAIM_BEFORE_ESCALATION = ''palette_reclaim_before_escalation''"
definition DEAD_PALETTE_ENTRY_IN_PAYLOAD :: string where "DEAD_PALETTE_ENTRY_IN_PAYLOAD = ''dead_palette_entry_in_payload''"
definition DELTA_BASE_REVISION_MISMATCH :: string where "DELTA_BASE_REVISION_MISMATCH = ''delta_base_revision_mismatch''"
definition DELTA_USED_FOR_FIRST_DELIVERY :: string where "DELTA_USED_FOR_FIRST_DELIVERY = ''delta_used_for_first_delivery''"
definition UNKNOWN_MATERIAL_CLASS :: string where "UNKNOWN_MATERIAL_CLASS = ''unknown_material_class''"
definition MATERIAL_CLASS_NOT_A_CELL_LANE :: string where "MATERIAL_CLASS_NOT_A_CELL_LANE = ''material_class_not_a_cell_lane''"
definition LIQUID_AUTO_PROPAGATION_UNSUPPORTED :: string where "LIQUID_AUTO_PROPAGATION_UNSUPPORTED = ''liquid_auto_propagation_unsupported''"
definition CROSS_MATERIAL_FACE_MERGE :: string where "CROSS_MATERIAL_FACE_MERGE = ''cross_material_face_merge''"
definition BLOCK_TYPE_SCOPE_VIOLATION :: string where "BLOCK_TYPE_SCOPE_VIOLATION = ''block_type_scope_violation''"
definition SYSTEM_RESERVED_TYPE_MISUSE :: string where "SYSTEM_RESERVED_TYPE_MISUSE = ''system_reserved_type_misuse''"
definition ROOM_LOCAL_TYPE_WITHOUT_MAPPING :: string where "ROOM_LOCAL_TYPE_WITHOUT_MAPPING = ''room_local_type_without_mapping''"
definition PLAYER_TYPE_DECLARES_BEHAVIOR :: string where "PLAYER_TYPE_DECLARES_BEHAVIOR = ''player_type_declares_behavior''"
definition WORLD_Y_OUT_OF_RANGE :: string where "WORLD_Y_OUT_OF_RANGE = ''world_y_out_of_range''"
definition BLOCK_CATALOG_NOT_DENSE :: string where "BLOCK_CATALOG_NOT_DENSE = ''block_catalog_not_dense''"
definition BLOCK_CATALOG_NAME_REUSED :: string where "BLOCK_CATALOG_NAME_REUSED = ''block_catalog_name_reused''"
definition BLOCK_CATALOG_ROW_INCOMPLETE :: string where "BLOCK_CATALOG_ROW_INCOMPLETE = ''block_catalog_row_incomplete''"
definition CELL_OFFSET_OUT_OF_RANGE :: string where "CELL_OFFSET_OUT_OF_RANGE = ''cell_offset_out_of_range''"
definition UNKNOWN_BEHAVIOR_TEMPLATE :: string where "UNKNOWN_BEHAVIOR_TEMPLATE = ''unknown_behavior_template''"
definition UNREGISTERED_BLOCK_TYPE :: string where "UNREGISTERED_BLOCK_TYPE = ''unregistered_block_type''"
definition WRITE_BATCH_PARTIALLY_APPLIED :: string where "WRITE_BATCH_PARTIALLY_APPLIED = ''write_batch_partially_applied''"
definition BASE_REVISION_ON_FULL_ENCODING :: string where "BASE_REVISION_ON_FULL_ENCODING = ''base_revision_on_full_encoding''"

definition VOXEL_WORLD_ERROR_CODES :: "string list" where
  "VOXEL_WORLD_ERROR_CODES = [
     ''unknown_section_key'', ''unknown_chunk_key'',
     ''section_y_out_of_range'', ''coordinate_out_of_bounds'',
     ''section_unavailable'', ''stale_section_revision'',
     ''palette_overflow'', ''section_encoding_mismatch'',
     ''section_digest_mismatch'', ''dirty_section_not_durable'',
     ''lighting_in_payload'', ''chunk_carries_data'',
     ''unknown_material_class'', ''material_class_not_a_cell_lane'',
     ''liquid_auto_propagation_unsupported'', ''cross_material_face_merge'',
     ''entity_binding_missing'', ''entity_binding_orphan'',
     ''entity_binding_type_mismatch'', ''entity_binding_not_sparse'',
     ''business_data_in_payload'', ''binding_commit_split'',
     ''block_type_scope_violation'', ''system_reserved_type_misuse'',
     ''room_local_type_without_mapping'', ''player_type_declares_behavior'',
     ''palette_reclaim_before_escalation'', ''dead_palette_entry_in_payload'',
     ''delta_base_revision_mismatch'', ''delta_used_for_first_delivery'',
     ''unresolved_hit_treated_as_air'', ''unresolved_hit_treated_as_solid'',
     ''query_buffer_overflow'', ''query_result_divergence'',
     ''collision_behavior_not_from_material_table'', ''query_mutates_world'',
     ''world_y_out_of_range'', ''block_catalog_not_dense'',
     ''block_catalog_name_reused'', ''block_catalog_row_incomplete'',
     ''read_budget_exceeded'', ''read_result_missing_revision'',
     ''write_batch_too_large'', ''unstructured_mutation_entry'',
     ''cell_offset_out_of_range'', ''residency_pin_exceeds_budget'',
     ''pin_region_not_ready'', ''pinned_section_evicted'',
     ''pinned_read_returned_pending'', ''unknown_behavior_template'',
     ''cell_read_missing_presence'', ''unregistered_block_type'',
     ''write_batch_partially_applied'', ''base_revision_on_full_encoding'']"

definition SECTION_PRESENCE :: "string list" where
  "SECTION_PRESENCE = [''Ready'', ''Unchanged'', ''Pending'', ''Unavailable'']"

definition is_error_code :: "string \<Rightarrow> bool" where
  "is_error_code ident \<longleftrightarrow> ident \<in> set VOXEL_WORLD_ERROR_CODES"

definition intern_error_code :: "string \<Rightarrow> string option" where
  "intern_error_code ident = find (\<lambda>candidate. candidate = ident) VOXEL_WORLD_ERROR_CODES"

definition intern_presence :: "string \<Rightarrow> string option" where
  "intern_presence nm = find (\<lambda>candidate. candidate = nm) SECTION_PRESENCE"

section \<open>Segments of the block id space\<close>

definition is_global_segment :: "u32 \<Rightarrow> bool" where
  "is_global_segment bt \<longleftrightarrow> bt AND BLOCK_TYPE_SCOPE_MASK = 0"

definition is_room_local_segment :: "u32 \<Rightarrow> bool" where
  "is_room_local_segment bt \<longleftrightarrow> bt AND BLOCK_TYPE_SCOPE_MASK \<noteq> 0"

definition room_local_index :: "u32 \<Rightarrow> u32" where
  "room_local_index bt = bt AND NOT BLOCK_TYPE_SCOPE_MASK"

text \<open>
  The error constructors of the crates intern the id they are given and panic when it is not in
  the table: \<open>the None\<close> stands for the panic, and \<open>contract_error_known\<close> excludes it for every id
  the sources name.
\<close>

definition contract_error :: "string \<Rightarrow> string" where
  "contract_error code = the (intern_error_code code)"

lemmas error_ids =
  UNKNOWN_SECTION_KEY_def UNKNOWN_CHUNK_KEY_def SECTION_Y_OUT_OF_RANGE_def
  COORDINATE_OUT_OF_BOUNDS_def SECTION_UNAVAILABLE_def STALE_SECTION_REVISION_def
  PALETTE_OVERFLOW_def SECTION_ENCODING_MISMATCH_def SECTION_DIGEST_MISMATCH_def
  DIRTY_SECTION_NOT_DURABLE_def LIGHTING_IN_PAYLOAD_def CHUNK_CARRIES_DATA_ERROR_def
  PALETTE_RECLAIM_BEFORE_ESCALATION_def DEAD_PALETTE_ENTRY_IN_PAYLOAD_def DELTA_BASE_REVISION_MISMATCH_def
  DELTA_USED_FOR_FIRST_DELIVERY_def UNKNOWN_MATERIAL_CLASS_def MATERIAL_CLASS_NOT_A_CELL_LANE_def
  LIQUID_AUTO_PROPAGATION_UNSUPPORTED_def CROSS_MATERIAL_FACE_MERGE_def BLOCK_TYPE_SCOPE_VIOLATION_def
  SYSTEM_RESERVED_TYPE_MISUSE_def ROOM_LOCAL_TYPE_WITHOUT_MAPPING_def PLAYER_TYPE_DECLARES_BEHAVIOR_def
  WORLD_Y_OUT_OF_RANGE_def BLOCK_CATALOG_NOT_DENSE_def BLOCK_CATALOG_NAME_REUSED_def
  BLOCK_CATALOG_ROW_INCOMPLETE_def CELL_OFFSET_OUT_OF_RANGE_def UNKNOWN_BEHAVIOR_TEMPLATE_def
  UNREGISTERED_BLOCK_TYPE_def WRITE_BATCH_PARTIALLY_APPLIED_def BASE_REVISION_ON_FULL_ENCODING_def

section \<open>The table\<close>

lemma find_eq_Some: "find (\<lambda>c. c = k) xs = (if k \<in> set xs then Some k else None)"
  by (induction xs) auto

lemma intern_error_code_iff:
  "intern_error_code ident = (if is_error_code ident then Some ident else None)"
  by (simp add: intern_error_code_def is_error_code_def find_eq_Some)

lemma error_ids_declared:
  "list_all is_error_code [
     UNKNOWN_SECTION_KEY, UNKNOWN_CHUNK_KEY,
     SECTION_Y_OUT_OF_RANGE, COORDINATE_OUT_OF_BOUNDS,
     SECTION_UNAVAILABLE, STALE_SECTION_REVISION,
     PALETTE_OVERFLOW, SECTION_ENCODING_MISMATCH,
     SECTION_DIGEST_MISMATCH, DIRTY_SECTION_NOT_DURABLE,
     LIGHTING_IN_PAYLOAD, CHUNK_CARRIES_DATA_ERROR,
     PALETTE_RECLAIM_BEFORE_ESCALATION, DEAD_PALETTE_ENTRY_IN_PAYLOAD,
     DELTA_BASE_REVISION_MISMATCH, DELTA_USED_FOR_FIRST_DELIVERY,
     UNKNOWN_MATERIAL_CLASS, MATERIAL_CLASS_NOT_A_CELL_LANE,
     LIQUID_AUTO_PROPAGATION_UNSUPPORTED, CROSS_MATERIAL_FACE_MERGE,
     BLOCK_TYPE_SCOPE_VIOLATION, SYSTEM_RESERVED_TYPE_MISUSE,
     ROOM_LOCAL_TYPE_WITHOUT_MAPPING, PLAYER_TYPE_DECLARES_BEHAVIOR,
     WORLD_Y_OUT_OF_RANGE, BLOCK_CATALOG_NOT_DENSE,
     BLOCK_CATALOG_NAME_REUSED, BLOCK_CATALOG_ROW_INCOMPLETE,
     CELL_OFFSET_OUT_OF_RANGE, UNKNOWN_BEHAVIOR_TEMPLATE,
     UNREGISTERED_BLOCK_TYPE, WRITE_BATCH_PARTIALLY_APPLIED,
     BASE_REVISION_ON_FULL_ENCODING]"
  by code_simp

lemma contract_error_code: "is_error_code code \<Longrightarrow> contract_error code = code"
  by (simp add: contract_error_def intern_error_code_iff)

lemma contract_error_known [simp]:
  "contract_error UNKNOWN_SECTION_KEY = UNKNOWN_SECTION_KEY"
  "contract_error UNKNOWN_CHUNK_KEY = UNKNOWN_CHUNK_KEY"
  "contract_error SECTION_Y_OUT_OF_RANGE = SECTION_Y_OUT_OF_RANGE"
  "contract_error COORDINATE_OUT_OF_BOUNDS = COORDINATE_OUT_OF_BOUNDS"
  "contract_error SECTION_UNAVAILABLE = SECTION_UNAVAILABLE"
  "contract_error STALE_SECTION_REVISION = STALE_SECTION_REVISION"
  "contract_error PALETTE_OVERFLOW = PALETTE_OVERFLOW"
  "contract_error SECTION_ENCODING_MISMATCH = SECTION_ENCODING_MISMATCH"
  "contract_error SECTION_DIGEST_MISMATCH = SECTION_DIGEST_MISMATCH"
  "contract_error DIRTY_SECTION_NOT_DURABLE = DIRTY_SECTION_NOT_DURABLE"
  "contract_error LIGHTING_IN_PAYLOAD = LIGHTING_IN_PAYLOAD"
  "contract_error CHUNK_CARRIES_DATA_ERROR = CHUNK_CARRIES_DATA_ERROR"
  "contract_error PALETTE_RECLAIM_BEFORE_ESCALATION = PALETTE_RECLAIM_BEFORE_ESCALATION"
  "contract_error DEAD_PALETTE_ENTRY_IN_PAYLOAD = DEAD_PALETTE_ENTRY_IN_PAYLOAD"
  "contract_error DELTA_BASE_REVISION_MISMATCH = DELTA_BASE_REVISION_MISMATCH"
  "contract_error DELTA_USED_FOR_FIRST_DELIVERY = DELTA_USED_FOR_FIRST_DELIVERY"
  "contract_error UNKNOWN_MATERIAL_CLASS = UNKNOWN_MATERIAL_CLASS"
  "contract_error MATERIAL_CLASS_NOT_A_CELL_LANE = MATERIAL_CLASS_NOT_A_CELL_LANE"
  "contract_error LIQUID_AUTO_PROPAGATION_UNSUPPORTED = LIQUID_AUTO_PROPAGATION_UNSUPPORTED"
  "contract_error CROSS_MATERIAL_FACE_MERGE = CROSS_MATERIAL_FACE_MERGE"
  "contract_error BLOCK_TYPE_SCOPE_VIOLATION = BLOCK_TYPE_SCOPE_VIOLATION"
  "contract_error SYSTEM_RESERVED_TYPE_MISUSE = SYSTEM_RESERVED_TYPE_MISUSE"
  "contract_error ROOM_LOCAL_TYPE_WITHOUT_MAPPING = ROOM_LOCAL_TYPE_WITHOUT_MAPPING"
  "contract_error PLAYER_TYPE_DECLARES_BEHAVIOR = PLAYER_TYPE_DECLARES_BEHAVIOR"
  "contract_error WORLD_Y_OUT_OF_RANGE = WORLD_Y_OUT_OF_RANGE"
  "contract_error BLOCK_CATALOG_NOT_DENSE = BLOCK_CATALOG_NOT_DENSE"
  "contract_error BLOCK_CATALOG_NAME_REUSED = BLOCK_CATALOG_NAME_REUSED"
  "contract_error BLOCK_CATALOG_ROW_INCOMPLETE = BLOCK_CATALOG_ROW_INCOMPLETE"
  "contract_error CELL_OFFSET_OUT_OF_RANGE = CELL_OFFSET_OUT_OF_RANGE"
  "contract_error UNKNOWN_BEHAVIOR_TEMPLATE = UNKNOWN_BEHAVIOR_TEMPLATE"
  "contract_error UNREGISTERED_BLOCK_TYPE = UNREGISTERED_BLOCK_TYPE"
  "contract_error WRITE_BATCH_PARTIALLY_APPLIED = WRITE_BATCH_PARTIALLY_APPLIED"
  "contract_error BASE_REVISION_ON_FULL_ENCODING = BASE_REVISION_ON_FULL_ENCODING"
  using error_ids_declared by (simp_all add: contract_error_code)

lemma error_codes_distinct: "distinct VOXEL_WORLD_ERROR_CODES"
  by code_simp

end
