(* ===== verification/Plumbing.thy ===== *)
theory Plumbing
  imports Contract
begin

text \<open>
  \<open>lumio-voxel-contracts/src/plumbing.rs\<close>: the repository's own SHA-256 (padding, message
  schedule, compression), its hexadecimal form, the hash chain, and the bounded byte buffer.
  The lemmas establish the facts the payload and identity code relies on: the padding loop ends
  on a whole number of blocks, digests are 32 bytes, and a full buffer refuses a byte.
\<close>

section \<open>SHA-256\<close>

text \<open>The round constants and the initial state, in decimal.\<close>

definition K :: "u32 list" where
  "K = [
    1116352408, 1899447441, 3049323471, 3921009573, 961987163, 1508970993, 2453635748, 2870763221,
    3624381080, 310598401, 607225278, 1426881987, 1925078388, 2162078206, 2614888103, 3248222580,
    3835390401, 4022224774, 264347078, 604807628, 770255983, 1249150122, 1555081692, 1996064986,
    2554220882, 2821834349, 2952996808, 3210313671, 3336571891, 3584528711, 113926993, 338241895,
    666307205, 773529912, 1294757372, 1396182291, 1695183700, 1986661051, 2177026350, 2456956037,
    2730485921, 2820302411, 3259730800, 3345764771, 3516065817, 3600352804, 4094571909, 275423344,
    430227734, 506948616, 659060556, 883997877, 958139571, 1322822218, 1537002063, 1747873779,
    1955562222, 2024104815, 2227730452, 2361852424, 2428436474, 2756734187, 3204031479, 3329325298]"

definition sha256_init :: "u32 list" where
  "sha256_init = [
    1779033703, 3144134277, 1013904242, 2773480762, 1359893119, 2600822924, 528734635, 1541459225]"

text \<open>\<open>to_be_bytes\<close> and \<open>from_be_bytes\<close>: the little-endian bytes reversed.\<close>

definition be_bytes :: "nat \<Rightarrow> 'a::len word \<Rightarrow> u8 list" where
  "be_bytes n w = rev (le_bytes n w)"

definition of_be :: "u8 list \<Rightarrow> 'a::len word" where
  "of_be bs = of_le (rev bs)"

lemma pad_measure:
  assumes "n mod 64 \<noteq> (56 :: nat)"
  shows "(120 - Suc n mod 64) mod 64 < (120 - n mod 64) mod 64"
proof -
  define m where "m = n mod 64"
  have small: "x mod 64 = (if x < 64 then x else x - 64)" if "x < 128" for x :: nat
    using that by (auto simp: mod_if)
  have "m < 64" "m \<noteq> 56" "Suc n mod 64 = (if m = 63 then 0 else Suc m)"
    using assms by (auto simp: m_def mod_Suc)
  then show ?thesis
    by (auto simp: small simp flip: m_def)
qed

text \<open>\<open>while buf.len() % 64 != 56 { buf.push(0) }\<close>.\<close>

function pad_zero :: "u8 list \<Rightarrow> u8 list" where
  "pad_zero buf = (if length buf mod 64 = 56 then buf else pad_zero (buf @ [0]))"
  by pat_completeness auto

termination
  by (relation "measure (\<lambda>buf. (120 - length buf mod 64) mod 64)") (simp_all add: pad_measure)

declare pad_zero.simps [simp del]

definition sha256_pad :: "u8 list \<Rightarrow> u8 list" where
  "sha256_pad bs =
     pad_zero (bs @ [0x80]) @ be_bytes 8 (of_nat (length bs) * 8 :: u64)"

text \<open>The message schedule, a 64-word array filled in place.\<close>

definition schedule_word :: "u32 list \<Rightarrow> nat \<Rightarrow> u32" where
  "schedule_word w i =
     (let a = w ! (i - 15); b = w ! (i - 2);
          s0 = word_rotr 7 a XOR word_rotr 18 a XOR drop_bit 3 a;
          s1 = word_rotr 17 b XOR word_rotr 19 b XOR drop_bit 10 b
      in w ! (i - 16) + s0 + w ! (i - 7) + s1)"

definition sha256_schedule :: "u8 list \<Rightarrow> u32 list" where
  "sha256_schedule block =
     fold (\<lambda>i w. w[i := schedule_word w i]) [16..<64]
       (map (\<lambda>i. of_be (take 4 (drop (i * 4) block))) [0..<16] @ replicate 48 0)"

text \<open>One round on the working variables \<open>a[0] .. a[7]\<close>.\<close>

definition sha256_round :: "u32 \<times> u32 \<Rightarrow> u32 list \<Rightarrow> u32 list" where
  "sha256_round kw a =
     (let s1 = word_rotr 6 (a ! 4) XOR word_rotr 11 (a ! 4) XOR word_rotr 25 (a ! 4);
          ch = (a ! 4 AND a ! 5) XOR (NOT (a ! 4) AND a ! 6);
          t1 = a ! 7 + s1 + ch + fst kw + snd kw;
          s0 = word_rotr 2 (a ! 0) XOR word_rotr 13 (a ! 0) XOR word_rotr 22 (a ! 0);
          maj = (a ! 0 AND a ! 1) XOR (a ! 0 AND a ! 2) XOR (a ! 1 AND a ! 2);
          t2 = s0 + maj
      in [t1 + t2, a ! 0, a ! 1, a ! 2, a ! 3 + t1, a ! 4, a ! 5, a ! 6])"

definition sha256_compress :: "u8 list \<Rightarrow> u32 list \<Rightarrow> u32 list" where
  "sha256_compress block h =
     map2 (+) h (fold sha256_round (zip K (sha256_schedule block)) h)"

definition sha256 :: "u8 list \<Rightarrow> digest" where
  "sha256 bs =
     concat (map (be_bytes 4)
       (fold sha256_compress (chunks_exact 64 (sha256_pad bs)) sha256_init))"

definition sha256_hex :: "u8 list \<Rightarrow> string" where
  "sha256_hex bs = hex_string (sha256 bs)"

lemma pad_zero_length: "length (pad_zero buf) mod 64 = 56"
proof (induction buf rule: pad_zero.induct)
  case (1 buf)
  show ?case
  proof (cases "length buf mod 64 = 56")
    case True
    then show ?thesis by (subst pad_zero.simps) simp
  next
    case False
    with 1 show ?thesis by (subst pad_zero.simps) simp
  qed
qed

lemma sha256_pad_blocks: "64 dvd length (sha256_pad bs)"
  using pad_zero_length [of "bs @ [0x80]"]
  by (simp add: sha256_pad_def be_bytes_def dvd_eq_mod_eq_0 mod_add_left_eq [symmetric])

lemma sha256_pad_no_tail:
  "concat (chunks_exact 64 (sha256_pad bs)) = sha256_pad bs"
  by (rule concat_chunks_exact [OF _ sha256_pad_blocks]) simp

lemma length_sha256_round [simp]: "length (sha256_round kw a) = 8"
  by (simp add: sha256_round_def Let_def)

lemma length_fold_round: "length a = 8 \<Longrightarrow> length (fold sha256_round kws a) = 8"
  by (induction kws arbitrary: a) simp_all

lemma length_compress: "length h = 8 \<Longrightarrow> length (sha256_compress block h) = 8"
  by (simp add: sha256_compress_def length_fold_round)

lemma length_fold_compress: "length h = 8 \<Longrightarrow> length (fold sha256_compress bs h) = 8"
  by (induction bs arbitrary: h) (simp_all add: length_compress)

lemma length_sha256 [simp]: "length (sha256 bs) = 32"
  by (simp add: sha256_def length_concat_fixed [where n = 4] be_bytes_def length_fold_compress
      sha256_init_def)

lemma length_sha256_hex: "length (sha256_hex bs) = 64"
  by (simp add: sha256_hex_def length_hex_string)

text \<open>The FIPS 180-4 vector of \<open>tests/plumbing.rs\<close>, evaluated on the model.\<close>

lemma sha256_abc:
  "sha256 [0x61, 0x62, 0x63] =
     [0xba, 0x78, 0x16, 0xbf, 0x8f, 0x01, 0xcf, 0xea, 0x41, 0x41, 0x40, 0xde, 0x5d, 0xae, 0x22, 0x23,
      0xb0, 0x03, 0x61, 0xa3, 0x96, 0x17, 0x7a, 0x9c, 0xb4, 0x10, 0xff, 0x61, 0xf2, 0x00, 0x15, 0xad]"
  by code_simp

section \<open>The hash chain\<close>

datatype chain_break = Truncated | Mismatch

definition hash_chain_append :: "digest \<Rightarrow> u8 list \<Rightarrow> digest" where
  "hash_chain_append prev payload = sha256 (prev @ payload)"

definition hash_chain_verify :: "digest \<Rightarrow> u8 list \<Rightarrow> digest \<Rightarrow> chain_break + unit" where
  "hash_chain_verify prev payload expected =
     (if hash_chain_append prev payload = expected then Inr () else Inl Mismatch)"

lemma hash_chain_verify_iff:
  "hash_chain_verify prev payload expected = Inr () \<longleftrightarrow> expected = hash_chain_append prev payload"
  by (auto simp: hash_chain_verify_def)

section \<open>The bounded byte buffer\<close>

datatype buffer_full = BufferFull

record bounded_buffer =
  bb_inner :: "u8 list"
  bb_cap :: nat

definition bounded_buffer_new :: "nat \<Rightarrow> bounded_buffer" where
  "bounded_buffer_new c = \<lparr>bb_inner = [], bb_cap = c\<rparr>"

definition bounded_buffer_push :: "u8 \<Rightarrow> bounded_buffer \<Rightarrow> buffer_full + bounded_buffer" where
  "bounded_buffer_push b s =
     (if length (bb_inner s) \<ge> bb_cap s then Inl BufferFull
      else Inr (s\<lparr>bb_inner := bb_inner s @ [b]\<rparr>))"

definition bounded_buffer_as_slice :: "bounded_buffer \<Rightarrow> u8 list" where
  "bounded_buffer_as_slice s = bb_inner s"

interpretation buffer: bounded_sink bounded_buffer_as_slice bb_cap bounded_buffer_push
  by unfold_locales (auto simp: bounded_buffer_push_def bounded_buffer_as_slice_def)

lemma bounded_buffer_fill_iff:
  "(\<exists>t. rfold bounded_buffer_push bs (bounded_buffer_new c) = Inr t) \<longleftrightarrow> length bs \<le> c"
  using buffer.push_all_ok_iff [of "bounded_buffer_new c" bs]
  by (simp add: bounded_buffer_new_def bounded_buffer_as_slice_def)

lemma bounded_buffer_fill_content:
  "rfold bounded_buffer_push bs (bounded_buffer_new c) = Inr t \<Longrightarrow> bounded_buffer_as_slice t = bs"
  using buffer.push_all_content [of bs "bounded_buffer_new c" t]
  by (simp add: bounded_buffer_new_def bounded_buffer_as_slice_def)

end
