(* ===== verification/Keys.thy ===== *)
theory Keys
  imports Plumbing
begin

text \<open>
  \<open>lumio-voxel-domain/src/key.rs\<close>: the canonical keys of the 16x16x16 data unit
  (\<open>SectionId\<close>, text \<open>s:<x>:<y>:<z>\<close>) and of the column that stacks sixteen of them
  (\<open>ChunkId\<close>, text \<open>c:<x>:<z>\<close>), the world height, and the typed rejections of the parser.

  Both parsers are interpreted as \<open>strict_codec\<close>: they accept exactly the printed keys.
\<close>

section \<open>Data\<close>

datatype key_kind = KindSection | KindChunk

datatype key_rejection =
    LegacyThreeCoordinateChunkKey
  | WrongPrefix
  | WrongArity
  | EmptyComponent
  | NonCanonicalCoordinate
  | SectionYOutOfRange
  | CoordinateOutOfBounds

datatype key_error = KeyError (ke_kind: key_kind) (ke_rejection: key_rejection)

definition key_error_id :: "key_error \<Rightarrow> string" where
  "key_error_id e =
     (let code = (case (ke_rejection e, ke_kind e) of
                    (SectionYOutOfRange, _) \<Rightarrow> SECTION_Y_OUT_OF_RANGE
                  | (CoordinateOutOfBounds, _) \<Rightarrow> COORDINATE_OUT_OF_BOUNDS
                  | (_, KindSection) \<Rightarrow> UNKNOWN_SECTION_KEY
                  | (_, KindChunk) \<Rightarrow> UNKNOWN_CHUNK_KEY)
      in the (intern_error_code code))"

datatype world_y = WorldY (wy_value: u8)
datatype world_y_error = WorldYError

definition world_y_error_id :: "world_y_error \<Rightarrow> string" where
  "world_y_error_id e = the (intern_error_code WORLD_Y_OUT_OF_RANGE)"

definition world_y_new :: "int \<Rightarrow> world_y_error + world_y" where
  "world_y_new v =
     (if v < WORLD_Y_MIN \<or> v > WORLD_Y_MAX then Inl WorldYError else Inr (WorldY (of_int v)))"

definition world_y_section_y :: "world_y \<Rightarrow> u8" where
  "world_y_section_y w = drop_bit 4 (wy_value w)"

definition world_y_cell_y :: "world_y \<Rightarrow> u8" where
  "world_y_cell_y w = wy_value w AND 15"

datatype section_id = SectionId (sid_x: i32) (sid_y: u8) (sid_z: i32)
datatype chunk_id = ChunkId (cid_x: i32) (cid_z: i32)

text \<open>The derived order: lexicographic in the fields, signed coordinates.\<close>

instantiation section_id :: linorder
begin

definition less_eq_section_id :: "section_id \<Rightarrow> section_id \<Rightarrow> bool" where
  "a \<le> b \<longleftrightarrow> sint (sid_x a) < sint (sid_x b) \<or> sid_x a = sid_x b \<and>
     (sid_y a < sid_y b \<or> sid_y a = sid_y b \<and> sint (sid_z a) \<le> sint (sid_z b))"

definition less_section_id :: "section_id \<Rightarrow> section_id \<Rightarrow> bool" where
  "(a :: section_id) < b \<longleftrightarrow> a \<le> b \<and> \<not> b \<le> a"

instance
proof
  fix a b c :: section_id
  show "a < b \<longleftrightarrow> a \<le> b \<and> \<not> b \<le> a" by (rule less_section_id_def)
  show "a \<le> a" by (simp add: less_eq_section_id_def)
  show "a \<le> b \<Longrightarrow> b \<le> c \<Longrightarrow> a \<le> c" by (auto simp: less_eq_section_id_def)
  show "a \<le> b \<Longrightarrow> b \<le> a \<Longrightarrow> a = b"
    by (auto simp: less_eq_section_id_def intro!: section_id.expand)
  show "a \<le> b \<or> b \<le> a"
    using linear [of "sid_y a" "sid_y b"]
    by (auto simp: less_eq_section_id_def linorder_neq_iff [symmetric] not_less order_le_less)
qed

end

instantiation chunk_id :: linorder
begin

definition less_eq_chunk_id :: "chunk_id \<Rightarrow> chunk_id \<Rightarrow> bool" where
  "a \<le> b \<longleftrightarrow> sint (cid_x a) < sint (cid_x b) \<or>
     cid_x a = cid_x b \<and> sint (cid_z a) \<le> sint (cid_z b)"

definition less_chunk_id :: "chunk_id \<Rightarrow> chunk_id \<Rightarrow> bool" where
  "(a :: chunk_id) < b \<longleftrightarrow> a \<le> b \<and> \<not> b \<le> a"

instance
proof
  fix a b c :: chunk_id
  show "a < b \<longleftrightarrow> a \<le> b \<and> \<not> b \<le> a" by (rule less_chunk_id_def)
  show "a \<le> a" by (simp add: less_eq_chunk_id_def)
  show "a \<le> b \<Longrightarrow> b \<le> c \<Longrightarrow> a \<le> c" by (auto simp: less_eq_chunk_id_def)
  show "a \<le> b \<Longrightarrow> b \<le> a \<Longrightarrow> a = b"
    by (auto simp: less_eq_chunk_id_def intro!: chunk_id.expand)
  show "a \<le> b \<or> b \<le> a"
    by (auto simp: less_eq_chunk_id_def not_less order_le_less)
qed

end

section \<open>Parsing and printing\<close>

definition arity_rejection :: "nat \<Rightarrow> key_rejection" where
  "arity_rejection found =
     (if found = SECTION_KEY_ARITY then LegacyThreeCoordinateChunkKey else WrongArity)"

definition split_key :: "string \<Rightarrow> string \<Rightarrow> key_kind \<Rightarrow> key_error + string list" where
  "split_key raw prefix kind =
     (let parts = split_on (CHR '':'') raw;
          found_prefix = (case parts of [] \<Rightarrow> [] | p # _ \<Rightarrow> p);
          components = drop 1 parts
      in if found_prefix \<noteq> prefix
         then (if kind = KindSection \<and> found_prefix = CHUNK_KEY_PREFIX
                  \<and> length components = SECTION_KEY_ARITY
               then Inl (KeyError kind LegacyThreeCoordinateChunkKey)
               else Inl (KeyError kind WrongPrefix))
         else Inr components)"

definition parse_decimal :: "string \<Rightarrow> key_kind \<Rightarrow> key_error + int" where
  "parse_decimal raw kind =
     (if raw = [] then Inl (KeyError kind EmptyComponent)
      else let negative = (hd raw = CHR ''-'');
               digits = (if negative then tl raw else raw)
           in if digits = [] \<or> \<not> list_all is_digit digits
              then Inl (KeyError kind NonCanonicalCoordinate)
              else if length digits > 1 \<and> hd digits = CHR ''0''
              then Inl (KeyError kind NonCanonicalCoordinate)
              else if negative \<and> digits = ''0'' then Inl (KeyError kind NonCanonicalCoordinate)
              else ok_or (KeyError kind CoordinateOutOfBounds) (parse_i64 raw))"

definition max_coord_digits :: nat where
  "max_coord_digits = ilog10 (nat \<bar>SECTION_COORD_MIN\<bar>) + 1"

definition strip_minus :: "string \<Rightarrow> string" where
  "strip_minus raw = (case raw of c # cs \<Rightarrow> if c = CHR ''-'' then cs else raw | [] \<Rightarrow> raw)"

definition parse_i32 :: "string \<Rightarrow> key_kind \<Rightarrow> key_error + i32" where
  "parse_i32 raw kind =
     (if length (strip_minus raw) > max_coord_digits
      then Inl (KeyError kind NonCanonicalCoordinate)
      else rbind (parse_decimal raw kind) (\<lambda>v.
        if v < SECTION_COORD_MIN \<or> v > SECTION_COORD_MAX
        then Inl (KeyError kind CoordinateOutOfBounds)
        else Inr (of_int v)))"

definition check_section_y :: "int \<Rightarrow> key_kind \<Rightarrow> key_error + u8" where
  "check_section_y v kind =
     (if v < SECTION_Y_MIN \<or> v > SECTION_Y_MAX then Inl (KeyError kind SectionYOutOfRange)
      else Inr (of_int v))"

definition section_id_new :: "i32 \<Rightarrow> int \<Rightarrow> i32 \<Rightarrow> key_error + section_id" where
  "section_id_new x y z =
     rbind (check_section_y y KindSection) (\<lambda>y. Inr (SectionId x y z))"

definition section_id_parse :: "string \<Rightarrow> key_error + section_id" where
  "section_id_parse raw =
     rbind (split_key raw SECTION_KEY_PREFIX KindSection) (\<lambda>parts.
     if length parts \<noteq> SECTION_KEY_ARITY then Inl (KeyError KindSection WrongArity)
     else rbind (parse_i32 (parts ! 0) KindSection) (\<lambda>x.
          rbind (rbind (parse_decimal (parts ! 1) KindSection)
                   (\<lambda>v. check_section_y v KindSection)) (\<lambda>y.
          rbind (parse_i32 (parts ! 2) KindSection) (\<lambda>z.
          Inr (SectionId x y z)))))"

definition section_id_key :: "section_id \<Rightarrow> string" where
  "section_id_key s =
     ''s:'' @ dec_int (sint (sid_x s)) @ '':'' @ dec_nat (unat (sid_y s)) @ '':''
       @ dec_int (sint (sid_z s))"

definition section_id_chunk :: "section_id \<Rightarrow> chunk_id" where
  "section_id_chunk s = ChunkId (sid_x s) (sid_z s)"

definition chunk_id_parse :: "string \<Rightarrow> key_error + chunk_id" where
  "chunk_id_parse raw =
     rbind (split_key raw CHUNK_KEY_PREFIX KindChunk) (\<lambda>parts.
     if length parts \<noteq> CHUNK_KEY_ARITY then Inl (KeyError KindChunk (arity_rejection (length parts)))
     else rbind (parse_i32 (parts ! 0) KindChunk) (\<lambda>x.
          rbind (parse_i32 (parts ! 1) KindChunk) (\<lambda>z.
          Inr (ChunkId x z))))"

definition chunk_id_key :: "chunk_id \<Rightarrow> string" where
  "chunk_id_key c = ''c:'' @ dec_int (sint (cid_x c)) @ '':'' @ dec_int (sint (cid_z c))"

definition chunk_id_sections :: "chunk_id \<Rightarrow> section_id list" where
  "chunk_id_sections c =
     map (\<lambda>y. SectionId (cid_x c) (of_int y) (cid_z c)) [SECTION_Y_MIN..SECTION_Y_MAX]"

section \<open>Coordinates\<close>

definition section_id_wf :: "section_id \<Rightarrow> bool" where
  "section_id_wf s \<longleftrightarrow> unat (sid_y s) \<le> 15"

lemma sint_i32_range: "- (2 ^ 31) \<le> sint (x :: i32)" "sint (x :: i32) < 2 ^ 31"
  using sint_greater_eq [of x] sint_less [of x] by simp_all

lemma sint_of_int_i32: "- (2 ^ 31) \<le> v \<Longrightarrow> v < 2 ^ 31 \<Longrightarrow> sint (of_int v :: i32) = v"
  by (simp add: signed_of_int signed_take_bit_int_eq_self)

lemma unat_of_int_u8: "0 \<le> v \<Longrightarrow> v < 256 \<Longrightarrow> unat (of_int v :: u8) = nat v"
  by (simp add: unsigned_of_int take_bit_int_eq_self)

lemma dec_int_ne [simp]: "dec_int v \<noteq> []"
  by (simp add: dec_int_def)

lemma strip_minus_dec_int: "strip_minus (dec_int v) = dec_nat (nat \<bar>v\<bar>)"
proof (cases "v < 0")
  case False
  obtain c cs where c: "dec_nat (nat v) = c # cs" by (cases "dec_nat (nat v)") simp_all
  then have "is_digit c" using dec_nat_digits [of "nat v"] by simp
  with False c show ?thesis by (simp add: dec_int_def strip_minus_def digit_neq_minus)
qed (simp add: dec_int_def strip_minus_def)

lemma dec_int_hd_minus: "hd (dec_int v) = CHR ''-'' \<longleftrightarrow> v < 0"
proof (cases "v < 0")
  case False
  then show ?thesis
    using dec_nat_digits [of "nat v"] digit_neq_minus(1) [of "hd (dec_nat (nat v))"]
    by (cases "dec_nat (nat v)") (simp_all add: dec_int_def)
qed (simp add: dec_int_def)

lemma parse_i64_digits:
  assumes "list_all is_digit ds" "ds \<noteq> []"
  shows "parse_i64 ds = (if i64_in_range (int (dec_val ds)) then Some (int (dec_val ds)) else None)"
    "parse_i64 (CHR ''-'' # ds) =
       (if i64_in_range (- int (dec_val ds)) then Some (- int (dec_val ds)) else None)"
proof -
  obtain c cs where c: "ds = c # cs" using assms(2) by (cases ds) simp_all
  with assms(1) have "c \<noteq> CHR ''-''" "c \<noteq> CHR ''+''" by (auto simp: digit_neq_minus)
  with c assms(1)
  show "parse_i64 ds = (if i64_in_range (int (dec_val ds)) then Some (int (dec_val ds)) else None)"
    by (simp add: parse_i64_def)
  from assms show "parse_i64 (CHR ''-'' # ds) =
       (if i64_in_range (- int (dec_val ds)) then Some (- int (dec_val ds)) else None)"
    by (simp add: parse_i64_def)
qed

text \<open>The decimal reader accepts the printed integers of the \<open>i64\<close> range, and only those.\<close>

lemma parse_decimal_dec_int:
  assumes "i64_in_range v"
  shows "parse_decimal (dec_int v) kind = Inr v"
proof -
  let ?ds = "dec_nat (nat \<bar>v\<bar>)"
  have ds: "list_all is_digit ?ds" "?ds \<noteq> []" by (simp_all add: dec_nat_digits)
  have zero: "\<not> (length ?ds > 1 \<and> hd ?ds = CHR ''0'')"
  proof
    assume bad: "length ?ds > 1 \<and> hd ?ds = CHR ''0''"
    then have "nat \<bar>v\<bar> = 0" by (simp only: dec_nat_hd_zero)
    with bad show False by (simp add: dec_nat.simps [of 0])
  qed
  show ?thesis
  proof (cases "v < 0")
    case True
    then have "?ds \<noteq> ''0''" using dec_nat_hd_zero [of "nat \<bar>v\<bar>"] by auto
    with True ds zero assms show ?thesis
      by (simp add: parse_decimal_def dec_int_def parse_i64_digits Let_def)
  next
    case False
    with dec_int_hd_minus [of v] have "hd (dec_int v) \<noteq> CHR ''-''" by simp
    with False ds zero assms show ?thesis
      by (simp add: parse_decimal_def dec_int_def parse_i64_digits Let_def)
  qed
qed

lemma parse_decimal_canonical:
  assumes "parse_decimal raw kind = Inr v"
  shows "dec_int v = raw" "i64_in_range v"
proof -
  let ?ds = "if hd raw = CHR ''-'' then tl raw else raw"
  from assms have raw: "raw \<noteq> []" and ds: "?ds \<noteq> []" "list_all is_digit ?ds"
    and canon: "hd ?ds = CHR ''0'' \<longrightarrow> ?ds = ''0''"
    and nz: "hd raw = CHR ''-'' \<longrightarrow> ?ds \<noteq> ''0''"
    and p: "parse_i64 raw = Some v"
    by (auto simp: parse_decimal_def Let_def result_iff neq_Nil_conv split: if_splits)
  have same: "dec_nat (dec_val ?ds) = ?ds"
    by (rule dec_nat_dec_val [OF ds(2,1) canon])
  have "dec_int v = raw \<and> i64_in_range v"
  proof (cases "hd raw = CHR ''-''")
    case True
    with raw have r: "raw = CHR ''-'' # tl raw" by (cases raw) simp_all
    from True same nz have "dec_val ?ds \<noteq> 0"
      using dec_nat_hd_zero [of "dec_val ?ds"] canon by auto
    moreover from p r parse_i64_digits(2) [OF ds(2,1)] True
    have "v = - int (dec_val ?ds)" "i64_in_range v" by (auto split: if_splits)
    ultimately show ?thesis using True same r by (simp add: dec_int_def)
  next
    case False
    with p parse_i64_digits(1) [OF ds(2,1)] have "v = int (dec_val raw)" "i64_in_range v"
      by (auto split: if_splits)
    with False same show ?thesis by (simp add: dec_int_def)
  qed
  then show "dec_int v = raw" "i64_in_range v" by simp_all
qed

lemma max_coord_digits_10: "max_coord_digits = 10"
  by (simp add: max_coord_digits_def ilog10.simps)

lemma parse_i32_dec_int: "parse_i32 (dec_int (sint x)) kind = Inr x"
proof -
  have "nat \<bar>sint x\<bar> < 10 ^ 10" using sint_i32_range [of x] by auto
  then have "length (strip_minus (dec_int (sint x))) \<le> max_coord_digits"
    by (simp add: strip_minus_dec_int max_coord_digits_10 length_dec_nat_le)
  moreover have "i64_in_range (sint x)"
    using sint_i32_range [of x] by (simp add: i64_in_range_def)
  ultimately show ?thesis
    using sint_i32_range [of x] by (simp add: parse_i32_def parse_decimal_dec_int)
qed

lemma parse_i32_canonical: "parse_i32 raw kind = Inr x \<Longrightarrow> dec_int (sint x) = raw"
  by (auto simp: parse_i32_def result_iff sint_of_int_i32 dest: parse_decimal_canonical(1)
      split: if_splits)

lemma check_section_y_Inr:
  "check_section_y v kind = Inr y \<longleftrightarrow> 0 \<le> v \<and> v \<le> 15 \<and> unat y = nat v"
  using unat_of_int_u8 [of v]
  by (auto simp: check_section_y_def word_eq_iff_unsigned [where 'a = nat] split: if_splits)

lemma check_section_y_uint: "unat y \<le> 15 \<Longrightarrow> check_section_y (uint y) kind = Inr y"
  by (subst check_section_y_Inr) (simp flip: unat_eq_nat_uint add: uint_nat del: of_nat_unat)

lemma parse_section_y:
  "unat y \<le> 15 \<Longrightarrow> parse_decimal (dec_nat (unat (y :: u8))) kind = Inr (int (unat y))"
  using parse_decimal_dec_int [of "int (unat y)" kind]
  by (simp add: dec_int_def i64_in_range_def del: of_nat_unat int_nat_eq)

section \<open>Both parsers are strict codecs\<close>

lemma split_key_ok_iff:
  "split_key raw prefix kind = Inr parts \<longleftrightarrow> split_on (CHR '':'') raw = prefix # parts"
  by (cases "split_on (CHR '':'') raw") (auto simp: split_key_def Let_def)

lemma split_key_join:
  "split_key raw prefix kind = Inr parts \<Longrightarrow> raw = join_with (CHR '':'') (prefix # parts)"
  using join_split [of "CHR '':''" raw] by (simp add: split_key_ok_iff)

lemma list_of_length_2: "length xs = 2 \<longleftrightarrow> (\<exists>a b. xs = [a, b])"
  by (auto simp: numeral_2_eq_2 length_Suc_conv)

lemma list_of_length_3: "length xs = 3 \<longleftrightarrow> (\<exists>a b c. xs = [a, b, c])"
  by (auto simp: numeral_3_eq_3 length_Suc_conv)

lemma split_on_section_key:
  "split_on (CHR '':'') (section_id_key s) =
     [''s'', dec_int (sint (sid_x s)), dec_nat (unat (sid_y s)), dec_int (sint (sid_z s))]"
  using split_on_join [of "[''s'', dec_int (sint (sid_x s)), dec_nat (unat (sid_y s)),
      dec_int (sint (sid_z s))]" "CHR '':''"]
  by (simp add: section_id_key_def dec_int_no_colon dec_nat_no_colon)

lemma split_on_chunk_key:
  "split_on (CHR '':'') (chunk_id_key c) = [''c'', dec_int (sint (cid_x c)), dec_int (sint (cid_z c))]"
  using split_on_join [of "[''c'', dec_int (sint (cid_x c)), dec_int (sint (cid_z c))]" "CHR '':''"]
  by (simp add: chunk_id_key_def dec_int_no_colon)

lemma section_parse_key: "section_id_wf s \<Longrightarrow> section_id_parse (section_id_key s) = Inr s"
  by (simp add: section_id_parse_def split_key_def split_on_section_key SECTION_KEY_PREFIX_def
      parse_i32_dec_int parse_section_y section_id_wf_def check_section_y_uint)

lemma section_key_parse:
  assumes "section_id_parse raw = Inr s"
  shows "section_id_wf s \<and> section_id_key s = raw"
proof -
  from assms obtain a b c x y z v
    where raw: "raw = join_with (CHR '':'') [''s'', a, b, c]"
      and x: "parse_i32 a KindSection = Inr x"
      and v: "parse_decimal b KindSection = Inr v" and y: "check_section_y v KindSection = Inr y"
      and z: "parse_i32 c KindSection = Inr z" and s: "s = SectionId x y z"
    by (auto simp: section_id_parse_def result_iff list_of_length_3 SECTION_KEY_PREFIX_def
        dest!: split_key_join split: if_splits)
  from y have "0 \<le> v" "unat y = nat v" "v \<le> 15" by (simp_all add: check_section_y_Inr)
  moreover from this parse_decimal_canonical(1) [OF v] have "dec_nat (unat y) = b"
    by (simp add: dec_int_def)
  ultimately show ?thesis
    using raw s parse_i32_canonical [OF x] parse_i32_canonical [OF z]
    by (simp add: section_id_wf_def section_id_key_def)
qed

lemma chunk_parse_key: "chunk_id_parse (chunk_id_key c) = Inr c"
  by (simp add: chunk_id_parse_def split_key_def split_on_chunk_key CHUNK_KEY_PREFIX_def
      parse_i32_dec_int)

lemma chunk_key_parse:
  assumes "chunk_id_parse raw = Inr c"
  shows "chunk_id_key c = raw"
proof -
  from assms obtain a b x z
    where raw: "raw = join_with (CHR '':'') [''c'', a, b]"
      and x: "parse_i32 a KindChunk = Inr x" and z: "parse_i32 b KindChunk = Inr z"
      and c: "c = ChunkId x z"
    by (auto simp: chunk_id_parse_def result_iff list_of_length_2 CHUNK_KEY_PREFIX_def
        dest!: split_key_join split: if_splits)
  then show ?thesis
    using parse_i32_canonical [OF x] parse_i32_canonical [OF z] by (simp add: chunk_id_key_def)
qed

interpretation section_codec: strict_codec section_id_wf section_id_key section_id_parse
  by unfold_locales (simp_all add: section_parse_key section_key_parse)

interpretation chunk_codec: strict_codec "\<lambda>_. True" chunk_id_key chunk_id_parse
  by unfold_locales (simp_all add: chunk_parse_key chunk_key_parse)

section \<open>Properties\<close>

lemma key_error_id_kind:
  "key_error_id (KeyError kind rej) =
     (case rej of SectionYOutOfRange \<Rightarrow> ''section_y_out_of_range''
      | CoordinateOutOfBounds \<Rightarrow> ''coordinate_out_of_bounds''
      | _ \<Rightarrow> (case kind of KindSection \<Rightarrow> ''unknown_section_key'' | KindChunk \<Rightarrow> ''unknown_chunk_key''))"
  by (cases rej; cases kind)
     (simp_all add: key_error_id_def intern_error_code_def VOXEL_WORLD_ERROR_CODES_def error_ids)

text \<open>
  C37. \<open>SectionId::parse\<close> accepts a string exactly when it is the canonical text of a section
  with a layer number of 0 to 15, and then returns that section: parsing and printing are
  inverse in both directions, and every other spelling is rejected.
\<close>

theorem section_key_strict:
  "section_id_parse raw = Inr s \<longleftrightarrow> section_id_wf s \<and> raw = section_id_key s"
  by (rule section_codec.decode_iff)

text \<open>
  \<open>ChunkId::parse\<close> accepts exactly the canonical two-coordinate text of a chunk.
\<close>

theorem chunk_key_strict:
  "chunk_id_parse raw = Inr c \<longleftrightarrow> raw = chunk_id_key c"
  using chunk_codec.decode_iff [of raw c] by simp

text \<open>
  The old three-coordinate spelling \<open>c:a:b:d\<close> is refused by both parsers with the dedicated
  legacy rejection, whatever its components are: it is read neither as a chunk nor as a section,
  and the error ids are \<open>unknown_section_key\<close> and \<open>unknown_chunk_key\<close>.
\<close>

theorem legacy_chunk_key_rejected:
  assumes "CHR '':'' \<notin> set a" "CHR '':'' \<notin> set b" "CHR '':'' \<notin> set d"
    and "raw = ''c:'' @ a @ '':'' @ b @ '':'' @ d"
  shows "\<exists>es ec. section_id_parse raw = Inl es \<and> chunk_id_parse raw = Inl ec \<and>
    ke_rejection es = LegacyThreeCoordinateChunkKey \<and> key_error_id es = ''unknown_section_key'' \<and>
    ke_rejection ec = LegacyThreeCoordinateChunkKey \<and> key_error_id ec = ''unknown_chunk_key''"
proof -
  have "split_on (CHR '':'') raw = [''c'', a, b, d]"
    using split_on_join [of "[''c'', a, b, d]" "CHR '':''"] assms by simp
  then have "section_id_parse raw = Inl (KeyError KindSection LegacyThreeCoordinateChunkKey)"
    "chunk_id_parse raw = Inl (KeyError KindChunk LegacyThreeCoordinateChunkKey)"
    by (simp_all add: section_id_parse_def chunk_id_parse_def split_key_def SECTION_KEY_PREFIX_def
        CHUNK_KEY_PREFIX_def arity_rejection_def)
  then show ?thesis by (simp add: key_error_id_kind)
qed

theorem legacy_chunk_key_rejected_witness:
  "\<exists>es ec. section_id_parse ''c:1:2:3'' = Inl es \<and> chunk_id_parse ''c:1:2:3'' = Inl ec \<and>
    ke_rejection es = LegacyThreeCoordinateChunkKey \<and> key_error_id es = ''unknown_section_key'' \<and>
    ke_rejection ec = LegacyThreeCoordinateChunkKey \<and> key_error_id ec = ''unknown_chunk_key''"
  by (rule legacy_chunk_key_rejected [of "''1''" "''2''" "''3''"]) simp_all

lemma sections_layers: "chunk_id_sections c = map (\<lambda>n. SectionId (cid_x c) (of_nat n) (cid_z c)) [0..<16]"
  by (simp add: chunk_id_sections_def upto.simps upt_rec)

text \<open>
  Chunk and section keys are derived from one another: the sixteen sections of a chunk are
  exactly the well-formed sections whose chunk it is, listed once each in ascending key order.
\<close>

theorem chunk_sections_derivation:
  "set (chunk_id_sections c) = {s. section_id_wf s \<and> section_id_chunk s = c} \<and>
   length (chunk_id_sections c) = 16 \<and> sorted_wrt (<) (chunk_id_sections c)"
proof (intro conjI set_eqI)
  fix s
  have "s \<in> set (chunk_id_sections c) \<longleftrightarrow>
      sid_x s = cid_x c \<and> sid_z s = cid_z c \<and> (\<exists>n < 16. sid_y s = of_nat n)"
    by (cases s) (auto simp: sections_layers image_iff)
  also have "(\<exists>n < 16. sid_y s = of_nat n) \<longleftrightarrow> unat (sid_y s) \<le> 15"
    by (auto simp: unat_of_nat intro!: exI [of _ "unat (sid_y s)"])
  finally show "s \<in> set (chunk_id_sections c) \<longleftrightarrow>
      s \<in> {s. section_id_wf s \<and> section_id_chunk s = c}"
    by (cases c) (auto simp: section_id_wf_def section_id_chunk_def)
  show "length (chunk_id_sections c) = 16" by (simp add: sections_layers)
  show "sorted_wrt (<) (chunk_id_sections c)"
    by (simp add: chunk_id_sections_def upto.simps less_section_id_def less_eq_section_id_def)
qed

text \<open>
  \<open>WorldY\<close> accepts exactly 0 to 255 and splits losslessly into a layer number and a height
  inside the layer, both below 16.
\<close>

theorem world_y_split:
  "(world_y_new v = Inr w \<longleftrightarrow> v = int (unat (wy_value w))) \<and>
   (world_y_new v = Inl WorldYError \<longleftrightarrow> v < 0 \<or> 255 < v) \<and>
   16 * unat (world_y_section_y w) + unat (world_y_cell_y w) = unat (wy_value w) \<and>
   unat (world_y_section_y w) < 16 \<and> unat (world_y_cell_y w) < 16"
proof -
  have lt: "unat (wy_value w) < 256" using unsigned_less [of "wy_value w"] by simp
  have sy: "unat (world_y_section_y w) = unat (wy_value w) div 16"
    by (simp add: world_y_section_y_def unat_drop_bit_eq) (simp add: drop_bit_eq_div)
  have cy: "unat (world_y_cell_y w) = unat (wy_value w) mod 16"
    using take_bit_eq_mask [of 4 "unat (wy_value w)"]
    by (simp add: world_y_cell_y_def unsigned_and_eq take_bit_eq_mod mask_eq_exp_minus_1)
  have "world_y_new v = Inr w \<longleftrightarrow> v = int (unat (wy_value w))"
    using lt unat_of_int_u8 [of v]
    by (cases w) (auto simp: world_y_new_def word_eq_iff_unsigned [where 'a = nat] simp del: of_nat_unat)
  then show ?thesis
    using lt by (auto simp: sy cy div_less_iff_less_mult world_y_new_def)
qed

end
