(* ===== verification/Blocks.thy ===== *)
theory Blocks
  imports Keys
begin

text \<open>
  \<open>lumio-voxel-domain/src/block.rs\<close>, first half: the 32-bit block identity (a 24-bit type and an
  8-bit state), the cell order inside a section, and the dynamic layout of the state bits.

  The newtypes \<open>BlockType\<close>, \<open>BlockState\<close>, \<open>BlockId\<close> and \<open>CellOffset\<close> are the integers they wrap;
  the invariant their private constructors keep is a hypothesis where a lemma needs it.
\<close>

type_synonym block_type = u32
type_synonym block_state = u8
type_synonym block_id = u32
type_synonym cell_offset = u16

section \<open>Identity\<close>

datatype block_scope = ScopeGlobal | ScopeRoomLocal

datatype builtin_block_type = Air | ErrorBlock | EntityOccupancyPlaceholder | StructurePlaceholder

definition block_type_new :: "u32 \<Rightarrow> block_type option" where
  "block_type_new raw = (if raw \<le> BLOCK_TYPE_MAX then Some raw else None)"

definition block_type_scope :: "block_type \<Rightarrow> block_scope" where
  "block_type_scope t = (if t AND BLOCK_TYPE_SCOPE_MASK = 0 then ScopeGlobal else ScopeRoomLocal)"

definition block_type_room_local_index :: "block_type \<Rightarrow> u32 option" where
  "block_type_room_local_index t =
     (if t AND BLOCK_TYPE_SCOPE_MASK \<noteq> 0 then Some (t AND NOT BLOCK_TYPE_SCOPE_MASK) else None)"

definition builtin_from_block_type :: "block_type \<Rightarrow> builtin_block_type option" where
  "builtin_from_block_type t =
     (if t = BLOCK_TYPE_AIR then Some Air
      else if t = BLOCK_TYPE_ERROR then Some ErrorBlock
      else if t = BLOCK_TYPE_ECS_OCCUPANCY then Some EntityOccupancyPlaceholder
      else if t = BLOCK_TYPE_STRUCTURE_PLACEHOLDER then Some StructurePlaceholder
      else None)"

fun builtin_type_of :: "builtin_block_type \<Rightarrow> block_type" where
  "builtin_type_of Air = BLOCK_TYPE_AIR"
| "builtin_type_of ErrorBlock = BLOCK_TYPE_ERROR"
| "builtin_type_of EntityOccupancyPlaceholder = BLOCK_TYPE_ECS_OCCUPANCY"
| "builtin_type_of StructurePlaceholder = BLOCK_TYPE_STRUCTURE_PLACEHOLDER"

fun builtin_name :: "builtin_block_type \<Rightarrow> string" where
  "builtin_name Air = ''air''"
| "builtin_name ErrorBlock = ''error-block''"
| "builtin_name EntityOccupancyPlaceholder = ''ecs-occupancy''"
| "builtin_name StructurePlaceholder = ''structure-placeholder''"

definition block_id_from_parts :: "block_type \<Rightarrow> block_state \<Rightarrow> block_id" where
  "block_id_from_parts t st = push_bit BLOCK_TYPE_SHIFT t OR ucast st"

definition block_id_type :: "block_id \<Rightarrow> block_type" where
  "block_id_type b = drop_bit BLOCK_TYPE_SHIFT b"

definition block_id_state :: "block_id \<Rightarrow> block_state" where
  "block_id_state b = ucast (b AND BLOCK_STATE_MAX)"

section \<open>Cell offsets\<close>

definition cell_offset_new :: "u16 \<Rightarrow> string + cell_offset" where
  "cell_offset_new raw =
     (if raw > CELL_OFFSET_MAX then Inl (contract_error CELL_OFFSET_OUT_OF_RANGE) else Inr raw)"

definition cell_offset_from_world :: "i32 \<Rightarrow> world_y \<Rightarrow> i32 \<Rightarrow> cell_offset" where
  "cell_offset_from_world wx wy wz =
     (let x = ucast (wx AND (of_nat SECTION_EXTENT - 1)) :: u16;
          y = ucast (world_y_cell_y wy) :: u16;
          z = ucast (wz AND (of_nat SECTION_EXTENT - 1)) :: u16
      in y * CELL_OFFSET_Y_STRIDE + z * CELL_OFFSET_Z_STRIDE + x * CELL_OFFSET_X_STRIDE)"

definition cell_offset_validate_for_world ::
    "u16 \<Rightarrow> i32 \<Rightarrow> world_y \<Rightarrow> i32 \<Rightarrow> string + cell_offset" where
  "cell_offset_validate_for_world raw wx wy wz =
     rbind (cell_offset_new raw) (\<lambda>offset.
       if offset \<noteq> cell_offset_from_world wx wy wz
       then Inl (contract_error CELL_OFFSET_OUT_OF_RANGE) else Inr offset)"

definition cell_offset_y :: "cell_offset \<Rightarrow> u8" where
  "cell_offset_y c = ucast (drop_bit 8 c AND 15)"

definition cell_offset_z :: "cell_offset \<Rightarrow> u8" where
  "cell_offset_z c = ucast (drop_bit 4 c AND 15)"

definition cell_offset_x :: "cell_offset \<Rightarrow> u8" where
  "cell_offset_x c = ucast (c AND 15)"

section \<open>State layouts\<close>

datatype state_field = StateField (sf_name: string) (sf_offset: u8) (sf_width: u8)

datatype state_layout_error = EmptyName | DuplicateName | ZeroWidth | WidthOverflow

datatype state_access_error = UnknownField | ValueOutOfRange

type_synonym state_layout = "state_field list"

definition state_field_value_mask :: "state_field \<Rightarrow> u16" where
  "state_field_value_mask f = push_bit (unat (sf_width f)) 1 - 1"

text \<open>One iteration of the loop in \<open>StateLayout::new\<close>; the state is the fields and the next offset.\<close>

definition state_layout_step ::
    "string \<times> u8 \<Rightarrow> state_layout \<times> u8 \<Rightarrow> state_layout_error + (state_layout \<times> u8)" where
  "state_layout_step spec st =
     (let (nm, width) = spec; (fields, off) = st in
      if nm = [] then Inl EmptyName
      else if width = 0 then Inl ZeroWidth
      else if list_ex (\<lambda>f. sf_name f = nm) fields then Inl DuplicateName
      else rbind (ok_or WidthOverflow (checked_add off width)) (\<lambda>e.
        if e > 8 then Inl WidthOverflow
        else Inr (fields @ [StateField nm off width], e)))"

definition state_layout_new :: "(string \<times> u8) list \<Rightarrow> state_layout_error + state_layout" where
  "state_layout_new specs =
     rbind (rfold state_layout_step specs ([], 0)) (\<lambda>(fields, _). Inr fields)"

definition state_layout_field :: "state_layout \<Rightarrow> string \<Rightarrow> state_field option" where
  "state_layout_field l nm = find (\<lambda>f. sf_name f = nm) l"

definition state_layout_read :: "state_layout \<Rightarrow> block_state \<Rightarrow> string \<Rightarrow> state_access_error + u8" where
  "state_layout_read l st nm =
     rbind (ok_or UnknownField (state_layout_field l nm)) (\<lambda>f.
       Inr (ucast (drop_bit (unat (sf_offset f)) (ucast st :: u16) AND state_field_value_mask f)))"

definition state_layout_write ::
    "state_layout \<Rightarrow> block_state \<Rightarrow> string \<Rightarrow> u8 \<Rightarrow> state_access_error + block_state" where
  "state_layout_write l st nm v =
     rbind (ok_or UnknownField (state_layout_field l nm)) (\<lambda>f.
       let value_mask = state_field_value_mask f in
       if (ucast v :: u16) > value_mask then Inl ValueOutOfRange
       else Inr (ucast (((ucast st :: u16) AND NOT (push_bit (unat (sf_offset f)) value_mask))
                        OR push_bit (unat (sf_offset f)) (ucast v))))"

section \<open>Facts about identities\<close>

lemma block_type_max_iff: "t \<le> BLOCK_TYPE_MAX \<longleftrightarrow> take_bit 24 t = t"
  using word_le_mask_iff [of 24 t] by (simp add: mask_eq_exp_minus_1)

lemma block_id_state_parts: "block_id_state (block_id_from_parts t st) = st"
  by (rule bit_word_eqI)
     (auto simp: block_id_state_def block_id_from_parts_def and_masks bit_simps)

lemma block_id_of_parts: "block_id_from_parts (block_id_type b) (block_id_state b) = b"
  by (rule bit_word_eqI)
     (auto simp: block_id_state_def block_id_from_parts_def block_id_type_def and_masks bit_simps)

lemma block_id_type_max: "block_id_type b \<le> BLOCK_TYPE_MAX"
  unfolding block_type_max_iff block_id_type_def
  by (rule bit_word_eqI) (auto simp: bit_simps dest: bit_imp_le_length)

lemma block_id_type_parts:
  assumes "t \<le> BLOCK_TYPE_MAX"
  shows "block_id_type (block_id_from_parts t st) = t"
proof -
  have "block_id_type (block_id_from_parts t st) = take_bit 24 t"
    by (rule bit_word_eqI)
       (auto simp: block_id_type_def block_id_from_parts_def bit_simps dest: bit_imp_le_length)
  with assms show ?thesis by (simp only: block_type_max_iff)
qed

section \<open>Facts about cell offsets\<close>

lemma cell_offset_max_iff: "c \<le> CELL_OFFSET_MAX \<longleftrightarrow> take_bit 12 c = c"
  using word_le_mask_iff [of 12 c] by (simp add: mask_eq_exp_minus_1)

lemma cell_offset_from_world_bits:
  "cell_offset_from_world wx wy wz =
     push_bit 8 (ucast (take_bit 4 (wy_value wy))) OR
     (push_bit 4 (ucast (take_bit 4 wz)) OR ucast (take_bit 4 wx))"
proof -
  let ?y = "push_bit 8 (ucast (take_bit 4 (wy_value wy))) :: u16"
  let ?z = "push_bit 4 (ucast (take_bit 4 wz)) :: u16"
  let ?x = "ucast (take_bit 4 wx) :: u16"
  have "?z + ?x = ?z OR ?x" by (rule disjunctive_add) (auto simp: bit_simps)
  moreover have "?y + (?z OR ?x) = ?y OR (?z OR ?x)"
    by (rule disjunctive_add) (auto simp: bit_simps)
  moreover have "cell_offset_from_world wx wy wz = ?y + (?z + ?x)"
    by (simp add: cell_offset_from_world_def world_y_cell_y_def and_masks push_bit_eq_mult)
  ultimately show ?thesis by simp
qed

lemma cell_offset_from_world_max: "cell_offset_from_world wx wy wz \<le> CELL_OFFSET_MAX"
  unfolding cell_offset_max_iff cell_offset_from_world_bits
  by (rule bit_word_eqI) (auto simp: bit_simps)

lemma cell_offset_coordinates:
  "cell_offset_y (cell_offset_from_world wx wy wz) = world_y_cell_y wy"
  "cell_offset_z (cell_offset_from_world wx wy wz) = ucast (wz AND 15)"
  "cell_offset_x (cell_offset_from_world wx wy wz) = ucast (wx AND 15)"
  unfolding cell_offset_y_def cell_offset_z_def cell_offset_x_def cell_offset_from_world_bits
    world_y_cell_y_def and_masks
  by (rule bit_word_eqI; auto simp: bit_simps)+

lemma cell_offset_eqI:
  assumes "c \<le> CELL_OFFSET_MAX" "d \<le> CELL_OFFSET_MAX"
    and "cell_offset_y c = cell_offset_y d" "cell_offset_z c = cell_offset_z d"
    and "cell_offset_x c = cell_offset_x d"
  shows "c = d"
proof -
  have decompose: "e = push_bit 8 (ucast (cell_offset_y e)) OR
      (push_bit 4 (ucast (cell_offset_z e)) OR ucast (cell_offset_x e))"
    if "e \<le> CELL_OFFSET_MAX" for e :: cell_offset
  proof -
    have "take_bit 12 e = push_bit 8 (ucast (cell_offset_y e)) OR
        (push_bit 4 (ucast (cell_offset_z e)) OR ucast (cell_offset_x e))"
      unfolding cell_offset_y_def cell_offset_z_def cell_offset_x_def and_masks
    proof (rule bit_word_eqI)
      fix n
      show "bit (take_bit 12 e) n \<longleftrightarrow> bit (push_bit 8 (ucast (ucast (take_bit 4 (drop_bit 8 e)) :: u8))
          OR (push_bit 4 (ucast (ucast (take_bit 4 (drop_bit 4 e)) :: u8))
          OR ucast (ucast (take_bit 4 e) :: u8)) :: u16) n"
        by (cases "n < 4"; cases "n < 8") (auto simp: bit_simps)
    qed
    with that show ?thesis by (simp only: cell_offset_max_iff)
  qed
  show ?thesis
    using decompose [OF assms(1)] decompose [OF assms(2)] assms(3-5) by simp
qed

section \<open>Facts about state layouts\<close>

text \<open>What \<open>StateLayout::new\<close> guarantees: fields packed from bit 0 into eight bits.\<close>

fun layout_packed :: "nat \<Rightarrow> state_layout \<Rightarrow> bool" where
  "layout_packed n [] \<longleftrightarrow> n \<le> 8"
| "layout_packed n (f # fs) \<longleftrightarrow>
     unat (sf_offset f) = n \<and> 0 < unat (sf_width f) \<and> layout_packed (n + unat (sf_width f)) fs"

definition layout_wf :: "state_layout \<Rightarrow> bool" where
  "layout_wf l \<longleftrightarrow> layout_packed 0 l \<and> distinct (map sf_name l) \<and> [] \<notin> sf_name ` set l"

lemma layout_packed_snoc:
  "layout_packed n (l @ [StateField nm off w]) \<longleftrightarrow>
     layout_packed n l \<and> unat off = n + sum_list (map (unat \<circ> sf_width) l) \<and> 0 < unat w \<and>
     unat off + unat w \<le> 8"
proof (induction l arbitrary: n)
  case Nil
  show ?case by (simp, linarith)
next
  case (Cons f l)
  show ?case by (simp add: Cons.IH add.assoc conj_ac)
qed

lemma layout_packed_le: "layout_packed n l \<Longrightarrow> n + sum_list (map (unat \<circ> sf_width) l) \<le> 8"
  by (induction l arbitrary: n) (auto simp flip: add.assoc)

lemma layout_packed_bounds:
  "layout_packed n l \<Longrightarrow> f \<in> set l \<Longrightarrow>
     n \<le> unat (sf_offset f) \<and> 0 < unat (sf_width f) \<and> unat (sf_offset f) + unat (sf_width f) \<le> 8"
proof (induction l arbitrary: n)
  case Nil
  then show ?case by simp
next
  case (Cons g l)
  from Cons.prems layout_packed_le [of "n + unat (sf_width g)" l] show ?case
    by (auto dest: Cons.IH)
qed

lemma layout_packed_disjoint:
  "layout_packed n l \<Longrightarrow> f \<in> set l \<Longrightarrow> g \<in> set l \<Longrightarrow> f \<noteq> g \<Longrightarrow>
     unat (sf_offset f) + unat (sf_width f) \<le> unat (sf_offset g) \<or>
     unat (sf_offset g) + unat (sf_width g) \<le> unat (sf_offset f)"
proof (induction l arbitrary: n)
  case Nil
  then show ?case by simp
next
  case (Cons h l)
  have tail: "layout_packed (n + unat (sf_width h)) l" and off: "unat (sf_offset h) = n"
    using Cons.prems(1) by simp_all
  from Cons.prems(2,3,4) consider "f = h" "g \<in> set l" | "g = h" "f \<in> set l" | "f \<in> set l" "g \<in> set l"
    by auto
  then show ?case
    using layout_packed_bounds [OF tail] off Cons.IH [OF tail _ _ Cons.prems(4)] by cases auto
qed

lemma state_field_value_mask_mask:
  "unat (sf_width f) \<le> 8 \<Longrightarrow> state_field_value_mask f = mask (unat (sf_width f))"
  by (simp add: state_field_value_mask_def mask_eq_exp_minus_1 push_bit_of_1)

lemma state_layout_field_iff:
  "distinct (map sf_name l) \<Longrightarrow> state_layout_field l nm = Some f \<longleftrightarrow> f \<in> set l \<and> sf_name f = nm"
  unfolding state_layout_field_def by (induction l) (auto simp: image_iff)

lemma state_layout_field_None: "state_layout_field l nm = None \<longleftrightarrow> nm \<notin> sf_name ` set l"
  unfolding state_layout_field_def find_None_iff by auto

text \<open>The loop of \<open>StateLayout::new\<close> keeps the layout well formed and records every spec.\<close>

lemma state_layout_step_wf:
  assumes "state_layout_step spec (l, off) = Inr (l', off')"
    and "layout_wf l" "unat off = sum_list (map (unat \<circ> sf_width) l)" "unat off \<le> 8"
  shows "layout_wf l' \<and> unat off' = sum_list (map (unat \<circ> sf_width) l') \<and> unat off' \<le> 8 \<and>
    map (\<lambda>f. (sf_name f, sf_width f)) l' = map (\<lambda>f. (sf_name f, sf_width f)) l @ [spec]"
proof -
  obtain nm w where spec: "spec = (nm, w)" by (cases spec)
  from assms(1) have nm: "nm \<noteq> []" "w \<noteq> 0" "nm \<notin> sf_name ` set l"
    and e: "checked_add off w = Some off'" "\<not> off' > 8" and l': "l' = l @ [StateField nm off w]"
    by (auto simp: spec state_layout_step_def Let_def result_iff list_ex_iff split: if_splits)
  from e(1) have sum: "unat off' = unat off + unat w" by (rule checked_add_Some)
  have "unat w \<noteq> 0" using nm(2) by (simp add: unat_eq_0)
  moreover have "unat off' \<le> 8" using e(2) by (simp add: word_less_nat_alt not_less)
  ultimately show ?thesis
    using assms(2-4) nm sum by (simp add: l' spec layout_wf_def layout_packed_snoc)
qed

lemma rfold_state_layout_wf:
  "rfold state_layout_step specs (l, off) = Inr (l', off') \<Longrightarrow> layout_wf l \<Longrightarrow>
   unat off = sum_list (map (unat \<circ> sf_width) l) \<Longrightarrow> unat off \<le> 8 \<Longrightarrow>
   layout_wf l' \<and>
   map (\<lambda>f. (sf_name f, sf_width f)) l' = map (\<lambda>f. (sf_name f, sf_width f)) l @ specs"
proof (induction specs arbitrary: l off)
  case Nil
  then show ?case by simp
next
  case (Cons spec specs)
  from Cons.prems(1) obtain l1 off1 where step: "state_layout_step spec (l, off) = Inr (l1, off1)"
    and rest: "rfold state_layout_step specs (l1, off1) = Inr (l', off')"
    by (auto simp: result_iff)
  note step_wf = state_layout_step_wf [OF step Cons.prems(2-4)]
  have "layout_wf l' \<and>
      map (\<lambda>f. (sf_name f, sf_width f)) l' = map (\<lambda>f. (sf_name f, sf_width f)) l1 @ specs"
    by (rule Cons.IH [OF rest]) (use step_wf in blast)+
  with step_wf show ?case by simp
qed

lemma state_layout_new_wf:
  assumes "state_layout_new specs = Inr l"
  shows "layout_wf l" "map (\<lambda>f. (sf_name f, sf_width f)) l = specs"
  using assms rfold_state_layout_wf [of specs "[]" 0]
  by (auto simp: state_layout_new_def result_iff layout_wf_def)

text \<open>Reading and writing a field, bit by bit.\<close>

lemma layout_wf_fieldD:
  assumes "layout_wf l" "state_layout_field l nm = Some f"
  shows "f \<in> set l" "sf_name f = nm" "unat (sf_offset f) + unat (sf_width f) \<le> 8"
    "0 < unat (sf_width f)"
  using assms layout_packed_bounds [of 0 l f]
  by (auto simp: layout_wf_def state_layout_field_iff)

lemma state_layout_read_bits:
  assumes "layout_wf l" "state_layout_field l nm = Some f"
  shows "\<exists>v. state_layout_read l st nm = Inr v \<and>
    (\<forall>i. bit v i \<longleftrightarrow> i < unat (sf_width f) \<and> bit st (unat (sf_offset f) + i))"
  using layout_wf_fieldD [OF assms] assms(2)
  by (auto simp: state_layout_read_def state_field_value_mask_mask bit_simps)

lemma state_layout_write_bits:
  assumes "layout_wf l" "state_layout_field l nm = Some f" "unat v < 2 ^ unat (sf_width f)"
  shows "\<exists>st'. state_layout_write l st nm v = Inr st' \<and>
    (\<forall>i. bit st' i \<longleftrightarrow>
       (if unat (sf_offset f) \<le> i \<and> i < unat (sf_offset f) + unat (sf_width f)
        then bit v (i - unat (sf_offset f)) else bit st i))"
proof -
  note f = layout_wf_fieldD [OF assms(1,2)]
  let ?w = "unat (sf_width f)" and ?o = "unat (sf_offset f)"
  have w: "?w \<le> 8" "?o \<le> 8" using f(3) by simp_all
  have tv: "take_bit ?w (unat v) = unat v"
    using assms(3) by (simp add: take_bit_nat_eq_self_iff)
  have "take_bit ?w (ucast v :: u16) = ucast v"
    by (rule bit_word_eqI)
       (use arg_cong [OF tv, of bit] in \<open>auto simp: bit_simps fun_eq_iff\<close>)
  then have fits: "(ucast v :: u16) \<le> mask ?w"
    using w by (subst word_le_mask_iff) simp_all
  have hi: "bit v i \<Longrightarrow> i < ?w" for i
    using arg_cong [OF tv, of "\<lambda>x. bit x i"] by (auto simp: bit_simps)
  let ?st' = "ucast (((ucast st :: u16) AND NOT (push_bit ?o (mask ?w))) OR push_bit ?o (ucast v)) :: u8"
  have "bit ?st' i \<longleftrightarrow> (if ?o \<le> i \<and> i < ?o + ?w then bit v (i - ?o) else bit st i)" for i
    using f(3) hi [of "i - ?o"] by (auto simp: bit_simps dest: bit_imp_le_length)
  then show ?thesis
    using assms(2) w fits
    by (simp add: state_layout_write_def Let_def state_field_value_mask_mask not_less)
qed

interpretation block_id_codec: strict_codec
  "\<lambda>(t, st). t \<le> BLOCK_TYPE_MAX" "\<lambda>(t, st). block_id_from_parts t st"
  "\<lambda>b. Inr (block_id_type b, block_id_state b) :: unit + (block_type \<times> block_state)"
  by unfold_locales
     (auto simp del: BLOCK_TYPE_MAX_def
       simp: block_id_type_parts block_id_state_parts block_id_of_parts block_id_type_max)

section \<open>Properties\<close>

text \<open>
  A block id is exactly a 24-bit type and an 8-bit state: packing and unpacking are inverse,
  every 32-bit value is such a pair, and two pairs share an id only when they are equal.
\<close>

theorem block_id_packing:
  assumes "t \<le> BLOCK_TYPE_MAX" "u \<le> BLOCK_TYPE_MAX"
  shows "block_id_type (block_id_from_parts t st) = t \<and>
    block_id_state (block_id_from_parts t st) = st \<and>
    block_id_from_parts (block_id_type b) (block_id_state b) = b \<and>
    block_type_new (block_id_type b) = Some (block_id_type b) \<and>
    (block_id_from_parts t st = block_id_from_parts u sv \<longleftrightarrow> t = u \<and> st = sv)"
  using block_id_codec.encode_inject [of "(t, st)" "(u, sv)"] assms
    block_id_type_max [of b]
  by (simp add: block_id_type_parts block_id_state_parts block_id_of_parts block_type_new_def
      del: BLOCK_TYPE_MAX_def)

theorem block_id_packing_witness:
  "block_id_type (block_id_from_parts 300 7) = 300 \<and>
   block_id_state (block_id_from_parts 300 7) = 7 \<and>
   block_id_from_parts (block_id_type 0x12C07) (block_id_state 0x12C07) = 0x12C07 \<and>
   block_type_new (block_id_type 0x12C07) = Some (block_id_type 0x12C07) \<and>
   (block_id_from_parts 300 7 = block_id_from_parts 0xFFFFFF 7 \<longleftrightarrow> (300 :: u32) = 0xFFFFFF \<and> (7 :: u8) = 7)"
  by (rule block_id_packing) simp_all

text \<open>
  The cell offset of a world position is the only raw value \<open>validate_for_world\<close> accepts for
  it: the accepted offset is below 4096 and its three digits are the low four bits of the world
  coordinates, so that inside one section offsets and positions are in bijection.
\<close>

theorem cell_offset_bijection:
  "(cell_offset_validate_for_world raw wx wy wz = Inr c \<longleftrightarrow>
      c = raw \<and> raw \<le> CELL_OFFSET_MAX \<and> cell_offset_y raw = world_y_cell_y wy \<and>
      cell_offset_z raw = ucast (wz AND 15) \<and> cell_offset_x raw = ucast (wx AND 15)) \<and>
   cell_offset_validate_for_world (cell_offset_from_world wx wy wz) wx wy wz =
      Inr (cell_offset_from_world wx wy wz) \<and>
   (cell_offset_validate_for_world raw wx wy wz \<noteq> Inr raw \<longleftrightarrow>
      cell_offset_validate_for_world raw wx wy wz = Inl CELL_OFFSET_OUT_OF_RANGE)"
proof -
  have max: "raw > CELL_OFFSET_MAX \<longleftrightarrow> \<not> raw \<le> CELL_OFFSET_MAX" by (simp only: not_le)
  have "cell_offset_validate_for_world raw wx wy wz = Inr c \<longleftrightarrow>
      c = raw \<and> raw \<le> CELL_OFFSET_MAX \<and> raw = cell_offset_from_world wx wy wz"
    by (auto simp del: CELL_OFFSET_MAX_def
        simp: cell_offset_validate_for_world_def cell_offset_new_def max)
  moreover have "raw = cell_offset_from_world wx wy wz \<longleftrightarrow>
      cell_offset_y raw = world_y_cell_y wy \<and> cell_offset_z raw = ucast (wz AND 15) \<and>
      cell_offset_x raw = ucast (wx AND 15)" if "raw \<le> CELL_OFFSET_MAX"
    using cell_offset_eqI [OF that cell_offset_from_world_max, of wx wy wz]
    by (auto simp: cell_offset_coordinates)
  ultimately show ?thesis
    using cell_offset_from_world_max [of wx wy wz]
    by (auto simp del: CELL_OFFSET_MAX_def
        simp: cell_offset_validate_for_world_def cell_offset_new_def max)
qed

text \<open>
  In a layout accepted by \<open>StateLayout::new\<close>, writing a field that exists with a value that fits
  its width succeeds, reading it back gives the value, and reading any other name gives what it
  gave before.
\<close>

theorem state_layout_read_write:
  assumes new: "state_layout_new specs = Inr l" and field: "(nm, w) \<in> set specs"
    and fits: "unat v < 2 ^ unat w"
  shows "\<exists>st'. state_layout_write l st nm v = Inr st' \<and> state_layout_read l st' nm = Inr v \<and>
    (\<forall>other. other \<noteq> nm \<longrightarrow> state_layout_read l st' other = state_layout_read l st other)"
proof -
  note wf = state_layout_new_wf [OF new]
  from field wf(2) obtain f where "f \<in> set l" "sf_name f = nm" "sf_width f = w" by fastforce
  with wf(1) have f: "state_layout_field l nm = Some f" "sf_width f = w" "f \<in> set l"
    by (auto simp: layout_wf_def state_layout_field_iff)
  note fD = layout_wf_fieldD [OF wf(1) f(1)]
  have hi: "bit v i \<Longrightarrow> i < unat w" for i
  proof -
    have "take_bit (unat w) (unat v) = unat v" using fits by (simp add: take_bit_nat_eq_self_iff)
    then show "bit v i \<Longrightarrow> i < unat w" using bit_take_bit_iff [of "unat w" "unat v" i] by (auto simp: bit_simps)
  qed
  obtain st' where st': "state_layout_write l st nm v = Inr st'"
    "\<And>i. bit st' i \<longleftrightarrow> (if unat (sf_offset f) \<le> i \<and> i < unat (sf_offset f) + unat (sf_width f)
        then bit v (i - unat (sf_offset f)) else bit st i)"
    using state_layout_write_bits [OF wf(1) f(1), of v st] fits f(2) by auto
  obtain r where r: "state_layout_read l st' nm = Inr r"
    "\<And>i. bit r i \<longleftrightarrow> i < unat (sf_width f) \<and> bit st' (unat (sf_offset f) + i)"
    using state_layout_read_bits [OF wf(1) f(1), of st'] by auto
  have "r = v" using hi f(2) by (intro bit_word_eqI) (auto simp: r(2) st'(2))
  moreover have "state_layout_read l st' other = state_layout_read l st other" if "other \<noteq> nm" for other
  proof (cases "state_layout_field l other")
    case (Some g)
    note gD = layout_wf_fieldD [OF wf(1) Some]
    have "f \<noteq> g" using that fD(2) gD(2) by auto
    then have apart: "unat (sf_offset f) + unat (sf_width f) \<le> unat (sf_offset g) \<or>
        unat (sf_offset g) + unat (sf_width g) \<le> unat (sf_offset f)"
      using layout_packed_disjoint [OF _ f(3) gD(1), of 0] wf(1) by (simp add: layout_wf_def)
    obtain a b where ab: "state_layout_read l st' other = Inr a" "state_layout_read l st other = Inr b"
      "\<And>i. bit a i \<longleftrightarrow> i < unat (sf_width g) \<and> bit st' (unat (sf_offset g) + i)"
      "\<And>i. bit b i \<longleftrightarrow> i < unat (sf_width g) \<and> bit st (unat (sf_offset g) + i)"
      using state_layout_read_bits [OF wf(1) Some] by meson
    have "a = b" using apart by (intro bit_word_eqI) (auto simp: ab(3,4) st'(2))
    with ab show ?thesis by simp
  qed (simp add: state_layout_read_def)
  ultimately show ?thesis using st'(1) r(1) by blast
qed

theorem state_layout_read_write_witness:
  "\<exists>st'. state_layout_write [StateField ''level'' 0 4, StateField ''open'' 4 1] 0x12 ''level'' 9 = Inr st' \<and>
     state_layout_read [StateField ''level'' 0 4, StateField ''open'' 4 1] st' ''level'' = Inr 9 \<and>
     (\<forall>other. other \<noteq> ''level'' \<longrightarrow>
        state_layout_read [StateField ''level'' 0 4, StateField ''open'' 4 1] st' other =
        state_layout_read [StateField ''level'' 0 4, StateField ''open'' 4 1] 0x12 other)"
  by (rule state_layout_read_write [of "[(''level'', 4), (''open'', 1)]" _ _ 4])
     (simp_all add: state_layout_new_def state_layout_step_def checked_add_def)

end
