(* ===== verification/Catalog.thy ===== *)
theory Catalog
  imports Blocks
begin

text \<open>
  \<open>lumio-voxel-domain/src/block.rs\<close>, second half: material classes and behaviour templates, the
  official catalog (dense, append-only, names never reused), the room-local catalog with its
  import, and the tables that resolve a block id.
\<close>

section \<open>Materials and templates\<close>

datatype material_class = MaterialSolid | MaterialLiquid
datatype mesh_behavior = MeshSolid | MeshLiquid
datatype face_visibility = FaceHidden | FaceVisible
datatype render_pass = PassOpaque | PassTransparent
datatype collision_behavior = CollisionSolid | CollisionPassable
datatype light_attenuation = LightOpaque | LightAttenuating

record material_profile =
  mp_mesh :: mesh_behavior
  mp_render_pass :: render_pass
  mp_collision :: collision_behavior
  mp_light_attenuation :: light_attenuation
  mp_queryable :: bool

definition MATERIAL_TABLE :: "material_profile list" where
  "MATERIAL_TABLE = [
     \<lparr>mp_mesh = MeshSolid, mp_render_pass = PassOpaque, mp_collision = CollisionSolid,
      mp_light_attenuation = LightOpaque, mp_queryable = True\<rparr>,
     \<lparr>mp_mesh = MeshLiquid, mp_render_pass = PassTransparent, mp_collision = CollisionPassable,
      mp_light_attenuation = LightAttenuating, mp_queryable = True\<rparr>]"

definition material_class_parse :: "string \<Rightarrow> string + material_class" where
  "material_class_parse raw =
     (if raw = ''Solid'' then Inr MaterialSolid
      else if raw = ''Liquid'' then Inr MaterialLiquid
      else Inl (contract_error UNKNOWN_MATERIAL_CLASS))"

fun material_class_name :: "material_class \<Rightarrow> string" where
  "material_class_name MaterialSolid = ''Solid''"
| "material_class_name MaterialLiquid = ''Liquid''"

fun material_class_profile :: "material_class \<Rightarrow> material_profile" where
  "material_class_profile MaterialSolid = MATERIAL_TABLE ! 0"
| "material_class_profile MaterialLiquid = MATERIAL_TABLE ! 1"

definition validate_greedy_merge :: "material_class \<Rightarrow> material_class \<Rightarrow> string + unit" where
  "validate_greedy_merge a b =
     (if a \<noteq> b then Inl (contract_error CROSS_MATERIAL_FACE_MERGE) else Inr ())"

definition validate_auto_propagation_request :: "material_class \<Rightarrow> string + unit" where
  "validate_auto_propagation_request m =
     (if m = MaterialLiquid then Inl (contract_error LIQUID_AUTO_PROPAGATION_UNSUPPORTED) else Inr ())"

fun face_against :: "mesh_behavior \<Rightarrow> material_class option \<Rightarrow> face_visibility" where
  "face_against MeshLiquid None = FaceVisible"
| "face_against MeshLiquid (Some _) = FaceHidden"
| "face_against MeshSolid (Some MaterialSolid) = FaceHidden"
| "face_against MeshSolid _ = FaceVisible"

datatype material_storage = BlockTypeTable | PerCellLane

fun material_storage_validate :: "material_storage \<Rightarrow> string + unit" where
  "material_storage_validate BlockTypeTable = Inr ()"
| "material_storage_validate PerCellLane = Inl (contract_error MATERIAL_CLASS_NOT_A_CELL_LANE)"

datatype behavior_template = FullCube | LiquidTemplate

definition behavior_template_parse :: "string \<Rightarrow> string + behavior_template" where
  "behavior_template_parse raw =
     (if raw = ''FullCube'' then Inr FullCube
      else if raw = ''Liquid'' then Inr LiquidTemplate
      else Inl (contract_error UNKNOWN_BEHAVIOR_TEMPLATE))"

fun behavior_template_name :: "behavior_template \<Rightarrow> string" where
  "behavior_template_name FullCube = ''FullCube''"
| "behavior_template_name LiquidTemplate = ''Liquid''"

fun behavior_template_state_layout :: "behavior_template \<Rightarrow> state_layout" where
  "behavior_template_state_layout FullCube = []"
| "behavior_template_state_layout LiquidTemplate = projr (state_layout_new [(''level'', 4)])"

section \<open>The official catalog\<close>

record block_definition =
  bd_block_type :: block_type
  bd_name :: string
  bd_material_class :: material_class
  bd_behavior_template :: behavior_template
  bd_asset_ref :: string
  bd_state_layout :: state_layout

record catalog_row =
  cr_block_type :: "u32 option"
  cr_name :: "string option"
  cr_material_class :: "string option"
  cr_behavior_template :: "string option"
  cr_asset_ref :: "string option"
  cr_state_layout :: "state_layout option"

text \<open>
  \<open>str::trim\<close> removes characters of the Unicode \<open>White_Space\<close> property; \<open>is_blank\<close> says that
  nothing is left. In UTF-8 those characters are the one-byte codes 9 to 13 and 32, the two-byte
  U+0085 and U+00A0, and the three-byte U+1680, U+2000 to U+200A, U+2028, U+2029, U+202F, U+205F
  and U+3000.
\<close>

definition ws3 :: "nat \<Rightarrow> nat \<Rightarrow> nat \<Rightarrow> bool" where
  "ws3 a b c \<longleftrightarrow>
     a = 225 \<and> b = 154 \<and> c = 128 \<or>
     a = 226 \<and> b = 128 \<and> (128 \<le> c \<and> c \<le> 138 \<or> c = 168 \<or> c = 169 \<or> c = 175) \<or>
     a = 226 \<and> b = 129 \<and> c = 159 \<or>
     a = 227 \<and> b = 128 \<and> c = 128"

fun blank_bytes :: "nat list \<Rightarrow> bool" where
  "blank_bytes [] \<longleftrightarrow> True"
| "blank_bytes (a # s) \<longleftrightarrow>
     (if 9 \<le> a \<and> a \<le> 13 \<or> a = 32 then blank_bytes s
      else (case s of
              b # t \<Rightarrow>
                (if a = 194 \<and> (b = 133 \<or> b = 160) then blank_bytes t
                 else (case t of c # u \<Rightarrow> ws3 a b c \<and> blank_bytes u | [] \<Rightarrow> False))
            | [] \<Rightarrow> False))"

definition is_blank :: "string \<Rightarrow> bool" where
  "is_blank s = blank_bytes (map of_char s)"

text \<open>\<open>self.name.filter(|v| !v.trim().is_empty())\<close> followed by \<open>let Some(..) = .. else\<close>.\<close>

definition required_text :: "string option \<Rightarrow> string + string" where
  "required_text v =
     (case v of Some s \<Rightarrow> if is_blank s then Inl (contract_error BLOCK_CATALOG_ROW_INCOMPLETE) else Inr s
      | None \<Rightarrow> Inl (contract_error BLOCK_CATALOG_ROW_INCOMPLETE))"

definition into_definition :: "catalog_row \<Rightarrow> string + block_definition" where
  "into_definition row =
     rbind (ok_or (contract_error BLOCK_CATALOG_ROW_INCOMPLETE) (cr_block_type row)) (\<lambda>bt.
     rbind (required_text (cr_name row)) (\<lambda>nm.
     rbind (required_text (cr_material_class row)) (\<lambda>material_name.
     rbind (required_text (cr_behavior_template row)) (\<lambda>template_name.
     rbind (required_text (cr_asset_ref row)) (\<lambda>asset_ref.
     rbind (ok_or (contract_error BLOCK_CATALOG_ROW_INCOMPLETE) (cr_state_layout row)) (\<lambda>layout.
     rbind (ok_or (contract_error BLOCK_CATALOG_NOT_DENSE) (block_type_new bt)) (\<lambda>block_type.
     rbind (material_class_parse material_name) (\<lambda>material.
     rbind (behavior_template_parse template_name) (\<lambda>template.
       Inr \<lparr>bd_block_type = block_type, bd_name = nm, bd_material_class = material,
            bd_behavior_template = template, bd_asset_ref = asset_ref,
            bd_state_layout = layout\<rparr>)))))))))"

record official_catalog =
  oc_rows :: "block_definition option list"
  oc_retired_names :: "string list"

definition official_register ::
    "catalog_row \<Rightarrow> official_catalog \<Rightarrow> string + (block_type \<times> official_catalog)" where
  "official_register row cat =
     rbind (into_definition row) (\<lambda>d.
       let block_type = bd_block_type d in
       if block_type \<le> SYSTEM_RESERVED_TYPE_MAX
       then Inl (contract_error SYSTEM_RESERVED_TYPE_MISUSE)
       else if block_type_scope block_type \<noteq> ScopeGlobal
       then Inl (contract_error BLOCK_TYPE_SCOPE_VIOLATION)
       else if block_type \<noteq> of_nat (length (oc_rows cat))
       then Inl (contract_error BLOCK_CATALOG_NOT_DENSE)
       else if list_ex (\<lambda>n. n = bd_name d) (oc_retired_names cat)
            \<or> list_ex (\<lambda>r. bd_name r = bd_name d) (List.map_filter id (oc_rows cat))
       then Inl (contract_error BLOCK_CATALOG_NAME_REUSED)
       else Inr (block_type, cat\<lparr>oc_rows := oc_rows cat @ [Some d]\<rparr>))"

definition official_load :: "catalog_row list \<Rightarrow> string list \<Rightarrow> string + official_catalog" where
  "official_load rows retired =
     rfold (\<lambda>row cat. rbind (official_register row cat) (\<lambda>(_, cat'). Inr cat')) rows
       \<lparr>oc_rows = replicate (unat FIRST_OFFICIAL_BLOCK_TYPE) None, oc_retired_names = retired\<rparr>"

text \<open>\<open>rows.get(i).and_then(Option::as_ref)\<close>.\<close>

definition official_get :: "official_catalog \<Rightarrow> block_type \<Rightarrow> string + block_definition option" where
  "official_get cat t =
     (if block_type_scope t \<noteq> ScopeGlobal then Inl (contract_error BLOCK_TYPE_SCOPE_VIOLATION)
      else Inr (if unat t < length (oc_rows cat) then oc_rows cat ! unat t else None))"

definition official_resolve_palette ::
    "official_catalog \<Rightarrow> block_id list \<Rightarrow> string + block_definition list" where
  "official_resolve_palette cat palette =
     rmap (\<lambda>i. rbind (official_get cat (block_id_type i))
                 (ok_or (contract_error UNREGISTERED_BLOCK_TYPE))) palette"

section \<open>The room-local catalog\<close>

datatype room_behavior = RoomTemplate string | RoomCustom

record room_row =
  rr_name :: string
  rr_material_class :: string
  rr_behavior :: room_behavior
  rr_asset_ref :: string
  rr_state_layout :: state_layout

type_synonym room_catalog = "block_definition list"

definition room_register :: "room_row \<Rightarrow> room_catalog \<Rightarrow> string + (block_type \<times> room_catalog)" where
  "room_register row rows =
     (if is_blank (rr_name row) \<or> is_blank (rr_material_class row) \<or> is_blank (rr_asset_ref row)
         \<or> (case rr_behavior row of RoomTemplate nm \<Rightarrow> is_blank nm | RoomCustom \<Rightarrow> False)
      then Inl (contract_error BLOCK_CATALOG_ROW_INCOMPLETE)
      else rbind (case rr_behavior row of
                    RoomTemplate nm \<Rightarrow> behavior_template_parse nm
                  | RoomCustom \<Rightarrow> Inl (contract_error PLAYER_TYPE_DECLARES_BEHAVIOR)) (\<lambda>template.
        let local_index = of_nat (length rows) :: u32;
            block_type = the (block_type_new (BLOCK_TYPE_SCOPE_MASK OR local_index))
        in rbind (material_class_parse (rr_material_class row)) (\<lambda>material.
          Inr (block_type, rows @ [
            \<lparr>bd_block_type = block_type, bd_name = rr_name row, bd_material_class = material,
             bd_behavior_template = template, bd_asset_ref = rr_asset_ref row,
             bd_state_layout = rr_state_layout row\<rparr>]))))"

definition nth_or :: "string \<Rightarrow> 'a list \<Rightarrow> nat \<Rightarrow> string + 'a" where
  "nth_or e xs i = (if i < length xs then Inr (xs ! i) else Inl e)"

definition room_get :: "room_catalog \<Rightarrow> block_type \<Rightarrow> string + block_definition" where
  "room_get rows t =
     rbind (ok_or (contract_error BLOCK_TYPE_SCOPE_VIOLATION) (block_type_room_local_index t))
       (\<lambda>i. nth_or (contract_error UNREGISTERED_BLOCK_TYPE) rows (unat i))"

definition room_get_for_save_mapping :: "room_catalog \<Rightarrow> block_type \<Rightarrow> string + block_definition" where
  "room_get_for_save_mapping rows t =
     rbind (ok_or (contract_error BLOCK_TYPE_SCOPE_VIOLATION) (block_type_room_local_index t))
       (\<lambda>i. nth_or (contract_error ROOM_LOCAL_TYPE_WITHOUT_MAPPING) rows (unat i))"

definition room_row_of :: "block_definition \<Rightarrow> room_row" where
  "room_row_of d =
     \<lparr>rr_name = bd_name d, rr_material_class = material_class_name (bd_material_class d),
      rr_behavior = RoomTemplate (behavior_template_name (bd_behavior_template d)),
      rr_asset_ref = bd_asset_ref d, rr_state_layout = bd_state_layout d\<rparr>"

definition room_import_from ::
    "room_catalog \<Rightarrow> room_catalog \<Rightarrow> string + ((block_type \<times> block_type) list \<times> room_catalog)" where
  "room_import_from source rows =
     rfold (\<lambda>d (remap, staged). rbind (room_register (room_row_of d) staged) (\<lambda>(t, staged').
              Inr (remap @ [(bd_block_type d, t)], staged'))) source ([], rows)"

section \<open>Resolution\<close>

record block_tables =
  bt_official :: official_catalog
  bt_room_local :: room_catalog

datatype block_resolution = ResBuiltin builtin_block_type | ResOrdinary block_definition

fun resolution_builtin :: "block_resolution \<Rightarrow> builtin_block_type option" where
  "resolution_builtin (ResBuiltin v) = Some v"
| "resolution_builtin (ResOrdinary _) = None"

fun resolution_ordinary :: "block_resolution \<Rightarrow> block_definition option" where
  "resolution_ordinary (ResBuiltin _) = None"
| "resolution_ordinary (ResOrdinary d) = Some d"

fun resolution_name :: "block_resolution \<Rightarrow> string" where
  "resolution_name (ResBuiltin v) = builtin_name v"
| "resolution_name (ResOrdinary d) = bd_name d"

fun resolution_material_class :: "block_resolution \<Rightarrow> material_class option" where
  "resolution_material_class (ResBuiltin _) = None"
| "resolution_material_class (ResOrdinary d) = Some (bd_material_class d)"

fun resolution_behavior_template :: "block_resolution \<Rightarrow> behavior_template option" where
  "resolution_behavior_template (ResBuiltin _) = None"
| "resolution_behavior_template (ResOrdinary d) = Some (bd_behavior_template d)"

definition tables_resolve :: "block_tables \<Rightarrow> block_id \<Rightarrow> string + block_resolution" where
  "tables_resolve tb b =
     (let t = block_id_type b in
      case builtin_from_block_type t of
        Some v \<Rightarrow> Inr (ResBuiltin v)
      | None \<Rightarrow>
          (case block_type_scope t of
             ScopeGlobal \<Rightarrow>
               if t \<le> SYSTEM_RESERVED_TYPE_MAX then Inl (contract_error UNREGISTERED_BLOCK_TYPE)
               else rbind (official_get (bt_official tb) t)
                      (\<lambda>r. ok_or (contract_error UNREGISTERED_BLOCK_TYPE) (map_option ResOrdinary r))
           | ScopeRoomLocal \<Rightarrow> rbind (room_get (bt_room_local tb) t) (\<lambda>d. Inr (ResOrdinary d))))"

definition tables_resolve_type :: "block_tables \<Rightarrow> block_type \<Rightarrow> string + block_resolution" where
  "tables_resolve_type tb t = tables_resolve tb (block_id_from_parts t 0)"

definition tables_resolve_for_save_mapping :: "block_tables \<Rightarrow> block_type \<Rightarrow> string + block_definition" where
  "tables_resolve_for_save_mapping tb t = room_get_for_save_mapping (bt_room_local tb) t"

definition tables_resolve_ordinary :: "block_tables \<Rightarrow> block_id \<Rightarrow> string + block_definition" where
  "tables_resolve_ordinary tb b =
     rbind (tables_resolve tb b)
       (\<lambda>r. ok_or (contract_error UNREGISTERED_BLOCK_TYPE) (resolution_ordinary r))"

section \<open>Segments\<close>

lemma and_scope_mask: "t AND BLOCK_TYPE_SCOPE_MASK = 0 \<longleftrightarrow> \<not> bit t 23"
  using and_exp_eq_0_iff_not_bit [of t 23] by simp

lemma bit_scope_mask: "bit BLOCK_TYPE_SCOPE_MASK i \<longleftrightarrow> i = 23"
proof -
  have "bit BLOCK_TYPE_SCOPE_MASK i \<longleftrightarrow> bit (2 ^ 23 :: u32) i" by simp
  also have "\<dots> \<longleftrightarrow> i = 23" unfolding bit_exp_iff by (auto simp: possible_bit_def)
  finally show ?thesis .
qed

lemma u32_less_iff_bits: "n < 32 \<Longrightarrow> unat (t :: u32) < 2 ^ n \<longleftrightarrow> take_bit n t = t"
  by (simp add: word_eq_iff_unsigned [where 'a = nat] unsigned_take_bit_eq take_bit_nat_eq_self_iff)

lemma scope_global_iff:
  assumes "t \<le> BLOCK_TYPE_MAX"
  shows "block_type_scope t = ScopeGlobal \<longleftrightarrow> unat t < 2 ^ 23"
proof -
  have t: "take_bit 24 t = t" using assms by (simp only: block_type_max_iff)
  have "take_bit 23 t = t \<longleftrightarrow> \<not> bit t 23"
  proof
    assume "take_bit 23 t = t"
    then show "\<not> bit t 23" using bit_take_bit_iff [of 23 t 23] by simp
  next
    assume nb: "\<not> bit t 23"
    have lt: "bit t i \<longleftrightarrow> i < 24 \<and> bit t i" for i
      using arg_cong [OF t, of "\<lambda>x. bit x i"] by (auto simp: bit_take_bit_iff)
    have "bit t i \<Longrightarrow> i < 23" for i
      using lt [of i] nb by (cases "i = 23") auto
    then show "take_bit 23 t = t" by (intro bit_word_eqI) (auto simp: bit_take_bit_iff)
  qed
  then show ?thesis
    using u32_less_iff_bits [of 23 t]
    by (simp del: BLOCK_TYPE_SCOPE_MASK_def add: block_type_scope_def and_scope_mask)
qed

lemma room_type_of_index:
  assumes "n < 2 ^ 23"
  shows "block_type_new (BLOCK_TYPE_SCOPE_MASK OR of_nat n) = Some (BLOCK_TYPE_SCOPE_MASK OR of_nat n)"
    "block_type_room_local_index (BLOCK_TYPE_SCOPE_MASK OR of_nat n) = Some (of_nat n)"
proof -
  have "take_bit 23 n = n" using assms by (simp add: take_bit_nat_eq_self_iff)
  then have hi: "bit n i \<Longrightarrow> i < 23" for i
    using bit_take_bit_iff [of 23 n i] by simp
  have "take_bit 24 (BLOCK_TYPE_SCOPE_MASK OR of_nat n) = BLOCK_TYPE_SCOPE_MASK OR (of_nat n :: u32)"
    by (rule bit_word_eqI)
       (auto simp del: BLOCK_TYPE_SCOPE_MASK_def simp: bit_simps bit_scope_mask dest: hi)
  then show "block_type_new (BLOCK_TYPE_SCOPE_MASK OR of_nat n) = Some (BLOCK_TYPE_SCOPE_MASK OR of_nat n)"
    using block_type_max_iff by (simp only: block_type_new_def if_True simp_thms)
  have "bit (BLOCK_TYPE_SCOPE_MASK OR (of_nat n :: u32)) 23"
    by (simp del: BLOCK_TYPE_SCOPE_MASK_def add: bit_simps bit_scope_mask)
  moreover have "(BLOCK_TYPE_SCOPE_MASK OR (of_nat n :: u32)) AND NOT BLOCK_TYPE_SCOPE_MASK = of_nat n"
    by (rule bit_word_eqI)
       (auto simp del: BLOCK_TYPE_SCOPE_MASK_def simp: bit_simps bit_scope_mask dest: hi)
  ultimately show "block_type_room_local_index (BLOCK_TYPE_SCOPE_MASK OR of_nat n) = Some (of_nat n)"
    by (simp only: block_type_room_local_index_def and_scope_mask if_True simp_thms)
qed

section \<open>The official catalog keeps its invariant\<close>

text \<open>
  The rows below 256 are empty, every other row holds the definition of its own index, the table
  stays in the global segment, and no name is blank, used twice or retired.
\<close>

definition catalog_holds :: "official_catalog \<Rightarrow> block_definition list \<Rightarrow> bool" where
  "catalog_holds cat ds \<longleftrightarrow>
     oc_rows cat = replicate 256 None @ map Some ds \<and> 256 + length ds \<le> 2 ^ 23 \<and>
     map (unat \<circ> bd_block_type) ds = [256..<256 + length ds] \<and>
     distinct (map bd_name ds) \<and> set (map bd_name ds) \<inter> set (oc_retired_names cat) = {} \<and>
     list_all (\<lambda>d. \<not> is_blank (bd_name d)) ds"

definition catalog_wf :: "official_catalog \<Rightarrow> bool" where
  "catalog_wf cat \<longleftrightarrow> (\<exists>ds. catalog_holds cat ds)"

lemma required_text_Inr: "required_text v = Inr s \<longleftrightarrow> v = Some s \<and> \<not> is_blank s"
  by (auto simp: required_text_def split: option.splits)

lemma into_definition_Inr:
  assumes "into_definition row = Inr d"
  shows "cr_block_type row = Some (bd_block_type d)" "bd_block_type d \<le> BLOCK_TYPE_MAX"
    "cr_name row = Some (bd_name d)" "\<not> is_blank (bd_name d)"
    "cr_asset_ref row = Some (bd_asset_ref d)" "cr_state_layout row = Some (bd_state_layout d)"
  using assms
  by (auto simp: into_definition_def result_iff required_text_Inr block_type_new_def
      simp del: BLOCK_TYPE_MAX_def split: if_splits)

lemma in_map_filter_id: "r \<in> set (List.map_filter id xs) \<longleftrightarrow> Some r \<in> set xs"
  by (induction xs) (auto simp: List.map_filter_simps split: option.splits)

lemma official_register_InrD:
  assumes "official_register row cat = Inr (t, cat')"
  obtains d where "into_definition row = Inr d" "t = bd_block_type d" "255 < unat t"
    "unat t < 2 ^ 23" "t = of_nat (length (oc_rows cat))"
    "bd_name d \<notin> set (oc_retired_names cat)" "\<forall>r. Some r \<in> set (oc_rows cat) \<longrightarrow> bd_name r \<noteq> bd_name d"
    "cat' = cat\<lparr>oc_rows := oc_rows cat @ [Some d]\<rparr>"
proof -
  from assms obtain d where d: "into_definition row = Inr d"
    unfolding official_register_def result_iff by blast
  with assms have t: "t = bd_block_type d" and low: "\<not> t \<le> SYSTEM_RESERVED_TYPE_MAX"
    and scope: "block_type_scope t = ScopeGlobal"
    and rest: "t = of_nat (length (oc_rows cat))" "bd_name d \<notin> set (oc_retired_names cat)"
      "\<forall>r. Some r \<in> set (oc_rows cat) \<longrightarrow> bd_name r \<noteq> bd_name d"
      "cat' = cat\<lparr>oc_rows := oc_rows cat @ [Some d]\<rparr>"
    by (simp_all add: official_register_def Let_def list_ex_iff in_map_filter_id
        del: SYSTEM_RESERVED_TYPE_MAX_def split: if_splits)
  have "255 < unat t" using low by (simp add: word_le_nat_alt)
  moreover have "unat t < 2 ^ 23"
    using scope_global_iff [of t] scope into_definition_Inr(2) [OF d(1)] t by blast
  ultimately show ?thesis using d t rest that by blast
qed

lemma official_register_holds:
  assumes reg: "official_register row cat = Inr (t, cat')" and holds: "catalog_holds cat ds"
  shows "\<exists>d. into_definition row = Inr d \<and> bd_block_type d = t \<and> unat t = 256 + length ds \<and>
    catalog_holds cat' (ds @ [d])"
proof -
  obtain d where d: "into_definition row = Inr d" "t = bd_block_type d" "unat t < 2 ^ 23"
    "t = of_nat (length (oc_rows cat))" "bd_name d \<notin> set (oc_retired_names cat)"
    "\<forall>r. Some r \<in> set (oc_rows cat) \<longrightarrow> bd_name r \<noteq> bd_name d"
    "cat' = cat\<lparr>oc_rows := oc_rows cat @ [Some d]\<rparr>"
    using reg by (rule official_register_InrD) blast
  have "length (oc_rows cat) = 256 + length ds" "256 + length ds < 2 ^ 32"
    using holds by (simp_all add: catalog_holds_def)
  with d(4) have len: "unat t = 256 + length ds"
    by (simp only: unat_of_nat) simp
  have "bd_name d \<notin> set (map bd_name ds)"
    using d(6) holds by (auto simp: catalog_holds_def)
  moreover have "[256..<257 + length ds] = [256..<256 + length ds] @ [256 + length ds]"
    using upt_Suc_append [of 256 "256 + length ds"] by simp
  ultimately have "catalog_holds cat' (ds @ [d])"
    using holds len d(2,3,5) into_definition_Inr(4) [OF d(1)] unfolding d(7) catalog_holds_def
    by (auto simp: replicate_append_same)
  with d(1,2) len show ?thesis by blast
qed

lemma official_load_holds:
  assumes "official_load rows retired = Inr cat"
  shows "\<exists>ds. catalog_holds cat ds \<and> length ds = length rows \<and> oc_retired_names cat = retired"
proof -
  have gen: "\<exists>es. catalog_holds c' (ds @ es) \<and> length es = length rows \<and>
      oc_retired_names c' = oc_retired_names c"
    if "rfold (\<lambda>row cat. rbind (official_register row cat) (\<lambda>(_, cat'). Inr cat')) rows c = Inr c'"
      and "catalog_holds c ds" for c c' ds
    using that
  proof (induction rows arbitrary: c ds)
    case Nil
    then show ?case by auto
  next
    case (Cons row rows)
    from Cons.prems(1) obtain t c1 where step: "official_register row c = Inr (t, c1)"
      and rest: "rfold (\<lambda>row cat. rbind (official_register row cat) (\<lambda>(_, cat'). Inr cat')) rows c1 = Inr c'"
      by (auto simp: result_iff)
    obtain d where d: "catalog_holds c1 (ds @ [d])"
      using official_register_holds [OF step Cons.prems(2)] by blast
    moreover have "oc_retired_names c1 = oc_retired_names c"
      using official_register_InrD [OF step] by (metis official_catalog.select_convs(2)
          official_catalog.surjective official_catalog.update_convs(1))
    moreover obtain es where "catalog_holds c' ((ds @ [d]) @ es)" "length es = length rows"
      "oc_retired_names c' = oc_retired_names c1"
      using Cons.IH [OF rest d] by blast
    ultimately show ?case by (intro exI [of _ "d # es"]) simp
  qed
  show ?thesis
    using gen [OF assms [unfolded official_load_def], of "[]"] by (auto simp: catalog_holds_def)
qed

lemma official_get_holds:
  assumes "catalog_holds cat ds" "t \<le> BLOCK_TYPE_MAX"
  shows "official_get cat t =
    (if unat t < 2 ^ 23
     then Inr (if 256 \<le> unat t \<and> unat t < 256 + length ds then Some (ds ! (unat t - 256)) else None)
     else Inl BLOCK_TYPE_SCOPE_VIOLATION)"
  using assms scope_global_iff [OF assms(2)]
  by (auto simp: official_get_def catalog_holds_def nth_append)

lemma catalog_holds_nth:
  assumes "catalog_holds cat ds" "k < length ds"
  shows "unat (bd_block_type (ds ! k)) = 256 + k"
proof -
  have "map (unat \<circ> bd_block_type) ds ! k = [256..<256 + length ds] ! k"
    using assms by (simp only: catalog_holds_def)
  with assms(2) show ?thesis by simp
qed

section \<open>The room-local catalog keeps its invariant\<close>

text \<open>Row \<open>i\<close> holds the definition of the room-local type with index \<open>i\<close>, all texts filled in.\<close>

definition room_entry_ok :: "nat \<Rightarrow> block_definition \<Rightarrow> bool" where
  "room_entry_ok i d \<longleftrightarrow>
     bd_block_type d = (BLOCK_TYPE_SCOPE_MASK OR of_nat i) \<and>
     \<not> is_blank (bd_name d) \<and> \<not> is_blank (bd_asset_ref d)"

definition room_wf :: "room_catalog \<Rightarrow> bool" where
  "room_wf rows \<longleftrightarrow> (\<forall>i < length rows. room_entry_ok i (rows ! i))"

lemma parse_material_name [simp]: "material_class_parse (material_class_name m) = Inr m"
  by (cases m) (simp_all add: material_class_parse_def)

lemma parse_template_name [simp]: "behavior_template_parse (behavior_template_name b) = Inr b"
  by (cases b) (simp_all add: behavior_template_parse_def)

lemma template_names_not_blank [simp]:
  "\<not> is_blank (material_class_name m)" "\<not> is_blank (behavior_template_name b)"
  by (cases m; simp add: is_blank_def ws3_def) (cases b; simp add: is_blank_def ws3_def)

lemma room_register_InrD:
  assumes "room_register row rows = Inr (t, rows')" "length rows < 2 ^ 23"
  obtains d where "t = bd_block_type d" "rows' = rows @ [d]" "room_entry_ok (length rows) d"
    "bd_name d = rr_name row" "bd_asset_ref d = rr_asset_ref row"
    "bd_state_layout d = rr_state_layout row"
    "material_class_parse (rr_material_class row) = Inr (bd_material_class d)"
    "\<exists>nm. rr_behavior row = RoomTemplate nm \<and>
       behavior_template_parse nm = Inr (bd_behavior_template d)"
  by (rule that [of "last rows'"];
      use assms(1) room_type_of_index(1) [OF assms(2)] in
        \<open>auto simp: room_register_def Let_def result_iff room_entry_ok_def
          simp del: BLOCK_TYPE_SCOPE_MASK_def split: if_splits room_behavior.splits\<close>)

lemma room_register_wf:
  assumes "room_register row rows = Inr (t, rows')" "length rows < 2 ^ 23" "room_wf rows"
  shows "room_wf rows'"
proof -
  obtain d where "rows' = rows @ [d]" "room_entry_ok (length rows) d"
    using room_register_InrD [OF assms(1,2)] by metis
  with assms(3) show ?thesis by (auto simp: room_wf_def nth_append less_Suc_eq)
qed

text \<open>Registering a row taken from another catalog cannot fail.\<close>

lemma room_register_row_of:
  assumes "room_entry_ok i d" "length rows < 2 ^ 23"
  shows "room_register (room_row_of d) rows =
    (let t = BLOCK_TYPE_SCOPE_MASK OR of_nat (length rows)
     in Inr (t, rows @ [d\<lparr>bd_block_type := t\<rparr>]))"
  using assms room_type_of_index(1) [OF assms(2)]
  by (simp add: room_register_def room_row_of_def room_entry_ok_def Let_def
      del: BLOCK_TYPE_SCOPE_MASK_def)

lemma room_import_fold:
  assumes "length rows + length source \<le> 2 ^ 23"
    and "\<forall>d \<in> set source. \<not> is_blank (bd_name d) \<and> \<not> is_blank (bd_asset_ref d)"
  shows "rfold (\<lambda>d (remap, staged). rbind (room_register (room_row_of d) staged) (\<lambda>(t, staged').
              Inr (remap @ [(bd_block_type d, t)], staged'))) source (remap, rows) =
    Inr (remap @ map2 (\<lambda>d i. (bd_block_type d, BLOCK_TYPE_SCOPE_MASK OR of_nat i)) source
           [length rows..<length rows + length source],
         rows @ map2 (\<lambda>d i. d\<lparr>bd_block_type := BLOCK_TYPE_SCOPE_MASK OR of_nat i\<rparr>) source
           [length rows..<length rows + length source])"
  using assms
proof (induction source arbitrary: remap rows)
  case Nil
  then show ?case by simp
next
  case (Cons d source)
  have reg: "room_register (room_row_of d) rows =
      Inr (BLOCK_TYPE_SCOPE_MASK OR of_nat (length rows),
           rows @ [d\<lparr>bd_block_type := BLOCK_TYPE_SCOPE_MASK OR of_nat (length rows)\<rparr>])"
    using room_register_row_of [of 0 "d\<lparr>bd_block_type := BLOCK_TYPE_SCOPE_MASK OR of_nat 0\<rparr>" rows] Cons.prems
    by (simp add: room_entry_ok_def Let_def room_row_of_def del: BLOCK_TYPE_SCOPE_MASK_def)
  have upt: "[length rows..<Suc (length rows + length source)] =
      length rows # [Suc (length rows)..<Suc (length rows + length source)]"
    by (simp add: upt_conv_Cons del: upt_Suc)
  show ?case
    using Cons.prems
    by (simp add: reg upt Cons.IH del: BLOCK_TYPE_SCOPE_MASK_def upt_Suc)
qed

section \<open>Properties\<close>

text \<open>
  The official catalog is dense and its names are unique: after any successful load, the type
  a lookup returns is the type asked for, it lies in 256 to 0x7FFFFF, exactly the first
  \<open>length rows\<close> such types are present, and two types never share a name, nor does a type use a
  retired one.
\<close>

theorem official_catalog_sound:
  assumes "official_load rows retired = Inr cat" "t \<le> BLOCK_TYPE_MAX" "u \<le> BLOCK_TYPE_MAX"
  shows "(official_get cat t = Inr (Some d) \<longrightarrow>
      bd_block_type d = t \<and> bd_name d \<notin> set retired \<and> \<not> is_blank (bd_name d)) \<and>
    ((\<exists>d. official_get cat t = Inr (Some d)) \<longleftrightarrow> 256 \<le> unat t \<and> unat t < 256 + length rows) \<and>
    (official_get cat t = Inr (Some d) \<longrightarrow> official_get cat u = Inr (Some e) \<longrightarrow>
      bd_name d = bd_name e \<longrightarrow> t = u)"
proof -
  obtain ds where ds: "catalog_holds cat ds" "length ds = length rows" "oc_retired_names cat = retired"
    using official_load_holds [OF assms(1)] by blast
  have small: "256 + length ds \<le> 2 ^ 23" using ds(1) by (simp add: catalog_holds_def)
  have get: "official_get cat v = Inr (Some x) \<longleftrightarrow>
      (\<exists>k < length ds. unat v = 256 + k \<and> x = ds ! k)" if "v \<le> BLOCK_TYPE_MAX" for v x
    using small unfolding official_get_holds [OF ds(1) that]
    by (auto intro!: exI [of _ "unat v - 256"])
  have names: "bd_name (ds ! k) = bd_name (ds ! j) \<longleftrightarrow> k = j" if "k < length ds" "j < length ds" for k j
    using ds(1) that nth_eq_iff_index_eq [of "map bd_name ds" k j] by (simp add: catalog_holds_def)
  have props: "bd_name (ds ! k) \<notin> set retired \<and> \<not> is_blank (bd_name (ds ! k))" if "k < length ds" for k
    using ds(1,3) nth_mem [OF that] by (auto simp: catalog_holds_def list_all_iff)
  have ty: "unat v = 256 + k \<Longrightarrow> k < length ds \<Longrightarrow> bd_block_type (ds ! k) = v" for v :: u32 and k
    using catalog_holds_nth [OF ds(1)] by (simp add: word_eq_iff_unsigned [where 'a = nat])
  show ?thesis
    unfolding get [OF assms(2)] get [OF assms(3)] using ds(2) names props ty
    by (auto simp: word_eq_iff_unsigned [where 'a = nat] intro!: exI [of _ "unat t - 256"])
qed

definition sample_row :: "u32 \<Rightarrow> string \<Rightarrow> catalog_row" where
  "sample_row t nm =
     \<lparr>cr_block_type = Some t, cr_name = Some nm, cr_material_class = Some ''Solid'',
      cr_behavior_template = Some ''FullCube'', cr_asset_ref = Some ''a'', cr_state_layout = Some []\<rparr>"

definition sample_definition :: "u32 \<Rightarrow> string \<Rightarrow> block_definition" where
  "sample_definition t nm =
     \<lparr>bd_block_type = t, bd_name = nm, bd_material_class = MaterialSolid,
      bd_behavior_template = FullCube, bd_asset_ref = ''a'', bd_state_layout = []\<rparr>"

lemma sample_load:
  "official_load [sample_row 256 ''stone'', sample_row 257 ''clay''] [''old''] =
     Inr \<lparr>oc_rows = replicate 256 None @
             [Some (sample_definition 256 ''stone''), Some (sample_definition 257 ''clay'')],
          oc_retired_names = [''old'']\<rparr>"
proof -
  have rows: "List.map_filter id (replicate n (None :: block_definition option) @ xs) = List.map_filter id xs" for n xs
    by (induction n) (simp_all add: List.map_filter_simps)
  show ?thesis
    by (simp add: official_load_def official_register_def into_definition_def required_text_def
        sample_row_def sample_definition_def block_type_new_def block_type_scope_def is_blank_def
        ws3_def Let_def material_class_parse_def behavior_template_parse_def rows
        rows [of _ "[]", simplified] List.map_filter_simps)
qed

theorem official_catalog_sound_witness:
  "\<exists>cat. official_load [sample_row 256 ''stone'', sample_row 257 ''clay''] [''old''] = Inr cat \<and>
    (official_get cat 256 = Inr (Some (sample_definition 256 ''stone'')) \<longrightarrow>
      bd_block_type (sample_definition 256 ''stone'') = 256 \<and>
      bd_name (sample_definition 256 ''stone'') \<notin> set [''old''] \<and>
      \<not> is_blank (bd_name (sample_definition 256 ''stone''))) \<and>
    ((\<exists>d. official_get cat 256 = Inr (Some d)) \<longleftrightarrow>
      256 \<le> unat (256 :: u32) \<and> unat (256 :: u32) < 256 + length [sample_row 256 ''stone'', sample_row 257 ''clay'']) \<and>
    (official_get cat 256 = Inr (Some (sample_definition 256 ''stone'')) \<longrightarrow>
      official_get cat 257 = Inr (Some (sample_definition 257 ''clay'')) \<longrightarrow>
      bd_name (sample_definition 256 ''stone'') = bd_name (sample_definition 257 ''clay'') \<longrightarrow>
      (256 :: u32) = 257)"
  by (rule exI, rule conjI [OF sample_load], rule official_catalog_sound [OF sample_load]) simp_all

text \<open>
  Importing a room-local catalog is all-or-nothing and loses nothing: as long as the 23-bit
  index space suffices it succeeds, every definition arrives unchanged but for its type, the new
  types are the next free indices in order, and the old rows keep their place.
\<close>

theorem room_import_total:
  assumes "room_wf source" "length rows + length source \<le> 2 ^ 23"
  shows "\<exists>remap rows'. room_import_from source rows = Inr (remap, rows') \<and>
    length rows' = length rows + length source \<and> take (length rows) rows' = rows \<and>
    (\<forall>k. k < length source \<longrightarrow>
       rows' ! (length rows + k) =
         (source ! k)\<lparr>bd_block_type := BLOCK_TYPE_SCOPE_MASK OR of_nat (length rows + k)\<rparr> \<and>
       remap ! k = (bd_block_type (source ! k), BLOCK_TYPE_SCOPE_MASK OR of_nat (length rows + k)) \<and>
       room_get rows' (snd (remap ! k)) = Inr (rows' ! (length rows + k)))"
proof -
  let ?is = "[length rows..<length rows + length source]"
  let ?ty = "\<lambda>i. BLOCK_TYPE_SCOPE_MASK OR of_nat i :: u32"
  let ?new = "map2 (\<lambda>d i. d\<lparr>bd_block_type := ?ty i\<rparr>) source ?is"
  let ?remap = "map2 (\<lambda>d i. (bd_block_type d, ?ty i)) source ?is"
  have "\<forall>d \<in> set source. \<not> is_blank (bd_name d) \<and> \<not> is_blank (bd_asset_ref d)"
    using assms(1) by (auto simp: room_wf_def room_entry_ok_def in_set_conv_nth)
  then have imp: "room_import_from source rows = Inr (?remap, rows @ ?new)"
    using room_import_fold [of rows source "[]"] assms(2)
    by (simp add: room_import_from_def del: BLOCK_TYPE_SCOPE_MASK_def)
  have "room_get (rows @ ?new) (?ty (length rows + k)) = Inr ((rows @ ?new) ! (length rows + k))"
    if "k < length source" for k
  proof -
    have lt: "length rows + k < 2 ^ 23" using that assms(2) by simp
    then have "length rows + k < 2 ^ 32" by simp
    then have "unat (of_nat (length rows + k) :: u32) = length rows + k"
      by (simp only: unat_of_nat) simp
    with that show ?thesis
      by (simp add: room_get_def room_type_of_index(2) [OF lt] nth_or_def
          del: BLOCK_TYPE_SCOPE_MASK_def of_nat_add)
  qed
  then show ?thesis
    by (intro exI [of _ ?remap] exI [of _ "rows @ ?new"])
       (simp add: imp nth_append del: BLOCK_TYPE_SCOPE_MASK_def of_nat_add)
qed

theorem room_import_total_witness:
  "\<exists>remap rows'. room_import_from [sample_definition 8388608 ''lamp''] [sample_definition 8388608 ''rug''] =
      Inr (remap, rows') \<and> length rows' = length [sample_definition 8388608 ''rug''] + length [sample_definition 8388608 ''lamp''] \<and>
    take (length [sample_definition 8388608 ''rug'']) rows' = [sample_definition 8388608 ''rug''] \<and>
    (\<forall>k. k < length [sample_definition 8388608 ''lamp''] \<longrightarrow>
       rows' ! (length [sample_definition 8388608 ''rug''] + k) = ([sample_definition 8388608 ''lamp''] ! k)
         \<lparr>bd_block_type := BLOCK_TYPE_SCOPE_MASK OR of_nat (length [sample_definition 8388608 ''rug''] + k)\<rparr> \<and>
       remap ! k = (bd_block_type ([sample_definition 8388608 ''lamp''] ! k),
         BLOCK_TYPE_SCOPE_MASK OR of_nat (length [sample_definition 8388608 ''rug''] + k)) \<and>
       room_get rows' (snd (remap ! k)) = Inr (rows' ! (length [sample_definition 8388608 ''rug''] + k)))"
  by (rule room_import_total)
     (simp_all add: room_wf_def room_entry_ok_def sample_definition_def is_blank_def ws3_def)

section \<open>Resolution is sound\<close>

definition tables_wf :: "block_tables \<Rightarrow> bool" where
  "tables_wf tb \<longleftrightarrow> catalog_wf (bt_official tb) \<and> room_wf (bt_room_local tb) \<and>
     length (bt_room_local tb) \<le> 2 ^ 23"

lemma builtin_from_Some: "builtin_from_block_type t = Some v \<longleftrightarrow> t = builtin_type_of v"
  by (cases v) (auto simp: builtin_from_block_type_def)

lemma builtin_from_None: "builtin_from_block_type t = None \<longleftrightarrow> 4 \<le> unat t"
proof -
  have "unat t < 4 \<longleftrightarrow> t = 0 \<or> t = 1 \<or> t = 2 \<or> t = 3"
    by (auto simp: word_eq_iff_unsigned [where 'a = nat])
  then show ?thesis by (auto simp: builtin_from_block_type_def not_less [symmetric])
qed

lemma room_get_type:
  assumes "room_wf rows" "room_get rows t = Inr d" "t \<le> BLOCK_TYPE_MAX"
  shows "bd_block_type d = t"
proof -
  have b24: "bit t i \<Longrightarrow> i < 24" for i
    using assms(3) block_type_max_iff [of t] bit_take_bit_iff [of 24 t i] by auto
  from assms(2) have bit: "bit t 23" and i: "unat (t AND NOT BLOCK_TYPE_SCOPE_MASK) < length rows"
    and d: "d = rows ! unat (t AND NOT BLOCK_TYPE_SCOPE_MASK)"
    by (auto simp: room_get_def block_type_room_local_index_def nth_or_def and_scope_mask result_iff
        simp del: BLOCK_TYPE_SCOPE_MASK_def split: if_splits)
  have "(BLOCK_TYPE_SCOPE_MASK OR (t AND NOT BLOCK_TYPE_SCOPE_MASK)) = t"
    using bit by (intro bit_word_eqI)
      (auto simp: bit_simps bit_scope_mask simp del: BLOCK_TYPE_SCOPE_MASK_def)
  with assms(1) i d show ?thesis
    by (auto simp: room_wf_def room_entry_ok_def simp del: BLOCK_TYPE_SCOPE_MASK_def)
qed

lemma catalog_get_type:
  assumes "catalog_wf cat" "official_get cat t = Inr (Some d)" "t \<le> BLOCK_TYPE_MAX"
  shows "bd_block_type d = t"
proof -
  obtain ds where ds: "catalog_holds cat ds" using assms(1) by (auto simp: catalog_wf_def)
  from assms(2) obtain k where k: "k < length ds" "unat t = 256 + k" "d = ds ! k"
    unfolding official_get_holds [OF ds assms(3)]
    by (auto split: if_splits intro: that [of "unat t - 256"])
  with catalog_holds_nth [OF ds k(1)] show ?thesis
    by (simp add: word_eq_iff_unsigned [where 'a = nat])
qed

text \<open>
  Resolving a block id never returns the wrong block: a sentinel comes back exactly for the
  types 0 to 3, an ordinary definition carries the type of the id, the state bits play no role,
  and the only failure is \<open>unregistered_block_type\<close>.
\<close>

theorem tables_resolve_sound:
  assumes "tables_wf tb"
  shows "(case tables_resolve tb b of
      Inl e \<Rightarrow> e = UNREGISTERED_BLOCK_TYPE \<and> 4 \<le> unat (block_id_type b)
    | Inr (ResBuiltin v) \<Rightarrow> block_id_type b = builtin_type_of v
    | Inr (ResOrdinary d) \<Rightarrow> bd_block_type d = block_id_type b \<and> 256 \<le> unat (block_id_type b)) \<and>
    tables_resolve tb b = tables_resolve_type tb (block_id_type b)"
proof -
  let ?t = "block_id_type b"
  note max = block_id_type_max [of b]
  have same: "tables_resolve_type tb ?t = tables_resolve tb b"
    using block_id_type_parts [OF max, of 0] by (simp add: tables_resolve_type_def tables_resolve_def)
  have low: "?t \<le> SYSTEM_RESERVED_TYPE_MAX \<longleftrightarrow> unat ?t < 256"
    by (auto simp: word_le_nat_alt)
  have scope: "block_type_scope ?t = ScopeGlobal \<longleftrightarrow> unat ?t < 2 ^ 23"
    by (rule scope_global_iff [OF max])
  show ?thesis
  proof (cases "builtin_from_block_type ?t")
    case (Some v)
    then show ?thesis using builtin_from_Some [of ?t v] same by (simp add: tables_resolve_def)
  next
    case None
    then have ge: "4 \<le> unat ?t" by (simp add: builtin_from_None)
    show ?thesis
    proof (cases "block_type_scope ?t")
      case ScopeGlobal
      show ?thesis
        using None ge same ScopeGlobal assms catalog_get_type [OF _ _ max, of "bt_official tb"]
        by (auto simp: tables_resolve_def Let_def tables_wf_def low official_get_def result_iff
            simp del: SYSTEM_RESERVED_TYPE_MAX_def split: sum.splits option.splits)
    next
      case ScopeRoomLocal
      then have "256 \<le> unat ?t" using scope by simp
      moreover have "room_get (bt_room_local tb) ?t = Inl e \<Longrightarrow> e = UNREGISTERED_BLOCK_TYPE" for e
        using ScopeRoomLocal
        by (auto simp: room_get_def block_type_room_local_index_def block_type_scope_def nth_or_def
            simp del: BLOCK_TYPE_SCOPE_MASK_def split: if_splits)
      ultimately show ?thesis
        using None ge same ScopeRoomLocal assms room_get_type [OF _ _ max, of "bt_room_local tb"]
        by (cases "room_get (bt_room_local tb) ?t") (auto simp: tables_resolve_def tables_wf_def)
    qed
  qed
qed

theorem tables_resolve_sound_witness:
  "\<exists>tb. (case tables_resolve tb 0x10005 of
      Inl e \<Rightarrow> e = UNREGISTERED_BLOCK_TYPE \<and> 4 \<le> unat (block_id_type 0x10005)
    | Inr (ResBuiltin v) \<Rightarrow> block_id_type 0x10005 = builtin_type_of v
    | Inr (ResOrdinary d) \<Rightarrow> bd_block_type d = block_id_type 0x10005 \<and> 256 \<le> unat (block_id_type 0x10005)) \<and>
    tables_resolve tb 0x10005 = tables_resolve_type tb (block_id_type 0x10005)"
proof -
  obtain cat where "official_load [sample_row 256 ''stone'', sample_row 257 ''clay''] [''old''] = Inr cat"
    using sample_load by blast
  then have "tables_wf \<lparr>bt_official = cat, bt_room_local = []\<rparr>"
    using official_load_holds by (fastforce simp: tables_wf_def catalog_wf_def room_wf_def)
  then show ?thesis by (intro exI) (rule tables_resolve_sound)
qed

text \<open>
  The room-local index space has 2^23 values, but \<open>RoomLocalCatalog::register\<close> does not check it:
  the row after the last one is registered under the type of row 0, and looking that type up
  finds row 0.
\<close>

lemma room_index_aliases:
  assumes "length rows = 2 ^ 23" "room_register row rows = Inr (t, rows')"
  shows "t = BLOCK_TYPE_SCOPE_MASK" "room_get rows' t = Inr (rows ! 0)"
proof -
  have "(of_nat (length rows) :: u32) = BLOCK_TYPE_SCOPE_MASK" using assms(1) by simp
  then have t: "t = BLOCK_TYPE_SCOPE_MASK" and r: "length rows' = Suc (length rows)" "rows' ! 0 = rows ! 0"
    using assms
    by (auto simp: room_register_def Let_def result_iff block_type_new_def nth_append
        split: if_splits)
  then show "t = BLOCK_TYPE_SCOPE_MASK" "room_get rows' t = Inr (rows ! 0)"
    using assms(1) by (simp_all add: room_get_def block_type_room_local_index_def nth_or_def)
qed

end
