(* ===== verification/Storage.thy ===== *)
theory Storage
  imports Catalog
begin

text \<open>
  \<open>section/block_storage.rs\<close> and the error type of \<open>section/mod.rs\<close>: the copy-on-write storage of
  the 4096 cells of a section as one block, a palette with byte indices, or raw ids.

  The abstraction of a storage is the list of its cells, \<open>expanded_cells\<close>; \<open>storage_wf\<close> is the
  representation invariant. Reads and writes implement list lookup and update, the storage is
  interpreted as a \<open>cell_store\<close>, and the representation is characterised: it is raw exactly when
  more than 256 different blocks are present.
\<close>

section \<open>Errors of the section layer\<close>

datatype section_error =
    SeKey key_error
  | SeSectionDigestMismatch string
  | SeInvalidHandle string
  | SeSectionUnavailable string
  | SeContractViolation string

fun section_error_id :: "section_error \<Rightarrow> string" where
  "section_error_id (SeKey e) = key_error_id e"
| "section_error_id (SeSectionDigestMismatch i) = i"
| "section_error_id (SeInvalidHandle i) = i"
| "section_error_id (SeSectionUnavailable i) = i"
| "section_error_id (SeContractViolation i) = i"

definition se_section_digest_mismatch :: section_error where
  "se_section_digest_mismatch = SeSectionDigestMismatch (contract_error SECTION_DIGEST_MISMATCH)"

definition se_invalid_handle :: section_error where
  "se_invalid_handle = SeInvalidHandle ''InvalidHandle''"

definition se_section_unavailable :: section_error where
  "se_section_unavailable = SeSectionUnavailable (contract_error SECTION_UNAVAILABLE)"

definition se_contract_violation :: "string \<Rightarrow> section_error" where
  "se_contract_violation i = SeContractViolation (contract_error i)"

section \<open>Data\<close>

abbreviation cell_count :: nat where
  "cell_count \<equiv> 4096"

abbreviation palette_capacity :: nat where
  "palette_capacity \<equiv> 256"

datatype section_encoding = EncUniform | EncPalette | EncRaw | EncDelta

fun section_encoding_name :: "section_encoding \<Rightarrow> string" where
  "section_encoding_name EncUniform = ''Uniform''"
| "section_encoding_name EncPalette = ''Palette''"
| "section_encoding_name EncRaw = ''Raw''"
| "section_encoding_name EncDelta = ''Delta''"

datatype palette_capacity_action =
    NotNeeded
  | ReusedDeadSlot bool
  | EscalatedAfterFullScan

record write_outcome =
  wo_encoding :: section_encoding
  wo_palette_capacity_action :: palette_capacity_action

datatype storage_state =
    StUniform block_id
  | StPalette "block_id list" "u8 list"
  | StRaw "block_id list"

section \<open>Operations\<close>

fun storage_encoding :: "storage_state \<Rightarrow> section_encoding" where
  "storage_encoding (StUniform _) = EncUniform"
| "storage_encoding (StPalette _ _) = EncPalette"
| "storage_encoding (StRaw _) = EncRaw"

fun resident_cell_bytes :: "storage_state \<Rightarrow> nat" where
  "resident_cell_bytes (StUniform _) = 0"
| "resident_cell_bytes (StPalette _ cells) = length cells"
| "resident_cell_bytes (StRaw cells) = length cells * 4"

fun palette_entry_count :: "storage_state \<Rightarrow> nat option" where
  "palette_entry_count (StPalette entries _) = Some (length entries)"
| "palette_entry_count _ = None"

text \<open>\<open>palette_or_uniform\<close>: the loop over the cells with its early \<open>return None\<close>.\<close>

definition palette_step ::
    "nat \<times> block_id \<Rightarrow> block_id list \<times> u8 list \<Rightarrow> unit + (block_id list \<times> u8 list)" where
  "palette_step cb st =
     (let (cell, b) = cb; (entries, indices) = st in
      case position (\<lambda>e. e = b) entries of
        Some slot \<Rightarrow> Inr (entries, indices[cell := of_nat slot])
      | None \<Rightarrow>
          if length entries < palette_capacity
          then Inr (entries @ [b], indices[cell := of_nat (length entries)])
          else Inl ())"

definition palette_or_uniform :: "block_id list \<Rightarrow> storage_state option" where
  "palette_or_uniform cells =
     (case rfold palette_step (enumerate 0 cells) ([], replicate cell_count 0) of
        Inl _ \<Rightarrow> None
      | Inr (entries, indices) \<Rightarrow>
          Some (if length entries = 1 then StUniform (entries ! 0) else StPalette entries indices))"

definition optimal_state :: "block_id list \<Rightarrow> storage_state" where
  "optimal_state cells =
     (case palette_or_uniform cells of Some s \<Rightarrow> s | None \<Rightarrow> StRaw cells)"

definition storage_from_cells :: "block_id list \<Rightarrow> section_error + storage_state" where
  "storage_from_cells cells =
     (if length cells \<noteq> cell_count then Inl (se_contract_violation SECTION_ENCODING_MISMATCH)
      else Inr (optimal_state cells))"

definition validate_raw_escalation :: "bool \<Rightarrow> section_error + unit" where
  "validate_raw_escalation performed =
     (if performed then Inr () else Inl (se_contract_violation PALETTE_RECLAIM_BEFORE_ESCALATION))"

fun expanded_cells :: "storage_state \<Rightarrow> block_id list" where
  "expanded_cells (StUniform b) = replicate cell_count b"
| "expanded_cells (StPalette entries cells) = map (\<lambda>i. entries ! unat i) cells"
| "expanded_cells (StRaw cells) = cells"

definition storage_compacted :: "storage_state \<Rightarrow> storage_state" where
  "storage_compacted s = optimal_state (expanded_cells s)"

fun state_bytes :: "storage_state \<Rightarrow> u8 list" where
  "state_bytes (StUniform b) = le_bytes 4 b"
| "state_bytes (StPalette entries cells) =
     le_bytes 2 (of_nat (length entries) :: u16) @ concat (map (le_bytes 4) entries) @ cells"
| "state_bytes (StRaw cells) = concat (map (le_bytes 4) cells)"

definition encoded_payload :: "storage_state \<Rightarrow> u8 list" where
  "encoded_payload s = state_bytes (storage_compacted s)"

fun storage_read :: "storage_state \<Rightarrow> cell_offset \<Rightarrow> block_id" where
  "storage_read (StUniform b) off = b"
| "storage_read (StPalette entries cells) off = entries ! unat (cells ! unat off)"
| "storage_read (StRaw cells) off = cells ! unat off"

definition storage_read_world :: "storage_state \<Rightarrow> i32 \<Rightarrow> world_y \<Rightarrow> i32 \<Rightarrow> block_id" where
  "storage_read_world s wx wy wz = storage_read s (cell_offset_from_world wx wy wz)"

text \<open>The live-slot bitmap over 256 slots, four 64-bit words.\<close>

definition set_live :: "nat \<Rightarrow> u64 list \<Rightarrow> u64 list" where
  "set_live slot live = live[slot div 64 := (live ! (slot div 64)) OR push_bit (slot mod 64) 1]"

definition is_slot_live :: "u64 list \<Rightarrow> nat \<Rightarrow> bool" where
  "is_slot_live live slot \<longleftrightarrow> (live ! (slot div 64)) AND push_bit (slot mod 64) 1 \<noteq> 0"

definition live_slots_excluding :: "u8 list \<Rightarrow> nat \<Rightarrow> u64 list" where
  "live_slots_excluding cells excluded =
     fold (\<lambda>(cell, slot) live. if cell = excluded then live else set_live (unat slot) live)
       (enumerate 0 cells) (replicate 4 0)"

datatype palette_write =
    PwComplete "block_id list" "u8 list" palette_capacity_action
  | PwEscalate "block_id list"

definition write_palette :: "block_id list \<Rightarrow> u8 list \<Rightarrow> nat \<Rightarrow> block_id \<Rightarrow> palette_write" where
  "write_palette entries cells cell_index b =
     (let old_slot = unat (cells ! cell_index) in
      case position (\<lambda>e. e = b) entries of
        Some slot \<Rightarrow> PwComplete entries (cells[cell_index := of_nat slot]) NotNeeded
      | None \<Rightarrow>
        if length entries < palette_capacity
        then PwComplete (entries @ [b]) (cells[cell_index := of_nat (length entries)]) NotNeeded
        else
          let live = live_slots_excluding cells cell_index;
              dead_slot = (if \<not> is_slot_live live old_slot then Some old_slot
                           else find (\<lambda>slot. \<not> is_slot_live live slot) [0..<palette_capacity])
          in case dead_slot of
               Some slot \<Rightarrow>
                 PwComplete (entries[slot := b]) (cells[cell_index := of_nat slot])
                   (ReusedDeadSlot (cells ! cell_index \<noteq> of_nat slot))
             | None \<Rightarrow> PwEscalate ((map (\<lambda>i. entries ! unat i) cells)[cell_index := b]))"

definition storage_write :: "cell_offset \<Rightarrow> block_id \<Rightarrow> storage_state \<Rightarrow> storage_state \<times> write_outcome" where
  "storage_write off b s =
     (if storage_read s off = b
      then (s, \<lparr>wo_encoding = storage_encoding s, wo_palette_capacity_action = NotNeeded\<rparr>)
      else
        let index = unat off;
            (s', action) =
              (case s of
                 StUniform old \<Rightarrow>
                   (StPalette [old, b] ((replicate cell_count 0)[index := 1]), NotNeeded)
               | StPalette entries cells \<Rightarrow>
                   (case write_palette entries cells index b of
                      PwComplete es cs action \<Rightarrow> (StPalette es cs, action)
                    | PwEscalate raw \<Rightarrow> (StRaw raw, EscalatedAfterFullScan))
               | StRaw cells \<Rightarrow>
                   (case palette_or_uniform (cells[index := b]) of
                      Some compacted \<Rightarrow> (compacted, NotNeeded)
                    | None \<Rightarrow> (StRaw (cells[index := b]), NotNeeded)))
        in (s', \<lparr>wo_encoding = storage_encoding s', wo_palette_capacity_action = action\<rparr>))"

definition storage_write_world ::
    "i32 \<Rightarrow> world_y \<Rightarrow> i32 \<Rightarrow> block_id \<Rightarrow> storage_state \<Rightarrow> storage_state \<times> write_outcome" where
  "storage_write_world wx wy wz b s = storage_write (cell_offset_from_world wx wy wz) b s"

section \<open>The representation invariant\<close>

fun storage_wf :: "storage_state \<Rightarrow> bool" where
  "storage_wf (StUniform _) \<longleftrightarrow> True"
| "storage_wf (StPalette entries cells) \<longleftrightarrow>
     length cells = cell_count \<and> distinct entries \<and> 2 \<le> length entries \<and>
     length entries \<le> palette_capacity \<and> (\<forall>i \<in> set cells. unat i < length entries)"
| "storage_wf (StRaw cells) \<longleftrightarrow> length cells = cell_count \<and> palette_capacity < card (set cells)"

lemma unat_of_nat_u8: "n < 256 \<Longrightarrow> unat (of_nat n :: u8) = n"
  by (simp add: unat_of_nat)

lemma position_eq_iff:
  "position (\<lambda>e. e = b) es = None \<longleftrightarrow> b \<notin> set es"
  by (auto simp: position_None_iff)

lemma position_eq_SomeD: "position (\<lambda>e. e = b) es = Some i \<Longrightarrow> i < length es \<and> es ! i = b"
  by (rule position_SomeD)

subsection \<open>Building a palette\<close>

lemma palette_step_ok:
  assumes "distinct es" "length es \<le> 256" "b \<in> set es \<or> length es < 256"
  shows "\<exists>slot tl. palette_step (k, b) (es, idx) = Inr (es @ tl, idx[k := of_nat slot]) \<and>
    slot < length (es @ tl) \<and> (es @ tl) ! slot = b \<and> distinct (es @ tl) \<and>
    set (es @ tl) = insert b (set es) \<and> length (es @ tl) \<le> 256"
proof (cases "position (\<lambda>e. e = b) es")
  case None
  then have "b \<notin> set es" by (simp add: position_eq_iff)
  with assms None show ?thesis
    by (intro exI [of _ "length es"] exI [of _ "[b]"]) (simp add: palette_step_def)
next
  case (Some slot)
  with assms position_eq_SomeD [OF Some] show ?thesis
    by (intro exI [of _ slot] exI [of _ "[]"]) (auto simp: palette_step_def)
qed

lemma palette_step_full:
  assumes "b \<notin> set es" "length es = 256"
  shows "palette_step (k, b) (es, idx) = Inl ()"
proof -
  have "position (\<lambda>e. e = b) es = None" using assms(1) by (simp add: position_eq_iff)
  with assms(2) show ?thesis by (simp add: palette_step_def)
qed

definition palette_of :: "block_id list \<Rightarrow> u8 list \<Rightarrow> nat \<Rightarrow> block_id list \<Rightarrow> bool" where
  "palette_of es idx k xs \<longleftrightarrow>
     (\<forall>i < length xs. unat (idx ! (k + i)) < length es \<and> es ! unat (idx ! (k + i)) = xs ! i)"

lemma palette_loop:
  assumes "distinct es" "length es \<le> 256" "k + length xs \<le> length idx"
  shows "if card (set es \<union> set xs) \<le> 256
    then \<exists>tl idx'. rfold palette_step (enumerate k xs) (es, idx) = Inr (es @ tl, idx') \<and>
      distinct (es @ tl) \<and> length (es @ tl) \<le> 256 \<and> set (es @ tl) = set es \<union> set xs \<and>
      length idx' = length idx \<and> palette_of (es @ tl) idx' k xs \<and> (\<forall>j < k. idx' ! j = idx ! j)
    else rfold palette_step (enumerate k xs) (es, idx) = Inl ()"
  using assms
proof (induction xs arbitrary: es k idx)
  case Nil
  then show ?case by (simp add: palette_of_def distinct_card)
next
  case (Cons b xs)
  have cardes: "card (set es) = length es" using Cons.prems(1) by (rule distinct_card)
  show ?case
  proof (cases "b \<in> set es \<or> length es < 256")
    case False
    then have "card (insert b (set es)) = 257" using Cons.prems(2) cardes by simp
    moreover have "card (insert b (set es)) \<le> card (set es \<union> set (b # xs))"
      by (rule card_mono) auto
    ultimately show ?thesis
      using False Cons.prems(2) palette_step_full [of b es k idx] by (simp add: result_iff)
  next
    case True
    obtain slot tl where st: "palette_step (k, b) (es, idx) = Inr (es @ tl, idx[k := of_nat slot])"
      "slot < length (es @ tl)" "(es @ tl) ! slot = b" "distinct (es @ tl)"
      "set (es @ tl) = insert b (set es)" "length (es @ tl) \<le> 256"
      using palette_step_ok [OF Cons.prems(1,2) True] by blast
    have sets: "set (es @ tl) \<union> set xs = set es \<union> set (b # xs)" using st(5) by auto
    have bound: "Suc k + length xs \<le> length (idx[k := of_nat slot])" using Cons.prems(3) by simp
    note IH = Cons.IH [OF st(4,6) bound, unfolded sets]
    show ?thesis
    proof (cases "card (set es \<union> set (b # xs)) \<le> 256")
      case False
      with IH st(1) show ?thesis by simp
    next
      case True
      with IH obtain tl2 idx' where r:
        "rfold palette_step (enumerate (Suc k) xs) (es @ tl, idx[k := of_nat slot]) = Inr ((es @ tl) @ tl2, idx')"
        "distinct ((es @ tl) @ tl2)" "length ((es @ tl) @ tl2) \<le> 256"
        "set ((es @ tl) @ tl2) = set es \<union> set (b # xs)" "length idx' = length (idx[k := of_nat slot])"
        "palette_of ((es @ tl) @ tl2) idx' (Suc k) xs" "\<forall>j < Suc k. idx' ! j = idx[k := of_nat slot] ! j"
        by (simp only: if_True) blast
      have "idx' ! k = of_nat slot" using r(7) Cons.prems(3) by simp
      moreover have "unat (of_nat slot :: u8) = slot"
        using st(2,6) by (intro unat_of_nat_u8) linarith
      ultimately have k: "unat (idx' ! k) < length (es @ tl)" "(es @ tl) ! unat (idx' ! k) = b"
        using st(2,3) by simp_all
      have "palette_of (es @ tl @ tl2) idx' k (b # xs)"
        unfolding palette_of_def
      proof (intro allI impI)
        fix i assume "i < length (b # xs)"
        with r(6) k show "unat (idx' ! (k + i)) < length (es @ tl @ tl2) \<and>
            (es @ tl @ tl2) ! unat (idx' ! (k + i)) = (b # xs) ! i"
          by (cases i) (auto simp: palette_of_def nth_append)
      qed
      with True r st(1) show ?thesis
        by (auto intro!: exI [of _ "tl @ tl2"])
    qed
  qed
qed

text \<open>A palette exists exactly when at most 256 different blocks are present.\<close>

lemma palette_or_uniform_spec:
  assumes len: "length cells = cell_count"
  shows "palette_or_uniform cells = None \<longleftrightarrow> 256 < card (set cells)"
    and "palette_or_uniform cells = Some s \<Longrightarrow> storage_wf s \<and> expanded_cells s = cells \<and>
      storage_encoding s = (if card (set cells) = 1 then EncUniform else EncPalette)"
proof -
  note loop = palette_loop [of "[]" 0 cells "replicate cell_count 0", simplified, OF len [THEN eq_imp_le]]
  show "palette_or_uniform cells = None \<longleftrightarrow> 256 < card (set cells)"
    using loop by (auto simp: palette_or_uniform_def split: if_splits)
  assume s: "palette_or_uniform cells = Some s"
  then have "card (set cells) \<le> 256"
    using loop by (auto simp: palette_or_uniform_def split: if_splits)
  with loop obtain es idx where r: "rfold palette_step (enumerate 0 cells) ([], replicate cell_count 0) = Inr (es, idx)"
    "distinct es" "length es \<le> 256" "set es = set cells" "length idx = cell_count"
    "palette_of es idx 0 cells"
    by auto
  have cells: "map (\<lambda>i. es ! unat i) idx = cells"
    using r(5,6) len by (intro nth_equalityI) (simp_all add: palette_of_def)
  have card: "card (set cells) = length es" using r(2,4) by (metis distinct_card)
  have ne: "es \<noteq> []" using r(4) len by auto
  have bound: "\<forall>i \<in> set idx. unat i < length es"
    using r(5,6) len by (auto simp: in_set_conv_nth palette_of_def)
  show "storage_wf s \<and> expanded_cells s = cells \<and>
      storage_encoding s = (if card (set cells) = 1 then EncUniform else EncPalette)"
  proof (cases "length es = 1")
    case True
    then obtain e where "es = [e]" by (auto simp: length_Suc_conv)
    moreover from this have "cells = replicate cell_count e"
      using r(4) len by (intro replicate_eqI) auto
    ultimately show ?thesis using s r(1) by (auto simp: palette_or_uniform_def)
  next
    case False
    with ne have "2 \<le> length es" by (cases es) (auto simp: Suc_le_eq)
    with False show ?thesis
      using s r cells bound card by (auto simp: palette_or_uniform_def)
  qed
qed

lemma optimal_state_spec:
  assumes "length cells = cell_count"
  shows "storage_wf (optimal_state cells)" "expanded_cells (optimal_state cells) = cells"
    "storage_encoding (optimal_state cells) =
      (if card (set cells) = 1 then EncUniform
       else if card (set cells) \<le> 256 then EncPalette else EncRaw)"
  using palette_or_uniform_spec [OF assms] assms
  by (auto simp: optimal_state_def split: option.splits)

lemma length_expanded [simp]: "storage_wf s \<Longrightarrow> length (expanded_cells s) = cell_count"
  by (cases s) auto

lemma storage_read_expanded:
  "storage_wf s \<Longrightarrow> unat off < cell_count \<Longrightarrow> storage_read s off = expanded_cells s ! unat off"
  by (cases s) auto

lemma storage_raw_iff:
  assumes "storage_wf s"
  shows "storage_encoding s = EncRaw \<longleftrightarrow> 256 < card (set (expanded_cells s))"
proof (cases s)
  case (StUniform b)
  then show ?thesis by simp
next
  case (StPalette es cells)
  have "set (expanded_cells s) \<subseteq> set es"
    using assms StPalette by auto
  then have "card (set (expanded_cells s)) \<le> length es"
    using card_mono [of "set es"] card_length [of es] by (meson List.finite_set order_trans)
  with assms StPalette show ?thesis by simp
qed (use assms in simp)

subsection \<open>The live-slot bitmap\<close>

lemma length_set_live [simp]: "length (set_live slot live) = length live"
  by (simp add: set_live_def)

lemma is_slot_live_bit: "is_slot_live live slot \<longleftrightarrow> bit (live ! (slot div 64)) (slot mod 64)"
proof -
  have "push_bit (slot mod 64) (1 :: u64) = 2 ^ (slot mod 64)" by (rule push_bit_of_1)
  then show ?thesis
    using and_exp_eq_0_iff_not_bit [of "live ! (slot div 64)" "slot mod 64"]
    by (simp only: is_slot_live_def) blast
qed

lemma is_slot_live_set:
  assumes "length live = 4" "a < 256" "b < 256"
  shows "is_slot_live (set_live a live) b \<longleftrightarrow> a = b \<or> is_slot_live live b"
proof (cases "a div 64 = b div 64")
  case True
  have "a div 64 < 4" using assms(2) by (simp add: div_less_iff_less_mult)
  moreover have "a mod 64 = b mod 64 \<longleftrightarrow> a = b"
    using True by (metis div_mult_mod_eq)
  moreover have "b mod 64 < 64" by simp
  ultimately show ?thesis
    using True assms(1) by (auto simp: is_slot_live_bit set_live_def bit_simps)
next
  case False
  then show ?thesis by (auto simp: is_slot_live_bit set_live_def)
qed

lemma live_fold:
  assumes "length live = 4" "b < 256"
  shows "is_slot_live (fold (\<lambda>(cell, slot) live. if cell = ex then live else set_live (unat slot) live)
      (enumerate k cells) live) b \<longleftrightarrow>
    is_slot_live live b \<or> (\<exists>i < length cells. k + i \<noteq> ex \<and> unat (cells ! i :: u8) = b)"
  using assms(1)
proof (induction cells arbitrary: k live)
  case Nil
  then show ?case by simp
next
  case (Cons c cells)
  have c: "unat c < 256" using unsigned_less [of c] by simp
  have ex: "(\<exists>i < length (c # cells). k + i \<noteq> ex \<and> unat ((c # cells) ! i) = b) \<longleftrightarrow>
      (k \<noteq> ex \<and> unat c = b) \<or> (\<exists>i < length cells. Suc k + i \<noteq> ex \<and> unat (cells ! i) = b)"
    by (auto simp: less_Suc_eq_0_disj)
  show ?case
    unfolding ex using Cons.prems Cons.IH [of "if k = ex then live else set_live (unat c) live" "Suc k"]
      is_slot_live_set [OF Cons.prems c assms(2)]
    by auto
qed

lemma is_slot_live_excluding:
  assumes "b < 256"
  shows "is_slot_live (live_slots_excluding cells ex) b \<longleftrightarrow>
    (\<exists>i < length cells. i \<noteq> ex \<and> unat (cells ! i) = b)"
proof -
  have "b div 64 < 4" using assms by (simp add: div_less_iff_less_mult)
  then have "\<not> is_slot_live (replicate 4 0) b" by (simp add: is_slot_live_bit)
  then show ?thesis
    using live_fold [of "replicate 4 0" b ex 0 cells] assms by (simp add: live_slots_excluding_def)
qed

subsection \<open>Writes\<close>

text \<open>The three ways a palette cell changes: a known slot, a fresh slot, a dead slot reused.\<close>

lemma palette_at:
  "storage_wf (StPalette es cells) \<Longrightarrow> i < cell_count \<Longrightarrow> unat (cells ! i) < length es"
  by simp

lemma palette_set_slot:
  assumes wf: "storage_wf (StPalette es cells)" and slot: "slot < length es" "es ! slot = b"
  shows "storage_wf (StPalette es (cells[k := of_nat slot]))"
    "map (\<lambda>i. es ! unat i) (cells[k := of_nat slot]) = (map (\<lambda>i. es ! unat i) cells)[k := b]"
proof -
  have u: "unat (of_nat slot :: u8) = slot" using wf slot(1) by (intro unat_of_nat_u8) simp
  with wf slot show "storage_wf (StPalette es (cells[k := of_nat slot]))"
    by (auto dest!: set_update_subset_insert [THEN subsetD])
  from u slot show "map (\<lambda>i. es ! unat i) (cells[k := of_nat slot]) = (map (\<lambda>i. es ! unat i) cells)[k := b]"
    by (simp add: map_update)
qed

lemma palette_push:
  assumes wf: "storage_wf (StPalette es cells)" and b: "b \<notin> set es" "length es < 256"
  shows "storage_wf (StPalette (es @ [b]) cells)"
    "map (\<lambda>i. (es @ [b]) ! unat i) cells = map (\<lambda>i. es ! unat i) cells"
  using wf b by (auto simp: nth_append less_SucI)

lemma palette_reuse:
  assumes wf: "storage_wf (StPalette es cells)" and b: "b \<notin> set es" and k: "k < cell_count"
    and slot: "slot < length es" and free: "\<And>i. i < cell_count \<Longrightarrow> i \<noteq> k \<Longrightarrow> unat (cells ! i) \<noteq> slot"
  shows "storage_wf (StPalette (es[slot := b]) (cells[k := of_nat slot]))"
    "map (\<lambda>i. es[slot := b] ! unat i) (cells[k := of_nat slot]) = (map (\<lambda>i. es ! unat i) cells)[k := b]"
proof -
  have u: "unat (of_nat slot :: u8) = slot" using wf slot by (intro unat_of_nat_u8) simp
  with wf b slot show "storage_wf (StPalette (es[slot := b]) (cells[k := of_nat slot]))"
    by (auto simp: distinct_list_update dest!: set_update_subset_insert [THEN subsetD])
  from wf k u slot free
  show "map (\<lambda>i. es[slot := b] ! unat i) (cells[k := of_nat slot]) = (map (\<lambda>i. es ! unat i) cells)[k := b]"
    by (intro nth_equalityI) (auto simp: nth_list_update)
qed

text \<open>When no slot is dead, every palette entry occurs in another cell.\<close>

lemma palette_all_live:
  assumes wf: "storage_wf (StPalette es cells)" and k: "k < cell_count" and len: "length es = 256"
    and live: "\<And>slot. slot < 256 \<Longrightarrow> is_slot_live (live_slots_excluding cells k) slot"
  shows "set ((map (\<lambda>i. es ! unat i) cells)[k := b]) = insert b (set es)"
proof (intro equalityI subsetI)
  fix x assume "x \<in> set ((map (\<lambda>i. es ! unat i) cells)[k := b])"
  then show "x \<in> insert b (set es)"
    using wf by (auto dest!: set_update_subset_insert [THEN subsetD])
next
  let ?raw = "(map (\<lambda>i. es ! unat i) cells)[k := b]"
  fix x assume "x \<in> insert b (set es)"
  then consider "x = b" | slot where "slot < 256" "x = es ! slot"
    using len by (auto simp: in_set_conv_nth)
  then show "x \<in> set ?raw"
  proof cases
    case 1
    with k wf show ?thesis by (simp add: set_update_memI)
  next
    case 2
    with live [of slot] obtain i where "i < length cells" "i \<noteq> k" "unat (cells ! i) = slot"
      unfolding is_slot_live_excluding [OF 2(1)] by blast
    with 2 have "i < length ?raw" "?raw ! i = x" by (simp_all add: nth_list_update)
    then show ?thesis by (metis nth_mem)
  qed
qed

lemma write_palette_spec:
  assumes wf: "storage_wf (StPalette es cells)" and k: "k < cell_count"
  shows "(case write_palette es cells k b of
      PwComplete es' cells' action \<Rightarrow>
        storage_wf (StPalette es' cells') \<and>
        map (\<lambda>i. es' ! unat i) cells' = (map (\<lambda>i. es ! unat i) cells)[k := b] \<and>
        action \<noteq> EscalatedAfterFullScan
    | PwEscalate raw \<Rightarrow>
        raw = (map (\<lambda>i. es ! unat i) cells)[k := b] \<and> card (set raw) = 257)"
proof (cases "position (\<lambda>e. e = b) es")
  case (Some slot)
  with palette_set_slot [OF wf, of slot b k] position_eq_SomeD [OF Some] show ?thesis
    by (simp add: write_palette_def del: storage_wf.simps)
next
  case None
  then have b: "b \<notin> set es" by (simp add: position_eq_iff)
  show ?thesis
  proof (cases "length es < 256")
    case True
    note push = palette_push [OF wf b True]
    with True None palette_set_slot [OF push(1), of "length es" b k] show ?thesis
      by (simp add: write_palette_def del: storage_wf.simps)
  next
    case False
    with wf have len: "length es = 256" "distinct es" "length cells = cell_count" by simp_all
    let ?live = "live_slots_excluding cells k"
    let ?dead = "if \<not> is_slot_live ?live (unat (cells ! k)) then Some (unat (cells ! k))
      else find (\<lambda>slot. \<not> is_slot_live ?live slot) [0..<256]"
    show ?thesis
    proof (cases ?dead)
      case (Some slot)
      have slot: "slot < 256" "\<not> is_slot_live ?live slot"
        using Some palette_at [OF wf k] len by (auto simp: find_Some_iff split: if_splits)
      have "\<And>i. i < cell_count \<Longrightarrow> i \<noteq> k \<Longrightarrow> unat (cells ! i) \<noteq> slot"
        using slot(2) len(3) unfolding is_slot_live_excluding [OF slot(1)] by auto
      from palette_reuse [OF wf b k _ this] slot(1) len(1) None Some show ?thesis
        by (simp add: write_palette_def Let_def del: storage_wf.simps)
    next
      case None': None
      then have "is_slot_live ?live slot" if "slot < 256" for slot
        using that by (auto simp: find_None_iff split: if_splits)
      from palette_all_live [OF wf k len(1) this] b len(1,2)
      have "card (set ((map (\<lambda>i. es ! unat i) cells)[k := b])) = 257" by (simp add: distinct_card)
      with None None' len(1) show ?thesis by (simp add: write_palette_def Let_def)
    qed
  qed
qed

lemma storage_write_spec:
  assumes wf: "storage_wf s" and k: "unat off < cell_count"
  shows "storage_wf (fst (storage_write off b s)) \<and>
    expanded_cells (fst (storage_write off b s)) = (expanded_cells s)[unat off := b] \<and>
    wo_encoding (snd (storage_write off b s)) = storage_encoding (fst (storage_write off b s)) \<and>
    (wo_palette_capacity_action (snd (storage_write off b s)) = EscalatedAfterFullScan \<longleftrightarrow>
       storage_encoding s = EncPalette \<and> storage_encoding (fst (storage_write off b s)) = EncRaw)"
proof (cases "storage_read s off = b")
  case True
  then have "(expanded_cells s)[unat off := b] = expanded_cells s"
    using storage_read_expanded [OF wf k] by (metis list_update_id)
  with True wf show ?thesis by (simp add: storage_write_def)
next
  case False
  show ?thesis
  proof (cases s)
    case (StUniform old)
    have "map (\<lambda>i. [old, b] ! unat i) ((replicate cell_count (0 :: u8))[unat off := 1]) =
        (replicate cell_count old)[unat off := b]"
      using k by (intro nth_equalityI) (auto simp: nth_list_update)
    with False StUniform show ?thesis
      by (auto simp: storage_write_def dest!: set_update_subset_insert [THEN subsetD])
  next
    case (StPalette es cells)
    with wf have "length cells = cell_count" by simp
    with StPalette False write_palette_spec [of es cells "unat off" b] wf k show ?thesis
      by (auto simp: storage_write_def split: palette_write.splits simp del: storage_wf.simps(2))
  next
    case (StRaw cells)
    then have len: "length (cells[unat off := b]) = cell_count" using wf by simp
    note spec = palette_or_uniform_spec [OF len]
    show ?thesis
    proof (cases "palette_or_uniform (cells[unat off := b])")
      case None
      with False StRaw len spec(1) show ?thesis by (simp add: storage_write_def)
    next
      case (Some t)
      with False StRaw spec(2) [OF Some] show ?thesis by (auto simp: storage_write_def)
    qed
  qed
qed

section \<open>The storage is a cell store\<close>

lemma unat_of_nat_cell: "i < cell_count \<Longrightarrow> unat (of_nat i :: cell_offset) = i"
  by (simp add: unat_of_nat)

interpretation section_store: cell_store cell_count storage_wf
  "\<lambda>s i. storage_read s (of_nat i)" "\<lambda>i b s. fst (storage_write (of_nat i) b s)"
proof
  fix s i and v :: block_id
  assume wf: "storage_wf s" and i: "i < cell_count"
  then have i': "unat (of_nat i :: cell_offset) < cell_count" by (simp add: unat_of_nat_cell)
  note w = storage_write_spec [OF wf i']
  then show "storage_wf (fst (storage_write (of_nat i) v s))" by blast
  fix j assume j: "j < cell_count"
  then have "storage_read (fst (storage_write (of_nat i) v s)) (of_nat j) =
      expanded_cells (fst (storage_write (of_nat i) v s)) ! j"
    using w [of v] by (subst storage_read_expanded) (simp_all add: unat_of_nat_cell)
  with w [of v] i j wf show "storage_read (fst (storage_write (of_nat i) v s)) (of_nat j) =
      (if j = i then v else storage_read s (of_nat j))"
    by (auto simp: storage_read_expanded unat_of_nat_cell)
qed

text \<open>The storages the crate can construct, and the invariant by rule induction.\<close>

inductive storage_reach :: "storage_state \<Rightarrow> bool" where
  reach_uniform: "storage_reach (StUniform b)"
| reach_from_cells: "storage_from_cells cells = Inr s \<Longrightarrow> storage_reach s"
| reach_write: "storage_reach s \<Longrightarrow> unat off < cell_count \<Longrightarrow>
    storage_reach (fst (storage_write off b s))"

lemma storage_reach_wf: "storage_reach s \<Longrightarrow> storage_wf s"
proof (induction rule: storage_reach.induct)
  case (reach_from_cells cells s)
  then show ?case
    by (auto simp: storage_from_cells_def optimal_state_spec(1) split: if_splits)
next
  case (reach_write s off b)
  then show ?case using storage_write_spec by blast
qed simp

text \<open>Two well-formed storages agree on every read exactly when their cells are equal.\<close>

lemma reads_eq_iff:
  assumes "storage_wf s" "storage_wf t"
  shows "(\<forall>off. unat off < cell_count \<longrightarrow> storage_read s off = storage_read t off) \<longleftrightarrow>
    expanded_cells s = expanded_cells t"
proof
  assume eq: "\<forall>off. unat off < cell_count \<longrightarrow> storage_read s off = storage_read t off"
  show "expanded_cells s = expanded_cells t"
  proof (rule nth_equalityI)
    fix i assume "i < length (expanded_cells s)"
    with assms(1) have i: "i < cell_count" by simp
    with eq have "storage_read s (of_nat i) = storage_read t (of_nat i)"
      by (simp add: unat_of_nat_cell)
    with i assms show "expanded_cells s ! i = expanded_cells t ! i"
      by (simp add: storage_read_expanded unat_of_nat_cell)
  qed (simp add: assms)
qed (simp add: storage_read_expanded assms)

section \<open>Properties\<close>



text \<open>
  Raw storage is the last resort: a reachable storage is raw exactly when it holds more than
  256 different blocks, so a write escalates from a palette exactly when the cells after the
  write no longer fit 256 palette slots, i.e. when no dead slot was left to reclaim.
\<close>

theorem storage_raw_only_when_needed:
  assumes "storage_reach s" "unat off < cell_count"
  shows "(storage_encoding s = EncRaw \<longleftrightarrow> 256 < card (set (expanded_cells s))) \<and>
    (wo_palette_capacity_action (snd (storage_write off b s)) = EscalatedAfterFullScan \<longleftrightarrow>
       storage_encoding s = EncPalette \<and> 256 < card (set ((expanded_cells s)[unat off := b])))"
  using storage_reach_wf [OF assms(1)] storage_write_spec [OF storage_reach_wf [OF assms(1)] assms(2), of b]
    storage_raw_iff [of s] storage_raw_iff [of "fst (storage_write off b s)"]
  by metis

theorem storage_raw_only_when_needed_witness:
  "(storage_encoding (StUniform 3) = EncRaw \<longleftrightarrow> 256 < card (set (expanded_cells (StUniform 3)))) \<and>
    (wo_palette_capacity_action (snd (storage_write 7 9 (StUniform 3))) = EscalatedAfterFullScan \<longleftrightarrow>
       storage_encoding (StUniform 3) = EncPalette \<and>
       256 < card (set ((expanded_cells (StUniform 3))[unat (7 :: cell_offset) := 9])))"
  by (rule storage_raw_only_when_needed [OF reach_uniform]) simp

end
