(* ===== verification/Payload.thy ===== *)
theory Payload
  imports Storage
begin

text \<open>
  \<open>section/block_payload.rs\<close>: full and delta payload envelopes of one section. Decoding checks the
  digest and the declared length before it interprets anything, then the revision rules, then the
  bytes. The lemmas give the byte format of each encoding, the round trips through the
  \<open>codec\<close> interface and what a successful decode guarantees.
\<close>

section \<open>Data\<close>

abbreviation block_bytes :: nat where
  "block_bytes \<equiv> 4"

datatype delta_entry = DeltaEntry (de_offset: cell_offset) (de_block_id: block_id)

record payload_envelope =
  pe_section_key :: string
  pe_section_revision :: u64
  pe_encoding :: section_encoding
  pe_payload_length :: u32
  pe_payload_sha256 :: digest
  pe_base_section_revision :: "u64 option"
  pe_payload :: "u8 list"

record decoded_payload =
  dp_section_id :: section_id
  dp_section_revision :: u64
  dp_storage :: storage_state

section \<open>Encoding\<close>

text \<open>\<open>usize::try_into::<u32>()\<close>; \<open>outgoing\<close> panics on \<open>None\<close>.\<close>

definition u32_try_from :: "nat \<Rightarrow> u32 option" where
  "u32_try_from n = (if n < 2 ^ 32 then Some (of_nat n) else None)"

definition outgoing ::
    "section_id \<Rightarrow> u64 \<Rightarrow> section_encoding \<Rightarrow> u64 option \<Rightarrow> u8 list \<Rightarrow> payload_envelope" where
  "outgoing sid srev enc base payload =
     \<lparr>pe_section_key = section_id_key sid, pe_section_revision = srev, pe_encoding = enc,
      pe_payload_length = the (u32_try_from (length payload)),
      pe_payload_sha256 = sha256 payload, pe_base_section_revision = base, pe_payload = payload\<rparr>"

definition encode_storage :: "storage_state \<Rightarrow> u8 list" where
  "encode_storage s = encoded_payload s"

definition encode_full :: "section_id \<Rightarrow> u64 \<Rightarrow> storage_state \<Rightarrow> payload_envelope" where
  "encode_full sid srev s =
     (let storage = storage_compacted s
      in outgoing sid srev (storage_encoding storage) None (encode_storage storage))"

definition delta_entry_bytes :: "delta_entry \<Rightarrow> u8 list" where
  "delta_entry_bytes e = le_bytes 2 (de_offset e) @ le_bytes 4 (de_block_id e)"

definition encode_delta :: "section_id \<Rightarrow> u64 \<Rightarrow> u64 \<Rightarrow> delta_entry list \<Rightarrow> payload_envelope" where
  "encode_delta sid srev base entries =
     outgoing sid srev EncDelta (Some base) (concat (map delta_entry_bytes entries))"

section \<open>Decoding\<close>

definition encoding_mismatch :: section_error where
  "encoding_mismatch = se_contract_violation SECTION_ENCODING_MISMATCH"

definition read_u32 :: "u8 list \<Rightarrow> u32" where
  "read_u32 bytes = of_le (take 4 bytes)"

definition palette_entry_step ::
    "u8 list \<Rightarrow> block_id list \<Rightarrow> section_error + block_id list" where
  "palette_entry_step bytes entries =
     (let b = read_u32 bytes
      in if b \<in> set entries then Inl encoding_mismatch else Inr (entries @ [b]))"

definition palette_index_step ::
    "block_id list \<Rightarrow> u8 \<Rightarrow> u64 list \<times> block_id list \<Rightarrow> section_error + (u64 list \<times> block_id list)" where
  "palette_index_step entries index st =
     (let i = unat index; (live, cells) = st
      in if i \<ge> length entries then Inl encoding_mismatch
         else Inr (set_live i live, cells @ [entries ! i]))"

definition decode_palette :: "u8 list \<Rightarrow> section_error + storage_state" where
  "decode_palette payload =
     (if length payload < 2 then Inl encoding_mismatch
      else let count = unat (of_le (take 2 payload) :: u16);
               table_end = 2 + count * block_bytes in
      if count > PALETTE_MAX_ENTRIES then Inl (se_contract_violation PALETTE_OVERFLOW)
      else if count < 2 then Inl encoding_mismatch
      else if length payload \<noteq> table_end + cell_count then Inl encoding_mismatch
      else
        rbind (rfold palette_entry_step
                 (chunks_exact block_bytes (drop 2 (take table_end payload))) []) (\<lambda>entries.
        rbind (rfold (palette_index_step entries) (drop table_end payload)
                 (replicate 4 0, [])) (\<lambda>(live, cells).
        if list_ex (\<lambda>slot. \<not> is_slot_live live slot) [0..<count]
        then Inl (se_contract_violation DEAD_PALETTE_ENTRY_IN_PAYLOAD)
        else rbind (storage_from_cells cells) (\<lambda>storage.
          if storage_encoding storage \<noteq> EncPalette then Inl encoding_mismatch
          else Inr storage))))"

definition decode_raw :: "u8 list \<Rightarrow> section_error + storage_state" where
  "decode_raw payload =
     (if length payload \<noteq> cell_count * block_bytes then Inl encoding_mismatch
      else rbind (storage_from_cells (map read_u32 (chunks_exact block_bytes payload))) (\<lambda>storage.
        if storage_encoding storage \<noteq> EncRaw then Inl encoding_mismatch else Inr storage))"

text \<open>The \<open>Delta\<close> arm is \<open>unreachable!\<close>: \<open>decode\<close> dispatches deltas before.\<close>

fun decode_full :: "section_encoding \<Rightarrow> u8 list \<Rightarrow> section_error + storage_state" where
  "decode_full EncUniform payload =
     (if length payload \<noteq> block_bytes then Inl encoding_mismatch
      else Inr (StUniform (read_u32 payload)))"
| "decode_full EncPalette payload = decode_palette payload"
| "decode_full EncRaw payload = decode_raw payload"
| "decode_full EncDelta payload = undefined"

definition delta_step :: "u8 list \<Rightarrow> storage_state \<Rightarrow> section_error + storage_state" where
  "delta_step entry storage =
     rbind (map_err (\<lambda>_. se_contract_violation CELL_OFFSET_OUT_OF_RANGE)
              (cell_offset_new (of_le (take 2 entry)))) (\<lambda>off.
       Inr (fst (storage_write off (read_u32 (drop 2 entry)) storage)))"

definition apply_delta :: "storage_state \<Rightarrow> u8 list \<Rightarrow> section_error + storage_state" where
  "apply_delta baseline payload =
     (if length payload mod 6 \<noteq> 0 then Inl encoding_mismatch
      else rfold delta_step (chunks_exact 6 payload) baseline)"

definition envelope_decode ::
    "payload_envelope \<Rightarrow> (storage_state \<times> u64) option \<Rightarrow> section_error + decoded_payload" where
  "envelope_decode env baseline =
     (if sha256 (pe_payload env) \<noteq> pe_payload_sha256 env then Inl se_section_digest_mismatch
      else if length (pe_payload env) \<noteq> unat (pe_payload_length env)
      then Inl (se_contract_violation SECTION_ENCODING_MISMATCH)
      else
        rbind (map_err SeKey (section_id_parse (pe_section_key env))) (\<lambda>sid.
        rbind
          (if pe_encoding env \<noteq> EncDelta
           then
             if pe_base_section_revision env \<noteq> None
             then Inl (se_contract_violation BASE_REVISION_ON_FULL_ENCODING)
             else if (case baseline of Some (_, cur) \<Rightarrow> pe_section_revision env \<le> cur | None \<Rightarrow> False)
             then Inl (se_contract_violation STALE_SECTION_REVISION)
             else decode_full (pe_encoding env) (pe_payload env)
           else
             (case baseline of
                None \<Rightarrow> Inl (se_contract_violation DELTA_USED_FOR_FIRST_DELIVERY)
              | Some (storage, cur) \<Rightarrow>
                  if pe_base_section_revision env \<noteq> Some cur
                  then Inl (se_contract_violation DELTA_BASE_REVISION_MISMATCH)
                  else if pe_section_revision env \<le> cur
                  then Inl (se_contract_violation DELTA_BASE_REVISION_MISMATCH)
                  else apply_delta storage (pe_payload env))) (\<lambda>storage.
        Inr \<lparr>dp_section_id = sid, dp_section_revision = pe_section_revision env,
             dp_storage = storage\<rparr>)))"

section \<open>Byte formats\<close>

lemma of_le_4 [simp]: "of_le (le_bytes 4 (w :: u32)) = w"
  using of_le_le_bytes [of 4 w] by (simp add: take_bit_word_eq_self)

lemma of_le_2 [simp]: "of_le (le_bytes 2 (w :: u16)) = w"
  using of_le_le_bytes [of 2 w] by (simp add: take_bit_word_eq_self)

lemma read_u32_le [simp]: "read_u32 (le_bytes 4 w) = w" "read_u32 (le_bytes 4 w @ xs) = w"
  by (simp_all add: read_u32_def)

lemma le_bytes_read_u32: "length bs = 4 \<Longrightarrow> le_bytes 4 (read_u32 bs) = bs"
  using le_bytes_of_le [where 'a = 32, of bs] by (simp add: read_u32_def)

lemma length_concat_le4: "length (concat (map (le_bytes 4) (xs :: u32 list))) = 4 * length xs"
  by (rule length_concat_fixed) simp

lemma chunks_le4: "chunks_exact 4 (concat (map (le_bytes 4) (xs :: u32 list))) = map (le_bytes 4) xs"
  by (rule chunks_exact_map_concat) simp_all

lemma map_read_u32: "map (read_u32 \<circ> le_bytes 4) xs = xs"
  by (induction xs) simp_all

lemma length_state_bytes:
  "storage_wf s \<Longrightarrow> length (state_bytes s) =
     (case s of StUniform _ \<Rightarrow> 4 | StPalette es _ \<Rightarrow> 2 + 4 * length es + cell_count
      | StRaw _ \<Rightarrow> 4 * cell_count)"
  by (cases s) (simp_all add: length_concat_le4)

lemma palette_entries_loop:
  "distinct acc \<Longrightarrow> rfold palette_entry_step chunks acc =
     (if distinct (acc @ map read_u32 chunks) then Inr (acc @ map read_u32 chunks)
      else Inl encoding_mismatch)"
proof (induction chunks arbitrary: acc)
  case Nil
  then show ?case by simp
next
  case (Cons c chunks)
  show ?case
  proof (cases "read_u32 c \<in> set acc")
    case True
    then show ?thesis by (simp add: palette_entry_step_def)
  next
    case False
    with Cons show ?thesis by (simp add: palette_entry_step_def)
  qed
qed

lemma palette_indices_loop:
  "rfold (palette_index_step es) idx (live, cells) =
     (if \<forall>i \<in> set idx. unat i < length es
      then Inr (fold (\<lambda>i. set_live (unat i)) idx live, cells @ map (\<lambda>i. es ! unat i) idx)
      else Inl encoding_mismatch)"
  by (induction idx arbitrary: live cells) (auto simp: palette_index_step_def Let_def)

lemma fold_set_live:
  assumes "length live = 4" "b < 256"
  shows "is_slot_live (fold (\<lambda>i. set_live (unat i)) idx live) b \<longleftrightarrow>
    is_slot_live live b \<or> b \<in> unat ` set (idx :: u8 list)"
  using assms(1)
proof (induction idx arbitrary: live)
  case Nil
  then show ?case by simp
next
  case (Cons i idx)
  have "unat i < 256" using unsigned_less [of i] by simp
  with Cons show ?case by (auto simp: is_slot_live_set [OF _ _ assms(2)])
qed

lemma not_live_initial: "b < 256 \<Longrightarrow> \<not> is_slot_live (replicate 4 0) b"
  by (simp add: is_slot_live_bit div_less_iff_less_mult)

section \<open>Full encodings round trip\<close>

definition storage_canonical :: "storage_state \<Rightarrow> bool" where
  "storage_canonical s \<longleftrightarrow> storage_wf s \<and> storage_compacted s = s"

lemma storage_compacted_spec:
  assumes "storage_wf s"
  shows "storage_canonical (storage_compacted s)" "expanded_cells (storage_compacted s) = expanded_cells s"
  using optimal_state_spec [of "expanded_cells s"] assms
  by (simp_all add: storage_canonical_def storage_compacted_def)

lemma storage_from_cells_canonical:
  assumes "storage_canonical s"
  shows "storage_from_cells (expanded_cells s) = Inr s"
  using assms by (simp add: storage_canonical_def storage_from_cells_def storage_compacted_def)

text \<open>Every entry of a canonical palette is used.\<close>

lemma canonical_palette_live:
  assumes "storage_canonical (StPalette es cells)"
  shows "unat ` set cells = {..<length es}"
proof -
  let ?x = "expanded_cells (StPalette es cells)"
  have wf: "storage_wf (StPalette es cells)" and opt: "optimal_state ?x = StPalette es cells"
    using assms by (simp_all add: storage_canonical_def storage_compacted_def)
  have "card (set ?x) \<le> 256" using storage_raw_iff [OF wf] by simp
  then obtain idx where "rfold palette_step (enumerate 0 ?x) ([], replicate cell_count 0) = Inr (es, idx)"
    and sets: "set es = set ?x"
    using palette_loop [of "[]" 0 ?x "replicate cell_count 0"] length_expanded [OF wf] opt
    by (auto simp: optimal_state_def palette_or_uniform_def split: if_splits)
  have "slot \<in> unat ` set cells" if "slot < length es" for slot
  proof -
    have "es ! slot \<in> set ?x" using that sets by auto
    then obtain i where i: "i \<in> set cells" "es ! slot = es ! unat i" by auto
    with wf that have "slot = unat i" by (simp add: nth_eq_iff_index_eq)
    with i show ?thesis by blast
  qed
  then show ?thesis using wf by auto
qed

lemma decode_palette_state_bytes:
  assumes "storage_canonical (StPalette es cells)"
  shows "decode_palette (state_bytes (StPalette es cells)) = Inr (StPalette es cells)"
proof -
  let ?p = "state_bytes (StPalette es cells)"
  have wf: "length cells = cell_count" "distinct es" "2 \<le> length es" "length es \<le> 256"
    "\<forall>i \<in> set cells. unat i < length es"
    using assms by (simp_all add: storage_canonical_def)
  have count: "unat (of_le (take 2 ?p) :: u16) = length es"
    using wf(4) by (simp add: unat_of_nat)
  have entries: "drop 2 (take (2 + length es * 4) ?p) = concat (map (le_bytes 4) es)"
    and indices: "drop (2 + length es * 4) ?p = cells"
    by (simp_all add: length_concat_le4)
  have read: "rfold palette_entry_step (map (le_bytes 4) es) [] = Inr es"
    using wf(2) palette_entries_loop [of "[]" "map (le_bytes 4) es"] by (simp add: map_read_u32)
  have live: "is_slot_live (fold (\<lambda>i. set_live (unat i)) cells (replicate 4 0)) slot"
    if "slot < length es" for slot
    using that wf(4) canonical_palette_live [OF assms] fold_set_live [of "replicate 4 0" slot cells]
    by simp
  have "storage_from_cells (map (\<lambda>i. es ! unat i) cells) = Inr (StPalette es cells)"
    using storage_from_cells_canonical [OF assms] by simp
  moreover have "length ?p = 2 + length es * 4 + cell_count"
    using wf(1) by (simp add: length_concat_le4)
  ultimately show ?thesis
    using wf(3,4,5) live
    unfolding decode_palette_def Let_def count entries indices chunks_le4 read rbind_simps
    by (simp add: palette_indices_loop list_ex_iff)
qed

lemma decode_full_state_bytes:
  assumes "storage_canonical s"
  shows "decode_full (storage_encoding s) (state_bytes s) = Inr s"
proof (cases s)
  case (StPalette es cells)
  with decode_palette_state_bytes [of es cells] assms show ?thesis by (simp del: state_bytes.simps)
next
  case (StRaw cells)
  with assms have "length cells = cell_count" by (simp add: storage_canonical_def)
  with StRaw storage_from_cells_canonical [OF assms] show ?thesis
    by (simp add: decode_raw_def length_concat_le4 chunks_le4 map_read_u32)
qed simp

interpretation storage_codec: codec storage_canonical
  "\<lambda>s. (storage_encoding s, state_bytes s)" "\<lambda>(enc, payload). decode_full enc payload"
  by unfold_locales (simp add: decode_full_state_bytes)

text \<open>The length of the bytes alone tells the encodings apart.\<close>

lemma state_bytes_encoding:
  assumes "storage_wf s" "storage_wf t" "length (state_bytes s) = length (state_bytes t)"
  shows "storage_encoding s = storage_encoding t"
  using assms length_state_bytes [OF assms(1)] length_state_bytes [OF assms(2)]
  by (cases s; cases t) simp_all

lemma encoded_payload_inject:
  assumes "storage_wf s" "storage_wf t"
  shows "encoded_payload s = encoded_payload t \<longleftrightarrow> expanded_cells s = expanded_cells t"
proof
  let ?s = "storage_compacted s" and ?t = "storage_compacted t"
  note cs = storage_compacted_spec [OF assms(1)] and ct = storage_compacted_spec [OF assms(2)]
  assume eq: "encoded_payload s = encoded_payload t"
  then have "storage_encoding ?s = storage_encoding ?t"
    using cs(1) ct(1) by (intro state_bytes_encoding) (simp_all add: encoded_payload_def storage_canonical_def)
  with eq have "?s = ?t"
    using storage_codec.encode_inject [OF cs(1) ct(1)] by (simp add: encoded_payload_def)
  then show "expanded_cells s = expanded_cells t" using cs(2) ct(2) by metis
next
  assume "expanded_cells s = expanded_cells t"
  then show "encoded_payload s = encoded_payload t"
    by (simp add: encoded_payload_def storage_compacted_def)
qed

lemma length_encoded_payload: "storage_wf s \<Longrightarrow> length (encoded_payload s) \<le> 4 * cell_count"
  using storage_compacted_spec(1) [of s] length_state_bytes [of "storage_compacted s"]
  by (cases "storage_compacted s") (auto simp: encoded_payload_def storage_canonical_def)

section \<open>What a successful decode guarantees\<close>

lemma storage_from_cells_Inr:
  assumes "storage_from_cells cells = Inr s"
  shows "storage_canonical s" "expanded_cells s = cells" "storage_reach s"
  using assms optimal_state_spec [of cells] reach_from_cells [OF assms]
  by (auto simp: storage_from_cells_def storage_canonical_def storage_compacted_def split: if_splits)

lemma uniform_canonical: "storage_canonical (StUniform b)"
proof -
  have "storage_encoding (optimal_state (replicate cell_count b)) = EncUniform"
    "expanded_cells (optimal_state (replicate cell_count b)) = replicate cell_count b"
    using optimal_state_spec [of "replicate cell_count b"] by simp_all
  then have "optimal_state (replicate cell_count b) = StUniform b"
    by (cases "optimal_state (replicate cell_count b)") simp_all
  then show ?thesis by (simp add: storage_canonical_def storage_compacted_def)
qed

lemma decode_palette_Inr:
  "decode_palette p = Inr s \<Longrightarrow>
   \<exists>cells. storage_from_cells cells = Inr s \<and> storage_encoding s = EncPalette"
  unfolding decode_palette_def Let_def result_iff
  by (simp only: result_iff split_paired_Ex prod.case sum.distinct split: if_splits) blast

lemma decode_full_Inr:
  assumes "decode_full enc p = Inr s" "enc \<noteq> EncDelta"
  shows "storage_canonical s \<and> storage_encoding s = enc \<and> storage_reach s"
proof (cases enc)
  case EncUniform
  with assms show ?thesis by (auto simp: uniform_canonical reach_uniform split: if_splits)
next
  case EncPalette
  with assms decode_palette_Inr [of p s] obtain cells
    where "storage_from_cells cells = Inr s" "storage_encoding s = EncPalette" by auto
  with EncPalette storage_from_cells_Inr show ?thesis by blast
next
  case EncRaw
  with assms obtain cells where "storage_from_cells cells = Inr s" "storage_encoding s = EncRaw"
    by (auto simp: decode_raw_def Let_def result_iff split: if_splits)
  with EncRaw storage_from_cells_Inr show ?thesis by blast
qed (use assms in simp)

section \<open>Deltas\<close>

lemma length_delta_entry_bytes [simp]: "length (delta_entry_bytes e) = 6"
  by (simp add: delta_entry_bytes_def)

lemma delta_step_bytes:
  "de_offset e \<le> CELL_OFFSET_MAX \<Longrightarrow>
   delta_step (delta_entry_bytes e) s = Inr (fst (storage_write (de_offset e) (de_block_id e) s))"
  by (simp add: delta_step_def delta_entry_bytes_def cell_offset_new_def not_less
      read_u32_le(1) [of "de_block_id e"])

definition delta_writes :: "delta_entry list \<Rightarrow> (nat \<times> block_id) list" where
  "delta_writes entries = map (\<lambda>e. (unat (de_offset e), de_block_id e)) entries"

lemma delta_writes_lookup:
  "map_of (rev (delta_writes entries)) (unat off) =
   map_of (rev (map (\<lambda>e. (de_offset e, de_block_id e)) entries)) off"
  unfolding delta_writes_def
  by (induction entries rule: rev_induct) (simp_all add: word_eq_iff_unsigned [where 'a = nat])

lemma offset_max_iff: "(off :: cell_offset) \<le> CELL_OFFSET_MAX \<longleftrightarrow> unat off < cell_count"
  by (auto simp: word_le_nat_alt)

lemma delta_writes_bound:
  "\<forall>e \<in> set entries. de_offset e \<le> CELL_OFFSET_MAX \<Longrightarrow>
   \<forall>w \<in> set (delta_writes entries). fst w < cell_count"
  by (auto simp: delta_writes_def offset_max_iff simp del: CELL_OFFSET_MAX_def)

lemma apply_delta_bytes:
  assumes "\<forall>e \<in> set entries. de_offset e \<le> CELL_OFFSET_MAX"
  shows "apply_delta s (concat (map delta_entry_bytes entries)) =
    Inr (section_store.wr_all (delta_writes entries) s)"
proof -
  have chunks: "chunks_exact 6 (concat (map delta_entry_bytes entries)) = map delta_entry_bytes entries"
    by (rule chunks_exact_map_concat) simp_all
  have len: "length (concat (map delta_entry_bytes entries)) = 6 * length entries"
    by (rule length_concat_fixed) simp
  have "rfold delta_step (map delta_entry_bytes entries) s =
      Inr (section_store.wr_all (delta_writes entries) s)"
    using assms unfolding section_store.wr_all_def delta_writes_def
    by (induction entries arbitrary: s) (simp_all add: delta_step_bytes del: CELL_OFFSET_MAX_def)
  with chunks len show ?thesis by (simp add: apply_delta_def)
qed

lemma delta_step_reach:
  assumes "delta_step entry s = Inr t" "storage_reach s"
  shows "storage_reach t"
proof -
  from assms(1) obtain off where "off \<le> CELL_OFFSET_MAX" "t = fst (storage_write off (read_u32 (drop 2 entry)) s)"
    by (auto simp: delta_step_def result_iff cell_offset_new_def not_less split: if_splits)
  with reach_write [OF assms(2), of off] show ?thesis
    by (simp add: offset_max_iff del: CELL_OFFSET_MAX_def)
qed

lemma apply_delta_reach: "apply_delta s p = Inr t \<Longrightarrow> storage_reach s \<Longrightarrow> storage_reach t"
  unfolding apply_delta_def
  by (auto split: if_splits elim!: rfold_invariant intro: delta_step_reach)

lemma full_decode:
  assumes "section_id_wf sid" "storage_reach s"
  shows "envelope_decode (encode_full sid srev s) baseline =
      (if (case baseline of Some (_, cur) \<Rightarrow> srev \<le> cur | None \<Rightarrow> False)
       then Inl (SeContractViolation STALE_SECTION_REVISION)
       else Inr \<lparr>dp_section_id = sid, dp_section_revision = srev, dp_storage = storage_compacted s\<rparr>) \<and>
    (\<forall>off. unat off < cell_count \<longrightarrow> storage_read (storage_compacted s) off = storage_read s off)"
proof -
  note wf = storage_reach_wf [OF assms(2)]
  note canon = storage_compacted_spec [OF wf]
  have len: "length (encoded_payload s) < 2 ^ 32"
    using length_encoded_payload [OF wf] by simp
  have again: "encode_storage (storage_compacted s) = state_bytes (storage_compacted s)"
    using canon(1) by (simp add: encode_storage_def encoded_payload_def storage_canonical_def)
  have nodelta: "storage_encoding (storage_compacted s) \<noteq> EncDelta"
    by (cases "storage_compacted s") simp_all
  have u: "unat (the (u32_try_from (length (state_bytes (storage_compacted s))))) =
      length (state_bytes (storage_compacted s))"
    using len by (simp add: u32_try_from_def encoded_payload_def unat_of_nat)
  have "\<forall>off. unat off < cell_count \<longrightarrow> storage_read (storage_compacted s) off = storage_read s off"
    using reads_eq_iff [of "storage_compacted s" s] canon wf by (simp add: storage_canonical_def)
  then show ?thesis
    using nodelta u decode_full_state_bytes [OF canon(1)] section_parse_key [OF assms(1)]
    by (auto simp: envelope_decode_def encode_full_def outgoing_def Let_def again
        se_contract_violation_def split: option.splits)
qed

lemma delta_decode:
  assumes "section_id_wf sid" "storage_reach s" "cur < srev"
    and "\<forall>e \<in> set entries. de_offset e \<le> CELL_OFFSET_MAX" "6 * length entries < 2 ^ 32"
  shows "\<exists>t. envelope_decode (encode_delta sid srev cur entries) (Some (s, cur)) =
      Inr \<lparr>dp_section_id = sid, dp_section_revision = srev, dp_storage = t\<rparr> \<and> storage_reach t \<and>
    (\<forall>off. unat off < cell_count \<longrightarrow> storage_read t off =
       (case map_of (rev (map (\<lambda>e. (de_offset e, de_block_id e)) entries)) off of
          Some b \<Rightarrow> b | None \<Rightarrow> storage_read s off))"
proof -
  let ?p = "concat (map delta_entry_bytes entries)"
  let ?t = "section_store.wr_all (delta_writes entries) s"
  note delta = apply_delta_bytes [OF assms(4), of s]
  have len: "length ?p = 6 * length entries" by (rule length_concat_fixed) simp
  then have u: "unat (the (u32_try_from (length ?p))) = length ?p"
    using assms(5) by (simp add: u32_try_from_def unat_of_nat del: of_nat_mult)
  have "storage_read ?t off = (case map_of (rev (map (\<lambda>e. (de_offset e, de_block_id e)) entries)) off of
      Some b \<Rightarrow> b | None \<Rightarrow> storage_read s off)" if "unat off < cell_count" for off
    using section_store.rd_wr_all [OF storage_reach_wf [OF assms(2)] delta_writes_bound [OF assms(4)] that]
    by (simp add: delta_writes_lookup split: option.splits)
  moreover have "envelope_decode (encode_delta sid srev cur entries) (Some (s, cur)) =
      Inr \<lparr>dp_section_id = sid, dp_section_revision = srev, dp_storage = ?t\<rparr>"
    using assms(3) u delta section_parse_key [OF assms(1)]
    by (simp add: envelope_decode_def encode_delta_def outgoing_def)
  ultimately show ?thesis using apply_delta_reach [OF delta assms(2)] by blast
qed

lemma decode_revision:
  "envelope_decode env (Some (s, cur)) = Inr d \<Longrightarrow>
   cur < pe_section_revision env \<and> dp_section_revision d = pe_section_revision env"
  by (auto simp: envelope_decode_def rbind_eq_Inr not_le split: if_splits)

section \<open>Properties\<close>

text \<open>
  C27. A full envelope round trips: decoding what \<open>encode_full\<close> produced, with no baseline or with
  one of an older revision, returns the section, the revision and a storage that reads the same
  in every cell; with a baseline at or past its revision it is refused as stale.
\<close>

theorem full_payload_roundtrip:
  assumes "section_id_wf sid" "storage_reach s"
  shows "envelope_decode (encode_full sid srev s) baseline =
      (if (case baseline of Some (_, cur) \<Rightarrow> srev \<le> cur | None \<Rightarrow> False)
       then Inl (SeContractViolation STALE_SECTION_REVISION)
       else Inr \<lparr>dp_section_id = sid, dp_section_revision = srev, dp_storage = storage_compacted s\<rparr>) \<and>
    (\<forall>off. unat off < cell_count \<longrightarrow> storage_read (storage_compacted s) off = storage_read s off)"
  by (rule full_decode [OF assms])

theorem full_payload_roundtrip_witness:
  "envelope_decode (encode_full (SectionId 1 2 3) 5 (StUniform 7)) (Some (StUniform 1, 4)) =
     Inr \<lparr>dp_section_id = SectionId 1 2 3, dp_section_revision = 5,
          dp_storage = storage_compacted (StUniform 7)\<rparr> \<and>
   envelope_decode (encode_full (SectionId 1 2 3) 5 (StUniform 7)) (Some (StUniform 1, 5)) =
     Inl (SeContractViolation STALE_SECTION_REVISION)"
  using full_payload_roundtrip [of "SectionId 1 2 3" "StUniform 7" 5 "Some (StUniform 1, 4)"]
    full_payload_roundtrip [of "SectionId 1 2 3" "StUniform 7" 5 "Some (StUniform 1, 5)"]
  by (simp add: section_id_wf_def reach_uniform)

text \<open>
  The payload bytes identify the content: two storages the crate can reach have the same
  payload bytes exactly when they read the same in every cell, whatever their representation
  and whatever writes led to them.
\<close>

theorem payload_bytes_canonical:
  assumes "storage_reach s" "storage_reach t"
  shows "encoded_payload s = encoded_payload t \<longleftrightarrow>
    (\<forall>off. unat off < cell_count \<longrightarrow> storage_read s off = storage_read t off)"
  using reads_eq_iff encoded_payload_inject storage_reach_wf [OF assms(1)] storage_reach_wf [OF assms(2)]
  by simp

theorem payload_bytes_canonical_witness:
  "encoded_payload (fst (storage_write 5 9 (StUniform 9))) = encoded_payload (StUniform 9) \<longleftrightarrow>
    (\<forall>off. unat off < cell_count \<longrightarrow>
       storage_read (fst (storage_write 5 9 (StUniform 9))) off = storage_read (StUniform 9) off)"
  by (rule payload_bytes_canonical) (simp_all add: reach_uniform reach_write)

text \<open>
  A delta whose base is the receiver's current revision applies its entries in order: each
  cell reads the last block written to it, or what the baseline had when no entry names it.
\<close>

theorem delta_applies_writes:
  assumes "section_id_wf sid" "storage_reach s" "cur < srev"
    and "\<forall>e \<in> set entries. de_offset e \<le> CELL_OFFSET_MAX" "6 * length entries < 2 ^ 32"
  shows "\<exists>t. envelope_decode (encode_delta sid srev cur entries) (Some (s, cur)) =
      Inr \<lparr>dp_section_id = sid, dp_section_revision = srev, dp_storage = t\<rparr> \<and> storage_reach t \<and>
    (\<forall>off. unat off < cell_count \<longrightarrow> storage_read t off =
       (case map_of (rev (map (\<lambda>e. (de_offset e, de_block_id e)) entries)) off of
          Some b \<Rightarrow> b | None \<Rightarrow> storage_read s off))"
  by (rule delta_decode [OF assms])

theorem delta_applies_writes_witness:
  "\<exists>t. envelope_decode (encode_delta (SectionId 1 2 3) 5 4 [DeltaEntry 9 1, DeltaEntry 9 2]) (Some (StUniform 7, 4)) =
      Inr \<lparr>dp_section_id = SectionId 1 2 3, dp_section_revision = 5, dp_storage = t\<rparr> \<and> storage_reach t \<and>
    (\<forall>off. unat off < cell_count \<longrightarrow> storage_read t off =
       (case map_of (rev (map (\<lambda>e. (de_offset e, de_block_id e)) [DeltaEntry 9 1, DeltaEntry 9 2])) off of
          Some b \<Rightarrow> b | None \<Rightarrow> storage_read (StUniform 7) off))"
  by (rule delta_applies_writes) (simp_all add: section_id_wf_def reach_uniform)

text \<open>
  C28. Decoding never trusts the wire: when an envelope decodes, its digest and length were right
  and its key canonical, the section never moves back to an old revision, a full envelope carries
  no base and yields the canonical storage of the encoding it declares, and a delta was applied
  to the revision it names.
\<close>

theorem decode_guarantees:
  assumes "envelope_decode env baseline = Inr d"
    and "case baseline of Some (s, _) \<Rightarrow> storage_reach s | None \<Rightarrow> True"
  shows "sha256 (pe_payload env) = pe_payload_sha256 env \<and>
    length (pe_payload env) = unat (pe_payload_length env) \<and>
    pe_section_key env = section_id_key (dp_section_id d) \<and>
    dp_section_revision d = pe_section_revision env \<and>
    (case baseline of Some (_, cur) \<Rightarrow> cur < dp_section_revision d | None \<Rightarrow> True) \<and>
    storage_reach (dp_storage d) \<and>
    (if pe_encoding env = EncDelta
     then \<exists>s cur. baseline = Some (s, cur) \<and> pe_base_section_revision env = Some cur \<and>
            apply_delta s (pe_payload env) = Inr (dp_storage d)
     else pe_base_section_revision env = None \<and> storage_canonical (dp_storage d) \<and>
            storage_encoding (dp_storage d) = pe_encoding env)"
proof (cases "pe_encoding env = EncDelta")
  case True
  with assms show ?thesis
    by (auto simp: envelope_decode_def map_err_eq_Inr rbind_eq_Inr not_le
        dest!: section_key_parse split: if_splits option.splits intro: apply_delta_reach)
next
  case False
  from assms(1) False have "decode_full (pe_encoding env) (pe_payload env) = Inr (dp_storage d)"
    by (auto simp: envelope_decode_def map_err_eq_Inr rbind_eq_Inr split: if_splits option.splits)
  note full = decode_full_Inr [OF this False]
  from assms(1) False full show ?thesis
    by (auto simp: envelope_decode_def map_err_eq_Inr rbind_eq_Inr not_le
        dest!: section_key_parse split: if_splits option.splits)
qed

theorem decode_guarantees_witness:
  "\<exists>d. envelope_decode (encode_full (SectionId 1 2 3) 5 (StUniform 7)) None = Inr d \<and>
    sha256 (pe_payload (encode_full (SectionId 1 2 3) 5 (StUniform 7))) =
      pe_payload_sha256 (encode_full (SectionId 1 2 3) 5 (StUniform 7)) \<and>
    storage_canonical (dp_storage d)"
proof -
  have ok: "envelope_decode (encode_full (SectionId 1 2 3) 5 (StUniform 7)) None =
      Inr \<lparr>dp_section_id = SectionId 1 2 3, dp_section_revision = 5, dp_storage = StUniform 7\<rparr>"
    using uniform_canonical [of 7]
    by (simp add: envelope_decode_def encode_full_def outgoing_def encode_storage_def
        encoded_payload_def u32_try_from_def storage_canonical_def section_parse_key section_id_wf_def)
  moreover have "pe_encoding (encode_full (SectionId 1 2 3) 5 (StUniform 7)) = EncUniform"
    using uniform_canonical [of 7]
    by (simp add: encode_full_def outgoing_def storage_canonical_def Let_def)
  ultimately show ?thesis using decode_guarantees [OF ok] by auto
qed

end
