(* ===== verification/Binding.thy ===== *)
theory Binding
  imports Payload
begin

text \<open>
  \<open>binding.rs\<close>: the sparse table that binds entity-backed cells of one section to ECS entities,
  its wire format, the validated composition of section, references and entities, the
  copy-on-write transaction and the publication cell. The type policy is a parameter: the trait
  \<open>BlockEntityTypePolicy\<close> is its one required method, and \<open>requires_entity\<close> and \<open>matches\<close> are the
  default methods over it, which no implementation in the sources overrides.
\<close>

section \<open>Data\<close>

type_synonym net_entity_id = string

record entity_record =
  er_id :: net_entity_id
  er_entity_type :: string
  er_alive :: bool

definition entity_new :: "string \<Rightarrow> string \<Rightarrow> entity_record" where
  "entity_new i t = \<lparr>er_id = i, er_entity_type = t, er_alive = True\<rparr>"

definition entity_dead :: "string \<Rightarrow> string \<Rightarrow> entity_record" where
  "entity_dead i t = \<lparr>er_id = i, er_entity_type = t, er_alive = False\<rparr>"

type_synonym type_policy = "block_type \<Rightarrow> string option"

definition requires_entity :: "type_policy \<Rightarrow> block_type \<Rightarrow> bool" where
  "requires_entity policy t \<longleftrightarrow> policy t \<noteq> None"

definition policy_matches :: "type_policy \<Rightarrow> block_type \<Rightarrow> string \<Rightarrow> bool" where
  "policy_matches policy t entity_type \<longleftrightarrow> policy t = Some entity_type"

type_synonym explicit_policy = "(block_type, string) fmap"

definition explicit_policy_insert :: "block_type \<Rightarrow> string \<Rightarrow> explicit_policy \<Rightarrow> explicit_policy" where
  "explicit_policy_insert t entity_type p = fmupd t entity_type p"

definition explicit_entity_type_for :: "explicit_policy \<Rightarrow> type_policy" where
  "explicit_entity_type_for p t = fmlookup p t"

record binding_reference =
  br_cell_offset :: u16
  br_entity_id :: net_entity_id
  br_business_data :: "u8 list option"

datatype binding_error =
    BeBlock string
  | BeSection section_error
  | EntityBindingMissing string
  | EntityBindingOrphan string
  | EntityBindingTypeMismatch string
  | EntityBindingNotSparse string
  | BusinessDataInPayload string
  | BindingCommitSplit string

fun binding_error_id :: "binding_error \<Rightarrow> string" where
  "binding_error_id (BeBlock code) = code"
| "binding_error_id (BeSection err) = section_error_id err"
| "binding_error_id (EntityBindingMissing i) = i"
| "binding_error_id (EntityBindingOrphan i) = i"
| "binding_error_id (EntityBindingTypeMismatch i) = i"
| "binding_error_id (EntityBindingNotSparse i) = i"
| "binding_error_id (BusinessDataInPayload i) = i"
| "binding_error_id (BindingCommitSplit i) = i"

definition be_missing :: binding_error where
  "be_missing = EntityBindingMissing (contract_error ''entity_binding_missing'')"

definition be_orphan :: binding_error where
  "be_orphan = EntityBindingOrphan (contract_error ''entity_binding_orphan'')"

definition be_type_mismatch :: binding_error where
  "be_type_mismatch = EntityBindingTypeMismatch (contract_error ''entity_binding_type_mismatch'')"

definition be_not_sparse :: binding_error where
  "be_not_sparse = EntityBindingNotSparse (contract_error ''entity_binding_not_sparse'')"

definition be_business_data :: binding_error where
  "be_business_data = BusinessDataInPayload (contract_error ''business_data_in_payload'')"

definition be_commit_split :: binding_error where
  "be_commit_split = BindingCommitSplit (contract_error ''binding_commit_split'')"

section \<open>Sparse reference table\<close>

type_synonym reference_table = "(cell_offset, net_entity_id) fmap"

definition table_insert ::
    "cell_offset \<Rightarrow> net_entity_id \<Rightarrow> reference_table \<Rightarrow> binding_error + reference_table" where
  "table_insert off entity_id t =
     (if entity_id = [] \<or> fm_has t off then Inl be_not_sparse else Inr (fmupd off entity_id t))"

definition table_insert_raw ::
    "u16 \<Rightarrow> net_entity_id \<Rightarrow> reference_table \<Rightarrow> binding_error + reference_table" where
  "table_insert_raw raw entity_id t =
     rbind (map_err BeBlock (cell_offset_new raw)) (\<lambda>off. table_insert off entity_id t)"

definition table_from_entries ::
    "(cell_offset \<times> net_entity_id) list \<Rightarrow> binding_error + reference_table" where
  "table_from_entries es = rfold (\<lambda>(off, entity_id). table_insert off entity_id) es fmempty"

definition table_record_step ::
    "binding_reference \<Rightarrow> reference_table \<Rightarrow> binding_error + reference_table" where
  "table_record_step r t =
     (if br_business_data r \<noteq> None then Inl be_not_sparse
      else table_insert_raw (br_cell_offset r) (br_entity_id r) t)"

definition table_from_records :: "binding_reference list \<Rightarrow> binding_error + reference_table" where
  "table_from_records rs = rfold table_record_step rs fmempty"

definition table_from_dense :: "net_entity_id option list \<Rightarrow> binding_error + reference_table" where
  "table_from_dense es = Inl be_not_sparse"

definition table_remove :: "cell_offset \<Rightarrow> reference_table \<Rightarrow> net_entity_id option \<times> reference_table" where
  "table_remove off t = (fmlookup t off, fmdrop off t)"

text \<open>
  The wire format. \<open>u16::try_from\<close> fails above 65535. The cursor never passes the end of the
  slice, so its \<open>checked_add\<close> cannot overflow and the bounds test of \<open>get\<close> decides.
\<close>

definition u16_try_from :: "nat \<Rightarrow> u16 option" where
  "u16_try_from n = (if n \<le> 65535 then Some (of_nat n) else None)"

definition wire_row :: "cell_offset \<times> net_entity_id \<Rightarrow> u8 list \<Rightarrow> binding_error + u8 list" where
  "wire_row e bytes =
     (let i = str_bytes (snd e)
      in rbind (ok_or be_not_sparse (u16_try_from (length i))) (\<lambda>len.
         Inr (bytes @ le_bytes 2 (fst e) @ le_bytes 2 len @ i)))"

definition to_wire_bytes :: "reference_table \<Rightarrow> binding_error + u8 list" where
  "to_wire_bytes t =
     rbind (ok_or be_not_sparse (u16_try_from (fm_len t))) (\<lambda>count.
       rfold wire_row (fm_entries t) (le_bytes 2 count))"

definition read_u16 :: "u8 list \<Rightarrow> nat \<Rightarrow> binding_error + (u16 \<times> nat)" where
  "read_u16 bytes cursor =
     (if cursor + 2 \<le> length bytes
      then Inr (of_le (take 2 (drop cursor bytes)), cursor + 2) else Inl be_not_sparse)"

definition wire_entry ::
    "u8 list \<Rightarrow> nat \<times> reference_table \<Rightarrow> binding_error + (nat \<times> reference_table)" where
  "wire_entry bytes st =
     (let (cursor, t) = st in
      rbind (read_u16 bytes cursor) (\<lambda>(raw, cursor).
      rbind (map_err BeBlock (cell_offset_new raw)) (\<lambda>off.
      rbind (read_u16 bytes cursor) (\<lambda>(len, cursor).
        let stop = cursor + unat len in
        rbind (if stop \<le> length bytes then Inr (take (unat len) (drop cursor bytes))
               else Inl be_not_sparse) (\<lambda>slice.
        rbind (ok_or be_not_sparse (from_utf8 slice)) (\<lambda>entity_id.
        rbind (table_insert off entity_id t) (\<lambda>t.
        Inr (stop, t))))))))"

definition wire_entries ::
    "u8 list \<Rightarrow> nat \<Rightarrow> nat \<Rightarrow> binding_error + (nat \<times> reference_table)" where
  "wire_entries bytes n cursor = rfold (\<lambda>_. wire_entry bytes) [0..<n] (cursor, fmempty)"

definition validate_wire_bytes :: "u8 list \<Rightarrow> binding_error + unit" where
  "validate_wire_bytes bytes =
     rbind (read_u16 bytes 0) (\<lambda>(rows, cursor).
       if unat rows > unat CELL_OFFSET_MAX + 1 then Inl be_not_sparse
       else rbind (wire_entries bytes (unat rows) cursor) (\<lambda>(cursor, offsets).
         if cursor \<noteq> length bytes then Inl be_not_sparse else Inr ()))"

definition from_wire_bytes :: "u8 list \<Rightarrow> binding_error + reference_table" where
  "from_wire_bytes bytes =
     rbind (validate_wire_bytes bytes) (\<lambda>_.
     rbind (read_u16 bytes 0) (\<lambda>(rows, cursor).
     rbind (wire_entries bytes (unat rows) cursor) (\<lambda>(cursor, t). Inr t)))"

definition table_validate_shape :: "reference_table \<Rightarrow> binding_error + unit" where
  "table_validate_shape t =
     rfold (\<lambda>off u. rbind (map_err BeBlock (cell_offset_new off)) (\<lambda>_. Inr ())) (fm_keys t) ()"

section \<open>Binding state\<close>

record binding_state =
  bs_section :: storage_state
  bs_references :: reference_table
  bs_entities :: "(net_entity_id, entity_record) fmap"

definition binding_empty :: "storage_state \<Rightarrow> binding_state" where
  "binding_empty s = \<lparr>bs_section = s, bs_references = fmempty, bs_entities = fmempty\<rparr>"

definition check_reference ::
    "type_policy \<Rightarrow> binding_state \<Rightarrow> cell_offset \<times> net_entity_id \<Rightarrow> unit \<Rightarrow> binding_error + unit" where
  "check_reference policy s e u =
     (case policy (block_id_type (storage_read (bs_section s) (fst e))) of
        None \<Rightarrow> Inl be_orphan
      | Some expected \<Rightarrow>
          (case fmlookup (bs_entities s) (snd e) of
             None \<Rightarrow> Inl be_missing
           | Some entity \<Rightarrow>
               if \<not> er_alive entity then Inl be_missing
               else if er_entity_type entity \<noteq> expected then Inl be_type_mismatch
               else Inr ()))"

definition check_cell :: "type_policy \<Rightarrow> binding_state \<Rightarrow> nat \<Rightarrow> unit \<Rightarrow> binding_error + unit" where
  "check_cell policy s raw u =
     rbind (map_err BeBlock (cell_offset_new (of_nat raw))) (\<lambda>off.
       let needs_entity = requires_entity policy (block_id_type (storage_read (bs_section s) off));
           has_reference = fm_has (bs_references s) off
       in if needs_entity \<and> \<not> has_reference then Inl be_missing
          else if \<not> needs_entity \<and> has_reference then Inl be_orphan
          else Inr ())"

definition check_entity :: "binding_state \<Rightarrow> net_entity_id \<Rightarrow> unit \<Rightarrow> binding_error + unit" where
  "check_entity s entity_id u =
     (let occurrences = length (filter (\<lambda>(_, r). r = entity_id) (fm_entries (bs_references s)))
      in if occurrences \<noteq> 1 then Inl be_orphan else Inr ())"

definition binding_validate :: "type_policy \<Rightarrow> binding_state \<Rightarrow> binding_error + unit" where
  "binding_validate policy s =
     rbind (table_validate_shape (bs_references s)) (\<lambda>_.
     rbind (rfold (check_reference policy s) (fm_entries (bs_references s)) ()) (\<lambda>_.
     rbind (rfold (check_cell policy s) [0..<SECTION_CELLS] ()) (\<lambda>_.
       rfold (check_entity s) (fm_keys (bs_entities s)) ())))"

definition register_entity ::
    "entity_record \<Rightarrow> (net_entity_id, entity_record) fmap \<Rightarrow>
     binding_error + (net_entity_id, entity_record) fmap" where
  "register_entity entity registry =
     (if er_id entity = [] \<or> fm_has registry (er_id entity) then Inl be_orphan
      else Inr (fmupd (er_id entity) entity registry))"

definition binding_new ::
    "storage_state \<Rightarrow> reference_table \<Rightarrow> entity_record list \<Rightarrow> type_policy \<Rightarrow>
     binding_error + binding_state" where
  "binding_new sec references entities policy =
     rbind (rfold register_entity entities fmempty) (\<lambda>registry.
       let s = \<lparr>bs_section = sec, bs_references = references, bs_entities = registry\<rparr>
       in rbind (binding_validate policy s) (\<lambda>_. Inr s))"

text \<open>Bytes a delta payload may carry; full payloads are decoded instead.\<close>

definition payload_table :: "u8 list \<Rightarrow> nat \<Rightarrow> u32 list" where
  "payload_table bytes table_end = map read_u32 (chunks_exact 4 (drop 2 (take table_end bytes)))"

definition mark_live :: "nat \<Rightarrow> u8 \<Rightarrow> bool list \<Rightarrow> binding_error + bool list" where
  "mark_live n index live =
     (if unat index \<ge> n then Inl be_business_data else Inr (live[unat index := True]))"

definition validate_voxel_payload_bytes :: "u8 list \<Rightarrow> binding_error + unit" where
  "validate_voxel_payload_bytes bytes =
     (let n = length bytes; count = unat (of_le (take 2 bytes) :: u16) in
      if n = 4 \<or> n = SECTION_CELLS * 4 then Inr ()
      else if n \<ge> 2 \<and> 2 \<le> count \<and> count \<le> PALETTE_MAX_ENTRIES \<and> n = 2 + count * 4 + SECTION_CELLS
      then
        let table_end = 2 + count * 4; table = payload_table bytes table_end
        in if list_ex (\<lambda>i. table ! i \<in> set (take i table)) [0..<length table] then Inl be_business_data
           else rbind (rfold (mark_live count) (drop table_end bytes) (replicate count False)) (\<lambda>live.
             if list_all id live then Inr () else Inl be_business_data)
      else if n mod 6 = 0 \<and> n \<noteq> 0
      then rfold (\<lambda>entry u. rbind (map_err BeBlock (cell_offset_new (of_le (take 2 entry)))) (\<lambda>_. Inr ()))
             (chunks_exact 6 bytes) ()
      else Inl be_business_data)"

definition validate_section_payload :: "payload_envelope \<Rightarrow> binding_error + unit" where
  "validate_section_payload env =
     (case envelope_decode env None of
        Inr _ \<Rightarrow> Inr ()
      | Inl err \<Rightarrow>
          if pe_encoding env = EncDelta \<and> section_error_id err = DELTA_USED_FOR_FIRST_DELIVERY
          then
            (case pe_base_section_revision env of
               None \<Rightarrow> Inl be_business_data
             | Some base_revision \<Rightarrow>
                 if pe_section_revision env \<le> base_revision then Inl be_business_data
                 else validate_voxel_payload_bytes (pe_payload env))
          else Inl be_business_data)"

section \<open>Transactions\<close>

record binding_transaction =
  bt_base :: binding_state
  bt_block_changes :: "(cell_offset, block_id) fmap"
  bt_reference_changes :: "(cell_offset, net_entity_id option) fmap"
  bt_entity_changes :: "(net_entity_id, entity_record option) fmap"
  bt_commit_id :: "u64 option"
  bt_split :: bool

definition binding_begin :: "binding_state \<Rightarrow> binding_transaction" where
  "binding_begin base =
     \<lparr>bt_base = base, bt_block_changes = fmempty, bt_reference_changes = fmempty,
      bt_entity_changes = fmempty, bt_commit_id = None, bt_split = False\<rparr>"

text \<open>Staging never fails: \<open>observe_commit\<close> and the setters return \<open>Ok\<close> on every path.\<close>

definition observe_commit :: "u64 \<Rightarrow> binding_transaction \<Rightarrow> binding_transaction" where
  "observe_commit commit_id t =
     (case bt_commit_id t of
        Some existing \<Rightarrow> if existing \<noteq> commit_id then t\<lparr>bt_split := True\<rparr> else t
      | None \<Rightarrow> t\<lparr>bt_commit_id := Some commit_id\<rparr>)"

definition set_block_commit :: "u64 \<Rightarrow> cell_offset \<Rightarrow> block_id \<Rightarrow> binding_transaction \<Rightarrow> binding_transaction" where
  "set_block_commit commit_id off b t =
     (let u = observe_commit commit_id t in u\<lparr>bt_block_changes := fmupd off b (bt_block_changes u)\<rparr>)"

definition set_reference_commit ::
    "u64 \<Rightarrow> cell_offset \<Rightarrow> net_entity_id \<Rightarrow> binding_transaction \<Rightarrow> binding_transaction" where
  "set_reference_commit commit_id off i t =
     (let u = observe_commit commit_id t
      in u\<lparr>bt_reference_changes := fmupd off (Some i) (bt_reference_changes u)\<rparr>)"

definition set_reference_removed_commit ::
    "u64 \<Rightarrow> cell_offset \<Rightarrow> binding_transaction \<Rightarrow> binding_transaction" where
  "set_reference_removed_commit commit_id off t =
     (let u = observe_commit commit_id t
      in u\<lparr>bt_reference_changes := fmupd off None (bt_reference_changes u)\<rparr>)"

definition set_entity_commit :: "u64 \<Rightarrow> entity_record \<Rightarrow> binding_transaction \<Rightarrow> binding_transaction" where
  "set_entity_commit commit_id entity t =
     (let u = observe_commit commit_id t
      in u\<lparr>bt_entity_changes := fmupd (er_id entity) (Some entity) (bt_entity_changes u)\<rparr>)"

definition set_entity_removed_commit ::
    "u64 \<Rightarrow> net_entity_id \<Rightarrow> binding_transaction \<Rightarrow> binding_transaction" where
  "set_entity_removed_commit commit_id i t =
     (let u = observe_commit commit_id t
      in u\<lparr>bt_entity_changes := fmupd i None (bt_entity_changes u)\<rparr>)"

definition staged_reference :: "binding_transaction \<Rightarrow> cell_offset \<Rightarrow> net_entity_id option" where
  "staged_reference t off = Option.bind (fmlookup (bt_reference_changes t) off) (\<lambda>v. v)"

definition bound_entity :: "binding_transaction \<Rightarrow> cell_offset \<Rightarrow> net_entity_id option" where
  "bound_entity t off =
     (case staged_reference t off of
        Some i \<Rightarrow> Some i
      | None \<Rightarrow> fmlookup (bs_references (bt_base t)) off)"

definition commit_id_or_zero :: "binding_transaction \<Rightarrow> u64" where
  "commit_id_or_zero t = (case bt_commit_id t of Some c \<Rightarrow> c | None \<Rightarrow> 0)"

definition binding_place ::
    "cell_offset \<Rightarrow> block_id \<Rightarrow> entity_record \<Rightarrow> binding_transaction \<Rightarrow> binding_transaction" where
  "binding_place off b entity t =
     (let previous_entity = bound_entity t off;
          commit_id = commit_id_or_zero t;
          u = set_entity_commit commit_id entity
                (set_reference_commit commit_id off (er_id entity) (set_block_commit commit_id off b t))
      in case previous_entity of
           Some prev \<Rightarrow>
             if staged_reference u off \<noteq> Some prev
             then set_entity_removed_commit commit_id prev u else u
         | None \<Rightarrow> u)"

definition binding_remove :: "cell_offset \<Rightarrow> block_id \<Rightarrow> binding_transaction \<Rightarrow> binding_transaction" where
  "binding_remove off replacement t =
     (let entity_id = bound_entity t off;
          commit_id = commit_id_or_zero t;
          u = set_reference_removed_commit commit_id off (set_block_commit commit_id off replacement t)
      in case entity_id of Some i \<Rightarrow> set_entity_removed_commit commit_id i u | None \<Rightarrow> u)"

definition commit_write :: "cell_offset \<times> block_id \<Rightarrow> storage_state \<Rightarrow> storage_state" where
  "commit_write c s = fst (storage_write (fst c) (snd c) s)"

definition commit_reference ::
    "cell_offset \<times> net_entity_id option \<Rightarrow> reference_table \<Rightarrow> binding_error + reference_table" where
  "commit_reference c references =
     (case snd c of
        Some i \<Rightarrow> table_insert (fst c) i (snd (table_remove (fst c) references))
      | None \<Rightarrow> Inr (snd (table_remove (fst c) references)))"

definition commit_entity ::
    "net_entity_id \<times> entity_record option \<Rightarrow> (net_entity_id, entity_record) fmap \<Rightarrow>
     (net_entity_id, entity_record) fmap" where
  "commit_entity c registry =
     (case snd c of Some entity \<Rightarrow> fmupd (fst c) entity registry | None \<Rightarrow> fmdrop (fst c) registry)"

definition binding_commit :: "type_policy \<Rightarrow> binding_transaction \<Rightarrow> binding_error + binding_state" where
  "binding_commit policy t =
     (if bt_split t then Inl be_commit_split
      else
        let sec = fold commit_write (fm_entries (bt_block_changes t)) (bs_section (bt_base t))
        in rbind (rfold commit_reference (fm_entries (bt_reference_changes t)) (bs_references (bt_base t))) (\<lambda>references.
           let registry = fold commit_entity (fm_entries (bt_entity_changes t)) (bs_entities (bt_base t));
               entities = map snd (fm_entries registry)
           in binding_new sec references entities policy))"

definition binding_rollback :: "binding_transaction \<Rightarrow> binding_state" where
  "binding_rollback t = bt_base t"

text \<open>The publication cell holds the current state; the write lock makes \<open>publish\<close> one step.\<close>

definition binding_publish ::
    "type_policy \<Rightarrow> binding_transaction \<Rightarrow> binding_state \<Rightarrow>
     (binding_error + binding_state) \<times> binding_state" where
  "binding_publish policy t current =
     (if current \<noteq> bt_base t then (Inl be_commit_split, current)
      else (case binding_commit policy t of
              Inl e \<Rightarrow> (Inl e, current)
            | Inr next_state \<Rightarrow> (Inr next_state, next_state)))"

section \<open>What validation means\<close>

text \<open>
  The contract the four loops of \<open>validate\<close> implement: exactly the cells whose block type asks
  for an entity are bound, each to a live entity of the type the policy names, and each entity is
  bound to exactly one cell.
\<close>

definition binding_wf :: "type_policy \<Rightarrow> binding_state \<Rightarrow> bool" where
  "binding_wf policy s \<longleftrightarrow>
     (\<forall>off. fm_has (bs_references s) off \<longleftrightarrow>
        off \<le> CELL_OFFSET_MAX \<and> requires_entity policy (block_id_type (storage_read (bs_section s) off))) \<and>
     (\<forall>off i. fmlookup (bs_references s) off = Some i \<longrightarrow>
        (\<exists>e. fmlookup (bs_entities s) i = Some e \<and> er_alive e \<and>
           policy (block_id_type (storage_read (bs_section s) off)) = Some (er_entity_type e))) \<and>
     (\<forall>i. fm_has (bs_entities s) i \<longrightarrow> (\<exists>!off. fmlookup (bs_references s) off = Some i))"

lemma shape_iff:
  "table_validate_shape t = Inr () \<longleftrightarrow> (\<forall>off. fm_has t off \<longrightarrow> off \<le> CELL_OFFSET_MAX)"
  unfolding table_validate_shape_def rfold_unit_iff
  by (auto simp: cell_offset_new_def result_iff fmlookup_dom_iff not_less simp del: CELL_OFFSET_MAX_def
      split: if_splits)

lemma check_reference_iff:
  "check_reference policy s (off, i) () = Inr () \<longleftrightarrow>
     (\<exists>e. fmlookup (bs_entities s) i = Some e \<and> er_alive e \<and>
        policy (block_id_type (storage_read (bs_section s) off)) = Some (er_entity_type e))"
  by (auto simp: check_reference_def split: option.splits)

lemma cell_offset_of_nat: "n < 4096 \<Longrightarrow> cell_offset_new (of_nat n) = Inr (of_nat n)"
  by (simp add: cell_offset_new_def word_less_nat_alt unat_of_nat)

lemma check_cell_iff:
  "n < 4096 \<Longrightarrow> check_cell policy s n () = Inr () \<longleftrightarrow>
     (fm_has (bs_references s) (of_nat n) \<longleftrightarrow>
      requires_entity policy (block_id_type (storage_read (bs_section s) (of_nat n))))"
  by (auto simp: check_cell_def cell_offset_of_nat Let_def)

lemma check_entity_iff:
  "check_entity s i () = Inr () \<longleftrightarrow> (\<exists>!off. fmlookup (bs_references s) off = Some i)"
proof -
  let ?es = "fm_entries (bs_references s)"
  let ?hits = "filter (\<lambda>(_, r). r = i) ?es"
  have d: "distinct (map fst ?hits)"
    using distinct_fm_entries [of "bs_references s"] by (rule distinct_map_filter)
  have hits: "off \<in> set (map fst ?hits) \<longleftrightarrow> fmlookup (bs_references s) off = Some i" for off
    by (force simp flip: set_fm_entries)
  have "length ?hits = card (set (map fst ?hits))"
    using distinct_card [OF d] by simp
  also have "set (map fst ?hits) = {off. fmlookup (bs_references s) off = Some i}"
    using hits by blast
  finally have "length ?hits = 1 \<longleftrightarrow> (\<exists>x. {off. fmlookup (bs_references s) off = Some i} = {x})"
    by (simp add: card_1_singleton_iff)
  also have "\<dots> \<longleftrightarrow> (\<exists>!off. fmlookup (bs_references s) off = Some i)"
    by (simp only: set_eq_iff) auto
  finally have "length ?hits = 1 \<longleftrightarrow> (\<exists>!off. fmlookup (bs_references s) off = Some i)" .
  then show ?thesis by (simp add: check_entity_def Let_def)
qed

lemma all_cells_iff:
  "(\<forall>n \<in> set [0..<4096]. P (of_nat n :: cell_offset)) \<longleftrightarrow> (\<forall>off. off \<le> CELL_OFFSET_MAX \<longrightarrow> P off)"
proof -
  have "off \<le> CELL_OFFSET_MAX \<longleftrightarrow> unat off < 4096" for off :: cell_offset
    by (simp only: offset_max_iff)
  moreover have "P off" if "\<forall>n < 4096. P (of_nat n)" "unat off < 4096" for off
    using that(1) [rule_format, OF that(2)] by simp
  moreover have "unat (of_nat n :: cell_offset) < 4096" if "n < 4096" for n
    using that by (simp add: unat_of_nat_cell)
  ultimately show ?thesis by (metis atLeastLessThan_upt atLeast0LessThan lessThan_iff)
qed

lemma validate_iff: "binding_validate policy s = Inr () \<longleftrightarrow> binding_wf policy s"
proof -
  let ?need = "\<lambda>off. requires_entity policy (block_id_type (storage_read (bs_section s) off))"
  have refs: "rfold (check_reference policy s) (fm_entries (bs_references s)) () = Inr () \<longleftrightarrow>
      (\<forall>off i. fmlookup (bs_references s) off = Some i \<longrightarrow>
        (\<exists>e. fmlookup (bs_entities s) i = Some e \<and> er_alive e \<and>
           policy (block_id_type (storage_read (bs_section s) off)) = Some (er_entity_type e)))"
    unfolding rfold_unit_iff
    by (auto simp: check_reference_iff simp flip: set_fm_entries dest!: bspec)
  have "rfold (check_cell policy s) [0..<SECTION_CELLS] () = Inr () \<longleftrightarrow>
      (\<forall>n \<in> set [0..<4096]. fm_has (bs_references s) (of_nat n) = ?need (of_nat n))"
    unfolding rfold_unit_iff by (auto simp: check_cell_iff)
  also have "\<dots> \<longleftrightarrow> (\<forall>off. off \<le> CELL_OFFSET_MAX \<longrightarrow> fm_has (bs_references s) off = ?need off)"
    by (rule all_cells_iff)
  finally have cells: "rfold (check_cell policy s) [0..<SECTION_CELLS] () = Inr () \<longleftrightarrow>
      (\<forall>off. off \<le> CELL_OFFSET_MAX \<longrightarrow> fm_has (bs_references s) off = ?need off)" .
  have ents: "rfold (check_entity s) (fm_keys (bs_entities s)) () = Inr () \<longleftrightarrow>
      (\<forall>i. fm_has (bs_entities s) i \<longrightarrow> (\<exists>!off. fmlookup (bs_references s) off = Some i))"
    unfolding rfold_unit_iff by (simp only: check_entity_iff set_fm_keys Ball_def fm_has_iff)
  have "binding_validate policy s = Inr () \<longleftrightarrow>
      table_validate_shape (bs_references s) = Inr () \<and>
      rfold (check_reference policy s) (fm_entries (bs_references s)) () = Inr () \<and>
      rfold (check_cell policy s) [0..<SECTION_CELLS] () = Inr () \<and>
      rfold (check_entity s) (fm_keys (bs_entities s)) () = Inr ()"
    unfolding binding_validate_def rbind_eq_Inr by simp
  moreover have "(\<forall>off. fm_has (bs_references s) off \<longrightarrow> off \<le> CELL_OFFSET_MAX) \<and>
      (\<forall>off. off \<le> CELL_OFFSET_MAX \<longrightarrow> fm_has (bs_references s) off = ?need off) \<longleftrightarrow>
      (\<forall>off. fm_has (bs_references s) off \<longleftrightarrow> off \<le> CELL_OFFSET_MAX \<and> ?need off)"
    by blast
  ultimately show ?thesis
    unfolding shape_iff refs cells ents binding_wf_def by argo
qed

section \<open>What a commit does\<close>

definition entities_keyed :: "binding_state \<Rightarrow> bool" where
  "entities_keyed s \<longleftrightarrow> (\<forall>i e. fmlookup (bs_entities s) i = Some e \<longrightarrow> er_id e = i \<and> i \<noteq> [])"

lemma register_all:
  "rfold register_entity es m = Inr r \<longleftrightarrow>
     (\<forall>e \<in> set es. er_id e \<noteq> [] \<and> \<not> fm_has m (er_id e)) \<and> distinct (map er_id es) \<and>
     r = fold (\<lambda>e m. fmupd (er_id e) e m) es m"
  by (induction es arbitrary: m) (auto simp: register_entity_def)

text \<open>Iterating over a map of optional changes overlays them.\<close>

definition overlay :: "('k, 'v) fmap \<Rightarrow> ('k, 'v option) fmap \<Rightarrow> 'k \<Rightarrow> 'v option" where
  "overlay base changes k = (case fmlookup changes k of Some c \<Rightarrow> c | None \<Rightarrow> fmlookup base k)"

lemma overlay_fold:
  assumes "\<And>c m k. fmlookup (step c m) k = (if k = fst c then snd c else fmlookup m k)"
  shows "fmlookup (fold step (fm_entries changes) base) k = overlay base changes k"
proof -
  have "fmlookup (fold step cs m) k = (case map_of (rev cs) k of Some c \<Rightarrow> c | None \<Rightarrow> fmlookup m k)" for cs m
    by (induction cs arbitrary: m) (auto simp: assms map_add_def split: option.splits)
  then show ?thesis
    by (simp add: overlay_def map_of_rev_distinct distinct_fm_entries map_of_fm_entries)
qed

lemma commit_reference_ok:
  "rfold commit_reference cs m =
     (if \<exists>c \<in> set cs. snd c = Some [] then Inl be_not_sparse
      else Inr (fold (\<lambda>c m. case snd c of Some i \<Rightarrow> fmupd (fst c) i (fmdrop (fst c) m) | None \<Rightarrow> fmdrop (fst c) m) cs m))"
  by (induction cs arbitrary: m)
    (auto simp: commit_reference_def table_insert_def table_remove_def split: option.splits)

text \<open>The composition a transaction asks for, before it is validated.\<close>

definition composed :: "binding_transaction \<Rightarrow> binding_state \<Rightarrow> bool" where
  "composed t s \<longleftrightarrow>
     (\<forall>off. off \<le> CELL_OFFSET_MAX \<longrightarrow> storage_read (bs_section s) off =
        (case fmlookup (bt_block_changes t) off of Some b \<Rightarrow> b
         | None \<Rightarrow> storage_read (bs_section (bt_base t)) off)) \<and>
     (\<forall>off. fmlookup (bs_references s) off = overlay (bs_references (bt_base t)) (bt_reference_changes t) off) \<and>
     (\<forall>i. fmlookup (bs_entities s) i = overlay (bs_entities (bt_base t)) (bt_entity_changes t) i)"

definition tx_ok :: "binding_transaction \<Rightarrow> bool" where
  "tx_ok t \<longleftrightarrow> storage_wf (bs_section (bt_base t)) \<and> entities_keyed (bt_base t) \<and>
     (\<forall>off b. fmlookup (bt_block_changes t) off = Some b \<longrightarrow> off \<le> CELL_OFFSET_MAX) \<and>
     (\<forall>i e. fmlookup (bt_entity_changes t) i = Some (Some e) \<longrightarrow> er_id e = i)"

lemma commit_writes:
  assumes "storage_wf s" "\<And>off b. fmlookup m off = Some b \<Longrightarrow> off \<le> CELL_OFFSET_MAX"
  shows "storage_wf (fold commit_write (fm_entries m) s) \<and>
    (\<forall>off. off \<le> CELL_OFFSET_MAX \<longrightarrow> storage_read (fold commit_write (fm_entries m) s) off =
       (case fmlookup m off of Some b \<Rightarrow> b | None \<Rightarrow> storage_read s off))"
proof -
  let ?es = "map (\<lambda>(off, b). (unat off, b)) (fm_entries m)"
  have all: "section_store.wr_all ?es s = fold commit_write (fm_entries m) s"
    unfolding section_store.wr_all_def
    by (simp add: fold_map commit_write_def [abs_def] comp_def case_prod_unfold)
  have bound: "\<forall>e \<in> set ?es. fst e < cell_count"
    using assms(2) by (auto simp: set_fm_entries simp flip: offset_max_iff simp del: CELL_OFFSET_MAX_def)
  have look: "map_of (rev ?es) (unat off) = fmlookup m off" for off
  proof -
    have "map fst ?es = map unat (map fst (fm_entries m))" by (simp add: case_prod_unfold)
    moreover have "distinct (map unat (map fst (fm_entries m)))"
      using distinct_fm_entries [of m]
      by (subst distinct_map) (auto intro: inj_onI unsigned_word_eqI)
    ultimately have "distinct (map fst ?es)" by (simp only:)
    then have "map_of (rev ?es) = map_of ?es" by (rule map_of_rev_distinct)
    moreover have "map_of (map (\<lambda>(off, b). (unat off, b)) kvs) (unat off) = map_of kvs off" for kvs :: "(cell_offset \<times> block_id) list"
      by (induction kvs) (auto dest!: unsigned_word_eqI)
    ultimately show ?thesis by (simp add: map_of_fm_entries)
  qed
  have "storage_read (fold commit_write (fm_entries m) s) off =
      (case fmlookup m off of Some b \<Rightarrow> b | None \<Rightarrow> storage_read s off)" if "off \<le> CELL_OFFSET_MAX" for off
    using section_store.rd_wr_all [OF assms(1) bound, of "unat off"] that
    by (simp add: all look offset_max_iff del: CELL_OFFSET_MAX_def split: option.splits)
  with section_store.wr_all_inv [OF assms(1) bound] show ?thesis by (simp add: all)
qed

lemma register_values:
  assumes "\<And>i e. fmlookup r i = Some e \<Longrightarrow> er_id e = i"
  shows "rfold register_entity (map snd (fm_entries r)) fmempty =
      Inr r \<longleftrightarrow> \<not> fm_has r []"
    and "rfold register_entity (map snd (fm_entries r)) fmempty = Inr r' \<Longrightarrow> r' = r"
proof -
  let ?es = "map snd (fm_entries r)"
  have keys: "map er_id ?es = map fst (fm_entries r)"
    using assms by (auto simp: set_fm_entries)
  then have dist: "distinct (map er_id ?es)" by (simp add: map_fst_fm_entries)
  have "fold (\<lambda>e m. fmupd (er_id e) e m) ?es fmempty = fold (\<lambda>kv m. fmupd (fst kv) (snd kv) m) (fm_entries r) fmempty"
    unfolding fold_map using assms by (intro fold_cong) (auto simp: set_fm_entries)
  also have "\<dots> = r" by (simp add: fold_fm_entries)
  finally have f: "fold (\<lambda>e m. fmupd (er_id e) e m) ?es fmempty = r" .
  have "(\<forall>e \<in> set ?es. er_id e \<noteq> [] \<and> \<not> fm_has fmempty (er_id e)) \<longleftrightarrow> \<not> fm_has r []"
    using assms by (force simp flip: set_fm_entries)
  then show "rfold register_entity ?es fmempty = Inr r \<longleftrightarrow> \<not> fm_has r []"
    using dist f by (simp add: register_all)
  show "r' = r" if "rfold register_entity ?es fmempty = Inr r'"
    using that f by (simp only: register_all)
qed

definition names_ok :: "binding_transaction \<Rightarrow> bool" where
  "names_ok t \<longleftrightarrow> (\<forall>off. fmlookup (bt_reference_changes t) off \<noteq> Some (Some [])) \<and>
     (\<forall>e. fmlookup (bt_entity_changes t) [] \<noteq> Some (Some e))"

text \<open>The state that \<open>commit\<close> hands to \<open>BindingState::new\<close>.\<close>

definition target :: "binding_transaction \<Rightarrow> binding_state" where
  "target t =
     \<lparr>bs_section = fold commit_write (fm_entries (bt_block_changes t)) (bs_section (bt_base t)),
      bs_references = fold (\<lambda>c m. case snd c of Some i \<Rightarrow> fmupd (fst c) i (fmdrop (fst c) m) | None \<Rightarrow> fmdrop (fst c) m)
        (fm_entries (bt_reference_changes t)) (bs_references (bt_base t)),
      bs_entities = fold commit_entity (fm_entries (bt_entity_changes t)) (bs_entities (bt_base t))\<rparr>"

lemma target_composed: "tx_ok t \<Longrightarrow> composed t (target t) \<and> storage_wf (bs_section (target t))"
proof -
  assume ok: "tx_ok t"
  then have w: "storage_wf (bs_section (bt_base t))"
    "\<And>off b. fmlookup (bt_block_changes t) off = Some b \<Longrightarrow> off \<le> CELL_OFFSET_MAX"
    by (simp_all add: tx_ok_def)
  have refs: "fmlookup (bs_references (target t)) off = overlay (bs_references (bt_base t)) (bt_reference_changes t) off" for off
    unfolding target_def binding_state.simps by (rule overlay_fold) (auto split: option.splits)
  have ents: "fmlookup (bs_entities (target t)) i = overlay (bs_entities (bt_base t)) (bt_entity_changes t) i" for i
    unfolding target_def binding_state.simps
    by (rule overlay_fold) (auto simp: commit_entity_def split: option.splits)
  from commit_writes [OF w] refs ents show ?thesis
    by (simp add: composed_def target_def)
qed

lemma target_keyed:
  assumes "tx_ok t" "fmlookup (bs_entities (target t)) i = Some e"
  shows "er_id e = i \<and> (names_ok t \<longrightarrow> i \<noteq> [])"
proof -
  have "overlay (bs_entities (bt_base t)) (bt_entity_changes t) i = Some e"
    using target_composed [OF assms(1)] assms(2) by (simp add: composed_def)
  with assms(1) show ?thesis
    by (auto simp: overlay_def tx_ok_def entities_keyed_def names_ok_def split: option.splits)
qed

lemma target_unnamed:
  assumes "tx_ok t"
  shows "fm_has (bs_entities (target t)) [] \<longleftrightarrow> (\<exists>e. fmlookup (bt_entity_changes t) [] = Some (Some e))"
proof -
  have "fmlookup (bs_entities (target t)) [] = overlay (bs_entities (bt_base t)) (bt_entity_changes t) []"
    using target_composed [OF assms] by (simp add: composed_def)
  moreover have "fmlookup (bs_entities (bt_base t)) [] = None"
    using assms by (cases "fmlookup (bs_entities (bt_base t)) []") (auto simp: tx_ok_def entities_keyed_def)
  ultimately show ?thesis by (auto simp: overlay_def split: option.splits)
qed

lemma commit_Inr_iff:
  assumes "tx_ok t"
  shows "binding_commit policy t = Inr s \<longleftrightarrow>
     \<not> bt_split t \<and> names_ok t \<and> s = target t \<and> binding_wf policy (target t)"
proof -
  let ?r = "bs_entities (target t)"
  have empty_ref: "(\<exists>c \<in> set (fm_entries (bt_reference_changes t)). snd c = Some []) \<longleftrightarrow>
      (\<exists>off. fmlookup (bt_reference_changes t) off = Some (Some []))"
    by (force simp flip: set_fm_entries)
  have keyed: "\<And>i e. fmlookup ?r i = Some e \<Longrightarrow> er_id e = i" using target_keyed [OF assms] by blast
  have new: "binding_new (bs_section (target t)) (bs_references (target t)) (map snd (fm_entries ?r)) policy = Inr s \<longleftrightarrow>
      \<not> fm_has ?r [] \<and> s = target t \<and> binding_wf policy (target t)"
  proof -
    have "rfold register_entity (map snd (fm_entries ?r)) fmempty = Inr x \<longleftrightarrow> \<not> fm_has ?r [] \<and> x = ?r" for x
      using register_values(1) [of ?r, OF keyed] register_values(2) [of ?r x, OF keyed] by metis
    then have "binding_new (bs_section (target t)) (bs_references (target t)) (map snd (fm_entries ?r)) policy = Inr s \<longleftrightarrow>
        \<not> fm_has ?r [] \<and> s = \<lparr>bs_section = bs_section (target t), bs_references = bs_references (target t),
          bs_entities = ?r\<rparr> \<and> binding_wf policy \<lparr>bs_section = bs_section (target t),
          bs_references = bs_references (target t), bs_entities = ?r\<rparr>"
      unfolding binding_new_def rbind_eq_Inr Let_def validate_iff [symmetric] by auto
    moreover have rec: "\<lparr>bs_section = bs_section (target t), bs_references = bs_references (target t),
        bs_entities = ?r\<rparr> = target t" by simp
    ultimately show ?thesis by (simp only: rec)
  qed
  show ?thesis
  proof (cases "\<exists>off. fmlookup (bt_reference_changes t) off = Some (Some [])")
    case True
    then show ?thesis
      by (simp add: binding_commit_def commit_reference_ok empty_ref names_ok_def Let_def)
  next
    case False
    then have "binding_commit policy t = (if bt_split t then Inl be_commit_split
        else binding_new (bs_section (target t)) (bs_references (target t)) (map snd (fm_entries ?r)) policy)"
      by (simp add: binding_commit_def commit_reference_ok empty_ref Let_def target_def)
    with False new target_unnamed [OF assms] show ?thesis by (auto simp: names_ok_def)
  qed
qed

section \<open>Histories of bindings\<close>

text \<open>
  The transactions a client can build on a base (offsets are \<open>CellOffset\<close> values), and the states
  a publication cell passes through when such transactions are published.
\<close>

inductive tx_built :: "binding_state \<Rightarrow> binding_transaction \<Rightarrow> bool" where
  tx_begin: "tx_built base (binding_begin base)"
| tx_block: "tx_built base t \<Longrightarrow> off \<le> CELL_OFFSET_MAX \<Longrightarrow> tx_built base (set_block_commit c off b t)"
| tx_reference: "tx_built base t \<Longrightarrow> off \<le> CELL_OFFSET_MAX \<Longrightarrow> tx_built base (set_reference_commit c off i t)"
| tx_reference_removed: "tx_built base t \<Longrightarrow> off \<le> CELL_OFFSET_MAX \<Longrightarrow>
    tx_built base (set_reference_removed_commit c off t)"
| tx_entity: "tx_built base t \<Longrightarrow> tx_built base (set_entity_commit c e t)"
| tx_entity_removed: "tx_built base t \<Longrightarrow> tx_built base (set_entity_removed_commit c i t)"

lemma tx_place: "tx_built base t \<Longrightarrow> off \<le> CELL_OFFSET_MAX \<Longrightarrow> tx_built base (binding_place off b e t)"
  unfolding binding_place_def Let_def
  by (auto intro: tx_built.intros split: option.splits simp del: CELL_OFFSET_MAX_def)

lemma tx_remove: "tx_built base t \<Longrightarrow> off \<le> CELL_OFFSET_MAX \<Longrightarrow> tx_built base (binding_remove off b t)"
  unfolding binding_remove_def Let_def
  by (auto intro: tx_built.intros split: option.splits simp del: CELL_OFFSET_MAX_def)

lemma observe_commit_simps [simp]:
  "bt_base (observe_commit c t) = bt_base t" "bt_block_changes (observe_commit c t) = bt_block_changes t"
  "bt_reference_changes (observe_commit c t) = bt_reference_changes t"
  "bt_entity_changes (observe_commit c t) = bt_entity_changes t"
  by (simp_all add: observe_commit_def split: option.splits)

lemma tx_built_base: "tx_built base t \<Longrightarrow> bt_base t = base"
  by (induction rule: tx_built.induct)
    (simp_all add: binding_begin_def set_block_commit_def set_reference_commit_def
      set_reference_removed_commit_def set_entity_commit_def set_entity_removed_commit_def Let_def)

lemma tx_built_ok:
  assumes "tx_built base t" "storage_wf (bs_section base)" "entities_keyed base"
  shows "tx_ok t"
  using assms
proof (induction rule: tx_built.induct)
  case (tx_begin base)
  then show ?case by (simp add: tx_ok_def binding_begin_def)
qed (simp_all add: tx_ok_def set_block_commit_def set_reference_commit_def
    set_reference_removed_commit_def set_entity_commit_def set_entity_removed_commit_def Let_def
    del: CELL_OFFSET_MAX_def split: if_splits)

inductive binding_reach :: "type_policy \<Rightarrow> binding_state \<Rightarrow> bool" for policy where
  binding_start: "binding_new sec references entities policy = Inr s \<Longrightarrow> storage_wf sec \<Longrightarrow> binding_reach policy s"
| binding_step: "binding_reach policy s \<Longrightarrow> binding_reach policy base \<Longrightarrow> tx_built base t \<Longrightarrow>
    binding_publish policy t s = (r, s') \<Longrightarrow> binding_reach policy s'"

definition binding_sound :: "type_policy \<Rightarrow> binding_state \<Rightarrow> bool" where
  "binding_sound policy s \<longleftrightarrow> binding_wf policy s \<and> storage_wf (bs_section s) \<and> entities_keyed s"

lemma register_keyed:
  "rfold register_entity es m = Inr r \<Longrightarrow> (\<And>i e. fmlookup m i = Some e \<Longrightarrow> er_id e = i \<and> i \<noteq> []) \<Longrightarrow>
   fmlookup r i = Some e \<Longrightarrow> er_id e = i \<and> i \<noteq> []"
proof (induction es arbitrary: m)
  case Nil
  then show ?case by simp
next
  case (Cons x es)
  from Cons.prems(1) have x: "er_id x \<noteq> []" "rfold register_entity es (fmupd (er_id x) x m) = Inr r"
    by (auto simp: register_entity_def [of x] result_iff split: if_splits)
  show ?case
    by (rule Cons.IH [OF x(2) _ Cons.prems(3)]) (use x(1) Cons.prems(2) in \<open>auto split: if_splits\<close>)
qed

lemma binding_new_sound:
  assumes "binding_new sec references entities policy = Inr s" "storage_wf sec"
  shows "binding_sound policy s"
proof -
  from assms(1) obtain r where r: "rfold register_entity entities fmempty = Inr r"
    and s: "s = \<lparr>bs_section = sec, bs_references = references, bs_entities = r\<rparr>" "binding_wf policy s"
    by (auto simp: binding_new_def result_iff Let_def validate_iff)
  then show ?thesis
    using assms(2) register_keyed [OF r] by (simp add: binding_sound_def entities_keyed_def)
qed

lemma commit_sound:
  assumes "tx_ok t" "binding_commit policy t = Inr s"
  shows "binding_sound policy s"
  using assms target_composed [OF assms(1)] target_keyed [OF assms(1)]
  by (auto simp: commit_Inr_iff binding_sound_def entities_keyed_def)

lemma binding_reach_sound: "binding_reach policy s \<Longrightarrow> binding_sound policy s"
proof (induction rule: binding_reach.induct)
  case binding_start
  then show ?case by (rule binding_new_sound)
next
  case (binding_step s base t r s')
  then have "tx_ok t" by (auto intro: tx_built_ok simp: binding_sound_def)
  with binding_step show ?case
    by (auto simp: binding_publish_def split: if_splits sum.splits intro: commit_sound)
qed

section \<open>Wire format\<close>

definition table_ok :: "reference_table \<Rightarrow> bool" where
  "table_ok t \<longleftrightarrow> (\<forall>off i. fmlookup t off = Some i \<longrightarrow> off \<le> CELL_OFFSET_MAX \<and> i \<noteq> [] \<and> str_ok i)"

definition row_bytes :: "cell_offset \<times> net_entity_id \<Rightarrow> u8 list" where
  "row_bytes e = le_bytes 2 (fst e) @ le_bytes 2 (of_nat (length (snd e)) :: u16) @ str_bytes (snd e)"

definition wire_bytes :: "reference_table \<Rightarrow> u8 list" where
  "wire_bytes t = le_bytes 2 (of_nat (fm_len t) :: u16) @ concat (map row_bytes (fm_entries t))"

lemma wire_rows:
  "rfold wire_row es bs = (if \<forall>e \<in> set es. length (snd e) \<le> 65535 then Inr (bs @ concat (map row_bytes es))
     else Inl be_not_sparse)"
  by (induction es arbitrary: bs) (auto simp: wire_row_def u16_try_from_def row_bytes_def Let_def)

lemma table_size: "(\<And>off. fm_has t off \<Longrightarrow> off \<le> CELL_OFFSET_MAX) \<Longrightarrow> fm_len t \<le> 4096"
proof -
  assume bound: "\<And>off. fm_has t off \<Longrightarrow> off \<le> CELL_OFFSET_MAX"
  have "unat ` fset (fmdom t) \<subseteq> {..<4096}"
    using bound by (auto simp: fmlookup_dom_iff offset_max_iff simp del: CELL_OFFSET_MAX_def)
  then have "card (unat ` fset (fmdom t)) \<le> 4096"
    using card_mono [of "{..<4096}" "unat ` fset (fmdom t)"] by simp
  moreover have "card (unat ` fset (fmdom t)) = fm_len t"
    unfolding fm_len_def fcard.rep_eq by (intro card_image inj_onI unsigned_word_eqI)
  ultimately show ?thesis by simp
qed

lemma table_ok_size: "table_ok t \<Longrightarrow> fm_len t \<le> 4096"
  by (rule table_size) (auto simp: table_ok_def)

lemma to_wire_Inr_iff:
  assumes "table_ok t"
  shows "to_wire_bytes t = (if \<forall>off i. fmlookup t off = Some i \<longrightarrow> length i \<le> 65535
     then Inr (wire_bytes t) else Inl be_not_sparse)"
proof -
  have "(\<forall>e \<in> set (fm_entries t). length (snd e) \<le> 65535) \<longleftrightarrow>
      (\<forall>off i. fmlookup t off = Some i \<longrightarrow> length i \<le> 65535)"
    by (force simp flip: set_fm_entries)
  then show ?thesis
    using table_ok_size [OF assms]
    by (simp add: to_wire_bytes_def u16_try_from_def wire_rows wire_bytes_def)
qed

lemma read_u16_at: "drop cursor bytes = le_bytes 2 w @ rest \<Longrightarrow> read_u16 bytes cursor = Inr (w, cursor + 2)"
proof -
  assume d: "drop cursor bytes = le_bytes 2 w @ rest"
  then have "length (drop cursor bytes) = 2 + length rest" by simp
  then have "cursor + 2 \<le> length bytes" by simp
  with d show ?thesis by (simp add: read_u16_def)
qed

lemma drop_step: "drop n xs = ys @ zs \<Longrightarrow> drop (n + length ys) xs = zs"
  by (metis add.commute append_eq_conv_conj drop_drop)

lemma wire_entry_at:
  assumes d: "drop cursor bytes = row_bytes e @ rest"
    and e: "fst e \<le> CELL_OFFSET_MAX" "snd e \<noteq> []" "str_ok (snd e)" "length (snd e) \<le> 65535"
    and new: "\<not> fm_has t (fst e)"
  shows "wire_entry bytes (cursor, t) = Inr (cursor + length (row_bytes e), fmupd (fst e) (snd e) t)"
proof -
  let ?len = "of_nat (length (snd e)) :: u16"
  have len: "unat ?len = length (snd e)" using e(4) by (simp add: unat_of_nat)
  have 1: "read_u16 bytes cursor = Inr (fst e, cursor + 2)"
    using d by (intro read_u16_at) (simp add: row_bytes_def)
  have d2: "drop (cursor + 2) bytes = le_bytes 2 ?len @ str_bytes (snd e) @ rest"
    using drop_step [of cursor bytes "le_bytes 2 (fst e)"] d by (simp add: row_bytes_def)
  have 2: "read_u16 bytes (cursor + 2) = Inr (?len, cursor + 4)"
    using read_u16_at [OF d2] by simp
  have d3: "drop (cursor + 4) bytes = str_bytes (snd e) @ rest"
    using drop_step [OF d2] by (simp only: length_le_bytes add.assoc) simp
  have fits: "cursor + 4 + length (snd e) \<le> length bytes"
  proof -
    have "length (drop (cursor + 4) bytes) = length (snd e) + length rest" using d3 by simp
    moreover have "snd e \<noteq> []" by (rule e(2))
    ultimately show ?thesis by (cases "snd e") auto
  qed
  have "cell_offset_new (fst e) = Inr (fst e)"
    using e(1) by (simp add: cell_offset_new_def not_less del: CELL_OFFSET_MAX_def)
  then show ?thesis
    using 1 2 d3 fits e(2,3) new
    by (simp add: wire_entry_def len table_insert_def from_utf8_str row_bytes_def Let_def)
qed

lemma wire_entries_at:
  assumes "drop cursor bytes = concat (map row_bytes es) @ rest" "distinct (map fst es)"
    and "\<forall>e \<in> set es. fst e \<le> CELL_OFFSET_MAX \<and> snd e \<noteq> [] \<and> str_ok (snd e) \<and> length (snd e) \<le> 65535"
    and "\<forall>e \<in> set es. \<not> fm_has t (fst e)" "length ns = length es"
  shows "rfold (\<lambda>_. wire_entry bytes) ns (cursor, t) =
    Inr (cursor + length (concat (map row_bytes es)), fold (\<lambda>e m. fmupd (fst e) (snd e) m) es t)"
  using assms
proof (induction es arbitrary: cursor t ns)
  case Nil
  then show ?case by simp
next
  case (Cons e es)
  obtain n ns' where ns: "ns = n # ns'" "length ns' = length es" using Cons.prems(5) by (cases ns) auto
  have step: "wire_entry bytes (cursor, t) = Inr (cursor + length (row_bytes e), fmupd (fst e) (snd e) t)"
    using Cons.prems by (intro wire_entry_at [where rest = "concat (map row_bytes es) @ rest"]) auto
  have "drop (cursor + length (row_bytes e)) bytes = concat (map row_bytes es) @ rest"
    by (rule drop_step) (use Cons.prems(1) in simp)
  then have "rfold (\<lambda>_. wire_entry bytes) ns' (cursor + length (row_bytes e), fmupd (fst e) (snd e) t) =
      Inr (cursor + length (row_bytes e) + length (concat (map row_bytes es)),
        fold (\<lambda>e m. fmupd (fst e) (snd e) m) es (fmupd (fst e) (snd e) t))"
    using Cons.prems ns(2) by (intro Cons.IH) auto
  with step show ?case by (simp add: ns(1) add.assoc)
qed

text \<open>The tables the format can carry: names fit the two length bytes.\<close>

definition wire_ok :: "reference_table \<Rightarrow> bool" where
  "wire_ok t \<longleftrightarrow> table_ok t \<and> (\<forall>off i. fmlookup t off = Some i \<longrightarrow> length i \<le> 65535)"

lemma from_wire_bytes_wire:
  assumes "wire_ok t"
  shows "from_wire_bytes (wire_bytes t) = Inr t"
proof -
  let ?bs = "wire_bytes t"
  let ?n = "of_nat (fm_len t) :: u16"
  have ok: "table_ok t" and short: "\<forall>off i. fmlookup t off = Some i \<longrightarrow> length i \<le> 65535"
    using assms by (simp_all add: wire_ok_def)
  have size: "fm_len t \<le> 4096" using ok by (rule table_ok_size)
  then have n: "unat ?n = fm_len t" by (simp add: unat_of_nat)
  have r: "read_u16 ?bs 0 = Inr (?n, 2)"
    using read_u16_at [of 0 ?bs ?n] by (simp add: wire_bytes_def)
  have d: "drop 2 ?bs = concat (map row_bytes (fm_entries t)) @ []"
    by (simp add: wire_bytes_def)
  have "wire_entries ?bs (fm_len t) 2 = Inr (2 + length (concat (map row_bytes (fm_entries t))),
      fold (\<lambda>e m. fmupd (fst e) (snd e) m) (fm_entries t) fmempty)"
    unfolding wire_entries_def
    by (rule wire_entries_at [OF d])
      (use ok short in \<open>auto simp: distinct_fm_entries length_fm_entries set_fm_entries table_ok_def\<close>)
  moreover have "fold (\<lambda>e m. fmupd (fst e) (snd e) m) (fm_entries t) fmempty = t"
    by (simp add: fold_fm_entries)
  moreover have "length ?bs = 2 + length (concat (map row_bytes (fm_entries t)))"
    by (simp add: wire_bytes_def)
  ultimately show ?thesis
    using r n size by (simp add: from_wire_bytes_def validate_wire_bytes_def)
qed

interpretation reference_codec: codec wire_ok wire_bytes from_wire_bytes
  by unfold_locales (simp add: from_wire_bytes_wire)

text \<open>What the decoder accepts is a table the encoder could have been given.\<close>

lemma wire_entry_Inr:
  assumes "wire_entry bytes (cursor, t) = Inr (cursor', t')" "wire_ok t"
  shows "wire_ok t'"
proof -
  from assms(1) obtain off len c i where e: "cell_offset_new off = Inr off" "i \<noteq> []" "str_ok i"
    "take (unat (len :: u16)) (drop c bytes) = str_bytes i" "t' = fmupd off i t"
    by (auto simp: wire_entry_def result_iff Let_def table_insert_def from_utf8_Some cell_offset_new_def
        simp del: CELL_OFFSET_MAX_def split: if_splits)
  have "length i \<le> unat len"
    using arg_cong [OF e(4), of length] by simp
  moreover have "unat len < 2 ^ LENGTH(16)" by (rule unsigned_less)
  ultimately have "length i \<le> 65535" by simp
  moreover have "off \<le> CELL_OFFSET_MAX"
    using e(1) by (simp add: cell_offset_new_def not_less del: CELL_OFFSET_MAX_def split: if_splits)
  ultimately show ?thesis
    using assms(2) e by (simp add: wire_ok_def table_ok_def del: CELL_OFFSET_MAX_def)
qed

lemma from_wire_bytes_sound:
  assumes "from_wire_bytes bytes = Inr t"
  shows "wire_ok t"
proof -
  from assms obtain n c c' where "rfold (\<lambda>_. wire_entry bytes) [0..<n] (c, fmempty) = Inr (c', t)"
    by (auto simp: from_wire_bytes_def wire_entries_def result_iff)
  then have "(\<lambda>(c, t). wire_ok t) (c', t)"
  proof (rule rfold_invariant)
    show "case (c, fmempty) of (c, t) \<Rightarrow> wire_ok t" by (simp add: wire_ok_def table_ok_def)
    show "case v of (c, t) \<Rightarrow> wire_ok t" if "case u of (c, t) \<Rightarrow> wire_ok t" "wire_entry bytes u = Inr v" for u v
      using that wire_entry_Inr by (cases u; cases v) simp
  qed
  then show ?thesis by simp
qed

section \<open>Corner cases\<close>

text \<open>
  A staged removal and the absence of a staged change look the same to \<open>place\<close>: after an entity has
  been moved from one cell to another in the same transaction, placing a different entity on the
  old cell removes the moved entity, while the reference to it stays staged.
\<close>

lemmas staging_defs = set_block_commit_def set_reference_commit_def set_reference_removed_commit_def
  set_entity_commit_def set_entity_removed_commit_def Let_def

lemma place_changes:
  assumes "bound_entity t off = Some prev" "prev \<noteq> er_id e"
  shows "bt_entity_changes (binding_place off b e t) = fmupd prev None (fmupd (er_id e) (Some e) (bt_entity_changes t))"
    "bt_reference_changes (binding_place off b e t) = fmupd off (Some (er_id e)) (bt_reference_changes t)"
  using assms by (simp_all add: binding_place_def staging_defs staged_reference_def)

lemma place_fresh_changes:
  assumes "bound_entity t off = None"
  shows "bt_entity_changes (binding_place off b e t) = fmupd (er_id e) (Some e) (bt_entity_changes t)"
    "bt_reference_changes (binding_place off b e t) = fmupd off (Some (er_id e)) (bt_reference_changes t)"
    "bt_base (binding_place off b e t) = bt_base t"
  using assms by (simp_all add: binding_place_def staging_defs)

lemma place_drops_moved_entity:
  assumes "fmlookup (bs_references base) a = Some (er_id e)" "er_id f \<noteq> er_id e" "a \<noteq> b"
    and "fmlookup (bs_references base) b = None"
  shows "fmlookup (bt_entity_changes (binding_place a bf f
        (binding_place b be e (binding_remove a x (binding_begin base))))) (er_id e) = Some None"
    and "fmlookup (bt_reference_changes (binding_place a bf f
        (binding_place b be e (binding_remove a x (binding_begin base))))) b = Some (Some (er_id e))"
proof -
  let ?r = "binding_remove a x (binding_begin base)"
  have r: "bt_base ?r = base" "bt_reference_changes ?r = fmupd a None fmempty"
    using assms(1) by (simp_all add: binding_remove_def bound_entity_def staged_reference_def binding_begin_def staging_defs)
  have fresh: "bound_entity ?r b = None"
    using assms(3,4) r by (simp add: bound_entity_def staged_reference_def)
  note p = place_fresh_changes [OF fresh, of be e]
  have "bound_entity (binding_place b be e ?r) a = Some (er_id e)"
    using assms(1,3) r p by (simp add: bound_entity_def staged_reference_def)
  from place_changes [OF this, of f bf] assms(2,3) p
  show "fmlookup (bt_entity_changes (binding_place a bf f (binding_place b be e ?r))) (er_id e) = Some None"
    "fmlookup (bt_reference_changes (binding_place a bf f (binding_place b be e ?r))) b = Some (Some (er_id e))"
    by auto
qed

text \<open>
  The byte check for deltas disagrees with the delta decoder at both ends: four bytes pass it and
  are no delta, and the empty delta, which decodes, does not pass.
\<close>

lemma delta_check_accepts_four_bytes:
  "length bytes = 4 \<Longrightarrow> validate_voxel_payload_bytes bytes = Inr () \<and> apply_delta s bytes = Inl encoding_mismatch"
  by (simp add: validate_voxel_payload_bytes_def apply_delta_def)

lemma delta_check_refuses_empty:
  "validate_voxel_payload_bytes [] = Inl be_business_data \<and> apply_delta s [] = Inr s"
  by (simp add: validate_voxel_payload_bytes_def apply_delta_def)

section \<open>Properties\<close>

text \<open>
  C35. Validation decides the binding contract. The loops of \<open>validate\<close> succeed exactly when the bound
  cells are the in-range cells whose block type asks for an entity, each bound to a live entity of
  the type the policy names for it, and every entity of the registry is bound to exactly one cell.
\<close>

theorem binding_validate_decides:
  "binding_validate policy s = Inr () \<longleftrightarrow>
     (\<forall>off. fm_has (bs_references s) off = (off \<le> CELL_OFFSET_MAX \<and>
        policy (block_id_type (storage_read (bs_section s) off)) \<noteq> None)) \<and>
     (\<forall>off. case fmlookup (bs_references s) off of
        None \<Rightarrow> True
      | Some i \<Rightarrow> \<exists>e. fmlookup (bs_entities s) i = Some e \<and> er_alive e \<and>
           policy (block_id_type (storage_read (bs_section s) off)) = Some (er_entity_type e)) \<and>
     (\<forall>i. fmlookup (bs_entities s) i = None \<or> (\<exists>!off. fmlookup (bs_references s) off = Some i))"
proof -
  have case_all: "(\<forall>off i. f off = Some i \<longrightarrow> Q off i) = (\<forall>off. case f off of None \<Rightarrow> True | Some i \<Rightarrow> Q off i)"
    for f :: "cell_offset \<Rightarrow> string option" and Q
    by (auto split: option.splits)
  have disj: "(\<forall>i. fm_has m i \<longrightarrow> R i) = (\<forall>i. fmlookup m i = None \<or> R i)" for m :: "(string, entity_record) fmap" and R
    by (simp only: imp_conv_disj not_not)
  show ?thesis
    unfolding validate_iff binding_wf_def requires_entity_def case_all disj by (rule refl)
qed


text \<open>A chest placed in an empty section.\<close>

definition chest_policy :: type_policy where
  "chest_policy t = (if t = 1000 then Some ''chest'' else None)"

definition chest_tx :: binding_transaction where
  "chest_tx = binding_place 9 256000 (entity_new ''e1'' ''chest'') (binding_begin (binding_empty (StUniform 0)))"

lemma chest_start: "binding_new (StUniform 0) fmempty [] chest_policy = Inr (binding_empty (StUniform 0))"
proof -
  have "block_id_type 0 = 0" by (simp add: block_id_type_def)
  then have "binding_wf chest_policy (binding_empty (StUniform 0))"
    by (simp add: binding_wf_def binding_empty_def requires_entity_def chest_policy_def)
  then have "binding_validate chest_policy (binding_empty (StUniform 0)) = Inr ()"
    by (simp only: validate_iff)
  then show ?thesis by (simp add: binding_new_def binding_empty_def)
qed

lemma chest_reach: "binding_reach chest_policy (binding_empty (StUniform 0))"
  by (rule binding_start [OF chest_start]) simp

lemma chest_built: "tx_built (binding_empty (StUniform 0)) chest_tx"
  unfolding chest_tx_def by (intro tx_place tx_begin) simp

lemma chest_tx_simps:
  "bt_split chest_tx = False" "bt_base chest_tx = binding_empty (StUniform 0)"
  "bt_block_changes chest_tx = fmupd 9 256000 fmempty"
  "bt_reference_changes chest_tx = fmupd 9 (Some ''e1'') fmempty"
  "bt_entity_changes chest_tx = fmupd ''e1'' (Some (entity_new ''e1'' ''chest'')) fmempty"
  by (simp_all add: chest_tx_def binding_place_def binding_begin_def binding_empty_def bound_entity_def
      staged_reference_def commit_id_or_zero_def set_block_commit_def set_reference_commit_def
      set_entity_commit_def observe_commit_def entity_new_def)

lemma chest_target: "binding_wf chest_policy (target chest_tx) \<and> names_ok chest_tx"
proof -
  have ok: "tx_ok chest_tx"
    by (rule tx_built_ok [OF chest_built]) (simp_all add: binding_empty_def entities_keyed_def)
  have types: "block_id_type 0 = 0" "block_id_type 256000 = 1000"
    by (simp_all add: block_id_type_def drop_bit_eq_div)
  from target_composed [OF ok] have c: "composed chest_tx (target chest_tx)" by blast
  then have read: "storage_read (bs_section (target chest_tx)) off = (if off = 9 then 256000 else 0)"
    if "off \<le> CELL_OFFSET_MAX" for off
    using that by (simp add: composed_def chest_tx_simps binding_empty_def)
  from c have refs: "fmlookup (bs_references (target chest_tx)) off = (if off = 9 then Some ''e1'' else None)" for off
    by (simp add: composed_def chest_tx_simps binding_empty_def overlay_def)
  from c have ents: "fmlookup (bs_entities (target chest_tx)) i =
      (if i = ''e1'' then Some (entity_new ''e1'' ''chest'') else None)" for i
    by (simp add: composed_def chest_tx_simps binding_empty_def overlay_def)
  have "(9 :: cell_offset) \<le> CELL_OFFSET_MAX" by simp
  then show ?thesis
    by (auto simp: binding_wf_def refs ents read types requires_entity_def chest_policy_def names_ok_def
        chest_tx_simps entity_new_def simp del: CELL_OFFSET_MAX_def)
qed


text \<open>
  The reference table survives the wire. Encoding succeeds exactly when every name fits 65535
  bytes, and decoding gives back the very table; the decoder accepts only tables whose offsets are
  in range and whose names are non-empty well-formed UTF-8, and re-encoding what it accepted
  always succeeds and decodes to the same table.
\<close>

theorem reference_table_roundtrip:
  "(table_ok t \<longrightarrow> (case to_wire_bytes t of
      Inr bytes \<Rightarrow> from_wire_bytes bytes = Inr t
    | Inl e \<Rightarrow> e = be_not_sparse \<and> (\<exists>off i. fmlookup t off = Some i \<and> 65535 < length i))) \<and>
   (from_wire_bytes wire = Inr u \<longrightarrow> table_ok u \<and>
      (\<exists>bytes. to_wire_bytes u = Inr bytes \<and> from_wire_bytes bytes = Inr u))"
proof (intro conjI impI)
  assume "table_ok t"
  then show "case to_wire_bytes t of
      Inr bytes \<Rightarrow> from_wire_bytes bytes = Inr t
    | Inl e \<Rightarrow> e = be_not_sparse \<and> (\<exists>off i. fmlookup t off = Some i \<and> 65535 < length i)"
    by (auto simp: to_wire_Inr_iff not_le reference_codec.decode_encode wire_ok_def)
next
  assume u: "from_wire_bytes wire = Inr u"
  then have "wire_ok u" by (rule from_wire_bytes_sound)
  then show "table_ok u" "\<exists>bytes. to_wire_bytes u = Inr bytes \<and> from_wire_bytes bytes = Inr u"
    by (auto simp: wire_ok_def to_wire_Inr_iff reference_codec.decode_encode)
qed

theorem reference_table_roundtrip_witness:
  "\<exists>bytes. to_wire_bytes (fmupd 9 ''e1'' fmempty) = Inr bytes \<and>
     from_wire_bytes bytes = Inr (fmupd 9 ''e1'' fmempty)"
proof -
  have "str_ok ''e1''" by code_simp
  then have ok: "table_ok (fmupd 9 ''e1'' fmempty)" by (simp add: table_ok_def)
  then have "to_wire_bytes (fmupd 9 ''e1'' fmempty) = Inr (wire_bytes (fmupd 9 ''e1'' fmempty))"
    by (simp add: to_wire_Inr_iff)
  then show ?thesis using reference_table_roundtrip [of "fmupd 9 ''e1'' fmempty"] ok by simp
qed

end
