(* ===== verification/Page.thy ===== *)
theory Page
  imports Payload
begin

text \<open>
  \<open>section/payload.rs\<close> and \<open>section/slot.rs\<close>: the sealed pages of a published section with their
  optional storage sidecar and identity digests, and the four-state presence slot with its
  transition table.
\<close>

section \<open>Sealed pages\<close>

definition SECTION_PAGE_SCHEMA :: string where
  "SECTION_PAGE_SCHEMA = ''voxel-chunk-page''"

definition PAGE_ENCODINGS :: "string list" where
  "PAGE_ENCODINGS = [''Dense'', ''Sparse'']"

definition COMPRESSION_CODECS :: "string list" where
  "COMPRESSION_CODECS = [''None'', ''Zstd'', ''Lz4'']"

definition V1_ENCODING :: string where "V1_ENCODING = ''Dense''"
definition V1_CODEC :: string where "V1_CODEC = ''None''"

record section_page =
  sp_encoding :: string
  sp_compression :: string
  sp_bytes :: "u8 list"
  sp_declared_digest :: digest

record sealed_page =
  sl_encoding :: string
  sl_compression :: string
  sl_bytes :: "u8 list"
  sl_digest :: digest

record section_payload =
  pl_schema_id :: string
  pl_pages :: "sealed_page list"
  pl_storage :: "storage_state option"
  pl_storage_digest :: "digest option"

definition intern_name :: "string \<Rightarrow> string list \<Rightarrow> section_error + string" where
  "intern_name nm generated = ok_or se_invalid_handle (find (\<lambda>item. item = nm) generated)"

definition seal_page :: "section_page \<Rightarrow> section_error + sealed_page" where
  "seal_page page =
     rbind (intern_name (sp_encoding page) PAGE_ENCODINGS) (\<lambda>encoding.
     rbind (intern_name (sp_compression page) COMPRESSION_CODECS) (\<lambda>compression.
     if encoding \<noteq> V1_ENCODING \<or> compression \<noteq> V1_CODEC then Inl se_invalid_handle
     else let dg = sha256 (sp_bytes page) in
       if dg \<noteq> sp_declared_digest page then Inl se_section_digest_mismatch
       else Inr \<lparr>sl_encoding = encoding, sl_compression = compression,
                 sl_bytes = sp_bytes page, sl_digest = dg\<rparr>))"

definition payload_from_pages_with_storage ::
    "section_page list \<Rightarrow> storage_state option \<Rightarrow> section_error + section_payload" where
  "payload_from_pages_with_storage pages storage =
     rbind (rmap seal_page pages) (\<lambda>sealed.
     if (case storage of
           Some s \<Rightarrow> length sealed \<noteq> 1 \<or> sl_bytes (sealed ! 0) \<noteq> encoded_payload s
         | None \<Rightarrow> False)
     then Inl (se_contract_violation SECTION_ENCODING_MISMATCH)
     else Inr \<lparr>pl_schema_id = SECTION_PAGE_SCHEMA, pl_pages = sealed, pl_storage = storage,
               pl_storage_digest = map_option (\<lambda>_. sl_digest (sealed ! 0)) storage\<rparr>)"

definition payload_from_pages :: "section_page list \<Rightarrow> section_error + section_payload" where
  "payload_from_pages pages = payload_from_pages_with_storage pages None"

definition payload_from_storage :: "storage_state \<Rightarrow> section_error + section_payload" where
  "payload_from_storage s =
     (let bytes = encoded_payload s
      in payload_from_pages_with_storage
           [\<lparr>sp_encoding = ''Dense'', sp_compression = ''None'', sp_bytes = bytes,
             sp_declared_digest = sha256 bytes\<rparr>] (Some s))"

section \<open>Identity digests\<close>

definition page_identity :: "sealed_page \<Rightarrow> u8 list" where
  "page_identity p =
     str_bytes (sl_encoding p) @ [0] @ str_bytes (sl_compression p) @ [0] @
     le_bytes 8 (of_nat (length (sl_bytes p)) :: u64) @ sl_digest p"

definition payload_identity_digest :: "section_payload \<Rightarrow> digest" where
  "payload_identity_digest pl =
     sha256 (str_bytes (pl_schema_id pl) @ le_bytes 8 (of_nat (length (pl_pages pl)) :: u64) @
       concat (map page_identity (pl_pages pl)) @
       (case pl_storage_digest pl of Some d \<Rightarrow> 1 # d | None \<Rightarrow> [0]))"

definition dbg_sealed_page :: "sealed_page \<Rightarrow> string" where
  "dbg_sealed_page p =
     ''SealedPage { encoding: '' @ dbg_quoted (sl_encoding p) @
     '', compression: '' @ dbg_quoted (sl_compression p) @
     '', bytes: '' @ dbg_bytes (sl_bytes p) @ '', digest: '' @ dbg_bytes (sl_digest p) @ '' }''"

definition dbg_section_payload :: "section_payload \<Rightarrow> string" where
  "dbg_section_payload pl =
     ''SectionPayload { schema_id: '' @ dbg_quoted (pl_schema_id pl) @
     '', pages: '' @ dbg_list dbg_sealed_page (pl_pages pl) @
     '', _extent_family: IsolatedCubicExtentFamily }''"

definition payload_replacement_identity_digest :: "section_payload \<Rightarrow> digest" where
  "payload_replacement_identity_digest pl =
     (if pl_storage pl = None then sha256 (str_bytes (dbg_section_payload pl))
      else payload_identity_digest pl)"

definition payload_storage_identity_digest :: "section_payload \<Rightarrow> digest option" where
  "payload_storage_identity_digest pl = pl_storage_digest pl"

section \<open>The presence slot\<close>

datatype section_slot = SlotReady section_payload | SlotUnchanged | SlotPending | SlotUnavailable

definition slot_presence :: "section_slot \<Rightarrow> string" where
  "slot_presence s =
     the (intern_presence (case s of SlotReady _ \<Rightarrow> ''Ready'' | SlotUnchanged \<Rightarrow> ''Unchanged''
                           | SlotPending \<Rightarrow> ''Pending'' | SlotUnavailable \<Rightarrow> ''Unavailable''))"

fun slot_payload :: "section_slot \<Rightarrow> section_payload option" where
  "slot_payload (SlotReady p) = Some p"
| "slot_payload _ = None"

definition slot_intern_presence :: "string \<Rightarrow> section_error + string" where
  "slot_intern_presence nm = ok_or se_invalid_handle (intern_presence nm)"

definition slot_try_convert ::
    "section_slot \<Rightarrow> string \<Rightarrow> section_payload option \<Rightarrow> section_error + section_slot" where
  "slot_try_convert slot presence payload =
     rbind (slot_intern_presence presence) (\<lambda>to.
     let origin = slot_presence slot in
     if origin = to then
       (case payload of
          Some page \<Rightarrow> if to = ''Ready'' then Inr (SlotReady page) else Inl se_invalid_handle
        | None \<Rightarrow> Inr slot)
     else if to = ''Ready'' \<and> payload = None then Inl se_section_unavailable
     else if (origin, to) = (''Unchanged'', ''Pending'') \<and> payload = None then Inr SlotPending
     else if (origin, to) = (''Pending'', ''Ready'') \<and> payload \<noteq> None then Inr (SlotReady (the payload))
     else if (origin, to) = (''Pending'', ''Unavailable'') \<and> payload = None then Inr SlotUnavailable
     else if (origin, to) = (''Pending'', ''Unchanged'') \<and> payload = None then Inr SlotUnchanged
     else if (origin, to) = (''Ready'', ''Unchanged'') \<and> payload = None then Inr SlotUnchanged
     else if (origin, to) = (''Unavailable'', ''Pending'') \<and> payload = None then Inr SlotPending
     else if (origin, to) = (''Unavailable'', ''Unchanged'') \<and> payload = None then Inr SlotUnchanged
     else if (origin, to) = (''Unavailable'', ''Ready'') \<or> (origin, to) = (''Unchanged'', ''Ready'')
     then Inl se_section_unavailable
     else Inl se_invalid_handle)"

section \<open>Facts\<close>

text \<open>What sealing guarantees of a payload.\<close>

definition page_ok :: "sealed_page \<Rightarrow> bool" where
  "page_ok p \<longleftrightarrow> sl_encoding p = ''Dense'' \<and> sl_compression p = ''None'' \<and> sl_digest p = sha256 (sl_bytes p)"

definition payload_ok :: "section_payload \<Rightarrow> bool" where
  "payload_ok pl \<longleftrightarrow>
     pl_schema_id pl = SECTION_PAGE_SCHEMA \<and> list_all page_ok (pl_pages pl) \<and>
     (case pl_storage pl of
        None \<Rightarrow> pl_storage_digest pl = None
      | Some s \<Rightarrow> pl_storage_digest pl = Some (sha256 (encoded_payload s)) \<and>
          map sl_bytes (pl_pages pl) = [encoded_payload s])"

lemma seal_page_Inr:
  "seal_page page = Inr sealed \<longleftrightarrow>
     sp_encoding page = ''Dense'' \<and> sp_compression page = ''None'' \<and>
     sp_declared_digest page = sha256 (sp_bytes page) \<and>
     sealed = \<lparr>sl_encoding = ''Dense'', sl_compression = ''None'', sl_bytes = sp_bytes page,
               sl_digest = sha256 (sp_bytes page)\<rparr>"
  by (auto simp: seal_page_def intern_name_def PAGE_ENCODINGS_def COMPRESSION_CODECS_def
      V1_ENCODING_def V1_CODEC_def Let_def result_iff split: if_splits)

lemma rmap_seal_ok: "rmap seal_page pages = Inr sealed \<Longrightarrow> list_all page_ok sealed"
  by (induction pages arbitrary: sealed) (auto simp: result_iff seal_page_Inr page_ok_def)

lemma payload_from_pages_with_storage_ok:
  assumes "payload_from_pages_with_storage pages storage = Inr pl"
  shows "payload_ok pl" "pl_storage pl = storage"
proof -
  from assms obtain sealed where sealed: "rmap seal_page pages = Inr sealed"
    and ok: "case storage of Some s \<Rightarrow> length sealed = 1 \<and> sl_bytes (sealed ! 0) = encoded_payload s
             | None \<Rightarrow> True"
    and pl: "pl = \<lparr>pl_schema_id = SECTION_PAGE_SCHEMA, pl_pages = sealed, pl_storage = storage,
               pl_storage_digest = map_option (\<lambda>_. sl_digest (sealed ! 0)) storage\<rparr>"
    by (auto simp: payload_from_pages_with_storage_def rbind_eq_Inr split: if_splits option.splits)
  have "list_all page_ok sealed" by (rule rmap_seal_ok [OF sealed])
  with ok show "payload_ok pl" "pl_storage pl = storage"
    by (auto simp: pl payload_ok_def page_ok_def length_Suc_conv split: option.splits)
qed

lemma payload_from_storage_total:
  "payload_from_storage s = Inr
     \<lparr>pl_schema_id = SECTION_PAGE_SCHEMA,
      pl_pages = [\<lparr>sl_encoding = ''Dense'', sl_compression = ''None'', sl_bytes = encoded_payload s,
                   sl_digest = sha256 (encoded_payload s)\<rparr>],
      pl_storage = Some s, pl_storage_digest = Some (sha256 (encoded_payload s))\<rparr>"
  by (simp add: payload_from_storage_def payload_from_pages_with_storage_def Let_def
      seal_page_Inr [THEN iffD2])

lemma slot_presence_simps [simp]:
  "slot_presence (SlotReady p) = ''Ready''"
  "slot_presence SlotUnchanged = ''Unchanged''"
  "slot_presence SlotPending = ''Pending''"
  "slot_presence SlotUnavailable = ''Unavailable''"
  by (simp_all add: slot_presence_def intern_presence_def SECTION_PRESENCE_def)

lemma slot_presence_iff:
  "slot_presence s = ''Ready'' \<longleftrightarrow> (\<exists>p. s = SlotReady p)"
  "slot_presence s = ''Unchanged'' \<longleftrightarrow> s = SlotUnchanged"
  "slot_presence s = ''Pending'' \<longleftrightarrow> s = SlotPending"
  "slot_presence s = ''Unavailable'' \<longleftrightarrow> s = SlotUnavailable"
  by (cases s; simp)+

lemma slot_intern_presence_Inr:
  "slot_intern_presence nm = Inr to \<longleftrightarrow> to = nm \<and> nm \<in> set SECTION_PRESENCE"
  by (auto simp: slot_intern_presence_def intern_presence_def result_iff find_eq_Some split: if_splits)

text \<open>The transition table, one row per target.\<close>

lemma slot_intern_presence_names:
  "slot_intern_presence ''Ready'' = Inr ''Ready''"
  "slot_intern_presence ''Unchanged'' = Inr ''Unchanged''"
  "slot_intern_presence ''Pending'' = Inr ''Pending''"
  "slot_intern_presence ''Unavailable'' = Inr ''Unavailable''"
  by (simp_all add: slot_intern_presence_Inr SECTION_PRESENCE_def)

lemma convert_to_ready:
  "slot_try_convert slot ''Ready'' payload =
     (case (slot, payload) of
        (SlotReady _, None) \<Rightarrow> Inr slot
      | (SlotReady _, Some q) \<Rightarrow> Inr (SlotReady q)
      | (SlotPending, Some q) \<Rightarrow> Inr (SlotReady q)
      | _ \<Rightarrow> Inl se_section_unavailable)"
  by (cases slot; cases payload; simp add: slot_try_convert_def slot_intern_presence_names)

lemma convert_to_other:
  "slot_try_convert slot ''Unchanged'' payload =
     (if payload \<noteq> None then Inl se_invalid_handle else Inr SlotUnchanged)"
  "slot_try_convert slot ''Pending'' payload =
     (if payload \<noteq> None \<or> (\<exists>p. slot = SlotReady p) then Inl se_invalid_handle else Inr SlotPending)"
  "slot_try_convert slot ''Unavailable'' payload =
     (if payload \<noteq> None \<or> (slot \<noteq> SlotPending \<and> slot \<noteq> SlotUnavailable) then Inl se_invalid_handle
      else Inr SlotUnavailable)"
  by (cases slot; cases payload; simp add: slot_try_convert_def slot_intern_presence_names)+

section \<open>Properties\<close>

text \<open>The edges of the presence machine.\<close>

definition presence_edges :: "(string \<times> string) set" where
  "presence_edges =
     {(''Unchanged'', ''Pending''), (''Pending'', ''Ready''), (''Pending'', ''Unavailable''),
      (''Pending'', ''Unchanged''), (''Ready'', ''Unchanged''), (''Unavailable'', ''Pending''),
      (''Unavailable'', ''Unchanged'')}"

text \<open>
  The presence machine: a conversion succeeds exactly along the seven edges or in place; it
  ends in the presence asked for, data enters a slot only with a payload handed over on the way
  to \<open>Ready\<close>, and every other state carries none. A missing section is never turned into data.
\<close>

theorem slot_transitions:
  "slot_try_convert slot nm payload = Inr slot' \<longleftrightarrow>
     nm \<in> set SECTION_PRESENCE \<and> slot_presence slot' = nm \<and>
     (if slot_presence slot = nm
      then (payload = None \<and> slot' = slot \<or> nm = ''Ready'' \<and> payload \<noteq> None \<and> slot_payload slot' = payload)
      else (slot_presence slot, nm) \<in> presence_edges \<and>
        (payload \<noteq> None \<longleftrightarrow> nm = ''Ready'') \<and> slot_payload slot' = payload)"
proof (cases "nm \<in> set SECTION_PRESENCE")
  case False
  then show ?thesis
    by (auto simp: slot_try_convert_def slot_intern_presence_Inr rbind_eq_Inr)
next
  case True
  then consider "nm = ''Ready''" | "nm = ''Unchanged''" | "nm = ''Pending''" | "nm = ''Unavailable''"
    by (auto simp: SECTION_PRESENCE_def)
  then show ?thesis
  proof cases
    case 1
    then show ?thesis
      using True by (cases slot; cases payload; cases slot';
          simp add: convert_to_ready presence_edges_def; blast?)
  next
    case 2
    then show ?thesis
      using True by (cases slot; cases payload; cases slot';
          simp add: convert_to_other presence_edges_def)
  next
    case 3
    then show ?thesis
      using True by (cases slot; cases payload; cases slot';
          simp add: convert_to_other presence_edges_def)
  next
    case 4
    then show ?thesis
      using True by (cases slot; cases payload; cases slot';
          simp add: convert_to_other presence_edges_def)
  qed
qed

text \<open>
  A payload built from storage always succeeds, and any payload that was built at all is
  sealed: each page is dense, uncompressed and carries the digest of its bytes, and a storage
  sidecar is exactly the content of its single page.
\<close>

theorem payload_sealed:
  "(\<exists>pl. payload_from_storage s = Inr pl \<and> pl_storage pl = Some s) \<and>
   (payload_from_pages_with_storage pages storage = Inr pl \<longrightarrow> pl_storage pl = storage \<and> payload_ok pl)"
  using payload_from_storage_total payload_from_pages_with_storage_ok by auto

theorem payload_sealed_witness:
  "\<exists>pl. payload_from_pages_with_storage
     [\<lparr>sp_encoding = ''Dense'', sp_compression = ''None'', sp_bytes = [1, 2],
       sp_declared_digest = sha256 [1, 2]\<rparr>] None = Inr pl \<and> payload_ok pl"
proof -
  have ok: "payload_from_pages_with_storage
     [\<lparr>sp_encoding = ''Dense'', sp_compression = ''None'', sp_bytes = [1, 2],
       sp_declared_digest = sha256 [1, 2]\<rparr>] None =
     Inr \<lparr>pl_schema_id = SECTION_PAGE_SCHEMA,
          pl_pages = [\<lparr>sl_encoding = ''Dense'', sl_compression = ''None'', sl_bytes = [1, 2],
                       sl_digest = sha256 [1, 2]\<rparr>],
          pl_storage = None, pl_storage_digest = None\<rparr>"
    by (simp add: payload_from_pages_with_storage_def seal_page_Inr [THEN iffD2])
  then show ?thesis using payload_sealed by blast
qed

end
