(* ===== verification/Directory.thy ===== *)
theory Directory
  imports Dispatch "HOL-Library.Multiset"
begin

text \<open>
  \<open>section/directory.rs\<close>, \<open>section/delta.rs\<close>, \<open>section/replacement.rs\<close> and
  \<open>section/chunk_record.rs\<close>: the immutable directory of section slots with its builder, the staged
  replacements of a mutation, their digest, and the identity-only chunk record.
\<close>

section \<open>The directory\<close>

type_synonym section_directory = "(section_id, section_slot) fmap"

definition section_key_of :: "string \<Rightarrow> section_error + section_id" where
  "section_key_of raw = map_err SeKey (section_id_parse raw)"

definition directory_lookup :: "section_directory \<Rightarrow> string \<Rightarrow> section_error + section_slot option" where
  "directory_lookup d raw = rbind (section_key_of raw) (\<lambda>i. Inr (fmlookup d i))"

text \<open>\<open>{:?}\<close> of the directory, and the identity bytes built on it.\<close>

definition dbg_section_id :: "section_id \<Rightarrow> string" where
  "dbg_section_id s =
     ''SectionId { x: '' @ dec_int (sint (sid_x s)) @ '', y: '' @ dec_nat (unat (sid_y s)) @
     '', z: '' @ dec_int (sint (sid_z s)) @ '' }''"

definition dbg_section_slot :: "section_slot \<Rightarrow> string" where
  "dbg_section_slot s =
     ''SectionSlot { inner: '' @
     (case s of SlotReady p \<Rightarrow> ''Ready('' @ dbg_section_payload p @ '')''
      | SlotUnchanged \<Rightarrow> ''Unchanged'' | SlotPending \<Rightarrow> ''Pending'' | SlotUnavailable \<Rightarrow> ''Unavailable'')
     @ '' }''"

definition dbg_directory :: "section_directory \<Rightarrow> string" where
  "dbg_directory d =
     ''SectionDirectoryRoot { entries: '' @ dbg_map dbg_section_id dbg_section_slot (fm_entries d) @ '' }''"

definition directory_identity_bytes :: "section_directory \<Rightarrow> u8 list" where
  "directory_identity_bytes d =
     str_bytes (dbg_directory d) @
     concat (map (\<lambda>(i, slot).
       case Option.bind (slot_payload slot) payload_storage_identity_digest of
         Some dg \<Rightarrow> [0] @ str_bytes ''SectionStorageV1'' @ [0] @ str_bytes (section_id_key i) @ [0] @ dg
       | None \<Rightarrow> []) (fm_entries d))"

definition directory_builder_new :: section_directory where
  "directory_builder_new = fmempty"

definition directory_insert ::
    "string \<Rightarrow> section_slot \<Rightarrow> section_directory \<Rightarrow> section_error + section_directory" where
  "directory_insert raw slot d = rbind (section_key_of raw) (\<lambda>i. Inr (fmupd i slot d))"

definition directory_convert ::
    "string \<Rightarrow> string \<Rightarrow> section_payload option \<Rightarrow> section_directory \<Rightarrow>
     section_error + section_directory" where
  "directory_convert raw presence payload d =
     rbind (section_key_of raw) (\<lambda>i.
     rbind (rbind (ok_or se_invalid_handle (fmlookup d i))
              (\<lambda>current. slot_try_convert current presence payload)) (\<lambda>next_slot.
     Inr (fmupd i next_slot d)))"

section \<open>Staged replacements\<close>

record staged_edit =
  se_section_id :: string
  se_cell_ids :: "string list"
  se_slot :: section_slot

record replacement =
  rp_entries :: section_directory
  rp_digest :: digest

record delta_builder =
  db_base :: section_directory
  db_staged :: section_directory

definition digest_slots :: "section_directory \<Rightarrow> digest" where
  "digest_slots entries =
     sha256 (concat (map (\<lambda>(i, slot).
       str_bytes (section_id_key i) @ [0] @ str_bytes (slot_presence slot) @ [0] @
       (case slot_payload slot of
          Some payload \<Rightarrow> str_bytes (pl_schema_id payload) @ [0] @
            payload_replacement_identity_digest payload
        | None \<Rightarrow> replicate 32 0)) (fm_entries entries)))"

definition replacement_from_slots :: "section_directory \<Rightarrow> replacement" where
  "replacement_from_slots entries = \<lparr>rp_entries = entries, rp_digest = digest_slots entries\<rparr>"

definition replacement_get :: "replacement \<Rightarrow> string \<Rightarrow> section_error + section_slot option" where
  "replacement_get r raw = rbind (section_key_of raw) (\<lambda>i. Inr (fmlookup (rp_entries r) i))"

definition delta_builder_new :: "section_directory \<Rightarrow> delta_builder" where
  "delta_builder_new root = \<lparr>db_base = root, db_staged = fmempty\<rparr>"

definition stage_cell :: "string \<Rightarrow> string set \<Rightarrow> section_error + string set" where
  "stage_cell cell cells =
     (if cell = [] \<or> cell \<in> cells then Inl se_invalid_handle else Inr (insert cell cells))"

definition delta_stage :: "staged_edit \<Rightarrow> delta_builder \<Rightarrow> section_error + delta_builder" where
  "delta_stage edit b =
     rbind (section_key_of (se_section_id edit)) (\<lambda>i.
     rbind (rfold stage_cell (se_cell_ids edit) {}) (\<lambda>_.
     if fm_has (db_staged b) i then Inl se_invalid_handle
     else Inr (b\<lparr>db_staged := fmupd i (se_slot edit) (db_staged b)\<rparr>)))"

definition delta_freeze_check :: "section_directory \<Rightarrow> section_id \<times> section_slot \<Rightarrow> unit \<Rightarrow> section_error + unit" where
  "delta_freeze_check base e u =
     (let (i, slot) = e in
      rbind (directory_lookup base (section_id_key i)) (\<lambda>current.
      case current of
        Some c \<Rightarrow> rbind (slot_try_convert c (slot_presence slot) (slot_payload slot)) (\<lambda>_. Inr ())
      | None \<Rightarrow> Inr ()))"

definition delta_freeze :: "delta_builder \<Rightarrow> section_error + replacement" where
  "delta_freeze b =
     rbind (rfold (delta_freeze_check (db_base b)) (fm_entries (db_staged b)) ()) (\<lambda>_.
     Inr (replacement_from_slots (db_staged b)))"

section \<open>Chunk records\<close>

datatype chunk_record = ChunkRecord (chr_id: chunk_id)

definition chunk_record_validate ::
    "string \<Rightarrow> u8 list \<Rightarrow> u64 option \<Rightarrow> section_error + chunk_record" where
  "chunk_record_validate key bytes chunk_revision =
     (if bytes \<noteq> [] \<or> chunk_revision \<noteq> None
      then Inl (se_contract_violation CHUNK_CARRIES_DATA_ERROR)
      else rbind (map_err SeKey (chunk_id_parse key)) (\<lambda>i. Inr (ChunkRecord i)))"

section \<open>Facts\<close>

lemma section_key_of_Inr:
  "section_key_of raw = Inr i \<longleftrightarrow> section_id_wf i \<and> raw = section_id_key i"
  by (simp add: section_key_of_def map_err_eq_Inr section_codec.decode_iff)

lemma section_key_of_key: "section_id_wf i \<Longrightarrow> section_key_of (section_id_key i) = Inr i"
  by (simp add: section_key_of_Inr)

text \<open>Updating a directory at a parsed key, seen through lookups by text.\<close>

lemma directory_lookup_upd:
  assumes "section_key_of raw = Inr i"
  shows "directory_lookup (fmupd i slot d) other =
    (if other = raw then Inr (Some slot) else directory_lookup d other)"
proof (cases "section_key_of other")
  case (Inl e)
  with assms show ?thesis by (auto simp: directory_lookup_def)
next
  case (Inr j)
  with assms section_codec.encode_inject [of i j] show ?thesis
    by (auto simp: directory_lookup_def section_key_of_Inr section_key_of_key)
qed

lemma stage_cells_ok:
  "(\<exists>c. rfold stage_cell cells acc = Inr c) \<longleftrightarrow>
     distinct cells \<and> [] \<notin> set cells \<and> set cells \<inter> acc = {}"
  by (induction cells arbitrary: acc) (auto simp: stage_cell_def result_iff)

definition edit_ok :: "staged_edit \<Rightarrow> bool" where
  "edit_ok e \<longleftrightarrow> (\<exists>i. section_key_of (se_section_id e) = Inr i) \<and>
     distinct (se_cell_ids e) \<and> [] \<notin> set (se_cell_ids e)"

definition edit_key :: "staged_edit \<Rightarrow> section_id" where
  "edit_key e = projr (section_key_of (se_section_id e))"

lemma delta_stage_Inr:
  "delta_stage e b = Inr b' \<longleftrightarrow>
     edit_ok e \<and> fmlookup (db_staged b) (edit_key e) = None \<and>
     b' = b\<lparr>db_staged := fmupd (edit_key e) (se_slot e) (db_staged b)\<rparr>"
  using stage_cells_ok [of "se_cell_ids e" "{}"]
  by (cases "section_key_of (se_section_id e)")
     (auto simp: delta_stage_def edit_ok_def edit_key_def result_iff)

text \<open>A staging run accepts distinct new sections and collects their slots in a map.\<close>

definition edit_entries :: "staged_edit list \<Rightarrow> (section_id \<times> section_slot) list" where
  "edit_entries es = map (\<lambda>e. (edit_key e, se_slot e)) es"

lemma fst_edit_entries [simp]: "map fst (edit_entries es) = map edit_key es"
  by (simp add: edit_entries_def comp_def)

lemma fmadd_snoc:
  "k \<notin> fst ` set xs \<Longrightarrow> fmupd k v m ++\<^sub>f fmap_of_list xs = m ++\<^sub>f fmap_of_list ((k, v) # xs)"
  by (rule fm_eqI) (force simp: fmlookup_of_list fset_of_list_elem)

lemma delta_stage_all:
  "rfold delta_stage es b = Inr b' \<longleftrightarrow>
     list_all edit_ok es \<and> distinct (map edit_key es) \<and>
     (\<forall>e \<in> set es. fmlookup (db_staged b) (edit_key e) = None) \<and>
     b' = b\<lparr>db_staged := db_staged b ++\<^sub>f fmap_of_list (edit_entries es)\<rparr>"
proof (induction es arbitrary: b)
  case Nil
  show ?case by (auto simp: edit_entries_def)
next
  case (Cons e es)
  let ?b = "b\<lparr>db_staged := fmupd (edit_key e) (se_slot e) (db_staged b)\<rparr>"
  have "rfold delta_stage (e # es) b = Inr b' \<longleftrightarrow>
      edit_ok e \<and> fmlookup (db_staged b) (edit_key e) = None \<and> rfold delta_stage es ?b = Inr b'"
    by (auto simp: rbind_eq_Inr delta_stage_Inr)
  moreover have "fst ` set (edit_entries es) = edit_key ` set es"
    by (force simp: edit_entries_def)
  ultimately show ?case
    using fmadd_snoc [of "edit_key e" "edit_entries es" "se_slot e" "db_staged b"]
    unfolding Cons.IH by (auto simp: edit_entries_def split: if_splits)
qed

text \<open>The freeze check passes exactly when every staged slot is a legal successor.\<close>

lemma freeze_check_all:
  "rfold (delta_freeze_check base) xs () = Inr () \<longleftrightarrow>
     (\<forall>e \<in> set xs. delta_freeze_check base e () = Inr ())"
  by (induction xs) (auto simp: rbind_eq_Inr)

lemma freeze_check_one:
  "section_id_wf i \<Longrightarrow> delta_freeze_check base (i, slot) () = Inr () \<longleftrightarrow>
     (\<forall>c. fmlookup base i = Some c \<longrightarrow>
        (\<exists>t. slot_try_convert c (slot_presence slot) (slot_payload slot) = Inr t))"
  by (auto simp: delta_freeze_check_def directory_lookup_def section_key_of_key rbind_eq_Inr
      split: option.splits)

lemma edit_ok_key: "edit_ok e \<Longrightarrow> section_id_wf (edit_key e) \<and> se_section_id e = section_id_key (edit_key e)"
  by (auto simp: edit_ok_def edit_key_def section_key_of_Inr section_key_of_key)

section \<open>Properties\<close>

text \<open>
  The directory is a map from canonical keys to slots: after an insert or a conversion at one
  key, looking up that very text gives the new slot, and every other text, canonical or not,
  gives what it gave before; a conversion succeeds only on a present section and along the
  presence machine.
\<close>

theorem directory_edits_are_local:
  "(directory_insert raw slot d = Inr d' \<longrightarrow>
      (\<forall>other. directory_lookup d' other =
         (if other = raw then Inr (Some slot) else directory_lookup d other))) \<and>
   (directory_convert raw nm payload d = Inr d' \<longrightarrow>
      (\<exists>c t. directory_lookup d raw = Inr (Some c) \<and> slot_try_convert c nm payload = Inr t \<and>
         (\<forall>other. directory_lookup d' other =
            (if other = raw then Inr (Some t) else directory_lookup d other))))"
proof (intro conjI impI)
  assume "directory_insert raw slot d = Inr d'"
  then obtain i where "section_key_of raw = Inr i" "d' = fmupd i slot d"
    by (auto simp: directory_insert_def rbind_eq_Inr)
  then show "\<forall>other. directory_lookup d' other =
      (if other = raw then Inr (Some slot) else directory_lookup d other)"
    by (simp add: directory_lookup_upd)
next
  assume "directory_convert raw nm payload d = Inr d'"
  then obtain i c t where k: "section_key_of raw = Inr i" and c: "fmlookup d i = Some c"
    and t: "slot_try_convert c nm payload = Inr t" "d' = fmupd i t d"
    by (auto simp: directory_convert_def rbind_eq_Inr ok_or_eq_Inr)
  from k c have "directory_lookup d raw = Inr (Some c)" by (simp add: directory_lookup_def)
  with t directory_lookup_upd [OF k] show "\<exists>c t. directory_lookup d raw = Inr (Some c) \<and>
      slot_try_convert c nm payload = Inr t \<and> (\<forall>other. directory_lookup d' other =
        (if other = raw then Inr (Some t) else directory_lookup d other))"
    by blast
qed

theorem directory_edits_are_local_witness:
  "\<exists>d'. directory_insert ''s:1:2:3'' SlotPending fmempty = Inr d' \<and>
     directory_lookup d' ''s:1:2:3'' = Inr (Some SlotPending)"
proof -
  have k: "section_key_of ''s:1:2:3'' = Inr (SectionId 1 2 3)"
  proof -
    have "section_id_key (SectionId 1 2 3) = ''s:1:2:3''" by code_simp
    then show ?thesis by (simp add: section_key_of_Inr section_id_wf_def)
  qed
  then have "directory_insert ''s:1:2:3'' SlotPending fmempty = Inr (fmupd (SectionId 1 2 3) SlotPending fmempty)"
    by (simp add: directory_insert_def)
  then show ?thesis using directory_edits_are_local by fastforce
qed

text \<open>
  Staging is order-independent: any reordering of the edits is accepted as well, yields the
  same staged replacement and hence the same digest. A staged set holds each section once, under
  its canonical key, and freezes exactly when every section present in the base may take the
  staged slot.
\<close>

theorem staging_order_irrelevant:
  assumes "rfold delta_stage es (delta_builder_new root) = Inr b" "mset fs = mset es"
  shows "rfold delta_stage fs (delta_builder_new root) = Inr b \<and>
    (\<forall>e \<in> set es. fmlookup (db_staged b) (edit_key e) = Some (se_slot e) \<and>
       se_section_id e = section_id_key (edit_key e)) \<and>
    ((\<exists>r. delta_freeze b = Inr r) \<longleftrightarrow>
       (\<forall>e \<in> set es. \<forall>c. fmlookup root (edit_key e) = Some c \<longrightarrow>
          (\<exists>t. slot_try_convert c (slot_presence (se_slot e)) (slot_payload (se_slot e)) = Inr t)))"
proof -
  from assms(1) have ok: "list_all edit_ok es" "distinct (map edit_key es)"
    and b: "b = \<lparr>db_base = root, db_staged = fmap_of_list (edit_entries es)\<rparr>"
    by (simp_all add: delta_stage_all delta_builder_new_def)
  have perm: "set fs = set es" "mset (map edit_key fs) = mset (map edit_key es)"
    using assms(2) mset_eq_setD by auto
  then have dist: "distinct (map edit_key fs)" using ok(2) mset_eq_imp_distinct_iff by blast
  have "set (edit_entries fs) = set (edit_entries es)" using perm(1) by (simp add: edit_entries_def)
  then have "map_of (edit_entries fs) = map_of (edit_entries es)"
    using map_of_inject_set [of "edit_entries fs" "edit_entries es"] dist ok(2) by simp
  then have "fmap_of_list (edit_entries fs) = fmap_of_list (edit_entries es)"
    by (intro fm_eqI) (simp add: fmlookup_of_list)
  then have "rfold delta_stage fs (delta_builder_new root) = Inr b"
    using ok(1) perm(1) dist by (simp add: delta_stage_all delta_builder_new_def b list_all_iff)
  moreover have staged: "fmlookup (db_staged b) i = Some s \<longleftrightarrow> (i, s) \<in> set (edit_entries es)" for i s
    using ok(2) map_of_eq_Some_iff [of "edit_entries es" i s] by (simp add: b fmlookup_of_list)
  moreover have "(\<exists>r. delta_freeze b = Inr r) \<longleftrightarrow>
      (\<forall>(i, s) \<in> set (edit_entries es). delta_freeze_check root (i, s) () = Inr ())"
    using staged set_fm_entries [of _ _ "db_staged b"]
    by (auto simp: delta_freeze_def rbind_eq_Inr freeze_check_all b)
  ultimately show ?thesis
    using ok(1) edit_ok_key freeze_check_one
    by (auto simp: edit_entries_def list_all_iff)
qed

theorem staging_order_irrelevant_witness:
  "\<exists>b. rfold delta_stage
      [\<lparr>se_section_id = ''s:1:2:3'', se_cell_ids = [''a'', ''b''], se_slot = SlotPending\<rparr>,
       \<lparr>se_section_id = ''s:1:2:4'', se_cell_ids = [], se_slot = SlotUnchanged\<rparr>]
      (delta_builder_new fmempty) = Inr b \<and>
    rfold delta_stage
      [\<lparr>se_section_id = ''s:1:2:4'', se_cell_ids = [], se_slot = SlotUnchanged\<rparr>,
       \<lparr>se_section_id = ''s:1:2:3'', se_cell_ids = [''a'', ''b''], se_slot = SlotPending\<rparr>]
      (delta_builder_new fmempty) = Inr b"
proof -
  let ?e = "\<lparr>se_section_id = ''s:1:2:3'', se_cell_ids = [''a'', ''b''], se_slot = SlotPending\<rparr>"
  let ?f = "\<lparr>se_section_id = ''s:1:2:4'', se_cell_ids = [], se_slot = SlotUnchanged\<rparr>"
  have "section_id_key (SectionId 1 2 3) = ''s:1:2:3''" "section_id_key (SectionId 1 2 4) = ''s:1:2:4''"
    by code_simp+
  then have keys: "section_key_of ''s:1:2:3'' = Inr (SectionId 1 2 3)"
    "section_key_of ''s:1:2:4'' = Inr (SectionId 1 2 4)"
    by (simp_all add: section_key_of_Inr section_id_wf_def)
  have "rfold delta_stage [?e, ?f] (delta_builder_new fmempty) =
      Inr \<lparr>db_base = fmempty, db_staged = fmempty ++\<^sub>f fmap_of_list (edit_entries [?e, ?f])\<rparr>"
    by (simp only: delta_stage_all) (simp add: keys edit_ok_def edit_key_def delta_builder_new_def)
  then show ?thesis
    using staging_order_irrelevant [of "[?e, ?f]" fmempty _ "[?f, ?e]"] by simp
qed

end
