(* ===== verification/Dirty.thy ===== *)
theory Dirty
  imports Directory
begin

text \<open>
  \<open>section/dirty.rs\<close>: the revision-aware frontier of sections that are not yet durable, the
  receipts that cover them, and the removal of covered entries. The main result is that a receipt
  clears exactly the dirty sections it names, and none above the bound it declares.
\<close>

section \<open>Data\<close>

definition ACK_KIND :: string where "ACK_KIND = ''DurabilityAck''"

record dirty_entry =
  de_first :: u64
  de_latest :: u64
  de_reason :: string

record ack_context =
  ac_context_id :: string
  ac_generation :: u64

record covered_section_ack =
  ca_section_id :: string
  ca_up_to_section_revision :: u64

record ack_evidence =
  ae_kind :: string
  ae_world_id :: string
  ae_context :: ack_context
  ae_covered_world_revision :: u64
  ae_covered_sections :: "covered_section_ack list"

type_synonym dirty_coverage = "(section_id, u64) fmap"

datatype dirty_error =
    DirtyInvalidHandle string
  | DirtySessionMismatch string
  | DirtyStaleEpoch string
  | DirtyUnknownSectionKey string
  | DirtySectionYOutOfRange string
  | DirtyCoordinateOutOfBounds string
  | DirtyStaleSectionRevision string
  | DirtySectionNotDurable string

fun dirty_error_id :: "dirty_error \<Rightarrow> string" where
  "dirty_error_id (DirtyInvalidHandle i) = i"
| "dirty_error_id (DirtySessionMismatch i) = i"
| "dirty_error_id (DirtyStaleEpoch i) = i"
| "dirty_error_id (DirtyUnknownSectionKey i) = i"
| "dirty_error_id (DirtySectionYOutOfRange i) = i"
| "dirty_error_id (DirtyCoordinateOutOfBounds i) = i"
| "dirty_error_id (DirtyStaleSectionRevision i) = i"
| "dirty_error_id (DirtySectionNotDurable i) = i"

definition dirty_invalid_handle :: dirty_error where
  "dirty_invalid_handle = DirtyInvalidHandle ''InvalidHandle''"

definition dirty_session_mismatch :: dirty_error where
  "dirty_session_mismatch = DirtySessionMismatch ''SessionMismatch''"

definition dirty_stale_epoch :: dirty_error where
  "dirty_stale_epoch = DirtyStaleEpoch ''StaleEpoch''"

definition dirty_unknown_section_key :: dirty_error where
  "dirty_unknown_section_key = DirtyUnknownSectionKey (contract_error UNKNOWN_SECTION_KEY)"

definition dirty_section_y_out_of_range :: dirty_error where
  "dirty_section_y_out_of_range = DirtySectionYOutOfRange (contract_error SECTION_Y_OUT_OF_RANGE)"

definition dirty_coordinate_out_of_bounds :: dirty_error where
  "dirty_coordinate_out_of_bounds = DirtyCoordinateOutOfBounds (contract_error COORDINATE_OUT_OF_BOUNDS)"

definition dirty_stale_section_revision :: dirty_error where
  "dirty_stale_section_revision = DirtyStaleSectionRevision (contract_error STALE_SECTION_REVISION)"

definition dirty_section_not_durable :: dirty_error where
  "dirty_section_not_durable = DirtySectionNotDurable (contract_error DIRTY_SECTION_NOT_DURABLE)"

definition dirty_parse_section :: "string \<Rightarrow> dirty_error + section_id" where
  "dirty_parse_section raw =
     map_err (\<lambda>e. case ke_rejection e of
         CoordinateOutOfBounds \<Rightarrow> dirty_coordinate_out_of_bounds
       | SectionYOutOfRange \<Rightarrow> dirty_section_y_out_of_range
       | _ \<Rightarrow> dirty_unknown_section_key) (section_id_parse raw)"

record dirty_frontier =
  df_world_id :: string
  df_generation :: u64
  df_entries :: "(section_id, dirty_entry) fmap"

section \<open>Operations\<close>

definition dirty_frontier_new :: "string \<Rightarrow> u64 \<Rightarrow> dirty_error + dirty_frontier" where
  "dirty_frontier_new world generation =
     (if world = [] then Inl dirty_invalid_handle
      else Inr \<lparr>df_world_id = world, df_generation = generation, df_entries = fmempty\<rparr>)"

definition dirty_record :: "string \<Rightarrow> u64 \<Rightarrow> string \<Rightarrow> dirty_frontier \<Rightarrow> dirty_error + dirty_frontier" where
  "dirty_record raw srev reason f =
     (if reason = [] then Inl dirty_invalid_handle
      else rbind (dirty_parse_section raw) (\<lambda>i.
        Inr (case fmlookup (df_entries f) i of
          None \<Rightarrow> f\<lparr>df_entries := fmupd i
            \<lparr>de_first = srev, de_latest = srev, de_reason = reason\<rparr> (df_entries f)\<rparr>
        | Some prev \<Rightarrow>
            let first_rev = (if srev < de_first prev then srev else de_first prev);
                latest_rev = (if srev > de_latest prev then srev else de_latest prev)
            in f\<lparr>df_entries := fmupd i
                 \<lparr>de_first = first_rev, de_latest = latest_rev, de_reason = reason\<rparr> (df_entries f)\<rparr>)))"

definition dirty_first_revision :: "dirty_frontier \<Rightarrow> string \<Rightarrow> dirty_error + u64 option" where
  "dirty_first_revision f raw =
     rbind (dirty_parse_section raw) (\<lambda>i. Inr (map_option de_first (fmlookup (df_entries f) i)))"

definition dirty_latest_revision :: "dirty_frontier \<Rightarrow> string \<Rightarrow> dirty_error + u64 option" where
  "dirty_latest_revision f raw =
     rbind (dirty_parse_section raw) (\<lambda>i. Inr (map_option de_latest (fmlookup (df_entries f) i)))"

definition dirty_reason :: "dirty_frontier \<Rightarrow> string \<Rightarrow> dirty_error + string option" where
  "dirty_reason f raw =
     rbind (dirty_parse_section raw) (\<lambda>i. Inr (map_option de_reason (fmlookup (df_entries f) i)))"

text \<open>The two loops of \<open>covered_by\<close>: collecting the declared bounds, then matching the entries.\<close>

definition collect_bound ::
    "covered_section_ack \<Rightarrow> (section_id, u64) fmap \<Rightarrow> dirty_error + (section_id, u64) fmap" where
  "collect_bound section up_to =
     rbind (dirty_parse_section (ca_section_id section)) (\<lambda>i.
     if fm_has up_to i then Inl dirty_invalid_handle
     else Inr (fmupd i (ca_up_to_section_revision section) up_to))"

definition cover_entry ::
    "(section_id, u64) fmap \<Rightarrow> section_id \<times> dirty_entry \<Rightarrow> dirty_coverage \<Rightarrow> dirty_error + dirty_coverage" where
  "cover_entry up_to e covered =
     (let (i, entry) = e in
      case fmlookup up_to i of
        None \<Rightarrow> Inr covered
      | Some cutoff \<Rightarrow>
          if de_latest entry > cutoff then Inl dirty_stale_section_revision
          else Inr (fmupd i (de_latest entry) covered))"

definition dirty_covered_by :: "dirty_frontier \<Rightarrow> ack_evidence \<Rightarrow> dirty_error + dirty_coverage" where
  "dirty_covered_by f ack =
     (if ae_kind ack \<noteq> ACK_KIND then Inl dirty_invalid_handle
      else if ae_world_id ack \<noteq> df_world_id f then Inl dirty_session_mismatch
      else if ac_generation (ae_context ack) \<noteq> df_generation f then Inl dirty_stale_epoch
      else rbind (rfold collect_bound (ae_covered_sections ack) fmempty) (\<lambda>up_to.
        rfold (cover_entry up_to) (fm_entries (df_entries f)) fmempty))"

definition dirty_except_covered :: "dirty_frontier \<Rightarrow> dirty_coverage \<Rightarrow> dirty_frontier" where
  "dirty_except_covered f coverage =
     fold (\<lambda>i f. f\<lparr>df_entries := fmdrop i (df_entries f)\<rparr>) (fm_keys coverage) f"

definition coverage_contains :: "dirty_coverage \<Rightarrow> string \<Rightarrow> dirty_error + bool" where
  "coverage_contains c raw = rbind (dirty_parse_section raw) (\<lambda>i. Inr (fm_has c i))"

section \<open>Facts\<close>

lemma dirty_parse_section_Inr:
  "dirty_parse_section raw = Inr i \<longleftrightarrow> section_id_wf i \<and> raw = section_id_key i"
  by (simp add: dirty_parse_section_def map_err_eq_Inr section_codec.decode_iff)

text \<open>What a receipt declares: the bound of each section it names.\<close>

definition declares :: "ack_evidence \<Rightarrow> section_id \<Rightarrow> u64 \<Rightarrow> bool" where
  "declares ack i bound \<longleftrightarrow>
     (\<exists>s \<in> set (ae_covered_sections ack).
        dirty_parse_section (ca_section_id s) = Inr i \<and> ca_up_to_section_revision s = bound)"

lemma collect_bound_Inr:
  "collect_bound s m = Inr m' \<longleftrightarrow>
     (\<exists>i. dirty_parse_section (ca_section_id s) = Inr i \<and> fmlookup m i = None \<and>
        m' = fmupd i (ca_up_to_section_revision s) m)"
  by (auto simp: collect_bound_def rbind_eq_Inr)

lemma cover_entry_Inr:
  "cover_entry up_to (i, e) m = Inr c \<longleftrightarrow>
     (\<forall>cutoff. fmlookup up_to i = Some cutoff \<longrightarrow> de_latest e \<le> cutoff) \<and>
     c = (if fm_has up_to i then fmupd i (de_latest e) m else m)"
  by (cases "fmlookup up_to i") (auto simp: cover_entry_def not_less)

lemma cover_entry_Inl:
  "cover_entry up_to (i, e) m = Inl err \<longleftrightarrow>
     err = dirty_stale_section_revision \<and>
     (\<exists>cutoff. fmlookup up_to i = Some cutoff \<and> cutoff < de_latest e)"
  by (cases "fmlookup up_to i") (auto simp: cover_entry_def)

lemma collect_bounds:
  "rfold collect_bound ss m = Inr up_to \<Longrightarrow>
   fmlookup up_to i = Some b \<longleftrightarrow>
     fmlookup m i = Some b \<or>
     (\<exists>s \<in> set ss. dirty_parse_section (ca_section_id s) = Inr i \<and> ca_up_to_section_revision s = b)"
proof (induction ss arbitrary: m)
  case Nil
  then show ?case by simp
next
  case (Cons s ss)
  then obtain j where j: "dirty_parse_section (ca_section_id s) = Inr j" "fmlookup m j = None"
    and rest: "rfold collect_bound ss (fmupd j (ca_up_to_section_revision s) m) = Inr up_to"
    by (auto simp: rbind_eq_Inr collect_bound_Inr)
  from j Cons.IH [OF rest] show ?case by auto
qed

lemma cover_entries:
  "rfold (cover_entry up_to) es m = Inr c \<longleftrightarrow>
     (\<forall>(i, e) \<in> set es. \<forall>cutoff. fmlookup up_to i = Some cutoff \<longrightarrow> de_latest e \<le> cutoff) \<and>
     c = fold (\<lambda>(i, e) m. if fm_has up_to i then fmupd i (de_latest e) m else m) es m"
proof (induction es arbitrary: m)
  case Nil
  show ?case by auto
next
  case (Cons x es)
  obtain i e where x: "x = (i, e)" by (cases x)
  show ?case
    by (auto simp: x rbind_eq_Inr cover_entry_Inr Cons.IH)
qed

lemma cover_entries_Inl:
  "rfold (cover_entry up_to) es m = Inl err \<Longrightarrow>
     err = dirty_stale_section_revision \<and>
     (\<exists>(i, e) \<in> set es. \<exists>cutoff. fmlookup up_to i = Some cutoff \<and> cutoff < de_latest e)"
proof (induction es arbitrary: m)
  case Nil
  then show ?case by simp
next
  case (Cons x es)
  obtain i e where x: "x = (i, e)" by (cases x)
  from Cons show ?case
    by (auto simp: x rbind_eq_Inl cover_entry_Inl)
qed

lemma lookup_cover_fold:
  "distinct (map fst es) \<Longrightarrow>
   fmlookup (fold (\<lambda>(i, e) m. if fm_has up_to i then fmupd i (de_latest e) m else m) es m) j =
     (case map_of es j of
        Some e \<Rightarrow> if fm_has up_to j then Some (de_latest e) else fmlookup m j
      | None \<Rightarrow> fmlookup m j)"
proof (induction es arbitrary: m)
  case Nil
  show ?case by simp
next
  case (Cons x es)
  obtain i e where x: "x = (i, e)" by (cases x)
  with Cons.prems have "map_of es i = None" by (simp add: map_of_eq_None_iff)
  with Cons x show ?case by (cases "j = i") (auto split: option.splits)
qed

lemma covered_by_Inr:
  assumes "dirty_covered_by f ack = Inr cov"
  shows "fmlookup cov i =
      (case fmlookup (df_entries f) i of
         Some e \<Rightarrow> if \<exists>b. declares ack i b then Some (de_latest e) else None
       | None \<Rightarrow> None)"
    and "fmlookup (df_entries f) i = Some e \<Longrightarrow> declares ack i b \<Longrightarrow> de_latest e \<le> b"
proof -
  from assms obtain up_to where up: "rfold collect_bound (ae_covered_sections ack) fmempty = Inr up_to"
    and cov: "rfold (cover_entry up_to) (fm_entries (df_entries f)) fmempty = Inr cov"
    by (auto simp: dirty_covered_by_def rbind_eq_Inr split: if_splits)
  have dec: "fmlookup up_to i = Some b \<longleftrightarrow> declares ack i b" for i b
    using collect_bounds [OF up, of i b] by (simp add: declares_def)
  then have has: "fm_has up_to i \<longleftrightarrow> (\<exists>b. declares ack i b)" by auto
  from cov show "fmlookup cov i =
      (case fmlookup (df_entries f) i of
         Some e \<Rightarrow> if \<exists>b. declares ack i b then Some (de_latest e) else None
       | None \<Rightarrow> None)"
    using lookup_cover_fold [OF distinct_fm_entries [of "df_entries f"], where j = i and m = fmempty and up_to = up_to] has
    by (auto simp: cover_entries map_of_fm_entries split: option.split)
  show "fmlookup (df_entries f) i = Some e \<Longrightarrow> declares ack i b \<Longrightarrow> de_latest e \<le> b"
    using cov dec [of i b] set_fm_entries [of i e "df_entries f"]
    unfolding cover_entries by blast
qed

lemma except_covered_lookup:
  "fmlookup (df_entries (dirty_except_covered f cov)) i =
     (if fm_has cov i then None else fmlookup (df_entries f) i)"
proof -
  have gen: "fmlookup (df_entries (fold (\<lambda>i f. f\<lparr>df_entries := fmdrop i (df_entries f)\<rparr>) ks f)) i =
      (if i \<in> set ks then None else fmlookup (df_entries f) i)" for ks
    by (induction ks arbitrary: f) auto
  show ?thesis
    by (simp add: dirty_except_covered_def gen fm_has_iff)
qed

lemma except_covered_meta:
  "df_world_id (dirty_except_covered f cov) = df_world_id f"
  "df_generation (dirty_except_covered f cov) = df_generation f"
proof -
  have "df_world_id (fold (\<lambda>i f. f\<lparr>df_entries := fmdrop i (df_entries f)\<rparr>) ks f) = df_world_id f \<and>
      df_generation (fold (\<lambda>i f. f\<lparr>df_entries := fmdrop i (df_entries f)\<rparr>) ks f) = df_generation f" for ks
    by (induction ks arbitrary: f) auto
  then show "df_world_id (dirty_except_covered f cov) = df_world_id f"
    "df_generation (dirty_except_covered f cov) = df_generation f"
    by (simp_all add: dirty_except_covered_def)
qed

text \<open>The range of revisions of a dirty section only widens.\<close>

definition frontier_ok :: "dirty_frontier \<Rightarrow> bool" where
  "frontier_ok f \<longleftrightarrow>
     df_world_id f \<noteq> [] \<and>
     (\<forall>i e. fmlookup (df_entries f) i = Some e \<longrightarrow>
        section_id_wf i \<and> de_first e \<le> de_latest e \<and> de_reason e \<noteq> [])"

lemma dirty_record_Inr:
  assumes "dirty_record raw srev reason f = Inr f'"
  obtains i where "section_id_wf i" "raw = section_id_key i" "reason \<noteq> []"
    "f' = f\<lparr>df_entries := fmupd i
       (case fmlookup (df_entries f) i of
          None \<Rightarrow> \<lparr>de_first = srev, de_latest = srev, de_reason = reason\<rparr>
        | Some e \<Rightarrow> \<lparr>de_first = min srev (de_first e), de_latest = max srev (de_latest e),
                     de_reason = reason\<rparr>) (df_entries f)\<rparr>"
proof -
  from assms obtain i where i: "dirty_parse_section raw = Inr i" "reason \<noteq> []"
    by (auto simp: dirty_record_def rbind_eq_Inr split: if_splits)
  moreover have "(if srev < first then srev else first) = min srev first"
    "(if latest < srev then srev else latest) = max srev latest" for first latest :: u64
    by (auto simp: min_def max_def)
  ultimately have "f' = f\<lparr>df_entries := fmupd i
       (case fmlookup (df_entries f) i of
          None \<Rightarrow> \<lparr>de_first = srev, de_latest = srev, de_reason = reason\<rparr>
        | Some e \<Rightarrow> \<lparr>de_first = min srev (de_first e), de_latest = max srev (de_latest e),
                     de_reason = reason\<rparr>) (df_entries f)\<rparr>"
    using assms by (cases "fmlookup (df_entries f) i") (simp_all add: dirty_record_def Let_def)
  with i that show ?thesis by (simp only: dirty_parse_section_Inr) blast
qed

lemma frontier_ok_new: "dirty_frontier_new w g = Inr f \<Longrightarrow> frontier_ok f"
  by (auto simp: dirty_frontier_new_def frontier_ok_def split: if_splits)

lemma frontier_ok_record:
  assumes "dirty_record raw srev reason f = Inr f'" "frontier_ok f"
  shows "frontier_ok f'"
proof -
  obtain i where "section_id_wf i" "reason \<noteq> []"
    "f' = f\<lparr>df_entries := fmupd i
       (case fmlookup (df_entries f) i of
          None \<Rightarrow> \<lparr>de_first = srev, de_latest = srev, de_reason = reason\<rparr>
        | Some e \<Rightarrow> \<lparr>de_first = min srev (de_first e), de_latest = max srev (de_latest e),
                     de_reason = reason\<rparr>) (df_entries f)\<rparr>"
    using assms(1) by (rule dirty_record_Inr)
  with assms(2) show ?thesis
    by (auto simp: frontier_ok_def min_def max_def split: option.splits)
qed

lemma frontier_ok_except: "frontier_ok f \<Longrightarrow> frontier_ok (dirty_except_covered f cov)"
  by (auto simp: frontier_ok_def except_covered_lookup except_covered_meta split: if_splits)

section \<open>Properties\<close>

text \<open>
  Recording dirt keeps the frontier well formed and only widens the range of the named
  section: its first revision is the minimum and its latest the maximum of what was recorded,
  and no other section changes.
\<close>

theorem dirty_record_widens:
  assumes "frontier_ok f" "dirty_record raw srev reason f = Inr f'"
  shows "frontier_ok f' \<and>
    (\<exists>i e. raw = section_id_key i \<and> fmlookup (df_entries f') i = Some e \<and>
       de_first e \<le> srev \<and> srev \<le> de_latest e \<and>
       (\<forall>p. fmlookup (df_entries f) i = Some p \<longrightarrow>
          de_first e = min srev (de_first p) \<and> de_latest e = max srev (de_latest p)) \<and>
       (\<forall>j. j \<noteq> i \<longrightarrow> fmlookup (df_entries f') j = fmlookup (df_entries f) j))"
proof -
  obtain i where i: "raw = section_id_key i"
    "f' = f\<lparr>df_entries := fmupd i
       (case fmlookup (df_entries f) i of
          None \<Rightarrow> \<lparr>de_first = srev, de_latest = srev, de_reason = reason\<rparr>
        | Some e \<Rightarrow> \<lparr>de_first = min srev (de_first e), de_latest = max srev (de_latest e),
                     de_reason = reason\<rparr>) (df_entries f)\<rparr>"
    using assms(2) by (rule dirty_record_Inr)
  then show ?thesis
    using frontier_ok_record [OF assms(2,1)]
    by (intro conjI exI [of _ i]) (auto split: option.splits)
qed

lemma dirty_parse_sample: "dirty_parse_section ''s:1:2:3'' = Inr (SectionId 1 2 3)"
proof -
  have "section_id_key (SectionId 1 2 3) = ''s:1:2:3''" by code_simp
  then show ?thesis by (simp add: dirty_parse_section_Inr section_id_wf_def)
qed

definition sample_frontier :: dirty_frontier where
  "sample_frontier = \<lparr>df_world_id = ''w'', df_generation = 1, df_entries =
     fmupd (SectionId 1 2 3) \<lparr>de_first = 4, de_latest = 6, de_reason = ''edit''\<rparr> fmempty\<rparr>"

definition sample_ack :: "u64 \<Rightarrow> ack_evidence" where
  "sample_ack bound = \<lparr>ae_kind = ACK_KIND, ae_world_id = ''w'',
     ae_context = \<lparr>ac_context_id = ''c'', ac_generation = 1\<rparr>, ae_covered_world_revision = 9,
     ae_covered_sections = [\<lparr>ca_section_id = ''s:1:2:3'', ca_up_to_section_revision = bound\<rparr>]\<rparr>"

lemma sample_frontier_ok: "frontier_ok sample_frontier"
  by (simp add: frontier_ok_def sample_frontier_def section_id_wf_def)

theorem dirty_record_widens_witness:
  "\<exists>f'. dirty_record ''s:1:2:3'' 7 ''edit'' sample_frontier = Inr f' \<and> frontier_ok f'"
proof -
  obtain f' where "dirty_record ''s:1:2:3'' 7 ''edit'' sample_frontier = Inr f'"
    by (simp add: dirty_record_def dirty_parse_sample)
  with dirty_record_widens [OF sample_frontier_ok] show ?thesis by blast
qed

text \<open>
  A durability receipt clears exactly what it covers. When a receipt is accepted, a section
  stays dirty exactly if it was dirty and the receipt does not name it, and every section it
  cleared was dirty only up to the bound the receipt declares for it; a receipt that names a
  section dirty beyond its bound is refused as a whole.
\<close>

theorem ack_clears_exactly:
  assumes "dirty_covered_by f ack = Inr cov"
  shows "(fmlookup (df_entries (dirty_except_covered f cov)) i =
      (if \<exists>b. declares ack i b then None else fmlookup (df_entries f) i)) \<and>
    (\<forall>e b. fmlookup (df_entries f) i = Some e \<longrightarrow> declares ack i b \<longrightarrow> de_latest e \<le> b) \<and>
    ae_world_id ack = df_world_id f \<and> ac_generation (ae_context ack) = df_generation f"
  using covered_by_Inr [OF assms, of i] assms
  by (auto simp: except_covered_lookup dirty_covered_by_def split: option.splits if_splits)

theorem ack_clears_exactly_witness:
  "\<exists>cov. dirty_covered_by sample_frontier (sample_ack 6) = Inr cov \<and>
    fmlookup (df_entries (dirty_except_covered sample_frontier cov)) (SectionId 1 2 3) =
      (if \<exists>b. declares (sample_ack 6) (SectionId 1 2 3) b then None
       else fmlookup (df_entries sample_frontier) (SectionId 1 2 3))"
proof -
  have "rfold (cover_entry (fmupd (SectionId 1 2 3) 6 fmempty)) (fm_entries (df_entries sample_frontier)) fmempty =
      Inr (fold (\<lambda>(i, e) m. if fm_has (fmupd (SectionId 1 2 3) (6 :: u64) fmempty) i
             then fmupd i (de_latest e) m else m) (fm_entries (df_entries sample_frontier)) fmempty)"
    unfolding cover_entries by (auto simp: set_fm_entries sample_frontier_def split: if_splits)
  then obtain cov where "dirty_covered_by sample_frontier (sample_ack 6) = Inr cov"
    by (auto simp: dirty_covered_by_def sample_frontier_def sample_ack_def collect_bound_def
        dirty_parse_sample)
  then show ?thesis using ack_clears_exactly [of sample_frontier "sample_ack 6" _ "SectionId 1 2 3"] by blast
qed

end
