(* ===== verification/Config.thy ===== *)
theory Config
  imports Strings
begin

text \<open>
  \<open>config_snapshot.rs\<close>: the immutable configuration snapshot and the capability view derived from
  it. A document is accepted only with the two schema names this module reads, a well-formed
  hash, and no start capability outside the declared set; a view can only narrow the snapshot.
\<close>

section \<open>Data\<close>

definition CONFIG_TABLE_SCHEMA :: string where "CONFIG_TABLE_SCHEMA = ''config-table''"
definition HOST_CAPABILITY_SCHEMA :: string where "HOST_CAPABILITY_SCHEMA = ''host-capability''"

record host_capability_set =
  hc_capabilities :: "string list"

text \<open>\<open>sort()\<close> and then \<open>dedup()\<close>, which removes equal neighbours.\<close>

definition capability_set_from_names :: "string list \<Rightarrow> host_capability_set" where
  "capability_set_from_names names = \<lparr>hc_capabilities = remdups_adj (sort names)\<rparr>"

definition capability_set_contains :: "host_capability_set \<Rightarrow> string \<Rightarrow> bool" where
  "capability_set_contains hc name = list_ex (\<lambda>n. n = name) (hc_capabilities hc)"

record voxel_config_input =
  ci_schema_id :: string
  ci_host_capability_schema_id :: string
  ci_config_hash :: string
  ci_host_capability :: host_capability_set
  ci_start_capabilities :: "string list"
  ci_key_material :: "string option"

record voxel_config_snapshot =
  cs_config_hash :: string
  cs_allow_list :: "string list"

datatype config_error =
    HashMismatch string string
  | UnknownCapability string string

fun config_error_id :: "config_error \<Rightarrow> string" where
  "config_error_id (HashMismatch i gate) = i"
| "config_error_id (UnknownCapability i name) = i"

fun config_error_display :: "config_error \<Rightarrow> string" where
  "config_error_display (HashMismatch i gate) = i @ '': '' @ gate"
| "config_error_display (UnknownCapability i name) = i @ '': '' @ name"

datatype capability_error = Expansion string string

fun capability_error_id :: "capability_error \<Rightarrow> string" where
  "capability_error_id (Expansion i name) = i"

section \<open>Operations\<close>

definition require_schema :: "string \<Rightarrow> string \<Rightarrow> config_error + unit" where
  "require_schema found expected =
     (if found = expected then Inr () else Inl (UnknownCapability ''CapabilityMissing'' found))"

definition is_hash256 :: "string \<Rightarrow> bool" where
  "is_hash256 value \<longleftrightarrow> length value = 64 \<and>
     list_all (\<lambda>b. (CHR ''0'' \<le> b \<and> b \<le> CHR ''9'') \<or> (CHR ''a'' \<le> b \<and> b \<le> CHR ''f'')) value"

definition check_start_capability :: "voxel_config_input \<Rightarrow> string \<Rightarrow> unit \<Rightarrow> config_error + unit" where
  "check_start_capability config name u =
     (if \<not> capability_set_contains (ci_host_capability config) name
      then Inl (UnknownCapability ''CapabilityMissing'' name) else Inr ())"

definition config_load :: "voxel_config_input \<Rightarrow> config_error + voxel_config_snapshot" where
  "config_load config =
     rbind (require_schema (ci_schema_id config) CONFIG_TABLE_SCHEMA) (\<lambda>_.
     rbind (require_schema (ci_host_capability_schema_id config) HOST_CAPABILITY_SCHEMA) (\<lambda>_.
       if \<not> is_hash256 (ci_config_hash config)
       then Inl (HashMismatch ''EvidenceDigestMismatch'' ''configHash'')
       else rbind (rfold (check_start_capability config) (ci_start_capabilities config) ()) (\<lambda>_.
         Inr \<lparr>cs_config_hash = ci_config_hash config,
              cs_allow_list = hc_capabilities (ci_host_capability config)\<rparr>)))"

text \<open>The derived \<open>Debug\<close> text of the snapshot; it never mentions the key material.\<close>

definition audit_summary :: "voxel_config_snapshot \<Rightarrow> string" where
  "audit_summary s =
     ''VoxelConfigSnapshot { config_hash: '' @ dbg_str (cs_config_hash s) @
     '', capabilities: '' @ dbg_list dbg_str (cs_allow_list s) @ '' }''"

record capability_view =
  cv_enabled :: "string fset"

definition derive_step ::
    "voxel_config_snapshot \<Rightarrow> string \<Rightarrow> string fset \<Rightarrow> capability_error + string fset" where
  "derive_step snapshot name enabled =
     (if name \<notin> set (cs_allow_list snapshot) then Inl (Expansion ''ClaimNotGranted'' name)
      else Inr (finsert name enabled))"

definition capability_derive ::
    "host_capability_set \<Rightarrow> voxel_config_snapshot \<Rightarrow> capability_error + capability_view" where
  "capability_derive declared snapshot =
     rbind (rfold (derive_step snapshot) (hc_capabilities declared) {||}) (\<lambda>enabled.
       Inr \<lparr>cv_enabled = enabled\<rparr>)"

definition capability_view_contains :: "capability_view \<Rightarrow> string \<Rightarrow> bool" where
  "capability_view_contains v name = (name |\<in>| cv_enabled v)"

section \<open>Loading and narrowing\<close>

lemma set_capability_set [simp]: "set (hc_capabilities (capability_set_from_names ns)) = set ns"
  by (simp add: capability_set_from_names_def)

lemma capability_set_contains_iff:
  "capability_set_contains hc name \<longleftrightarrow> name \<in> set (hc_capabilities hc)"
  by (auto simp: capability_set_contains_def list_ex_iff)

lemma check_start_iff:
  "rfold (check_start_capability config) ns () = Inr () \<longleftrightarrow>
     set ns \<subseteq> set (hc_capabilities (ci_host_capability config))"
  by (induction ns) (auto simp: check_start_capability_def capability_set_contains_iff result_iff)

lemma config_load_ok_iff:
  "config_load config = Inr s \<longleftrightarrow>
     ci_schema_id config = CONFIG_TABLE_SCHEMA \<and>
     ci_host_capability_schema_id config = HOST_CAPABILITY_SCHEMA \<and>
     is_hash256 (ci_config_hash config) \<and>
     set (ci_start_capabilities config) \<subseteq> set (hc_capabilities (ci_host_capability config)) \<and>
     s = \<lparr>cs_config_hash = ci_config_hash config,
          cs_allow_list = hc_capabilities (ci_host_capability config)\<rparr>"
  by (auto simp: config_load_def require_schema_def result_iff simp flip: check_start_iff)

lemma derive_fold_iff:
  "rfold (derive_step s) ns e = Inr e' \<longleftrightarrow>
     set ns \<subseteq> set (cs_allow_list s) \<and> e' = e |\<union>| fset_of_list ns"
  by (induction ns arbitrary: e) (auto simp: derive_step_def)

lemma derive_fold_fails:
  "rfold (derive_step s) ns e = Inl (Expansion i n) \<Longrightarrow>
     i = ''ClaimNotGranted'' \<and> n \<in> set ns \<and> n \<notin> set (cs_allow_list s)"
  by (induction ns arbitrary: e) (auto simp: derive_step_def split: if_splits)

lemma capability_derive_ok_iff:
  "capability_derive hc s = Inr v \<longleftrightarrow>
     set (hc_capabilities hc) \<subseteq> set (cs_allow_list s) \<and>
     v = \<lparr>cv_enabled = fset_of_list (hc_capabilities hc)\<rparr>"
  by (auto simp: capability_derive_def result_iff derive_fold_iff)

section \<open>Properties\<close>

text \<open>
  A capability is visible to the host exactly when it was declared: deriving a view from the
  snapshot of a loaded document succeeds if and only if every declared capability was in the
  document's own set, the view then holds exactly the declared names, and otherwise the error
  names a declared capability that the document did not grant.
\<close>

theorem capabilities_never_expand:
  assumes "config_load config = Inr snapshot"
  shows "(case capability_derive declared snapshot of
      Inr view \<Rightarrow>
        set (hc_capabilities declared) \<subseteq> set (hc_capabilities (ci_host_capability config)) \<and>
        (\<forall>name. capability_view_contains view name \<longleftrightarrow> capability_set_contains declared name)
    | Inl e \<Rightarrow> \<exists>name. e = Expansion ''ClaimNotGranted'' name \<and>
        capability_set_contains declared name \<and>
        \<not> capability_set_contains (ci_host_capability config) name)"
proof (cases "capability_derive declared snapshot")
  case (Inr view)
  then have "set (hc_capabilities declared) \<subseteq> set (cs_allow_list snapshot)"
    "view = \<lparr>cv_enabled = fset_of_list (hc_capabilities declared)\<rparr>"
    by (simp_all add: capability_derive_ok_iff)
  with assms show ?thesis unfolding Inr
    by (simp add: config_load_ok_iff capability_view_contains_def
        capability_set_contains_iff fset_of_list.rep_eq)
next
  case (Inl e)
  obtain i n where e: "e = Expansion i n" by (cases e)
  with Inl have "rfold (derive_step snapshot) (hc_capabilities declared) {||} = Inl (Expansion i n)"
    by (auto simp: capability_derive_def result_iff)
  from derive_fold_fails [OF this] assms Inl e show ?thesis
    by (auto simp: config_load_ok_iff capability_set_contains_iff)
qed

definition sample_config :: voxel_config_input where
  "sample_config =
     \<lparr>ci_schema_id = CONFIG_TABLE_SCHEMA, ci_host_capability_schema_id = HOST_CAPABILITY_SCHEMA,
      ci_config_hash = replicate 64 (CHR ''0''),
      ci_host_capability = capability_set_from_names [''edit'', ''query''],
      ci_start_capabilities = [''query''], ci_key_material = None\<rparr>"

lemma sample_config_loads:
  "config_load sample_config = Inr \<lparr>cs_config_hash = replicate 64 (CHR ''0''),
     cs_allow_list = hc_capabilities (capability_set_from_names [''edit'', ''query''])\<rparr>"
proof -
  have "(CHR ''0'') \<le> CHR ''0''" "(CHR ''0'') \<le> CHR ''9''" by code_simp+
  then have "is_hash256 (replicate 64 (CHR ''0''))"
    by (simp add: is_hash256_def list_all_iff)
  then show ?thesis by (simp add: config_load_ok_iff sample_config_def)
qed

theorem capabilities_never_expand_witness:
  "\<exists>view. capability_derive (capability_set_from_names [''query'']) \<lparr>cs_config_hash = replicate 64 (CHR ''0''),
     cs_allow_list = hc_capabilities (capability_set_from_names [''edit'', ''query''])\<rparr> = Inr view \<and>
     capability_view_contains view ''query'' \<and> \<not> capability_view_contains view ''edit''"
proof -
  have "capability_derive (capability_set_from_names [''query'']) \<lparr>cs_config_hash = replicate 64 (CHR ''0''),
     cs_allow_list = hc_capabilities (capability_set_from_names [''edit'', ''query''])\<rparr> =
     Inr \<lparr>cv_enabled = fset_of_list (hc_capabilities (capability_set_from_names [''query'']))\<rparr>"
    by (simp add: capability_derive_ok_iff)
  with capabilities_never_expand [OF sample_config_loads,
      of "capability_set_from_names [''query'']"]
  show ?thesis by (simp add: capability_set_contains_iff)
qed

end
