(* ===== verification/Revision.thy ===== *)
theory Revision
  imports Config "HOL-Library.Product_Lexorder"
begin

text \<open>
  \<open>revision/\<close>: the monotonic revision allocator, the revision stamp, reference-counted pins and the
  retention frontier. The registry state is threaded explicitly: cloning and dropping a pin are
  the steps \<open>pin_clone\<close> and \<open>pin_drop\<close>, and a pin belongs to the registry whose state is threaded.
  The account \<open>pins_ok s H\<close> says that the registry state \<open>s\<close> counts exactly the live pins \<open>H\<close>.
\<close>

section \<open>Revision allocator\<close>

datatype revision_error =
    RevisionOverflow string
  | RevisionDoubleFinalize string
  | RevisionAbandoned string

fun revision_error_id :: "revision_error \<Rightarrow> string" where
  "revision_error_id (RevisionOverflow i) = i"
| "revision_error_id (RevisionDoubleFinalize i) = i"
| "revision_error_id (RevisionAbandoned i) = i"

record 'a revision_reservation =
  rr_value :: 'a
  rr_finalized :: bool
  rr_abandoned :: bool

definition reservation_finalize ::
    "'a revision_reservation \<Rightarrow> revision_error + ('a \<times> 'a revision_reservation)" where
  "reservation_finalize r =
     (if rr_abandoned r then Inl (RevisionAbandoned ''InvalidHandle'')
      else if rr_finalized r then Inl (RevisionDoubleFinalize ''HandleDoubleRelease'')
      else Inr (rr_value r, r\<lparr>rr_finalized := True\<rparr>))"

definition reservation_abandon :: "'a revision_reservation \<Rightarrow> 'a revision_reservation" where
  "reservation_abandon r = r\<lparr>rr_abandoned := True\<rparr>"

record revision_allocator =
  ra_next_world :: u64
  ra_next_section :: u64

definition allocator_new :: revision_allocator where
  "allocator_new = \<lparr>ra_next_world = 0, ra_next_section = 0\<rparr>"

definition reserve_world ::
    "revision_allocator \<Rightarrow> revision_error + (u64 revision_reservation \<times> revision_allocator)" where
  "reserve_world a =
     (let v = ra_next_world a
      in rbind (ok_or (RevisionOverflow ''InvalidHandle'') (checked_add v 1)) (\<lambda>n.
         Inr (\<lparr>rr_value = v, rr_finalized = False, rr_abandoned = False\<rparr>, a\<lparr>ra_next_world := n\<rparr>)))"

definition reserve_section ::
    "revision_allocator \<Rightarrow> revision_error + (u64 revision_reservation \<times> revision_allocator)" where
  "reserve_section a =
     (let v = ra_next_section a
      in rbind (ok_or (RevisionOverflow ''InvalidHandle'') (checked_add v 1)) (\<lambda>n.
         Inr (\<lparr>rr_value = v, rr_finalized = False, rr_abandoned = False\<rparr>, a\<lparr>ra_next_section := n\<rparr>)))"

text \<open>A history of reservation calls, and the revisions each domain handed out.\<close>

datatype revision_domain = WorldDomain | SectionDomain

fun reserve :: "revision_domain \<Rightarrow> revision_allocator \<Rightarrow>
    revision_error + (u64 revision_reservation \<times> revision_allocator)" where
  "reserve WorldDomain a = reserve_world a"
| "reserve SectionDomain a = reserve_section a"

fun domain_next :: "revision_domain \<Rightarrow> revision_allocator \<Rightarrow> u64" where
  "domain_next WorldDomain a = ra_next_world a"
| "domain_next SectionDomain a = ra_next_section a"

fun allocator_run ::
    "revision_domain list \<Rightarrow> revision_allocator \<Rightarrow> (revision_domain \<times> u64) list" where
  "allocator_run [] a = []"
| "allocator_run (d # ds) a =
     (case reserve d a of
        Inl e \<Rightarrow> allocator_run ds a
      | Inr (r, b) \<Rightarrow> (d, rr_value r) # allocator_run ds b)"

definition issued :: "revision_domain \<Rightarrow> (revision_domain \<times> u64) list \<Rightarrow> u64 list" where
  "issued d log = map snd (filter (\<lambda>e. fst e = d) log)"

lemma issued_simps [simp]:
  "issued d [] = []"
  "issued d ((d', v) # log) = (if d' = d then v # issued d log else issued d log)"
  by (simp_all add: issued_def)

lemma reserve_cases:
  obtains (full) "unat (domain_next d a) = 2 ^ 64 - 1" "reserve d a = Inl (RevisionOverflow ''InvalidHandle'')"
  | (ok) b where "unat (domain_next d a) < 2 ^ 64 - 1"
      "reserve d a = Inr (\<lparr>rr_value = domain_next d a, rr_finalized = False, rr_abandoned = False\<rparr>, b)"
      "unat (domain_next d b) = unat (domain_next d a) + 1"
      "\<And>d'. d' \<noteq> d \<Longrightarrow> domain_next d' b = domain_next d' a"
proof (cases "checked_add (domain_next d a) 1")
  case None
  then have "unat (domain_next d a) = 2 ^ 64 - 1"
    by (simp add: checked_add_one_None)
  then show ?thesis
    using None by (intro full) (cases d; simp add: reserve_world_def reserve_section_def Let_def)+
next
  case (Some n)
  let ?b = "(case d of WorldDomain \<Rightarrow> a\<lparr>ra_next_world := n\<rparr> | SectionDomain \<Rightarrow> a\<lparr>ra_next_section := n\<rparr>)"
  have n: "unat n = unat (domain_next d a) + 1"
    using checked_add_Some [OF Some] by simp
  have "unat n < 2 ^ LENGTH(64)" by (rule unsigned_less)
  then have "unat (domain_next d a) < 2 ^ 64 - 1" using n by simp
  moreover have "reserve d a =
      Inr (\<lparr>rr_value = domain_next d a, rr_finalized = False, rr_abandoned = False\<rparr>, ?b)"
    using Some by (cases d) (simp_all add: reserve_world_def reserve_section_def)
  moreover have "unat (domain_next d ?b) = unat (domain_next d a) + 1"
    using n by (cases d) simp_all
  moreover have "domain_next d' ?b = domain_next d' a" if "d' \<noteq> d" for d'
    using that by (cases d; cases d') simp_all
  ultimately show ?thesis by (rule ok)
qed

lemma allocator_run_exhausted: "unat (domain_next d a) = 2 ^ 64 - 1 \<Longrightarrow> issued d (allocator_run ds a) = []"
proof (induction ds arbitrary: a)
  case Nil
  then show ?case by simp
next
  case (Cons d' ds)
  show ?case
  proof (rule reserve_cases [of d' a])
    assume "reserve d' a = Inl (RevisionOverflow ''InvalidHandle'')"
    with Cons show ?thesis by simp
  next
    fix b
    assume b: "unat (domain_next d' a) < 2 ^ 64 - 1"
      "reserve d' a = Inr (\<lparr>rr_value = domain_next d' a, rr_finalized = False, rr_abandoned = False\<rparr>, b)"
      "\<And>e. e \<noteq> d' \<Longrightarrow> domain_next e b = domain_next e a"
    have "d' \<noteq> d" using b(1) Cons.prems by auto
    with b(2) b(3) [of d] Cons show ?thesis by simp
  qed
qed

lemma allocator_run_issued:
  "issued d (allocator_run ds a) =
     map of_nat [unat (domain_next d a) ..<
       min (unat (domain_next d a) + count_list ds d) (2 ^ 64 - 1)]"
proof (induction ds arbitrary: a)
  case Nil
  then show ?case by simp
next
  case (Cons d' ds)
  show ?case
  proof (rule reserve_cases [of d' a])
    assume full: "unat (domain_next d' a) = 2 ^ 64 - 1" "reserve d' a = Inl (RevisionOverflow ''InvalidHandle'')"
    with Cons show ?thesis by auto
  next
    fix b
    assume b: "unat (domain_next d' a) < 2 ^ 64 - 1"
      "reserve d' a = Inr (\<lparr>rr_value = domain_next d' a, rr_finalized = False, rr_abandoned = False\<rparr>, b)"
      "unat (domain_next d' b) = unat (domain_next d' a) + 1"
      "\<And>e. e \<noteq> d' \<Longrightarrow> domain_next e b = domain_next e a"
    show ?thesis
    proof (cases "d' = d")
      case True
      have "[unat (domain_next d a) ..< min (unat (domain_next d a) + count_list (d # ds) d) (2 ^ 64 - 1)] =
          unat (domain_next d a) #
          [unat (domain_next d b) ..< min (unat (domain_next d b) + count_list ds d) (2 ^ 64 - 1)]"
        using b(1,3) True by (subst upt_conv_Cons) auto
      with Cons [of b] b(2) True show ?thesis by (simp only: allocator_run.simps) simp
    next
      case False
      with Cons [of b] b(2) b(4) [of d] show ?thesis by simp
    qed
  qed
qed

lemma reservation_finalize_once:
  "reservation_finalize r = Inr (v, r') \<Longrightarrow>
     v = rr_value r \<and> reservation_finalize r' = Inl (RevisionDoubleFinalize ''HandleDoubleRelease'') \<and>
     reservation_finalize (reservation_abandon r') = Inl (RevisionAbandoned ''InvalidHandle'')"
  by (auto simp: reservation_finalize_def reservation_abandon_def split: if_splits)

text \<open>
  The revision allocator never reuses or skips a number and never wraps: whatever the
  interleaving of world and section reservations, each domain hands out the consecutive numbers
  from its own counter on, stopping at \<open>u64::MAX\<close>, and the other domain's calls do not disturb it.
\<close>

theorem allocator_issues_consecutively:
  "issued d (allocator_run ds a) =
     map of_nat [unat (domain_next d a) ..<
       min (unat (domain_next d a) + count_list ds d) (2 ^ 64 - 1)]"
  by (rule allocator_run_issued)

section \<open>Revision stamps\<close>

definition REVISION_STAMP_SCHEMA :: string where "REVISION_STAMP_SCHEMA = ''voxel-revision-stamp''"

record revision_stamp =
  rs_schema_id :: string
  rs_world_id :: string
  rs_context_id :: string
  rs_generation :: u64
  rs_world_revision :: u64
  rs_section_revision_set :: "(string, u64) fmap"

definition to_revision_stamp ::
    "string \<Rightarrow> string \<Rightarrow> u64 \<Rightarrow> u64 \<Rightarrow> (string \<times> u64) list \<Rightarrow> revision_stamp" where
  "to_revision_stamp world_id context_id generation world sections =
     \<lparr>rs_schema_id = REVISION_STAMP_SCHEMA, rs_world_id = world_id, rs_context_id = context_id,
      rs_generation = generation, rs_world_revision = world,
      rs_section_revision_set = fold (\<lambda>(i, rev) m. fmupd i rev m) sections fmempty\<rparr>"

section \<open>Pins\<close>

datatype pin_error = PinInvalidHandle string | PinBudgetExceeded string

fun pin_error_id :: "pin_error \<Rightarrow> string" where
  "pin_error_id (PinInvalidHandle i) = i"
| "pin_error_id (PinBudgetExceeded i) = i"

definition pin_invalid :: pin_error where "pin_invalid = PinInvalidHandle ''InvalidHandle''"
definition pin_budget :: pin_error where "pin_budget = PinBudgetExceeded ''BudgetExceeded''"

record live_pin =
  lp_stamp :: revision_stamp
  lp_refs :: nat

record registry_state =
  rg_context_id :: string
  rg_generation :: u64
  rg_max_pins :: nat
  rg_destroyed :: bool
  rg_next_id :: u64
  rg_slots :: "(u64, live_pin) fmap"

record pin_registry =
  pr_snapshot :: voxel_config_snapshot
  pr_inner :: registry_state

record revision_pin =
  rp_stamp :: revision_stamp
  rp_id :: u64

definition registry_from_approved_snapshot ::
    "voxel_config_snapshot \<Rightarrow> nat \<Rightarrow> string \<Rightarrow> u64 \<Rightarrow> pin_registry" where
  "registry_from_approved_snapshot snapshot max_pins context_id generation =
     \<lparr>pr_snapshot = snapshot,
      pr_inner = \<lparr>rg_context_id = context_id, rg_generation = generation, rg_max_pins = max_pins,
                  rg_destroyed = False, rg_next_id = 0, rg_slots = fmempty\<rparr>\<rparr>"

definition registry_config_hash :: "pin_registry \<Rightarrow> string" where
  "registry_config_hash r = cs_config_hash (pr_snapshot r)"

definition registry_destroy :: "registry_state \<Rightarrow> registry_state" where
  "registry_destroy s = s\<lparr>rg_destroyed := True\<rparr>"

text \<open>An error leaves the registry state as it was, so only the success case returns one.\<close>

definition try_pin ::
    "revision_stamp \<Rightarrow> registry_state \<Rightarrow> pin_error + (revision_pin \<times> registry_state)" where
  "try_pin stamp s =
     (if rg_destroyed s then Inl pin_invalid
      else if rs_schema_id stamp \<noteq> REVISION_STAMP_SCHEMA \<or> rs_context_id stamp \<noteq> rg_context_id s \<or>
              rs_generation stamp \<noteq> rg_generation s
      then Inl pin_invalid
      else if fm_len (rg_slots s) \<ge> rg_max_pins s then Inl pin_budget
      else
        let pid = rg_next_id s
        in rbind (ok_or pin_invalid (checked_add (rg_next_id s) 1)) (\<lambda>n.
           Inr (\<lparr>rp_stamp = stamp, rp_id = pid\<rparr>,
                s\<lparr>rg_next_id := n,
                  rg_slots := fmupd pid \<lparr>lp_stamp = stamp, lp_refs = 1\<rparr> (rg_slots s)\<rparr>)))"

definition pin_clone :: "revision_pin \<Rightarrow> registry_state \<Rightarrow> revision_pin \<times> registry_state" where
  "pin_clone p s =
     (p, case fmlookup (rg_slots s) (rp_id p) of
           None \<Rightarrow> s
         | Some slot \<Rightarrow> s\<lparr>rg_slots := fmupd (rp_id p)
             (slot\<lparr>lp_refs := usize_saturating_add (lp_refs slot) 1\<rparr>) (rg_slots s)\<rparr>)"

definition pin_drop :: "revision_pin \<Rightarrow> registry_state \<Rightarrow> registry_state" where
  "pin_drop p s =
     (case fmlookup (rg_slots s) (rp_id p) of
        None \<Rightarrow> s
      | Some slot \<Rightarrow>
          if lp_refs slot \<le> 1 then s\<lparr>rg_slots := fmdrop (rp_id p) (rg_slots s)\<rparr>
          else s\<lparr>rg_slots := fmupd (rp_id p) (slot\<lparr>lp_refs := lp_refs slot - 1\<rparr>) (rg_slots s)\<rparr>)"

text \<open>\<open>ReadViewLease\<close> wraps one pin; its stamp is the pin's.\<close>

record read_view_lease =
  rl_pin :: revision_pin

definition lease_from_pin :: "revision_pin \<Rightarrow> read_view_lease" where
  "lease_from_pin p = \<lparr>rl_pin = p\<rparr>"

definition lease_stamp :: "read_view_lease \<Rightarrow> revision_stamp" where
  "lease_stamp l = rp_stamp (rl_pin l)"

section \<open>Retention frontier\<close>

text \<open>
  \<open>Iterator::min_by\<close>: the first of the least elements; the comparison is by world revision and
  then by the section revision set, whose \<open>Ord\<close> is lexicographic over its entries.
\<close>

definition stamp_rank :: "revision_stamp \<Rightarrow> u64 \<times> (string \<times> u64) list" where
  "stamp_rank st = (rs_world_revision st, fm_entries (rs_section_revision_set st))"

fun first_min :: "('a \<Rightarrow> 'b::linorder) \<Rightarrow> 'a list \<Rightarrow> 'a option" where
  "first_min f [] = None"
| "first_min f (x # xs) =
     (case first_min f xs of None \<Rightarrow> Some x | Some y \<Rightarrow> if f y < f x then Some y else Some x)"

definition oldest_live :: "registry_state \<Rightarrow> revision_stamp option" where
  "oldest_live s = first_min stamp_rank (map (lp_stamp \<circ> snd) (fm_entries (rg_slots s)))"

lemma first_min_None_iff [simp]: "first_min f xs = None \<longleftrightarrow> xs = []"
  by (cases xs) (auto split: option.splits)

lemma first_min_Some:
  "first_min f xs = Some m \<Longrightarrow> m \<in> set xs \<and> (\<forall>x \<in> set xs. f m \<le> f x)"
  by (induction xs arbitrary: m) (auto split: option.splits if_splits)

section \<open>The pin account\<close>

definition handles_of :: "u64 \<Rightarrow> revision_pin multiset \<Rightarrow> nat" where
  "handles_of i H = count (image_mset rp_id H) i"

lemma handles_of_simps [simp]:
  "handles_of i {#} = 0"
  "handles_of i (add_mset h H) = (if rp_id h = i then Suc (handles_of i H) else handles_of i H)"
  by (simp_all add: handles_of_def)

lemma handles_of_pos_iff: "0 < handles_of i H \<longleftrightarrow> (\<exists>h. h \<in># H \<and> rp_id h = i)"
  by (auto simp: handles_of_def count_greater_zero_iff)

lemma handles_of_le: "handles_of i H \<le> size H"
  using count_le_size [of "image_mset rp_id H" i] by (simp add: handles_of_def)

definition slot_ok :: "registry_state \<Rightarrow> revision_pin multiset \<Rightarrow> u64 \<Rightarrow> live_pin \<Rightarrow> bool" where
  "slot_ok s H i slot \<longleftrightarrow>
     0 < lp_refs slot \<and> lp_refs slot = handles_of i H \<and> i < rg_next_id s \<and>
     (\<forall>h \<in># H. rp_id h = i \<longrightarrow> rp_stamp h = lp_stamp slot) \<and>
     rs_schema_id (lp_stamp slot) = REVISION_STAMP_SCHEMA \<and>
     rs_context_id (lp_stamp slot) = rg_context_id s \<and>
     rs_generation (lp_stamp slot) = rg_generation s"

definition pins_ok :: "registry_state \<Rightarrow> revision_pin multiset \<Rightarrow> bool" where
  "pins_ok s H \<longleftrightarrow>
     (\<forall>i slot. fmlookup (rg_slots s) i = Some slot \<longrightarrow> slot_ok s H i slot) \<and>
     (\<forall>h \<in># H. fm_has (rg_slots s) (rp_id h)) \<and>
     fm_len (rg_slots s) \<le> rg_max_pins s"

lemma pins_ok_new:
  "pins_ok (pr_inner (registry_from_approved_snapshot snapshot max_pins c g)) {#}"
  by (simp add: pins_ok_def registry_from_approved_snapshot_def)

lemma pins_ok_destroy: "pins_ok s H \<Longrightarrow> pins_ok (registry_destroy s) H"
proof -
  have "slot_ok (registry_destroy s) H = slot_ok s H"
    by (simp add: fun_eq_iff slot_ok_def registry_destroy_def)
  then show "pins_ok s H \<Longrightarrow> ?thesis"
    by (simp add: pins_ok_def registry_destroy_def)
qed

lemma pins_okD:
  assumes "pins_ok s H" "h \<in># H"
  obtains slot where "fmlookup (rg_slots s) (rp_id h) = Some slot" "slot_ok s H (rp_id h) slot"
    "lp_stamp slot = rp_stamp h" "lp_refs slot = handles_of (rp_id h) H" "rp_id h < rg_next_id s"
proof -
  from assms obtain slot where slot: "fmlookup (rg_slots s) (rp_id h) = Some slot"
    unfolding pins_ok_def by blast
  moreover from this assms(1) have ok: "slot_ok s H (rp_id h) slot"
    unfolding pins_ok_def by blast
  ultimately show ?thesis
    using assms(2) by (intro that) (auto simp: slot_ok_def)
qed

lemma pins_ok_fresh: "pins_ok s H \<Longrightarrow> rg_next_id s \<le> i \<Longrightarrow> fmlookup (rg_slots s) i = None \<and> handles_of i H = 0"
proof -
  assume ok: "pins_ok s H" and le: "rg_next_id s \<le> i"
  have "fmlookup (rg_slots s) i = None"
  proof (cases "fmlookup (rg_slots s) i")
    case (Some slot)
    with ok have "i < rg_next_id s" by (auto simp: pins_ok_def slot_ok_def)
    with le show ?thesis by simp
  qed simp
  moreover have "handles_of i H = 0"
  proof (rule ccontr)
    assume "handles_of i H \<noteq> 0"
    then obtain h where "h \<in># H" "rp_id h = i"
      using handles_of_pos_iff [of i H] by auto
    with ok le show False by (auto elim: pins_okD)
  qed
  ultimately show ?thesis by simp
qed

lemma try_pin_ok_iff:
  "try_pin stamp s = Inr (p, s') \<longleftrightarrow>
     \<not> rg_destroyed s \<and> rs_schema_id stamp = REVISION_STAMP_SCHEMA \<and>
     rs_context_id stamp = rg_context_id s \<and> rs_generation stamp = rg_generation s \<and>
     fm_len (rg_slots s) < rg_max_pins s \<and>
     checked_add (rg_next_id s) 1 = Some (rg_next_id s') \<and>
     p = \<lparr>rp_stamp = stamp, rp_id = rg_next_id s\<rparr> \<and>
     s' = s\<lparr>rg_next_id := rg_next_id s',
            rg_slots := fmupd (rg_next_id s) \<lparr>lp_stamp = stamp, lp_refs = 1\<rparr> (rg_slots s)\<rparr>"
  by (auto simp: try_pin_def result_iff Let_def split: if_splits)

text \<open>Replacing one slot: what has to be shown for the account to hold with another handle set.\<close>

lemma slot_ok_other:
  "slot_ok s H i slot \<Longrightarrow> handles_of i H' = handles_of i H \<Longrightarrow>
   (\<forall>h \<in># H'. rp_id h = i \<longrightarrow> h \<in># H) \<Longrightarrow> rg_next_id s \<le> rg_next_id s' \<Longrightarrow>
   rg_context_id s' = rg_context_id s \<Longrightarrow> rg_generation s' = rg_generation s \<Longrightarrow> slot_ok s' H' i slot"
  unfolding slot_ok_def by auto

lemma pins_ok_try_pin:
  assumes ok: "pins_ok s H" and pin: "try_pin stamp s = Inr (p, s')"
  shows "pins_ok s' (add_mset p H)"
proof -
  let ?i = "rg_next_id s"
  from pin have s': "s' = s\<lparr>rg_next_id := rg_next_id s',
      rg_slots := fmupd ?i \<lparr>lp_stamp = stamp, lp_refs = 1\<rparr> (rg_slots s)\<rparr>"
    and p: "p = \<lparr>rp_stamp = stamp, rp_id = ?i\<rparr>"
    and len: "fm_len (rg_slots s) < rg_max_pins s"
    and sch: "rs_schema_id stamp = REVISION_STAMP_SCHEMA" "rs_context_id stamp = rg_context_id s"
      "rs_generation stamp = rg_generation s"
    and nx: "checked_add ?i 1 = Some (rg_next_id s')"
    unfolding try_pin_ok_iff by blast+
  have lt: "?i < rg_next_id s'" using nx by (rule checked_add_one_greater)
  have fresh: "fmlookup (rg_slots s) ?i = None" "handles_of ?i H = 0"
    using pins_ok_fresh [OF ok, of ?i] by simp_all
  then have noid: "rp_id h \<noteq> ?i" if "h \<in># H" for h
    using handles_of_pos_iff [of ?i H] that by auto
  have slots: "rg_slots s' = fmupd ?i \<lparr>lp_stamp = stamp, lp_refs = 1\<rparr> (rg_slots s)"
    "rg_context_id s' = rg_context_id s" "rg_generation s' = rg_generation s"
    "rg_max_pins s' = rg_max_pins s" by (subst s', simp)+
  have "slot_ok s' (add_mset p H) i slot" if "fmlookup (rg_slots s') i = Some slot" for i slot
  proof (cases "i = ?i")
    case True
    with that fresh noid lt sch show ?thesis by (auto simp: slots slot_ok_def p)
  next
    case False
    with that ok have "slot_ok s H i slot" by (simp add: slots pins_ok_def)
    then show ?thesis
      by (rule slot_ok_other) (use False lt in \<open>auto simp: slots p\<close>)
  qed
  moreover have "fm_has (rg_slots s') (rp_id h)" if "h \<in># add_mset p H" for h
    using that ok by (auto simp: slots p pins_ok_def)
  moreover have "fm_len (rg_slots s') \<le> rg_max_pins s'"
    using len fresh by (simp add: slots fm_len_upd)
  ultimately show ?thesis by (simp add: pins_ok_def)
qed

lemma pin_clone_slots:
  "fmlookup (rg_slots s) (rp_id p) = Some slot \<Longrightarrow>
     snd (pin_clone p s) = s\<lparr>rg_slots := fmupd (rp_id p)
       (slot\<lparr>lp_refs := usize_saturating_add (lp_refs slot) 1\<rparr>) (rg_slots s)\<rparr>"
  by (simp add: pin_clone_def)

lemma pins_ok_clone:
  assumes ok: "pins_ok s H" and p: "p \<in># H" and room: "size H < usize_max"
  shows "pins_ok (snd (pin_clone p s)) (add_mset p H)"
proof -
  obtain slot where slot: "fmlookup (rg_slots s) (rp_id p) = Some slot" "slot_ok s H (rp_id p) slot"
    "lp_stamp slot = rp_stamp p" "lp_refs slot = handles_of (rp_id p) H"
    using ok p by (rule pins_okD)
  let ?s = "snd (pin_clone p s)"
  have "lp_refs slot < usize_max"
    using handles_of_le [of "rp_id p" H] room slot(4) by simp
  then have sat: "usize_saturating_add (lp_refs slot) 1 = Suc (lp_refs slot)"
    by (simp add: usize_saturating_add_def)
  have slots: "rg_slots ?s = fmupd (rp_id p) (slot\<lparr>lp_refs := Suc (lp_refs slot)\<rparr>) (rg_slots s)"
    "rg_context_id ?s = rg_context_id s" "rg_generation ?s = rg_generation s"
    "rg_max_pins ?s = rg_max_pins s" "rg_next_id ?s = rg_next_id s"
    by (simp_all only: pin_clone_slots [OF slot(1)] sat) simp_all
  have "slot_ok ?s (add_mset p H) i sl" if "fmlookup (rg_slots ?s) i = Some sl" for i sl
  proof (cases "i = rp_id p")
    case True
    with that slot show ?thesis by (auto simp: slots slot_ok_def)
  next
    case False
    with that ok have "slot_ok s H i sl" by (simp add: slots(1) pins_ok_def)
    then show ?thesis
      by (rule slot_ok_other) (use False in \<open>auto simp: slots\<close>)
  qed
  moreover have "fm_len (rg_slots ?s) \<le> rg_max_pins ?s"
    using ok slot(1) by (simp add: slots fm_len_upd pins_ok_def)
  moreover have "fm_has (rg_slots ?s) (rp_id h)" if "h \<in># add_mset p H" for h
    using that ok p by (auto simp: slots pins_ok_def)
  ultimately show ?thesis by (simp add: pins_ok_def)
qed

lemma handles_of_remove:
  "p \<in># H \<Longrightarrow> handles_of i (H - {#p#}) = (if rp_id p = i then handles_of i H - 1 else handles_of i H)"
  by (auto simp: handles_of_def image_mset_Diff)

lemma pins_ok_drop:
  assumes ok: "pins_ok s H" and p: "p \<in># H"
  shows "pins_ok (pin_drop p s) (H - {#p#})"
proof -
  obtain slot where slot: "fmlookup (rg_slots s) (rp_id p) = Some slot" "slot_ok s H (rp_id p) slot"
    "lp_stamp slot = rp_stamp p" "lp_refs slot = handles_of (rp_id p) H"
    using ok p by (rule pins_okD)
  have old: "slot_ok (pin_drop p s) (H - {#p#}) i sl"
    if "fmlookup (rg_slots s) i = Some sl" "i \<noteq> rp_id p" for i sl
  proof -
    from that ok have "slot_ok s H i sl" by (simp add: pins_ok_def)
    then show ?thesis
      by (rule slot_ok_other)
        (use that p in \<open>auto simp: handles_of_remove pin_drop_def slot dest: in_diffD\<close>)
  qed
  show ?thesis
  proof (cases "lp_refs slot \<le> 1")
    case True
    then have s': "pin_drop p s = s\<lparr>rg_slots := fmdrop (rp_id p) (rg_slots s)\<rparr>"
      using slot by (simp add: pin_drop_def)
    have "handles_of (rp_id p) (H - {#p#}) = 0"
      using True slot(4) p by (simp add: handles_of_remove)
    then have gone: "rp_id h \<noteq> rp_id p" if "h \<in># H - {#p#}" for h
      using handles_of_pos_iff [of "rp_id p" "H - {#p#}"] that by auto
    have "slot_ok (pin_drop p s) (H - {#p#}) i sl" if "fmlookup (rg_slots (pin_drop p s)) i = Some sl" for i sl
      using that old [of i sl] by (auto simp: s' split: if_splits)
    moreover have "fm_has (rg_slots (pin_drop p s)) (rp_id h)" if "h \<in># H - {#p#}" for h
      using that gone ok in_diffD [OF that] by (auto simp: s' pins_ok_def)
    moreover have "fm_len (rg_slots (pin_drop p s)) \<le> rg_max_pins (pin_drop p s)"
      using ok by (auto simp: s' fm_len_drop pins_ok_def)
    ultimately show ?thesis by (simp add: pins_ok_def)
  next
    case False
    then have s': "pin_drop p s = s\<lparr>rg_slots := fmupd (rp_id p) (slot\<lparr>lp_refs := lp_refs slot - 1\<rparr>) (rg_slots s)\<rparr>"
      using slot by (simp add: pin_drop_def)
    have "slot_ok (pin_drop p s) (H - {#p#}) i sl" if sl: "fmlookup (rg_slots (pin_drop p s)) i = Some sl" for i sl
    proof (cases "i = rp_id p")
      case True
      then have sl': "sl = slot\<lparr>lp_refs := lp_refs slot - 1\<rparr>" using sl by (simp add: s')
      have "handles_of (rp_id p) (H - {#p#}) = lp_refs slot - 1"
        using p slot(4) by (simp add: handles_of_remove)
      moreover have "rp_stamp h = lp_stamp slot" if "h \<in># H - {#p#}" "rp_id h = rp_id p" for h
        using in_diffD [OF that(1)] that(2) slot(2) unfolding slot_ok_def by blast
      ultimately show ?thesis
        using slot(2) \<open>\<not> lp_refs slot \<le> 1\<close> True by (simp add: sl' s' slot_ok_def)
    next
      case False
      with sl old [of i sl] show ?thesis by (simp add: s')
    qed
    moreover have "fm_has (rg_slots (pin_drop p s)) (rp_id h)" if "h \<in># H - {#p#}" for h
      using ok in_diffD [OF that] by (auto simp: s' pins_ok_def)
    moreover have "fm_len (rg_slots (pin_drop p s)) \<le> rg_max_pins (pin_drop p s)"
      using ok slot by (simp add: s' fm_len_upd pins_ok_def)
    ultimately show ?thesis by (simp add: pins_ok_def)
  qed
qed

text \<open>The pin registry provides the handle-table interface.\<close>

interpretation pins: handle_table pins_ok "\<lambda>p s. snd (pin_clone p s)" pin_drop
proof unfold_locales
  show "pins_ok (snd (pin_clone p s)) (add_mset p H)"
    if "pins_ok s H" "p \<in># H" "size H < usize_max" for s H p
    using that by (rule pins_ok_clone)
  show "pins_ok (pin_drop p s) (H - {#p#})" if "pins_ok s H" "p \<in># H" for s H p
    using that by (rule pins_ok_drop)
qed

section \<open>Histories of pins\<close>

text \<open>
  The states a registry reaches while pins are taken, cloned and dropped and the registry is
  destroyed. Fewer than \<open>usize::MAX\<close> handles exist at once: each takes memory.
\<close>

inductive pin_reach :: "registry_state \<Rightarrow> revision_pin multiset \<Rightarrow> bool" where
  pin_new: "pin_reach (pr_inner (registry_from_approved_snapshot snapshot max_pins c g)) {#}"
| pin_take: "pin_reach s H \<Longrightarrow> try_pin stamp s = Inr (p, s') \<Longrightarrow> pin_reach s' (add_mset p H)"
| pin_copy: "pin_reach s H \<Longrightarrow> p \<in># H \<Longrightarrow> size H < usize_max \<Longrightarrow> pin_reach (snd (pin_clone p s)) (add_mset p H)"
| pin_release: "pin_reach s H \<Longrightarrow> p \<in># H \<Longrightarrow> pin_reach (pin_drop p s) (H - {#p#})"
| pin_destroy: "pin_reach s H \<Longrightarrow> pin_reach (registry_destroy s) H"

lemma pin_reach_ok: "pin_reach s H \<Longrightarrow> pins_ok s H"
proof (induction rule: pin_reach.induct)
  case pin_new
  then show ?case by (rule pins_ok_new)
next
  case pin_take
  then show ?case by (auto intro: pins_ok_try_pin)
next
  case pin_copy
  then show ?case by (auto intro: pins.dup_ok)
next
  case pin_release
  then show ?case by (auto intro: pins.release_ok)
next
  case pin_destroy
  then show ?case by (auto intro: pins_ok_destroy)
qed

lemma pins_ok_slot_live: "pins_ok s H \<Longrightarrow> fmlookup (rg_slots s) i = Some slot \<Longrightarrow>
    \<exists>h. h \<in># H \<and> rp_id h = i \<and> rp_stamp h = lp_stamp slot"
proof -
  assume "pins_ok s H" "fmlookup (rg_slots s) i = Some slot"
  then have ok: "slot_ok s H i slot" by (simp add: pins_ok_def)
  then have "0 < handles_of i H" by (simp add: slot_ok_def)
  then obtain h where "h \<in># H" "rp_id h = i" by (auto simp: handles_of_pos_iff)
  with ok show ?thesis by (auto simp: slot_ok_def)
qed

lemma pins_ok_dom: "pins_ok s H \<Longrightarrow> fset (fmdom (rg_slots s)) = rp_id ` set_mset H"
proof -
  assume ok: "pins_ok s H"
  have "i \<in> fset (fmdom (rg_slots s)) \<longleftrightarrow> i \<in> rp_id ` set_mset H" for i
    using pins_ok_slot_live [OF ok, of i] ok by (auto simp: fmlookup_dom_iff pins_ok_def)
  then show ?thesis by blast
qed

lemma pins_ok_len: "pins_ok s H \<Longrightarrow> fm_len (rg_slots s) = card (rp_id ` set_mset H)"
  by (simp add: fm_len_def fcard.rep_eq pins_ok_dom)

lemma oldest_live_spec:
  assumes ok: "pins_ok s H"
  shows "(case oldest_live s of
      None \<Rightarrow> H = {#}
    | Some st \<Rightarrow> (\<exists>h. h \<in># H \<and> rp_stamp h = st) \<and>
        (\<forall>h. h \<in># H \<longrightarrow> stamp_rank st \<le> stamp_rank (rp_stamp h)))"
proof (cases "oldest_live s")
  case None
  then have "fm_len (rg_slots s) = 0"
    by (simp add: oldest_live_def flip: length_fm_entries)
  then have "H = {#}" using ok by (simp add: pins_ok_len)
  with None show ?thesis by simp
next
  case (Some st)
  let ?stamps = "map (lp_stamp \<circ> snd) (fm_entries (rg_slots s))"
  have mem: "x \<in> set ?stamps \<longleftrightarrow> (\<exists>i slot. fmlookup (rg_slots s) i = Some slot \<and> lp_stamp slot = x)" for x
    by (force simp flip: set_fm_entries)
  have min: "st \<in> set ?stamps" "\<forall>x \<in> set ?stamps. stamp_rank st \<le> stamp_rank x"
    using first_min_Some [of stamp_rank ?stamps st] Some by (simp_all add: oldest_live_def)
  have "\<exists>h. h \<in># H \<and> rp_stamp h = st"
    using min(1) unfolding mem by (blast dest: pins_ok_slot_live [OF ok])
  moreover have "stamp_rank st \<le> stamp_rank (rp_stamp h)" if "h \<in># H" for h
  proof -
    obtain slot where "fmlookup (rg_slots s) (rp_id h) = Some slot" "lp_stamp slot = rp_stamp h"
      using ok \<open>h \<in># H\<close> by (rule pins_okD)
    then have "rp_stamp h \<in> set ?stamps" unfolding mem by blast
    with min(2) show ?thesis by blast
  qed
  ultimately show ?thesis unfolding Some by simp
qed

section \<open>Properties of pins\<close>

text \<open>
  C33. The pin table accounts for exactly the live pins. In every state a registry reaches, each
  live pin has a slot that carries its stamp and counts its copies, every slot belongs to a live
  pin, and there are at most \<open>max_pins\<close> of them; a new pin is granted exactly when the registry is
  not destroyed, the stamp names its context and generation, fewer than \<open>max_pins\<close> distinct pins
  are live and the id counter is not exhausted, and its id is one no live pin has.
\<close>

theorem pin_table_accounts_for_live_pins:
  assumes "pin_reach s H"
  shows "(\<forall>h. h \<in># H \<longrightarrow> (\<exists>slot. fmlookup (rg_slots s) (rp_id h) = Some slot \<and>
        lp_stamp slot = rp_stamp h \<and> lp_refs slot = count (image_mset rp_id H) (rp_id h))) \<and>
    (\<forall>i. fm_has (rg_slots s) i \<longrightarrow> (\<exists>h. h \<in># H \<and> rp_id h = i)) \<and>
    card (rp_id ` set_mset H) \<le> rg_max_pins s \<and>
    (\<forall>stamp. (\<exists>p s'. try_pin stamp s = Inr (p, s')) \<longleftrightarrow>
        \<not> rg_destroyed s \<and> rs_schema_id stamp = REVISION_STAMP_SCHEMA \<and>
        rs_context_id stamp = rg_context_id s \<and> rs_generation stamp = rg_generation s \<and>
        card (rp_id ` set_mset H) < rg_max_pins s \<and> unat (rg_next_id s) \<noteq> 2 ^ 64 - 1) \<and>
    (\<forall>stamp p s' h. try_pin stamp s = Inr (p, s') \<longrightarrow> h \<in># H \<longrightarrow> rp_id h < rp_id p)"
proof -
  note ok = pin_reach_ok [OF assms]
  have 1: "\<exists>slot. fmlookup (rg_slots s) (rp_id h) = Some slot \<and>
      lp_stamp slot = rp_stamp h \<and> lp_refs slot = count (image_mset rp_id H) (rp_id h)" if "h \<in># H" for h
    by (rule pins_okD [OF ok that]) (auto simp: handles_of_def)
  have 2: "(\<exists>p s'. try_pin stamp s = Inr (p, s')) \<longleftrightarrow>
        \<not> rg_destroyed s \<and> rs_schema_id stamp = REVISION_STAMP_SCHEMA \<and>
        rs_context_id stamp = rg_context_id s \<and> rs_generation stamp = rg_generation s \<and>
        card (rp_id ` set_mset H) < rg_max_pins s \<and> unat (rg_next_id s) \<noteq> 2 ^ 64 - 1" for stamp
    using checked_add_one_None [of "rg_next_id s"]
    by (auto simp: try_pin_def result_iff Let_def pins_ok_len [OF ok])
  have 3: "rp_id h < rp_id p" if "try_pin stamp s = Inr (p, s')" "h \<in># H" for stamp p s' h
    using that(1) pins_okD [OF ok that(2)] by (auto simp: try_pin_ok_iff)
  have 4: "card (rp_id ` set_mset H) \<le> rg_max_pins s"
    using ok by (simp add: pins_ok_def flip: pins_ok_len [OF ok])
  have 5: "\<exists>h. h \<in># H \<and> rp_id h = i" if "fm_has (rg_slots s) i" for i
    using that pins_ok_slot_live [OF ok, of i] by auto
  show ?thesis
    using 1 2 3 4 5 by blast
qed

text \<open>A registry with one pinned stamp, cloned once.\<close>

definition sample_stamp :: "u64 \<Rightarrow> revision_stamp" where
  "sample_stamp r = to_revision_stamp ''w'' ''ctx'' 7 r [(''s:0:0:0'', r)]"

definition sample_snapshot :: voxel_config_snapshot where
  "sample_snapshot = \<lparr>cs_config_hash = replicate 64 (CHR ''0''), cs_allow_list = []\<rparr>"

definition sample_registry :: "nat \<Rightarrow> registry_state" where
  "sample_registry n = pr_inner (registry_from_approved_snapshot sample_snapshot n ''ctx'' 7)"

lemma sample_try_pin:
  "try_pin (sample_stamp r) (sample_registry 1) =
     Inr (\<lparr>rp_stamp = sample_stamp r, rp_id = 0\<rparr>,
       (sample_registry 1)\<lparr>rg_next_id := 1,
         rg_slots := fmupd 0 \<lparr>lp_stamp = sample_stamp r, lp_refs = 1\<rparr> fmempty\<rparr>)"
  by (simp add: try_pin_def sample_stamp_def to_revision_stamp_def sample_registry_def
      registry_from_approved_snapshot_def checked_add_def)

lemma sample_pin_reach:
  "pin_reach ((sample_registry 1)\<lparr>rg_next_id := 1,
      rg_slots := fmupd 0 \<lparr>lp_stamp = sample_stamp 3, lp_refs = 1\<rparr> fmempty\<rparr>)
     {#\<lparr>rp_stamp = sample_stamp 3, rp_id = 0\<rparr>#}"
  by (rule pin_take [OF _ sample_try_pin]) (simp add: sample_registry_def pin_new)

theorem pin_table_accounts_for_live_pins_witness:
  "\<not> (\<exists>p s'. try_pin (sample_stamp 3) ((sample_registry 1)\<lparr>rg_next_id := 1,
      rg_slots := fmupd 0 \<lparr>lp_stamp = sample_stamp 3, lp_refs = 1\<rparr> fmempty\<rparr>) = Inr (p, s'))"
  using pin_table_accounts_for_live_pins [OF sample_pin_reach]
  by (simp add: sample_registry_def registry_from_approved_snapshot_def)

text \<open>
  The retention frontier is exactly the least stamp that a live pin still holds: it is absent
  only when no pin is live, it is the stamp of some live pin, and no live pin holds a stamp that
  comes before it, by world revision and then by section revisions.
\<close>

theorem retention_frontier_is_least_live_stamp:
  assumes "pin_reach s H"
  shows "(case oldest_live s of
      None \<Rightarrow> H = {#}
    | Some st \<Rightarrow> (\<exists>h. h \<in># H \<and> rp_stamp h = st) \<and>
        (\<forall>h. h \<in># H \<longrightarrow> stamp_rank st \<le> stamp_rank (rp_stamp h)))"
  by (rule oldest_live_spec [OF pin_reach_ok [OF assms]])

theorem retention_frontier_is_least_live_stamp_witness:
  "oldest_live ((sample_registry 1)\<lparr>rg_next_id := 1,
      rg_slots := fmupd 0 \<lparr>lp_stamp = sample_stamp 3, lp_refs = 1\<rparr> fmempty\<rparr>) = Some (sample_stamp 3)"
  using retention_frontier_is_least_live_stamp [OF sample_pin_reach] by (simp split: option.splits)

end
