(* ===== verification/Publication.thy ===== *)
theory Publication
  imports Dirty Revision
begin

text \<open>
  \<open>publication/\<close>: the published state root, prepared publications and their one-shot tokens, and
  the authority that is the only writer of the published cut. The pin registry is a field of the
  authority; prepared publications share it, so \<open>prepared_seal\<close> takes and returns the authority.
  A move-only token is a value that a history removes when \<open>publish_once\<close> consumes it; dropping a
  token or a view is the release of its pin.
\<close>

section \<open>Errors\<close>

datatype publish_error =
    PubInvalidHandle string
  | PubHandleDoubleRelease string
  | PubSnapshotBaseMismatch string
  | PubSessionMismatch string
  | PubStaleEpoch string
  | PubBudgetExceeded string

fun publish_error_id :: "publish_error \<Rightarrow> string" where
  "publish_error_id (PubInvalidHandle i) = i"
| "publish_error_id (PubHandleDoubleRelease i) = i"
| "publish_error_id (PubSnapshotBaseMismatch i) = i"
| "publish_error_id (PubSessionMismatch i) = i"
| "publish_error_id (PubStaleEpoch i) = i"
| "publish_error_id (PubBudgetExceeded i) = i"

definition pub_invalid_handle :: publish_error where
  "pub_invalid_handle = PubInvalidHandle ''InvalidHandle''"

definition pub_handle_double_release :: publish_error where
  "pub_handle_double_release = PubHandleDoubleRelease ''HandleDoubleRelease''"

definition pub_snapshot_base_mismatch :: publish_error where
  "pub_snapshot_base_mismatch = PubSnapshotBaseMismatch ''SnapshotBaseMismatch''"

definition pub_session_mismatch :: publish_error where
  "pub_session_mismatch = PubSessionMismatch ''SessionMismatch''"

definition pub_stale_epoch :: publish_error where
  "pub_stale_epoch = PubStaleEpoch ''StaleEpoch''"

fun map_pin :: "pin_error \<Rightarrow> publish_error" where
  "map_pin (PinInvalidHandle i) = PubInvalidHandle i"
| "map_pin (PinBudgetExceeded i) = PubBudgetExceeded i"

section \<open>The published root\<close>

text \<open>The derived \<open>Debug\<close> texts that the fingerprint hashes.\<close>

definition dbg_schema_revision :: "u64 \<Rightarrow> string" where
  "dbg_schema_revision r = ''SchemaRevision('' @ dec_nat (unat r) @ '')''"

definition dbg_dirty_entry :: "dirty_entry \<Rightarrow> string" where
  "dbg_dirty_entry e =
     ''DirtyEntry { first: '' @ dbg_schema_revision (de_first e) @
     '', latest: '' @ dbg_schema_revision (de_latest e) @
     '', reason: '' @ dbg_str (de_reason e) @ '' }''"

definition dbg_dirty_frontier :: "dirty_frontier \<Rightarrow> string" where
  "dbg_dirty_frontier f =
     ''DirtyFrontier { world_id: '' @ dbg_str (df_world_id f) @
     '', generation: '' @ dec_nat (unat (df_generation f)) @
     '', entries: '' @ dbg_map dbg_section_id dbg_dirty_entry (fm_entries (df_entries f)) @ '' }''"

datatype auxiliary_indexes = AuxiliaryIndexes

definition auxiliary_indexes_is_empty :: "auxiliary_indexes \<Rightarrow> bool" where
  "auxiliary_indexes_is_empty x = True"

definition dbg_auxiliary_indexes :: "auxiliary_indexes \<Rightarrow> string" where
  "dbg_auxiliary_indexes x = ''AuxiliaryIndexes''"

definition fingerprint_bytes ::
    "revision_stamp \<Rightarrow> section_directory \<Rightarrow> dirty_frontier \<Rightarrow> auxiliary_indexes \<Rightarrow> digest option \<Rightarrow> u8 list" where
  "fingerprint_bytes stamp directory frontier indexes replacement_digest =
     str_bytes (rs_schema_id stamp) @ [0] @ str_bytes (rs_world_id stamp) @ [0] @
     str_bytes (rs_context_id stamp) @ [0] @
     le_bytes 8 (rs_generation stamp) @ le_bytes 8 (rs_world_revision stamp) @
     concat (map (\<lambda>(i, rev). str_bytes i @ [0] @ le_bytes 8 rev) (fm_entries (rs_section_revision_set stamp))) @
     directory_identity_bytes directory @ [0] @
     str_bytes (dbg_dirty_frontier frontier) @ [0] @
     str_bytes (dbg_auxiliary_indexes indexes) @
     (case replacement_digest of Some digest \<Rightarrow> digest | None \<Rightarrow> replicate 32 0)"

definition fingerprint ::
    "revision_stamp \<Rightarrow> section_directory \<Rightarrow> dirty_frontier \<Rightarrow> auxiliary_indexes \<Rightarrow> digest option \<Rightarrow> digest" where
  "fingerprint stamp directory frontier indexes replacement_digest =
     sha256 (fingerprint_bytes stamp directory frontier indexes replacement_digest)"

record published_state_root =
  ps_stamp :: revision_stamp
  ps_directory :: section_directory
  ps_dirty_frontier :: dirty_frontier
  ps_indexes :: auxiliary_indexes
  ps_identity :: digest

definition published_root_new ::
    "revision_stamp \<Rightarrow> section_directory \<Rightarrow> dirty_frontier \<Rightarrow> published_state_root" where
  "published_root_new stamp directory frontier =
     \<lparr>ps_stamp = stamp, ps_directory = directory, ps_dirty_frontier = frontier,
      ps_indexes = AuxiliaryIndexes,
      ps_identity = fingerprint stamp directory frontier AuxiliaryIndexes None\<rparr>"

definition incorporate_replacement :: "replacement \<Rightarrow> published_state_root \<Rightarrow> published_state_root" where
  "incorporate_replacement r root =
     root\<lparr>ps_identity := fingerprint (ps_stamp root) (ps_directory root) (ps_dirty_frontier root)
            (ps_indexes root) (Some (rp_digest r))\<rparr>"

section \<open>Authority, prepared publication and token\<close>

record publication_token =
  tk_id :: u64
  tk_base_identity :: digest
  tk_world_id :: string
  tk_context_id :: string
  tk_generation :: u64
  tk_new_root :: published_state_root
  tk_pin :: revision_pin

record prepared_publication =
  pp_token_id :: u64
  pp_base_identity :: digest
  pp_world_id :: string
  pp_context_id :: string
  pp_generation :: u64
  pp_new_root :: published_state_root
  pp_sealed :: bool

record published_read_view =
  rv_root :: published_state_root
  rv_lease :: read_view_lease

record publication_authority =
  pa_world_id :: string
  pa_context_id :: string
  pa_generation :: u64
  pa_pins :: pin_registry
  pa_root :: published_state_root
  pa_pin :: revision_pin
  pa_next_token_id :: u64

abbreviation pa_registry :: "publication_authority \<Rightarrow> registry_state" where
  "pa_registry a \<equiv> pr_inner (pa_pins a)"

definition pa_with_registry :: "registry_state \<Rightarrow> publication_authority \<Rightarrow> publication_authority" where
  "pa_with_registry s a = a\<lparr>pa_pins := (pa_pins a)\<lparr>pr_inner := s\<rparr>\<rparr>"

definition view_from_parts :: "published_state_root \<Rightarrow> revision_pin \<Rightarrow> published_read_view" where
  "view_from_parts root pin = \<lparr>rv_root = root, rv_lease = lease_from_pin pin\<rparr>"

definition view_stamp :: "published_read_view \<Rightarrow> revision_stamp" where
  "view_stamp v = ps_stamp (rv_root v)"

definition check_stamp :: "string \<Rightarrow> string \<Rightarrow> u64 \<Rightarrow> revision_stamp \<Rightarrow> publish_error + unit" where
  "check_stamp world_id context_id generation stamp =
     (if rs_schema_id stamp \<noteq> REVISION_STAMP_SCHEMA then Inl pub_invalid_handle
      else if rs_world_id stamp \<noteq> world_id \<or> rs_context_id stamp \<noteq> context_id
      then Inl pub_session_mismatch
      else if rs_generation stamp \<noteq> generation then Inl pub_stale_epoch
      else Inr ())"

definition authority_new ::
    "string \<Rightarrow> string \<Rightarrow> u64 \<Rightarrow> pin_registry \<Rightarrow> published_state_root \<Rightarrow>
     publish_error + publication_authority" where
  "authority_new world_id context_id generation pins initial =
     (if world_id = [] \<or> context_id = [] then Inl pub_invalid_handle
      else
        rbind (check_stamp world_id context_id generation (ps_stamp initial)) (\<lambda>_.
        rbind (map_err map_pin (try_pin (ps_stamp initial) (pr_inner pins))) (\<lambda>(pin, s).
        Inr \<lparr>pa_world_id = world_id, pa_context_id = context_id, pa_generation = generation,
             pa_pins = pins\<lparr>pr_inner := s\<rparr>, pa_root = initial, pa_pin = pin,
             pa_next_token_id = 0\<rparr>)))"

definition authority_capture ::
    "publication_authority \<Rightarrow> published_read_view \<times> publication_authority" where
  "authority_capture a =
     (let (pin, s) = pin_clone (pa_pin a) (pa_registry a)
      in (view_from_parts (pa_root a) pin, pa_with_registry s a))"

definition authority_prepare ::
    "u64 \<Rightarrow> published_state_root \<Rightarrow> replacement \<Rightarrow> publication_authority \<Rightarrow>
     publish_error + (prepared_publication \<times> publication_authority)" where
  "authority_prepare target_revision new_root replacement a =
     rbind (check_stamp (pa_world_id a) (pa_context_id a) (pa_generation a) (ps_stamp new_root)) (\<lambda>_.
       if target_revision \<noteq> rs_world_revision (ps_stamp new_root) then Inl pub_invalid_handle
       else
         let root = incorporate_replacement replacement new_root;
             token_id = pa_next_token_id a
         in rbind (ok_or pub_invalid_handle (checked_add token_id 1)) (\<lambda>n.
            Inr (\<lparr>pp_token_id = token_id, pp_base_identity = ps_identity (pa_root a),
                  pp_world_id = pa_world_id a, pp_context_id = pa_context_id a,
                  pp_generation = pa_generation a, pp_new_root = root, pp_sealed = False\<rparr>,
                 a\<lparr>pa_next_token_id := n\<rparr>)))"

definition prepared_new_root_identity :: "prepared_publication \<Rightarrow> digest" where
  "prepared_new_root_identity p = ps_identity (pp_new_root p)"

definition prepared_seal ::
    "prepared_publication \<Rightarrow> publication_authority \<Rightarrow>
     publish_error + (publication_token \<times> prepared_publication \<times> publication_authority)" where
  "prepared_seal p a =
     (if pp_sealed p then Inl pub_handle_double_release
      else
        rbind (map_err map_pin (try_pin (ps_stamp (pp_new_root p)) (pa_registry a))) (\<lambda>(pin, s).
        Inr (\<lparr>tk_id = pp_token_id p, tk_base_identity = pp_base_identity p,
              tk_world_id = pp_world_id p, tk_context_id = pp_context_id p,
              tk_generation = pp_generation p, tk_new_root = pp_new_root p, tk_pin = pin\<rparr>,
             p\<lparr>pp_sealed := True\<rparr>, pa_with_registry s a)))"

text \<open>Every refusal drops the token, and with it the pin the token holds.\<close>

definition token_drop :: "publication_token \<Rightarrow> publication_authority \<Rightarrow> publication_authority" where
  "token_drop t a = pa_with_registry (pin_drop (tk_pin t) (pa_registry a)) a"

definition view_drop :: "published_read_view \<Rightarrow> publication_authority \<Rightarrow> publication_authority" where
  "view_drop v a = pa_with_registry (pin_drop (rl_pin (rv_lease v)) (pa_registry a)) a"

definition authority_publish_once ::
    "publication_token \<Rightarrow> publication_authority \<Rightarrow>
     (publish_error + published_read_view) \<times> publication_authority" where
  "authority_publish_once t a =
     (if tk_world_id t \<noteq> pa_world_id a \<or> tk_context_id t \<noteq> pa_context_id a
      then (Inl pub_session_mismatch, token_drop t a)
      else if tk_generation t \<noteq> pa_generation a then (Inl pub_stale_epoch, token_drop t a)
      else if tk_base_identity t \<noteq> ps_identity (pa_root a)
      then (Inl pub_snapshot_base_mismatch, token_drop t a)
      else
        let (view_pin, s) = pin_clone (tk_pin t) (pa_registry a);
            s' = pin_drop (pa_pin a) s
        in (Inr (view_from_parts (tk_new_root t) view_pin),
            (pa_with_registry s' a)\<lparr>pa_root := tk_new_root t, pa_pin := tk_pin t\<rparr>))"

section \<open>Histories\<close>

definition view_pin :: "published_read_view \<Rightarrow> revision_pin" where
  "view_pin v = rl_pin (rv_lease v)"

definition handles ::
    "publication_authority \<Rightarrow> publication_token multiset \<Rightarrow> published_read_view multiset \<Rightarrow>
     revision_pin multiset" where
  "handles a T V = add_mset (pa_pin a) (image_mset tk_pin T + image_mset view_pin V)"

text \<open>
  What the authority, the outstanding prepared publications \<open>P\<close>, tokens \<open>T\<close> and views \<open>V\<close> go
  through. Two handles of room are left for the clones a step makes.
\<close>

inductive pub_reach ::
    "publication_authority \<Rightarrow> prepared_publication multiset \<Rightarrow> publication_token multiset \<Rightarrow>
     published_read_view multiset \<Rightarrow> bool" where
  pub_new: "authority_new w c g (registry_from_approved_snapshot snapshot max_pins rc rg) initial = Inr a \<Longrightarrow>
    pub_reach a {#} {#} {#}"
| pub_capture: "pub_reach a P T V \<Longrightarrow> size (handles a T V) + 2 < usize_max \<Longrightarrow>
    authority_capture a = (v, a') \<Longrightarrow> pub_reach a' P T (add_mset v V)"
| pub_clone: "pub_reach a P T V \<Longrightarrow> v \<in># V \<Longrightarrow> size (handles a T V) + 2 < usize_max \<Longrightarrow>
    pub_reach (pa_with_registry (snd (pin_clone (view_pin v) (pa_registry a))) a) P T (add_mset v V)"
| pub_prepare: "pub_reach a P T V \<Longrightarrow> authority_prepare target root r a = Inr (p, a') \<Longrightarrow>
    pub_reach a' (add_mset p P) T V"
| pub_seal: "pub_reach a (add_mset p P) T V \<Longrightarrow> prepared_seal p a = Inr (t, p', a') \<Longrightarrow>
    pub_reach a' (add_mset p' P) (add_mset t T) V"
| pub_refused: "pub_reach a P (add_mset t T) V \<Longrightarrow> authority_publish_once t a = (Inl e, a') \<Longrightarrow>
    pub_reach a' P T V"
| pub_publish: "pub_reach a P (add_mset t T) V \<Longrightarrow> size (handles a T V) + 2 < usize_max \<Longrightarrow>
    authority_publish_once t a = (Inr v, a') \<Longrightarrow> pub_reach a' P T (add_mset v V)"
| pub_token_drop: "pub_reach a P (add_mset t T) V \<Longrightarrow> pub_reach (token_drop t a) P T V"
| pub_view_drop: "pub_reach a P T (add_mset v V) \<Longrightarrow> pub_reach (view_drop v a) P T V"
| pub_destroy: "pub_reach a P T V \<Longrightarrow>
    pub_reach (pa_with_registry (registry_destroy (pa_registry a)) a) P T V"

text \<open>Each cut in flight is pinned by its own stamp and belongs to this authority.\<close>

definition cut_ok :: "publication_authority \<Rightarrow> published_state_root \<Rightarrow> bool" where
  "cut_ok a root \<longleftrightarrow> check_stamp (pa_world_id a) (pa_context_id a) (pa_generation a) (ps_stamp root) = Inr ()"

definition token_ok :: "publication_authority \<Rightarrow> publication_token \<Rightarrow> bool" where
  "token_ok a t \<longleftrightarrow> cut_ok a (tk_new_root t) \<and> rp_stamp (tk_pin t) = ps_stamp (tk_new_root t) \<and>
     tk_world_id t = pa_world_id a \<and> tk_context_id t = pa_context_id a \<and> tk_generation t = pa_generation a"

definition prepared_ok :: "publication_authority \<Rightarrow> prepared_publication \<Rightarrow> bool" where
  "prepared_ok a p \<longleftrightarrow> cut_ok a (pp_new_root p) \<and>
     pp_world_id p = pa_world_id a \<and> pp_context_id p = pa_context_id a \<and> pp_generation p = pa_generation a"

definition view_ok :: "publication_authority \<Rightarrow> published_read_view \<Rightarrow> bool" where
  "view_ok a v \<longleftrightarrow> cut_ok a (rv_root v) \<and> rp_stamp (view_pin v) = ps_stamp (rv_root v)"

definition pub_ok ::
    "publication_authority \<Rightarrow> prepared_publication multiset \<Rightarrow> publication_token multiset \<Rightarrow>
     published_read_view multiset \<Rightarrow> bool" where
  "pub_ok a P T V \<longleftrightarrow>
     pins_ok (pa_registry a) (handles a T V) \<and>
     cut_ok a (pa_root a) \<and> rp_stamp (pa_pin a) = ps_stamp (pa_root a) \<and>
     (\<forall>p. p \<in># P \<longrightarrow> prepared_ok a p) \<and> (\<forall>t. t \<in># T \<longrightarrow> token_ok a t) \<and> (\<forall>v. v \<in># V \<longrightarrow> view_ok a v)"

lemma pa_with_registry_simps [simp]:
  "pa_world_id (pa_with_registry s a) = pa_world_id a" "pa_context_id (pa_with_registry s a) = pa_context_id a"
  "pa_generation (pa_with_registry s a) = pa_generation a" "pa_root (pa_with_registry s a) = pa_root a"
  "pa_pin (pa_with_registry s a) = pa_pin a" "pa_next_token_id (pa_with_registry s a) = pa_next_token_id a"
  "pa_registry (pa_with_registry s a) = s"
  by (simp_all add: pa_with_registry_def)

text \<open>The context of an authority never changes, so the cuts in flight stay its own.\<close>

definition same_owner :: "publication_authority \<Rightarrow> publication_authority \<Rightarrow> bool" where
  "same_owner a b \<longleftrightarrow> pa_world_id b = pa_world_id a \<and> pa_context_id b = pa_context_id a \<and>
     pa_generation b = pa_generation a"

lemma same_owner_ok:
  assumes "same_owner a b"
  shows "cut_ok b = cut_ok a" "token_ok b = token_ok a" "prepared_ok b = prepared_ok a" "view_ok b = view_ok a"
  using assms
  by (simp_all add: fun_eq_iff same_owner_def cut_ok_def token_ok_def prepared_ok_def view_ok_def)

lemma same_owner_registry [simp]: "same_owner a (pa_with_registry s a)"
  by (simp add: same_owner_def)

lemma pin_clone_fst: "pin_clone p s = (q, s') \<longleftrightarrow> q = p \<and> s' = snd (pin_clone p s)"
  by (auto simp: pin_clone_def)

lemma try_pin_stamp: "try_pin stamp s = Inr (p, s') \<Longrightarrow> rp_stamp p = stamp"
  by (auto simp: try_pin_ok_iff)

text \<open>The shape of each operation's result.\<close>

lemma authority_capture_iff:
  "authority_capture a = (v, a') \<longleftrightarrow>
     v = view_from_parts (pa_root a) (pa_pin a) \<and>
     a' = pa_with_registry (snd (pin_clone (pa_pin a) (pa_registry a))) a"
  by (auto simp: authority_capture_def pin_clone_def)

lemma authority_prepare_Inr:
  "authority_prepare target root r a = Inr (p, a') \<Longrightarrow>
     prepared_ok a p \<and> \<not> pp_sealed p \<and> pp_base_identity p = ps_identity (pa_root a) \<and>
     pp_token_id p = pa_next_token_id a \<and> pp_new_root p = incorporate_replacement r root \<and>
     a' = a\<lparr>pa_next_token_id := pa_next_token_id a'\<rparr> \<and>
     pa_next_token_id a < pa_next_token_id a'"
  by (auto simp: authority_prepare_def result_iff Let_def prepared_ok_def cut_ok_def
      incorporate_replacement_def checked_add_one_greater split: if_splits)

lemma prepared_seal_Inr:
  "prepared_seal p a = Inr (t, p', a') \<Longrightarrow>
     \<exists>s. try_pin (ps_stamp (pp_new_root p)) (pa_registry a) = Inr (tk_pin t, s) \<and>
       a' = pa_with_registry s a \<and> p' = p\<lparr>pp_sealed := True\<rparr> \<and> \<not> pp_sealed p \<and>
       tk_id t = pp_token_id p \<and> tk_base_identity t = pp_base_identity p \<and>
       tk_world_id t = pp_world_id p \<and> tk_context_id t = pp_context_id p \<and>
       tk_generation t = pp_generation p \<and> tk_new_root t = pp_new_root p"
  by (auto simp: prepared_seal_def result_iff split: if_splits)

definition publish_refusal :: "publication_token \<Rightarrow> publication_authority \<Rightarrow> publish_error option" where
  "publish_refusal t a =
     (if tk_world_id t \<noteq> pa_world_id a \<or> tk_context_id t \<noteq> pa_context_id a then Some pub_session_mismatch
      else if tk_generation t \<noteq> pa_generation a then Some pub_stale_epoch
      else if tk_base_identity t \<noteq> ps_identity (pa_root a) then Some pub_snapshot_base_mismatch
      else None)"

definition published :: "publication_token \<Rightarrow> publication_authority \<Rightarrow> publication_authority" where
  "published t a =
     (pa_with_registry (pin_drop (pa_pin a) (snd (pin_clone (tk_pin t) (pa_registry a)))) a)
       \<lparr>pa_root := tk_new_root t, pa_pin := tk_pin t\<rparr>"

lemma publish_once_cases:
  "authority_publish_once t a =
     (case publish_refusal t a of
        Some e \<Rightarrow> (Inl e, token_drop t a)
      | None \<Rightarrow> (Inr (view_from_parts (tk_new_root t) (tk_pin t)), published t a))"
  by (simp add: authority_publish_once_def publish_refusal_def published_def pin_clone_def Let_def
      split: prod.splits)

lemma view_pin_from_parts [simp]: "view_pin (view_from_parts root pin) = pin" "rv_root (view_from_parts root pin) = root"
  by (simp_all add: view_pin_def view_from_parts_def lease_from_pin_def)

section \<open>The account is kept by every step\<close>

lemma handles_add:
  "handles a (add_mset t T) V = add_mset (tk_pin t) (handles a T V)"
  "handles a T (add_mset v V) = add_mset (view_pin v) (handles a T V)"
  by (simp_all add: handles_def)

lemma handles_same: "pa_pin b = pa_pin a \<Longrightarrow> handles b T V = handles a T V"
  by (simp add: handles_def)

lemma handles_registry [simp]: "handles (pa_with_registry s a) T V = handles a T V"
  by (rule handles_same) simp

lemmas owner_registry = same_owner_ok [OF same_owner_registry]

lemma published_simps [simp]:
  "pa_root (published t a) = tk_new_root t" "pa_pin (published t a) = tk_pin t"
  "pa_registry (published t a) = pin_drop (pa_pin a) (snd (pin_clone (tk_pin t) (pa_registry a)))"
  "pa_world_id (published t a) = pa_world_id a" "pa_context_id (published t a) = pa_context_id a"
  "pa_generation (published t a) = pa_generation a"
  "pa_next_token_id (published t a) = pa_next_token_id a"
  by (simp_all add: published_def)

lemma pub_ok_new:
  assumes "authority_new w c g (registry_from_approved_snapshot snapshot max_pins rc rg) initial = Inr a"
  shows "pub_ok a {#} {#} {#}"
proof -
  let ?r = "registry_from_approved_snapshot snapshot max_pins rc rg"
  from assms obtain pin s where pin: "try_pin (ps_stamp initial) (pr_inner ?r) = Inr (pin, s)"
    and chk: "check_stamp w c g (ps_stamp initial) = Inr ()"
    and a: "a = \<lparr>pa_world_id = w, pa_context_id = c, pa_generation = g, pa_pins = ?r\<lparr>pr_inner := s\<rparr>,
        pa_root = initial, pa_pin = pin, pa_next_token_id = 0\<rparr>"
    by (auto simp: authority_new_def result_iff split: if_splits)
  from pins_ok_try_pin [OF pins_ok_new pin] try_pin_stamp [OF pin] chk show ?thesis
    by (simp add: a pub_ok_def handles_def cut_ok_def)
qed

lemma pub_ok_capture:
  assumes "pub_ok a P T V" "size (handles a T V) + 2 < usize_max" "authority_capture a = (v, a')"
  shows "pub_ok a' P T (add_mset v V)"
proof -
  let ?s = "snd (pin_clone (pa_pin a) (pa_registry a))"
  from assms(3) have v: "v = view_from_parts (pa_root a) (pa_pin a)" and a': "a' = pa_with_registry ?s a"
    by (simp_all add: authority_capture_iff)
  have "pins_ok ?s (add_mset (pa_pin a) (handles a T V))"
    using assms(1,2) by (intro pins.dup_ok) (simp_all add: pub_ok_def handles_def)
  with assms(1) show ?thesis
    by (auto simp: pub_ok_def a' v handles_add owner_registry
        view_ok_def)
qed

lemma pub_ok_clone:
  assumes "pub_ok a P T V" "v \<in># V" "size (handles a T V) + 2 < usize_max"
  shows "pub_ok (pa_with_registry (snd (pin_clone (view_pin v) (pa_registry a))) a) P T (add_mset v V)"
proof -
  have "pins_ok (snd (pin_clone (view_pin v) (pa_registry a))) (add_mset (view_pin v) (handles a T V))"
    using assms by (intro pins.dup_ok) (auto simp: pub_ok_def handles_def)
  with assms(1,2) show ?thesis by (auto simp: pub_ok_def handles_add owner_registry)
qed

lemma pub_ok_prepare:
  assumes "pub_ok a P T V" "authority_prepare target root r a = Inr (p, a')"
  shows "pub_ok a' (add_mset p P) T V"
proof -
  note prep = authority_prepare_Inr [OF assms(2)]
  then have a': "a' = a\<lparr>pa_next_token_id := pa_next_token_id a'\<rparr>" by blast
  have same: "same_owner a a'" "pa_registry a' = pa_registry a" "pa_root a' = pa_root a" "pa_pin a' = pa_pin a"
    by (subst a', simp add: same_owner_def)+
  with assms(1) prep show ?thesis
    by (auto simp: pub_ok_def handles_same [OF same(4)] same_owner_ok [OF same(1)])
qed

lemma pub_ok_seal:
  assumes "pub_ok a (add_mset p P) T V" "prepared_seal p a = Inr (t, p', a')"
  shows "pub_ok a' (add_mset p' P) (add_mset t T) V"
proof -
  from prepared_seal_Inr [OF assms(2)] obtain s where
    pin: "try_pin (ps_stamp (pp_new_root p)) (pa_registry a) = Inr (tk_pin t, s)"
    and a': "a' = pa_with_registry s a" and p': "p' = p\<lparr>pp_sealed := True\<rparr>"
    and t: "tk_world_id t = pp_world_id p" "tk_context_id t = pp_context_id p"
      "tk_generation t = pp_generation p" "tk_new_root t = pp_new_root p"
    by blast
  from assms(1) have ok: "pins_ok (pa_registry a) (handles a T V)" and p: "prepared_ok a p"
    by (simp_all add: pub_ok_def)
  have "token_ok a t" "prepared_ok a p'"
    using p try_pin_stamp [OF pin] by (simp_all add: token_ok_def prepared_ok_def t p')
  with assms(1) pins_ok_try_pin [OF ok pin] show ?thesis
    by (auto simp: pub_ok_def a' handles_add owner_registry)
qed

lemma pub_ok_token_drop: "pub_ok a P (add_mset t T) V \<Longrightarrow> pub_ok (token_drop t a) P T V"
  unfolding pub_ok_def token_drop_def
  by (auto simp: handles_add owner_registry
      intro: pins.release_added)

lemma pub_ok_view_drop: "pub_ok a P T (add_mset v V) \<Longrightarrow> pub_ok (view_drop v a) P T V"
  unfolding pub_ok_def view_drop_def
  by (auto simp: handles_add owner_registry view_pin_def
      intro: pins.release_added)

lemma pub_ok_destroy:
  "pub_ok a P T V \<Longrightarrow> pub_ok (pa_with_registry (registry_destroy (pa_registry a)) a) P T V"
  unfolding pub_ok_def
  by (auto simp: owner_registry intro: pins_ok_destroy)

lemma same_owner_published: "same_owner a (published t a)"
  by (simp add: same_owner_def)

lemmas owner_published = same_owner_ok [OF same_owner_published]

lemma pub_ok_published:
  assumes "pub_ok a P (add_mset t T) V" "size (handles a T V) + 2 < usize_max"
  shows "pub_ok (published t a) P T (add_mset (view_from_parts (tk_new_root t) (tk_pin t)) V)"
proof -
  let ?rest = "image_mset tk_pin T + image_mset view_pin V"
  have "pins_ok (pa_registry a) (add_mset (pa_pin a) (add_mset (tk_pin t) ?rest))"
    using assms(1) by (simp add: pub_ok_def handles_def)
  moreover have "size ?rest + 2 < usize_max" using assms(2) by (simp add: handles_def)
  ultimately have "pins_ok (pin_drop (pa_pin a) (snd (pin_clone (tk_pin t) (pa_registry a))))
      (add_mset (tk_pin t) (add_mset (tk_pin t) ?rest))"
    by (rule pins.exchange)
  moreover have "token_ok a t" using assms(1) by (simp add: pub_ok_def)
  ultimately show ?thesis
    using assms(1)
    by (auto simp: pub_ok_def handles_def owner_published token_ok_def view_ok_def)
qed

lemma pub_reach_ok: "pub_reach a P T V \<Longrightarrow> pub_ok a P T V"
proof (induction rule: pub_reach.induct)
  case pub_new
  then show ?case by (rule Publication.pub_ok_new)
next
  case pub_capture
  then show ?case by (blast intro: pub_ok_capture)
next
  case pub_clone
  then show ?case by (blast intro: pub_ok_clone)
next
  case pub_prepare
  then show ?case by (blast intro: pub_ok_prepare)
next
  case pub_seal
  then show ?case by (blast intro: pub_ok_seal)
next
  case pub_refused
  then show ?case by (auto simp: publish_once_cases intro: pub_ok_token_drop split: option.splits)
next
  case pub_publish
  then show ?case by (auto simp: publish_once_cases intro: pub_ok_published split: option.splits)
next
  case pub_token_drop
  then show ?case by (blast intro: Publication.pub_ok_token_drop)
next
  case pub_view_drop
  then show ?case by (blast intro: Publication.pub_ok_view_drop)
next
  case pub_destroy
  then show ?case by (blast intro: Publication.pub_ok_destroy)
qed

section \<open>Properties\<close>

lemma card_set_mset_le: "card (set_mset M) \<le> size M"
  by (induction M) (auto simp: card_insert_if)

lemma pub_ok_token: "pub_ok a P T V \<Longrightarrow> t \<in># T \<Longrightarrow> token_ok a t"
  by (simp add: pub_ok_def)

lemma token_refusal:
  "token_ok a t \<Longrightarrow> publish_refusal t a =
      (if tk_base_identity t = ps_identity (pa_root a) then None else Some pub_snapshot_base_mismatch)"
  by (simp add: token_ok_def publish_refusal_def)

lemma token_owner_matches:
  assumes "pub_ok a P (add_mset t T) V"
  shows "publish_refusal t a =
      (if tk_base_identity t = ps_identity (pa_root a) then None else Some pub_snapshot_base_mismatch)"
  by (rule token_refusal [OF pub_ok_token [OF assms]]) simp

lemma publish_once_effect:
  assumes "pub_ok a P (add_mset t T) V"
  shows "(case authority_publish_once t a of
      (Inr v, b) \<Rightarrow> tk_base_identity t = ps_identity (pa_root a) \<and>
        pa_root b = tk_new_root t \<and> rv_root v = tk_new_root t \<and>
        lease_stamp (rv_lease v) = ps_stamp (tk_new_root t) \<and>
        (\<forall>u. u \<in># T \<longrightarrow> tk_base_identity u \<noteq> ps_identity (tk_new_root t) \<longrightarrow>
           fst (authority_publish_once u b) = Inl pub_snapshot_base_mismatch)
    | (Inl e, b) \<Rightarrow> tk_base_identity t \<noteq> ps_identity (pa_root a) \<and>
        e = pub_snapshot_base_mismatch \<and> pa_root b = pa_root a \<and> pa_pin b = pa_pin a)"
proof (cases "tk_base_identity t = ps_identity (pa_root a)")
  case True
  have "fst (authority_publish_once u (published t a)) = Inl pub_snapshot_base_mismatch"
    if "u \<in># T" "tk_base_identity u \<noteq> ps_identity (tk_new_root t)" for u
  proof -
    have "token_ok a u" using that(1) by (intro pub_ok_token [OF assms]) simp
    then have "token_ok (published t a) u" by (simp add: owner_published)
    then have "publish_refusal u (published t a) = Some pub_snapshot_base_mismatch"
      using that(2) by (simp add: token_refusal)
    then show ?thesis by (simp add: publish_once_cases)
  qed
  moreover have "authority_publish_once t a = (Inr (view_from_parts (tk_new_root t) (tk_pin t)), published t a)"
    using True by (simp add: publish_once_cases token_owner_matches [OF assms])
  moreover have "lease_stamp (rv_lease (view_from_parts (tk_new_root t) (tk_pin t))) = ps_stamp (tk_new_root t)"
    using pub_ok_token [OF assms, of t]
    by (simp add: token_ok_def view_from_parts_def lease_from_pin_def lease_stamp_def)
  ultimately show ?thesis using True by simp
next
  case False
  then have "authority_publish_once t a = (Inl pub_snapshot_base_mismatch, token_drop t a)"
    by (simp add: publish_once_cases token_owner_matches [OF assms])
  with False show ?thesis by (simp add: token_drop_def)
qed


text \<open>An authority with a published cut at revision 3 and a sealed token for revision 4.\<close>

definition sample_root :: "u64 \<Rightarrow> published_state_root" where
  "sample_root r = published_root_new (sample_stamp r) fmempty
     \<lparr>df_world_id = ''w'', df_generation = 7, df_entries = fmempty\<rparr>"

definition sample_replacement :: replacement where
  "sample_replacement = \<lparr>rp_entries = fmempty, rp_digest = replicate 32 1\<rparr>"

definition sample_authority :: publication_authority where
  "sample_authority = (case authority_new ''w'' ''ctx'' 7
       (registry_from_approved_snapshot sample_snapshot 2 ''ctx'' 7) (sample_root 3) of Inr a \<Rightarrow> a)"

definition sample_prepared :: "prepared_publication \<times> publication_authority" where
  "sample_prepared = (case authority_prepare 4 (sample_root 4) sample_replacement sample_authority of Inr p \<Rightarrow> p)"

definition sample_sealed ::
    "publication_token \<times> prepared_publication \<times> publication_authority" where
  "sample_sealed = (case prepared_seal (fst sample_prepared) (snd sample_prepared) of Inr t \<Rightarrow> t)"

lemma sample_root_simps [simp]: "ps_stamp (sample_root r) = sample_stamp r"
  by (simp add: sample_root_def published_root_new_def)

lemma sample_stamp_simps [simp]:
  "rs_schema_id (sample_stamp r) = REVISION_STAMP_SCHEMA" "rs_world_id (sample_stamp r) = ''w''"
  "rs_context_id (sample_stamp r) = ''ctx''" "rs_generation (sample_stamp r) = 7"
  "rs_world_revision (sample_stamp r) = r"
  by (simp_all add: sample_stamp_def to_revision_stamp_def)

lemma sample_try_pin_room:
  "rg_context_id s = ''ctx'' \<Longrightarrow> rg_generation s = 7 \<Longrightarrow> \<not> rg_destroyed s \<Longrightarrow>
   fm_len (rg_slots s) < rg_max_pins s \<Longrightarrow> rg_next_id s < 5 \<Longrightarrow>
   \<exists>p s'. try_pin (sample_stamp r) s = Inr (p, s') \<and> rg_context_id s' = ''ctx'' \<and> rg_generation s' = 7 \<and>
     \<not> rg_destroyed s' \<and> rg_max_pins s' = rg_max_pins s \<and> rg_next_id s' = rg_next_id s + 1 \<and>
     fm_len (rg_slots s') \<le> Suc (fm_len (rg_slots s))"
  by (auto simp: try_pin_def checked_add_def fm_len_upd word_less_nat_alt Let_def)

definition sample_ready :: "nat \<Rightarrow> publication_authority \<Rightarrow> bool" where
  "sample_ready n a \<longleftrightarrow> pa_world_id a = ''w'' \<and> pa_context_id a = ''ctx'' \<and> pa_generation a = 7 \<and>
     pa_next_token_id a < 5 \<and> pa_root a = sample_root 3 \<and>
     rg_context_id (pa_registry a) = ''ctx'' \<and> rg_generation (pa_registry a) = 7 \<and>
     \<not> rg_destroyed (pa_registry a) \<and> rg_next_id (pa_registry a) < 5 \<and>
     fm_len (rg_slots (pa_registry a)) + n \<le> rg_max_pins (pa_registry a)"

lemma sample_authority_new:
  "authority_new ''w'' ''ctx'' 7 (registry_from_approved_snapshot sample_snapshot 2 ''ctx'' 7) (sample_root 3) =
     Inr sample_authority \<and> sample_ready 1 sample_authority \<and> pa_next_token_id sample_authority = 0"
proof -
  let ?r = "registry_from_approved_snapshot sample_snapshot 2 ''ctx'' 7"
  have r: "rg_context_id (pr_inner ?r) = ''ctx''" "rg_generation (pr_inner ?r) = 7" "\<not> rg_destroyed (pr_inner ?r)"
    "rg_max_pins (pr_inner ?r) = 2" "rg_next_id (pr_inner ?r) = 0" "fm_len (rg_slots (pr_inner ?r)) = 0"
    by (simp_all add: registry_from_approved_snapshot_def)
  then obtain p s where p: "try_pin (sample_stamp 3) (pr_inner ?r) = Inr (p, s)" "rg_context_id s = ''ctx''"
    "rg_generation s = 7" "\<not> rg_destroyed s" "rg_max_pins s = 2" "rg_next_id s = 1" "fm_len (rg_slots s) \<le> 1"
    using sample_try_pin_room [of "pr_inner ?r" 3] by auto
  then have "authority_new ''w'' ''ctx'' 7 ?r (sample_root 3) =
      Inr \<lparr>pa_world_id = ''w'', pa_context_id = ''ctx'', pa_generation = 7, pa_pins = ?r\<lparr>pr_inner := s\<rparr>,
           pa_root = sample_root 3, pa_pin = p, pa_next_token_id = 0\<rparr>"
    by (simp add: authority_new_def check_stamp_def)
  with p show ?thesis by (simp add: sample_authority_def sample_ready_def)
qed

lemma sample_prepare:
  "authority_prepare 4 (sample_root 4) sample_replacement sample_authority = Inr sample_prepared \<and>
     \<not> pp_sealed (fst sample_prepared) \<and> ps_stamp (pp_new_root (fst sample_prepared)) = sample_stamp 4 \<and>
     pp_base_identity (fst sample_prepared) = ps_identity (sample_root 3) \<and>
     sample_ready 1 (snd sample_prepared)"
proof -
  have z: "pa_next_token_id sample_authority = 0" using sample_authority_new by blast
  then have n: "checked_add (pa_next_token_id sample_authority) 1 = Some 1"
    by (simp add: checked_add_def)
  show ?thesis
    using sample_authority_new n z
    by (simp add: sample_prepared_def authority_prepare_def check_stamp_def sample_ready_def
        incorporate_replacement_def Let_def)
qed

lemma sample_seal:
  "prepared_seal (fst sample_prepared) (snd sample_prepared) = Inr sample_sealed \<and>
     tk_base_identity (fst sample_sealed) = ps_identity (sample_root 3) \<and>
     pa_root (snd (snd sample_sealed)) = sample_root 3"
proof -
  have r: "sample_ready 1 (snd sample_prepared)" using sample_prepare by blast
  then obtain p s where "try_pin (sample_stamp 4) (pa_registry (snd sample_prepared)) = Inr (p, s)"
    using sample_try_pin_room [of "pa_registry (snd sample_prepared)" 4] by (auto simp: sample_ready_def)
  then show ?thesis
    using sample_prepare r by (simp add: sample_sealed_def prepared_seal_def sample_ready_def)
qed

lemma sample_pub_reach:
  "pub_reach (snd (snd sample_sealed)) {#fst (snd sample_sealed)#} {#fst sample_sealed#} {#}"
proof -
  have "pub_reach sample_authority {#} {#} {#}"
    using sample_authority_new by (blast intro: pub_new)
  then have "pub_reach (snd sample_prepared) {#fst sample_prepared#} {#} {#}"
    using sample_prepare by (intro pub_prepare [where a = sample_authority]) auto
  then show ?thesis
    using sample_seal
    by (intro pub_seal [where p = "fst sample_prepared" and a = "snd sample_prepared"]) auto
qed


text \<open>
  C34. A cut that anyone can still read is never released, and no pin leaks. In any history of
  captures, publications, refusals and drops, every view's lease pins the stamp of the very cut
  the view reads, the retention frontier exists and is at or below the published cut and every
  captured view and outstanding token, and the registry holds one slot at least and never more
  than one per view and token beside the published cut.
\<close>

theorem published_cuts_stay_pinned:
  assumes "pub_reach a P T V"
  shows "(\<exists>st. oldest_live (pa_registry a) = Some st \<and>
        stamp_rank st \<le> stamp_rank (ps_stamp (pa_root a)) \<and>
        (\<forall>v. v \<in># V \<longrightarrow> stamp_rank st \<le> stamp_rank (view_stamp v)) \<and>
        (\<forall>t. t \<in># T \<longrightarrow> stamp_rank st \<le> stamp_rank (ps_stamp (tk_new_root t)))) \<and>
    (\<forall>v. v \<in># V \<longrightarrow> lease_stamp (rv_lease v) = view_stamp v \<and>
        check_stamp (pa_world_id a) (pa_context_id a) (pa_generation a) (view_stamp v) = Inr ()) \<and>
    1 \<le> fm_len (rg_slots (pa_registry a)) \<and>
    fm_len (rg_slots (pa_registry a)) \<le> 1 + size T + size V"
proof -
  note ok = pub_reach_ok [OF assms, unfolded pub_ok_def]
  then have pins: "pins_ok (pa_registry a) (handles a T V)" by blast
  have "handles a T V \<noteq> {#}" by (simp add: handles_def)
  with oldest_live_spec [OF pins] obtain st where st: "oldest_live (pa_registry a) = Some st"
    and least: "\<forall>h. h \<in># handles a T V \<longrightarrow> stamp_rank st \<le> stamp_rank (rp_stamp h)"
    by (cases "oldest_live (pa_registry a)") auto
  have "stamp_rank st \<le> stamp_rank (ps_stamp (pa_root a))"
    using least [rule_format, of "pa_pin a"] ok by (simp add: handles_def)
  moreover have v: "stamp_rank st \<le> stamp_rank (view_stamp v)" "lease_stamp (rv_lease v) = view_stamp v"
    "check_stamp (pa_world_id a) (pa_context_id a) (pa_generation a) (view_stamp v) = Inr ()" if "v \<in># V" for v
  proof -
    have vok: "view_ok a v" using ok that by blast
    have "view_pin v \<in># handles a T V" using that by (simp add: handles_def)
    with vok show "stamp_rank st \<le> stamp_rank (view_stamp v)"
      using least by (auto simp: view_ok_def view_stamp_def)
    show "lease_stamp (rv_lease v) = view_stamp v"
      "check_stamp (pa_world_id a) (pa_context_id a) (pa_generation a) (view_stamp v) = Inr ()"
      using vok by (simp_all add: view_ok_def view_stamp_def lease_stamp_def view_pin_def cut_ok_def)
  qed
  moreover have "stamp_rank st \<le> stamp_rank (ps_stamp (tk_new_root t))" if "t \<in># T" for t
  proof -
    have "token_ok a t" using ok that by blast
    moreover have "tk_pin t \<in># handles a T V" using that by (simp add: handles_def)
    ultimately show ?thesis using least by (auto simp: token_ok_def)
  qed
  moreover have len: "fm_len (rg_slots (pa_registry a)) = card (rp_id ` set_mset (handles a T V))"
    by (rule pins_ok_len [OF pins])
  moreover have "1 \<le> card (rp_id ` set_mset (handles a T V))"
    by (simp add: Suc_le_eq card_gt_0_iff handles_def)
  moreover have "card (rp_id ` set_mset (handles a T V)) \<le> 1 + size T + size V"
  proof -
    have "card (rp_id ` set_mset (handles a T V)) \<le> card (set_mset (handles a T V))"
      by (rule card_image_le) simp
    also have "\<dots> \<le> size (handles a T V)" by (rule card_set_mset_le)
    finally show ?thesis by (simp add: handles_def)
  qed
  ultimately show ?thesis using st by (simp only: len) blast
qed

theorem published_cuts_stay_pinned_witness:
  "\<exists>st. oldest_live (pa_registry (snd (snd sample_sealed))) = Some st \<and>
     stamp_rank st \<le> stamp_rank (sample_stamp 3)"
  using published_cuts_stay_pinned [OF sample_pub_reach] sample_seal by auto

end
