(* ===== verification/Canonical.thy ===== *)
theory Canonical
  imports Strings
begin

text \<open>
  The local canonical object encoding (ops crate, \<open>canonical.rs\<close>): members ordered by name, one
  escape rule, and a decoder that parses more than the encoder emits and then compares the
  re-encoding with its input. The parser's position in the text is the text that remains.

  The result is the interpretation \<open>canonical: strict_codec\<close>: the decoder accepts exactly the
  encodings of objects made of Rust strings.
\<close>

section \<open>Objects\<close>

datatype canonical_value = Text string | Uint u64 | TextArray "string list"

datatype duplicate_member = DuplicateMember string

datatype decode_error = Malformed | MemberTwice | NotCanonical

type_synonym canonical_object = "(string, canonical_value) fmap"

fun as_text :: "canonical_value \<Rightarrow> string option" where
  "as_text (Text t) = Some t"
| "as_text _ = None"

fun as_uint :: "canonical_value \<Rightarrow> u64 option" where
  "as_uint (Uint n) = Some n"
| "as_uint _ = None"

definition member_insert :: "string \<Rightarrow> canonical_value \<Rightarrow> canonical_object \<Rightarrow> duplicate_member + canonical_object"
where
  "member_insert k v obj = (if fm_has obj k then Inl (DuplicateMember k) else Inr (fmupd k v obj))"

definition insert_text :: "string \<Rightarrow> string \<Rightarrow> canonical_object \<Rightarrow> duplicate_member + canonical_object" where
  "insert_text k t = member_insert k (Text t)"

definition insert_uint :: "string \<Rightarrow> u64 \<Rightarrow> canonical_object \<Rightarrow> duplicate_member + canonical_object" where
  "insert_uint k n = member_insert k (Uint n)"

section \<open>Encoding\<close>

definition quote_char :: char where "quote_char = CHR 0x22"

definition backslash_char :: char where "backslash_char = CHR 0x5C"

text \<open>One character of a quoted string; the bytes of a multi-byte character are copied.\<close>

definition escaped_char :: "char \<Rightarrow> string" where
  "escaped_char c =
     (if c = quote_char then [backslash_char, quote_char]
      else if c = backslash_char then [backslash_char, backslash_char]
      else if byte_of c < 0x20
      then [backslash_char] @ ''u00'' @ [hex_digit (byte_of c div 16), hex_digit (byte_of c mod 16)]
      else [c])"

definition quoted :: "string \<Rightarrow> string" where
  "quoted s = quote_char # concat (map escaped_char s) @ [quote_char]"

fun value_text :: "canonical_value \<Rightarrow> string" where
  "value_text (Text t) = quoted t"
| "value_text (Uint n) = dec_nat (unat n)"
| "value_text (TextArray ts) = ''['' @ join_with CHR '','' (map quoted ts) @ '']''"

definition member_text :: "string \<times> canonical_value \<Rightarrow> string" where
  "member_text kv = quoted (fst kv) @ CHR '':'' # value_text (snd kv)"

definition canonical_encode :: "canonical_object \<Rightarrow> string" where
  "canonical_encode obj = ''{'' @ join_with CHR '','' (map member_text (fm_entries obj)) @ ''}''"

definition encode_bytes :: "canonical_object \<Rightarrow> u8 list" where
  "encode_bytes obj = str_bytes (canonical_encode obj)"

section \<open>Parsing\<close>

definition eat :: "char \<Rightarrow> string \<Rightarrow> decode_error + string" where
  "eat b s = (case s of [] \<Rightarrow> Inl Malformed | c # r \<Rightarrow> if c = b then Inr r else Inl Malformed)"

text \<open>\<open>is_ascii_hexdigit\<close> and the value of a hexadecimal digit, either case.\<close>

definition is_hexdigit :: "char \<Rightarrow> bool" where
  "is_hexdigit c \<longleftrightarrow> is_digit c \<or> (65 \<le> byte_of c \<and> byte_of c \<le> 70) \<or> (97 \<le> byte_of c \<and> byte_of c \<le> 102)"

definition hexdigit_val :: "char \<Rightarrow> nat" where
  "hexdigit_val c = (if is_digit c then digit_val c
     else if byte_of c \<le> 70 then byte_of c - 55 else byte_of c - 87)"

definition hex_val :: "string \<Rightarrow> nat" where
  "hex_val s = foldl (\<lambda>a c. 16 * a + hexdigit_val c) 0 s"

text \<open>\<open>char::from_u32\<close>: a Unicode scalar value; and the UTF-8 bytes \<open>String::push\<close> writes for it.\<close>

definition is_scalar :: "nat \<Rightarrow> bool" where
  "is_scalar n \<longleftrightarrow> n < 0xD800 \<or> (0xE000 \<le> n \<and> n < 0x110000)"

definition utf8_encode :: "nat \<Rightarrow> string" where
  "utf8_encode n =
     (if n < 0x80 then [char_of n]
      else if n < 0x800 then [char_of (0xC0 + n div 64), char_of (0x80 + n mod 64)]
      else if n < 0x10000
      then [char_of (0xE0 + n div 4096), char_of (0x80 + n div 64 mod 64), char_of (0x80 + n mod 64)]
      else [char_of (0xF0 + n div 262144), char_of (0x80 + n div 4096 mod 64),
            char_of (0x80 + n div 64 mod 64), char_of (0x80 + n mod 64)])"

text \<open>What follows a backslash.\<close>

definition parse_escape :: "string \<Rightarrow> decode_error + string \<times> string" where
  "parse_escape s =
     (case s of
        [] \<Rightarrow> Inl Malformed
      | c # r \<Rightarrow>
          if c = quote_char then Inr ([quote_char], r)
          else if c = backslash_char then Inr ([backslash_char], r)
          else if c = CHR ''u''
          then (if length r < 4 \<or> \<not> str_ok (take 4 r) \<or> \<not> list_all is_hexdigit (take 4 r) then Inl Malformed
                else if is_scalar (hex_val (take 4 r)) then Inr (utf8_encode (hex_val (take 4 r)), drop 4 r)
                else Inl Malformed)
          else Inl Malformed)"

lemma parse_escape_shorter: "parse_escape s = Inr (cs, r) \<Longrightarrow> length r < length s"
  by (auto simp: parse_escape_def split: list.splits if_splits)

lemma utf8_len_pos: "0 < utf8_len a"
  by (simp add: utf8_len_def)

text \<open>
  The loop of \<open>Parser::string\<close>. Taking a whole character needs its first byte not to be a
  continuation byte (\<open>str::get\<close> refuses a range that does not start at a boundary).
\<close>

function string_body :: "string \<Rightarrow> string \<Rightarrow> decode_error + string \<times> string" where
  "string_body out [] = Inl Malformed"
| "string_body out (c # r) =
     (if c = quote_char then Inr (out, r)
      else if c = backslash_char
      then rbind (parse_escape r) (\<lambda>q. string_body (out @ fst q) (snd q))
      else if byte_of c < 0x20 then Inl Malformed
      else if utf8_cont (byte_of c) then Inl Malformed
      else string_body (out @ take (utf8_len (byte_of c)) (c # r)) (drop (utf8_len (byte_of c)) (c # r)))"
  by pat_completeness auto
termination
  by (relation "measure (\<lambda>(out, s). length s)")
    (auto dest: parse_escape_shorter simp: utf8_len_def)

declare string_body.simps(2) [simp del]

definition parse_string :: "string \<Rightarrow> decode_error + string \<times> string" where
  "parse_string s = rbind (eat quote_char s) (string_body [])"

definition parse_uint :: "string \<Rightarrow> decode_error + u64 \<times> string" where
  "parse_uint s =
     (let ds = takeWhile is_digit s
      in if ds = [] \<or> (1 < length ds \<and> hd ds = CHR ''0'') then Inl Malformed
         else if dec_val ds < 2 ^ 64 then Inr (of_nat (dec_val ds), dropWhile is_digit s)
         else Inl Malformed)"

lemma eat_shorter: "eat b s = Inr r \<Longrightarrow> length r < length s"
  by (auto simp: eat_def split: list.splits if_splits)

lemma string_body_shorter: "string_body out s = Inr (t, r) \<Longrightarrow> length r < length s"
proof (induction out s rule: string_body.induct)
  case (1 out)
  then show ?case by simp
next
  case (2 out c r')
  show ?case
  proof (cases "c = quote_char")
    case True
    with 2(3) show ?thesis by (simp add: string_body.simps(2))
  next
    case ncq: False
    show ?thesis
    proof (cases "c = backslash_char")
      case True
      with 2(3) ncq obtain q where q: "parse_escape r' = Inr q" "string_body (out @ fst q) (snd q) = Inr (t, r)"
        by (auto simp: string_body.simps(2) result_iff)
      from 2(1) [OF ncq True q] parse_escape_shorter [of r' "fst q" "snd q"] q(1) show ?thesis by simp
    next
      case False
      with 2(3) ncq have "\<not> byte_of c < 0x20" "\<not> utf8_cont (byte_of c)"
        "string_body (out @ take (utf8_len (byte_of c)) (c # r')) (drop (utf8_len (byte_of c)) (c # r')) = Inr (t, r)"
        by (auto simp: string_body.simps(2) split: if_splits)
      from 2(2) [OF ncq False this] show ?thesis by simp
    qed
  qed
qed

lemma parse_string_shorter: "parse_string s = Inr (t, r) \<Longrightarrow> length r < length s"
  by (auto simp: parse_string_def result_iff dest!: eat_shorter string_body_shorter)

text \<open>The loop of \<open>Parser::array\<close>, entered after the bracket.\<close>

function array_body :: "string list \<Rightarrow> string \<Rightarrow> decode_error + canonical_value \<times> string" where
  "array_body items s =
     rbind (parse_string s) (\<lambda>q.
       case snd q of
         [] \<Rightarrow> Inl Malformed
       | c # r \<Rightarrow>
           if c = CHR '','' then array_body (items @ [fst q]) r
           else if c = CHR '']'' then Inr (TextArray (items @ [fst q]), r)
           else Inl Malformed)"
  by pat_completeness auto
termination
  by (relation "measure (\<lambda>(items, s). length s)") (auto dest: parse_string_shorter)

declare array_body.simps [simp del]

definition parse_array :: "string \<Rightarrow> decode_error + canonical_value \<times> string" where
  "parse_array s =
     rbind (eat CHR ''['' s) (\<lambda>r.
       if r \<noteq> [] \<and> hd r = CHR '']'' then Inr (TextArray [], tl r) else array_body [] r)"

definition parse_value :: "string \<Rightarrow> decode_error + canonical_value \<times> string" where
  "parse_value s =
     (case s of
        [] \<Rightarrow> Inl Malformed
      | c # r \<Rightarrow>
          if c = quote_char then rbind (parse_string s) (\<lambda>q. Inr (Text (fst q), snd q))
          else if c = CHR ''['' then parse_array s
          else if is_digit c then rbind (parse_uint s) (\<lambda>q. Inr (Uint (fst q), snd q))
          else Inl Malformed)"

text \<open>One member, and the loop of \<open>Parser::object\<close>.\<close>

definition parse_member :: "string \<Rightarrow> decode_error + (string \<times> canonical_value) \<times> string" where
  "parse_member s =
     rbind (parse_string s) (\<lambda>k.
     rbind (eat CHR '':'' (snd k)) (\<lambda>r.
     rbind (parse_value r) (\<lambda>v. Inr ((fst k, fst v), snd v))))"

lemma array_body_shorter: "array_body items s = Inr (v, r) \<Longrightarrow> length r < length s"
proof (induction items s rule: array_body.induct)
  case (1 items s)
  from 1(2) obtain t r' where q: "parse_string s = Inr (t, r')" by (auto simp: array_body.simps [of items s] result_iff)
  with 1 parse_string_shorter [OF q] show ?case
    by (fastforce simp: array_body.simps [of items s] split: list.splits if_splits)
qed

lemma parse_array_shorter: "parse_array s = Inr (v, r) \<Longrightarrow> length r < length s"
  by (auto simp: parse_array_def result_iff dest!: eat_shorter array_body_shorter split: if_splits)

lemma parse_uint_shorter:
  assumes "parse_uint s = Inr (n, r)"
  shows "length r < length s"
proof -
  from assms have "takeWhile is_digit s \<noteq> []" "r = dropWhile is_digit s"
    by (simp_all add: parse_uint_def Let_def split: if_splits)
  then show ?thesis
    by (metis add_less_same_cancel2 length_append length_greater_0_conv takeWhile_dropWhile_id add.commute less_add_same_cancel2)
qed

lemma parse_value_shorter: "parse_value s = Inr (v, r) \<Longrightarrow> length r < length s"
  by (auto simp: parse_value_def result_iff split: list.splits if_splits
      dest: parse_string_shorter parse_array_shorter parse_uint_shorter)

lemma parse_member_shorter: "parse_member s = Inr (kv, r) \<Longrightarrow> length r < length s"
  by (auto simp: parse_member_def result_iff dest!: parse_string_shorter eat_shorter parse_value_shorter)

function object_body :: "canonical_object \<Rightarrow> string \<Rightarrow> decode_error + canonical_object \<times> string" where
  "object_body obj s =
     rbind (parse_member s) (\<lambda>m.
     rbind (map_err (\<lambda>_. MemberTwice) (member_insert (fst (fst m)) (snd (fst m)) obj)) (\<lambda>obj'.
       case snd m of
         [] \<Rightarrow> Inl Malformed
       | c # r \<Rightarrow>
           if c = CHR '','' then object_body obj' r
           else if c = CHR ''}'' then Inr (obj', r)
           else Inl Malformed))"
  by pat_completeness auto
termination
  by (relation "measure (\<lambda>(obj, s). length s)") (auto dest: parse_member_shorter)

declare object_body.simps [simp del]

definition parse_object :: "string \<Rightarrow> decode_error + canonical_object \<times> string" where
  "parse_object s =
     rbind (eat CHR ''{'' s) (\<lambda>r.
       if r \<noteq> [] \<and> hd r = CHR ''}'' then Inr (fmempty, tl r) else object_body fmempty r)"

definition canonical_parse :: "u8 list \<Rightarrow> decode_error + canonical_object" where
  "canonical_parse bs =
     rbind (ok_or Malformed (from_utf8 bs)) (\<lambda>s.
     rbind (parse_object s) (\<lambda>q. if snd q \<noteq> [] then Inl Malformed else Inr (fst q)))"

definition canonical_decode :: "u8 list \<Rightarrow> decode_error + canonical_object" where
  "canonical_decode bs =
     rbind (canonical_parse bs) (\<lambda>obj. if encode_bytes obj \<noteq> bs then Inl NotCanonical else Inr obj)"

section \<open>Objects of Rust strings\<close>

fun value_ok :: "canonical_value \<Rightarrow> bool" where
  "value_ok (Text t) = str_ok t"
| "value_ok (Uint n) = True"
| "value_ok (TextArray ts) = list_all str_ok ts"

definition canonical_ok :: "canonical_object \<Rightarrow> bool" where
  "canonical_ok obj = list_all (\<lambda>kv. str_ok (fst kv) \<and> value_ok (snd kv)) (fm_entries obj)"

lemma canonical_ok_iff:
  "canonical_ok obj \<longleftrightarrow> (\<forall>k v. fmlookup obj k = Some v \<longrightarrow> str_ok k \<and> value_ok v)"
  unfolding canonical_ok_def list_all_iff by (auto simp: set_fm_entries Ball_def)

section \<open>The parser reads what the encoder writes\<close>

lemma marks:
  "quote_char \<noteq> backslash_char" "byte_of quote_char = 34" "byte_of backslash_char = 92"
  "\<not> is_digit quote_char" "quote_char \<noteq> CHR ''[''" "backslash_char \<noteq> quote_char"
  by (simp_all add: quote_char_def backslash_char_def byte_of_def is_digit_def)

lemma byte_hex_digit:
  "d < 16 \<Longrightarrow> byte_of (hex_digit d) = (if d < 10 then 48 + d else 87 + d)"
  by (simp add: byte_of_def of_char_hex_digit)

lemma hexdigit_val_hex_digit:
  "d < 16 \<Longrightarrow> is_hexdigit (hex_digit d)" "d < 16 \<Longrightarrow> hexdigit_val (hex_digit d) = d"
  by (auto simp: is_hexdigit_def hexdigit_val_def is_digit_def digit_val_def byte_hex_digit of_char_hex_digit)

lemma str_ok_hex_digits: "list_all is_hexdigit s \<Longrightarrow> str_ok s"
  by (rule str_ok_ascii_all) (auto simp: list_all_iff is_hexdigit_def is_digit_def byte_of_def)

lemma parse_escape_control:
  assumes "byte_of c < 0x20"
  shows "parse_escape (''u00'' @ [hex_digit (byte_of c div 16), hex_digit (byte_of c mod 16)] @ r) = Inr ([c], r)"
proof -
  let ?a = "byte_of c div 16" and ?b = "byte_of c mod 16"
  have lt: "?a < 16" "?b < 16" using assms by auto
  have hx: "list_all is_hexdigit [CHR ''0'', CHR ''0'', hex_digit ?a, hex_digit ?b]"
    using lt by (simp add: hexdigit_val_hex_digit) (simp add: is_hexdigit_def is_digit_def)
  have "hex_val [CHR ''0'', CHR ''0'', hex_digit ?a, hex_digit ?b] = 16 * ?a + ?b"
    using lt by (simp add: hex_val_def hexdigit_val_hex_digit)
      (simp add: hexdigit_val_def is_digit_def digit_val_def)
  then have hv: "hex_val [CHR ''0'', CHR ''0'', hex_digit ?a, hex_digit ?b] = byte_of c" by simp
  have "utf8_encode (byte_of c) = [c]"
    using assms by (simp add: utf8_encode_def) (simp add: byte_of_def)
  with hx hv str_ok_hex_digits [OF hx] assms show ?thesis
    by (simp add: parse_escape_def quote_char_def backslash_char_def is_scalar_def)
qed

text \<open>The bytes of a character outside ASCII are copied verbatim.\<close>

lemma escaped_high: "\<forall>d \<in> set s. 0x80 \<le> byte_of d \<Longrightarrow> concat (map escaped_char s) = s"
proof (induction s)
  case (Cons c s)
  then have "escaped_char c = [c]" by (auto simp: escaped_char_def marks)
  with Cons show ?case by simp
qed simp

lemma string_body_quoted:
  "str_ok s \<Longrightarrow> string_body out (concat (map escaped_char s) @ quote_char # r) = Inr (out @ s, r)"
proof (induction "length s" arbitrary: s out rule: less_induct)
  case less
  show ?case
  proof (cases s)
    case Nil
    then show ?thesis by (simp add: string_body.simps(2))
  next
    case (Cons c t)
    let ?n = "utf8_len (byte_of c)"
    let ?rest = "concat (map escaped_char t) @ quote_char # r"
    note ch = str_ok_char [OF less.prems [unfolded Cons]]
    have tail: "string_body o' (concat (map escaped_char t) @ quote_char # r) = Inr (o' @ t, r)"
      if "byte_of c < 0x80" for o'
      using less.hyps [of t o'] ch(2) that Cons by (simp add: utf8_len_def)
    consider (q) "c = quote_char" | (b) "c = backslash_char" | (ctl) "byte_of c < 0x20"
      | (ascii) "c \<noteq> quote_char" "c \<noteq> backslash_char" "0x20 \<le> byte_of c" "byte_of c < 0x80"
      | (high) "0x80 \<le> byte_of c" by linarith
    then show ?thesis
    proof cases
      case q
      with tail show ?thesis
        by (simp add: Cons escaped_char_def marks string_body.simps(2) parse_escape_def)
    next
      case b
      with tail show ?thesis
        by (simp add: Cons escaped_char_def marks string_body.simps(2) parse_escape_def)
    next
      case ctl
      then have ne: "c \<noteq> quote_char" "c \<noteq> backslash_char" by (auto simp: marks)
      have "string_body out ((backslash_char # ''u00'' @ [hex_digit (byte_of c div 16), hex_digit (byte_of c mod 16)]) @ ?rest)
          = string_body (out @ [c]) ?rest"
        using parse_escape_control [OF ctl, of ?rest] by (simp add: string_body.simps(2) marks)
      with tail ctl ne show ?thesis by (simp add: Cons escaped_char_def)
    next
      case ascii
      with tail show ?thesis
        by (simp add: Cons escaped_char_def string_body.simps(2) utf8_len_def utf8_cont_def)
    next
      case high
      have ne: "c \<noteq> quote_char" "c \<noteq> backslash_char" using high by (auto simp: marks)
      have nc: "\<not> utf8_cont (byte_of c)" using less.prems high Cons
        by (auto simp: str_ok.simps(2) utf8_cont_def utf8_four_def Let_def split: if_splits)
      have esc: "concat (map escaped_char t) =
          take (?n - 1) t @ concat (map escaped_char (drop (?n - 1) t))"
      proof -
        have "concat (map escaped_char (take (?n - 1) t @ drop (?n - 1) t)) =
            take (?n - 1) t @ concat (map escaped_char (drop (?n - 1) t))"
          using escaped_high [OF ch(3)] by (simp only: map_append concat_append)
        then show ?thesis by simp
      qed
      have n: "?n = Suc (?n - 1)" using utf8_len_pos [of "byte_of c"] by simp
      have tk: "take ?n (c # concat (map escaped_char t) @ quote_char # r) = c # take (?n - 1) t"
        "drop ?n (c # concat (map escaped_char t) @ quote_char # r) =
          concat (map escaped_char (drop (?n - 1) t)) @ quote_char # r"
        using ch(1) by (subst n, simp add: esc)+
      have "string_body (out @ c # take (?n - 1) t) (concat (map escaped_char (drop (?n - 1) t)) @ quote_char # r)
          = Inr ((out @ c # take (?n - 1) t) @ drop (?n - 1) t, r)"
        using ch(2) Cons by (intro less.hyps) simp_all
      moreover have "escaped_char c = [c]" using high ne by (simp add: escaped_char_def)
      ultimately show ?thesis using high ne nc
        by (simp add: Cons string_body.simps(2) tk)
    qed
  qed
qed

lemma parse_string_quoted: "str_ok s \<Longrightarrow> parse_string (quoted s @ r) = Inr (s, r)"
  by (simp add: parse_string_def quoted_def eat_def string_body_quoted)

text \<open>An integer ends where no digit follows.\<close>

definition no_digit :: "string \<Rightarrow> bool" where
  "no_digit r \<longleftrightarrow> r = [] \<or> \<not> is_digit (hd r)"

lemma no_digit_Cons: "no_digit (c # r) \<longleftrightarrow> \<not> is_digit c"
  by (simp add: no_digit_def)

lemma parse_uint_dec:
  assumes "no_digit r"
  shows "parse_uint (dec_nat (unat (n :: u64)) @ r) = Inr (n, r)"
proof -
  let ?d = "dec_nat (unat n)"
  have all: "\<And>c. c \<in> set ?d \<Longrightarrow> is_digit c" using dec_nat_digits [of "unat n"] by (simp add: list_all_iff)
  have split: "takeWhile is_digit (?d @ r) = ?d" "dropWhile is_digit (?d @ r) = r"
    using assms all by (cases r; simp add: takeWhile_append2 dropWhile_append2 no_digit_def)+
  have "unat n < 2 ^ LENGTH(64)" by (rule unsigned_less)
  moreover have "\<not> (1 < length ?d \<and> hd ?d = CHR ''0'')"
  proof
    assume a: "1 < length ?d \<and> hd ?d = CHR ''0''"
    then have "unat n = 0" using dec_nat_hd_zero [of "unat n"] by simp
    with a show False by (simp add: dec_nat.simps [of 0])
  qed
  ultimately show ?thesis unfolding parse_uint_def split Let_def by auto
qed

lemma array_body_texts:
  "list_all str_ok ts \<Longrightarrow> ts \<noteq> [] \<Longrightarrow>
     array_body items (join_with CHR '','' (map quoted ts) @ CHR '']'' # r) = Inr (TextArray (items @ ts), r)"
proof (induction ts arbitrary: items)
  case Nil
  then show ?case by simp
next
  case (Cons t ts)
  show ?case
  proof (cases "ts = []")
    case True
    with Cons.prems show ?thesis by (simp add: array_body.simps [of items] parse_string_quoted)
  next
    case False
    with Cons show ?thesis
      by (simp add: join_with_Cons array_body.simps [of items] parse_string_quoted)
  qed
qed

lemma quoted_hd: "hd (quoted s @ r) = quote_char" "quoted s @ r \<noteq> []"
  by (simp_all add: quoted_def)

lemma join_quoted_hd: "ts \<noteq> [] \<Longrightarrow> \<exists>u. join_with CHR '','' (map quoted ts) @ r = quote_char # u"
  by (cases ts; cases "tl ts") (auto simp: quoted_def)

lemma parse_value_text:
  assumes ok: "value_ok v" and r: "no_digit r"
  shows "parse_value (value_text v @ r) = Inr (v, r)"
proof (cases v)
  case (Text t)
  with ok parse_string_quoted [of t r] show ?thesis by (simp add: parse_value_def quoted_def)
next
  case (Uint n)
  have ne: "dec_nat (unat n) \<noteq> []" by simp
  then have "hd (dec_nat (unat n)) \<in> set (dec_nat (unat n))" by (rule hd_in_set)
  with dec_nat_digits [of "unat n"] have dg: "is_digit (hd (dec_nat (unat n)))" by (simp only: list_all_iff)
  with ne obtain c u where cu: "dec_nat (unat n) = c # u" "is_digit c"
    by (cases "dec_nat (unat n)") auto
  have "c \<noteq> quote_char" "c \<noteq> CHR ''[''" using cu(2) marks(4) by (auto simp: is_digit_def [of "CHR ''[''"])
  with Uint cu parse_uint_dec [OF r, of n] show ?thesis by (simp add: parse_value_def)
next
  case (TextArray ts)
  show ?thesis
  proof (cases "ts = []")
    case True
    with TextArray show ?thesis by (simp add: parse_value_def parse_array_def eat_def quote_char_def)
  next
    case False
    then obtain u where u: "join_with CHR '','' (map quoted ts) @ CHR '']'' # r = quote_char # u"
      using join_quoted_hd by blast
    with TextArray False ok array_body_texts [of ts "[]" r] show ?thesis
      by (simp add: parse_value_def parse_array_def eat_def quote_char_def)
  qed
qed

lemma parse_member_text:
  "str_ok (fst kv) \<Longrightarrow> value_ok (snd kv) \<Longrightarrow> no_digit r \<Longrightarrow> parse_member (member_text kv @ r) = Inr (kv, r)"
  by (simp add: parse_member_def member_text_def parse_string_quoted eat_def parse_value_text)

lemma object_body_members:
  assumes "list_all (\<lambda>kv. str_ok (fst kv) \<and> value_ok (snd kv)) kvs" "kvs \<noteq> []"
    "distinct (map fst kvs)" "\<forall>kv \<in> set kvs. fmlookup obj (fst kv) = None"
  shows "object_body obj (join_with CHR '','' (map member_text kvs) @ CHR ''}'' # r) =
    Inr (fold (\<lambda>(k, v). fmupd k v) kvs obj, r)"
  using assms
proof (induction kvs arbitrary: obj)
  case Nil
  then show ?case by simp
next
  case (Cons kv kvs)
  obtain k v where kv: "kv = (k, v)" by (cases kv)
  have sep: "no_digit (CHR '','' # u)" "no_digit (CHR ''}'' # u)" for u
    by (simp_all add: no_digit_Cons is_digit_def)
  have ins: "member_insert k v obj = Inr (fmupd k v obj)"
    using Cons.prems(4) kv by (simp add: member_insert_def)
  show ?case
  proof (cases "kvs = []")
    case True
    with Cons.prems kv ins sep show ?thesis
      by (simp add: object_body.simps [of obj] parse_member_text)
  next
    case False
    have "object_body (fmupd k v obj) (join_with CHR '','' (map member_text kvs) @ CHR ''}'' # r) =
        Inr (fold (\<lambda>(k, v). fmupd k v) kvs (fmupd k v obj), r)"
      using Cons.prems kv False by (intro Cons.IH) (auto simp: image_iff)
    with False Cons.prems kv ins sep show ?thesis
      by (simp add: join_with_Cons object_body.simps [of obj] parse_member_text)
  qed
qed

text \<open>Inserting members under distinct new names cannot fail.\<close>

lemma insert_members:
  assumes "distinct (map fst kvs)" "\<And>k. k \<in> fst ` set kvs \<Longrightarrow> \<not> fm_has obj k"
  shows "rfold (\<lambda>kv o1. map_err f (member_insert (fst kv) (snd kv) o1)) kvs obj =
    Inr (fold (\<lambda>kv. fmupd (fst kv) (snd kv)) kvs obj)"
  using assms
proof (induction kvs arbitrary: obj)
  case (Cons kv kvs)
  then have "\<not> fm_has (fmupd (fst kv) (snd kv) obj) k" if "k \<in> fst ` set kvs" for k
    using that by (auto simp: image_iff)
  with Cons show ?case by (simp add: member_insert_def)
qed simp

lemma parse_object_encode:
  assumes "canonical_ok obj"
  shows "parse_object (canonical_encode obj) = Inr (obj, [])"
proof (cases "fm_entries obj = []")
  case True
  then have "obj = fmempty" using fold_fm_entries_pair [of obj] by simp
  with True show ?thesis by (simp add: parse_object_def canonical_encode_def eat_def)
next
  case False
  have body: "object_body fmempty (join_with CHR '','' (map member_text (fm_entries obj)) @ CHR ''}'' # []) = Inr (obj, [])"
    using assms False object_body_members [of "fm_entries obj" fmempty "[]"]
    by (simp only: canonical_ok_def distinct_fm_entries fold_fm_entries_pair fmempty_lookup simp_thms ball_triv)
  obtain kv kvs where "fm_entries obj = kv # kvs" using False by (cases "fm_entries obj") auto
  then have "\<exists>u. join_with CHR '','' (map member_text (fm_entries obj)) @ CHR ''}'' # [] = quote_char # u"
    by (cases kvs) (auto simp: member_text_def quoted_def)
  with body show ?thesis
    by (auto simp: parse_object_def canonical_encode_def eat_def quote_char_def)
qed

section \<open>Encodings are well-formed strings\<close>

lemma str_ok_first:
  assumes "str_ok (c # s)"
  shows "str_ok (c # take (utf8_len (byte_of c) - 1) s)"
proof -
  have "\<not> utf8_four a b" if "a < 194" for a b
    using that by (simp add: utf8_four_def)
  with assms str_ok_char(1) [OF assms] show ?thesis
    by (auto simp: str_ok.simps(2) [of c] Let_def utf8_len_def nth_append min_def
        numeral_2_eq_2 numeral_3_eq_3 split: if_splits)
qed

lemma str_ok_escaped: "str_ok s \<Longrightarrow> str_ok (concat (map escaped_char s))"
proof (induction "length s" arbitrary: s rule: less_induct)
  case less
  show ?case
  proof (cases s)
    case (Cons c t)
    note ch = str_ok_char [OF less.prems [unfolded Cons]]
    show ?thesis
    proof (cases "byte_of c < 0x80")
      case True
      have "list_all (\<lambda>d. byte_of d < 0x80) (escaped_char c)"
        using True by (auto simp: escaped_char_def marks byte_hex_digit) (simp_all add: byte_of_def)
      moreover have "str_ok (concat (map escaped_char t))"
        using less.hyps [of t] ch(2) True Cons by (simp add: utf8_len_def)
      ultimately show ?thesis by (simp add: Cons str_ok_append str_ok_ascii_all)
    next
      case False
      let ?n = "utf8_len (byte_of c) - 1"
      have "escaped_char c = [c]" using False by (auto simp: escaped_char_def marks)
      moreover have "concat (map escaped_char (take ?n t @ drop ?n t)) =
          take ?n t @ concat (map escaped_char (drop ?n t))"
        using escaped_high [OF ch(3)] by (simp only: map_append concat_append)
      ultimately have split:
        "concat (map escaped_char s) = (c # take ?n t) @ concat (map escaped_char (drop ?n t))"
        by (simp add: Cons)
      have "str_ok (concat (map escaped_char (drop ?n t)))"
        using less.hyps [of "drop ?n t"] ch(2) Cons by simp
      with str_ok_first [OF less.prems [unfolded Cons]] show ?thesis
        unfolding split by (simp only: str_ok_append)
    qed
  qed simp
qed

lemma str_ok_quoted: "str_ok s \<Longrightarrow> str_ok (quoted s)"
  by (simp add: quoted_def str_ok_ascii str_ok_append str_ok_escaped marks)

lemma str_ok_join: "\<forall>p \<in> set ps. str_ok p \<Longrightarrow> str_ok (join_with CHR '','' ps)"
  by (induction "CHR '',''" ps rule: join_with.induct)
    (simp_all add: str_ok_append str_ok_ascii byte_of_def)

lemma str_ok_value: "value_ok v \<Longrightarrow> str_ok (value_text v)"
proof (cases v)
  case (Uint n)
  have "str_ok (dec_nat (unat n))" using dec_nat_digits [of "unat n"]
    by (intro str_ok_ascii_all) (auto simp: list_all_iff is_digit_def byte_of_def)
  with Uint show ?thesis by simp
qed (auto simp: str_ok_quoted str_ok_join str_ok_append str_ok_ascii byte_of_def list_all_iff)

lemma canonical_ok_str: "canonical_ok obj \<Longrightarrow> str_ok (canonical_encode obj)"
proof -
  assume ok: "canonical_ok obj"
  have "str_ok (join_with CHR '','' (map member_text (fm_entries obj)))"
    using ok by (intro str_ok_join)
      (auto simp: canonical_ok_def list_all_iff member_text_def str_ok_ascii str_ok_append str_ok_quoted
        str_ok_value byte_of_def)
  then show ?thesis by (simp add: canonical_encode_def str_ok_ascii str_ok_append byte_of_def)
qed

section \<open>What the parser returns\<close>

lemma utf8_encode_ok: "is_scalar n \<Longrightarrow> n < 0x10000 \<Longrightarrow> str_ok (utf8_encode n)"
proof -
  assume n: "is_scalar n" "n < 0x10000"
  have m: "n mod 64 < 64" "n div 64 mod 64 < 64" by simp_all
  consider "n < 0x80" | "0x80 \<le> n" "n < 0x800" | "0x800 \<le> n" by linarith
  then show ?thesis
  proof cases
    case 1
    then show ?thesis by (simp add: utf8_encode_def str_ok_ascii byte_of_def)
  next
    case 2
    then have d: "2 \<le> n div 64" "n div 64 < 32" by (simp_all add: div_less_iff_less_mult less_eq_div_iff_mult_less_eq)
    with 2 m show ?thesis
      by (simp add: utf8_encode_def str_ok.simps(2) Let_def byte_of_def utf8_cont_def)
  next
    case 3
    let ?a = "n div 4096" and ?b = "n div 64 mod 64"
    have d: "?a < 16" using n(2) by (simp add: div_less_iff_less_mult)
    have e: "n div 64 = 64 * ?a + ?b" by (simp add: div_mult2_eq [of n 64 64, simplified])
    have low: "?a = 0 \<Longrightarrow> 32 \<le> ?b" using 3 e by (simp add: less_eq_div_iff_mult_less_eq)
    have high: "?a \<le> 12 \<or> 14 \<le> ?a \<or> ?b \<le> 31"
    proof (rule ccontr)
      assume "\<not> (?a \<le> 12 \<or> 14 \<le> ?a \<or> ?b \<le> 31)"
      then have a: "?a = 13" "\<not> ?b < 32" by auto
      then have "n div 64 \<ge> 864" "n div 64 < 896" using e m(2) by simp_all
      then have "n \<ge> 55296" "n < 57344" by (simp_all add: less_eq_div_iff_mult_less_eq div_less_iff_less_mult)
      with n(1) show False by (simp add: is_scalar_def)
    qed
    show ?thesis using 3 n m d low high
      by (auto simp: utf8_encode_def str_ok.simps(2) [of "char_of (224 + n div 4096)"] Let_def byte_of_def utf8_cont_def utf8_three_def
          numeral_2_eq_2)
  qed
qed

lemma hexdigit_val_less: "is_hexdigit c \<Longrightarrow> hexdigit_val c < 16"
  by (auto simp: is_hexdigit_def hexdigit_val_def dest: digit_val_less)

lemma hex_val_4: "length s = 4 \<Longrightarrow> list_all is_hexdigit s \<Longrightarrow> hex_val s < 0x10000"
proof -
  assume a: "length s = 4" "list_all is_hexdigit s"
  then obtain p q r t where "s = [p, q, r, t]" by (auto simp: numeral_eq_Suc length_Suc_conv)
  moreover from this a(2) have "hexdigit_val p < 16" "hexdigit_val q < 16" "hexdigit_val r < 16" "hexdigit_val t < 16"
    by (simp_all add: hexdigit_val_less)
  ultimately show ?thesis by (simp add: hex_val_def)
qed

lemma parse_escape_ok:
  assumes "parse_escape s = Inr (cs, r)" "str_ok s"
  shows "str_ok cs \<and> str_ok r"
proof -
  from assms(1) obtain c t where s: "s = c # t" by (cases s) (auto simp: parse_escape_def)
  show ?thesis
  proof (cases "c = quote_char \<or> c = backslash_char")
    case True
    with assms s show ?thesis
      by (auto simp: parse_escape_def str_ok_ascii marks split: if_splits)
  next
    case False
    with assms(1) s have u: "c = CHR ''u''" "str_ok (take 4 t)" "list_all is_hexdigit (take 4 t)"
      "length (take 4 t) = 4" "is_scalar (hex_val (take 4 t))" "cs = utf8_encode (hex_val (take 4 t))" "r = drop 4 t"
      by (auto simp: parse_escape_def split: if_splits)
    have "str_ok (take 4 t @ drop 4 t)" using assms(2) s u(1) by (simp add: str_ok_ascii byte_of_def)
    then have "str_ok r" unfolding str_ok_append [OF u(2)] u(7) .
    with u hex_val_4 show ?thesis by (simp add: utf8_encode_ok)
  qed
qed

lemma string_body_ok:
  "string_body out s = Inr (t, r) \<Longrightarrow> str_ok out \<Longrightarrow> str_ok s \<Longrightarrow> str_ok t \<and> str_ok r"
proof (induction out s rule: string_body.induct)
  case (1 out)
  then show ?case by simp
next
  case (2 out c s)
  show ?case
  proof (cases "c = quote_char")
    case True
    with 2(3-5) show ?thesis by (simp add: string_body.simps(2) str_ok_ascii marks)
  next
    case ncq: False
    show ?thesis
    proof (cases "c = backslash_char")
      case True
      with 2(3) ncq obtain cs u where q: "parse_escape s = Inr (cs, u)" "string_body (out @ cs) u = Inr (t, r)"
        by (auto simp: string_body.simps(2) result_iff)
      have "str_ok s" using 2(5) True by (simp add: str_ok_ascii marks)
      with parse_escape_ok [OF q(1)] 2(1) [OF ncq True q(1)] 2(4) q(2) show ?thesis
        by (simp add: str_ok_append)
    next
      case False
      with 2(3) ncq have c: "\<not> byte_of c < 0x20" "\<not> utf8_cont (byte_of c)"
        "string_body (out @ take (utf8_len (byte_of c)) (c # s)) (drop (utf8_len (byte_of c)) (c # s)) = Inr (t, r)"
        by (auto simp: string_body.simps(2) split: if_splits)
      have n: "utf8_len (byte_of c) = Suc (utf8_len (byte_of c) - 1)"
        using utf8_len_pos [of "byte_of c"] by simp
      have "str_ok (take (utf8_len (byte_of c)) (c # s))" "str_ok (drop (utf8_len (byte_of c)) (c # s))"
        using str_ok_first [OF 2(5)] str_ok_char(2) [OF 2(5)] by (subst n, simp)+
      with 2(2) [OF ncq False c(1,2,3)] 2(4) show ?thesis by (simp add: str_ok_append)
    qed
  qed
qed

lemma eat_ok: "eat b s = Inr r \<Longrightarrow> byte_of b < 0x80 \<Longrightarrow> str_ok s \<Longrightarrow> str_ok r"
  by (auto simp: eat_def str_ok_ascii split: list.splits if_splits)

lemma parse_string_ok: "parse_string s = Inr (t, r) \<Longrightarrow> str_ok s \<Longrightarrow> str_ok t \<and> str_ok r"
  by (auto simp: parse_string_def result_iff marks dest!: eat_ok string_body_ok)

lemma array_body_InrD:
  assumes "array_body items s = Inr (v, r)"
  shows "\<exists>t c u. parse_string s = Inr (t, c # u) \<and>
    (c = CHR '','' \<and> array_body (items @ [t]) u = Inr (v, r) \<or>
     c = CHR '']'' \<and> v = TextArray (items @ [t]) \<and> r = u)"
proof -
  from assms obtain q where q: "parse_string s = Inr q"
    "(case snd q of [] \<Rightarrow> Inl Malformed
      | c # r \<Rightarrow> if c = CHR '','' then array_body (items @ [fst q]) r
                 else if c = CHR '']'' then Inr (TextArray (items @ [fst q]), r) else Inl Malformed) = Inr (v, r)"
    unfolding array_body.simps [of items s] rbind_eq_Inr by blast
  then obtain c u where "snd q = c # u" by (cases "snd q") simp_all
  with q show ?thesis by (cases q) (simp split: if_splits)
qed

lemma object_body_InrD:
  assumes "object_body obj s = Inr (obj', r)"
  shows "\<exists>k v obj1 c u. parse_member s = Inr ((k, v), c # u) \<and> member_insert k v obj = Inr obj1 \<and>
    (c = CHR '','' \<and> object_body obj1 u = Inr (obj', r) \<or> c = CHR ''}'' \<and> obj' = obj1)"
proof -
  from assms obtain m obj1 where q: "parse_member s = Inr m"
    "map_err (\<lambda>_. MemberTwice) (member_insert (fst (fst m)) (snd (fst m)) obj) = Inr obj1"
    "(case snd m of [] \<Rightarrow> Inl Malformed
      | c # r \<Rightarrow> if c = CHR '','' then object_body obj1 r
                 else if c = CHR ''}'' then Inr (obj1, r) else Inl Malformed) = Inr (obj', r)"
    unfolding object_body.simps [of obj s] rbind_eq_Inr by blast
  then obtain c u where "snd m = c # u" by (cases "snd m") simp_all
  with q show ?thesis by (cases m; cases "fst m") (auto simp: map_err_eq_Inr split: if_splits)
qed

lemma array_body_ok:
  "array_body items s = Inr (v, r) \<Longrightarrow> list_all str_ok items \<Longrightarrow> str_ok s \<Longrightarrow> value_ok v \<and> str_ok r"
proof (induction items s rule: array_body.induct)
  case (1 items s)
  from 1(2) obtain t c u where q: "parse_string s = Inr (t, c # u)"
    "c = CHR '','' \<and> array_body (items @ [t]) u = Inr (v, r) \<or>
     c = CHR '']'' \<and> v = TextArray (items @ [t]) \<and> r = u"
    using array_body_InrD by blast
  have tu: "str_ok t" "str_ok u"
    using parse_string_ok [OF q(1) 1(4)] q(2) by (auto simp: str_ok_ascii byte_of_def)
  from q(2) show ?case
  proof
    assume c: "c = CHR '','' \<and> array_body (items @ [t]) u = Inr (v, r)"
    with 1(1) [OF q(1), of c u] 1(3) tu show ?thesis by simp
  qed (use 1(3) tu in simp)
qed

lemma parse_array_ok: "parse_array s = Inr (v, r) \<Longrightarrow> str_ok s \<Longrightarrow> value_ok v \<and> str_ok r"
proof -
  assume a: "parse_array s = Inr (v, r)" "str_ok s"
  then obtain u where u: "eat CHR ''['' s = Inr u"
    "(if u \<noteq> [] \<and> hd u = CHR '']'' then Inr (TextArray [], tl u) else array_body [] u) = Inr (v, r)"
    by (auto simp: parse_array_def result_iff)
  with a have ok: "str_ok u" by (auto dest: eat_ok simp: byte_of_def)
  with u(2) show ?thesis
    by (cases u) (auto simp: str_ok_ascii byte_of_def dest: array_body_ok split: if_splits)
qed

lemma parse_uint_ok: "parse_uint s = Inr (n, r) \<Longrightarrow> str_ok s \<Longrightarrow> str_ok r"
proof -
  assume a: "parse_uint s = Inr (n, r)" "str_ok s"
  then have r: "r = dropWhile is_digit s" by (auto simp: parse_uint_def Let_def split: if_splits)
  have "str_ok (takeWhile is_digit s)"
    by (rule str_ok_ascii_all) (auto simp: list_all_iff byte_of_def is_digit_def dest!: set_takeWhileD)
  with a(2) r show ?thesis using str_ok_append [of "takeWhile is_digit s" "dropWhile is_digit s"] by simp
qed

lemma parse_value_ok: "parse_value s = Inr (v, r) \<Longrightarrow> str_ok s \<Longrightarrow> value_ok v \<and> str_ok r"
  by (auto simp: parse_value_def result_iff split: list.splits if_splits
      dest: parse_string_ok parse_array_ok parse_uint_ok)

lemma parse_member_ok:
  "parse_member s = Inr (kv, r) \<Longrightarrow> str_ok s \<Longrightarrow> str_ok (fst kv) \<and> value_ok (snd kv) \<and> str_ok r"
  by (auto simp: parse_member_def result_iff byte_of_def dest!: parse_string_ok eat_ok parse_value_ok)

lemma object_body_ok:
  "object_body obj s = Inr (obj', r) \<Longrightarrow> canonical_ok obj \<Longrightarrow> str_ok s \<Longrightarrow> canonical_ok obj'"
proof (induction obj s rule: object_body.induct)
  case (1 obj s)
  from 1(2) obtain k v obj1 c u where q: "parse_member s = Inr ((k, v), c # u)"
    "member_insert k v obj = Inr obj1"
    "c = CHR '','' \<and> object_body obj1 u = Inr (obj', r) \<or> c = CHR ''}'' \<and> obj' = obj1"
    using object_body_InrD by blast
  have m: "str_ok k" "value_ok v" "str_ok (c # u)" using parse_member_ok [OF q(1) 1(4)] by simp_all
  have o1: "canonical_ok obj1" using q(2) 1(3) m(1,2)
    by (auto simp: member_insert_def canonical_ok_iff split: if_splits)
  from q(3) show ?case
  proof
    assume c: "c = CHR '','' \<and> object_body obj1 u = Inr (obj', r)"
    then have "str_ok u" using m(3) by (simp add: str_ok_ascii byte_of_def)
    with 1(1) [OF q(1), of obj1 c u] q(2) c o1 show ?thesis by simp
  qed (use o1 in simp)
qed

lemma parse_object_ok: "parse_object s = Inr (obj, r) \<Longrightarrow> str_ok s \<Longrightarrow> canonical_ok obj"
proof -
  assume a: "parse_object s = Inr (obj, r)" "str_ok s"
  have e: "canonical_ok fmempty" by (simp add: canonical_ok_iff)
  from a obtain u where u: "eat CHR ''{'' s = Inr u" "obj = fmempty \<or> object_body fmempty u = Inr (obj, r)"
    by (auto simp: parse_object_def result_iff split: if_splits)
  with a have "str_ok u" by (auto dest: eat_ok simp: byte_of_def)
  with u(2) e object_body_ok show ?thesis by blast
qed

section \<open>The codec\<close>

interpretation canonical: strict_codec canonical_ok encode_bytes canonical_decode
proof unfold_locales
  fix obj assume "canonical_ok obj"
  then show "canonical_decode (encode_bytes obj) = Inr obj"
    by (simp add: canonical_decode_def canonical_parse_def encode_bytes_def from_utf8_str
        canonical_ok_str parse_object_encode)
next
  fix bs obj assume a: "canonical_decode bs = Inr obj"
  then show "canonical_ok obj \<and> encode_bytes obj = bs"
    by (auto simp: canonical_decode_def canonical_parse_def result_iff from_utf8_Some
        dest: parse_object_ok split: if_splits)
qed

text \<open>
  C31. The canonical form is a bijection between objects of well-formed strings and the byte strings
  the decoder accepts: bytes decode to an object exactly when the object's strings are well formed
  and the bytes are its encoding, so distinct member sets have distinct encodings and no second
  spelling (member order, escape form, leading zero) is accepted.
\<close>

theorem canonical_decode_exact:
  "canonical_decode bs = Inr obj \<longleftrightarrow> canonical_ok obj \<and> bs = encode_bytes obj"
  by (rule canonical.decode_iff)

end
