(* ===== verification/Ledger.thy ===== *)
theory Ledger
  imports Canonical Catalog Config
begin

text \<open>
  The identity side of the mutation pipeline (ops crate, \<open>mutation/fingerprint.rs\<close>,
  \<open>mutation/reservation.rs\<close>, \<open>mutation/receipt_ledger.rs\<close>): requests, their fingerprint over the
  canonical form, reservations, and the bounded ledger of receipts.

  \<open>&mut self\<close> operations return the new ledger; an error leaves it as it was.
\<close>

section \<open>Requests and fingerprints\<close>

record mutation_entry =
  me_section_key :: string
  me_cell_offset :: cell_offset
  me_block_id :: block_id
  me_expected_section_revision :: u64

record mutation_request =
  mq_txn_id :: string
  mq_world_id :: string
  mq_generation :: u64
  mq_entries :: "mutation_entry list"

type_synonym request_fingerprint = digest

definition MUTATION_RECEIPT_SCHEMA :: string where
  "MUTATION_RECEIPT_SCHEMA = ''voxel-mutation-receipt''"

definition CANONICAL_FORM_FIELD :: string where "CANONICAL_FORM_FIELD = ''canonicalForm''"

definition CANONICAL_FORM_ID :: string where "CANONICAL_FORM_ID = ''VoxelCanonicalObjectV1''"

definition entry_bytes :: "mutation_entry \<Rightarrow> u8 list" where
  "entry_bytes e =
     le_bytes 8 (of_nat (length (me_section_key e)) :: u64) @ str_bytes (me_section_key e) @
     le_bytes 2 (me_cell_offset e) @ le_bytes 4 (me_block_id e) @
     le_bytes 8 (me_expected_section_revision e)"

definition encode_entries :: "mutation_entry list \<Rightarrow> string" where
  "encode_entries es = hex_string (le_bytes 8 (of_nat (length es) :: u64) @ concat (map entry_bytes es))"

definition request_object :: "mutation_request \<Rightarrow> duplicate_member + canonical_object" where
  "request_object q =
     rbind (insert_text ''entries'' (encode_entries (mq_entries q)) fmempty) (\<lambda>o1.
     rbind (insert_text CANONICAL_FORM_FIELD CANONICAL_FORM_ID o1) (\<lambda>o2.
     rbind (insert_text ''txn_id'' (mq_txn_id q) o2) (\<lambda>o3.
     rbind (insert_text ''world_id'' (mq_world_id q) o3)
       (insert_uint ''generation'' (mq_generation q)))))"

definition canonical_fingerprint :: "mutation_request \<Rightarrow> duplicate_member + request_fingerprint" where
  "canonical_fingerprint q = rbind (request_object q) (\<lambda>obj. Inr (sha256 (encode_bytes obj)))"

section \<open>Reservations\<close>

definition LEASE_FAMILY :: string where "LEASE_FAMILY = ''GenerationBoundLeaseFamily''"

definition lease_expired :: "u64 \<Rightarrow> u64 \<Rightarrow> bool" where
  "lease_expired reserved_generation now_generation \<longleftrightarrow> now_generation \<noteq> reserved_generation"

record mutation_reservation =
  mr_txn_id :: string
  mr_world_id :: string
  mr_generation :: u64
  mr_fingerprint :: request_fingerprint

definition reservation_from_request :: "mutation_request \<Rightarrow> duplicate_member + mutation_reservation" where
  "reservation_from_request q =
     rbind (canonical_fingerprint q) (\<lambda>fp.
     Inr \<lparr>mr_txn_id = mq_txn_id q, mr_world_id = mq_world_id q, mr_generation = mq_generation q,
          mr_fingerprint = fp\<rparr>)"

definition reservation_is_expired :: "mutation_reservation \<Rightarrow> u64 \<Rightarrow> bool" where
  "reservation_is_expired r g = lease_expired (mr_generation r) g"

section \<open>The ledger\<close>

datatype replay_disposition = Original | Duplicate | Conflict

datatype lookup_outcome = LookupVacant | LookupInFlight | LookupDuplicate "u8 list"

datatype receipt_status = StatusUnknown | StatusPrepared | StatusApplied

record finalize_outcome =
  fo_disposition :: replay_disposition
  fo_receipt :: "u8 list"

record receipt_evidence =
  ev_old_root :: digest
  ev_new_root :: digest

record ledger_error =
  le_error_id :: string
  le_disposition :: "replay_disposition option"

definition ledger_conflict :: ledger_error where
  "ledger_conflict = \<lparr>le_error_id = ''RevisionConflict'', le_disposition = Some Conflict\<rparr>"

definition ledger_budget :: ledger_error where
  "ledger_budget = \<lparr>le_error_id = ''BudgetExceeded'', le_disposition = None\<rparr>"

definition ledger_invalid_handle :: ledger_error where
  "ledger_invalid_handle = \<lparr>le_error_id = ''InvalidHandle'', le_disposition = None\<rparr>"

definition ledger_session_mismatch :: ledger_error where
  "ledger_session_mismatch = \<lparr>le_error_id = ''SessionMismatch'', le_disposition = None\<rparr>"

record ledger_entry =
  ln_reservation :: mutation_reservation
  ln_receipt :: "u8 list option"
  ln_evidence :: "receipt_evidence option"

record receipt_ledger =
  lg_snapshot :: voxel_config_snapshot
  lg_max_entries :: nat
  lg_entries :: "(string, ledger_entry) fmap"
  lg_reserve_count :: nat
  lg_bound_world_id :: "string option"
  lg_bound_generation :: "u64 option"

definition ledger_from_approved_snapshot ::
    "voxel_config_snapshot \<Rightarrow> nat \<Rightarrow> ledger_error + receipt_ledger" where
  "ledger_from_approved_snapshot snapshot max_entries =
     (if max_entries = 0 then Inl ledger_budget
      else Inr \<lparr>lg_snapshot = snapshot, lg_max_entries = max_entries, lg_entries = fmempty,
                lg_reserve_count = 0, lg_bound_world_id = None, lg_bound_generation = None\<rparr>)"

definition ledger_config_hash :: "receipt_ledger \<Rightarrow> string" where
  "ledger_config_hash l = cs_config_hash (lg_snapshot l)"

definition check_request :: "mutation_request \<Rightarrow> receipt_ledger \<Rightarrow> ledger_error + unit" where
  "check_request q l =
     (if mq_txn_id q = [] \<or> mq_world_id q = [] then Inl ledger_invalid_handle
      else if (case lg_bound_world_id l of Some w \<Rightarrow> w \<noteq> mq_world_id q | None \<Rightarrow> False)
      then Inl ledger_session_mismatch
      else if (case lg_bound_generation l of Some g \<Rightarrow> g \<noteq> mq_generation q | None \<Rightarrow> False)
      then Inl ledger_invalid_handle
      else Inr ())"

definition check_entry :: "mutation_request \<Rightarrow> ledger_entry \<Rightarrow> ledger_error + unit" where
  "check_entry q e =
     (if mr_world_id (ln_reservation e) \<noteq> mq_world_id q then Inl ledger_session_mismatch
      else if reservation_is_expired (ln_reservation e) (mq_generation q) then Inl ledger_invalid_handle
      else rbind (map_err (\<lambda>_. ledger_invalid_handle) (canonical_fingerprint q)) (\<lambda>fp.
        if fp \<noteq> mr_fingerprint (ln_reservation e) then Inl ledger_conflict else Inr ()))"

definition ledger_lookup :: "mutation_request \<Rightarrow> receipt_ledger \<Rightarrow> ledger_error + lookup_outcome" where
  "ledger_lookup q l =
     rbind (check_request q l) (\<lambda>_.
     case fmlookup (lg_entries l) (mq_txn_id q) of
       None \<Rightarrow> Inr LookupVacant
     | Some e \<Rightarrow> rbind (check_entry q e) (\<lambda>_.
         case ln_receipt e of Some r \<Rightarrow> Inr (LookupDuplicate r) | None \<Rightarrow> Inr LookupInFlight))"

definition ledger_status :: "string \<Rightarrow> receipt_ledger \<Rightarrow> receipt_status" where
  "ledger_status txn l =
     (case fmlookup (lg_entries l) txn of
        None \<Rightarrow> StatusUnknown
      | Some e \<Rightarrow> if ln_receipt e \<noteq> None then StatusApplied else StatusPrepared)"

definition ledger_bind :: "mutation_request \<Rightarrow> receipt_ledger \<Rightarrow> receipt_ledger" where
  "ledger_bind q l =
     (let l1 = (if lg_bound_world_id l = None then l\<lparr>lg_bound_world_id := Some (mq_world_id q)\<rparr> else l)
      in if lg_bound_generation l1 = None then l1\<lparr>lg_bound_generation := Some (mq_generation q)\<rparr> else l1)"

definition ledger_reserve ::
    "mutation_request \<Rightarrow> receipt_ledger \<Rightarrow> ledger_error + mutation_reservation \<times> receipt_ledger" where
  "ledger_reserve q l =
     rbind (check_request q l) (\<lambda>_.
     case fmlookup (lg_entries l) (mq_txn_id q) of
       Some e \<Rightarrow> rbind (check_entry q e) (\<lambda>_. Inr (ln_reservation e, l))
     | None \<Rightarrow>
         if fm_len (lg_entries l) \<ge> lg_max_entries l then Inl ledger_budget
         else rbind (map_err (\<lambda>_. ledger_invalid_handle) (reservation_from_request q)) (\<lambda>r.
           let l1 = ledger_bind q l in
           Inr (r, l1\<lparr>lg_entries := fmupd (mq_txn_id q)
                        \<lparr>ln_reservation = r, ln_receipt = None, ln_evidence = None\<rparr> (lg_entries l1),
                      lg_reserve_count := usize_saturating_add (lg_reserve_count l1) 1\<rparr>)))"

definition ledger_set_entry :: "string \<Rightarrow> ledger_entry \<Rightarrow> receipt_ledger \<Rightarrow> receipt_ledger" where
  "ledger_set_entry txn e l = l\<lparr>lg_entries := fmupd txn e (lg_entries l)\<rparr>"

definition ledger_finalize ::
    "mutation_request \<Rightarrow> u8 list \<Rightarrow> receipt_ledger \<Rightarrow> ledger_error + finalize_outcome \<times> receipt_ledger" where
  "ledger_finalize q receipt l =
     rbind (check_request q l) (\<lambda>_.
     case fmlookup (lg_entries l) (mq_txn_id q) of
       None \<Rightarrow> Inl ledger_invalid_handle
     | Some e \<Rightarrow> rbind (check_entry q e) (\<lambda>_.
         case ln_receipt e of
           Some stored \<Rightarrow> Inr (\<lparr>fo_disposition = Duplicate, fo_receipt = stored\<rparr>, l)
         | None \<Rightarrow> Inr (\<lparr>fo_disposition = Original, fo_receipt = receipt\<rparr>,
             ledger_set_entry (mq_txn_id q) (e\<lparr>ln_receipt := Some receipt\<rparr>) l)))"

definition ledger_evidence ::
    "mutation_request \<Rightarrow> receipt_ledger \<Rightarrow> ledger_error + receipt_evidence option" where
  "ledger_evidence q l =
     rbind (check_request q l) (\<lambda>_.
     case fmlookup (lg_entries l) (mq_txn_id q) of
       None \<Rightarrow> Inl ledger_invalid_handle
     | Some e \<Rightarrow> rbind (check_entry q e) (\<lambda>_. Inr (ln_evidence e)))"

text \<open>The two steps after the swap; \<open>None\<close> is the panic of their \<open>expect\<close>.\<close>

definition finalize_after_publish ::
    "mutation_request \<Rightarrow> u8 list \<Rightarrow> receipt_ledger \<Rightarrow> (u8 list \<times> receipt_ledger) option" where
  "finalize_after_publish q receipt l =
     (case fmlookup (lg_entries l) (mq_txn_id q) of
        None \<Rightarrow> None
      | Some e \<Rightarrow>
          (case ln_receipt e of
             Some stored \<Rightarrow> Some (stored, l)
           | None \<Rightarrow> Some (receipt, ledger_set_entry (mq_txn_id q) (e\<lparr>ln_receipt := Some receipt\<rparr>) l)))"

definition record_evidence_after_publish ::
    "mutation_request \<Rightarrow> receipt_evidence \<Rightarrow> receipt_ledger \<Rightarrow> receipt_ledger option" where
  "record_evidence_after_publish q evidence l =
     (case fmlookup (lg_entries l) (mq_txn_id q) of
        None \<Rightarrow> None
      | Some e \<Rightarrow>
          if ln_receipt e \<noteq> None \<and> ln_evidence e = None
          then Some (ledger_set_entry (mq_txn_id q) (e\<lparr>ln_evidence := Some evidence\<rparr>) l)
          else Some l)"

definition ledger_abort :: "mutation_request \<Rightarrow> receipt_ledger \<Rightarrow> ledger_error + receipt_ledger" where
  "ledger_abort q l =
     rbind (check_request q l) (\<lambda>_.
     case fmlookup (lg_entries l) (mq_txn_id q) of
       None \<Rightarrow> Inr l
     | Some e \<Rightarrow> rbind (check_entry q e) (\<lambda>_.
         if ln_receipt e \<noteq> None then Inr l
         else Inr (l\<lparr>lg_entries := fmdrop (mq_txn_id q) (lg_entries l)\<rparr>)))"

definition ledger_abort_in_flight :: "receipt_ledger \<Rightarrow> receipt_ledger" where
  "ledger_abort_in_flight l =
     l\<lparr>lg_entries := fmfilter (\<lambda>txn. fmlookup (lg_entries l) txn \<noteq> None \<and>
        ln_receipt (the (fmlookup (lg_entries l) txn)) \<noteq> None) (lg_entries l)\<rparr>"

definition in_flight_count :: "receipt_ledger \<Rightarrow> nat" where
  "in_flight_count l = length (filter (\<lambda>(txn, e). ln_receipt e = None) (fm_entries (lg_entries l)))"

section \<open>What the fingerprint covers\<close>

text \<open>A request made of Rust strings that fit in memory.\<close>

definition request_ok :: "mutation_request \<Rightarrow> bool" where
  "request_ok q \<longleftrightarrow> str_ok (mq_txn_id q) \<and> str_ok (mq_world_id q) \<and>
     length (mq_entries q) \<le> usize_max \<and>
     list_all (\<lambda>e. length (me_section_key e) \<le> usize_max) (mq_entries q)"

definition request_members :: "mutation_request \<Rightarrow> canonical_object" where
  "request_members q =
     fmupd ''generation'' (Uint (mq_generation q))
     (fmupd ''world_id'' (Text (mq_world_id q))
     (fmupd ''txn_id'' (Text (mq_txn_id q))
     (fmupd CANONICAL_FORM_FIELD (Text CANONICAL_FORM_ID)
     (fmupd ''entries'' (Text (encode_entries (mq_entries q))) fmempty))))"

lemma request_object_total: "request_object q = Inr (request_members q)"
  by (simp add: request_object_def request_members_def insert_text_def insert_uint_def member_insert_def
      CANONICAL_FORM_FIELD_def)

lemma canonical_fingerprint_total:
  "canonical_fingerprint q = Inr (sha256 (encode_bytes (request_members q)))"
  by (simp add: canonical_fingerprint_def request_object_total)

lemma reservation_from_request_total:
  "reservation_from_request q = Inr \<lparr>mr_txn_id = mq_txn_id q, mr_world_id = mq_world_id q,
     mr_generation = mq_generation q, mr_fingerprint = sha256 (encode_bytes (request_members q))\<rparr>"
  by (simp add: reservation_from_request_def canonical_fingerprint_total)

lemma of_nat_u64_inject: "m \<le> usize_max \<Longrightarrow> n \<le> usize_max \<Longrightarrow> (of_nat m :: u64) = of_nat n \<longleftrightarrow> m = n"
  by (auto simp: word_of_nat_eq_iff take_bit_nat_def)

lemma le_bytes_8_inject: "le_bytes 8 (v :: u64) = le_bytes 8 w \<longleftrightarrow> v = w"
  using le_bytes_inj [of 8 v w] by auto

lemma entry_bytes_prefix_free:
  assumes "length (me_section_key e) \<le> usize_max" "length (me_section_key f) \<le> usize_max"
    "entry_bytes e @ xs = entry_bytes f @ ys"
  shows "e = f \<and> xs = ys"
proof -
  have "length (me_section_key e) = length (me_section_key f)"
    using assms by (simp add: entry_bytes_def append_eq_append_conv le_bytes_8_inject of_nat_u64_inject)
  with assms(3) have "me_section_key e = me_section_key f" "me_cell_offset e = me_cell_offset f"
    "me_block_id e = me_block_id f" "me_expected_section_revision e = me_expected_section_revision f" "xs = ys"
    by (simp_all add: entry_bytes_def append_eq_append_conv le_bytes_8_inject
        le_bytes_inj [of 2] le_bytes_inj [of 4])
  then show ?thesis by (cases e; cases f) simp
qed

lemma entries_bytes_inject:
  "length es = length fs \<Longrightarrow> list_all (\<lambda>e. length (me_section_key e) \<le> usize_max) es \<Longrightarrow>
   list_all (\<lambda>e. length (me_section_key e) \<le> usize_max) fs \<Longrightarrow>
   concat (map entry_bytes es) = concat (map entry_bytes fs) \<Longrightarrow> es = fs"
proof (induction es fs rule: list_induct2)
  case Nil
  then show ?case by simp
next
  case (Cons e es f fs)
  from Cons.prems entry_bytes_prefix_free [of e f "concat (map entry_bytes es)" "concat (map entry_bytes fs)"]
  have "e = f" "concat (map entry_bytes es) = concat (map entry_bytes fs)" by simp_all
  with Cons show ?case by simp
qed

lemma str_ok_hex_string: "str_ok (hex_string bs)"
proof (rule str_ok_ascii_all)
  have "byte_of (hex_digit d) < 0x80" if "d < 16" for d using that by (simp add: byte_hex_digit)
  moreover have "unat b div 16 < 16" for b :: u8
    using unsigned_less [of b, where ?'a = nat] by (simp add: div_less_iff_less_mult)
  ultimately show "list_all (\<lambda>c. byte_of c < 0x80) (hex_string bs)"
    by (auto simp: hex_string_def hex_byte_def list_all_iff)
qed

lemma request_members_ok: "request_ok q \<Longrightarrow> canonical_ok (request_members q)"
proof -
  have "str_ok ''generation'' \<and> str_ok ''world_id'' \<and> str_ok ''txn_id'' \<and> str_ok CANONICAL_FORM_FIELD \<and>
      str_ok CANONICAL_FORM_ID \<and> str_ok ''entries''"
    by (simp add: CANONICAL_FORM_FIELD_def CANONICAL_FORM_ID_def str_ok_ascii byte_of_def)
  moreover assume "request_ok q"
  ultimately show "canonical_ok (request_members q)"
    by (auto simp: canonical_ok_iff request_members_def request_ok_def encode_entries_def str_ok_hex_string)
qed

lemma request_members_inject:
  assumes "request_ok p" "request_ok q"
  shows "request_members p = request_members q \<longleftrightarrow> p = q"
proof
  assume eq: "request_members p = request_members q"
  have look: "fmlookup (request_members r) ''entries'' = Some (Text (encode_entries (mq_entries r)))"
    "fmlookup (request_members r) ''txn_id'' = Some (Text (mq_txn_id r))"
    "fmlookup (request_members r) ''world_id'' = Some (Text (mq_world_id r))"
    "fmlookup (request_members r) ''generation'' = Some (Uint (mq_generation r))" for r
    by (simp_all add: request_members_def CANONICAL_FORM_FIELD_def)
  have ids: "mq_txn_id p = mq_txn_id q" "mq_world_id p = mq_world_id q" "mq_generation p = mq_generation q"
    and "encode_entries (mq_entries p) = encode_entries (mq_entries q)"
    using look [of p] look [of q] unfolding eq by simp_all
  then have bytes: "le_bytes 8 (of_nat (length (mq_entries p)) :: u64) @ concat (map entry_bytes (mq_entries p)) =
      le_bytes 8 (of_nat (length (mq_entries q)) :: u64) @ concat (map entry_bytes (mq_entries q))"
    by (simp only: encode_entries_def hex_string_inj)
  then have "length (mq_entries p) = length (mq_entries q)"
    using assms by (simp add: append_eq_append_conv le_bytes_8_inject of_nat_u64_inject request_ok_def)
  moreover have "concat (map entry_bytes (mq_entries p)) = concat (map entry_bytes (mq_entries q))"
    using bytes by (simp add: append_eq_append_conv)
  ultimately have "mq_entries p = mq_entries q"
    using assms entries_bytes_inject by (simp add: request_ok_def)
  with ids show "p = q" by (cases p; cases q) simp
qed simp

section \<open>Histories of a ledger\<close>

text \<open>
  Every way the ledger changes. The two steps after a publication find the entry they name, as
  their \<open>expect\<close> demands.
\<close>

inductive ledger_step :: "receipt_ledger \<Rightarrow> receipt_ledger \<Rightarrow> bool" where
  step_reserve: "ledger_reserve q l = Inr (r, l') \<Longrightarrow> ledger_step l l'"
| step_finalize: "ledger_finalize q receipt l = Inr (out, l') \<Longrightarrow> ledger_step l l'"
| step_published: "finalize_after_publish q receipt l = Some (stored, l') \<Longrightarrow> ledger_step l l'"
| step_evidence: "record_evidence_after_publish q ev l = Some l' \<Longrightarrow> ledger_step l l'"
| step_abort: "ledger_abort q l = Inr l' \<Longrightarrow> ledger_step l l'"
| step_abort_all: "ledger_step l (ledger_abort_in_flight l)"

inductive_cases ledger_stepE: "ledger_step l l'"

definition receipt_of :: "receipt_ledger \<Rightarrow> string \<Rightarrow> u8 list option" where
  "receipt_of l txn = Option.bind (fmlookup (lg_entries l) txn) ln_receipt"

text \<open>Each entry sits under the transaction it was reserved for, in the world the ledger is bound to.\<close>

definition entry_ok :: "string option \<Rightarrow> u64 option \<Rightarrow> string \<Rightarrow> ledger_entry \<Rightarrow> bool" where
  "entry_ok world generation txn e \<longleftrightarrow> txn \<noteq> [] \<and> mr_txn_id (ln_reservation e) = txn \<and>
     world = Some (mr_world_id (ln_reservation e)) \<and> generation = Some (mr_generation (ln_reservation e)) \<and>
     (ln_evidence e \<noteq> None \<longrightarrow> ln_receipt e \<noteq> None)"

definition ledger_ok :: "receipt_ledger \<Rightarrow> bool" where
  "ledger_ok l \<longleftrightarrow> fm_len (lg_entries l) \<le> lg_max_entries l \<and>
     (\<forall>txn e. fmlookup (lg_entries l) txn = Some e \<longrightarrow>
        entry_ok (lg_bound_world_id l) (lg_bound_generation l) txn e)"

text \<open>What a step may do to the entry of a transaction: nothing, open it, complete it or drop it in flight.\<close>

definition entry_step :: "ledger_entry option \<Rightarrow> ledger_entry option \<Rightarrow> bool" where
  "entry_step before after \<longleftrightarrow>
     (case (before, after) of
        (None, None) \<Rightarrow> True
      | (None, Some e) \<Rightarrow> ln_receipt e = None \<and> ln_evidence e = None
      | (Some e, None) \<Rightarrow> ln_receipt e = None
      | (Some e, Some f) \<Rightarrow> ln_reservation f = ln_reservation e \<and>
          (ln_receipt e \<noteq> None \<longrightarrow> ln_receipt f = ln_receipt e) \<and>
          (ln_evidence e \<noteq> None \<longrightarrow> ln_evidence f = ln_evidence e))"

lemma entry_step_refl: "entry_step e e"
  by (simp add: entry_step_def split: option.splits)

lemma check_request_Inr:
  "check_request q l = Inr () \<longleftrightarrow> mq_txn_id q \<noteq> [] \<and> mq_world_id q \<noteq> [] \<and>
     (lg_bound_world_id l = None \<or> lg_bound_world_id l = Some (mq_world_id q)) \<and>
     (lg_bound_generation l = None \<or> lg_bound_generation l = Some (mq_generation q))"
  by (auto simp: check_request_def split: option.splits)

lemma check_entry_Inr:
  "check_entry q e = Inr () \<longleftrightarrow> mr_world_id (ln_reservation e) = mq_world_id q \<and>
     mr_generation (ln_reservation e) = mq_generation q \<and>
     canonical_fingerprint q = Inr (mr_fingerprint (ln_reservation e))"
  by (auto simp: check_entry_def reservation_is_expired_def lease_expired_def canonical_fingerprint_total)

lemma ledger_bind_simps [simp]:
  "lg_entries (ledger_bind q l) = lg_entries l" "lg_max_entries (ledger_bind q l) = lg_max_entries l"
  "lg_snapshot (ledger_bind q l) = lg_snapshot l" "lg_reserve_count (ledger_bind q l) = lg_reserve_count l"
  by (simp_all add: ledger_bind_def Let_def)

lemma ledger_bind_bound:
  "check_request q l = Inr () \<Longrightarrow>
     lg_bound_world_id (ledger_bind q l) = Some (mq_world_id q) \<and>
     lg_bound_generation (ledger_bind q l) = Some (mq_generation q)"
  by (auto simp: check_request_Inr ledger_bind_def Let_def)

lemma ledger_set_entry_simps [simp]:
  "lg_entries (ledger_set_entry t e l) = fmupd t e (lg_entries l)"
  "lg_max_entries (ledger_set_entry t e l) = lg_max_entries l"
  "lg_bound_world_id (ledger_set_entry t e l) = lg_bound_world_id l"
  "lg_bound_generation (ledger_set_entry t e l) = lg_bound_generation l"
  "lg_snapshot (ledger_set_entry t e l) = lg_snapshot l"
  by (simp_all add: ledger_set_entry_def)

text \<open>Each operation as an update of one entry.\<close>

lemma ledger_reserve_Inr:
  assumes "ledger_reserve q l = Inr (r, l')"
  shows "check_request q l = Inr () \<and>
    ((\<exists>e. fmlookup (lg_entries l) (mq_txn_id q) = Some e \<and> check_entry q e = Inr () \<and>
        r = ln_reservation e \<and> l' = l) \<or>
     (fmlookup (lg_entries l) (mq_txn_id q) = None \<and> fm_len (lg_entries l) < lg_max_entries l \<and>
        reservation_from_request q = Inr r \<and>
        lg_entries l' = fmupd (mq_txn_id q)
          \<lparr>ln_reservation = r, ln_receipt = None, ln_evidence = None\<rparr> (lg_entries l) \<and>
        lg_max_entries l' = lg_max_entries l \<and> lg_snapshot l' = lg_snapshot l \<and>
        lg_bound_world_id l' = Some (mq_world_id q) \<and> lg_bound_generation l' = Some (mq_generation q)))"
  using assms ledger_bind_bound [of q l]
  by (auto simp: ledger_reserve_def result_iff Let_def not_le split: option.splits if_splits)

lemma ledger_step_entry:
  assumes "ledger_step l l'"
  shows "entry_step (fmlookup (lg_entries l) txn) (fmlookup (lg_entries l') txn)"
  using assms
proof cases
  case (step_reserve q r)
  from ledger_reserve_Inr [OF this] show ?thesis
    by (auto simp: entry_step_refl) (simp add: entry_step_def split: option.splits)
next
  case (step_finalize q receipt out)
  then show ?thesis
    by (auto simp: ledger_finalize_def result_iff entry_step_refl split: option.splits)
      (auto simp: entry_step_def split: option.splits)
next
  case (step_published q receipt stored)
  then show ?thesis
    by (auto simp: finalize_after_publish_def entry_step_refl split: option.splits)
      (auto simp: entry_step_def split: option.splits)
next
  case (step_evidence q ev)
  then show ?thesis
    by (auto simp: record_evidence_after_publish_def entry_step_refl split: option.splits if_splits)
      (auto simp: entry_step_def split: option.splits)
next
  case (step_abort q)
  then show ?thesis
    by (auto simp: ledger_abort_def result_iff entry_step_refl split: option.splits if_splits)
      (auto simp: entry_step_def split: option.splits)
next
  case step_abort_all
  then show ?thesis
    by (auto simp: ledger_abort_in_flight_def entry_step_def split: option.splits)
qed

lemma ledger_step_config: "ledger_step l l' \<Longrightarrow> lg_max_entries l' = lg_max_entries l \<and> lg_snapshot l' = lg_snapshot l"
  by (erule ledger_stepE)
    (auto simp: ledger_finalize_def finalize_after_publish_def record_evidence_after_publish_def
      ledger_abort_def ledger_abort_in_flight_def result_iff dest!: ledger_reserve_Inr split: option.splits if_splits)

lemma ledger_ok_new: "ledger_from_approved_snapshot snapshot m = Inr l \<Longrightarrow> ledger_ok l"
  by (auto simp: ledger_from_approved_snapshot_def ledger_ok_def split: if_splits)

text \<open>Updating an entry that exists, keeping its reservation, keeps the ledger in order.\<close>

lemma ledger_ok_set:
  assumes "ledger_ok l" "fmlookup (lg_entries l) txn = Some e" "ln_reservation f = ln_reservation e"
    "ln_evidence f \<noteq> None \<longrightarrow> ln_receipt f \<noteq> None"
  shows "ledger_ok (ledger_set_entry txn f l)"
proof -
  have "entry_ok (lg_bound_world_id l) (lg_bound_generation l) txn e" using assms(1,2) by (simp add: ledger_ok_def)
  with assms(3,4) have "entry_ok (lg_bound_world_id l) (lg_bound_generation l) txn f"
    by (simp add: entry_ok_def)
  with assms(1,2) show ?thesis by (simp add: ledger_ok_def fm_len_upd)
qed

lemma ledger_ok_step:
  assumes "ledger_step l l'" "ledger_ok l"
  shows "ledger_ok l'"
  using assms(1)
proof cases
  case (step_reserve q r)
  note res = ledger_reserve_Inr [OF this]
  show ?thesis
  proof (cases "fmlookup (lg_entries l) (mq_txn_id q)")
    case (Some e)
    with res assms(2) show ?thesis by auto
  next
    case None
    with res have new: "fm_len (lg_entries l) < lg_max_entries l" "reservation_from_request q = Inr r"
      "lg_entries l' = fmupd (mq_txn_id q) \<lparr>ln_reservation = r, ln_receipt = None, ln_evidence = None\<rparr> (lg_entries l)"
      "lg_max_entries l' = lg_max_entries l"
      "lg_bound_world_id l' = Some (mq_world_id q)" "lg_bound_generation l' = Some (mq_generation q)"
      "check_request q l = Inr ()"
      by auto
    then have "entry_ok (lg_bound_world_id l') (lg_bound_generation l') (mq_txn_id q)
        \<lparr>ln_reservation = r, ln_receipt = None, ln_evidence = None\<rparr>"
      by (auto simp: entry_ok_def check_request_Inr reservation_from_request_total)
    moreover have "entry_ok (lg_bound_world_id l') (lg_bound_generation l') txn e"
      if "fmlookup (lg_entries l) txn = Some e" for txn e
    proof -
      have "entry_ok (lg_bound_world_id l) (lg_bound_generation l) txn e"
        using assms(2) that by (simp add: ledger_ok_def)
      with new(5-7) show ?thesis by (auto simp: entry_ok_def check_request_Inr)
    qed
    ultimately show ?thesis using assms(2) None new(1,3,4) by (simp add: ledger_ok_def fm_len_upd)
  qed
next
  case (step_finalize q receipt out)
  with assms(2) show ?thesis
    by (auto simp: ledger_finalize_def result_iff split: option.splits intro: ledger_ok_set)
next
  case (step_published q receipt stored)
  with assms(2) show ?thesis
    by (auto simp: finalize_after_publish_def split: option.splits intro: ledger_ok_set)
next
  case (step_evidence q ev)
  with assms(2) show ?thesis
    by (auto simp: record_evidence_after_publish_def split: option.splits if_splits intro: ledger_ok_set)
next
  case (step_abort q)
  with assms(2) show ?thesis
    by (auto simp: ledger_abort_def result_iff ledger_ok_def fm_len_drop split: option.splits if_splits)
next
  case step_abort_all
  have "fm_len (fmfilter P m) \<le> fm_len m" for P and m :: "(string, ledger_entry) fmap"
    unfolding fm_len_def by (rule fcard_mono) auto
  with assms(2) step_abort_all show ?thesis
    by (auto simp: ledger_abort_in_flight_def ledger_ok_def intro: order_trans)
qed

lemma ledger_steps:
  assumes "ledger_step\<^sup>*\<^sup>* l l'"
  shows "(ledger_ok l \<longrightarrow> ledger_ok l') \<and> lg_max_entries l' = lg_max_entries l \<and>
    (\<forall>txn e. fmlookup (lg_entries l) txn = Some e \<longrightarrow> ln_receipt e \<noteq> None \<longrightarrow>
       (\<exists>f. fmlookup (lg_entries l') txn = Some f \<and> ln_reservation f = ln_reservation e \<and>
          ln_receipt f = ln_receipt e \<and> (ln_evidence e \<noteq> None \<longrightarrow> ln_evidence f = ln_evidence e)))"
  using assms
proof (induction rule: rtranclp_induct)
  case base
  then show ?case by auto
next
  case (step m n)
  have "\<exists>g. fmlookup (lg_entries n) txn = Some g \<and> ln_reservation g = ln_reservation f \<and>
      ln_receipt g = ln_receipt f \<and> (ln_evidence f \<noteq> None \<longrightarrow> ln_evidence g = ln_evidence f)"
    if "fmlookup (lg_entries m) txn = Some f" "ln_receipt f \<noteq> None" for txn f
    using ledger_step_entry [OF step(2), of txn] that
    by (cases "fmlookup (lg_entries n) txn") (auto simp: entry_step_def)
  with step.IH ledger_ok_step [OF step(2)] ledger_step_config [OF step(2)] show ?case
    by (metis (no_types, lifting))
qed

lemma ledger_lookup_Duplicate:
  "ledger_lookup q l = Inr (LookupDuplicate r) \<longleftrightarrow> check_request q l = Inr () \<and>
     (\<exists>e. fmlookup (lg_entries l) (mq_txn_id q) = Some e \<and> check_entry q e = Inr () \<and> ln_receipt e = Some r)"
  by (auto simp: ledger_lookup_def result_iff split: option.splits)

text \<open>
  C36. The fingerprint identifies the request: it never fails, it is the digest of the canonical
  bytes of the request, and those bytes are equal for two requests only when the requests are
  equal in transaction, world, generation and in every entry, in order.
\<close>

theorem fingerprint_identifies_request:
  assumes "request_ok p" "request_ok q"
  shows "canonical_fingerprint p = Inr (sha256 (encode_bytes (request_members p))) \<and>
    (encode_bytes (request_members p) = encode_bytes (request_members q) \<longleftrightarrow> p = q)"
  using assms request_members_inject [OF assms]
  by (simp add: canonical_fingerprint_total canonical.encode_inject request_members_ok)

definition sample_request :: mutation_request where
  "sample_request = \<lparr>mq_txn_id = ''t1'', mq_world_id = ''w'', mq_generation = 7,
     mq_entries = [\<lparr>me_section_key = ''s:1:2:3'', me_cell_offset = 5, me_block_id = 9,
                    me_expected_section_revision = 3\<rparr>]\<rparr>"

theorem fingerprint_identifies_request_witness:
  "encode_bytes (request_members sample_request) \<noteq>
     encode_bytes (request_members (sample_request\<lparr>mq_entries := []\<rparr>))"
proof -
  have "request_ok sample_request" "request_ok (sample_request\<lparr>mq_entries := []\<rparr>)"
    by (simp_all add: request_ok_def sample_request_def str_ok_ascii byte_of_def)
  from fingerprint_identifies_request [OF this] show ?thesis by (simp add: sample_request_def)
qed

text \<open>
  C29. Receipts are final and replay is idempotent. In any history of a ledger it never holds more
  transactions than its capacity, each under its own identity and in the world and generation it
  is bound to; a stored receipt is never replaced or dropped; and a request that is answered with
  a stored receipt is answered with the same receipt ever after.
\<close>

theorem receipts_are_final:
  assumes "ledger_from_approved_snapshot snapshot m = Inr l0" "ledger_step\<^sup>*\<^sup>* l0 l" "ledger_step\<^sup>*\<^sup>* l l'"
  shows "ledger_ok l' \<and> fm_len (lg_entries l') \<le> m \<and>
    (\<forall>txn r. receipt_of l txn = Some r \<longrightarrow> receipt_of l' txn = Some r) \<and>
    (\<forall>q r. ledger_lookup q l = Inr (LookupDuplicate r) \<longrightarrow> ledger_lookup q l' = Inr (LookupDuplicate r))"
proof -
  have ok: "ledger_ok l'"
    using ledger_ok_new [OF assms(1)] ledger_steps [OF assms(2)] ledger_steps [OF assms(3)] by blast
  moreover have "lg_max_entries l' = m"
    using ledger_steps [OF assms(2)] ledger_steps [OF assms(3)] assms(1)
    by (auto simp: ledger_from_approved_snapshot_def split: if_splits)
  moreover have "receipt_of l' txn = Some r" if "receipt_of l txn = Some r" for txn r
    using ledger_steps [OF assms(3)] that by (fastforce simp: receipt_of_def bind_eq_Some_conv)
  moreover have "ledger_lookup q l' = Inr (LookupDuplicate r)"
    if "ledger_lookup q l = Inr (LookupDuplicate r)" for q r
  proof -
    from that obtain e where e: "fmlookup (lg_entries l) (mq_txn_id q) = Some e" "check_entry q e = Inr ()"
      "ln_receipt e = Some r" and q: "check_request q l = Inr ()"
      by (auto simp: ledger_lookup_Duplicate)
    with ledger_steps [OF assms(3)] obtain f where f: "fmlookup (lg_entries l') (mq_txn_id q) = Some f"
      "ln_reservation f = ln_reservation e" "ln_receipt f = Some r"
      by (metis option.distinct(1))
    with ok have "entry_ok (lg_bound_world_id l') (lg_bound_generation l') (mq_txn_id q) f"
      by (auto simp: ledger_ok_def)
    with f(2) have "lg_bound_world_id l' = Some (mr_world_id (ln_reservation e))"
      "lg_bound_generation l' = Some (mr_generation (ln_reservation e))"
      by (simp_all add: entry_ok_def)
    with e(2) q f show ?thesis by (auto simp: ledger_lookup_Duplicate check_entry_Inr check_request_Inr)
  qed
  ultimately show ?thesis by (auto simp: ledger_ok_def)
qed

lemma sample_request_simps [simp]:
  "mq_txn_id sample_request = ''t1''" "mq_world_id sample_request = ''w''" "mq_generation sample_request = 7"
  by (simp_all add: sample_request_def)

definition sample_ledger :: receipt_ledger where
  "sample_ledger = \<lparr>lg_snapshot = \<lparr>cs_config_hash = ''h'', cs_allow_list = []\<rparr>, lg_max_entries = 1,
     lg_entries = fmempty, lg_reserve_count = 0, lg_bound_world_id = None, lg_bound_generation = None\<rparr>"

theorem receipts_are_final_witness:
  "\<exists>l. ledger_step\<^sup>*\<^sup>* sample_ledger l \<and> receipt_of l ''t1'' = Some [1, 2] \<and>
     receipt_of (ledger_abort_in_flight l) ''t1'' = Some [1, 2] \<and> fm_len (lg_entries l) \<le> 1"
proof -
  have new: "ledger_from_approved_snapshot \<lparr>cs_config_hash = ''h'', cs_allow_list = []\<rparr> 1 = Inr sample_ledger"
    by (simp add: ledger_from_approved_snapshot_def sample_ledger_def)
  have "\<exists>r l1. ledger_reserve sample_request sample_ledger = Inr (r, l1)"
    by (simp add: ledger_reserve_def check_request_def sample_ledger_def reservation_from_request_total Let_def)
  then obtain r l1 where l1: "ledger_reserve sample_request sample_ledger = Inr (r, l1)" by blast
  from ledger_reserve_Inr [OF l1] have e1: "check_request sample_request l1 = Inr ()"
    "fmlookup (lg_entries l1) ''t1'' = Some \<lparr>ln_reservation = r, ln_receipt = None, ln_evidence = None\<rparr>"
    "check_entry sample_request \<lparr>ln_reservation = r, ln_receipt = None, ln_evidence = None\<rparr> = Inr ()"
    by (auto simp: sample_ledger_def check_request_Inr check_entry_Inr
        reservation_from_request_total canonical_fingerprint_total)
  then have "\<exists>out l. ledger_finalize sample_request [1, 2] l1 = Inr (out, l) \<and> receipt_of l ''t1'' = Some [1, 2]"
    by (simp add: ledger_finalize_def receipt_of_def)
  then obtain out l where l: "ledger_finalize sample_request [1, 2] l1 = Inr (out, l)"
    "receipt_of l ''t1'' = Some [1, 2]" by blast
  have steps: "ledger_step\<^sup>*\<^sup>* sample_ledger l"
    using l1 l(1) by (blast intro: step_reserve step_finalize rtranclp.intros)
  moreover have "ledger_step\<^sup>*\<^sup>* l (ledger_abort_in_flight l)" by (blast intro: step_abort_all)
  ultimately have fin: "receipt_of (ledger_abort_in_flight l) ''t1'' = Some [1, 2]"
    using receipts_are_final [OF new steps] l(2) by blast
  have "fm_len (lg_entries l) \<le> 1"
    using receipts_are_final [OF new steps rtranclp.rtrancl_refl] by blast
  with steps l(2) fin show ?thesis by blast
qed

end
