(* ===== verification/Prepare.thy ===== *)
theory Prepare
  imports Publication Ledger
begin

text \<open>
  Planning and preparing a mutation (ops crate, \<open>mutation/plan.rs\<close>, \<open>preconditions.rs\<close>,
  \<open>prepared_token.rs\<close>, \<open>prepare.rs\<close>): a request is grouped by section, checked against the
  published cut and the ledger, and turned into a private replacement; nothing is published.

  \<open>prepare\<close> takes the ledger by mutable reference and may change it also when it fails, so it
  returns its result together with the ledger.
\<close>

section \<open>Errors\<close>

record mutation_error =
  mx_error_id :: string
  mx_disposition :: "replay_disposition option"

definition mx_plain :: "string \<Rightarrow> mutation_error" where
  "mx_plain i = \<lparr>mx_error_id = i, mx_disposition = None\<rparr>"

definition mx_invalid_handle :: mutation_error where
  "mx_invalid_handle = mx_plain ''InvalidHandle''"

definition mx_session_mismatch :: mutation_error where
  "mx_session_mismatch = mx_plain ''SessionMismatch''"

definition mx_stale_epoch :: mutation_error where
  "mx_stale_epoch = mx_plain ''StaleEpoch''"

definition mx_stale_section_revision :: mutation_error where
  "mx_stale_section_revision = mx_plain (the (intern_error_code STALE_SECTION_REVISION))"

definition mx_write_batch_too_large :: mutation_error where
  "mx_write_batch_too_large = mx_plain (the (intern_error_code ''write_batch_too_large''))"

definition mx_unstructured_mutation_entry :: mutation_error where
  "mx_unstructured_mutation_entry = mx_plain (the (intern_error_code ''unstructured_mutation_entry''))"

definition mx_section_unavailable :: mutation_error where
  "mx_section_unavailable = mx_plain (the (intern_error_code SECTION_UNAVAILABLE))"

definition mx_snapshot_base_mismatch :: mutation_error where
  "mx_snapshot_base_mismatch = mx_plain ''SnapshotBaseMismatch''"

definition mx_from_ledger :: "ledger_error \<Rightarrow> mutation_error" where
  "mx_from_ledger e = \<lparr>mx_error_id = le_error_id e, mx_disposition = le_disposition e\<rparr>"

definition mx_from_section :: "section_error \<Rightarrow> mutation_error" where
  "mx_from_section e = mx_plain (section_error_id e)"

definition mx_from_dirty :: "dirty_error \<Rightarrow> mutation_error" where
  "mx_from_dirty e = mx_plain (dirty_error_id e)"

definition mx_from_publish :: "publish_error \<Rightarrow> mutation_error" where
  "mx_from_publish e = mx_plain (publish_error_id e)"

section \<open>The plan\<close>

text \<open>The edits of each section in submission order.\<close>

type_synonym section_edits = "mutation_entry list"

type_synonym mutation_plan = "(string, section_edits) fmap"

definition MAX_WRITE_BATCH_ENTRIES :: nat where
  "MAX_WRITE_BATCH_ENTRIES = MAX_ENTRIES_PER_WRITE_BATCH"

definition plan_push :: "mutation_entry \<Rightarrow> mutation_plan \<Rightarrow> mutation_error + mutation_plan" where
  "plan_push e sections =
     (if me_section_key e = [] then Inl mx_unstructured_mutation_entry
      else rbind (map_err (\<lambda>err. mx_from_section (SeKey err)) (section_id_parse (me_section_key e))) (\<lambda>_.
        Inr (fmupd (me_section_key e)
               ((case fmlookup sections (me_section_key e) of None \<Rightarrow> [] | Some es \<Rightarrow> es) @ [e]) sections)))"

definition plan_build :: "mutation_request \<Rightarrow> mutation_error + mutation_plan" where
  "plan_build q =
     (if mq_txn_id q = [] \<or> mq_world_id q = [] then Inl mx_invalid_handle
      else if length (mq_entries q) > MAX_WRITE_BATCH_ENTRIES then Inl mx_write_batch_too_large
      else rfold plan_push (mq_entries q) fmempty)"

section \<open>Preconditions\<close>

text \<open>The revision of a section: its own entry of the stamp, or the world revision.\<close>

definition stamp_section_revision :: "revision_stamp \<Rightarrow> string \<Rightarrow> u64" where
  "stamp_section_revision stamp sid =
     (case fmlookup (rs_section_revision_set stamp) sid of Some r \<Rightarrow> r | None \<Rightarrow> rs_world_revision stamp)"

definition check_expected :: "revision_stamp \<Rightarrow> mutation_plan \<Rightarrow> string \<Rightarrow> unit \<Rightarrow> mutation_error + unit" where
  "check_expected stamp plan sid u =
     (let edits = fmlookup plan sid in
      case Option.bind edits (\<lambda>es. if es = [] then None else Some (me_expected_section_revision (hd es))) of
        None \<Rightarrow> Inl mx_unstructured_mutation_entry
      | Some expected \<Rightarrow>
          let current = stamp_section_revision stamp sid in
          if expected \<noteq> current \<or>
             list_ex (\<lambda>e. me_expected_section_revision e \<noteq> current) (case edits of None \<Rightarrow> [] | Some es \<Rightarrow> es)
          then Inl mx_stale_section_revision else Inr ())"

definition check_presence :: "section_directory \<Rightarrow> string \<Rightarrow> unit \<Rightarrow> mutation_error + unit" where
  "check_presence d sid u =
     (case directory_lookup d sid of
        Inr (Some slot) \<Rightarrow>
          (let presence = slot_presence slot in
           if presence = ''Ready'' then Inr ()
           else if presence = ''Unchanged'' \<or> presence = ''Pending'' \<or> presence = ''Unavailable''
           then Inl mx_section_unavailable
           else Inl mx_invalid_handle)
      | Inr None \<Rightarrow> Inl mx_section_unavailable
      | Inl (SeKey _) \<Rightarrow> Inr ()
      | Inl err \<Rightarrow> Inl (mx_from_section err))"

definition preconditions_check ::
    "mutation_request \<Rightarrow> published_read_view \<Rightarrow> receipt_ledger \<Rightarrow> mutation_error + unit" where
  "preconditions_check q base l =
     (let stamp = view_stamp base in
      if mq_txn_id q = [] \<or> mq_world_id q = [] then Inl mx_invalid_handle
      else if mq_world_id q \<noteq> rs_world_id stamp then Inl mx_session_mismatch
      else if mq_generation q \<noteq> rs_generation stamp then Inl mx_stale_epoch
      else
        (case ledger_lookup q l of
           Inr (LookupDuplicate _) \<Rightarrow> Inr ()
         | Inr LookupInFlight \<Rightarrow> Inl mx_invalid_handle
         | Inl err \<Rightarrow> Inl (mx_from_ledger err)
         | Inr LookupVacant \<Rightarrow>
             rbind (plan_build q) (\<lambda>plan.
             rbind (rfold (check_expected stamp plan) (fm_keys plan) ()) (\<lambda>_.
             rfold (check_presence (ps_directory (rv_root base))) (fm_keys plan) ()))))"

section \<open>The prepared token\<close>

record prepared_mutation =
  pm_txn_id :: string
  pm_fingerprint :: request_fingerprint
  pm_base_identity :: digest
  pm_generation :: u64
  pm_config_hash :: string
  pm_reservation :: mutation_reservation
  pm_request :: mutation_request
  pm_replacement :: replacement
  pm_dirty :: dirty_frontier
  pm_target_world_revision :: u64
  pm_replay_receipt :: "u8 list option"
  pm_replay_evidence :: "receipt_evidence option"

definition prepared_bind ::
    "mutation_request \<Rightarrow> request_fingerprint \<Rightarrow> digest \<Rightarrow> u64 \<Rightarrow> string \<Rightarrow> mutation_reservation \<Rightarrow>
     replacement \<Rightarrow> dirty_frontier \<Rightarrow> u64 \<Rightarrow> prepared_mutation" where
  "prepared_bind q fp base_identity generation config_hash reservation replacement dirty target =
     \<lparr>pm_txn_id = mq_txn_id q, pm_fingerprint = fp, pm_base_identity = base_identity,
      pm_generation = generation, pm_config_hash = config_hash, pm_reservation = reservation,
      pm_request = q, pm_replacement = replacement, pm_dirty = dirty,
      pm_target_world_revision = target, pm_replay_receipt = None, pm_replay_evidence = None\<rparr>"

definition prepared_bind_replay ::
    "mutation_request \<Rightarrow> request_fingerprint \<Rightarrow> digest \<Rightarrow> u64 \<Rightarrow> string \<Rightarrow> mutation_reservation \<Rightarrow>
     replacement \<Rightarrow> dirty_frontier \<Rightarrow> u64 \<Rightarrow> u8 list \<Rightarrow> receipt_evidence option \<Rightarrow> prepared_mutation" where
  "prepared_bind_replay q fp base_identity generation config_hash reservation replacement dirty target receipt ev =
     (prepared_bind q fp base_identity generation config_hash reservation replacement dirty target)
       \<lparr>pm_replay_receipt := Some receipt, pm_replay_evidence := ev\<rparr>"

section \<open>Preparing\<close>

definition base_storage :: "published_read_view \<Rightarrow> string \<Rightarrow> mutation_error + storage_state" where
  "base_storage base sid =
     rbind (map_err mx_from_section (directory_lookup (ps_directory (rv_root base)) sid)) (\<lambda>slot.
     rbind (ok_or mx_section_unavailable (Option.bind slot slot_payload)) (\<lambda>payload.
     ok_or mx_unstructured_mutation_entry (pl_storage payload)))"

text \<open>Each cell keeps its last write and that write's position; the writes run in that order.\<close>

definition final_writes :: "mutation_entry list \<Rightarrow> (cell_offset \<times> nat \<times> block_id) list" where
  "final_writes entries =
     sort_key (\<lambda>(offset, index, block). index)
       (fm_entries (fold (\<lambda>(index, e). fmupd (me_cell_offset e) (index, me_block_id e))
          (enumerate 0 entries) fmempty))"

definition write_cell ::
    "cell_offset \<times> nat \<times> block_id \<Rightarrow> storage_state \<times> string list \<Rightarrow> storage_state \<times> string list" where
  "write_cell w acc =
     (let (offset, index, block) = w; (storage, cells) = acc
      in (fst (storage_write offset block storage), cells @ [dec_nat (unat offset)]))"

definition payload_for_entries ::
    "string \<Rightarrow> u64 \<Rightarrow> published_read_view \<Rightarrow> mutation_entry list \<Rightarrow> mutation_error + section_slot \<times> string list"
where
  "payload_for_entries sid srev base entries =
     rbind (map_err (\<lambda>_. mx_unstructured_mutation_entry) (section_id_parse sid)) (\<lambda>i.
     rbind (base_storage base sid) (\<lambda>storage0.
     let (storage, cells) = fold write_cell (final_writes entries) (storage0, []);
         envelope = encode_full i srev storage
     in rbind (map_err mx_from_section
          (payload_from_pages_with_storage
             [\<lparr>sp_encoding = ''Dense'', sp_compression = ''None'', sp_bytes = pe_payload envelope,
               sp_declared_digest = sha256 (pe_payload envelope)\<rparr>] (Some storage))) (\<lambda>payload.
        Inr (SlotReady payload, cells))))"

definition stage_section ::
    "published_read_view \<Rightarrow> string \<times> section_edits \<Rightarrow> delta_builder \<Rightarrow> mutation_error + delta_builder" where
  "stage_section base se builder =
     rbind (ok_or mx_invalid_handle (checked_add (stamp_section_revision (view_stamp base) (fst se)) 1)) (\<lambda>next.
     rbind (payload_for_entries (fst se) next base (snd se)) (\<lambda>sc.
     map_err mx_from_section
       (delta_stage \<lparr>se_section_id = fst se, se_cell_ids = snd sc, se_slot = fst sc\<rparr> builder)))"

definition record_dirty ::
    "revision_stamp \<Rightarrow> string \<Rightarrow> dirty_frontier \<Rightarrow> mutation_error + dirty_frontier" where
  "record_dirty stamp sid dirty =
     rbind (ok_or mx_invalid_handle (checked_add (stamp_section_revision stamp sid) 1)) (\<lambda>next.
     map_err mx_from_dirty (dirty_record sid next ''mutation'' dirty))"

definition seal_private ::
    "mutation_request \<Rightarrow> published_read_view \<Rightarrow> receipt_ledger \<Rightarrow> mutation_plan \<Rightarrow> digest \<Rightarrow>
     mutation_reservation \<Rightarrow> mutation_error + prepared_mutation" where
  "seal_private q base l plan base_identity reservation =
     (let stamp = view_stamp base in
      rbind (rfold (stage_section base) (fm_entries plan)
               (delta_builder_new (ps_directory (rv_root base)))) (\<lambda>builder.
      rbind (map_err mx_from_section (delta_freeze builder)) (\<lambda>replacement.
      rbind (rfold (record_dirty stamp) (fm_keys plan) (ps_dirty_frontier (rv_root base))) (\<lambda>dirty.
      rbind (ok_or mx_invalid_handle (checked_add (rs_world_revision stamp) 1)) (\<lambda>target.
      rbind (map_err (\<lambda>_. mx_invalid_handle) (canonical_fingerprint q)) (\<lambda>fp.
      Inr (prepared_bind q fp base_identity (mq_generation q) (ledger_config_hash l) reservation
             replacement dirty target)))))))"

definition prepare_replay ::
    "mutation_request \<Rightarrow> published_read_view \<Rightarrow> receipt_ledger \<Rightarrow> u8 list \<Rightarrow>
     (mutation_error + prepared_mutation) \<times> receipt_ledger" where
  "prepare_replay q base l receipt =
     (case map_err mx_from_ledger (ledger_reserve q l) of
        Inl e \<Rightarrow> (Inl e, l)
      | Inr (reservation, l1) \<Rightarrow>
          (rbind (map_err mx_from_ledger (ledger_evidence q l1)) (\<lambda>ev.
           rbind (map_err mx_from_section
                    (delta_freeze (delta_builder_new (ps_directory (rv_root base))))) (\<lambda>replacement.
           Inr (prepared_bind_replay q (mr_fingerprint reservation) (ps_identity (rv_root base))
                  (mq_generation q) (ledger_config_hash l1) reservation replacement
                  (ps_dirty_frontier (rv_root base)) (rs_world_revision (view_stamp base)) receipt ev))),
           l1))"

definition prepare ::
    "mutation_request \<Rightarrow> published_read_view \<Rightarrow> receipt_ledger \<Rightarrow>
     (mutation_error + prepared_mutation) \<times> receipt_ledger" where
  "prepare q base l =
     (let base_identity = ps_identity (rv_root base) in
      case preconditions_check q base l of
        Inl e \<Rightarrow> (Inl e, l)
      | Inr _ \<Rightarrow>
          (case map_err mx_from_ledger (ledger_lookup q l) of
             Inl e \<Rightarrow> (Inl e, l)
           | Inr (LookupDuplicate receipt) \<Rightarrow> prepare_replay q base l receipt
           | Inr _ \<Rightarrow>
               (case plan_build q of
                  Inl e \<Rightarrow> (Inl e, l)
                | Inr plan \<Rightarrow>
                    (case map_err mx_from_ledger (ledger_reserve q l) of
                       Inl e \<Rightarrow> (Inl e, l)
                     | Inr (reservation, l1) \<Rightarrow>
                         (case seal_private q base l1 plan base_identity reservation of
                            Inr token \<Rightarrow> (Inr token, l1)
                          | Inl err \<Rightarrow>
                              (Inl err, case ledger_abort q l1 of Inr l2 \<Rightarrow> l2 | Inl _ \<Rightarrow> l1))))))"

section \<open>The plan groups the entries by section\<close>

definition entries_of :: "mutation_request \<Rightarrow> string \<Rightarrow> mutation_entry list" where
  "entries_of q sid = filter (\<lambda>e. me_section_key e = sid) (mq_entries q)"

lemma plan_push_Inr:
  "plan_push e m = Inr m' \<longleftrightarrow> me_section_key e \<noteq> [] \<and> (\<exists>i. section_id_parse (me_section_key e) = Inr i) \<and>
     m' = fmupd (me_section_key e)
       ((case fmlookup m (me_section_key e) of None \<Rightarrow> [] | Some es \<Rightarrow> es) @ [e]) m"
  by (cases "section_id_parse (me_section_key e)") (auto simp: plan_push_def)

lemma plan_push_all:
  "rfold plan_push es m = Inr m' \<Longrightarrow>
     (\<forall>e \<in> set es. \<exists>i. section_id_parse (me_section_key e) = Inr i) \<and>
     (\<forall>sid. fmlookup m' sid =
        (let new = filter (\<lambda>e. me_section_key e = sid) es in
         case fmlookup m sid of None \<Rightarrow> if new = [] then None else Some new | Some xs \<Rightarrow> Some (xs @ new)))"
proof (induction es arbitrary: m)
  case Nil
  then show ?case by (auto split: option.splits)
next
  case (Cons e es)
  then obtain m1 where m1: "plan_push e m = Inr m1" "rfold plan_push es m1 = Inr m'"
    by (auto simp: result_iff)
  note IH = Cons.IH [OF m1(2)]
  show ?case
  proof (intro conjI allI)
    show "\<forall>x \<in> set (e # es). \<exists>i. section_id_parse (me_section_key x) = Inr i"
      using IH m1(1) by (simp add: plan_push_Inr)
    fix sid
    show "fmlookup m' sid =
        (let new = filter (\<lambda>e. me_section_key e = sid) (e # es) in
         case fmlookup m sid of None \<Rightarrow> if new = [] then None else Some new | Some xs \<Rightarrow> Some (xs @ new))"
      using IH [THEN conjunct2, rule_format, of sid] m1(1)
      by (auto simp: plan_push_Inr Let_def split: option.splits)
  qed
qed

lemma plan_build_Inr:
  assumes "plan_build q = Inr plan"
  shows "fmlookup plan sid = (if entries_of q sid = [] then None else Some (entries_of q sid))"
    "mq_txn_id q \<noteq> []" "mq_world_id q \<noteq> []" "length (mq_entries q) \<le> MAX_ENTRIES_PER_WRITE_BATCH"
    "e \<in> set (mq_entries q) \<Longrightarrow> \<exists>i. section_id_parse (me_section_key e) = Inr i"
  using assms plan_push_all [of "mq_entries q" fmempty plan]
  by (auto simp: plan_build_def entries_of_def Let_def MAX_WRITE_BATCH_ENTRIES_def
      simp del: MAX_ENTRIES_PER_WRITE_BATCH_def split: if_splits)

lemma plan_keys: "plan_build q = Inr plan \<Longrightarrow> sid \<in> set (fm_keys plan) \<longleftrightarrow> entries_of q sid \<noteq> []"
  by (simp add: fmlookup_dom_iff plan_build_Inr(1))

lemma plan_key_parses:
  assumes "plan_build q = Inr plan" "entries_of q sid \<noteq> []"
  shows "\<exists>i. section_id_parse sid = Inr i"
proof -
  from assms(2) obtain e where "e \<in> set (mq_entries q)" "me_section_key e = sid"
    by (auto simp: entries_of_def filter_empty_conv)
  with plan_build_Inr(5) [OF assms(1)] show ?thesis by blast
qed

section \<open>The last write to each cell\<close>

definition last_write :: "mutation_entry list \<Rightarrow> cell_offset \<Rightarrow> block_id option" where
  "last_write es off = map_of (rev (map (\<lambda>e. (me_cell_offset e, me_block_id e)) es)) off"

lemma collapse_lookup:
  "fmlookup (fold (\<lambda>(index, e). fmupd (me_cell_offset e) (index, me_block_id e)) xs m) off =
     (case map_of (rev (map (\<lambda>(index, e). (me_cell_offset e, (index, me_block_id e))) xs)) off of
        Some v \<Rightarrow> Some v | None \<Rightarrow> fmlookup m off)"
  by (induction xs arbitrary: m) (auto simp: map_add_def split: option.splits)

lemma map_of_rev_enumerate:
  "map_option snd (map_of (rev (map (\<lambda>(index, e). (me_cell_offset e, (index, me_block_id e))) (enumerate n es))) off) =
     last_write es off"
proof (induction es arbitrary: n)
  case Nil
  then show ?case by (simp add: last_write_def)
next
  case (Cons e es)
  let ?A = "map_of (rev (map (\<lambda>(index, e). (me_cell_offset e, (index, me_block_id e))) (enumerate (Suc n) es))) off"
  have "last_write (e # es) off =
      (case last_write es off of None \<Rightarrow> if off = me_cell_offset e then Some (me_block_id e) else None | Some b \<Rightarrow> Some b)"
    by (simp add: last_write_def map_add_def split: option.split)
  with Cons.IH [of "Suc n"] show ?case
    by (cases ?A; cases "last_write es off") (simp_all add: map_add_def)
qed

lemma final_writes_spec:
  "distinct (map fst (final_writes es))"
  "map_of (map (\<lambda>(off, index, block). (off, block)) (final_writes es)) = last_write es"
proof -
  let ?m = "fold (\<lambda>(index, e). fmupd (me_cell_offset e) (index, me_block_id e)) (enumerate 0 es) fmempty"
  have ms: "mset (final_writes es) = mset (fm_entries ?m)" by (simp add: final_writes_def)
  then have "mset (map fst (final_writes es)) = mset (map fst (fm_entries ?m))" by simp
  then show d: "distinct (map fst (final_writes es))"
    using mset_eq_imp_distinct_iff distinct_fm_entries by blast
  have "map_of (final_writes es) = map_of (fm_entries ?m)"
    using d distinct_fm_entries mset_eq_setD [OF ms] by (rule map_of_same_set)
  then have "map_of (final_writes es) off = fmlookup ?m off" for off by (simp add: map_of_fm_entries)
  moreover have "map_of (map (\<lambda>(off, index, block). (off, block)) ws) off = map_option snd (map_of ws off)"
    for ws :: "(cell_offset \<times> nat \<times> block_id) list" and off
    by (induction ws) auto
  moreover have "fmlookup ?m off =
      map_of (rev (map (\<lambda>(index, e). (me_cell_offset e, (index, me_block_id e))) (enumerate 0 es))) off" for off
    unfolding collapse_lookup by (simp split: option.splits)
  ultimately show "map_of (map (\<lambda>(off, index, block). (off, block)) (final_writes es)) = last_write es"
    by (simp add: fun_eq_iff map_of_rev_enumerate)
qed

section \<open>The payload of a section\<close>

definition cells_ok :: "mutation_entry list \<Rightarrow> bool" where
  "cells_ok es \<longleftrightarrow> list_all (\<lambda>e. unat (me_cell_offset e) < cell_count) es"

definition apply_entries :: "mutation_entry list \<Rightarrow> storage_state \<Rightarrow> storage_state" where
  "apply_entries es s = fst (fold write_cell (final_writes es) (s, []))"

lemma fold_write_cell:
  "fold write_cell ws (s, cells) =
     (fold (\<lambda>(i, b). \<lambda>s. fst (storage_write (of_nat i) b s)) (map (\<lambda>(off, index, block). (unat off, block)) ws) s,
      cells @ map (\<lambda>w. dec_nat (unat (fst w))) ws)"
  by (induction ws arbitrary: s cells) (auto simp: write_cell_def)

lemma last_write_bound: "cells_ok es \<Longrightarrow> last_write es off = Some b \<Longrightarrow> unat off < cell_count"
  by (auto simp: last_write_def cells_ok_def list_all_iff dest!: map_of_SomeD)

lemma final_writes_bound:
  assumes "cells_ok es" "w \<in> set (final_writes es)"
  shows "unat (fst w) < cell_count"
proof -
  obtain off index block where w: "w = (off, index, block)" by (cases w) auto
  with assms(2) have "off \<in> fst ` set (map (\<lambda>(off, index, block). (off, block)) (final_writes es))" by force
  then obtain b where "map_of (map (\<lambda>(off, index, block). (off, block)) (final_writes es)) off = Some b"
    using map_of_eq_None_iff [of "map (\<lambda>(off, index, block). (off, block)) (final_writes es)" off] by blast
  then have "last_write es off = Some b" by (simp only: final_writes_spec)
  with assms(1) w show ?thesis by (simp add: last_write_bound)
qed

lemma map_of_unat:
  "map_of (map (\<lambda>(off, index, block). (unat off, block)) ws) (unat off) =
     map_of (map (\<lambda>(off, index, block). (off, block)) (ws :: (cell_offset \<times> nat \<times> block_id) list)) off"
  by (induction ws) (auto simp: unat_inject)

theorem apply_entries_reads:
  assumes "storage_wf s" "cells_ok es"
  shows "storage_wf (apply_entries es s)"
    "unat off < cell_count \<Longrightarrow>
       storage_read (apply_entries es s) off = (case last_write es off of Some b \<Rightarrow> b | None \<Rightarrow> storage_read s off)"
proof -
  let ?ws = "map (\<lambda>(off, index, block). (unat off, block)) (final_writes es)"
  have app: "apply_entries es s = section_store.wr_all ?ws s"
    by (simp add: apply_entries_def fold_write_cell section_store.wr_all_def)
  have lt: "\<forall>w \<in> set ?ws. fst w < cell_count"
    using final_writes_bound [OF assms(2)] by (fastforce split: prod.splits)
  show "storage_wf (apply_entries es s)" unfolding app by (rule section_store.wr_all_inv [OF assms(1) lt])
  assume off: "unat off < cell_count"
  have dist: "distinct (map fst ?ws)"
  proof -
    have "map fst ?ws = map unat (map fst (final_writes es))" by (simp add: case_prod_unfold comp_def)
    moreover have "inj_on unat (set (map fst (final_writes es)))" by (simp add: inj_on_def unat_inject)
    ultimately show ?thesis using final_writes_spec(1) [of es] by (simp only: distinct_map)
  qed
  have "map_of (rev ?ws) = map_of ?ws"
    using dist by (intro map_of_same_set) (simp_all add: rev_map [symmetric])
  then have "map_of (rev ?ws) (unat off) = last_write es off"
    by (simp only: map_of_unat final_writes_spec)
  with section_store.rd_wr_all [OF assms(1) lt off] show
    "storage_read (apply_entries es s) off = (case last_write es off of Some b \<Rightarrow> b | None \<Rightarrow> storage_read s off)"
    by (simp add: app split: option.splits)
qed

text \<open>The bytes of the envelope are the bytes the page must have, so sealing never refuses them.\<close>

lemma full_bytes: "storage_wf s \<Longrightarrow> pe_payload (encode_full i srev s) = encoded_payload s"
  using storage_compacted_spec(1) [of s]
  by (simp add: encode_full_def Let_def outgoing_def encode_storage_def encoded_payload_def storage_canonical_def)

section \<open>Staging a section\<close>

text \<open>What a published directory holds: sealed payloads over well-formed storage.\<close>

definition directory_ok :: "section_directory \<Rightarrow> bool" where
  "directory_ok d \<longleftrightarrow> (\<forall>i pl. fmlookup d i = Some (SlotReady pl) \<longrightarrow>
     payload_ok pl \<and> (\<forall>s. pl_storage pl = Some s \<longrightarrow> storage_wf s))"

definition view_directory :: "published_read_view \<Rightarrow> section_directory" where
  "view_directory v = ps_directory (rv_root v)"

lemma base_storage_Inr:
  "base_storage base sid = Inr s \<longleftrightarrow>
     (\<exists>i pl. section_key_of sid = Inr i \<and> fmlookup (view_directory base) i = Some (SlotReady pl) \<and>
        pl_storage pl = Some s)"
proof -
  have "slot_payload slot = Some pl \<longleftrightarrow> slot = SlotReady pl" for slot pl by (cases slot) auto
  then show ?thesis
    by (auto simp: base_storage_def directory_lookup_def result_iff bind_eq_Some_conv view_directory_def)
qed

definition staged_payload :: "published_read_view \<Rightarrow> string \<Rightarrow> mutation_entry list \<Rightarrow> section_payload \<Rightarrow> bool" where
  "staged_payload base sid es pl \<longleftrightarrow> payload_ok pl \<and>
     (\<exists>s. base_storage base sid = Inr s \<and> storage_wf s \<and> pl_storage pl = Some (apply_entries es s))"

lemma section_parse_key_of: "section_id_parse sid = Inr i \<longleftrightarrow> section_key_of sid = Inr i"
  by (simp add: section_key_of_def map_err_eq_Inr)

lemma write_cells_accepted:
  "distinct (map (\<lambda>w. dec_nat (unat (fst w))) (final_writes es))"
  "[] \<notin> set (map (\<lambda>w. dec_nat (unat (fst w))) (final_writes es))"
proof -
  have "inj (\<lambda>off :: cell_offset. dec_nat (unat off))"
    by (rule injI) (metis dec_val_dec_nat unat_inject)
  moreover have "map (\<lambda>w. dec_nat (unat (fst w))) (final_writes es) =
      map (\<lambda>off. dec_nat (unat off)) (map fst (final_writes es))" by simp
  ultimately show "distinct (map (\<lambda>w. dec_nat (unat (fst w))) (final_writes es))"
    using final_writes_spec(1) [of es] by (simp only: distinct_map) (metis inj_on_subset subset_UNIV)
  show "[] \<notin> set (map (\<lambda>w. dec_nat (unat (fst w))) (final_writes es))"
    unfolding set_map image_iff using dec_nat_ne by metis
qed

lemma payload_for_entries_ok:
  assumes "section_id_parse sid = Inr i" "base_storage base sid = Inr s" "storage_wf s" "cells_ok es"
  shows "\<exists>pl. payload_for_entries sid srev base es =
      Inr (SlotReady pl, map (\<lambda>w. dec_nat (unat (fst w))) (final_writes es)) \<and> staged_payload base sid es pl"
proof -
  let ?s = "apply_entries es s"
  have wf: "storage_wf ?s" by (rule apply_entries_reads(1) [OF assms(3,4)])
  obtain pl where pl: "payload_from_pages_with_storage
      [\<lparr>sp_encoding = ''Dense'', sp_compression = ''None'', sp_bytes = encoded_payload ?s,
        sp_declared_digest = sha256 (encoded_payload ?s)\<rparr>] (Some ?s) = Inr pl"
    using payload_from_storage_total [of ?s] by (auto simp: payload_from_storage_def Let_def)
  have "fold write_cell (final_writes es) (s, []) =
      (?s, map (\<lambda>w. dec_nat (unat (fst w))) (final_writes es))"
    by (simp add: apply_entries_def fold_write_cell)
  with assms pl full_bytes [OF wf] have "payload_for_entries sid srev base es =
      Inr (SlotReady pl, map (\<lambda>w. dec_nat (unat (fst w))) (final_writes es))"
    by (simp add: payload_for_entries_def Let_def)
  with payload_from_pages_with_storage_ok [OF pl] assms show ?thesis
    by (auto simp: staged_payload_def)
qed

text \<open>A section can be staged when it has storage and its revision can advance.\<close>

definition section_ready :: "published_read_view \<Rightarrow> string \<Rightarrow> bool" where
  "section_ready base sid \<longleftrightarrow> (\<exists>s. base_storage base sid = Inr s) \<and>
     checked_add (stamp_section_revision (view_stamp base) sid) 1 \<noteq> None"

lemma stage_section_ok:
  assumes "directory_ok (view_directory base)" "section_key_of sid = Inr i" "cells_ok es"
    "section_ready base sid" "fmlookup (db_staged b) i = None"
  shows "\<exists>pl. stage_section base (sid, es) b = Inr (b\<lparr>db_staged := fmupd i (SlotReady pl) (db_staged b)\<rparr>) \<and>
    staged_payload base sid es pl"
proof -
  from assms(4) obtain s n where s: "base_storage base sid = Inr s"
    and n: "checked_add (stamp_section_revision (view_stamp base) sid) 1 = Some n"
    by (auto simp: section_ready_def)
  have wf: "storage_wf s" using s assms(1) by (auto simp: base_storage_Inr directory_ok_def)
  obtain pl where pl: "payload_for_entries sid n base es =
      Inr (SlotReady pl, map (\<lambda>w. dec_nat (unat (fst w))) (final_writes es))" "staged_payload base sid es pl"
    using payload_for_entries_ok [of sid i base s es n] assms(2,3) s wf
    by (auto simp: section_parse_key_of)
  let ?e = "\<lparr>se_section_id = sid, se_cell_ids = map (\<lambda>w. dec_nat (unat (fst w))) (final_writes es),
      se_slot = SlotReady pl\<rparr>"
  have "edit_ok ?e" "edit_key ?e = i"
    using assms(2) write_cells_accepted [of es] by (simp_all add: edit_ok_def edit_key_def)
  then have "delta_stage ?e b = Inr (b\<lparr>db_staged := fmupd i (SlotReady pl) (db_staged b)\<rparr>)"
    using assms(5) by (simp add: delta_stage_Inr)
  with n pl show ?thesis by (auto simp: stage_section_def)
qed

lemma stage_section_fails:
  assumes "section_key_of sid = Inr i" "\<not> section_ready base sid"
  shows "\<exists>e. stage_section base (sid, es) b = Inl e"
proof (cases "checked_add (stamp_section_revision (view_stamp base) sid) 1")
  case None
  then show ?thesis by (simp add: stage_section_def)
next
  case (Some n)
  with assms obtain e where "base_storage base sid = Inl e"
    by (cases "base_storage base sid") (auto simp: section_ready_def)
  with Some assms(1) show ?thesis
    by (simp add: stage_section_def payload_for_entries_def section_parse_key_of [THEN iffD2])
qed

text \<open>The sections still to be staged are not staged yet.\<close>

definition unstaged :: "(string \<times> mutation_entry list) list \<Rightarrow> delta_builder \<Rightarrow> bool" where
  "unstaged xs b \<longleftrightarrow> (\<forall>x \<in> set xs. \<exists>i. section_key_of (fst x) = Inr i \<and> fmlookup (db_staged b) i = None)"

lemma unstaged_rest:
  assumes "unstaged xs b" "sid \<notin> fst ` set xs" "section_key_of sid = Inr i"
  shows "unstaged xs (b\<lparr>db_staged := fmupd i slot (db_staged b)\<rparr>)"
  unfolding unstaged_def
proof
  fix y assume y: "y \<in> set xs"
  with assms(1) obtain j where j: "section_key_of (fst y) = Inr j" "fmlookup (db_staged b) j = None"
    by (auto simp: unstaged_def)
  have "fst y \<noteq> sid" using assms(2) y by auto
  then have "j \<noteq> i" using j(1) assms(3) by (auto simp: section_key_of_Inr)
  with j show "\<exists>j. section_key_of (fst y) = Inr j \<and>
      fmlookup (db_staged (b\<lparr>db_staged := fmupd i slot (db_staged b)\<rparr>)) j = None" by auto
qed

lemma stage_sections:
  assumes "directory_ok (view_directory base)" "distinct (map fst xs)"
    "unstaged xs b" "\<forall>x \<in> set xs. cells_ok (snd x)"
  shows "(\<forall>x \<in> set xs. section_ready base (fst x)) \<Longrightarrow>
      \<exists>b'. rfold (stage_section base) xs b = Inr b' \<and> db_base b' = db_base b \<and>
        (\<forall>i. section_id_wf i \<longrightarrow>
          (case map_of xs (section_id_key i) of
             None \<Rightarrow> fmlookup (db_staged b') i = fmlookup (db_staged b) i
           | Some es \<Rightarrow> \<exists>pl. fmlookup (db_staged b') i = Some (SlotReady pl) \<and>
               staged_payload base (section_id_key i) es pl)) \<and>
        (\<forall>i. \<not> section_id_wf i \<longrightarrow> fmlookup (db_staged b') i = fmlookup (db_staged b) i)"
    and "\<not> (\<forall>x \<in> set xs. section_ready base (fst x)) \<Longrightarrow> \<exists>e. rfold (stage_section base) xs b = Inl e"
  using assms(2-4)
proof (induction xs arbitrary: b)
  case Nil
  { case 1 then show ?case by simp }
  { case 2 then show ?case by simp }
next
  case (Cons x xs)
  obtain sid es where x: "x = (sid, es)" by (cases x)
  have keys: "section_key_of sid' = Inr j \<Longrightarrow> sid' = section_id_key j \<and> section_id_wf j" for sid' j
    by (simp add: section_key_of_Inr)
  { case 1
    then obtain i where i: "section_key_of sid = Inr i" "fmlookup (db_staged b) i = None" "cells_ok es"
      using x by (auto simp: unstaged_def)
    with 1 x obtain pl where pl: "stage_section base (sid, es) b = Inr (b\<lparr>db_staged := fmupd i (SlotReady pl) (db_staged b)\<rparr>)"
      "staged_payload base sid es pl"
      using stage_section_ok [OF assms(1), of sid i es b] by auto
    let ?b = "b\<lparr>db_staged := fmupd i (SlotReady pl) (db_staged b)\<rparr>"
    have pre: "unstaged xs ?b"
      using 1(2,3) x by (intro unstaged_rest [OF _ _ i(1)]) (auto simp: unstaged_def)
    obtain b' where b': "rfold (stage_section base) xs ?b = Inr b'" "db_base b' = db_base b"
      and wfi: "\<forall>j. section_id_wf j \<longrightarrow>
          (case map_of xs (section_id_key j) of
             None \<Rightarrow> fmlookup (db_staged b') j = fmlookup (db_staged ?b) j
           | Some es \<Rightarrow> \<exists>pl. fmlookup (db_staged b') j = Some (SlotReady pl) \<and>
               staged_payload base (section_id_key j) es pl)"
      and nwf: "\<forall>j. \<not> section_id_wf j \<longrightarrow> fmlookup (db_staged b') j = fmlookup (db_staged ?b) j"
      using Cons.IH(1) [of ?b] 1 pre by auto
    have fresh: "map_of xs sid = None" using 1(2) x by (simp add: map_of_eq_None_iff)
    have "(case map_of (x # xs) (section_id_key j) of
             None \<Rightarrow> fmlookup (db_staged b') j = fmlookup (db_staged b) j
           | Some es \<Rightarrow> \<exists>pl. fmlookup (db_staged b') j = Some (SlotReady pl) \<and>
               staged_payload base (section_id_key j) es pl)" if j: "section_id_wf j" for j
    proof (cases "j = i")
      case True
      with wfi [rule_format, OF j] fresh keys [OF i(1)] pl(2) x show ?thesis by auto
    next
      case False
      then have "section_id_key j \<noteq> sid"
        using keys [OF i(1)] j section_codec.encode_inject [of i j] by auto
      with wfi [rule_format, OF j] False x show ?thesis by (auto split: option.splits)
    qed
    moreover have "\<forall>j. \<not> section_id_wf j \<longrightarrow> fmlookup (db_staged b') j = fmlookup (db_staged b) j"
      using nwf keys [OF i(1)] by auto
    ultimately show ?case using b' pl(1) x by auto }
  { case 2
    then obtain i where i: "section_key_of sid = Inr i" "fmlookup (db_staged b) i = None" "cells_ok es"
      using x by (auto simp: unstaged_def)
    show ?case
    proof (cases "section_ready base sid")
      case False
      from stage_section_fails [OF i(1) this, of es b] x show ?thesis by auto
    next
      case True
      then obtain pl where pl: "stage_section base (sid, es) b = Inr (b\<lparr>db_staged := fmupd i (SlotReady pl) (db_staged b)\<rparr>)"
        using stage_section_ok [OF assms(1) i(1,3) _ i(2)] by blast
      let ?b = "b\<lparr>db_staged := fmupd i (SlotReady pl) (db_staged b)\<rparr>"
      have pre: "unstaged xs ?b"
        using 2(2,3) x by (intro unstaged_rest [OF _ _ i(1)]) (auto simp: unstaged_def)
      have "\<exists>e. rfold (stage_section base) xs ?b = Inl e"
        using Cons.IH(2) [of ?b] 2 True x pre by auto
      with pl x show ?thesis by auto
    qed }
qed

section \<open>Recording dirt\<close>

lemma dirty_record_section:
  assumes "section_key_of sid = Inr i"
  shows "\<exists>f'. dirty_record sid n ''mutation'' f = Inr f'"
proof -
  have "dirty_parse_section sid = Inr i"
    using assms by (simp add: dirty_parse_section_Inr section_key_of_Inr)
  then show ?thesis by (simp add: dirty_record_def)
qed

text \<open>Every planned section is dirty at its next revision, the others are as they were.\<close>

definition dirtied :: "revision_stamp \<Rightarrow> string list \<Rightarrow> dirty_frontier \<Rightarrow> dirty_frontier \<Rightarrow> bool" where
  "dirtied stamp sids f g \<longleftrightarrow> df_world_id g = df_world_id f \<and> df_generation g = df_generation f \<and>
     (\<forall>i. section_id_wf i \<longrightarrow>
        (if section_id_key i \<in> set sids
         then \<exists>e n. fmlookup (df_entries g) i = Some e \<and>
           checked_add (stamp_section_revision stamp (section_id_key i)) 1 = Some n \<and>
           de_first e \<le> n \<and> n \<le> de_latest e
         else fmlookup (df_entries g) i = fmlookup (df_entries f) i)) \<and>
     (\<forall>i. \<not> section_id_wf i \<longrightarrow> fmlookup (df_entries g) i = fmlookup (df_entries f) i)"

lemma record_dirty_all:
  assumes "distinct sids"
    "\<forall>sid \<in> set sids. (\<exists>i. section_key_of sid = Inr i) \<and> checked_add (stamp_section_revision stamp sid) 1 \<noteq> None"
  shows "\<exists>g. rfold (record_dirty stamp) sids f = Inr g \<and> dirtied stamp sids f g"
  using assms
proof (induction sids arbitrary: f)
  case Nil
  then show ?case by (simp add: dirtied_def)
next
  case (Cons sid sids)
  then obtain i n where i: "section_key_of sid = Inr i" and n: "checked_add (stamp_section_revision stamp sid) 1 = Some n"
    by auto
  obtain f1 where f1: "dirty_record sid n ''mutation'' f = Inr f1" using dirty_record_section [OF i] by blast
  have key: "sid = section_id_key i" "section_id_wf i" using i by (simp_all add: section_key_of_Inr)
  obtain j where j: "section_id_wf j" "sid = section_id_key j"
    and f1': "f1 = f\<lparr>df_entries := fmupd j
       (case fmlookup (df_entries f) j of
          None \<Rightarrow> \<lparr>de_first = n, de_latest = n, de_reason = ''mutation''\<rparr>
        | Some e \<Rightarrow> \<lparr>de_first = min n (de_first e), de_latest = max n (de_latest e),
                     de_reason = ''mutation''\<rparr>) (df_entries f)\<rparr>"
    using f1 by (rule dirty_record_Inr)
  have ji: "j = i" using j key section_codec.encode_inject [of i j] by simp
  obtain g where g: "rfold (record_dirty stamp) sids f1 = Inr g" "dirtied stamp sids f1 g"
    using Cons by auto
  have "dirtied stamp (sid # sids) f g"
    unfolding dirtied_def
  proof (intro conjI allI impI)
    show "df_world_id g = df_world_id f" "df_generation g = df_generation f"
      using g(2) f1' by (simp_all add: dirtied_def)
    fix k
    show "fmlookup (df_entries g) k = fmlookup (df_entries f) k" if "\<not> section_id_wf k"
      using g(2) f1' that j(1) by (auto simp: dirtied_def)
    assume k: "section_id_wf k"
    have gk: "if section_id_key k \<in> set sids
         then \<exists>e n. fmlookup (df_entries g) k = Some e \<and>
           checked_add (stamp_section_revision stamp (section_id_key k)) 1 = Some n \<and>
           de_first e \<le> n \<and> n \<le> de_latest e
         else fmlookup (df_entries g) k = fmlookup (df_entries f1) k"
      using g(2) [unfolded dirtied_def] k by blast
    show "if section_id_key k \<in> set (sid # sids)
         then \<exists>e n. fmlookup (df_entries g) k = Some e \<and>
           checked_add (stamp_section_revision stamp (section_id_key k)) 1 = Some n \<and>
           de_first e \<le> n \<and> n \<le> de_latest e
         else fmlookup (df_entries g) k = fmlookup (df_entries f) k"
    proof (cases "k = i")
      case True
      with Cons.prems(1) key(1) gk have "fmlookup (df_entries g) i = fmlookup (df_entries f1) i" by simp
      with True n key(1) f1' ji show ?thesis by (auto split: option.splits)
    next
      case False
      then have "section_id_key k \<noteq> sid" using key k section_codec.encode_inject [of i k] by auto
      with gk False f1' ji show ?thesis by (cases "section_id_key k \<in> set sids") auto
    qed
  qed
  moreover have "record_dirty stamp sid f = Inr f1" using n f1 by (simp add: record_dirty_def)
  ultimately show ?case using g(1) by auto
qed

section \<open>What a prepared token holds\<close>

definition planned :: "mutation_request \<Rightarrow> string \<Rightarrow> bool" where
  "planned q sid \<longleftrightarrow> entries_of q sid \<noteq> []"

text \<open>
  The token of a fresh request: its own identity, and the replacement of exactly the sections the
  request names by payloads with the request's last writes.
\<close>

definition token_for ::
    "mutation_request \<Rightarrow> published_read_view \<Rightarrow> receipt_ledger \<Rightarrow> mutation_reservation \<Rightarrow> prepared_mutation \<Rightarrow> bool"
where
  "token_for q base l r p \<longleftrightarrow>
     pm_txn_id p = mq_txn_id q \<and> pm_request p = q \<and> pm_base_identity p = ps_identity (rv_root base) \<and>
     pm_generation p = mq_generation q \<and> pm_config_hash p = ledger_config_hash l \<and>
     pm_reservation p = r \<and> canonical_fingerprint q = Inr (pm_fingerprint p) \<and>
     pm_replay_receipt p = None \<and> pm_replay_evidence p = None \<and>
     checked_add (rs_world_revision (view_stamp base)) 1 = Some (pm_target_world_revision p) \<and>
     (\<forall>i. section_id_wf i \<longrightarrow>
        (if planned q (section_id_key i)
         then \<exists>pl. fmlookup (rp_entries (pm_replacement p)) i = Some (SlotReady pl) \<and>
           staged_payload base (section_id_key i) (entries_of q (section_id_key i)) pl
         else fmlookup (rp_entries (pm_replacement p)) i = None)) \<and>
     (\<forall>i. \<not> section_id_wf i \<longrightarrow> fmlookup (rp_entries (pm_replacement p)) i = None) \<and>
     (\<exists>sids. set sids = {sid. planned q sid} \<and>
        dirtied (view_stamp base) sids (ps_dirty_frontier (rv_root base)) (pm_dirty p))"

lemma cells_ok_entries: "cells_ok (mq_entries q) \<Longrightarrow> cells_ok (entries_of q sid)"
  by (auto simp: cells_ok_def entries_of_def list_all_iff)

lemma plan_entries:
  assumes "plan_build q = Inr plan"
  shows "map_of (fm_entries plan) sid = (if planned q sid then Some (entries_of q sid) else None)"
    "x \<in> set (fm_entries plan) \<longleftrightarrow> planned q (fst x) \<and> snd x = entries_of q (fst x)"
  using plan_build_Inr(1) [OF assms]
  by (auto simp: map_of_fm_entries planned_def set_fm_entries [where k = "fst x" and v = "snd x", simplified] split: if_splits)

text \<open>Sections and world that can all advance.\<close>

definition can_advance :: "mutation_request \<Rightarrow> published_read_view \<Rightarrow> bool" where
  "can_advance q base \<longleftrightarrow> (\<forall>sid. planned q sid \<longrightarrow> section_ready base sid) \<and>
     checked_add (rs_world_revision (view_stamp base)) 1 \<noteq> None"

lemma seal_private_decides:
  assumes plan: "plan_build q = Inr plan"
    and dir: "directory_ok (view_directory base)" and cells: "cells_ok (mq_entries q)"
  shows "(case seal_private q base l plan (ps_identity (rv_root base)) r of
      Inr p \<Rightarrow> can_advance q base \<and> token_for q base l r p
    | Inl e \<Rightarrow> \<not> can_advance q base)"
proof -
  let ?b = "delta_builder_new (view_directory base)"
  have parse: "\<exists>i. section_key_of sid = Inr i" if "planned q sid" for sid
    using plan_key_parses [OF plan] that by (simp add: planned_def section_parse_key_of)
  have un: "unstaged (fm_entries plan) ?b"
    using parse by (auto simp: unstaged_def plan_entries(2) [OF plan] delta_builder_new_def)
  have cok: "\<forall>x \<in> set (fm_entries plan). cells_ok (snd x)"
    using cells_ok_entries [OF cells] by (auto simp: plan_entries(2) [OF plan])
  note stage = stage_sections [OF dir distinct_fm_entries un cok]
  have ready_iff: "(\<forall>x \<in> set (fm_entries plan). section_ready base (fst x)) \<longleftrightarrow>
      (\<forall>sid. planned q sid \<longrightarrow> section_ready base sid)"
    using plan_entries(2) [OF plan] by (metis fst_conv snd_conv)
  show ?thesis
  proof (cases "\<forall>sid. planned q sid \<longrightarrow> section_ready base sid")
    case False
    with stage(2) ready_iff obtain e where "rfold (stage_section base) (fm_entries plan) ?b = Inl e" by blast
    with False show ?thesis by (auto simp: seal_private_def Let_def view_directory_def can_advance_def)
  next
    case True
    have init: "db_base ?b = view_directory base" "db_staged ?b = fmempty"
      by (simp_all add: delta_builder_new_def)
    from True have ready: "\<forall>x \<in> set (fm_entries plan). section_ready base (fst x)" by (simp only: ready_iff)
    from stage(1) [OF ready, unfolded init fmempty_lookup] obtain b where b: "rfold (stage_section base) (fm_entries plan) ?b = Inr b"
      "db_base b = view_directory base"
      and wf: "\<forall>i. section_id_wf i \<longrightarrow>
          (case map_of (fm_entries plan) (section_id_key i) of
             None \<Rightarrow> fmlookup (db_staged b) i = None
           | Some es \<Rightarrow> \<exists>pl. fmlookup (db_staged b) i = Some (SlotReady pl) \<and>
               staged_payload base (section_id_key i) es pl)"
      and nwf: "\<forall>i. \<not> section_id_wf i \<longrightarrow> fmlookup (db_staged b) i = None"
      by blast
    have slots: "if planned q (section_id_key i)
         then \<exists>pl. fmlookup (db_staged b) i = Some (SlotReady pl) \<and>
           staged_payload base (section_id_key i) (entries_of q (section_id_key i)) pl
         else fmlookup (db_staged b) i = None" if "section_id_wf i" for i
      using wf [rule_format, OF that] by (auto simp: plan_build_Inr(1) [OF plan] planned_def)
    have "rfold (delta_freeze_check (db_base b)) (fm_entries (db_staged b)) () = Inr ()"
      unfolding rfold_unit_iff
    proof
      fix x assume mem: "x \<in> set (fm_entries (db_staged b))"
      obtain i slot where "x = (i, slot)" by (rule prod.exhaust)
      with mem have x: "x = (i, slot)" "fmlookup (db_staged b) i = Some slot"
        by (simp_all add: set_fm_entries)
      then have i: "section_id_wf i" "planned q (section_id_key i)" using nwf slots by (metis option.distinct(1))+
      with slots x obtain pl where pl: "slot = SlotReady pl" by fastforce
      from i True obtain c where "fmlookup (view_directory base) i = Some (SlotReady c)"
        by (auto simp: section_ready_def base_storage_Inr section_key_of_key)
      with i(1) x(1) pl b(2) show "delta_freeze_check (db_base b) x () = Inr ()"
        by (simp add: freeze_check_one convert_to_ready)
    qed
    then have freeze: "delta_freeze b = Inr (replacement_from_slots (db_staged b))"
      by (simp add: delta_freeze_def)
    have "\<forall>sid \<in> set (fm_keys plan). (\<exists>i. section_key_of sid = Inr i) \<and>
        checked_add (stamp_section_revision (view_stamp base) sid) 1 \<noteq> None"
      using True parse plan_keys [OF plan] by (auto simp: planned_def section_ready_def)
    from record_dirty_all [OF _ this, of "ps_dirty_frontier (rv_root base)"] obtain g where
      g: "rfold (record_dirty (view_stamp base)) (fm_keys plan) (ps_dirty_frontier (rv_root base)) = Inr g"
      "dirtied (view_stamp base) (fm_keys plan) (ps_dirty_frontier (rv_root base)) g" by auto
    have keys: "set (fm_keys plan) = {sid. planned q sid}"
      using plan_keys [OF plan] by (auto simp: planned_def)
    show ?thesis
    proof (cases "checked_add (rs_world_revision (view_stamp base)) 1")
      case None
      with b(1) freeze g(1) show ?thesis
        by (simp add: seal_private_def Let_def view_directory_def can_advance_def)
    next
      case (Some n)
      with b(1) freeze g(1) have "seal_private q base l plan (ps_identity (rv_root base)) r =
          Inr (prepared_bind q (sha256 (encode_bytes (request_members q))) (ps_identity (rv_root base))
            (mq_generation q) (ledger_config_hash l) r (replacement_from_slots (db_staged b)) g n)"
        by (simp add: seal_private_def Let_def view_directory_def canonical_fingerprint_total)
      moreover have "\<exists>sids. set sids = {sid. planned q sid} \<and>
          dirtied (view_stamp base) sids (ps_dirty_frontier (rv_root base)) g"
        using g(2) keys by blast
      ultimately show ?thesis
        using True Some slots nwf
        by (simp add: token_for_def prepared_bind_def can_advance_def canonical_fingerprint_total
            replacement_from_slots_def)
    qed
  qed
qed

section \<open>What prepare accepts\<close>

lemma section_parse_nonempty: "section_id_parse sid = Inr i \<Longrightarrow> sid \<noteq> []"
  by (auto simp: section_codec.decode_iff section_id_key_def)

lemma plan_build_ok:
  assumes "mq_txn_id q \<noteq> []" "mq_world_id q \<noteq> []"
  shows "(\<exists>plan. plan_build q = Inr plan) \<longleftrightarrow> length (mq_entries q) \<le> MAX_ENTRIES_PER_WRITE_BATCH \<and>
    (\<forall>e \<in> set (mq_entries q). \<exists>i. section_id_parse (me_section_key e) = Inr i)"
proof
  assume "\<exists>plan. plan_build q = Inr plan"
  then show "length (mq_entries q) \<le> MAX_ENTRIES_PER_WRITE_BATCH \<and>
    (\<forall>e \<in> set (mq_entries q). \<exists>i. section_id_parse (me_section_key e) = Inr i)"
    using plan_build_Inr(4,5) by blast
next
  assume r: "length (mq_entries q) \<le> MAX_ENTRIES_PER_WRITE_BATCH \<and>
    (\<forall>e \<in> set (mq_entries q). \<exists>i. section_id_parse (me_section_key e) = Inr i)"
  have "\<exists>plan. rfold plan_push es m = Inr plan"
    if "\<forall>e \<in> set es. \<exists>i. section_id_parse (me_section_key e) = Inr i" for es m
    using that
  proof (induction es arbitrary: m)
    case (Cons e es)
    then have "me_section_key e \<noteq> []" using section_parse_nonempty by auto
    with Cons.prems obtain m' where "plan_push e m = Inr m'" by (auto simp: plan_push_Inr)
    with Cons show ?case by auto
  qed simp
  with r assms show "\<exists>plan. plan_build q = Inr plan"
    by (simp add: plan_build_def MAX_WRITE_BATCH_ENTRIES_def del: MAX_ENTRIES_PER_WRITE_BATCH_def)
qed

lemma check_expected_Inr:
  assumes "plan_build q = Inr plan" "planned q sid"
  shows "check_expected stamp plan sid () = Inr () \<longleftrightarrow>
    (\<forall>e \<in> set (entries_of q sid). me_expected_section_revision e = stamp_section_revision stamp sid)"
proof -
  obtain e es where es: "entries_of q sid = e # es" using assms(2) by (cases "entries_of q sid") (auto simp: planned_def)
  with plan_build_Inr(1) [OF assms(1), of sid] show ?thesis
    by (auto simp: check_expected_def Let_def list_ex_iff)
qed

lemma check_presence_Inr:
  assumes "section_key_of sid = Inr i"
  shows "check_presence d sid () = Inr () \<longleftrightarrow> (\<exists>pl. fmlookup d i = Some (SlotReady pl))"
proof (cases "fmlookup d i")
  case None
  with assms show ?thesis by (simp add: check_presence_def directory_lookup_def)
next
  case (Some slot)
  with assms show ?thesis
    by (cases slot) (simp_all add: check_presence_def directory_lookup_def)
qed

text \<open>
  A request the published cut admits: it is for this world and generation, of bounded size, over
  canonical keys, every entry expects the current revision of its section, every section has
  storage and every revision can advance.
\<close>

definition admissible :: "mutation_request \<Rightarrow> published_read_view \<Rightarrow> bool" where
  "admissible q base \<longleftrightarrow>
     mq_world_id q = rs_world_id (view_stamp base) \<and> mq_generation q = rs_generation (view_stamp base) \<and>
     length (mq_entries q) \<le> MAX_ENTRIES_PER_WRITE_BATCH \<and>
     (\<forall>e \<in> set (mq_entries q). (\<exists>i. section_id_parse (me_section_key e) = Inr i) \<and>
        me_expected_section_revision e = stamp_section_revision (view_stamp base) (me_section_key e)) \<and>
     can_advance q base"

lemma planned_iff: "planned q sid \<longleftrightarrow> (\<exists>e \<in> set (mq_entries q). me_section_key e = sid)"
  by (auto simp: planned_def entries_of_def filter_empty_conv)

lemma ledger_lookup_Vacant:
  "ledger_lookup q l = Inr LookupVacant \<longleftrightarrow>
     check_request q l = Inr () \<and> fmlookup (lg_entries l) (mq_txn_id q) = None"
  by (auto simp: ledger_lookup_def result_iff split: option.splits)

lemma preconditions_vacant:
  assumes "ledger_lookup q l = Inr LookupVacant"
  shows "preconditions_check q base l = Inr () \<longleftrightarrow>
    mq_world_id q = rs_world_id (view_stamp base) \<and> mq_generation q = rs_generation (view_stamp base) \<and>
    (\<exists>plan. plan_build q = Inr plan) \<and>
    (\<forall>e \<in> set (mq_entries q). me_expected_section_revision e =
       stamp_section_revision (view_stamp base) (me_section_key e)) \<and>
    (\<forall>sid. planned q sid \<longrightarrow> (\<exists>i pl. section_key_of sid = Inr i \<and>
       fmlookup (view_directory base) i = Some (SlotReady pl)))"
proof (cases "plan_build q")
  case (Inl e)
  have ids: "mq_txn_id q \<noteq> []" "mq_world_id q \<noteq> []"
    using assms by (simp_all add: ledger_lookup_Vacant check_request_Inr)
  show ?thesis by (simp add: preconditions_check_def Let_def assms ids Inl)
next
  case (Inr plan)
  have keys: "set (fm_keys plan) = {sid. planned q sid}"
    using plan_keys [OF Inr] by (auto simp: planned_def)
  have parse: "\<exists>i. section_key_of sid = Inr i" if "planned q sid" for sid
    using plan_key_parses [OF Inr] that by (simp add: planned_def section_parse_key_of)
  have exp: "rfold (check_expected (view_stamp base) plan) (fm_keys plan) () = Inr () \<longleftrightarrow>
      (\<forall>e \<in> set (mq_entries q). me_expected_section_revision e =
         stamp_section_revision (view_stamp base) (me_section_key e))"
  proof -
    have "rfold (check_expected (view_stamp base) plan) (fm_keys plan) () = Inr () \<longleftrightarrow>
        (\<forall>sid. planned q sid \<longrightarrow> (\<forall>e \<in> set (entries_of q sid).
           me_expected_section_revision e = stamp_section_revision (view_stamp base) sid))"
      unfolding rfold_unit_iff keys using check_expected_Inr [OF Inr] by blast
    then show ?thesis by (auto simp: planned_iff entries_of_def)
  qed
  have pres: "rfold (check_presence (view_directory base)) (fm_keys plan) () = Inr () \<longleftrightarrow>
      (\<forall>sid. planned q sid \<longrightarrow> (\<exists>i pl. section_key_of sid = Inr i \<and>
         fmlookup (view_directory base) i = Some (SlotReady pl)))"
    unfolding rfold_unit_iff keys using parse check_presence_Inr by (simp, metis sum.inject(2))
  have ids: "mq_txn_id q \<noteq> []" "mq_world_id q \<noteq> []"
    using assms by (simp_all add: ledger_lookup_Vacant check_request_Inr)
  have "preconditions_check q base l = Inr () \<longleftrightarrow>
      mq_world_id q = rs_world_id (view_stamp base) \<and> mq_generation q = rs_generation (view_stamp base) \<and>
      rfold (check_expected (view_stamp base) plan) (fm_keys plan) () = Inr () \<and>
      rfold (check_presence (view_directory base)) (fm_keys plan) () = Inr ()"
    by (simp add: preconditions_check_def Let_def assms ids Inr rbind_eq_Inr view_directory_def)
  with exp pres Inr show ?thesis by blast
qed

text \<open>Reserving a transaction the ledger does not know yet.\<close>

lemma ledger_reserve_vacant:
  assumes "ledger_lookup q l = Inr LookupVacant"
  shows "if fm_len (lg_entries l) < lg_max_entries l
    then \<exists>r l1. ledger_reserve q l = Inr (r, l1) \<and> reservation_from_request q = Inr r \<and>
      ledger_lookup q l1 = Inr LookupInFlight \<and>
      ledger_config_hash l1 = ledger_config_hash l \<and>
      (\<forall>txn. txn \<noteq> mq_txn_id q \<longrightarrow> fmlookup (lg_entries l1) txn = fmlookup (lg_entries l) txn) \<and>
      (\<exists>l2. ledger_abort q l1 = Inr l2 \<and> lg_entries l2 = lg_entries l)
    else ledger_reserve q l = Inl ledger_budget"
proof (cases "fm_len (lg_entries l) < lg_max_entries l")
  case False
  with assms show ?thesis by (simp add: ledger_reserve_def ledger_lookup_Vacant not_less)
next
  case True
  note vac = assms [unfolded ledger_lookup_Vacant]
  have "\<exists>r l1. ledger_reserve q l = Inr (r, l1)"
    using vac True by (simp add: ledger_reserve_def reservation_from_request_total Let_def)
  then obtain r l1 where l1: "ledger_reserve q l = Inr (r, l1)" by blast
  let ?e = "\<lparr>ln_reservation = r, ln_receipt = None, ln_evidence = None\<rparr>"
  from ledger_reserve_Inr [OF l1] vac have e: "lg_entries l1 = fmupd (mq_txn_id q) ?e (lg_entries l)"
    "reservation_from_request q = Inr r" "lg_snapshot l1 = lg_snapshot l"
    "lg_bound_world_id l1 = Some (mq_world_id q)" "lg_bound_generation l1 = Some (mq_generation q)"
    by auto
  have chk: "check_request q l1 = Inr ()" "check_entry q ?e = Inr ()"
    using vac e by (auto simp: check_request_Inr check_entry_Inr reservation_from_request_total
        canonical_fingerprint_total)
  have "fmdrop (mq_txn_id q) (fmupd (mq_txn_id q) ?e (lg_entries l)) = lg_entries l"
    using vac by (intro fm_eqI) auto
  with chk e have "\<exists>l2. ledger_abort q l1 = Inr l2 \<and> lg_entries l2 = lg_entries l"
    by (simp add: ledger_abort_def)
  moreover have "ledger_lookup q l1 = Inr LookupInFlight" using chk e by (simp add: ledger_lookup_def)
  ultimately show ?thesis using True l1 e by (simp add: ledger_config_hash_def)
qed

lemma prepare_vacant:
  assumes vac: "ledger_lookup q l = Inr LookupVacant"
    and dir: "directory_ok (view_directory base)" and cells: "cells_ok (mq_entries q)"
  shows "(case prepare q base l of
      (Inr p, l') \<Rightarrow> admissible q base \<and> fm_len (lg_entries l) < lg_max_entries l \<and>
        (\<exists>r. reservation_from_request q = Inr r \<and> token_for q base l r p) \<and> ledger_lookup q l' = Inr LookupInFlight \<and> ledger_step l l' \<and>
        (\<forall>txn. txn \<noteq> mq_txn_id q \<longrightarrow> fmlookup (lg_entries l') txn = fmlookup (lg_entries l) txn)
    | (Inl e, l') \<Rightarrow> \<not> (admissible q base \<and> fm_len (lg_entries l) < lg_max_entries l) \<and>
        lg_entries l' = lg_entries l)"
proof (cases "preconditions_check q base l")
  case (Inl e)
  have "\<not> admissible q base"
  proof
    assume adm: "admissible q base"
    have ids: "mq_txn_id q \<noteq> []" "mq_world_id q \<noteq> []"
      using vac by (simp_all add: ledger_lookup_Vacant check_request_Inr)
    have "\<exists>i pl. section_key_of sid = Inr i \<and> fmlookup (view_directory base) i = Some (SlotReady pl)"
      if "planned q sid" for sid
      using adm that by (auto simp: admissible_def can_advance_def section_ready_def base_storage_Inr)
    with adm plan_build_ok [OF ids] have "preconditions_check q base l = Inr ()"
      by (simp add: preconditions_vacant [OF vac] admissible_def del: MAX_ENTRIES_PER_WRITE_BATCH_def)
    with Inl show False by simp
  qed
  then show ?thesis by (simp add: prepare_def Let_def Inl)
next
  case (Inr u)
  then have pre: "preconditions_check q base l = Inr ()" by simp
  note c = pre [unfolded preconditions_vacant [OF vac]]
  then obtain plan where plan: "plan_build q = Inr plan" by blast
  have adm: "admissible q base \<longleftrightarrow> can_advance q base"
    using c plan_build_Inr(4,5) [OF plan] by (auto simp: admissible_def simp del: MAX_ENTRIES_PER_WRITE_BATCH_def)
  show ?thesis
  proof (cases "fm_len (lg_entries l) < lg_max_entries l")
    case False
    then have "ledger_reserve q l = Inl ledger_budget" using ledger_reserve_vacant [OF vac] by simp
    with False show ?thesis by (simp add: prepare_def Let_def pre vac plan)
  next
    case True
    with ledger_reserve_vacant [OF vac] obtain r l1 l2 where
      res: "ledger_reserve q l = Inr (r, l1)" "ledger_lookup q l1 = Inr LookupInFlight"
      "ledger_config_hash l1 = ledger_config_hash l" "reservation_from_request q = Inr r" and
      same: "\<forall>txn. txn \<noteq> mq_txn_id q \<longrightarrow> fmlookup (lg_entries l1) txn = fmlookup (lg_entries l) txn" and
      ab: "ledger_abort q l1 = Inr l2" "lg_entries l2 = lg_entries l" by auto
    note seal = seal_private_decides [OF plan dir cells, of l1 r]
    show ?thesis
    proof (cases "seal_private q base l1 plan (ps_identity (rv_root base)) r")
      case (Inl e)
      with seal adm ab show ?thesis by (simp add: prepare_def Let_def pre vac plan res(1))
    next
      case (Inr p)
      with seal have "can_advance q base" "token_for q base l r p" by (simp_all add: token_for_def res(3))
      with Inr adm True same res(2,4) show ?thesis
        by (auto simp: prepare_def Let_def pre vac plan res(1) intro: step_reserve [OF res(1)])
    qed
  qed
qed

text \<open>
  C30. Prepare decides admission and leaks nothing. For a transaction the ledger does not know, it
  succeeds exactly when the published cut admits the request and the ledger has room; then the
  token replaces exactly the named sections, each by a sealed payload over the base storage with
  the request's last writes, and the transaction alone is in flight. When it fails, the ledger
  holds exactly the entries it held before: no reservation is left behind.
\<close>

theorem prepare_decides:
  assumes "ledger_lookup q l = Inr LookupVacant" "directory_ok (view_directory base)" "cells_ok (mq_entries q)"
  shows "(case prepare q base l of
      (Inr p, l') \<Rightarrow> admissible q base \<and> fm_len (lg_entries l) < lg_max_entries l \<and>
        (\<exists>r. reservation_from_request q = Inr r \<and> token_for q base l r p) \<and> ledger_lookup q l' = Inr LookupInFlight \<and> ledger_step l l' \<and>
        (\<forall>txn. txn \<noteq> mq_txn_id q \<longrightarrow> fmlookup (lg_entries l') txn = fmlookup (lg_entries l) txn)
    | (Inl e, l') \<Rightarrow> \<not> (admissible q base \<and> fm_len (lg_entries l) < lg_max_entries l) \<and>
        lg_entries l' = lg_entries l)"
  by (rule prepare_vacant [OF assms])

text \<open>A cut at revision 3 with one uniform section, as the sample request expects it.\<close>

definition sample_section :: section_payload where
  "sample_section = projr (payload_from_storage (StUniform 1))"

definition sample_view :: published_read_view where
  "sample_view = view_from_parts
     (published_root_new (sample_stamp 3) (fmupd (SectionId 1 2 3) (SlotReady sample_section) fmempty)
        \<lparr>df_world_id = ''w'', df_generation = 7, df_entries = fmempty\<rparr>)
     \<lparr>rp_stamp = sample_stamp 3, rp_id = 0\<rparr>"

lemma sample_section_ok: "payload_ok sample_section" "pl_storage sample_section = Some (StUniform 1)"
  by (simp_all add: sample_section_def payload_from_storage_total payload_ok_def page_ok_def)

lemma sample_view_simps [simp]:
  "view_stamp sample_view = sample_stamp 3"
  "view_directory sample_view = fmupd (SectionId 1 2 3) (SlotReady sample_section) fmempty"
  by (simp_all add: sample_view_def view_stamp_def view_directory_def published_root_new_def)

lemma sample_key: "section_key_of ''s:1:2:3'' = Inr (SectionId 1 2 3)"
proof -
  have "section_id_key (SectionId 1 2 3) = ''s:1:2:3''" by code_simp
  then show ?thesis by (simp add: section_key_of_Inr section_id_wf_def)
qed

lemma sample_revision: "stamp_section_revision (sample_stamp 3) sid = 3"
  by (simp add: stamp_section_revision_def sample_stamp_def to_revision_stamp_def)

lemma sample_admissible: "admissible sample_request sample_view"
proof -
  have "base_storage sample_view ''s:1:2:3'' = Inr (StUniform 1)"
    using sample_key sample_section_ok by (auto simp: base_storage_Inr)
  then show ?thesis
    by (auto simp: admissible_def can_advance_def planned_iff section_ready_def sample_revision
        section_parse_key_of sample_key sample_request_def checked_add_def)
qed

lemma sample_view_ok: "directory_ok (view_directory sample_view)" "cells_ok (mq_entries sample_request)"
  "ledger_lookup sample_request sample_ledger = Inr LookupVacant"
  using sample_section_ok
  by (auto simp: directory_ok_def cells_ok_def sample_request_def ledger_lookup_Vacant check_request_Inr
      sample_ledger_def)

theorem prepare_decides_witness:
  "\<exists>p l. prepare sample_request sample_view sample_ledger = (Inr p, l) \<and>
     pm_txn_id p = ''t1'' \<and> ledger_lookup sample_request l = Inr LookupInFlight"
proof -
  have "fm_len (lg_entries sample_ledger) < lg_max_entries sample_ledger" by (simp add: sample_ledger_def)
  with prepare_decides [OF sample_view_ok(3,1,2)] sample_admissible show ?thesis
    by (cases "prepare sample_request sample_view sample_ledger"; cases "fst (prepare sample_request sample_view sample_ledger)")
      (auto simp: token_for_def)
qed

end
