(* ===== verification/Commit.thy ===== *)
theory Commit
  imports Prepare
begin

text \<open>
  Committing a prepared mutation (ops crate, \<open>mutation/commit.rs\<close>, \<open>commit_finalize.rs\<close>): recheck
  against the cut that is published now, overlay one new root, seal it, swap it in, and finalize
  the receipt that was encoded before the seal.

  \<open>commit\<close> returns \<open>None\<close> where the code would panic (an \<open>expect\<close> after the swap). Every path drops
  the view it captured, and a successful publication's view is dropped at once, as the code's
  scopes do.
\<close>

section \<open>Receipts\<close>

record commit_evidence =
  ce_old_root :: digest
  ce_new_root :: digest
  ce_txn_id :: string
  ce_receipt_hash :: digest

record mutation_receipt =
  mt_txn_id :: string
  mt_receipt :: "u8 list"
  mt_evidence :: commit_evidence

definition receipt_object_insert ::
    "string \<times> string \<Rightarrow> canonical_object \<Rightarrow> mutation_error + canonical_object" where
  "receipt_object_insert kv obj =
     map_err (\<lambda>_. mx_invalid_handle) (insert_text (fst kv) (snd kv) obj)"

definition receipt_bytes :: "string \<Rightarrow> digest \<Rightarrow> digest \<Rightarrow> digest \<Rightarrow> mutation_error + u8 list" where
  "receipt_bytes txn_id old_root new_root fp =
     rbind (rfold receipt_object_insert
              [(''txn_id'', txn_id), (''old_root'', hex_string old_root),
               (''new_root'', hex_string new_root), (''fingerprint'', hex_string fp)] fmempty) (\<lambda>obj.
     Inr (encode_bytes obj))"

definition duplicate_receipt :: "prepared_mutation \<Rightarrow> u8 list \<Rightarrow> mutation_error + mutation_receipt" where
  "duplicate_receipt p receipt =
     (let (old_root, new_root) =
        (case pm_replay_evidence p of
           Some ev \<Rightarrow> (ev_old_root ev, ev_new_root ev)
         | None \<Rightarrow> (pm_base_identity p, pm_base_identity p))
      in Inr \<lparr>mt_txn_id = pm_txn_id p, mt_receipt = receipt,
              mt_evidence = \<lparr>ce_old_root = old_root, ce_new_root = new_root, ce_txn_id = pm_txn_id p,
                             ce_receipt_hash = sha256 receipt\<rparr>\<rparr>)"

section \<open>Rechecks\<close>

definition recheck_prepared ::
    "prepared_mutation \<Rightarrow> published_read_view \<Rightarrow> receipt_ledger \<Rightarrow> mutation_error + unit" where
  "recheck_prepared p view l =
     (let stamp = view_stamp view in
      if pm_generation p \<noteq> rs_generation stamp \<or> mq_generation (pm_request p) \<noteq> rs_generation stamp \<or>
         mr_generation (pm_reservation p) \<noteq> rs_generation stamp
      then Inl mx_stale_epoch
      else if mq_world_id (pm_request p) \<noteq> rs_world_id stamp \<or>
              mr_world_id (pm_reservation p) \<noteq> rs_world_id stamp
      then Inl mx_session_mismatch
      else if pm_config_hash p \<noteq> ledger_config_hash l then Inl mx_session_mismatch
      else if pm_base_identity p \<noteq> ps_identity (rv_root view) then Inl mx_snapshot_base_mismatch
      else Inr ())"

definition recheck_revision ::
    "revision_stamp \<Rightarrow> mutation_plan \<Rightarrow> string \<Rightarrow> unit \<Rightarrow> mutation_error + unit" where
  "recheck_revision stamp plan sid u =
     rbind (ok_or mx_unstructured_mutation_entry (fmlookup plan sid)) (\<lambda>edits.
     if list_ex (\<lambda>e. me_expected_section_revision e \<noteq> stamp_section_revision stamp sid) edits
     then Inl mx_stale_section_revision else Inr ())"

definition recheck_slot :: "section_directory \<Rightarrow> string \<Rightarrow> unit \<Rightarrow> mutation_error + unit" where
  "recheck_slot d sid u =
     (case directory_lookup d sid of
        Inr (Some slot) \<Rightarrow>
          (let presence = slot_presence slot in
           if presence = ''Ready'' then Inr ()
           else if presence = ''Unchanged'' \<or> presence = ''Pending'' \<or> presence = ''Unavailable''
           then Inl mx_section_unavailable
           else Inl mx_invalid_handle)
      | Inr None \<Rightarrow> Inl mx_section_unavailable
      | Inl (SeKey _) \<Rightarrow> Inr ()
      | Inl err \<Rightarrow> Inl (mx_from_section err))"

definition recheck_presence :: "mutation_request \<Rightarrow> published_read_view \<Rightarrow> mutation_error + unit" where
  "recheck_presence q view =
     (let stamp = view_stamp view in
      if mq_world_id q \<noteq> rs_world_id stamp then Inl mx_session_mismatch
      else if mq_generation q \<noteq> rs_generation stamp then Inl mx_stale_epoch
      else
        rbind (plan_build q) (\<lambda>plan.
        rbind (rfold (recheck_revision stamp plan) (fm_keys plan) ()) (\<lambda>_.
        rfold (recheck_slot (ps_directory (rv_root view))) (fm_keys plan) ())))"

section \<open>The overlay\<close>

text \<open>The identities whose revisions the new stamp carries, ascending.\<close>

definition overlay_ids :: "string list \<Rightarrow> string list \<Rightarrow> string list" where
  "overlay_ids stamp_ids request_ids = sorted_list_of_set (set stamp_ids \<union> set request_ids)"

definition overlay_slot :: "replacement \<Rightarrow> string \<Rightarrow> section_directory \<Rightarrow> mutation_error + section_directory" where
  "overlay_slot r sid d =
     rbind (map_err mx_from_section (replacement_get r sid)) (\<lambda>found.
     rbind (ok_or mx_invalid_handle found) (\<lambda>slot.
     map_err mx_from_section (directory_insert sid slot d)))"

definition overlay_directory ::
    "published_read_view \<Rightarrow> replacement \<Rightarrow> string list \<Rightarrow> mutation_error + section_directory" where
  "overlay_directory view r changed_ids = rfold (overlay_slot r) changed_ids (ps_directory (rv_root view))"

definition stamp_pair ::
    "revision_stamp \<Rightarrow> replacement \<Rightarrow> string \<Rightarrow> mutation_error + string \<times> u64" where
  "stamp_pair stamp r sid =
     (let old = stamp_section_revision stamp sid in
      rbind (map_err mx_from_section (replacement_get r sid)) (\<lambda>found.
      if found \<noteq> None
      then rbind (ok_or mx_invalid_handle (checked_add old 1)) (\<lambda>rev_n. Inr (sid, rev_n))
      else Inr (sid, old)))"

definition build_stamp ::
    "prepared_mutation \<Rightarrow> published_read_view \<Rightarrow> replacement \<Rightarrow> string list \<Rightarrow> mutation_error + revision_stamp" where
  "build_stamp p view r ids =
     (let stamp = view_stamp view in
      rbind (rmap (stamp_pair stamp r) ids) (\<lambda>pairs.
      Inr (to_revision_stamp (rs_world_id stamp) (rs_context_id stamp) (rs_generation stamp)
             (pm_target_world_revision p) pairs)))"

text \<open>Everything \<open>commit\<close> does before it asks the authority for a publication.\<close>

definition commit_overlay ::
    "prepared_mutation \<Rightarrow> published_read_view \<Rightarrow> receipt_ledger \<Rightarrow> mutation_error + published_state_root" where
  "commit_overlay p view l =
     rbind (recheck_prepared p view l) (\<lambda>_.
     rbind (recheck_presence (pm_request p) view) (\<lambda>_.
     rbind (plan_build (pm_request p)) (\<lambda>plan.
     let r = pm_replacement p;
         ids = overlay_ids (fm_keys (rs_section_revision_set (view_stamp view))) (fm_keys plan)
     in rbind (overlay_directory view r (fm_keys plan)) (\<lambda>new_dir.
        rbind (build_stamp p view r ids) (\<lambda>new_stamp.
        Inr (published_root_new new_stamp new_dir (pm_dirty p)))))))"

section \<open>Commit\<close>

definition publish_once_and_finalize ::
    "publication_token \<Rightarrow> mutation_request \<Rightarrow> u8 list \<Rightarrow> publication_authority \<Rightarrow> receipt_ledger \<Rightarrow>
     ((mutation_error + u8 list) \<times> publication_authority \<times> receipt_ledger) option" where
  "publish_once_and_finalize token q bytes a l =
     (case authority_publish_once token a of
        (Inl e, a1) \<Rightarrow> Some (Inl (mx_from_publish e), a1, l)
      | (Inr v, a1) \<Rightarrow>
          (case finalize_after_publish q bytes l of
             None \<Rightarrow> None
           | Some (receipt, l1) \<Rightarrow> Some (Inr receipt, view_drop v a1, l1)))"

text \<open>From the overlay on, with the token sealed last and the receipt encoded before it.\<close>

definition commit_publish ::
    "prepared_mutation \<Rightarrow> published_state_root \<Rightarrow> publication_authority \<Rightarrow> receipt_ledger \<Rightarrow>
     ((mutation_error + mutation_receipt) \<times> publication_authority \<times> receipt_ledger) option" where
  "commit_publish p new_root a l =
     (case authority_prepare (pm_target_world_revision p) new_root (pm_replacement p) a of
        Inl e \<Rightarrow> Some (Inl (mx_from_publish e), a, l)
      | Inr (publication, a1) \<Rightarrow>
          (let new_identity = prepared_new_root_identity publication;
               old_root = pm_base_identity p
           in case receipt_bytes (pm_txn_id p) old_root new_identity (pm_fingerprint p) of
                Inl e \<Rightarrow> Some (Inl e, a1, l)
              | Inr bytes \<Rightarrow>
                  (case prepared_seal publication a1 of
                     Inl e \<Rightarrow> Some (Inl (mx_from_publish e), a1, l)
                   | Inr (token, publication', a2) \<Rightarrow>
                       (let evidence = \<lparr>ce_old_root = old_root, ce_new_root = new_identity,
                              ce_txn_id = pm_txn_id p, ce_receipt_hash = sha256 bytes\<rparr>
                        in case publish_once_and_finalize token (pm_request p) bytes a2 l of
                             None \<Rightarrow> None
                           | Some (Inl e, a3, l1) \<Rightarrow> Some (Inl e, a3, l1)
                           | Some (Inr receipt, a3, l1) \<Rightarrow>
                               (case record_evidence_after_publish (pm_request p)
                                       \<lparr>ev_old_root = ce_old_root evidence, ev_new_root = ce_new_root evidence\<rparr> l1 of
                                  None \<Rightarrow> None
                                | Some l2 \<Rightarrow> Some (Inr \<lparr>mt_txn_id = pm_txn_id p, mt_receipt = receipt,
                                                       mt_evidence = evidence\<rparr>, a3, l2))))))"

definition mutation_commit ::
    "prepared_mutation \<Rightarrow> publication_authority \<Rightarrow> receipt_ledger \<Rightarrow>
     ((mutation_error + mutation_receipt) \<times> publication_authority \<times> receipt_ledger) option" where
  "mutation_commit p a l =
     (case ledger_lookup (pm_request p) l of
        Inl e \<Rightarrow> Some (Inl (mx_from_ledger e), a, l)
      | Inr (LookupDuplicate receipt) \<Rightarrow>
          Some (duplicate_receipt p (case pm_replay_receipt p of Some r \<Rightarrow> r | None \<Rightarrow> receipt), a, l)
      | Inr LookupVacant \<Rightarrow> Some (Inl mx_invalid_handle, a, l)
      | Inr LookupInFlight \<Rightarrow>
          (let (view, a1) = authority_capture a in
           case commit_overlay p view l of
             Inl e \<Rightarrow> Some (Inl e, view_drop view a1, l)
           | Inr new_root \<Rightarrow>
               (case commit_publish p new_root a1 l of
                  None \<Rightarrow> None
                | Some (res, a2, l1) \<Rightarrow> Some (res, view_drop view a2, l1))))"

section \<open>The receipt is always encoded\<close>

definition receipt_members :: "string \<Rightarrow> digest \<Rightarrow> digest \<Rightarrow> digest \<Rightarrow> canonical_object" where
  "receipt_members txn_id old_root new_root fp =
     fmupd ''fingerprint'' (Text (hex_string fp)) (fmupd ''new_root'' (Text (hex_string new_root))
     (fmupd ''old_root'' (Text (hex_string old_root)) (fmupd ''txn_id'' (Text txn_id) fmempty)))"

lemma receipt_bytes_total:
  "receipt_bytes txn_id old_root new_root fp = Inr (encode_bytes (receipt_members txn_id old_root new_root fp))"
  by (simp add: receipt_bytes_def receipt_object_insert_def insert_text_def member_insert_def receipt_members_def)

lemma duplicate_receipt_total:
  "\<exists>rc. duplicate_receipt p receipt = Inr rc \<and> mt_txn_id rc = pm_txn_id p \<and>
     ce_receipt_hash (mt_evidence rc) = sha256 (mt_receipt rc) \<and> mt_receipt rc = receipt"
  by (cases "pm_replay_evidence p") (simp_all add: duplicate_receipt_def)

section \<open>Ledger steps after the swap\<close>

lemma ledger_lookup_InFlight:
  "ledger_lookup q l = Inr LookupInFlight \<longleftrightarrow> check_request q l = Inr () \<and>
     (\<exists>e. fmlookup (lg_entries l) (mq_txn_id q) = Some e \<and> check_entry q e = Inr () \<and> ln_receipt e = None)"
  by (auto simp: ledger_lookup_def result_iff split: option.splits)

lemma finalize_in_flight:
  assumes "ledger_lookup q l = Inr LookupInFlight" "ledger_ok l"
  shows "\<exists>l1 l2. finalize_after_publish q bytes l = Some (bytes, l1) \<and>
    record_evidence_after_publish q ev l1 = Some l2 \<and> ledger_step\<^sup>*\<^sup>* l l2 \<and>
    ledger_lookup q l2 = Inr (LookupDuplicate bytes) \<and> ledger_evidence q l2 = Inr (Some ev)"
proof -
  from assms(1) obtain e where e: "check_request q l = Inr ()" "fmlookup (lg_entries l) (mq_txn_id q) = Some e"
    "check_entry q e = Inr ()" "ln_receipt e = None" by (auto simp: ledger_lookup_InFlight)
  have "entry_ok (lg_bound_world_id l) (lg_bound_generation l) (mq_txn_id q) e"
    using assms(2) e(2) by (simp add: ledger_ok_def)
  with e(4) have ne: "ln_evidence e = None" by (auto simp: entry_ok_def)
  let ?l1 = "ledger_set_entry (mq_txn_id q) (e\<lparr>ln_receipt := Some bytes\<rparr>) l"
  let ?f = "e\<lparr>ln_receipt := Some bytes, ln_evidence := Some ev\<rparr>"
  let ?l2 = "ledger_set_entry (mq_txn_id q) ?f ?l1"
  have f: "finalize_after_publish q bytes l = Some (bytes, ?l1)"
    using e by (simp add: finalize_after_publish_def)
  have g: "record_evidence_after_publish q ev ?l1 = Some ?l2"
    using ne by (simp add: record_evidence_after_publish_def)
  have "check_request q ?l2 = Inr ()" "check_entry q ?f = Inr ()"
    using e by (simp_all add: check_request_Inr check_entry_Inr)
  then have "ledger_lookup q ?l2 = Inr (LookupDuplicate bytes)" "ledger_evidence q ?l2 = Inr (Some ev)"
    by (simp_all add: ledger_lookup_def ledger_evidence_def)
  moreover have "ledger_step\<^sup>*\<^sup>* l ?l2"
    using f g by (blast intro: step_published step_evidence rtranclp.intros)
  ultimately show ?thesis using f g by blast
qed

section \<open>A commit is a publication history\<close>

lemma size_handles: "size (handles a T V) = 1 + size T + size V"
  by (simp add: handles_def)

lemma pa_root_drop [simp]: "pa_root (view_drop v a) = pa_root a" "pa_root (token_drop t a) = pa_root a"
  by (simp_all add: view_drop_def token_drop_def)

lemma publish_current:
  assumes "pub_reach a P (add_mset t T) V" "tk_base_identity t = ps_identity (pa_root a)"
    "size T + size V + 4 < usize_max"
  shows "\<exists>v a'. authority_publish_once t a = (Inr v, a') \<and> pub_reach a' P T (add_mset v V) \<and>
    pa_root a' = tk_new_root t"
proof -
  obtain r a' where ra: "authority_publish_once t a = (r, a')" by (cases "authority_publish_once t a")
  then obtain v where v: "r = Inr v" "pa_root a' = tk_new_root t"
    using publish_once_effect [OF pub_reach_ok [OF assms(1)]] assms(2) by (cases r) auto
  moreover have "pub_reach a' P T (add_mset v V)"
    using assms(1,3) ra v by (intro pub_publish [of a P t T V]) (simp_all add: size_handles)
  ultimately show ?thesis using ra by blast
qed

lemma commit_publish_effect:
  assumes reach: "pub_reach a P T V" and room: "size T + size V + 4 < usize_max"
    and inflight: "ledger_lookup (pm_request p) l = Inr LookupInFlight" "ledger_ok l"
  shows "\<exists>res a' l' P'. commit_publish p new_root a l = Some (res, a', l') \<and> pub_reach a' P' T V \<and>
    (case res of
       Inl e \<Rightarrow> pa_root a' = pa_root a \<and> l' = l
     | Inr rc \<Rightarrow> pa_root a' = incorporate_replacement (pm_replacement p) new_root \<and>
         ledger_step\<^sup>*\<^sup>* l l' \<and> mt_txn_id rc = pm_txn_id p \<and>
         ce_old_root (mt_evidence rc) = pm_base_identity p \<and>
         ce_new_root (mt_evidence rc) = ps_identity (pa_root a') \<and>
         ce_receipt_hash (mt_evidence rc) = sha256 (mt_receipt rc) \<and>
         ledger_lookup (pm_request p) l' = Inr (LookupDuplicate (mt_receipt rc)) \<and>
         ledger_evidence (pm_request p) l' =
           Inr (Some \<lparr>ev_old_root = pm_base_identity p, ev_new_root = ps_identity (pa_root a')\<rparr>))"
proof (cases "authority_prepare (pm_target_world_revision p) new_root (pm_replacement p) a")
  case (Inl e)
  with reach show ?thesis by (fastforce simp: commit_publish_def)
next
  case (Inr pa)
  obtain pub a1 where "pa = (pub, a1)" by (cases pa)
  with Inr have prep: "authority_prepare (pm_target_world_revision p) new_root (pm_replacement p) a = Inr (pub, a1)"
    by simp
  note pub = authority_prepare_Inr [OF prep]
  have a1: "pa_root a1 = pa_root a" by (subst pub [THEN conjunct2, THEN conjunct2, THEN conjunct2, THEN conjunct2, THEN conjunct2, THEN conjunct1]) simp
  have r1: "pub_reach a1 (add_mset pub P) T V" by (rule pub_prepare [OF reach prep])
  show ?thesis
  proof (cases "prepared_seal pub a1")
    case (Inl e)
    with r1 prep a1 show ?thesis by (fastforce simp: commit_publish_def receipt_bytes_total Let_def)
  next
    case (Inr tpa)
    then obtain t pub' a2 where seal: "prepared_seal pub a1 = Inr (t, pub', a2)" by (cases tpa) auto
    note tok = prepared_seal_Inr [OF seal]
    have a2: "pa_root a2 = pa_root a" using tok a1 by auto
    have r2: "pub_reach a2 (add_mset pub' P) (add_mset t T) V" by (rule pub_seal [OF r1 seal])
    have "tk_base_identity t = ps_identity (pa_root a2)" using tok pub a2 by auto
    from publish_current [OF r2 this room] obtain v a3 where v: "authority_publish_once t a2 = (Inr v, a3)"
      "pub_reach a3 (add_mset pub' P) T (add_mset v V)" "pa_root a3 = tk_new_root t" by blast
    have root: "tk_new_root t = incorporate_replacement (pm_replacement p) new_root" using tok pub by auto
    let ?id = "prepared_new_root_identity pub"
    let ?bytes = "encode_bytes (receipt_members (pm_txn_id p) (pm_base_identity p) ?id (pm_fingerprint p))"
    let ?ev = "\<lparr>ev_old_root = pm_base_identity p, ev_new_root = ?id\<rparr>"
    obtain l1 l2 where l: "finalize_after_publish (pm_request p) ?bytes l = Some (?bytes, l1)"
      "record_evidence_after_publish (pm_request p) ?ev l1 = Some l2" "ledger_step\<^sup>*\<^sup>* l l2"
      "ledger_lookup (pm_request p) l2 = Inr (LookupDuplicate ?bytes)"
      "ledger_evidence (pm_request p) l2 = Inr (Some ?ev)"
      using finalize_in_flight [OF inflight] by blast
    have "commit_publish p new_root a l =
        Some (Inr \<lparr>mt_txn_id = pm_txn_id p, mt_receipt = ?bytes,
          mt_evidence = \<lparr>ce_old_root = pm_base_identity p, ce_new_root = ?id, ce_txn_id = pm_txn_id p,
            ce_receipt_hash = sha256 ?bytes\<rparr>\<rparr>, view_drop v a3, l2)"
      using prep seal v(1) l(1,2)
      by (simp add: commit_publish_def publish_once_and_finalize_def receipt_bytes_total Let_def)
    moreover have "pub_reach (view_drop v a3) (add_mset pub' P) T V" by (rule pub_view_drop [OF v(2)])
    moreover have "?id = ps_identity (tk_new_root t)" using tok by (auto simp: prepared_new_root_identity_def)
    ultimately show ?thesis using l(3-5) v(3) root by (fastforce simp: v(3))
  qed
qed

lemma mutation_commit_effect:
  assumes reach: "pub_reach a P T V" and room: "size T + size V + 5 < usize_max" and ok: "ledger_ok l"
  shows "\<exists>res a' l' P'. mutation_commit p a l = Some (res, a', l') \<and> pub_reach a' P' T V \<and>
    (case res of
       Inl e \<Rightarrow> pa_root a' = pa_root a \<and> l' = l
     | Inr rc \<Rightarrow>
         (if ledger_lookup (pm_request p) l = Inr LookupInFlight
          then (\<exists>v new_root. rv_root v = pa_root a \<and> commit_overlay p v l = Inr new_root \<and>
              pa_root a' = incorporate_replacement (pm_replacement p) new_root) \<and>
            ledger_step\<^sup>*\<^sup>* l l' \<and>
            ce_old_root (mt_evidence rc) = ps_identity (pa_root a) \<and>
            ce_new_root (mt_evidence rc) = ps_identity (pa_root a') \<and>
            ledger_lookup (pm_request p) l' = Inr (LookupDuplicate (mt_receipt rc)) \<and>
            ledger_evidence (pm_request p) l' =
              Inr (Some \<lparr>ev_old_root = ps_identity (pa_root a), ev_new_root = ps_identity (pa_root a')\<rparr>)
          else a' = a \<and> l' = l \<and>
            (\<exists>stored. ledger_lookup (pm_request p) l = Inr (LookupDuplicate stored) \<and>
               mt_receipt rc = (case pm_replay_receipt p of Some r \<Rightarrow> r | None \<Rightarrow> stored))) \<and>
         mt_txn_id rc = pm_txn_id p \<and> ce_receipt_hash (mt_evidence rc) = sha256 (mt_receipt rc))"
proof (cases "ledger_lookup (pm_request p) l")
  case (Inl e)
  with reach show ?thesis by (fastforce simp: mutation_commit_def)
next
  case lk: (Inr out)
  show ?thesis
  proof (cases out)
    case LookupVacant
    with lk reach show ?thesis by (fastforce simp: mutation_commit_def)
  next
    case (LookupDuplicate stored)
    obtain rc where rc: "duplicate_receipt p (case pm_replay_receipt p of Some r \<Rightarrow> r | None \<Rightarrow> stored) = Inr rc"
      "mt_txn_id rc = pm_txn_id p" "ce_receipt_hash (mt_evidence rc) = sha256 (mt_receipt rc)"
      "mt_receipt rc = (case pm_replay_receipt p of Some r \<Rightarrow> r | None \<Rightarrow> stored)"
      using duplicate_receipt_total by blast
    have "mutation_commit p a l = Some (Inr rc, a, l)"
      using lk LookupDuplicate rc(1) by (simp add: mutation_commit_def)
    with reach lk LookupDuplicate rc show ?thesis
      by (intro exI [of _ "Inr rc"] exI [of _ a] exI [of _ l] exI [of _ P]) simp
  next
    case LookupInFlight
    with lk have fl: "ledger_lookup (pm_request p) l = Inr LookupInFlight" by simp
    obtain v a1 where cap: "authority_capture a = (v, a1)" by (cases "authority_capture a")
    then have v: "rv_root v = pa_root a" and a1: "pa_root a1 = pa_root a"
      by (simp_all add: authority_capture_iff)
    have r1: "pub_reach a1 P T (add_mset v V)"
      using reach cap room by (intro pub_capture [of a P T V]) (simp_all add: size_handles)
    show ?thesis
    proof (cases "commit_overlay p v l")
      case (Inl e)
      have "mutation_commit p a l = Some (Inl e, view_drop v a1, l)"
        using fl cap Inl by (simp add: mutation_commit_def)
      with pub_view_drop [OF r1] a1 show ?thesis by fastforce
    next
      case ov: (Inr new_root)
      have base: "pm_base_identity p = ps_identity (pa_root a)"
        using ov v by (auto simp: commit_overlay_def recheck_prepared_def result_iff Let_def split: if_splits)
      have "size T + size (add_mset v V) + 4 < usize_max" using room by simp
      from commit_publish_effect [OF r1 this fl ok, of new_root] obtain res a2 l1 P1 where
        cp: "commit_publish p new_root a1 l = Some (res, a2, l1)" "pub_reach a2 P1 T (add_mset v V)"
        and eff: "case res of
          Inl e \<Rightarrow> pa_root a2 = pa_root a1 \<and> l1 = l
        | Inr rc \<Rightarrow> pa_root a2 = incorporate_replacement (pm_replacement p) new_root \<and>
            ledger_step\<^sup>*\<^sup>* l l1 \<and> mt_txn_id rc = pm_txn_id p \<and>
            ce_old_root (mt_evidence rc) = pm_base_identity p \<and>
            ce_new_root (mt_evidence rc) = ps_identity (pa_root a2) \<and>
            ce_receipt_hash (mt_evidence rc) = sha256 (mt_receipt rc) \<and>
            ledger_lookup (pm_request p) l1 = Inr (LookupDuplicate (mt_receipt rc)) \<and>
            ledger_evidence (pm_request p) l1 =
              Inr (Some \<lparr>ev_old_root = pm_base_identity p, ev_new_root = ps_identity (pa_root a2)\<rparr>)"
        by blast
      have mc: "mutation_commit p a l = Some (res, view_drop v a2, l1)"
        using fl cap ov cp(1) by (simp add: mutation_commit_def)
      note r2 = pub_view_drop [OF cp(2)]
      show ?thesis
      proof (cases res)
        case (Inl e)
        with mc r2 eff a1 show ?thesis by fastforce
      next
        case (Inr rc)
        have "\<exists>v new_root. rv_root v = pa_root a \<and> commit_overlay p v l = Inr new_root \<and>
            pa_root (view_drop v a2) = incorporate_replacement (pm_replacement p) new_root"
          using v ov eff Inr by auto
        with mc r2 eff Inr fl base show ?thesis
          by (intro exI [of _ "Inr rc"] exI [of _ "view_drop v a2"] exI [of _ l1] exI [of _ P1]) simp
      qed
    qed
  qed
qed

text \<open>
  C4. A commit is all or nothing, and answers once. In any publication history, with room for the
  pins it takes, a commit never panics and leaves the authority in such a history with the same
  outstanding tokens and views. If it is refused, the published cut and the ledger are as they
  were. If it succeeds for a transaction in flight, the published cut is the overlay computed from
  the cut it replaced, the receipt names both identities and is stored, so every replay of the
  request is answered with that very receipt; and for a transaction already answered, nothing
  changes and the stored answer is returned.
\<close>

theorem commit_all_or_nothing:
  assumes "pub_reach a P T V" "size T + size V + 5 < usize_max" "ledger_ok l"
  shows "\<exists>res a' l' P'. mutation_commit p a l = Some (res, a', l') \<and> pub_reach a' P' T V \<and>
    (case res of
       Inl e \<Rightarrow> pa_root a' = pa_root a \<and> l' = l
     | Inr rc \<Rightarrow>
         (if ledger_lookup (pm_request p) l = Inr LookupInFlight
          then (\<exists>v new_root. rv_root v = pa_root a \<and> commit_overlay p v l = Inr new_root \<and>
              pa_root a' = incorporate_replacement (pm_replacement p) new_root) \<and>
            ledger_step\<^sup>*\<^sup>* l l' \<and>
            ce_old_root (mt_evidence rc) = ps_identity (pa_root a) \<and>
            ce_new_root (mt_evidence rc) = ps_identity (pa_root a') \<and>
            ledger_lookup (pm_request p) l' = Inr (LookupDuplicate (mt_receipt rc)) \<and>
            ledger_evidence (pm_request p) l' =
              Inr (Some \<lparr>ev_old_root = ps_identity (pa_root a), ev_new_root = ps_identity (pa_root a')\<rparr>)
          else a' = a \<and> l' = l \<and>
            (\<exists>stored. ledger_lookup (pm_request p) l = Inr (LookupDuplicate stored) \<and>
               mt_receipt rc = (case pm_replay_receipt p of Some r \<Rightarrow> r | None \<Rightarrow> stored))) \<and>
         mt_txn_id rc = pm_txn_id p \<and> ce_receipt_hash (mt_evidence rc) = sha256 (mt_receipt rc))"
  by (rule mutation_commit_effect [OF assms])

section \<open>The overlay\<close>

lemma recheck_prepared_Inr:
  "recheck_prepared p v l = Inr () \<longleftrightarrow>
     pm_generation p = rs_generation (view_stamp v) \<and> mq_generation (pm_request p) = rs_generation (view_stamp v) \<and>
     mr_generation (pm_reservation p) = rs_generation (view_stamp v) \<and>
     mq_world_id (pm_request p) = rs_world_id (view_stamp v) \<and>
     mr_world_id (pm_reservation p) = rs_world_id (view_stamp v) \<and>
     pm_config_hash p = ledger_config_hash l \<and> pm_base_identity p = ps_identity (rv_root v)"
  by (auto simp: recheck_prepared_def Let_def)

text \<open>The replacement of a prepared token holds exactly the planned sections.\<close>

definition replaces :: "mutation_request \<Rightarrow> replacement \<Rightarrow> bool" where
  "replaces q r \<longleftrightarrow> (\<forall>i. fm_has (rp_entries r) i \<longleftrightarrow> section_id_wf i \<and> planned q (section_id_key i))"

lemma token_replaces: "token_for q base l r p \<Longrightarrow> replaces q (pm_replacement p)"
  unfolding token_for_def replaces_def by (metis option.distinct(1))

lemma replacement_get_planned:
  assumes "replaces q r" "section_key_of sid = Inr i"
  shows "replacement_get r sid = Inr (fmlookup (rp_entries r) i)"
    "fmlookup (rp_entries r) i \<noteq> None \<longleftrightarrow> planned q sid"
  using assms(1) by (simp_all add: replacement_get_def assms(2)) (use assms in \<open>auto simp: replaces_def section_key_of_Inr\<close>)

lemma overlay_slots:
  assumes "replaces q r" "\<forall>sid \<in> set sids. planned q sid \<and> (\<exists>i. section_key_of sid = Inr i)"
  shows "\<exists>d'. rfold (overlay_slot r) sids d = Inr d' \<and>
    (\<forall>i. section_id_wf i \<longrightarrow> fmlookup d' i =
       (if section_id_key i \<in> set sids then fmlookup (rp_entries r) i else fmlookup d i)) \<and>
    (\<forall>i. \<not> section_id_wf i \<longrightarrow> fmlookup d' i = fmlookup d i)"
  using assms(2)
proof (induction sids arbitrary: d)
  case Nil
  then show ?case by simp
next
  case (Cons sid sids)
  then obtain i where i: "section_key_of sid = Inr i" "planned q sid" by auto
  with replacement_get_planned [OF assms(1) i(1)] obtain slot where
    slot: "fmlookup (rp_entries r) i = Some slot" "replacement_get r sid = Inr (Some slot)" by auto
  then have step: "overlay_slot r sid d = Inr (fmupd i slot d)"
    using i(1) by (simp add: overlay_slot_def directory_insert_def)
  obtain d' where d': "rfold (overlay_slot r) sids (fmupd i slot d) = Inr d'"
    "\<forall>j. section_id_wf j \<longrightarrow> fmlookup d' j =
       (if section_id_key j \<in> set sids then fmlookup (rp_entries r) j else fmlookup (fmupd i slot d) j)"
    "\<forall>j. \<not> section_id_wf j \<longrightarrow> fmlookup d' j = fmlookup (fmupd i slot d) j"
    using Cons.IH [of "fmupd i slot d"] Cons.prems by (auto simp del: fmupd_lookup)
  have key: "section_id_wf i" "sid = section_id_key i" using i(1) by (simp_all add: section_key_of_Inr)
  have inj: "section_id_wf j \<Longrightarrow> section_id_key j = section_id_key i \<longleftrightarrow> j = i" for j
    using section_codec.encode_inject [of j i] key(1) by simp
  show ?case
    using step d' key inj slot(1) by (intro exI [of _ d']) auto
qed

text \<open>The pairs of the new stamp.\<close>

lemma stamp_pairs:
  assumes "replaces q r" "rmap (stamp_pair stamp r) ids = Inr pairs"
  shows "map fst pairs = ids"
    "(sid, n) \<in> set pairs \<Longrightarrow>
       (if planned q sid then checked_add (stamp_section_revision stamp sid) 1 = Some n
        else n = stamp_section_revision stamp sid)"
  using assms(2)
proof (induction ids arbitrary: pairs)
  case Nil
  { case 1 then show ?case by simp }
  { case 2 then show ?case by simp }
next
  case (Cons x ids)
  have x: "fst y = x \<and> (if planned q x then checked_add (stamp_section_revision stamp x) 1 = Some (snd y)
        else snd y = stamp_section_revision stamp x)" if "stamp_pair stamp r x = Inr y" for y
  proof -
    from that obtain found where f: "replacement_get r x = Inr found"
      by (auto simp: stamp_pair_def Let_def result_iff)
    then obtain i where "section_key_of x = Inr i" by (auto simp: replacement_get_def result_iff)
    with replacement_get_planned [OF assms(1) this] f that show ?thesis
      by (auto simp: stamp_pair_def Let_def result_iff split: if_splits)
  qed
  { case 1 with x Cons.IH(1) show ?case by (fastforce simp: result_iff) }
  { case 2 with x Cons.IH(2) show ?case by (auto simp: result_iff) }
qed

end
