(* ===== verification/Pipeline.thy ===== *)
theory Pipeline
  imports Commit
begin

text \<open>
  Prepare followed by commit: what the overlay of a prepared request is, that a successful commit
  leaves in every cell its last write and everything else alone, and exactly when the commit of a
  request prepared on the published cut succeeds.
\<close>

section \<open>The overlay of a prepared request\<close>

definition root_revision :: "published_state_root \<Rightarrow> string \<Rightarrow> u64" where
  "root_revision root sid = stamp_section_revision (ps_stamp root) sid"

definition section_cells :: "published_state_root \<Rightarrow> section_id \<Rightarrow> storage_state option" where
  "section_cells root i =
     (case fmlookup (ps_directory root) i of Some (SlotReady pl) \<Rightarrow> pl_storage pl | _ \<Rightarrow> None)"

lemma section_cells_Some:
  "section_cells root i = Some s \<longleftrightarrow>
     (\<exists>pl. fmlookup (ps_directory root) i = Some (SlotReady pl) \<and> pl_storage pl = Some s)"
  by (auto simp: section_cells_def split: option.splits section_slot.splits)

lemma token_simps:
  assumes "token_for q base l r p"
  shows "pm_request p = q" "pm_txn_id p = mq_txn_id q" "pm_generation p = mq_generation q"
    "pm_config_hash p = ledger_config_hash l" "pm_reservation p = r"
    "pm_base_identity p = ps_identity (rv_root base)" "pm_replay_receipt p = None"
    "checked_add (rs_world_revision (view_stamp base)) 1 = Some (pm_target_world_revision p)"
  using assms by (simp_all add: token_for_def)

lemma token_payload:
  assumes "token_for q base l r p" "section_id_wf i" "planned q (section_id_key i)"
  shows "\<exists>pl. fmlookup (rp_entries (pm_replacement p)) i = Some (SlotReady pl) \<and>
    staged_payload base (section_id_key i) (entries_of q (section_id_key i)) pl"
proof -
  have "if planned q (section_id_key i)
    then \<exists>pl. fmlookup (rp_entries (pm_replacement p)) i = Some (SlotReady pl) \<and>
      staged_payload base (section_id_key i) (entries_of q (section_id_key i)) pl
    else fmlookup (rp_entries (pm_replacement p)) i = None"
    using assms(1,2) unfolding token_for_def by blast
  with assms(3) show ?thesis by simp
qed

text \<open>Every identity the stamp lists is a canonical section key.\<close>

definition stamp_keys_ok :: "revision_stamp \<Rightarrow> bool" where
  "stamp_keys_ok stamp \<longleftrightarrow>
     (\<forall>sid. fm_has (rs_section_revision_set stamp) sid \<longrightarrow> (\<exists>i. section_key_of sid = Inr i))"

lemma commit_overlay_spec:
  assumes ov: "commit_overlay p v l = Inr root" and tok: "token_for q base l0 r p"
  shows "rs_schema_id (ps_stamp root) = REVISION_STAMP_SCHEMA \<and>
    rs_world_id (ps_stamp root) = rs_world_id (view_stamp v) \<and>
    rs_context_id (ps_stamp root) = rs_context_id (view_stamp v) \<and>
    rs_generation (ps_stamp root) = rs_generation (view_stamp v) \<and>
    rs_world_revision (ps_stamp root) = pm_target_world_revision p \<and>
    ps_dirty_frontier root = pm_dirty p"
    "fmlookup (rs_section_revision_set (ps_stamp root)) sid = Some n \<Longrightarrow>
       (if planned q sid then checked_add (stamp_section_revision (view_stamp v) sid) 1 = Some n
        else n = stamp_section_revision (view_stamp v) sid)"
    "fm_has (rs_section_revision_set (ps_stamp root)) sid \<longleftrightarrow>
       planned q sid \<or> fm_has (rs_section_revision_set (view_stamp v)) sid"
    "section_id_wf i \<Longrightarrow> fmlookup (ps_directory root) i =
       (if planned q (section_id_key i) then fmlookup (rp_entries (pm_replacement p)) i
        else fmlookup (view_directory v) i)"
    "\<not> section_id_wf i \<Longrightarrow> fmlookup (ps_directory root) i = fmlookup (view_directory v) i"
proof -
  let ?r = "pm_replacement p"
  note rep = token_replaces [OF tok]
  from ov obtain plan dir stamp where plan: "plan_build q = Inr plan"
    and dir: "overlay_directory v ?r (fm_keys plan) = Inr dir"
    and stamp: "build_stamp p v ?r
      (overlay_ids (fm_keys (rs_section_revision_set (view_stamp v))) (fm_keys plan)) = Inr stamp"
    and root: "root = published_root_new stamp dir (pm_dirty p)"
    by (auto simp: commit_overlay_def Let_def result_iff token_simps(1) [OF tok])
  let ?ids = "overlay_ids (fm_keys (rs_section_revision_set (view_stamp v))) (fm_keys plan)"
  from stamp obtain pairs where pairs: "rmap (stamp_pair (view_stamp v) ?r) ?ids = Inr pairs"
    and st: "stamp = to_revision_stamp (rs_world_id (view_stamp v)) (rs_context_id (view_stamp v))
       (rs_generation (view_stamp v)) (pm_target_world_revision p) pairs"
    by (auto simp: build_stamp_def Let_def result_iff)
  have keys: "set (fm_keys plan) = {sid. planned q sid}"
    using plan_keys [OF plan] by (auto simp: planned_def)
  have ids: "distinct ?ids" "set ?ids = {sid. planned q sid \<or> fm_has (rs_section_revision_set (view_stamp v)) sid}"
    by (auto simp: overlay_ids_def fmlookup_dom_iff plan_build_Inr(1) [OF plan] planned_def)
  note sp = stamp_pairs [OF rep pairs]
  have look: "fmlookup (rs_section_revision_set stamp) sid = map_of pairs sid" for sid
    using sp(1) ids(1) by (simp add: st to_revision_stamp_def fold_fmupd_lookup split: option.splits)
  show "rs_schema_id (ps_stamp root) = REVISION_STAMP_SCHEMA \<and>
    rs_world_id (ps_stamp root) = rs_world_id (view_stamp v) \<and>
    rs_context_id (ps_stamp root) = rs_context_id (view_stamp v) \<and>
    rs_generation (ps_stamp root) = rs_generation (view_stamp v) \<and>
    rs_world_revision (ps_stamp root) = pm_target_world_revision p \<and>
    ps_dirty_frontier root = pm_dirty p"
    by (simp add: root published_root_new_def st to_revision_stamp_def)
  have rset: "rs_section_revision_set (ps_stamp root) = rs_section_revision_set stamp"
    by (simp add: root published_root_new_def)
  show "fmlookup (rs_section_revision_set (ps_stamp root)) sid = Some n \<Longrightarrow>
       (if planned q sid then checked_add (stamp_section_revision (view_stamp v) sid) 1 = Some n
        else n = stamp_section_revision (view_stamp v) sid)"
    using sp(2) [of sid n] by (simp add: rset look map_of_SomeD)
  show "fm_has (rs_section_revision_set (ps_stamp root)) sid \<longleftrightarrow>
       planned q sid \<or> fm_has (rs_section_revision_set (view_stamp v)) sid"
    using sp(1) ids(2) map_of_eq_None_iff [of pairs sid] by (auto simp: rset look simp flip: set_map)
  obtain d' where d': "rfold (overlay_slot ?r) (fm_keys plan) (view_directory v) = Inr d'"
    "\<forall>i. section_id_wf i \<longrightarrow> fmlookup d' i =
       (if section_id_key i \<in> set (fm_keys plan) then fmlookup (rp_entries ?r) i else fmlookup (view_directory v) i)"
    "\<forall>i. \<not> section_id_wf i \<longrightarrow> fmlookup d' i = fmlookup (view_directory v) i"
    using overlay_slots [OF rep, of "fm_keys plan" "view_directory v"] plan_key_parses [OF plan]
    by (auto simp: keys planned_def section_parse_key_of simp del: set_fm_keys)
  with dir have "ps_directory root = d'"
    by (simp add: root published_root_new_def overlay_directory_def view_directory_def)
  with d' show "section_id_wf i \<Longrightarrow> fmlookup (ps_directory root) i =
       (if planned q (section_id_key i) then fmlookup (rp_entries ?r) i else fmlookup (view_directory v) i)"
    "\<not> section_id_wf i \<Longrightarrow> fmlookup (ps_directory root) i = fmlookup (view_directory v) i"
    by (simp_all add: keys del: set_fm_keys)
qed

section \<open>Last writes win\<close>

lemma incorporate_simps [simp]:
  "ps_stamp (incorporate_replacement r root) = ps_stamp root"
  "ps_directory (incorporate_replacement r root) = ps_directory root"
  "ps_dirty_frontier (incorporate_replacement r root) = ps_dirty_frontier root"
  by (simp_all add: incorporate_replacement_def)

text \<open>What a request means for a cut: the specification a commit implements.\<close>

definition advanced :: "mutation_request \<Rightarrow> published_state_root \<Rightarrow> published_state_root \<Rightarrow> section_id \<Rightarrow> bool" where
  "advanced q old new i \<longleftrightarrow>
     (let sid = section_id_key i in
      if planned q sid
      then checked_add (root_revision old sid) 1 = Some (root_revision new sid) \<and>
        (\<exists>s s'. section_cells old i = Some s \<and> section_cells new i = Some s' \<and>
           (\<forall>off. unat off < cell_count \<longrightarrow> storage_read s' off =
              (case last_write (entries_of q sid) off of Some b \<Rightarrow> b | None \<Rightarrow> storage_read s off)))
      else fmlookup (ps_directory new) i = fmlookup (ps_directory old) i \<and>
        (fm_has (rs_section_revision_set (ps_stamp old)) sid \<longrightarrow> root_revision new sid = root_revision old sid))"

lemma advanced_incorporate: "advanced q old (incorporate_replacement r root) i = advanced q old root i"
  by (simp add: advanced_def root_revision_def section_cells_def)

lemma overlay_advances:
  assumes ov: "commit_overlay p v l = Inr root" and tok: "token_for q base l0 r p"
    and same: "rv_root v = rv_root base" and cells: "cells_ok (mq_entries q)"
    and dir: "directory_ok (view_directory base)" and i: "section_id_wf i"
  shows "advanced q (rv_root base) root i"
proof -
  note spec = commit_overlay_spec [OF ov tok]
  have eqs: "view_stamp v = ps_stamp (rv_root base)" "view_directory v = ps_directory (rv_root base)"
    by (simp_all add: view_stamp_def view_directory_def same)
  let ?sid = "section_id_key i"
  show ?thesis
  proof (cases "planned q ?sid")
    case True
    then obtain n where n: "fmlookup (rs_section_revision_set (ps_stamp root)) ?sid = Some n"
      using spec(3) [of ?sid] by auto
    with spec(2) [OF n] True have rev: "checked_add (root_revision (rv_root base) ?sid) 1 = Some (root_revision root ?sid)"
      by (simp add: root_revision_def stamp_section_revision_def eqs)
    obtain pl s where pl: "fmlookup (rp_entries (pm_replacement p)) i = Some (SlotReady pl)"
      "base_storage base ?sid = Inr s" "storage_wf s" "pl_storage pl = Some (apply_entries (entries_of q ?sid) s)"
      using token_payload [OF tok i True] by (auto simp: staged_payload_def)
    have "section_cells (rv_root base) i = Some s"
      using pl(2) i by (auto simp: base_storage_Inr section_cells_Some section_key_of_key view_directory_def)
    moreover have "section_cells root i = Some (apply_entries (entries_of q ?sid) s)"
      using pl(1,4) spec(4) [OF i] True by (simp add: section_cells_Some)
    ultimately show ?thesis
      using True rev apply_entries_reads(2) [OF pl(3) cells_ok_entries [OF cells]]
      by (simp add: advanced_def Let_def)
  next
    case False
    have "root_revision root ?sid = root_revision (rv_root base) ?sid"
      if listed: "fm_has (rs_section_revision_set (ps_stamp (rv_root base))) ?sid"
    proof -
      obtain n where n: "fmlookup (rs_section_revision_set (ps_stamp root)) ?sid = Some n"
        using spec(3) [of ?sid] listed by (auto simp: eqs)
      with spec(2) [OF n] False show ?thesis
        by (simp add: root_revision_def stamp_section_revision_def eqs)
    qed
    with False spec(4) [OF i] show ?thesis by (simp add: advanced_def Let_def eqs)
  qed
qed

lemma overlay_directory_ok:
  assumes ov: "commit_overlay p v l = Inr root" and tok: "token_for q base l0 r p"
    and same: "rv_root v = rv_root base" and cells: "cells_ok (mq_entries q)"
    and dir: "directory_ok (view_directory base)"
  shows "directory_ok (ps_directory root)"
  unfolding directory_ok_def
proof (intro allI impI)
  fix i pl assume look: "fmlookup (ps_directory root) i = Some (SlotReady pl)"
  note spec = commit_overlay_spec [OF ov tok]
  have eq: "view_directory v = view_directory base" by (simp add: view_directory_def same)
  show "payload_ok pl \<and> (\<forall>s. pl_storage pl = Some s \<longrightarrow> storage_wf s)"
  proof (cases "section_id_wf i \<and> planned q (section_id_key i)")
    case True
    with look spec(4) [of i] have "fmlookup (rp_entries (pm_replacement p)) i = Some (SlotReady pl)" by simp
    moreover from True tok obtain pl' where "fmlookup (rp_entries (pm_replacement p)) i = Some (SlotReady pl')"
      "staged_payload base (section_id_key i) (entries_of q (section_id_key i)) pl'"
      using token_payload [OF tok] by blast
    ultimately show ?thesis
      using apply_entries_reads(1) [OF _ cells_ok_entries [OF cells]] by (auto simp: staged_payload_def)
  next
    case False
    with look spec(4,5) [of i] dir eq show ?thesis
      by (cases "section_id_wf i") (auto simp: directory_ok_def)
  qed
qed

text \<open>The token and ledger of a successful prepare of a new transaction.\<close>

lemma prepare_vacant_InrD:
  assumes "ledger_lookup q l0 = Inr LookupVacant" "directory_ok (view_directory base)" "cells_ok (mq_entries q)"
    "prepare q base l0 = (Inr p, l)"
  shows "\<exists>r. reservation_from_request q = Inr r \<and> token_for q base l0 r p" "admissible q base"
    "ledger_lookup q l = Inr LookupInFlight" "ledger_step l0 l"
  using prepare_vacant [OF assms(1-3)] assms(4) by auto

lemma committed_root_advances:
  assumes "pub_reach a P T V" "size T + size V + 5 < usize_max" "ledger_ok l0"
    and "ledger_lookup q l0 = Inr LookupVacant" "directory_ok (view_directory base)" "cells_ok (mq_entries q)"
    and "prepare q base l0 = (Inr p, l)" "rv_root base = pa_root a"
    and "mutation_commit p a l = Some (Inr rc, a', l')"
  shows "(\<forall>i. section_id_wf i \<longrightarrow> advanced q (pa_root a) (pa_root a') i) \<and>
    checked_add (rs_world_revision (ps_stamp (pa_root a))) 1 = Some (rs_world_revision (ps_stamp (pa_root a'))) \<and>
    (\<exists>sids. set sids = {sid. planned q sid} \<and>
       dirtied (ps_stamp (pa_root a)) sids (ps_dirty_frontier (pa_root a)) (ps_dirty_frontier (pa_root a'))) \<and>
    directory_ok (ps_directory (pa_root a')) \<and>
    (\<forall>i. \<not> section_id_wf i \<longrightarrow> fmlookup (ps_directory (pa_root a')) i = fmlookup (ps_directory (pa_root a)) i)"
proof -
  note prep = prepare_vacant_InrD [OF assms(4-7)]
  then obtain r where tok: "token_for q base l0 r p" by blast
  have "ledger_lookup (pm_request p) l = Inr LookupInFlight" using prep(3) token_simps(1) [OF tok] by simp
  moreover have "ledger_ok l" by (rule ledger_ok_step [OF prep(4) assms(3)])
  ultimately obtain v root where
    v: "rv_root v = pa_root a" "commit_overlay p v l = Inr root"
    and a': "pa_root a' = incorporate_replacement (pm_replacement p) root"
    using mutation_commit_effect [OF assms(1,2), of l p] assms(9) by auto
  have same: "rv_root v = rv_root base" using v(1) assms(8) by simp
  have st: "view_stamp base = ps_stamp (pa_root a)" by (simp add: view_stamp_def assms(8))
  note spec = commit_overlay_spec(1) [OF v(2) tok]
  have "advanced q (pa_root a) (pa_root a') i" if "section_id_wf i" for i
    using overlay_advances [OF v(2) tok same assms(6,5) that]
    by (simp add: a' assms(8) advanced_incorporate)
  moreover have "checked_add (rs_world_revision (ps_stamp (pa_root a))) 1 = Some (rs_world_revision (ps_stamp (pa_root a')))"
    using token_simps(8) [OF tok] spec by (simp add: a' st)
  moreover have "\<exists>sids. set sids = {sid. planned q sid} \<and>
       dirtied (ps_stamp (pa_root a)) sids (ps_dirty_frontier (pa_root a)) (ps_dirty_frontier (pa_root a'))"
    using tok spec by (simp add: token_for_def a' st assms(8))
  moreover have "directory_ok (ps_directory (pa_root a'))"
    using overlay_directory_ok [OF v(2) tok same assms(6,5)] by (simp add: a')
  moreover have "fmlookup (ps_directory (pa_root a')) i = fmlookup (ps_directory (pa_root a)) i" if "\<not> section_id_wf i" for i
    using commit_overlay_spec(5) [OF v(2) tok that] by (simp add: a' view_directory_def v(1))
  ultimately show ?thesis by blast
qed

text \<open>
  C1. What is published is the last write to every cell, and nothing else. When a request prepared
  on the published cut is committed, every section it names has its revision advanced by one and
  reads in each cell the last block the request wrote there, or the old block; every other
  section keeps its slot and its listed revision; the world revision advances by one; exactly the
  named sections are recorded dirty; and every slot again holds a sealed payload over well-formed
  storage, so the next request starts from the same guarantees.
\<close>

theorem commit_publishes_last_writes:
  assumes "pub_reach a P T V" "size T + size V + 5 < usize_max" "ledger_ok l0"
    and "ledger_lookup q l0 = Inr LookupVacant" "directory_ok (view_directory base)" "cells_ok (mq_entries q)"
    and "prepare q base l0 = (Inr p, l)" "rv_root base = pa_root a"
    and "mutation_commit p a l = Some (Inr rc, a', l')"
  shows "(\<forall>i. section_id_wf i \<longrightarrow> advanced q (pa_root a) (pa_root a') i) \<and>
    checked_add (rs_world_revision (ps_stamp (pa_root a))) 1 = Some (rs_world_revision (ps_stamp (pa_root a'))) \<and>
    (\<exists>sids. set sids = {sid. planned q sid} \<and>
       dirtied (ps_stamp (pa_root a)) sids (ps_dirty_frontier (pa_root a)) (ps_dirty_frontier (pa_root a'))) \<and>
    directory_ok (ps_directory (pa_root a'))"
  using committed_root_advances [OF assms] by blast

section \<open>When a commit succeeds\<close>

text \<open>Room for one more cut: a token id, a pin id and a slot, in a registry that still lives.\<close>

definition can_publish :: "publication_authority \<Rightarrow> bool" where
  "can_publish a \<longleftrightarrow> checked_add (pa_next_token_id a) 1 \<noteq> None \<and>
     checked_add (rg_next_id (pa_registry a)) 1 \<noteq> None \<and> \<not> rg_destroyed (pa_registry a) \<and>
     fm_len (rg_slots (pa_registry a)) < rg_max_pins (pa_registry a)"

lemma commit_overlay_ok:
  assumes tok: "token_for q base l r p" and res: "reservation_from_request q = Inr r"
    and adm: "admissible q base" and same: "rv_root v = rv_root base"
    and conf: "ledger_config_hash l' = ledger_config_hash l"
    and ids: "mq_txn_id q \<noteq> []" "mq_world_id q \<noteq> []" and keys: "stamp_keys_ok (view_stamp base)"
  shows "\<exists>root. commit_overlay p v l' = Inr root"
proof -
  have eqs: "view_stamp v = view_stamp base" "view_directory v = view_directory base"
    by (simp_all add: view_stamp_def view_directory_def same)
  have "recheck_prepared p v l' = Inr ()"
    using adm res token_simps [OF tok] conf same
    by (auto simp: recheck_prepared_Inr eqs admissible_def reservation_from_request_total)
  moreover obtain plan where plan: "plan_build q = Inr plan"
    using plan_build_ok [OF ids] adm by (auto simp: admissible_def simp del: MAX_ENTRIES_PER_WRITE_BATCH_def)
  have pk: "set (fm_keys plan) = {sid. planned q sid}"
    using plan_keys [OF plan] by (auto simp: planned_def)
  have parse: "\<exists>i. section_key_of sid = Inr i" if "planned q sid" for sid
    using plan_key_parses [OF plan] that by (simp add: planned_def section_parse_key_of)
  have ready: "section_ready base sid" if "planned q sid" for sid
    using adm that by (simp add: admissible_def can_advance_def)
  have "recheck_presence q v = Inr ()"
  proof -
    have "rfold (recheck_revision (view_stamp base) plan) (fm_keys plan) () = Inr ()"
      unfolding rfold_unit_iff pk using adm plan_build_Inr(1) [OF plan]
      by (auto simp: recheck_revision_def list_ex_iff planned_def admissible_def entries_of_def)
    moreover have "rfold (recheck_slot (view_directory base)) (fm_keys plan) () = Inr ()"
      unfolding rfold_unit_iff pk
    proof
      fix sid assume "sid \<in> {sid. planned q sid}"
      then obtain i pl where "section_key_of sid = Inr i" "fmlookup (view_directory base) i = Some (SlotReady pl)"
        using ready [of sid] by (simp add: section_ready_def base_storage_Inr) blast
      then show "recheck_slot (view_directory base) sid () = Inr ()"
        by (simp add: recheck_slot_def directory_lookup_def)
    qed
    ultimately show ?thesis
      using adm plan by (simp add: recheck_presence_def Let_def eqs admissible_def)
        (simp add: view_directory_def same)
  qed
  moreover obtain d' where "overlay_directory v (pm_replacement p) (fm_keys plan) = Inr d'"
    using overlay_slots [OF token_replaces [OF tok], of "fm_keys plan" "view_directory v"] parse
    by (auto simp: overlay_directory_def view_directory_def pk simp del: set_fm_keys)
  moreover have "\<exists>stamp. build_stamp p v (pm_replacement p)
      (overlay_ids (fm_keys (rs_section_revision_set (view_stamp v))) (fm_keys plan)) = Inr stamp"
  proof -
    let ?ids = "overlay_ids (fm_keys (rs_section_revision_set (view_stamp v))) (fm_keys plan)"
    have "\<exists>y. stamp_pair (view_stamp base) (pm_replacement p) sid = Inr y" if "sid \<in> set ?ids" for sid
    proof -
      have "planned q sid \<or> fm_has (rs_section_revision_set (view_stamp base)) sid"
        using that pk by (auto simp: overlay_ids_def eqs fmlookup_dom_iff plan_build_Inr(1) [OF plan] planned_def)
      then obtain i where i: "section_key_of sid = Inr i" using parse keys unfolding stamp_keys_ok_def by blast
      note rg = replacement_get_planned [OF token_replaces [OF tok] i]
      show ?thesis
      proof (cases "planned q sid")
        case True
        with ready [OF True] rg show ?thesis by (auto simp: stamp_pair_def Let_def section_ready_def)
      next
        case False
        with rg show ?thesis by (auto simp: stamp_pair_def Let_def)
      qed
    qed
    then have "\<exists>pairs. rmap (stamp_pair (view_stamp base) (pm_replacement p)) ?ids = Inr pairs"
      by (intro rmap_ok) blast
    then show ?thesis by (auto simp: build_stamp_def Let_def eqs)
  qed
  ultimately show ?thesis
    using plan by (auto simp: commit_overlay_def Let_def token_simps(1) [OF tok])
qed

lemma pin_clone_same:
  "rg_next_id (snd (pin_clone p s)) = rg_next_id s" "rg_destroyed (snd (pin_clone p s)) = rg_destroyed s"
  "fm_len (rg_slots (snd (pin_clone p s))) = fm_len (rg_slots s)"
  "rg_max_pins (snd (pin_clone p s)) = rg_max_pins s"
  "rg_context_id (snd (pin_clone p s)) = rg_context_id s" "rg_generation (snd (pin_clone p s)) = rg_generation s"
  by (auto simp: pin_clone_def fm_len_upd split: option.splits)

text \<open>The registry of an authority serves its context and generation: its own cut is pinned there.\<close>

lemma reach_registry:
  assumes "pub_reach a P T V"
  shows "rg_context_id (pa_registry a) = rs_context_id (ps_stamp (pa_root a))"
    "rg_generation (pa_registry a) = rs_generation (ps_stamp (pa_root a))"
    "check_stamp (pa_world_id a) (pa_context_id a) (pa_generation a) (ps_stamp (pa_root a)) = Inr ()"
proof -
  note ok = pub_reach_ok [OF assms, unfolded pub_ok_def]
  have "pa_pin a \<in># handles a T V" by (simp add: handles_def)
  with ok obtain slot where "slot_ok (pa_registry a) (handles a T V) (rp_id (pa_pin a)) slot"
    "lp_stamp slot = rp_stamp (pa_pin a)" by (auto elim: pins_okD)
  with ok show "rg_context_id (pa_registry a) = rs_context_id (ps_stamp (pa_root a))"
    "rg_generation (pa_registry a) = rs_generation (ps_stamp (pa_root a))"
    "check_stamp (pa_world_id a) (pa_context_id a) (pa_generation a) (ps_stamp (pa_root a)) = Inr ()"
    by (auto simp: slot_ok_def cut_ok_def)
qed

lemma commit_publish_decides:
  assumes reach: "pub_reach a P T V" and room: "size T + size V + 4 < usize_max"
    and inflight: "ledger_lookup (pm_request p) l = Inr LookupInFlight" "ledger_ok l"
    and root: "rs_schema_id (ps_stamp root) = REVISION_STAMP_SCHEMA"
      "rs_world_id (ps_stamp root) = rs_world_id (ps_stamp (pa_root a))"
      "rs_context_id (ps_stamp root) = rs_context_id (ps_stamp (pa_root a))"
      "rs_generation (ps_stamp root) = rs_generation (ps_stamp (pa_root a))"
      "rs_world_revision (ps_stamp root) = pm_target_world_revision p"
  shows "(\<exists>rc a' l'. commit_publish p root a l = Some (Inr rc, a', l')) \<longleftrightarrow> can_publish a"
proof -
  note reg = reach_registry [OF reach]
  have chk: "check_stamp (pa_world_id a) (pa_context_id a) (pa_generation a) (ps_stamp root) = Inr ()"
    using reg(3) root by (auto simp: check_stamp_def split: if_splits)
  show ?thesis
  proof (cases "checked_add (pa_next_token_id a) 1")
    case None
    then have "authority_prepare (pm_target_world_revision p) root (pm_replacement p) a = Inl pub_invalid_handle"
      using chk root(5) by (simp add: authority_prepare_def Let_def)
    then show ?thesis using None by (simp add: commit_publish_def can_publish_def)
  next
    case (Some n)
    then obtain pub a1 where prep: "authority_prepare (pm_target_world_revision p) root (pm_replacement p) a = Inr (pub, a1)"
      using chk root(5) by (auto simp: authority_prepare_def Let_def)
    note pub = authority_prepare_Inr [OF prep]
    then have a1: "a1 = a\<lparr>pa_next_token_id := pa_next_token_id a1\<rparr>" by blast
    have reg1: "pa_registry a1 = pa_registry a" by (subst a1) simp
    have stamp: "ps_stamp (pp_new_root pub) = ps_stamp root" using pub by simp
    have pin: "(\<exists>t s. try_pin (ps_stamp root) (pa_registry a) = Inr (t, s)) \<longleftrightarrow> can_publish a"
      using Some reg root(1,3,4) by (auto simp: try_pin_def can_publish_def Let_def not_le result_iff)
    show ?thesis
    proof (cases "can_publish a")
      case False
      then obtain e where "try_pin (ps_stamp root) (pa_registry a) = Inl e"
        using pin by (cases "try_pin (ps_stamp root) (pa_registry a)") auto
      then have "prepared_seal pub a1 = Inl (map_pin e)"
        using pub by (simp add: prepared_seal_def reg1 stamp)
      with prep False show ?thesis by (simp add: commit_publish_def receipt_bytes_total Let_def)
    next
      case True
      with pin obtain t s where "try_pin (ps_stamp root) (pa_registry a) = Inr (t, s)" by blast
      then obtain tk pub' a2 where seal: "prepared_seal pub a1 = Inr (tk, pub', a2)"
        using pub by (simp add: prepared_seal_def reg1 stamp)
      have r1: "pub_reach a1 (add_mset pub P) T V" by (rule pub_prepare [OF reach prep])
      have r2: "pub_reach a2 (add_mset pub' P) (add_mset tk T) V" by (rule pub_seal [OF r1 seal])
      have "pa_root a2 = pa_root a1" "pa_root a1 = pa_root a"
        using prepared_seal_Inr [OF seal] by (auto, subst a1, simp)
      then have base: "tk_base_identity tk = ps_identity (pa_root a2)"
        using prepared_seal_Inr [OF seal] pub by auto
      obtain v a3 where v: "authority_publish_once tk a2 = (Inr v, a3)"
        using publish_current [OF r2 base room] by blast
      let ?bytes = "encode_bytes (receipt_members (pm_txn_id p) (pm_base_identity p)
        (prepared_new_root_identity pub) (pm_fingerprint p))"
      obtain l1 l2 where "finalize_after_publish (pm_request p) ?bytes l = Some (?bytes, l1)"
        "record_evidence_after_publish (pm_request p)
          \<lparr>ev_old_root = pm_base_identity p, ev_new_root = prepared_new_root_identity pub\<rparr> l1 = Some l2"
        using finalize_in_flight [OF inflight] by blast
      with prep seal v True show ?thesis
        by (simp add: commit_publish_def publish_once_and_finalize_def receipt_bytes_total Let_def)
    qed
  qed
qed

lemma prepared_commit_decides:
  assumes "pub_reach a P T V" "size T + size V + 5 < usize_max" "ledger_ok l0"
    and "ledger_lookup q l0 = Inr LookupVacant" "directory_ok (view_directory base)" "cells_ok (mq_entries q)"
    and "prepare q base l0 = (Inr p, l)" "rv_root base = pa_root a"
    and "stamp_keys_ok (ps_stamp (pa_root a))"
  shows "(\<exists>rc a' l'. mutation_commit p a l = Some (Inr rc, a', l')) \<longleftrightarrow> can_publish a"
proof -
  note prep = prepare_vacant_InrD [OF assms(4-7)]
  then obtain r where tok: "token_for q base l0 r p" and r: "reservation_from_request q = Inr r" by blast
  have conf: "ledger_config_hash l = ledger_config_hash l0"
    using ledger_step_config [OF prep(4)] by (simp add: ledger_config_hash_def)
  have lok: "ledger_ok l" by (rule ledger_ok_step [OF prep(4) assms(3)])
  have fl: "ledger_lookup (pm_request p) l = Inr LookupInFlight" using prep(3) token_simps(1) [OF tok] by simp
  obtain v a1 where cap: "authority_capture a = (v, a1)" by (cases "authority_capture a")
  then have v: "rv_root v = pa_root a" and a1: "a1 = pa_with_registry (snd (pin_clone (pa_pin a) (pa_registry a))) a"
    by (simp_all add: authority_capture_iff)
  have r1: "pub_reach a1 P T (add_mset v V)"
    using assms(1,2) cap by (intro pub_capture [of a P T V]) (simp_all add: size_handles)
  have ids: "mq_txn_id q \<noteq> []" "mq_world_id q \<noteq> []"
    using assms(4) by (simp_all add: ledger_lookup_Vacant check_request_Inr)
  have "rv_root v = rv_root base" "stamp_keys_ok (view_stamp base)"
    using v assms(8,9) by (simp_all add: view_stamp_def)
  then obtain root where ov: "commit_overlay p v l = Inr root"
    using commit_overlay_ok [OF tok r prep(2) _ conf ids] by blast
  have st: "view_stamp v = ps_stamp (pa_root a1)" by (simp add: view_stamp_def v a1)
  have "size T + size (add_mset v V) + 4 < usize_max" using assms(2) by simp
  from commit_publish_decides [OF r1 this fl lok, of root] commit_overlay_spec(1) [OF ov tok]
  have "(\<exists>rc a' l'. commit_publish p root a1 l = Some (Inr rc, a', l')) \<longleftrightarrow> can_publish a1"
    by (simp add: st)
  moreover have "can_publish a1 \<longleftrightarrow> can_publish a"
    by (simp add: a1 can_publish_def pin_clone_same)
  moreover have "(\<exists>rc a' l'. mutation_commit p a l = Some (Inr rc, a', l')) \<longleftrightarrow>
      (\<exists>rc a' l'. commit_publish p root a1 l = Some (Inr rc, a', l'))"
    by (auto simp: mutation_commit_def fl cap ov split: option.splits prod.splits)
  ultimately show ?thesis by blast
qed

text \<open>
  C5. A prepared request is committed whenever there is room for a cut. In any publication history
  whose stamp lists canonical keys, a request that was prepared on the published cut commits
  exactly when a token id, a pin id and a pin slot are left in a live registry; so what prepare
  has admitted is never refused by a recheck.
\<close>

theorem prepared_commit_succeeds_iff:
  assumes "pub_reach a P T V" "size T + size V + 5 < usize_max" "ledger_ok l0"
    and "ledger_lookup q l0 = Inr LookupVacant" "directory_ok (view_directory base)" "cells_ok (mq_entries q)"
    and "prepare q base l0 = (Inr p, l)" "rv_root base = pa_root a"
    and "stamp_keys_ok (ps_stamp (pa_root a))"
  shows "(\<exists>rc a' l'. mutation_commit p a l = Some (Inr rc, a', l')) \<longleftrightarrow> can_publish a"
  by (rule prepared_commit_decides [OF assms])

section \<open>A sample world\<close>

text \<open>An authority whose published cut is the sample view's, with room for one more pin.\<close>

definition sample_world :: publication_authority where
  "sample_world = projr (authority_new ''w'' ''ctx'' 7
     (registry_from_approved_snapshot sample_snapshot 2 ''ctx'' 7) (rv_root sample_view))"

definition sample_token :: "prepared_mutation \<times> receipt_ledger" where
  "sample_token = (projr (fst (prepare sample_request sample_view sample_ledger)),
     snd (prepare sample_request sample_view sample_ledger))"

lemma sample_world_new:
  "authority_new ''w'' ''ctx'' 7 (registry_from_approved_snapshot sample_snapshot 2 ''ctx'' 7) (rv_root sample_view)
     = Inr sample_world \<and> pa_root sample_world = rv_root sample_view \<and> can_publish sample_world"
proof -
  let ?r = "registry_from_approved_snapshot sample_snapshot 2 ''ctx'' 7"
  have r: "rg_context_id (pr_inner ?r) = ''ctx''" "rg_generation (pr_inner ?r) = 7" "\<not> rg_destroyed (pr_inner ?r)"
    "rg_max_pins (pr_inner ?r) = 2" "rg_next_id (pr_inner ?r) = 0" "fm_len (rg_slots (pr_inner ?r)) = 0"
    by (simp_all add: registry_from_approved_snapshot_def)
  then obtain p s where p: "try_pin (sample_stamp 3) (pr_inner ?r) = Inr (p, s)"
    "\<not> rg_destroyed s" "rg_max_pins s = 2" "rg_next_id s = 1" "fm_len (rg_slots s) \<le> 1"
    using sample_try_pin_room [of "pr_inner ?r" 3] by auto
  have st: "ps_stamp (rv_root sample_view) = sample_stamp 3"
    using sample_view_simps(1) by (simp only: view_stamp_def)
  have "authority_new ''w'' ''ctx'' 7 ?r (rv_root sample_view) =
      Inr \<lparr>pa_world_id = ''w'', pa_context_id = ''ctx'', pa_generation = 7, pa_pins = ?r\<lparr>pr_inner := s\<rparr>,
           pa_root = rv_root sample_view, pa_pin = p, pa_next_token_id = 0\<rparr>"
    using p by (simp add: authority_new_def check_stamp_def st)
  with p show ?thesis by (simp add: sample_world_def can_publish_def checked_add_def)
qed

lemma sample_prepared: "prepare sample_request sample_view sample_ledger = (Inr (fst sample_token), snd sample_token)"
proof -
  have "fm_len (lg_entries sample_ledger) < lg_max_entries sample_ledger" by (simp add: sample_ledger_def)
  with prepare_vacant [OF sample_view_ok(3,1,2)] sample_admissible show ?thesis
    by (cases "prepare sample_request sample_view sample_ledger";
        cases "fst (prepare sample_request sample_view sample_ledger)") (auto simp: sample_token_def)
qed

lemma sample_setting:
  "pub_reach sample_world {#} {#} {#}" "size {#} + size {#} + 5 < usize_max" "ledger_ok sample_ledger"
  "rv_root sample_view = pa_root sample_world" "stamp_keys_ok (ps_stamp (pa_root sample_world))"
proof -
  show "pub_reach sample_world {#} {#} {#}" using sample_world_new by (blast intro: pub_new)
  show "ledger_ok sample_ledger" by (simp add: ledger_ok_def sample_ledger_def)
  show root: "rv_root sample_view = pa_root sample_world" using sample_world_new by simp
  have st: "ps_stamp (rv_root sample_view) = sample_stamp 3"
    using sample_view_simps(1) by (simp only: view_stamp_def)
  have "section_id_key (SectionId 0 0 0) = ''s:0:0:0''" by code_simp
  then have "section_key_of ''s:0:0:0'' = Inr (SectionId 0 0 0)"
    by (simp add: section_key_of_Inr section_id_wf_def)
  then show "stamp_keys_ok (ps_stamp (pa_root sample_world))"
    by (simp add: root [symmetric] st stamp_keys_ok_def sample_stamp_def to_revision_stamp_def)
qed simp

theorem commit_all_or_nothing_witness:
  "\<exists>res a' l' P'. mutation_commit (fst sample_token) sample_world sample_ledger = Some (res, a', l') \<and>
     pub_reach a' P' {#} {#}"
  using commit_all_or_nothing [OF sample_setting(1-3)] by blast

theorem prepared_commit_succeeds_iff_witness:
  "\<exists>rc a' l'. mutation_commit (fst sample_token) sample_world (snd sample_token) = Some (Inr rc, a', l')"
  using prepared_commit_succeeds_iff [OF sample_setting(1-3) sample_view_ok(3,1,2) sample_prepared sample_setting(4,5)]
    sample_world_new by blast

lemma sample_committed:
  "\<exists>rc a' l'. mutation_commit (fst sample_token) sample_world (snd sample_token) = Some (Inr rc, a', l')"
  using prepared_commit_decides [OF sample_setting(1-3) sample_view_ok(3,1,2) sample_prepared sample_setting(4,5)]
    sample_world_new by blast

theorem commit_publishes_last_writes_witness:
  "\<exists>res a' l' s. mutation_commit (fst sample_token) sample_world (snd sample_token) = Some (res, a', l') \<and>
     rs_world_revision (ps_stamp (pa_root a')) = 4 \<and>
     section_cells (pa_root a') (SectionId 1 2 3) = Some s \<and> storage_read s 5 = 9 \<and> storage_read s 6 = 1"
proof -
  obtain rc a' l' where c: "mutation_commit (fst sample_token) sample_world (snd sample_token) = Some (Inr rc, a', l')"
    using sample_committed by blast
  note res = commit_publishes_last_writes [OF sample_setting(1-3) sample_view_ok(3,1,2) sample_prepared sample_setting(4) c]
  have wf: "section_id_wf (SectionId 1 2 3)" and key: "section_id_key (SectionId 1 2 3) = ''s:1:2:3''"
    using sample_key by (simp_all add: section_key_of_Inr)
  have st: "ps_stamp (pa_root sample_world) = sample_stamp 3"
    using sample_view_simps(1) sample_setting(4) by (simp only: view_stamp_def)
  have pl: "planned sample_request ''s:1:2:3''" by (simp add: planned_iff sample_request_def)
  from res wf have adv: "advanced sample_request (pa_root sample_world) (pa_root a') (SectionId 1 2 3)" by blast
  then obtain s s' where s: "section_cells (pa_root sample_world) (SectionId 1 2 3) = Some s"
    "section_cells (pa_root a') (SectionId 1 2 3) = Some s'"
    and rd: "\<forall>off. unat off < cell_count \<longrightarrow> storage_read s' off =
      (case last_write (entries_of sample_request ''s:1:2:3'') off of Some b \<Rightarrow> b | None \<Rightarrow> storage_read s off)"
    using pl by (auto simp: advanced_def key Let_def)
  have s1: "s = StUniform 1"
    using s(1) sample_section_ok sample_view_simps(2)
    by (simp add: section_cells_Some sample_setting(4) [symmetric] view_directory_def)
  have "storage_read s' 5 = 9" "storage_read s' 6 = 1"
    using rd [rule_format, of 5] rd [rule_format, of 6]
    by (simp_all add: s1 last_write_def entries_of_def sample_request_def)
  moreover have "rs_world_revision (ps_stamp (pa_root a')) = 4"
    using res by (simp add: st checked_add_def)
  ultimately show ?thesis using c s(2) by blast
qed

end
