(* ===== verification/Query.thy ===== *)
theory Query
  imports Canonical Publication
begin

text \<open>
  Deterministic queries over one published cut (ops crate, \<open>query/\<close> apart from \<open>block_read.rs\<close>):
  request admission, the planner bound to an approved snapshot, the single-cut walk with its
  budget and optional residency guard, and the assembled outcome.

  A \<open>SectionPresenceGuard\<close> is a parameter: a function of the section id and the presence that
  returns the contract error it refuses with.
\<close>

section \<open>Errors and budget\<close>

definition QUERY_SCHEMA :: string where "QUERY_SCHEMA = ''voxel-query''"

definition BUDGET_FAMILY :: string where "BUDGET_FAMILY = ''StrictAdmissionBudgetFamily''"

datatype query_error = QueryError (qe_error_id: string)

definition qe_budget_exceeded :: query_error where "qe_budget_exceeded = QueryError ''BudgetExceeded''"

definition qe_from_key :: "key_error \<Rightarrow> query_error" where
  "qe_from_key e = QueryError (key_error_id e)"

definition qe_invalid_handle :: query_error where "qe_invalid_handle = QueryError ''InvalidHandle''"

definition qe_claim_not_granted :: query_error where "qe_claim_not_granted = QueryError ''ClaimNotGranted''"

definition qe_loader_cancelled :: query_error where "qe_loader_cancelled = QueryError ''LoaderCancelled''"

definition qe_contract :: "string \<Rightarrow> query_error" where
  "qe_contract i = QueryError (the (intern_error_code i))"

definition qe_from_world_y :: "world_y_error \<Rightarrow> query_error" where
  "qe_from_world_y e = qe_contract WORLD_Y_OUT_OF_RANGE"

definition qe_pinned_read_returned_pending :: query_error where
  "qe_pinned_read_returned_pending = qe_contract ''pinned_read_returned_pending''"

definition budget_exceeds :: "nat \<Rightarrow> nat \<Rightarrow> bool" where
  "budget_exceeds requested max_sections \<longleftrightarrow> max_sections = 0 \<or> requested > max_sections"

type_synonym presence_guard = "string \<Rightarrow> string \<Rightarrow> string + unit"

section \<open>Requests and plans\<close>

record query_request =
  vq_query_id :: string
  vq_world_id :: string
  vq_context :: string
  vq_section_ids :: "string list"
  vq_cancel :: bool

definition validate_request :: "query_request \<Rightarrow> revision_stamp \<Rightarrow> query_error + unit" where
  "validate_request q stamp =
     (if vq_cancel q then Inl qe_invalid_handle
      else if vq_query_id q = [] \<or> vq_world_id q = [] \<or> vq_context q = [] then Inl qe_invalid_handle
      else if vq_world_id q \<noteq> rs_world_id stamp \<or> vq_context q \<noteq> rs_context_id stamp
      then Inl qe_invalid_handle
      else Inr ())"

definition canonicalize_sections :: "string list \<Rightarrow> query_error + string list" where
  "canonicalize_sections ids =
     rbind (rfold (\<lambda>raw s. rbind (map_err qe_from_key (section_id_parse raw)) (\<lambda>i. Inr (insert i s))) ids {}) (\<lambda>s.
     Inr (map section_id_key (sorted_list_of_set s)))"

record query_planner =
  qn_snapshot :: voxel_config_snapshot
  qn_max_sections :: nat

record query_plan =
  qp_canonical_sections :: "string list"
  qp_read_stamp :: revision_stamp
  qp_budget :: nat
  qp_config_hash :: string
  qp_cancel_token :: string
  qp_plan_hash :: digest

definition planner_from_approved_snapshot :: "voxel_config_snapshot \<Rightarrow> nat \<Rightarrow> query_error + query_planner" where
  "planner_from_approved_snapshot snapshot max_sections =
     (if max_sections = 0 then Inl qe_budget_exceeded
      else Inr \<lparr>qn_snapshot = snapshot, qn_max_sections = max_sections\<rparr>)"

definition planner_config_hash :: "query_planner \<Rightarrow> string" where
  "planner_config_hash n = cs_config_hash (qn_snapshot n)"

definition plan_put :: "string \<times> canonical_value \<Rightarrow> canonical_object \<Rightarrow> query_error + canonical_object" where
  "plan_put kv obj = map_err (\<lambda>_. qe_invalid_handle) (member_insert (fst kv) (snd kv) obj)"

definition plan_members ::
    "query_request \<Rightarrow> revision_stamp \<Rightarrow> string list \<Rightarrow> string \<Rightarrow> nat \<Rightarrow> (string \<times> canonical_value) list" where
  "plan_members q stamp sections config_hash budget =
     [(''schemaId'', Text QUERY_SCHEMA),
      (''queryId'', Text (vq_query_id q)),
      (''worldId'', Text (vq_world_id q)),
      (''context'', Text (vq_context q)),
      (''canonicalSections'', TextArray sections),
      (''stampWorldId'', Text (rs_world_id stamp)),
      (''stampContextId'', Text (rs_context_id stamp)),
      (''generation'', Uint (rs_generation stamp)),
      (''worldRevision'', Uint (rs_world_revision stamp))] @
     map (\<lambda>(i, rev). (''sectionRevision.'' @ i, Uint rev)) (fm_entries (rs_section_revision_set stamp)) @
     [(''configHash'', Text config_hash),
      (''maxSections'', Uint (of_nat budget))]"

definition compute_plan_hash ::
    "query_request \<Rightarrow> revision_stamp \<Rightarrow> string list \<Rightarrow> string \<Rightarrow> nat \<Rightarrow> query_error + digest" where
  "compute_plan_hash q stamp sections config_hash budget =
     rbind (rfold plan_put (plan_members q stamp sections config_hash budget) fmempty) (\<lambda>obj.
     Inr (sha256 (encode_bytes obj)))"

definition planner_plan ::
    "query_planner \<Rightarrow> query_request \<Rightarrow> published_read_view \<Rightarrow> voxel_config_snapshot \<Rightarrow> query_error + query_plan" where
  "planner_plan n q view config =
     (let stamp = view_stamp view in
      rbind (validate_request q stamp) (\<lambda>_.
      if cs_allow_list config = [] then Inl qe_claim_not_granted
      else if budget_exceeds (length (vq_section_ids q)) (qn_max_sections n) then Inl qe_budget_exceeded
      else rbind (canonicalize_sections (vq_section_ids q)) (\<lambda>sections.
        rbind (compute_plan_hash q stamp sections (cs_config_hash config) (qn_max_sections n)) (\<lambda>h.
        Inr \<lparr>qp_canonical_sections = sections, qp_read_stamp = stamp, qp_budget = qn_max_sections n,
             qp_config_hash = cs_config_hash config, qp_cancel_token = vq_query_id q, qp_plan_hash = h\<rparr>))))"

section \<open>Section access\<close>

record section_access_result =
  sa_section_id :: string
  sa_presence :: string
  sa_schema_id :: "string option"

definition access_intern_presence :: "string \<Rightarrow> query_error + string" where
  "access_intern_presence nm = ok_or qe_invalid_handle (find (\<lambda>item. item = nm) SECTION_PRESENCE)"

fun map_section :: "section_error \<Rightarrow> query_error" where
  "map_section (SeKey k) = qe_from_key k"
| "map_section _ = qe_invalid_handle"

definition section_access :: "published_read_view \<Rightarrow> string \<Rightarrow> query_error + section_access_result" where
  "section_access view sid =
     (case directory_lookup (ps_directory (rv_root view)) sid of
        Inr (Some slot) \<Rightarrow>
          rbind (access_intern_presence (slot_presence slot)) (\<lambda>presence.
          rbind (if presence = ''Ready''
                 then rbind (ok_or qe_invalid_handle (map_option pl_schema_id (slot_payload slot))) (\<lambda>s. Inr (Some s))
                 else Inr None) (\<lambda>schema.
          Inr \<lparr>sa_section_id = sid, sa_presence = presence, sa_schema_id = schema\<rparr>))
      | Inr None \<Rightarrow>
          rbind (access_intern_presence ''Unchanged'') (\<lambda>presence.
          Inr \<lparr>sa_section_id = sid, sa_presence = presence, sa_schema_id = None\<rparr>)
      | Inl e \<Rightarrow> Inl (map_section e))"

section \<open>Execution\<close>

record query_evidence =
  qv_read_stamp :: revision_stamp
  qv_budget_used :: nat
  qv_missing_states :: "section_access_result list"
  qv_plan_hash :: digest

record query_outcome =
  qo_items :: "section_access_result list"
  qo_evidence :: query_evidence

definition assemble :: "section_access_result list \<Rightarrow> revision_stamp \<Rightarrow> nat \<Rightarrow> digest \<Rightarrow> query_outcome" where
  "assemble items stamp used h =
     \<lparr>qo_items = items,
      qo_evidence = \<lparr>qv_read_stamp = stamp, qv_budget_used = used,
        qv_missing_states = filter (\<lambda>item. sa_presence item \<noteq> ''Ready'') items, qv_plan_hash = h\<rparr>\<rparr>"

definition bind_cut :: "query_plan \<Rightarrow> published_read_view \<Rightarrow> query_error + unit" where
  "bind_cut p view =
     (let planned = qp_read_stamp p; observed = view_stamp view in
      if rs_world_id planned \<noteq> rs_world_id observed \<or> rs_context_id planned \<noteq> rs_context_id observed \<or>
         rs_generation planned \<noteq> rs_generation observed \<or>
         rs_world_revision planned \<noteq> rs_world_revision observed
      then Inl qe_invalid_handle
      else if qp_cancel_token p = [] then Inl qe_invalid_handle
      else Inr ())"

definition guard_check :: "presence_guard option \<Rightarrow> string \<Rightarrow> string \<Rightarrow> query_error + unit" where
  "guard_check guard sid presence =
     (case guard of Some g \<Rightarrow> map_err qe_contract (g sid presence) | None \<Rightarrow> Inr ())"

definition walk_step ::
    "query_plan \<Rightarrow> published_read_view \<Rightarrow> presence_guard option \<Rightarrow> string \<Rightarrow> nat \<times> section_access_result list \<Rightarrow>
     query_error + nat \<times> section_access_result list" where
  "walk_step p view guard sid st =
     (let (used, items) = st in
      rbind (ok_or qe_budget_exceeded (usize_checked_add used 1)) (\<lambda>used.
      if budget_exceeds used (qp_budget p) then Inl qe_budget_exceeded
      else rbind (section_access view sid) (\<lambda>item.
        rbind (guard_check guard (sa_section_id item) (sa_presence item)) (\<lambda>_.
        Inr (used, items @ [item])))))"

definition walk_bound ::
    "query_plan \<Rightarrow> published_read_view \<Rightarrow> nat \<Rightarrow> presence_guard option \<Rightarrow> query_error + query_outcome" where
  "walk_bound p view already_used guard =
     (if budget_exceeds already_used (qp_budget p) then Inl qe_budget_exceeded
      else rbind (rfold (walk_step p view guard) (qp_canonical_sections p) (already_used, [])) (\<lambda>(used, items).
        Inr (assemble items (qp_read_stamp p) used (qp_plan_hash p))))"

definition query_walk :: "query_plan \<Rightarrow> published_read_view \<Rightarrow> nat \<Rightarrow> query_error + query_outcome" where
  "query_walk p view already_used = rbind (bind_cut p view) (\<lambda>_. walk_bound p view already_used None)"

definition query_walk_guarded ::
    "query_plan \<Rightarrow> published_read_view \<Rightarrow> nat \<Rightarrow> presence_guard \<Rightarrow> query_error + query_outcome" where
  "query_walk_guarded p view already_used g =
     rbind (bind_cut p view) (\<lambda>_. walk_bound p view already_used (Some g))"

definition query_execute :: "query_plan \<Rightarrow> published_read_view \<Rightarrow> query_error + query_outcome" where
  "query_execute p view = query_walk p view 0"

definition query_execute_guarded ::
    "query_plan \<Rightarrow> published_read_view \<Rightarrow> presence_guard \<Rightarrow> query_error + query_outcome" where
  "query_execute_guarded p view g = query_walk_guarded p view 0 g"

definition query_execute_cancelled :: "query_plan \<Rightarrow> published_read_view \<Rightarrow> query_error + query_outcome" where
  "query_execute_cancelled p view = rbind (bind_cut p view) (\<lambda>_. Inl qe_loader_cancelled)"

section \<open>Facts\<close>

lemma plan_names_distinct: "distinct (map fst (plan_members q stamp sections config_hash budget))"
proof -
  let ?rev = "map fst (fm_entries (rs_section_revision_set stamp))"
  have "distinct (map (\<lambda>i. ''sectionRevision.'' @ i) ?rev)"
    using distinct_fm_entries [of "rs_section_revision_set stamp"]
    by (subst distinct_map) (simp add: inj_on_def del: map_map)
  then show ?thesis
    by (auto simp: plan_members_def comp_def case_prod_unfold)
qed

lemma plan_hash_total:
  "compute_plan_hash q stamp sections config_hash budget =
     Inr (sha256 (encode_bytes (fold (\<lambda>kv. fmupd (fst kv) (snd kv))
       (plan_members q stamp sections config_hash budget) fmempty)))"
  unfolding compute_plan_hash_def plan_put_def
  by (subst insert_members [OF plan_names_distinct]) simp_all

lemma canonicalize_fold:
  "rfold (\<lambda>raw s. rbind (map_err qe_from_key (section_id_parse raw)) (\<lambda>i. Inr (insert i s))) ids acc = Inr s \<longleftrightarrow>
     (\<forall>raw \<in> set ids. \<exists>i. section_id_parse raw = Inr i) \<and> s = acc \<union> (\<lambda>raw. projr (section_id_parse raw)) ` set ids"
proof (induction ids arbitrary: acc)
  case (Cons raw ids)
  show ?case by (cases "section_id_parse raw") (auto simp: Cons.IH)
qed auto

text \<open>The canonical list has the requested sections once each, in section order.\<close>

definition in_section_order :: "string list \<Rightarrow> bool" where
  "in_section_order sids \<longleftrightarrow> (\<exists>is. sorted is \<and> distinct is \<and> list_all section_id_wf is \<and> sids = map section_id_key is)"

lemma canonicalize_Inr:
  assumes "canonicalize_sections ids = Inr sids"
  shows "set sids = set ids" "in_section_order sids" "\<forall>raw \<in> set ids. \<exists>i. section_id_parse raw = Inr i"
    "length sids \<le> length ids"
proof -
  let ?f = "\<lambda>raw. projr (section_id_parse raw)"
  from assms have ok: "\<forall>raw \<in> set ids. \<exists>i. section_id_parse raw = Inr i"
    and sids: "sids = map section_id_key (sorted_list_of_set (?f ` set ids))"
    by (auto simp: canonicalize_sections_def rbind_eq_Inr canonicalize_fold)
  show "\<forall>raw \<in> set ids. \<exists>i. section_id_parse raw = Inr i" by (rule ok)
  have key: "section_id_key (?f raw) = raw" "section_id_wf (?f raw)" if "raw \<in> set ids" for raw
  proof -
    from ok that obtain i where p: "section_id_parse raw = Inr i" by blast
    then have "section_id_key i = raw" "section_id_wf i" by (simp_all add: section_codec.decode_iff)
    then show "section_id_key (?f raw) = raw" "section_id_wf (?f raw)" by (simp_all add: p)
  qed
  have "set sids = section_id_key ` ?f ` set ids" by (simp add: sids)
  also have "\<dots> = set ids" unfolding image_image using key(1) by simp
  finally show "set sids = set ids" .
  show "in_section_order sids"
    unfolding in_section_order_def sids using key(2)
    by (intro exI [of _ "sorted_list_of_set (?f ` set ids)"]) (auto simp: list_all_iff)
  have "length sids = card (?f ` set ids)" by (simp add: sids)
  also have "\<dots> \<le> card (set ids)" by (simp add: card_image_le)
  also have "\<dots> \<le> length ids" by (rule card_length)
  finally show "length sids \<le> length ids" .
qed

lemma canonicalize_ok_iff:
  "(\<exists>sids. canonicalize_sections ids = Inr sids) \<longleftrightarrow> (\<forall>raw \<in> set ids. \<exists>i. section_id_parse raw = Inr i)"
  by (auto simp: canonicalize_sections_def rbind_eq_Inr canonicalize_fold)

text \<open>What one section looks like in a cut: absent sections are unchanged ones.\<close>

definition section_seen :: "published_read_view \<Rightarrow> string \<Rightarrow> section_access_result" where
  "section_seen view sid =
     (case fmlookup (ps_directory (rv_root view)) (projr (section_id_parse sid)) of
        Some (SlotReady pl) \<Rightarrow> \<lparr>sa_section_id = sid, sa_presence = ''Ready'', sa_schema_id = Some (pl_schema_id pl)\<rparr>
      | Some slot \<Rightarrow> \<lparr>sa_section_id = sid, sa_presence = slot_presence slot, sa_schema_id = None\<rparr>
      | None \<Rightarrow> \<lparr>sa_section_id = sid, sa_presence = ''Unchanged'', sa_schema_id = None\<rparr>)"

lemma sa_section_id_seen [simp]: "sa_section_id (section_seen view sid) = sid"
  by (simp add: section_seen_def split: option.splits section_slot.splits)

lemma section_access_ok:
  assumes "section_id_parse sid = Inr i"
  shows "section_access view sid = Inr (section_seen view sid)"
proof -
  have pres: "access_intern_presence nm = Inr nm" if "nm \<in> set SECTION_PRESENCE" for nm
    using that by (auto simp: access_intern_presence_def SECTION_PRESENCE_def)
  have slots: "slot_presence (SlotReady pl) = ''Ready''" "slot_presence SlotUnchanged = ''Unchanged''"
    "slot_presence SlotPending = ''Pending''" "slot_presence SlotUnavailable = ''Unavailable''" for pl
    by (simp_all add: slot_presence_def intern_presence_def SECTION_PRESENCE_def)
  from assms show ?thesis
    by (simp add: section_access_def directory_lookup_def section_key_of_def section_seen_def slots pres
        SECTION_PRESENCE_def split: option.splits section_slot.splits)
qed

text \<open>The walk visits every planned section in order while the budget and the guard allow it.\<close>

lemma walk_steps:
  assumes "\<forall>sid \<in> set sids. \<exists>i. section_id_parse sid = Inr i" "used + length sids \<le> qp_budget p" "qp_budget p \<le> usize_max"
  shows "rfold (walk_step p view guard) sids (used, items) =
    rbind (rfold (\<lambda>sid u. guard_check guard sid (sa_presence (section_seen view sid))) sids ())
      (\<lambda>_. Inr (used + length sids, items @ map (section_seen view) sids))"
  using assms(1,2)
proof (induction sids arbitrary: used items)
  case (Cons sid sids)
  then obtain i where i: "section_id_parse sid = Inr i" by auto
  have "walk_step p view guard sid (used, items) =
      rbind (guard_check guard sid (sa_presence (section_seen view sid))) (\<lambda>_. Inr (Suc used, items @ [section_seen view sid]))"
    using Cons.prems(2) assms(3) section_access_ok [OF i, of view]
    by (simp add: walk_step_def usize_checked_add_def budget_exceeds_def)
  with Cons show ?case by (simp add: rbind_assoc fun_eq_iff cong: rbind_cong)
qed simp

lemma walk_over_budget:
  assumes "used \<le> qp_budget p" "qp_budget p < used + length sids"
  shows "\<exists>e. rfold (walk_step p view guard) sids (used, items) = Inl e"
  using assms
proof (induction sids arbitrary: used items)
  case (Cons sid sids)
  show ?case
  proof (cases "walk_step p view guard sid (used, items)")
    case (Inr st)
    then have "fst st = Suc used" "Suc used \<le> qp_budget p"
      by (auto simp: walk_step_def result_iff usize_checked_add_def budget_exceeds_def split: if_splits)
    with Cons Inr show ?thesis by (cases st) simp
  qed simp
qed simp

lemma planner_plan_Inr:
  "planner_plan n q view config = Inr p \<longleftrightarrow>
     validate_request q (view_stamp view) = Inr () \<and> cs_allow_list config \<noteq> [] \<and>
     \<not> budget_exceeds (length (vq_section_ids q)) (qn_max_sections n) \<and>
     (\<exists>sids h. canonicalize_sections (vq_section_ids q) = Inr sids \<and>
        compute_plan_hash q (view_stamp view) sids (cs_config_hash config) (qn_max_sections n) = Inr h \<and>
        p = \<lparr>qp_canonical_sections = sids, qp_read_stamp = view_stamp view, qp_budget = qn_max_sections n,
             qp_config_hash = cs_config_hash config, qp_cancel_token = vq_query_id q, qp_plan_hash = h\<rparr>)"
  by (auto simp: planner_plan_def Let_def rbind_eq_Inr)

lemma validate_request_iff:
  "validate_request q stamp = Inr () \<longleftrightarrow>
     \<not> vq_cancel q \<and> vq_query_id q \<noteq> [] \<and> vq_world_id q \<noteq> [] \<and> vq_context q \<noteq> [] \<and>
     vq_world_id q = rs_world_id stamp \<and> vq_context q = rs_context_id stamp"
  by (auto simp: validate_request_def)

definition same_cut :: "revision_stamp \<Rightarrow> revision_stamp \<Rightarrow> bool" where
  "same_cut s t \<longleftrightarrow> rs_world_id s = rs_world_id t \<and> rs_context_id s = rs_context_id t \<and>
     rs_generation s = rs_generation t \<and> rs_world_revision s = rs_world_revision t"

lemma walk_of_plan:
  assumes plan: "planner_plan n q view config = Inr p" and cut: "same_cut (view_stamp view) (view_stamp v)"
    and max: "qn_max_sections n \<le> usize_max"
  shows "bind_cut p v = Inr ()"
    and "walk_bound p v 0 guard =
      rbind (rfold (\<lambda>sid u. guard_check guard sid (sa_presence (section_seen v sid))) (qp_canonical_sections p) ())
        (\<lambda>_. Inr (assemble (map (section_seen v) (qp_canonical_sections p)) (view_stamp view)
          (length (qp_canonical_sections p)) (qp_plan_hash p)))"
proof -
  from plan obtain sids h where p: "validate_request q (view_stamp view) = Inr ()"
    "\<not> budget_exceeds (length (vq_section_ids q)) (qn_max_sections n)"
    "canonicalize_sections (vq_section_ids q) = Inr sids"
    "p = \<lparr>qp_canonical_sections = sids, qp_read_stamp = view_stamp view, qp_budget = qn_max_sections n,
       qp_config_hash = cs_config_hash config, qp_cancel_token = vq_query_id q, qp_plan_hash = h\<rparr>"
    by (auto simp: planner_plan_Inr)
  note c = canonicalize_Inr [OF p(3)]
  from p(1) cut show "bind_cut p v = Inr ()"
    by (simp add: p(4) bind_cut_def same_cut_def validate_request_iff)
  have "\<forall>sid \<in> set sids. \<exists>i. section_id_parse sid = Inr i" using c(1,3) by blast
  moreover have "0 + length sids \<le> qp_budget p" using c(4) p(2) by (simp add: p(4) budget_exceeds_def)
  moreover have "\<not> budget_exceeds 0 (qp_budget p)" using p(2) by (simp add: p(4) budget_exceeds_def)
  ultimately show "walk_bound p v 0 guard =
      rbind (rfold (\<lambda>sid u. guard_check guard sid (sa_presence (section_seen v sid))) (qp_canonical_sections p) ())
        (\<lambda>_. Inr (assemble (map (section_seen v) (qp_canonical_sections p)) (view_stamp view)
          (length (qp_canonical_sections p)) (qp_plan_hash p)))"
    using walk_steps [of sids 0 p v guard "[]"] max
    by (simp add: walk_bound_def p(4) rbind_assoc)
qed

lemma guard_none: "rfold (\<lambda>sid u. guard_check None sid (f sid)) sids () = Inr ()"
  by (simp add: rfold_unit_iff guard_check_def)

lemma planner_plan_ok_iff:
  "(\<exists>p. planner_plan n q view config = Inr p) \<longleftrightarrow>
     \<not> vq_cancel q \<and> vq_query_id q \<noteq> [] \<and> vq_world_id q \<noteq> [] \<and> vq_context q \<noteq> [] \<and>
     vq_world_id q = rs_world_id (view_stamp view) \<and> vq_context q = rs_context_id (view_stamp view) \<and>
     cs_allow_list config \<noteq> [] \<and> 0 < qn_max_sections n \<and>
     length (vq_section_ids q) \<le> qn_max_sections n \<and>
     (\<forall>raw \<in> set (vq_section_ids q). \<exists>i. section_id_parse raw = Inr i)"
  unfolding canonicalize_ok_iff [symmetric]
  by (simp add: planner_plan_Inr plan_hash_total validate_request_iff budget_exceeds_def not_less; blast)

text \<open>A published cut with an absent section, queried twice for it and once for another.\<close>

definition query_view :: published_read_view where
  "query_view = view_from_parts (sample_root 3) (pa_pin sample_authority)"

lemma query_view_simps [simp]:
  "rv_root query_view = sample_root 3" "view_stamp query_view = sample_stamp 3"
  by (simp_all add: query_view_def view_from_parts_def view_stamp_def)

definition sample_query :: query_request where
  "sample_query = \<lparr>vq_query_id = ''q1'', vq_world_id = ''w'', vq_context = ''ctx'',
     vq_section_ids = map section_id_key [SectionId 1 2 3, SectionId 0 0 0, SectionId 1 2 3], vq_cancel = False\<rparr>"

definition sample_planner :: query_planner where
  "sample_planner = \<lparr>qn_snapshot = sample_snapshot, qn_max_sections = 4\<rparr>"

lemma sample_query_parses:
  "section_id_parse (section_id_key (SectionId 1 2 3)) = Inr (SectionId 1 2 3)"
  "section_id_parse (section_id_key (SectionId 0 0 0)) = Inr (SectionId 0 0 0)"
  by (simp_all add: section_codec.decode_encode section_id_wf_def)

lemma sample_plan_exists:
  "cs_allow_list c \<noteq> [] \<Longrightarrow> \<exists>p. planner_plan sample_planner sample_query query_view c = Inr p"
  unfolding planner_plan_ok_iff
  by (simp add: sample_query_def sample_planner_def sample_query_parses)

definition sample_capable :: voxel_config_snapshot where
  "sample_capable = \<lparr>cs_config_hash = ''c'', cs_allow_list = [''voxel'']\<rparr>"

section \<open>Properties\<close>

text \<open>
  Planning decides: a plan exists exactly for a live request that names the captured
  world and context, under a snapshot with at least one capability, within the section budget, and
  with canonical section keys only. The plan holds the requested sections once each, in section
  order, with the captured stamp, and the planning never fails for any other reason (the hash of
  the plan is always computed).
\<close>

theorem query_plan_decides:
  "((\<exists>p. planner_plan n q view config = Inr p) \<longleftrightarrow>
     \<not> vq_cancel q \<and> vq_query_id q \<noteq> [] \<and> vq_world_id q \<noteq> [] \<and> vq_context q \<noteq> [] \<and>
     vq_world_id q = rs_world_id (view_stamp view) \<and> vq_context q = rs_context_id (view_stamp view) \<and>
     cs_allow_list config \<noteq> [] \<and> 0 < qn_max_sections n \<and>
     length (vq_section_ids q) \<le> qn_max_sections n \<and>
     (\<forall>raw \<in> set (vq_section_ids q). \<exists>i. section_id_parse raw = Inr i)) \<and>
   (\<forall>p. planner_plan n q view config = Inr p \<longrightarrow>
     set (qp_canonical_sections p) = set (vq_section_ids q) \<and> in_section_order (qp_canonical_sections p) \<and>
     qp_read_stamp p = view_stamp view \<and> qp_budget p = qn_max_sections n)"
  unfolding planner_plan_ok_iff by (auto simp: planner_plan_Inr canonicalize_Inr(1,2))

theorem query_plan_decides_witness:
  "\<exists>p. planner_plan sample_planner sample_query query_view sample_capable = Inr p \<and>
     length (qp_canonical_sections p) \<ge> 2 \<and> in_section_order (qp_canonical_sections p)"
proof -
  obtain p where p: "planner_plan sample_planner sample_query query_view sample_capable = Inr p"
    using sample_plan_exists [of sample_capable] by (auto simp: sample_capable_def)
  note d = query_plan_decides [of sample_planner sample_query query_view sample_capable]
  from d p have "set (qp_canonical_sections p) = set (vq_section_ids sample_query)" "in_section_order (qp_canonical_sections p)"
    by blast+
  moreover have "section_id_key (SectionId 1 2 3) \<noteq> section_id_key (SectionId 0 0 0)"
    using sample_query_parses by auto
  then have "card (set (vq_section_ids sample_query)) = 2" by (simp add: sample_query_def insert_commute)
  ultimately show ?thesis using p card_length [of "qp_canonical_sections p"] by auto
qed

text \<open>
  C38. A planned query executes on its cut: on every view of the planned cut (same world,
  context, generation and world revision) the walk never runs out of the planned budget and returns
  exactly one item per planned section, in plan order, with the presence the directory holds (an
  absent section is unchanged, never loaded), the sections that are not ready as missing-state
  evidence, and the budget used; with a residency guard the same outcome is returned unless the
  guard refuses a section, whose refusal is then the result; on any other cut nothing is read.
\<close>

theorem planned_query_executes:
  assumes "planner_plan n q view config = Inr p" "qn_max_sections n \<le> usize_max"
  shows "if same_cut (view_stamp view) (view_stamp v)
    then query_execute p v = Inr (assemble (map (section_seen v) (qp_canonical_sections p)) (view_stamp view)
           (length (qp_canonical_sections p)) (qp_plan_hash p)) \<and>
         query_execute_guarded p v g =
           rbind (rfold (\<lambda>sid u. map_err qe_contract (g sid (sa_presence (section_seen v sid)))) (qp_canonical_sections p) ())
             (\<lambda>_. query_execute p v)
    else query_execute p v = Inl qe_invalid_handle \<and> query_execute_guarded p v g = Inl qe_invalid_handle"
proof (cases "same_cut (view_stamp view) (view_stamp v)")
  case True
  note w = walk_of_plan [OF assms(1) True assms(2)]
  have ex: "query_execute p v = Inr (assemble (map (section_seen v) (qp_canonical_sections p)) (view_stamp view)
        (length (qp_canonical_sections p)) (qp_plan_hash p))"
    using w by (simp add: query_execute_def query_walk_def guard_none)
  with True w show ?thesis
    by (simp add: query_execute_guarded_def query_walk_guarded_def guard_check_def)
next
  case False
  with assms(1) show ?thesis
    by (auto simp: planner_plan_Inr query_execute_def query_walk_def query_execute_guarded_def
        query_walk_guarded_def bind_cut_def same_cut_def)
qed

theorem planned_query_executes_witness:
  "\<exists>p o1. planner_plan sample_planner sample_query query_view sample_capable = Inr p \<and>
     query_execute p query_view = Inr o1 \<and> qv_missing_states (qo_evidence o1) = qo_items o1 \<and> qo_items o1 \<noteq> []"
proof -
  obtain p where p: "planner_plan sample_planner sample_query query_view sample_capable = Inr p"
    using sample_plan_exists [of sample_capable] by (auto simp: sample_capable_def)
  have "qn_max_sections sample_planner \<le> usize_max" by (simp add: sample_planner_def)
  note e = planned_query_executes [OF p this, of query_view "\<lambda>_ _. Inr ()"]
  have seen: "section_seen query_view sid = \<lparr>sa_section_id = sid, sa_presence = ''Unchanged'', sa_schema_id = None\<rparr>" for sid
    by (simp add: section_seen_def sample_root_def published_root_new_def)
  have "set (qp_canonical_sections p) = set (vq_section_ids sample_query)"
    using p by (auto simp: planner_plan_Inr canonicalize_Inr(1))
  then have "qp_canonical_sections p \<noteq> []" by (auto simp: sample_query_def)
  with e p show ?thesis by (simp add: same_cut_def assemble_def seen comp_def)
qed

end
