(* ===== verification/BlockRead.thy ===== *)
theory BlockRead
  imports Query
begin

text \<open>
  Gameplay block reads over an immutable view (ops crate, \<open>query/block_read.rs\<close>): single cells,
  inclusive boxes and columns, as owned segments or into buffers of the caller, each admitted or
  refused as a whole.

  Block coordinates are \<open>i32\<close> words for x and z and an \<open>int\<close> in the \<open>i64\<close> range for y. The
  callbacks of a visit are functions on a state of the caller. A visit is \<open>None\<close> where the code's
  \<open>expect\<close> would panic, which never happens after the preflight. A slot the caller provides
  (\<open>&mut [T]\<close>, \<open>&mut Option<T>\<close>) is an argument returned updated.
\<close>

section \<open>Coordinates and admission\<close>

type_synonym cell_pos = "i32 \<times> int \<times> i32"

definition inclusive_axis_len :: "int \<Rightarrow> int \<Rightarrow> query_error + nat" where
  "inclusive_axis_len a b =
     ok_or (qe_contract ''read_budget_exceeded'')
       (if \<not> i64_in_range (b - a) \<or> \<not> i64_in_range (b - a + 1) then None
        else if b - a + 1 < 0 then None else Some (nat (b - a + 1)))"

definition usize_checked_mul :: "nat \<Rightarrow> nat \<Rightarrow> nat option" where
  "usize_checked_mul a b = (if a * b \<le> usize_max then Some (a * b) else None)"

definition admit_budget :: "nat \<Rightarrow> query_error + unit" where
  "admit_budget requested =
     (if requested > MAX_CELLS_PER_READ_REQUEST then Inl (qe_contract ''read_budget_exceeded'') else Inr ())"

definition box_cell_count :: "cell_pos \<Rightarrow> cell_pos \<Rightarrow> query_error + nat" where
  "box_cell_count lo hi =
     (let (min_x, min_y, min_z) = lo; (max_x, max_y, max_z) = hi in
      if sint min_x > sint max_x \<or> min_y > max_y \<or> sint min_z > sint max_z then Inl qe_invalid_handle
      else rbind (map_err qe_from_world_y (world_y_new min_y)) (\<lambda>_.
        rbind (map_err qe_from_world_y (world_y_new max_y)) (\<lambda>_.
        rbind (inclusive_axis_len (sint min_x) (sint max_x)) (\<lambda>width.
        rbind (inclusive_axis_len min_y max_y) (\<lambda>height.
        rbind (inclusive_axis_len (sint min_z) (sint max_z)) (\<lambda>depth.
        ok_or (qe_contract ''read_budget_exceeded'')
          (Option.bind (usize_checked_mul width height) (\<lambda>v. usize_checked_mul v depth))))))))"

datatype column_y_range = ColumnYRange (cy_start: int) (cy_end: int)

definition column_len :: "column_y_range \<Rightarrow> query_error + nat" where
  "column_len r =
     (if cy_start r > cy_end r then Inl qe_invalid_handle
      else if cy_start r < WORLD_Y_MIN then Inl (qe_from_world_y (projl (world_y_new (cy_start r))))
      else if cy_end r > WORLD_Y_MAX then Inl (qe_from_world_y (projl (world_y_new (cy_end r))))
      else let len = nat (cy_end r - cy_start r + 1) in
           rbind (admit_budget len) (\<lambda>_. Inr len))"

text \<open>The iterators of the code: y outermost, then z, then x, each inclusive.\<close>

definition i32_range :: "i32 \<Rightarrow> i32 \<Rightarrow> i32 list" where
  "i32_range a b = map of_int [sint a..sint b]"

definition box_cells :: "cell_pos \<Rightarrow> cell_pos \<Rightarrow> cell_pos list" where
  "box_cells lo hi =
     (let (min_x, min_y, min_z) = lo; (max_x, max_y, max_z) = hi in
      concat (map (\<lambda>y. concat (map (\<lambda>z. map (\<lambda>x. (x, y, z)) (i32_range min_x max_x))
        (i32_range min_z max_z))) [min_y..max_y]))"

definition column_cells :: "i32 \<Rightarrow> i32 \<Rightarrow> column_y_range \<Rightarrow> cell_pos list" where
  "column_cells x z r = map (\<lambda>y. (x, y, z)) [cy_start r..cy_end r]"

section \<open>The read source\<close>

record block_read_section =
  bq_presence :: string
  bq_revision :: u64
  bq_storage :: "storage_state option"

definition read_intern_presence :: "string \<Rightarrow> string" where
  "read_intern_presence nm = the (intern_presence nm)"

definition ready_section :: "u64 \<Rightarrow> storage_state \<Rightarrow> block_read_section" where
  "ready_section revision storage =
     \<lparr>bq_presence = read_intern_presence ''Ready'', bq_revision = revision, bq_storage = Some storage\<rparr>"

definition unchanged_section :: "u64 \<Rightarrow> storage_state \<Rightarrow> block_read_section" where
  "unchanged_section revision storage =
     \<lparr>bq_presence = read_intern_presence ''Unchanged'', bq_revision = revision, bq_storage = Some storage\<rparr>"

definition pending_section :: "u64 \<Rightarrow> block_read_section" where
  "pending_section revision =
     \<lparr>bq_presence = read_intern_presence ''Pending'', bq_revision = revision, bq_storage = None\<rparr>"

definition unavailable_section :: "u64 \<Rightarrow> block_read_section" where
  "unavailable_section revision =
     \<lparr>bq_presence = read_intern_presence ''Unavailable'', bq_revision = revision, bq_storage = None\<rparr>"

definition section_from_parts ::
    "string \<Rightarrow> u64 option \<Rightarrow> storage_state option \<Rightarrow> query_error + block_read_section" where
  "section_from_parts presence revision storage =
     rbind (ok_or (qe_contract ''cell_read_missing_presence'') (intern_presence presence)) (\<lambda>presence.
     rbind (ok_or (qe_contract ''read_result_missing_revision'') revision) (\<lambda>revision.
     if (presence = ''Ready'' \<or> presence = ''Unchanged'') \<and> storage \<noteq> None \<or>
        (presence = ''Pending'' \<or> presence = ''Unavailable'') \<and> storage = None
     then Inr \<lparr>bq_presence = presence, bq_revision = revision, bq_storage = storage\<rparr>
     else Inl qe_invalid_handle))"

type_synonym block_read_world = "(section_id, block_read_section) fmap"

definition read_world_insert ::
    "string \<Rightarrow> block_read_section \<Rightarrow> block_read_world \<Rightarrow> query_error + block_read_world" where
  "read_world_insert sid section w =
     rbind (map_err qe_from_key (section_id_parse sid)) (\<lambda>i.
     if fm_has w i then Inl qe_invalid_handle else Inr (fmupd i section w))"

definition read_world_with_section ::
    "block_read_world \<Rightarrow> string \<Rightarrow> block_read_section \<Rightarrow> query_error + block_read_world" where
  "read_world_with_section w sid section = rbind (read_world_insert sid section w) Inr"

definition read_world_from_sections ::
    "(string \<times> block_read_section) list \<Rightarrow> query_error + block_read_world" where
  "read_world_from_sections sections = rfold (\<lambda>(sid, s). read_world_insert sid s) sections fmempty"

definition read_world_section :: "block_read_world \<Rightarrow> string \<Rightarrow> query_error + block_read_section option" where
  "read_world_section w sid =
     rbind (map_err qe_from_key (section_id_parse sid)) (\<lambda>i. Inr (fmlookup w i))"

definition materialize_section ::
    "revision_stamp \<Rightarrow> (section_id \<Rightarrow> storage_state option) \<Rightarrow> section_id \<times> section_slot \<Rightarrow>
     block_read_world \<Rightarrow> query_error + block_read_world" where
  "materialize_section stamp baseline e w =
     (let (i, slot) = e; key = section_id_key i;
          revision = (case fmlookup (rs_section_revision_set stamp) key of
                        Some r \<Rightarrow> r | None \<Rightarrow> rs_world_revision stamp)
      in rbind (map_err (\<lambda>_. qe_contract SECTION_ENCODING_MISMATCH)
           (if slot_presence slot = ''Ready''
            then section_from_parts ''Ready'' (Some revision) (Option.bind (slot_payload slot) pl_storage)
            else if slot_presence slot = ''Unchanged''
            then section_from_parts ''Unchanged'' (Some revision) (baseline i)
            else if slot_presence slot = ''Pending'' then section_from_parts ''Pending'' (Some revision) None
            else if slot_presence slot = ''Unavailable''
            then section_from_parts ''Unavailable'' (Some revision) None
            else Inl qe_invalid_handle)) (\<lambda>section.
         read_world_insert key section w))"

definition from_published_view_with_baseline ::
    "published_read_view \<Rightarrow> (section_id \<Rightarrow> storage_state option) \<Rightarrow> query_error + block_read_world" where
  "from_published_view_with_baseline view baseline =
     rfold (materialize_section (view_stamp view) baseline) (fm_entries (ps_directory (rv_root view))) fmempty"

definition from_published_view :: "published_read_view \<Rightarrow> query_error + block_read_world" where
  "from_published_view view = from_published_view_with_baseline view (\<lambda>_. None)"

section \<open>One cell\<close>

record read_cell =
  rc_offset :: cell_offset
  rc_block_id :: "block_id option"

definition div_euclid_16 :: "i32 \<Rightarrow> i32" where
  "div_euclid_16 x = of_int (sint x div 16)"

definition cell_at_section ::
    "block_read_world \<Rightarrow> cell_pos \<Rightarrow> query_error + section_id \<times> string \<times> u64 \<times> read_cell" where
  "cell_at_section w c =
     (let (x, y, z) = c in
      rbind (map_err qe_from_world_y (world_y_new y)) (\<lambda>wy.
      rbind (map_err qe_from_key
               (section_id_new (div_euclid_16 x) (int (unat (world_y_section_y wy))) (div_euclid_16 z))) (\<lambda>i.
      let offset = cell_offset_from_world x wy z in
      rbind (case fmlookup w i of
               Some s \<Rightarrow>
                 rbind (case bq_storage s of
                          Some storage \<Rightarrow>
                            if bq_presence s = ''Ready'' \<or> bq_presence s = ''Unchanged''
                            then Inr (Some (storage_read storage offset)) else Inl qe_invalid_handle
                        | None \<Rightarrow> Inr None)
                   (\<lambda>b. Inr (bq_presence s, bq_revision s, b))
             | None \<Rightarrow> Inr (read_intern_presence ''Unavailable'', 0, None)) (\<lambda>(presence, revision, b).
      Inr (i, presence, revision, \<lparr>rc_offset = offset, rc_block_id = b\<rparr>)))))"

definition cell_at ::
    "block_read_world \<Rightarrow> cell_pos \<Rightarrow> query_error + string \<times> string \<times> u64 \<times> read_cell" where
  "cell_at w c = rbind (cell_at_section w c) (\<lambda>(i, presence, revision, cell).
     Inr (section_id_key i, presence, revision, cell))"

record cell_read_result =
  cr_section_id :: string
  cr_presence :: string
  cr_section_revision :: u64
  cr_cell :: read_cell

text \<open>The coordinates of \<open>read_cell\<close> are any integers that may convert to \<open>i32\<close> and \<open>i64\<close>.\<close>

definition i32_try_from :: "int \<Rightarrow> i32 option" where
  "i32_try_from v = (if - (2 ^ 31) \<le> v \<and> v < 2 ^ 31 then Some (of_int v) else None)"

definition i64_try_from :: "int \<Rightarrow> int option" where
  "i64_try_from v = (if i64_in_range v then Some v else None)"

definition read_one_cell :: "block_read_world \<Rightarrow> int \<Rightarrow> int \<Rightarrow> int \<Rightarrow> query_error + cell_read_result" where
  "read_one_cell w x y z =
     rbind (ok_or qe_invalid_handle (i32_try_from x)) (\<lambda>x.
     rbind (ok_or (qe_from_world_y (projl (world_y_new 256))) (i64_try_from y)) (\<lambda>y.
     rbind (ok_or qe_invalid_handle (i32_try_from z)) (\<lambda>z.
     rbind (admit_budget 1) (\<lambda>_.
     rbind (cell_at w (x, y, z)) (\<lambda>(sid, presence, revision, cell).
     Inr \<lparr>cr_section_id = sid, cr_presence = presence, cr_section_revision = revision, cr_cell = cell\<rparr>)))))"

definition cell_guard :: "presence_guard \<Rightarrow> cell_read_result \<Rightarrow> query_error + unit" where
  "cell_guard g r = map_err qe_contract (g (cr_section_id r) (cr_presence r))"

definition read_one_cell_guarded ::
    "block_read_world \<Rightarrow> int \<Rightarrow> int \<Rightarrow> int \<Rightarrow> presence_guard \<Rightarrow> query_error + cell_read_result" where
  "read_one_cell_guarded w x y z g =
     rbind (read_one_cell w x y z) (\<lambda>r. rbind (cell_guard g r) (\<lambda>_. Inr r))"

definition read_one_cell_into ::
    "block_read_world \<Rightarrow> int \<Rightarrow> int \<Rightarrow> int \<Rightarrow> block_id option \<Rightarrow>
     (query_error + cell_read_result) \<times> block_id option" where
  "read_one_cell_into w x y z slot =
     (case read_one_cell w x y z of
        Inl e \<Rightarrow> (Inl e, slot) | Inr r \<Rightarrow> (Inr r, rc_block_id (cr_cell r)))"

definition read_one_cell_into_guarded ::
    "block_read_world \<Rightarrow> int \<Rightarrow> int \<Rightarrow> int \<Rightarrow> block_id option \<Rightarrow> presence_guard \<Rightarrow>
     (query_error + cell_read_result) \<times> block_id option" where
  "read_one_cell_into_guarded w x y z slot g =
     (case rbind (read_one_cell w x y z) (\<lambda>r. rbind (cell_guard g r) (\<lambda>_. Inr r)) of
        Inl e \<Rightarrow> (Inl e, slot) | Inr r \<Rightarrow> (Inr r, rc_block_id (cr_cell r)))"

section \<open>Boxes and columns as segments\<close>

record read_segment =
  sg_section_id :: string
  sg_presence :: string
  sg_section_revision :: u64
  sg_cells :: "read_cell list"
  sg_block_ids :: "block_id list option"

text \<open>\<open>SegmentBuilder\<close> has the fields of the segment it finishes into.\<close>

record segment_builder =
  sb_section_id :: string
  sb_presence :: string
  sb_section_revision :: u64
  sb_cells :: "read_cell list"
  sb_block_ids :: "block_id list option"

definition builder_new :: "string \<Rightarrow> string \<Rightarrow> u64 \<Rightarrow> bool \<Rightarrow> segment_builder" where
  "builder_new sid presence revision resolved =
     \<lparr>sb_section_id = sid, sb_presence = presence, sb_section_revision = revision, sb_cells = [],
      sb_block_ids = (if resolved then Some [] else None)\<rparr>"

definition builder_push :: "read_cell \<Rightarrow> segment_builder \<Rightarrow> segment_builder" where
  "builder_push cell b =
     b\<lparr>sb_block_ids :=
          (case (sb_block_ids b, rc_block_id cell) of
             (Some ids, Some i) \<Rightarrow> Some (ids @ [i]) | (ids, _) \<Rightarrow> ids),
       sb_cells := sb_cells b @ [cell]\<rparr>"

definition builder_finish :: "segment_builder \<Rightarrow> read_segment" where
  "builder_finish b =
     \<lparr>sg_section_id = sb_section_id b, sg_presence = sb_presence b,
      sg_section_revision = sb_section_revision b, sg_cells = sb_cells b, sg_block_ids = sb_block_ids b\<rparr>"

definition segment_resolved :: "read_segment \<Rightarrow> bool" where
  "segment_resolved s \<longleftrightarrow> sg_block_ids s \<noteq> None"

record block_read_result =
  bx_segments :: "read_segment list"
  bx_cell_count :: nat

definition result_fully_resolved :: "block_read_result \<Rightarrow> bool" where
  "result_fully_resolved r \<longleftrightarrow> list_all segment_resolved (bx_segments r)"

definition result_section_revisions :: "block_read_result \<Rightarrow> (string \<times> u64) list" where
  "result_section_revisions r = map (\<lambda>s. (sg_section_id s, sg_section_revision s)) (bx_segments r)"

definition result_guard :: "presence_guard \<Rightarrow> block_read_result \<Rightarrow> query_error + unit" where
  "result_guard g r = rfold (\<lambda>s u. map_err qe_contract (g (sg_section_id s) (sg_presence s))) (bx_segments r) ()"

definition read_step ::
    "block_read_world \<Rightarrow> cell_pos \<Rightarrow> segment_builder list \<times> (string, nat) fmap \<Rightarrow>
     query_error + segment_builder list \<times> (string, nat) fmap" where
  "read_step w c st =
     (let (segments, indexes) = st in
      rbind (cell_at w c) (\<lambda>(sid, presence, revision, cell).
      let (index, segments, indexes) =
            (case fmlookup indexes sid of
               Some i \<Rightarrow> (i, segments, indexes)
             | None \<Rightarrow> (length segments,
                 segments @ [builder_new sid presence revision (rc_block_id cell \<noteq> None)],
                 fmupd sid (length segments) indexes))
      in if sb_presence (segments ! index) \<noteq> presence \<or> sb_section_revision (segments ! index) \<noteq> revision
         then Inl qe_invalid_handle
         else Inr (segments[index := builder_push cell (segments ! index)], indexes)))"

definition read_cells :: "block_read_world \<Rightarrow> cell_pos list \<Rightarrow> nat \<Rightarrow> query_error + block_read_result" where
  "read_cells w cells requested =
     rbind (admit_budget requested) (\<lambda>_.
     rbind (rfold (read_step w) cells ([], fmempty)) (\<lambda>(segments, indexes).
     Inr \<lparr>bx_segments = map builder_finish segments, bx_cell_count = requested\<rparr>))"

definition read_box :: "block_read_world \<Rightarrow> cell_pos \<Rightarrow> cell_pos \<Rightarrow> query_error + block_read_result" where
  "read_box w lo hi = rbind (box_cell_count lo hi) (read_cells w (box_cells lo hi))"

definition read_column ::
    "block_read_world \<Rightarrow> i32 \<Rightarrow> i32 \<Rightarrow> column_y_range \<Rightarrow> query_error + block_read_result" where
  "read_column w x z r = rbind (column_len r) (read_cells w (column_cells x z r))"

definition read_box_guarded ::
    "block_read_world \<Rightarrow> cell_pos \<Rightarrow> cell_pos \<Rightarrow> presence_guard \<Rightarrow> query_error + block_read_result" where
  "read_box_guarded w lo hi g = rbind (read_box w lo hi) (\<lambda>r. rbind (result_guard g r) (\<lambda>_. Inr r))"

definition read_column_guarded ::
    "block_read_world \<Rightarrow> i32 \<Rightarrow> i32 \<Rightarrow> column_y_range \<Rightarrow> presence_guard \<Rightarrow> query_error + block_read_result" where
  "read_column_guarded w x z r g = rbind (read_column w x z r) (\<lambda>q. rbind (result_guard g q) (\<lambda>_. Inr q))"

section \<open>Boxes and columns visited cell by cell\<close>

record buffered_read_segment =
  bs_section_id :: section_id
  bs_presence :: string
  bs_section_revision :: u64
  bs_first_cell :: nat
  bs_cell_count :: nat

record buffered_read_cell =
  bc_section_id :: section_id
  bc_presence :: string
  bc_section_revision :: u64
  bc_cell :: read_cell

record buffered_read_summary =
  bm_cell_count :: nat
  bm_segment_count :: nat
  bm_fully_resolved :: bool

definition preflight_step ::
    "block_read_world \<Rightarrow> cell_pos \<Rightarrow> nat \<times> (section_id \<times> string \<times> u64) option \<times> bool \<Rightarrow>
     query_error + nat \<times> (section_id \<times> string \<times> u64) option \<times> bool" where
  "preflight_step w c st =
     (let (segment_count, previous, resolved) = st in
      rbind (cell_at_section w c) (\<lambda>(i, presence, revision, cell).
      let key = (i, presence, revision) in
      rbind (if previous \<noteq> Some key
             then rbind (ok_or qe_invalid_handle (usize_checked_add segment_count 1)) (\<lambda>n. Inr (n, Some key))
             else Inr (segment_count, previous)) (\<lambda>(segment_count, previous).
      Inr (segment_count, previous, resolved \<and> rc_block_id cell \<noteq> None))))"

definition preflight_cells ::
    "block_read_world \<Rightarrow> cell_pos list \<Rightarrow> nat \<Rightarrow> query_error + buffered_read_summary" where
  "preflight_cells w cells requested =
     rbind (admit_budget requested) (\<lambda>_.
     rbind (rfold (preflight_step w) cells (0, None, True)) (\<lambda>(segment_count, previous, resolved).
     Inr \<lparr>bm_cell_count = requested, bm_segment_count = segment_count, bm_fully_resolved = resolved\<rparr>))"

definition visit_step ::
    "block_read_world \<Rightarrow> (nat \<Rightarrow> buffered_read_cell \<Rightarrow> 's \<Rightarrow> 's) \<Rightarrow> (nat \<Rightarrow> buffered_read_segment \<Rightarrow> 's \<Rightarrow> 's) \<Rightarrow>
     nat \<times> cell_pos \<Rightarrow> buffered_read_segment option \<times> nat \<times> 's \<Rightarrow>
     query_error + buffered_read_segment option \<times> nat \<times> 's" where
  "visit_step w on_cell on_segment e st =
     (let (position, c) = e; (current, segment_index, s) = st in
      rbind (cell_at_section w c) (\<lambda>(i, presence, revision, cell).
      let s = on_cell position \<lparr>bc_section_id = i, bc_presence = presence, bc_section_revision = revision,
                bc_cell = cell\<rparr> s
      in case current of
           Some g \<Rightarrow>
             if bs_section_id g = i \<and> bs_presence g = presence \<and> bs_section_revision g = revision
             then Inr (Some (g\<lparr>bs_cell_count := bs_cell_count g + 1\<rparr>), segment_index, s)
             else Inr (Some \<lparr>bs_section_id = i, bs_presence = presence, bs_section_revision = revision,
                         bs_first_cell = position, bs_cell_count = 1\<rparr>,
                       segment_index + 1, on_segment segment_index g s)
         | None \<Rightarrow> Inr (Some \<lparr>bs_section_id = i, bs_presence = presence, bs_section_revision = revision,
                         bs_first_cell = position, bs_cell_count = 1\<rparr>, segment_index, s)))"

definition visit_after_preflight ::
    "block_read_world \<Rightarrow> cell_pos list \<Rightarrow> (nat \<Rightarrow> buffered_read_cell \<Rightarrow> 's \<Rightarrow> 's) \<Rightarrow>
     (nat \<Rightarrow> buffered_read_segment \<Rightarrow> 's \<Rightarrow> 's) \<Rightarrow> 's \<Rightarrow> 's option" where
  "visit_after_preflight w cells on_cell on_segment s =
     (case rfold (visit_step w on_cell on_segment) (enumerate 0 cells) (None, 0, s) of
        Inl e \<Rightarrow> None
      | Inr (Some g, segment_index, s) \<Rightarrow> Some (on_segment segment_index g s)
      | Inr (None, segment_index, s) \<Rightarrow> Some s)"

definition visit_cells ::
    "block_read_world \<Rightarrow> cell_pos list \<Rightarrow> nat \<Rightarrow> (nat \<Rightarrow> buffered_read_cell \<Rightarrow> 's \<Rightarrow> 's) \<Rightarrow>
     (nat \<Rightarrow> buffered_read_segment \<Rightarrow> 's \<Rightarrow> 's) \<Rightarrow> 's \<Rightarrow> ((query_error + buffered_read_summary) \<times> 's) option" where
  "visit_cells w cells requested on_cell on_segment s =
     (case preflight_cells w cells requested of
        Inl e \<Rightarrow> Some (Inl e, s)
      | Inr summary \<Rightarrow> map_option (Pair (Inr summary)) (visit_after_preflight w cells on_cell on_segment s))"

definition visit_box ::
    "block_read_world \<Rightarrow> cell_pos \<Rightarrow> cell_pos \<Rightarrow> (nat \<Rightarrow> buffered_read_cell \<Rightarrow> 's \<Rightarrow> 's) \<Rightarrow>
     (nat \<Rightarrow> buffered_read_segment \<Rightarrow> 's \<Rightarrow> 's) \<Rightarrow> 's \<Rightarrow> ((query_error + buffered_read_summary) \<times> 's) option" where
  "visit_box w lo hi on_cell on_segment s =
     (case box_cell_count lo hi of
        Inl e \<Rightarrow> Some (Inl e, s)
      | Inr n \<Rightarrow> visit_cells w (box_cells lo hi) n on_cell on_segment s)"

definition visit_column ::
    "block_read_world \<Rightarrow> i32 \<Rightarrow> i32 \<Rightarrow> column_y_range \<Rightarrow> (nat \<Rightarrow> buffered_read_cell \<Rightarrow> 's \<Rightarrow> 's) \<Rightarrow>
     (nat \<Rightarrow> buffered_read_segment \<Rightarrow> 's \<Rightarrow> 's) \<Rightarrow> 's \<Rightarrow> ((query_error + buffered_read_summary) \<times> 's) option" where
  "visit_column w x z r on_cell on_segment s =
     (case column_len r of
        Inl e \<Rightarrow> Some (Inl e, s)
      | Inr n \<Rightarrow> visit_cells w (column_cells x z r) n on_cell on_segment s)"

definition visit_box_guarded ::
    "block_read_world \<Rightarrow> cell_pos \<Rightarrow> cell_pos \<Rightarrow> (nat \<Rightarrow> buffered_read_cell \<Rightarrow> 's \<Rightarrow> 's) \<Rightarrow>
     (nat \<Rightarrow> buffered_read_segment \<Rightarrow> 's \<Rightarrow> 's) \<Rightarrow> presence_guard \<Rightarrow> 's \<Rightarrow>
     ((query_error + buffered_read_summary) \<times> 's) option" where
  "visit_box_guarded w lo hi on_cell on_segment g s =
     (case rbind (read_box w lo hi) (result_guard g) of
        Inl e \<Rightarrow> Some (Inl e, s) | Inr _ \<Rightarrow> visit_box w lo hi on_cell on_segment s)"

definition visit_column_guarded ::
    "block_read_world \<Rightarrow> i32 \<Rightarrow> i32 \<Rightarrow> column_y_range \<Rightarrow> (nat \<Rightarrow> buffered_read_cell \<Rightarrow> 's \<Rightarrow> 's) \<Rightarrow>
     (nat \<Rightarrow> buffered_read_segment \<Rightarrow> 's \<Rightarrow> 's) \<Rightarrow> presence_guard \<Rightarrow> 's \<Rightarrow>
     ((query_error + buffered_read_summary) \<times> 's) option" where
  "visit_column_guarded w x z r on_cell on_segment g s =
     (case rbind (read_column w x z r) (result_guard g) of
        Inl e \<Rightarrow> Some (Inl e, s) | Inr _ \<Rightarrow> visit_column w x z r on_cell on_segment s)"

section \<open>Reads into buffers of the caller\<close>

type_synonym read_buffers = "block_id option list \<times> buffered_read_segment option list"

definition put_cell :: "nat \<Rightarrow> buffered_read_cell \<Rightarrow> read_buffers \<Rightarrow> read_buffers" where
  "put_cell index cell b = ((fst b)[index := rc_block_id (bc_cell cell)], snd b)"

definition put_segment :: "nat \<Rightarrow> buffered_read_segment \<Rightarrow> read_buffers \<Rightarrow> read_buffers" where
  "put_segment index segment b = (fst b, (snd b)[index := Some segment])"

definition read_cells_into ::
    "block_read_world \<Rightarrow> cell_pos list \<Rightarrow> nat \<Rightarrow> read_buffers \<Rightarrow>
     ((query_error + buffered_read_summary) \<times> read_buffers) option" where
  "read_cells_into w cells requested b =
     (case preflight_cells w cells requested of
        Inl e \<Rightarrow> Some (Inl e, b)
      | Inr summary \<Rightarrow>
          if length (fst b) \<noteq> requested then Some (Inl qe_invalid_handle, b)
          else if length (snd b) < bm_segment_count summary then Some (Inl qe_invalid_handle, b)
          else map_option (Pair (Inr summary)) (visit_after_preflight w cells put_cell put_segment b))"

definition read_box_into ::
    "block_read_world \<Rightarrow> cell_pos \<Rightarrow> cell_pos \<Rightarrow> read_buffers \<Rightarrow>
     ((query_error + buffered_read_summary) \<times> read_buffers) option" where
  "read_box_into w lo hi b =
     (case box_cell_count lo hi of
        Inl e \<Rightarrow> Some (Inl e, b) | Inr n \<Rightarrow> read_cells_into w (box_cells lo hi) n b)"

definition read_column_into ::
    "block_read_world \<Rightarrow> i32 \<Rightarrow> i32 \<Rightarrow> column_y_range \<Rightarrow> read_buffers \<Rightarrow>
     ((query_error + buffered_read_summary) \<times> read_buffers) option" where
  "read_column_into w x z r b =
     (case column_len r of
        Inl e \<Rightarrow> Some (Inl e, b) | Inr n \<Rightarrow> read_cells_into w (column_cells x z r) n b)"

definition read_box_into_guarded ::
    "block_read_world \<Rightarrow> cell_pos \<Rightarrow> cell_pos \<Rightarrow> read_buffers \<Rightarrow> presence_guard \<Rightarrow>
     ((query_error + buffered_read_summary) \<times> read_buffers) option" where
  "read_box_into_guarded w lo hi b g =
     (case rbind (read_box w lo hi) (result_guard g) of
        Inl e \<Rightarrow> Some (Inl e, b) | Inr _ \<Rightarrow> read_box_into w lo hi b)"

definition read_column_into_guarded ::
    "block_read_world \<Rightarrow> i32 \<Rightarrow> i32 \<Rightarrow> column_y_range \<Rightarrow> read_buffers \<Rightarrow> presence_guard \<Rightarrow>
     ((query_error + buffered_read_summary) \<times> read_buffers) option" where
  "read_column_into_guarded w x z r b g =
     (case rbind (read_column w x z r) (result_guard g) of
        Inl e \<Rightarrow> Some (Inl e, b) | Inr _ \<Rightarrow> read_column_into w x z r b)"

end
