(* ===== verification/Reads.thy ===== *)
theory Reads
  imports BlockRead
begin

text \<open>
  What block reads observe: the meaning of a cell in a read source, the regions the iterators
  enumerate, the grouping into segments, and the buffered reads as one pass of runs. The
  properties are about whole requests: which are admitted, and what an admitted one returns.
\<close>

section \<open>Read sources\<close>

text \<open>The sources that constructors and \<open>insert\<close> build: storage exactly where there is content.\<close>

definition read_section_ok :: "block_read_section \<Rightarrow> bool" where
  "read_section_ok s \<longleftrightarrow>
     (if bq_storage s = None then bq_presence s \<in> {''Pending'', ''Unavailable''}
      else bq_presence s \<in> {''Ready'', ''Unchanged''})"

definition read_world_ok :: "block_read_world \<Rightarrow> bool" where
  "read_world_ok w \<longleftrightarrow> (\<forall>i s. fmlookup w i = Some s \<longrightarrow> section_id_wf i \<and> read_section_ok s)"

lemma intern_presence_Some: "intern_presence nm = Some p \<longleftrightarrow> p = nm \<and> nm \<in> set SECTION_PRESENCE"
  by (auto simp: intern_presence_def SECTION_PRESENCE_def)

lemma section_constructors_ok:
  "read_section_ok (ready_section r s)" "read_section_ok (unchanged_section r s)"
  "read_section_ok (pending_section r)" "read_section_ok (unavailable_section r)"
  by (simp_all add: read_section_ok_def ready_section_def unchanged_section_def pending_section_def
      unavailable_section_def read_intern_presence_def intern_presence_def SECTION_PRESENCE_def)

lemma section_from_parts_Inr:
  "section_from_parts p r st = Inr sec \<longleftrightarrow>
     (\<exists>revision. r = Some revision \<and> sec = \<lparr>bq_presence = p, bq_revision = revision, bq_storage = st\<rparr>) \<and>
     (if st = None then p \<in> {''Pending'', ''Unavailable''} else p \<in> {''Ready'', ''Unchanged''})"
  by (cases "p \<in> set SECTION_PRESENCE"; cases r; cases st)
    (auto simp: section_from_parts_def ok_or_def intern_presence_def SECTION_PRESENCE_def)

lemma section_from_parts_ok: "section_from_parts p r st = Inr sec \<Longrightarrow> read_section_ok sec"
  by (auto simp: section_from_parts_Inr read_section_ok_def)

lemma section_parse_wf: "section_id_parse sid = Inr i \<longleftrightarrow> section_id_wf i \<and> sid = section_id_key i"
  by (rule section_codec.decode_iff)

lemma read_world_insert_ok:
  "read_world_insert sid s w = Inr w' \<Longrightarrow> read_section_ok s \<Longrightarrow> read_world_ok w \<Longrightarrow> read_world_ok w'"
  by (auto simp: read_world_insert_def rbind_eq_Inr map_err_eq_Inr section_parse_wf read_world_ok_def
      split: if_splits)

lemma materialize_section_ok:
  "materialize_section stamp baseline e w = Inr w' \<Longrightarrow> read_world_ok w \<Longrightarrow> read_world_ok w'"
  by (cases e) (auto simp: materialize_section_def Let_def rbind_eq_Inr map_err_eq_Inr split: if_splits
      intro: read_world_insert_ok section_from_parts_ok)

lemma from_published_view_ok: "from_published_view_with_baseline view baseline = Inr w \<Longrightarrow> read_world_ok w"
  unfolding from_published_view_with_baseline_def
  by (erule rfold_invariant [where P = read_world_ok])
    (simp add: read_world_ok_def, rule materialize_section_ok)

section \<open>The meaning of a cell\<close>

definition cell_section :: "cell_pos \<Rightarrow> section_id" where
  "cell_section c = (let (x, y, z) = c in
     SectionId (div_euclid_16 x) (world_y_section_y (WorldY (of_int y))) (div_euclid_16 z))"

definition cell_offset_of :: "cell_pos \<Rightarrow> cell_offset" where
  "cell_offset_of c = (let (x, y, z) = c in cell_offset_from_world x (WorldY (of_int y)) z)"

definition cell_y_ok :: "cell_pos \<Rightarrow> bool" where
  "cell_y_ok c \<longleftrightarrow> WORLD_Y_MIN \<le> fst (snd c) \<and> fst (snd c) \<le> WORLD_Y_MAX"

definition seen_presence :: "block_read_world \<Rightarrow> section_id \<Rightarrow> string" where
  "seen_presence w i = (case fmlookup w i of Some s \<Rightarrow> bq_presence s | None \<Rightarrow> ''Unavailable'')"

definition seen_revision :: "block_read_world \<Rightarrow> section_id \<Rightarrow> u64" where
  "seen_revision w i = (case fmlookup w i of Some s \<Rightarrow> bq_revision s | None \<Rightarrow> 0)"

definition seen_storage :: "block_read_world \<Rightarrow> section_id \<Rightarrow> storage_state option" where
  "seen_storage w i = Option.bind (fmlookup w i) bq_storage"

definition cell_block :: "block_read_world \<Rightarrow> cell_pos \<Rightarrow> block_id option" where
  "cell_block w c = map_option (\<lambda>s. storage_read s (cell_offset_of c)) (seen_storage w (cell_section c))"

definition cell_seen :: "block_read_world \<Rightarrow> cell_pos \<Rightarrow> read_cell" where
  "cell_seen w c = \<lparr>rc_offset = cell_offset_of c, rc_block_id = cell_block w c\<rparr>"

definition section_seen_as :: "block_read_world \<Rightarrow> section_id \<Rightarrow> section_id \<times> string \<times> u64" where
  "section_seen_as w i = (i, seen_presence w i, seen_revision w i)"

lemma rc_seen [simp]: "rc_offset (cell_seen w c) = cell_offset_of c" "rc_block_id (cell_seen w c) = cell_block w c"
  by (simp_all add: cell_seen_def)

lemma section_y_le: "unat (world_y_section_y wy) \<le> 15"
proof -
  have "unat (world_y_section_y wy) = unat (wy_value wy) div 16"
    unfolding world_y_section_y_def unat_drop_bit_eq by (simp add: drop_bit_eq_div)
  then show ?thesis using unsigned_less [of "wy_value wy", where 'a = nat] by simp
qed

lemma section_y_le_uint: "uint (world_y_section_y wy) \<le> 15"
  using section_y_le [of wy] unfolding uint_nat by linarith

lemma cell_section_wf: "section_id_wf (cell_section c)"
  by (simp add: cell_section_def section_id_wf_def section_y_le split: prod.split)

lemma cell_at_section_ok:
  assumes "read_world_ok w" "cell_y_ok c"
  shows "cell_at_section w c =
    Inr (cell_section c, seen_presence w (cell_section c), seen_revision w (cell_section c), cell_seen w c)"
proof -
  obtain x y z where c: "c = (x, y, z)" by (cases c)
  let ?wy = "WorldY (of_int y)"
  have y: "world_y_new y = Inr ?wy" using assms(2) by (simp add: c cell_y_ok_def world_y_new_def)
  have i: "section_id_new (div_euclid_16 x) (int (unat (world_y_section_y ?wy))) (div_euclid_16 z) = Inr (cell_section c)"
    using section_y_le_uint [of ?wy] by (simp add: section_id_new_def check_section_y_def c cell_section_def)
  show ?thesis
  proof (cases "fmlookup w (cell_section c)")
    case None
    with y i show ?thesis
      by (simp add: c cell_at_section_def cell_seen_def cell_block_def seen_presence_def seen_revision_def
          seen_storage_def cell_offset_of_def read_intern_presence_def intern_presence_def SECTION_PRESENCE_def)
  next
    case (Some s)
    with assms(1) have "read_section_ok s" by (simp add: read_world_ok_def)
    with Some y i show ?thesis
      by (cases "bq_storage s")
        (auto simp: c cell_at_section_def cell_seen_def cell_block_def seen_presence_def seen_revision_def
          seen_storage_def cell_offset_of_def read_section_ok_def Let_def)
  qed
qed

lemma cell_at_section_refused:
  "\<not> cell_y_ok c \<Longrightarrow> cell_at_section w c = Inl (qe_contract WORLD_Y_OUT_OF_RANGE)"
  by (cases c) (auto simp: cell_at_section_def cell_y_ok_def world_y_new_def qe_from_world_y_def)

lemma cell_at_ok:
  "read_world_ok w \<Longrightarrow> cell_y_ok c \<Longrightarrow> cell_at w c =
    Inr (section_id_key (cell_section c), seen_presence w (cell_section c), seen_revision w (cell_section c), cell_seen w c)"
  by (simp add: cell_at_def cell_at_section_ok)

text \<open>Inside one section the offset tells the cells apart.\<close>

lemma div_16_low_bits:
  assumes "sint x div 16 = sint x' div 16" "x AND 15 = x' AND (15 :: i32)"
  shows "x = x'"
proof -
  have low: "sint u mod 16 = int (unat (u AND 15))" for u :: i32
  proof -
    have "int (unat (u AND 15)) = uint (u AND 15)" by simp
    also have "\<dots> = take_bit 4 (uint u)" by (simp add: and_masks unsigned_take_bit_eq)
    also have "\<dots> = take_bit 4 (sint u)"
      by (simp add: sint_uint take_bit_signed_take_bit)
    finally show ?thesis by (simp add: take_bit_eq_mod)
  qed
  have "sint x = 16 * (sint x div 16) + sint x mod 16" by simp
  also have "\<dots> = 16 * (sint x' div 16) + sint x' mod 16" using assms by (simp only: low)
  also have "\<dots> = sint x'" by simp
  finally show ?thesis by simp
qed

lemma sint_div_euclid_16: "sint (div_euclid_16 x) = sint x div 16"
  using sint_i32_range [of x] by (simp add: div_euclid_16_def sint_of_int_i32)

lemma y_split:
  assumes "0 \<le> y" "y \<le> 255"
  shows "y = int (16 * unat (world_y_section_y (WorldY (of_int y))) + unat (world_y_cell_y (WorldY (of_int y))))"
proof -
  have u: "unat (of_int y :: u8) = nat y" using assms by (simp add: unat_of_int_u8)
  have "unat (world_y_section_y (WorldY (of_int y))) = nat y div 16"
    unfolding world_y_section_y_def unat_drop_bit_eq by (simp add: u drop_bit_eq_div)
  moreover have "unat (world_y_cell_y (WorldY (of_int y))) = nat y mod 16"
    unfolding world_y_cell_y_def and_masks unsigned_take_bit_eq by (simp add: u take_bit_eq_mod)
  ultimately show ?thesis using assms(1) by simp
qed

lemma cell_eqI:
  assumes "cell_y_ok c" "cell_y_ok d" "cell_section c = cell_section d" "cell_offset_of c = cell_offset_of d"
  shows "c = d"
proof -
  obtain x y z x' y' z' where cd: "c = (x, y, z)" "d = (x', y', z')" by (cases c; cases d)
  from assms(4) have off: "world_y_cell_y (WorldY (of_int y)) = world_y_cell_y (WorldY (of_int y'))"
    "(ucast (z AND 15) :: u8) = ucast (z' AND 15)" "(ucast (x AND 15) :: u8) = ucast (x' AND 15)"
    by (metis cd cell_offset_of_def case_prod_conv cell_offset_coordinates)+
  have low: "u AND 15 = v AND 15" if "(ucast (u AND 15) :: u8) = ucast (v AND 15)" for u v :: i32
  proof -
    have "ucast (ucast (w AND 15) :: u8) = w AND 15" for w :: i32
      unfolding and_masks by (rule bit_word_eqI) (auto simp: bit_simps)
    with that show ?thesis by metis
  qed
  from assms(3) have sec: "div_euclid_16 x = div_euclid_16 x'" "div_euclid_16 z = div_euclid_16 z'"
    "world_y_section_y (WorldY (of_int y)) = world_y_section_y (WorldY (of_int y'))"
    by (simp_all add: cd cell_section_def)
  have "sint x div 16 = sint x' div 16" "sint z div 16 = sint z' div 16"
    using sec(1,2) by (metis sint_div_euclid_16)+
  then have "x = x'" "z = z'" using low [OF off(3)] low [OF off(2)] by (blast intro: div_16_low_bits)+
  moreover have "y = y'"
    using y_split [of y] y_split [of y'] assms(1,2) sec(3) off(1) by (simp add: cd cell_y_ok_def)
  ultimately show ?thesis by (simp add: cd)
qed

section \<open>Regions\<close>

lemma set_i32_range: "x \<in> set (i32_range a b) \<longleftrightarrow> sint a \<le> sint x \<and> sint x \<le> sint b"
proof -
  have "x \<in> set (i32_range a b) \<longleftrightarrow> (\<exists>v. sint a \<le> v \<and> v \<le> sint b \<and> x = of_int v)"
    by (auto simp: i32_range_def)
  also have "\<dots> \<longleftrightarrow> sint a \<le> sint x \<and> sint x \<le> sint b"
    using sint_i32_range [of a] sint_i32_range [of b] by (force simp: sint_of_int_i32)
  finally show ?thesis .
qed

lemma distinct_i32_range: "distinct (i32_range a b)"
proof -
  have "inj_on (of_int :: int \<Rightarrow> i32) {sint a..sint b}"
    using sint_i32_range [of a] sint_i32_range [of b]
    by (intro inj_on_inverseI [where g = sint]) (simp add: sint_of_int_i32)
  then show ?thesis by (simp add: i32_range_def distinct_map)
qed

lemma length_i32_range: "length (i32_range a b) = nat (sint b - sint a + 1)"
  by (simp add: i32_range_def)

lemma set_box_cells:
  "(x, y, z) \<in> set (box_cells (x0, y0, z0) (x1, y1, z1)) \<longleftrightarrow>
     sint x0 \<le> sint x \<and> sint x \<le> sint x1 \<and> y0 \<le> y \<and> y \<le> y1 \<and> sint z0 \<le> sint z \<and> sint z \<le> sint z1"
proof -
  have "(x, y, z) \<in> set (box_cells (x0, y0, z0) (x1, y1, z1)) \<longleftrightarrow>
      x \<in> set (i32_range x0 x1) \<and> y \<in> {y0..y1} \<and> z \<in> set (i32_range z0 z1)"
    unfolding box_cells_def by (simp add: image_iff)
  then show ?thesis by (auto simp: set_i32_range)
qed

lemma length_concat_same: "(\<And>x. x \<in> set xs \<Longrightarrow> length (f x) = n) \<Longrightarrow> length (concat (map f xs)) = length xs * n"
  by (induction xs) auto

lemma length_box_cells:
  "length (box_cells (x0, y0, z0) (x1, y1, z1)) =
     nat (y1 - y0 + 1) * (nat (sint z1 - sint z0 + 1) * nat (sint x1 - sint x0 + 1))"
  unfolding box_cells_def by (simp add: length_concat_same length_i32_range)

lemma distinct_box_cells: "distinct (box_cells lo hi)"
proof -
  have layer: "distinct (concat (map (\<lambda>z. map (\<lambda>x. (x, y, z)) xs) zs))"
    if "distinct xs" "distinct zs" for xs zs and y :: int
    using that by (induction zs) (auto simp: distinct_map inj_on_def)
  have region: "distinct (concat (map (\<lambda>y. concat (map (\<lambda>z. map (\<lambda>x. (x, y, z)) xs) zs)) ys))"
    if "distinct xs" "distinct zs" "distinct ys" for xs zs and ys :: "int list"
    using that(3) layer [OF that(1,2)] by (induction ys) auto
  show ?thesis
    by (cases lo; cases hi) (simp add: box_cells_def region [OF distinct_i32_range distinct_i32_range])
qed

text \<open>A box is admissible when it is ordered and inside the world height.\<close>

definition box_ordered :: "cell_pos \<Rightarrow> cell_pos \<Rightarrow> bool" where
  "box_ordered lo hi \<longleftrightarrow> (let (x0, y0, z0) = lo; (x1, y1, z1) = hi in
     sint x0 \<le> sint x1 \<and> y0 \<le> y1 \<and> sint z0 \<le> sint z1 \<and> WORLD_Y_MIN \<le> y0 \<and> y1 \<le> WORLD_Y_MAX)"

lemma inclusive_axis_len_ok:
  "- (2 ^ 31) \<le> a \<Longrightarrow> a \<le> b \<Longrightarrow> b < 2 ^ 31 \<Longrightarrow> inclusive_axis_len a b = Inr (nat (b - a + 1))"
  by (simp add: inclusive_axis_len_def i64_in_range_def)

lemma box_cell_count_ordered:
  assumes "box_ordered lo hi"
  shows "box_cell_count lo hi = (if length (box_cells lo hi) \<le> usize_max
    then Inr (length (box_cells lo hi)) else Inl (qe_contract ''read_budget_exceeded''))"
proof -
  obtain x0 y0 z0 x1 y1 z1 where b: "lo = (x0, y0, z0)" "hi = (x1, y1, z1)" by (cases lo; cases hi)
  let ?w = "nat (sint x1 - sint x0 + 1)" and ?h = "nat (y1 - y0 + 1)" and ?d = "nat (sint z1 - sint z0 + 1)"
  from assms have o: "sint x0 \<le> sint x1" "y0 \<le> y1" "sint z0 \<le> sint z1" "0 \<le> y0" "y1 \<le> 255"
    by (simp_all add: box_ordered_def b)
  have len: "length (box_cells lo hi) = ?w * ?h * ?d" by (simp add: b length_box_cells ac_simps)
  have ys: "world_y_new y0 = Inr (WorldY (of_int y0))" "world_y_new y1 = Inr (WorldY (of_int y1))"
    using o by (simp_all add: world_y_new_def)
  have axes: "inclusive_axis_len (sint x0) (sint x1) = Inr ?w" "inclusive_axis_len y0 y1 = Inr ?h"
    "inclusive_axis_len (sint z0) (sint z1) = Inr ?d"
    using o sint_i32_range [of x0] sint_i32_range [of x1] sint_i32_range [of z0] sint_i32_range [of z1]
    by (simp_all only: inclusive_axis_len_ok)
       (simp_all add: inclusive_axis_len_ok)
  have "?w * ?h * 1 \<le> ?w * ?h * ?d" using o(3) by (intro mult_le_mono2) linarith
  then have small: "?w * ?h * ?d \<le> usize_max \<Longrightarrow> ?w * ?h \<le> usize_max" by linarith
  show ?thesis
  proof (cases "?w * ?h * ?d \<le> usize_max")
    case True
    with small [OF True] o(1-3) ys axes show ?thesis
      unfolding len by (simp add: b box_cell_count_def usize_checked_mul_def)
  next
    case False
    with o(1-3) ys axes show ?thesis
      unfolding len by (simp add: b box_cell_count_def usize_checked_mul_def)
  qed
qed

lemma box_cell_count_refused: "\<not> box_ordered lo hi \<Longrightarrow> \<exists>e. box_cell_count lo hi = Inl e"
  by (cases lo; cases hi) (auto simp: box_ordered_def box_cell_count_def world_y_new_def not_le)

lemma box_cells_y_ok: "box_ordered lo hi \<Longrightarrow> c \<in> set (box_cells lo hi) \<Longrightarrow> cell_y_ok c"
  by (cases lo; cases hi; cases c) (auto simp: set_box_cells box_ordered_def cell_y_ok_def)

definition column_ordered :: "column_y_range \<Rightarrow> bool" where
  "column_ordered r \<longleftrightarrow> cy_start r \<le> cy_end r \<and> WORLD_Y_MIN \<le> cy_start r \<and> cy_end r \<le> WORLD_Y_MAX"

lemma column_len_Inr: "column_len r = Inr n \<longleftrightarrow> column_ordered r \<and> n = length (column_cells x z r)"
  by (auto simp: column_len_def column_ordered_def column_cells_def admit_budget_def Let_def split: if_splits)

lemma column_cells_y_ok: "column_ordered r \<Longrightarrow> c \<in> set (column_cells x z r) \<Longrightarrow> cell_y_ok c"
  by (auto simp: column_cells_def column_ordered_def cell_y_ok_def)

section \<open>Grouping into segments\<close>

definition first_seen :: "'a list \<Rightarrow> 'a list" where
  "first_seen xs = rev (remdups (rev xs))"

lemma first_seen_Nil [simp]: "first_seen [] = []"
  by (simp add: first_seen_def)

lemma first_seen_snoc: "first_seen (xs @ [x]) = (if x \<in> set xs then first_seen xs else first_seen xs @ [x])"
  by (simp add: first_seen_def)

lemma set_first_seen [simp]: "set (first_seen xs) = set xs"
  by (simp add: first_seen_def)

lemma distinct_first_seen [simp]: "distinct (first_seen xs)"
  by (simp add: first_seen_def)

definition section_resolved :: "block_read_world \<Rightarrow> section_id \<Rightarrow> bool" where
  "section_resolved w i \<longleftrightarrow> seen_storage w i \<noteq> None"

definition cells_in :: "section_id \<Rightarrow> cell_pos list \<Rightarrow> cell_pos list" where
  "cells_in i cells = filter (\<lambda>c. cell_section c = i) cells"

definition builder_for :: "block_read_world \<Rightarrow> cell_pos list \<Rightarrow> section_id \<Rightarrow> segment_builder" where
  "builder_for w cells i =
     \<lparr>sb_section_id = section_id_key i, sb_presence = seen_presence w i, sb_section_revision = seen_revision w i,
      sb_cells = map (cell_seen w) (cells_in i cells),
      sb_block_ids = (if section_resolved w i then Some (map (\<lambda>c. the (cell_block w c)) (cells_in i cells)) else None)\<rparr>"

lemma sb_builder_for [simp]:
  "sb_presence (builder_for w cells i) = seen_presence w i"
  "sb_section_revision (builder_for w cells i) = seen_revision w i"
  by (simp_all add: builder_for_def)

lemma cell_block_None: "cell_block w c = None \<longleftrightarrow> \<not> section_resolved w (cell_section c)"
  by (simp add: cell_block_def section_resolved_def)

lemma builder_for_snoc:
  "builder_for w (cells @ [c]) i =
     (if i = cell_section c then builder_push (cell_seen w c) (builder_for w cells i) else builder_for w cells i)"
  using cell_block_None [of w c]
  by (cases "cell_block w c") (auto simp: builder_for_def cells_in_def builder_push_def)

lemma builder_for_unseen:
  "cell_section c \<notin> cell_section ` set cells \<Longrightarrow>
     builder_for w cells (cell_section c) =
     builder_new (section_id_key (cell_section c)) (seen_presence w (cell_section c)) (seen_revision w (cell_section c))
       (rc_block_id (cell_seen w c) \<noteq> None)"
  by (auto simp: builder_for_def builder_new_def cells_in_def cell_block_None filter_empty_conv image_iff)

text \<open>The index of a section in the segment list, by its text.\<close>

definition index_ok :: "section_id list \<Rightarrow> (string, nat) fmap \<Rightarrow> bool" where
  "index_ok is m \<longleftrightarrow> (\<forall>i n. section_id_wf i \<longrightarrow> (fmlookup m (section_id_key i) = Some n \<longleftrightarrow> n < length is \<and> is ! n = i))"

lemma section_keys_inject: "section_id_wf i \<Longrightarrow> section_id_wf j \<Longrightarrow> section_id_key i = section_id_key j \<longleftrightarrow> i = j"
  by (rule section_codec.encode_inject)

lemma index_ok_snoc:
  assumes "index_ok is m" "section_id_wf i" "i \<notin> set is"
  shows "index_ok (is @ [i]) (fmupd (section_id_key i) (length is) m)"
  unfolding index_ok_def
proof (intro allI impI)
  fix j n assume j: "section_id_wf j"
  show "fmlookup (fmupd (section_id_key i) (length is) m) (section_id_key j) = Some n \<longleftrightarrow>
      n < length (is @ [i]) \<and> (is @ [i]) ! n = j"
    using assms j section_keys_inject [OF assms(2) j]
    by (auto simp: index_ok_def nth_append less_Suc_eq dest: nth_mem)
qed

lemma read_steps:
  assumes "read_world_ok w" "\<forall>c \<in> set cells. cell_y_ok c"
  shows "\<exists>m. index_ok (first_seen (map cell_section cells)) m \<and>
    rfold (read_step w) cells ([], fmempty) =
      Inr (map (builder_for w cells) (first_seen (map cell_section cells)), m)"
  using assms(2)
proof (induction cells rule: rev_induct)
  case Nil
  show ?case by (auto simp: index_ok_def)
next
  case (snoc c cells)
  let ?is = "first_seen (map cell_section cells)" and ?i = "cell_section c"
  from snoc obtain m where m: "index_ok ?is m"
    "rfold (read_step w) cells ([], fmempty) = Inr (map (builder_for w cells) ?is, m)" by auto
  note at = cell_at_ok [OF assms(1), of c]
  have other: "builder_for w (cells @ [c]) j = builder_for w cells j" if "j \<noteq> ?i" for j
    using that by (simp add: builder_for_snoc)
  show ?case
  proof (cases "?i \<in> set ?is")
    case True
    then obtain n where n: "n < length ?is" "?is ! n = ?i" by (meson in_set_conv_nth)
    with m(1) have look: "fmlookup m (section_id_key ?i) = Some n"
      by (simp add: index_ok_def cell_section_wf)
    have upd: "(map (builder_for w cells) ?is)[n := builder_push (cell_seen w c) (builder_for w cells ?i)] =
        map (builder_for w (cells @ [c])) ?is"
    proof (rule nth_equalityI)
      fix j assume j: "j < length ((map (builder_for w cells) ?is)[n := builder_push (cell_seen w c) (builder_for w cells ?i)])"
      have "?is ! j = ?i \<longleftrightarrow> j = n"
        using j n nth_eq_iff_index_eq [OF distinct_first_seen, of j "map cell_section cells" n] by simp
      with j n show "(map (builder_for w cells) ?is)[n := builder_push (cell_seen w c) (builder_for w cells ?i)] ! j =
          map (builder_for w (cells @ [c])) ?is ! j"
        by (auto simp: nth_list_update builder_for_snoc)
    qed simp
    have "read_step w c (map (builder_for w cells) ?is, m) = Inr (map (builder_for w (cells @ [c])) ?is, m)"
      using snoc.prems by (simp add: read_step_def at look n upd)
    moreover have "first_seen (map cell_section (cells @ [c])) = ?is" using True by (simp add: first_seen_snoc)
    ultimately show ?thesis using m by (simp add: rfold_append)
  next
    case False
    have look: "fmlookup m (section_id_key ?i) = None"
    proof (cases "fmlookup m (section_id_key ?i)")
      case (Some n)
      with m(1) have "n < length ?is \<and> ?is ! n = ?i" by (simp add: index_ok_def cell_section_wf)
      with False show ?thesis by (auto dest: nth_mem)
    qed
    have "map (builder_for w cells) ?is = map (builder_for w (cells @ [c])) ?is"
      using False other by (intro map_cong refl) metis
    moreover have new: "builder_push (cell_seen w c) (builder_new (section_id_key ?i) (seen_presence w ?i) (seen_revision w ?i)
        (cell_block w c \<noteq> None)) = builder_for w (cells @ [c]) ?i"
      using False builder_for_unseen [of c cells w] by (simp add: builder_for_snoc)
    ultimately have "read_step w c (map (builder_for w cells) ?is, m) =
        Inr (map (builder_for w (cells @ [c])) (?is @ [?i]), fmupd (section_id_key ?i) (length ?is) m)"
      using snoc.prems by (simp add: read_step_def at look nth_append builder_new_def list_update_append)
    moreover have "first_seen (map cell_section (cells @ [c])) = ?is @ [?i]" using False by (simp add: first_seen_snoc)
    ultimately show ?thesis using m index_ok_snoc [OF m(1) cell_section_wf False] by (simp add: rfold_append)
  qed
qed

lemma read_cells_spec:
  assumes "read_world_ok w" "\<forall>c \<in> set cells. cell_y_ok c" "requested \<le> MAX_CELLS_PER_READ_REQUEST"
  shows "read_cells w cells requested = Inr
    \<lparr>bx_segments = map (\<lambda>i. builder_finish (builder_for w cells i)) (first_seen (map cell_section cells)),
     bx_cell_count = requested\<rparr>"
  using read_steps [OF assms(1,2)] assms(3) by (auto simp: read_cells_def admit_budget_def)

section \<open>Runs\<close>

type_synonym run_key = "section_id \<times> string \<times> u64"

definition run_key_of :: "buffered_read_segment \<Rightarrow> run_key" where
  "run_key_of g = (bs_section_id g, bs_presence g, bs_section_revision g)"

text \<open>
  A list of segments covers a sequence of cells when it is its run-length encoding: the runs
  concatenate to the sequence, no run is empty, neighbours differ, and each names its first cell.
\<close>

definition runs_of :: "buffered_read_segment list \<Rightarrow> run_key list \<Rightarrow> bool" where
  "runs_of gs ks \<longleftrightarrow>
     concat (map (\<lambda>g. replicate (bs_cell_count g) (run_key_of g)) gs) = ks \<and>
     (\<forall>g \<in> set gs. 0 < bs_cell_count g) \<and> successively (\<lambda>g h. run_key_of g \<noteq> run_key_of h) gs \<and>
     (\<forall>j < length gs. bs_first_cell (gs ! j) = (\<Sum>g \<leftarrow> take j gs. bs_cell_count g))"

fun run_new :: "nat \<Rightarrow> run_key \<Rightarrow> buffered_read_segment" where
  "run_new p (i, presence, revision) =
     \<lparr>bs_section_id = i, bs_presence = presence, bs_section_revision = revision, bs_first_cell = p, bs_cell_count = 1\<rparr>"

definition run_add :: "buffered_read_segment list \<Rightarrow> nat \<Rightarrow> run_key \<Rightarrow> buffered_read_segment list" where
  "run_add gs p k =
     (if gs \<noteq> [] \<and> run_key_of (last gs) = k
      then butlast gs @ [(last gs)\<lparr>bs_cell_count := bs_cell_count (last gs) + 1\<rparr>]
      else gs @ [run_new p k])"

definition runs :: "run_key list \<Rightarrow> buffered_read_segment list" where
  "runs ks = fold (\<lambda>(p, k) gs. run_add gs p k) (enumerate 0 ks) []"

lemma runs_Nil [simp]: "runs [] = []"
  by (simp add: runs_def)

lemma enumerate_snoc: "enumerate 0 (xs @ [x]) = enumerate 0 xs @ [(length xs, x)]"
  by (simp add: enumerate_append_eq)

lemma runs_snoc: "runs (ks @ [k]) = run_add (runs ks) (length ks) k"
  by (simp add: runs_def enumerate_snoc)

lemma runs_single [simp]: "runs [k] = [run_new 0 k]"
  by (simp add: runs_def run_add_def enumerate_eq_zip)

lemma run_add_ne [simp]: "run_add gs p k \<noteq> []"
  by (simp add: run_add_def)

lemma run_key_of_simps [simp]:
  "run_key_of (run_new p k) = k" "bs_cell_count (run_new p k) = 1" "bs_first_cell (run_new p k) = p"
  "run_key_of (g\<lparr>bs_cell_count := n\<rparr>) = run_key_of g"
  by (cases k, simp add: run_key_of_def)+

lemma length_concat_runs:
  "length (concat (map (\<lambda>g. replicate (bs_cell_count g) (run_key_of g)) gs)) = (\<Sum>g \<leftarrow> gs. bs_cell_count g)"
  by (induction gs) simp_all

lemma runs_of_extend:
  assumes "runs_of (gs @ [g]) ks"
  shows "runs_of (gs @ [g\<lparr>bs_cell_count := bs_cell_count g + 1\<rparr>]) (ks @ [run_key_of g])"
proof -
  let ?h = "g\<lparr>bs_cell_count := bs_cell_count g + 1\<rparr>"
  have "bs_first_cell ((gs @ [?h]) ! j) = (\<Sum>g \<leftarrow> take j (gs @ [?h]). bs_cell_count g)" if "j < length (gs @ [?h])" for j
  proof -
    have "bs_first_cell ((gs @ [g]) ! j) = (\<Sum>g \<leftarrow> take j (gs @ [g]). bs_cell_count g)"
      using assms that by (simp add: runs_of_def)
    with that show ?thesis by (cases "j = length gs") (simp_all add: nth_append)
  qed
  with assms show ?thesis
    by (auto simp: runs_of_def successively_append_iff replicate_append_same)
qed

lemma runs_of_new:
  assumes "runs_of gs ks" "gs \<noteq> [] \<Longrightarrow> run_key_of (last gs) \<noteq> k"
  shows "runs_of (gs @ [run_new (length ks) k]) (ks @ [k])"
proof -
  have "length ks = (\<Sum>g \<leftarrow> gs. bs_cell_count g)"
    using assms(1) length_concat_runs [of gs] by (simp add: runs_of_def)
  with assms show ?thesis
    by (auto simp: runs_of_def successively_append_iff nth_append less_Suc_eq)
qed

lemma runs_of_runs: "runs_of (runs ks) ks"
proof (induction ks rule: rev_induct)
  case Nil
  show ?case by (simp add: runs_of_def)
next
  case (snoc k ks)
  show ?case
  proof (cases "runs ks \<noteq> [] \<and> run_key_of (last (runs ks)) = k")
    case True
    with snoc runs_of_extend [of "butlast (runs ks)" "last (runs ks)" ks] show ?thesis
      by (simp add: runs_snoc run_add_def)
  next
    case False
    with runs_of_new [OF snoc, of k] show ?thesis by (auto simp: runs_snoc run_add_def)
  qed
qed

lemma length_run_add: "length (run_add gs p k) =
    (if gs \<noteq> [] \<and> run_key_of (last gs) = k then length gs else Suc (length gs))"
  by (auto simp: run_add_def)

lemma runs_empty_iff: "runs ks = [] \<longleftrightarrow> ks = []"
  by (cases ks rule: rev_cases) (simp_all add: runs_snoc)

lemma last_run_key: "ks \<noteq> [] \<Longrightarrow> run_key_of (last (runs ks)) = last ks"
  by (cases ks rule: rev_cases) (auto simp: runs_snoc run_add_def)

lemma length_runs_le: "length (runs ks) \<le> length ks"
  by (induction ks rule: rev_induct) (auto simp: runs_snoc length_run_add)

definition cell_key :: "block_read_world \<Rightarrow> cell_pos \<Rightarrow> run_key" where
  "cell_key w c = section_seen_as w (cell_section c)"

lemma cell_at_key:
  assumes "read_world_ok w" "cell_y_ok c"
  obtains i presence revision where "cell_key w c = (i, presence, revision)"
    "cell_at_section w c = Inr (i, presence, revision, cell_seen w c)"
  using cell_at_section_ok [OF assms] by (simp add: cell_key_def section_seen_as_def)

lemma preflight_steps:
  assumes "read_world_ok w" "\<forall>c \<in> set cells. cell_y_ok c" "length cells \<le> usize_max"
  shows "rfold (preflight_step w) cells (0, None, True) =
    Inr (length (runs (map (cell_key w) cells)),
      (if cells = [] then None else Some (cell_key w (last cells))),
      list_all (\<lambda>c. cell_block w c \<noteq> None) cells)"
  using assms(2,3)
proof (induction cells rule: rev_induct)
  case (snoc c cells)
  let ?gs = "runs (map (cell_key w) cells)"
  have yc: "cell_y_ok c" using snoc.prems(1) by simp
  obtain i presence revision where k: "cell_key w c = (i, presence, revision)"
    "cell_at_section w c = Inr (i, presence, revision, cell_seen w c)"
    by (rule cell_at_key [OF assms(1) yc])
  have le: "length ?gs + 1 \<le> usize_max"
    using snoc.prems(2) length_runs_le [of "map (cell_key w) cells"] by simp
  have "runs (map (cell_key w) (cells @ [c])) = run_add ?gs (length cells) (i, presence, revision)"
    by (simp add: runs_snoc k(1))
  moreover have "cells \<noteq> [] \<Longrightarrow> run_key_of (last ?gs) = cell_key w (last cells)"
    using last_run_key [of "map (cell_key w) cells"] by (simp add: last_map)
  ultimately show ?case
    using snoc le by (auto simp: rfold_append preflight_step_def k usize_checked_add_def length_run_add
        runs_empty_iff)
qed simp

lemma visit_steps:
  assumes "read_world_ok w" "\<forall>c \<in> set cells. cell_y_ok c"
    and "length cells \<le> length (fst b)" "length (runs (map (cell_key w) cells)) \<le> length (snd b)"
  shows "rfold (visit_step w put_cell put_segment) (enumerate 0 cells) (None, 0, b) =
    (let gs = runs (map (cell_key w) cells) in
     Inr (if cells = [] then None else Some (last gs), length gs - 1,
       (map (cell_block w) cells @ drop (length cells) (fst b),
        map Some (butlast gs) @ drop (length gs - 1) (snd b))))"
  using assms(2-4)
proof (induction cells rule: rev_induct)
  case (snoc c cells)
  let ?gs = "runs (map (cell_key w) cells)"
  have yc: "cell_y_ok c" using snoc.prems(1) by simp
  obtain i presence revision where k: "cell_key w c = (i, presence, revision)"
    "cell_at_section w c = Inr (i, presence, revision, cell_seen w c)"
    by (rule cell_at_key [OF assms(1) yc])
  have gs: "runs (map (cell_key w) (cells @ [c])) = run_add ?gs (length cells) (i, presence, revision)"
    by (simp add: runs_snoc k(1))
  have ids: "(map (cell_block w) cells @ drop (length cells) (fst b))[length cells := cell_block w c] =
      map (cell_block w) (cells @ [c]) @ drop (length (cells @ [c])) (fst b)"
    using snoc.prems(2) by (simp add: list_update_append upd_conv_take_nth_drop)
  have IH: "rfold (visit_step w put_cell put_segment) (enumerate 0 cells) (None, 0, b) =
     Inr (if cells = [] then None else Some (last ?gs), length ?gs - 1,
       (map (cell_block w) cells @ drop (length cells) (fst b),
        map Some (butlast ?gs) @ drop (length ?gs - 1) (snd b)))"
    using snoc.prems gs by (subst snoc.IH) (auto simp: length_run_add Let_def split: if_splits)
  show ?case
  proof (cases "cells = []")
    case True
    with IH k ids show ?thesis
      by (simp add: enumerate_snoc visit_step_def put_cell_def Let_def)
  next
    case False
    then have ne: "?gs \<noteq> []" by (simp add: runs_empty_iff)
    show ?thesis
    proof (cases "run_key_of (last ?gs) = (i, presence, revision)")
      case True
      then have same: "bs_section_id (last ?gs) = i \<and> bs_presence (last ?gs) = presence \<and>
          bs_section_revision (last ?gs) = revision" by (simp add: run_key_of_def)
      have "visit_step w put_cell put_segment (length cells, c) (Some (last ?gs), length ?gs - 1,
            (map (cell_block w) cells @ drop (length cells) (fst b),
             map Some (butlast ?gs) @ drop (length ?gs - 1) (snd b))) =
          Inr (Some ((last ?gs)\<lparr>bs_cell_count := bs_cell_count (last ?gs) + 1\<rparr>), length ?gs - 1,
            (map (cell_block w) (cells @ [c]) @ drop (length (cells @ [c])) (fst b),
             map Some (butlast ?gs) @ drop (length ?gs - 1) (snd b)))"
        using ids same by (simp add: visit_step_def k(2) put_cell_def)
      with True False IH ne show ?thesis
        by (simp add: enumerate_snoc rfold_append k(1) gs run_add_def Let_def runs_snoc)
    next
      case diff: False
      then have differ: "\<not> (bs_section_id (last ?gs) = i \<and> bs_presence (last ?gs) = presence \<and>
          bs_section_revision (last ?gs) = revision)" by (simp add: run_key_of_def)
      have put: "(map Some (butlast ?gs) @ drop (length ?gs - 1) (snd b))[length ?gs - 1 := Some (last ?gs)] =
          map Some ?gs @ drop (length ?gs) (snd b)"
      proof -
        have "length ?gs \<le> length (snd b)" using snoc.prems(3) diff ne unfolding gs by (simp add: length_run_add)
        then have "drop (length ?gs - 1) (snd b) = snd b ! (length ?gs - 1) # drop (length ?gs) (snd b)"
          using ne Cons_nth_drop_Suc [of "length ?gs - 1" "snd b"] by (cases "length ?gs") simp_all
        then have "(drop (length ?gs - 1) (snd b))[0 := Some (last ?gs)] = Some (last ?gs) # drop (length ?gs) (snd b)"
          by simp
        moreover have "map Some ?gs = map Some (butlast ?gs) @ [Some (last ?gs)]"
          using ne by (metis append_butlast_last_id map_append list.map)
        ultimately show ?thesis by (simp add: list_update_append)
      qed
      have "visit_step w put_cell put_segment (length cells, c) (Some (last ?gs), length ?gs - 1,
            (map (cell_block w) cells @ drop (length cells) (fst b),
             map Some (butlast ?gs) @ drop (length ?gs - 1) (snd b))) =
          Inr (Some (run_new (length cells) (i, presence, revision)), length ?gs,
            (map (cell_block w) (cells @ [c]) @ drop (length (cells @ [c])) (fst b),
             map Some ?gs @ drop (length ?gs) (snd b)))"
        using ids put ne by (simp add: visit_step_def k(2) put_cell_def put_segment_def if_not_P [OF differ] Let_def)
      with diff False IH ne show ?thesis
        by (simp add: enumerate_snoc rfold_append k(1) gs run_add_def Let_def runs_snoc)
    qed
  qed
qed simp

lemma read_cells_into_spec:
  assumes "read_world_ok w" "\<forall>c \<in> set cells. cell_y_ok c" "requested = length cells"
  shows "read_cells_into w cells requested b =
    (let gs = runs (map (cell_key w) cells) in
     if requested > MAX_CELLS_PER_READ_REQUEST then Some (Inl (qe_contract ''read_budget_exceeded''), b)
     else if length (fst b) \<noteq> requested \<or> length (snd b) < length gs then Some (Inl qe_invalid_handle, b)
     else Some (Inr \<lparr>bm_cell_count = requested, bm_segment_count = length gs,
                   bm_fully_resolved = list_all (\<lambda>c. cell_block w c \<noteq> None) cells\<rparr>,
                (map (cell_block w) cells, map Some gs @ drop (length gs) (snd b))))"
proof (cases "requested > MAX_CELLS_PER_READ_REQUEST")
  case True
  then show ?thesis by (simp add: read_cells_into_def preflight_cells_def admit_budget_def)
next
  case False
  let ?gs = "runs (map (cell_key w) cells)"
  have pre: "preflight_cells w cells requested = Inr \<lparr>bm_cell_count = requested, bm_segment_count = length ?gs,
      bm_fully_resolved = list_all (\<lambda>c. cell_block w c \<noteq> None) cells\<rparr>"
    using False preflight_steps [OF assms(1,2)] assms(3) by (simp add: preflight_cells_def admit_budget_def)
  show ?thesis
  proof (cases "length (fst b) \<noteq> requested \<or> length (snd b) < length ?gs")
    case True
    with pre False show ?thesis by (auto simp: read_cells_into_def Let_def)
  next
    case room: False
    have put: "map Some (butlast ?gs) @ (drop (length ?gs - 1) (snd b))[0 := Some (last ?gs)] =
        map Some ?gs @ drop (length ?gs) (snd b)" if "?gs \<noteq> []"
    proof -
      have "drop (length ?gs - 1) (snd b) = snd b ! (length ?gs - 1) # drop (length ?gs) (snd b)"
        using that room Cons_nth_drop_Suc [of "length ?gs - 1" "snd b"] by (cases "length ?gs") simp_all
      moreover have "map Some ?gs = map Some (butlast ?gs) @ [Some (last ?gs)]"
        using that by (metis append_butlast_last_id map_append list.map)
      ultimately show ?thesis by simp
    qed
    have "visit_after_preflight w cells put_cell put_segment b =
        Some (map (cell_block w) cells, map Some ?gs @ drop (length ?gs) (snd b))"
      using visit_steps [OF assms(1,2), of b] room assms(3) put
      by (cases b; cases "cells = []")
        (auto simp: visit_after_preflight_def Let_def put_segment_def list_update_append runs_empty_iff)
    with pre False room show ?thesis by (auto simp: read_cells_into_def Let_def)
  qed
qed

lemma sum_cells_in:
  "(\<Sum>i \<leftarrow> first_seen (map cell_section cells). length (cells_in i cells)) = length cells"
proof -
  have "(\<Sum>i \<in> S. length (cells_in i cells)) = length cells"
    if "finite S" "cell_section ` set cells \<subseteq> S" for S
    using that
  proof (induction cells)
    case (Cons c cells)
    have "length (cells_in i (c # cells)) = (if i = cell_section c then 1 else 0) + length (cells_in i cells)" for i
      by (simp add: cells_in_def)
    with Cons show ?case by (simp add: sum.distrib)
  qed (simp add: cells_in_def)
  then show ?thesis by (subst sum_list_distinct_conv_sum_set) simp_all
qed

section \<open>Properties\<close>

text \<open>What one segment of an owned read says about the cells of its section.\<close>

definition segment_reads :: "block_read_world \<Rightarrow> cell_pos list \<Rightarrow> read_segment \<Rightarrow> section_id \<Rightarrow> bool" where
  "segment_reads w cells s i \<longleftrightarrow>
     sg_section_id s = section_id_key i \<and> sg_presence s = seen_presence w i \<and>
     sg_section_revision s = seen_revision w i \<and> sg_cells s = map (cell_seen w) (cells_in i cells) \<and>
     distinct (map rc_offset (sg_cells s)) \<and>
     sg_block_ids s = (if section_resolved w i then Some (map (\<lambda>c. the (rc_block_id c)) (sg_cells s)) else None)"

lemma finished_reads:
  assumes "\<forall>c \<in> set cells. cell_y_ok c" "distinct cells"
  shows "segment_reads w cells (builder_finish (builder_for w cells i)) i"
proof -
  have "inj_on cell_offset_of (set (cells_in i cells))"
    by (rule inj_onI) (rule cell_eqI; use assms(1) in \<open>force simp: cells_in_def\<close>)
  then have "distinct (map cell_offset_of (cells_in i cells))"
    using assms(2) by (simp add: distinct_map cells_in_def)
  then show ?thesis by (simp add: segment_reads_def builder_finish_def builder_for_def comp_def)
qed

lemma read_box_Inr:
  assumes "read_world_ok w"
  shows "read_box w lo hi = Inr r \<longleftrightarrow>
    box_ordered lo hi \<and> length (box_cells lo hi) \<le> MAX_CELLS_PER_READ_REQUEST \<and>
    r = \<lparr>bx_segments = map (\<lambda>i. builder_finish (builder_for w (box_cells lo hi) i)) (first_seen (map cell_section (box_cells lo hi))),
         bx_cell_count = length (box_cells lo hi)\<rparr>"
proof (cases "box_ordered lo hi")
  case True
  then have "\<forall>c \<in> set (box_cells lo hi). cell_y_ok c" by (blast intro: box_cells_y_ok)
  note spec = read_cells_spec [OF assms this]
  show ?thesis
  proof (cases "length (box_cells lo hi) \<le> MAX_CELLS_PER_READ_REQUEST")
    case small: True
    with True spec [OF small] show ?thesis by (auto simp: read_box_def box_cell_count_ordered)
  next
    case False
    with True show ?thesis by (auto simp: read_box_def box_cell_count_ordered read_cells_def admit_budget_def)
  qed
next
  case False
  with box_cell_count_refused [OF False] show ?thesis by (auto simp: read_box_def)
qed

text \<open>
  A box read returns every cell of the box exactly once: a box is admitted exactly
  when its corners are ordered, its y range is inside the world and it has at most 262144 cells; the
  result then has one segment per section the box touches, with the section's presence and revision,
  whose cells are the cells of the box in that section, in y, z, x order and with distinct offsets,
  each with the block the section's storage holds, or none when the section has no content.
\<close>

theorem read_box_reads_each_cell_once:
  assumes "read_world_ok w"
  shows "((\<exists>r. read_box w lo hi = Inr r) \<longleftrightarrow>
      box_ordered lo hi \<and> length (box_cells lo hi) \<le> MAX_CELLS_PER_READ_REQUEST) \<and>
    (\<forall>r. read_box w lo hi = Inr r \<longrightarrow>
      bx_cell_count r = length (box_cells lo hi) \<and>
      (\<Sum>s \<leftarrow> bx_segments r. length (sg_cells s)) = length (box_cells lo hi) \<and>
      distinct (map sg_section_id (bx_segments r)) \<and>
      (\<forall>s \<in> set (bx_segments r). \<exists>i. segment_reads w (box_cells lo hi) s i) \<and>
      (\<forall>c \<in> set (box_cells lo hi). \<exists>s \<in> set (bx_segments r).
         segment_reads w (box_cells lo hi) s (cell_section c) \<and> cell_seen w c \<in> set (sg_cells s)))"
proof (intro conjI allI impI)
  show "(\<exists>r. read_box w lo hi = Inr r) \<longleftrightarrow>
      box_ordered lo hi \<and> length (box_cells lo hi) \<le> MAX_CELLS_PER_READ_REQUEST"
    by (simp add: read_box_Inr [OF assms])
next
  fix r assume "read_box w lo hi = Inr r"
  then have ord: "box_ordered lo hi" and r: "bx_cell_count r = length (box_cells lo hi)"
    "bx_segments r = map (\<lambda>i. builder_finish (builder_for w (box_cells lo hi) i)) (first_seen (map cell_section (box_cells lo hi)))"
    by (simp_all add: read_box_Inr [OF assms])
  have "\<forall>c \<in> set (box_cells lo hi). cell_y_ok c" using ord by (blast intro: box_cells_y_ok)
  note seg = finished_reads [OF this distinct_box_cells]
  show "bx_cell_count r = length (box_cells lo hi)" by (rule r(1))
  show "(\<Sum>s \<leftarrow> bx_segments r. length (sg_cells s)) = length (box_cells lo hi)"
    using sum_cells_in [of "box_cells lo hi"] by (simp add: r(2) builder_finish_def builder_for_def comp_def)
  have "inj_on section_id_key (set (map cell_section (box_cells lo hi)))"
    by (auto simp: inj_on_def section_keys_inject cell_section_wf)
  then show "distinct (map sg_section_id (bx_segments r))"
    by (simp add: r(2) builder_finish_def builder_for_def comp_def distinct_map)
  show "\<forall>s \<in> set (bx_segments r). \<exists>i. segment_reads w (box_cells lo hi) s i"
    using seg by (auto simp: r(2))
  show "\<forall>c \<in> set (box_cells lo hi). \<exists>s \<in> set (bx_segments r).
         segment_reads w (box_cells lo hi) s (cell_section c) \<and> cell_seen w c \<in> set (sg_cells s)"
  proof
    fix c assume c: "c \<in> set (box_cells lo hi)"
    let ?s = "builder_finish (builder_for w (box_cells lo hi) (cell_section c))"
    have "?s \<in> set (bx_segments r)" using c by (auto simp: r(2))
    moreover have "cell_seen w c \<in> set (sg_cells ?s)"
      using seg [of w "cell_section c"] c by (simp add: segment_reads_def cells_in_def)
    ultimately show "\<exists>s \<in> set (bx_segments r).
         segment_reads w (box_cells lo hi) s (cell_section c) \<and> cell_seen w c \<in> set (sg_cells s)"
      using seg by blast
  qed
qed

text \<open>
  C24. A buffered read is all or nothing and agrees with the owned one: it always
  returns (the panic after the preflight is unreachable); on a refusal both buffers are exactly what
  they were; on success the block buffer holds every cell of the box in order and the first segment
  slots hold the run-length encoding of the sections visited, the remaining slots untouched. It
  succeeds exactly when the owned read does, the block buffer has one slot per cell and there are
  enough segment slots.
\<close>

theorem buffered_read_all_or_nothing:
  assumes "read_world_ok w"
  shows "\<exists>result b'. read_box_into w lo hi b = Some (result, b') \<and>
    (case result of
       Inl e \<Rightarrow> b' = b
     | Inr m \<Rightarrow> fst b' = map (cell_block w) (box_cells lo hi) \<and> bm_cell_count m = length (box_cells lo hi) \<and>
         (bm_fully_resolved m \<longleftrightarrow> None \<notin> set (fst b')) \<and>
         (\<exists>gs. runs_of gs (map (cell_key w) (box_cells lo hi)) \<and> bm_segment_count m = length gs \<and>
           snd b' = map Some gs @ drop (length gs) (snd b))) \<and>
    ((\<exists>m. result = Inr m) \<longleftrightarrow> (\<exists>r. read_box w lo hi = Inr r) \<and> length (fst b) = length (box_cells lo hi) \<and>
       length (runs (map (cell_key w) (box_cells lo hi))) \<le> length (snd b))"
proof (cases "box_ordered lo hi \<and> length (box_cells lo hi) \<le> usize_max")
  case True
  then have "\<forall>c \<in> set (box_cells lo hi). cell_y_ok c" by (blast intro: box_cells_y_ok)
  note spec = read_cells_into_spec [OF assms this refl, of b]
  from True have "read_box_into w lo hi b = read_cells_into w (box_cells lo hi) (length (box_cells lo hi)) b"
    by (simp add: read_box_into_def box_cell_count_ordered)
  note into = this [unfolded spec Let_def]
  let ?gs = "runs (map (cell_key w) (box_cells lo hi))"
  show ?thesis
  proof (cases "length (box_cells lo hi) \<le> MAX_CELLS_PER_READ_REQUEST \<and>
      length (fst b) = length (box_cells lo hi) \<and> length ?gs \<le> length (snd b)")
    case False
    then have "\<exists>e. read_box_into w lo hi b = Some (Inl e, b)" unfolding into by auto
    with False True show ?thesis unfolding read_box_Inr [OF assms] by (cases b) auto
  next
    case fits: True
    have "list_all (\<lambda>c. cell_block w c \<noteq> None) (box_cells lo hi) \<longleftrightarrow> None \<notin> set (map (cell_block w) (box_cells lo hi))"
      by (force simp: list_all_iff simp del: not_None_eq)
    with fits True runs_of_runs [of "map (cell_key w) (box_cells lo hi)"] show ?thesis
      unfolding read_box_Inr [OF assms] into
      by (simp del: set_map) blast
  qed
next
  case False
  then have "\<exists>e. box_cell_count lo hi = Inl e"
    using box_cell_count_refused box_cell_count_ordered by metis
  with False show ?thesis unfolding read_box_Inr [OF assms] by (cases b) (auto simp: read_box_into_def)
qed

text \<open>One ready section of uniform blocks, read with a neighbour that is not loaded.\<close>

definition sample_reads :: block_read_world where
  "sample_reads = fmupd (SectionId 0 0 0) (ready_section 5 (StUniform 7)) fmempty"

lemma sample_reads_ok: "read_world_ok sample_reads"
  by (simp add: sample_reads_def read_world_ok_def section_constructors_ok section_id_wf_def)

lemma sample_box: "box_cells (-1, 0, 0) (0, 1, 0) = [(-1, 0, 0), (0, 0, 0), (-1, 1, 0), (0, 1, 0)]"
  by (simp add: box_cells_def i32_range_def upto.simps)

lemma sample_blocks:
  "map (cell_block sample_reads) (box_cells (-1, 0, 0) (0, 1, 0)) = [None, Some 7, None, Some 7]"
  by (simp add: sample_box cell_block_def cell_section_def seen_storage_def sample_reads_def ready_section_def
      div_euclid_16_def world_y_section_y_def)

theorem read_box_reads_each_cell_once_witness:
  "\<exists>r. read_box sample_reads (-1, 0, 0) (0, 1, 0) = Inr r \<and> bx_cell_count r = 4 \<and>
     (\<Sum>s \<leftarrow> bx_segments r. length (sg_cells s)) = 4"
proof -
  note p = read_box_reads_each_cell_once [OF sample_reads_ok, of "(-1, 0, 0)" "(0, 1, 0)"]
  have "box_ordered (-1, 0, 0) (0, 1, 0)" by (simp add: box_ordered_def)
  with p obtain r where "read_box sample_reads (-1, 0, 0) (0, 1, 0) = Inr r" by (auto simp: sample_box)
  with p show ?thesis by (auto simp: sample_box)
qed

theorem buffered_read_all_or_nothing_witness:
  "\<exists>m b'. read_box_into sample_reads (-1, 0, 0) (0, 1, 0) (replicate 4 (Some 1), replicate 4 None) = Some (Inr m, b') \<and>
     fst b' = [None, Some 7, None, Some 7] \<and> \<not> bm_fully_resolved m"
proof -
  have ord: "box_ordered (-1, 0, 0) (0, 1, 0)" by (simp add: box_ordered_def)
  have len: "length (box_cells (-1, 0, 0) (0, 1, 0)) = 4" by (simp add: sample_box)
  note p = buffered_read_all_or_nothing [OF sample_reads_ok, of "(-1, 0, 0)" "(0, 1, 0)" "(replicate 4 (Some 1), replicate 4 None)"]
  have "length (runs (map (cell_key sample_reads) (box_cells (-1, 0, 0) (0, 1, 0)))) \<le> 4"
    using length_runs_le [of "map (cell_key sample_reads) (box_cells (-1, 0, 0) (0, 1, 0))"] by (simp add: sample_box)
  moreover have "\<exists>r. read_box sample_reads (-1, 0, 0) (0, 1, 0) = Inr r"
    using ord len by (simp add: read_box_Inr [OF sample_reads_ok])
  ultimately show ?thesis using p len sample_blocks by fastforce
qed

end
