(* ===== verification/ReadBack.thy ===== *)
theory ReadBack
  imports Pipeline Reads
begin

text \<open>
  Reading back what was committed: the read source made from a published cut, and the blocks
  gameplay reads see before and after a commit.
\<close>

section \<open>Read sources made from a cut\<close>

definition directory_keys_ok :: "section_directory \<Rightarrow> bool" where
  "directory_keys_ok d \<longleftrightarrow> (\<forall>i. fm_has d i \<longrightarrow> section_id_wf i)"

definition slot_content :: "(section_id \<Rightarrow> storage_state option) \<Rightarrow> section_id \<Rightarrow> section_slot \<Rightarrow> storage_state option" where
  "slot_content baseline i slot =
     (case slot of SlotReady pl \<Rightarrow> pl_storage pl | SlotUnchanged \<Rightarrow> baseline i | _ \<Rightarrow> None)"

definition slot_readable :: "(section_id \<Rightarrow> storage_state option) \<Rightarrow> section_id \<Rightarrow> section_slot \<Rightarrow> bool" where
  "slot_readable baseline i slot \<longleftrightarrow>
     (slot_content baseline i slot = None \<longrightarrow> slot = SlotPending \<or> slot = SlotUnavailable)"

definition read_section_for ::
    "published_state_root \<Rightarrow> (section_id \<Rightarrow> storage_state option) \<Rightarrow> section_id \<Rightarrow> section_slot \<Rightarrow> block_read_section" where
  "read_section_for root baseline i slot =
     \<lparr>bq_presence = slot_presence slot, bq_revision = root_revision root (section_id_key i),
      bq_storage = slot_content baseline i slot\<rparr>"

lemma slot_presences:
  "slot_presence (SlotReady pl) = ''Ready''" "slot_presence SlotUnchanged = ''Unchanged''"
  "slot_presence SlotPending = ''Pending''" "slot_presence SlotUnavailable = ''Unavailable''"
  by (simp_all add: slot_presence_def intern_presence_def SECTION_PRESENCE_def)

lemma materialize_step:
  assumes "section_id_wf i" "\<not> fm_has w i"
  shows "materialize_section (ps_stamp root) baseline (i, slot) w =
    (if slot_readable baseline i slot then Inr (fmupd i (read_section_for root baseline i slot) w)
     else Inl (qe_contract SECTION_ENCODING_MISMATCH))"
proof -
  have key: "section_id_parse (section_id_key i) = Inr i" using assms(1) by (simp add: section_codec.decode_encode)
  have parts: "section_from_parts p (Some r) st =
      (if (if st = None then p \<in> {''Pending'', ''Unavailable''} else p \<in> {''Ready'', ''Unchanged''})
       then Inr \<lparr>bq_presence = p, bq_revision = r, bq_storage = st\<rparr> else Inl qe_invalid_handle)"
    if "p \<in> set SECTION_PRESENCE" for p r st
    using that by (auto simp: section_from_parts_def intern_presence_def SECTION_PRESENCE_def)
  show ?thesis
    using assms(2)
    by (cases slot)
      (auto simp: materialize_section_def Let_def slot_presences parts SECTION_PRESENCE_def read_world_insert_def key
        slot_readable_def slot_content_def read_section_for_def root_revision_def stamp_section_revision_def
        split: option.splits)
qed

lemma materialize_all:
  assumes "distinct (map fst es)" "\<And>i slot. (i, slot) \<in> set es \<Longrightarrow> section_id_wf i \<and> \<not> fm_has w i"
  shows "rfold (materialize_section (ps_stamp root) baseline) es w =
    (if \<forall>(i, slot) \<in> set es. slot_readable baseline i slot
     then Inr (fold (\<lambda>(i, slot). fmupd i (read_section_for root baseline i slot)) es w)
     else Inl (qe_contract SECTION_ENCODING_MISMATCH))"
  using assms
proof (induction es arbitrary: w)
  case (Cons e es)
  obtain i slot where e: "e = (i, slot)" by (cases e)
  from Cons.prems have i: "section_id_wf i" "\<not> fm_has w i" by (auto simp: e)
  have rest: "section_id_wf j \<and> \<not> fm_has (fmupd i (read_section_for root baseline i slot) w) j"
    if "(j, t) \<in> set es" for j t
    using Cons.prems(2) [of j t] Cons.prems(1) that by (force simp: e)
  have IH: "rfold (materialize_section (ps_stamp root) baseline) es (fmupd i (read_section_for root baseline i slot) w) =
    (if \<forall>(i, slot) \<in> set es. slot_readable baseline i slot
     then Inr (fold (\<lambda>(i, slot). fmupd i (read_section_for root baseline i slot)) es
       (fmupd i (read_section_for root baseline i slot) w))
     else Inl (qe_contract SECTION_ENCODING_MISMATCH))"
    using Cons.prems(1) rest by (intro Cons.IH) (simp_all add: e)
  show ?case
    by (simp only: rfold.simps e materialize_step [OF i]) (simp add: IH)
qed simp

lemma map_of_keyed: "map_of (map (\<lambda>(k, v). (k, f k v)) kvs) k = map_option (f k) (map_of kvs k)"
  by (induction kvs) auto

lemma materialize_view:
  assumes "directory_keys_ok (ps_directory (rv_root view))"
  shows "if \<forall>i slot. fmlookup (ps_directory (rv_root view)) i = Some slot \<longrightarrow> slot_readable baseline i slot
    then \<exists>w. from_published_view_with_baseline view baseline = Inr w \<and>
      (\<forall>i. fmlookup w i = map_option (read_section_for (rv_root view) baseline i) (fmlookup (ps_directory (rv_root view)) i))
    else from_published_view_with_baseline view baseline = Inl (qe_contract SECTION_ENCODING_MISMATCH)"
proof -
  let ?d = "ps_directory (rv_root view)"
  let ?f = "\<lambda>(i, slot). fmupd i (read_section_for (rv_root view) baseline i slot)"
  let ?w = "fold ?f (fm_entries ?d) fmempty"
  have look: "fmlookup ?w i = map_option (read_section_for (rv_root view) baseline i) (fmlookup ?d i)" for i
  proof -
    let ?kvs = "map (\<lambda>(i, slot). (i, read_section_for (rv_root view) baseline i slot)) (fm_entries ?d)"
    have w: "?w = fold (\<lambda>(k, v). fmupd k v) ?kvs fmempty"
      by (simp add: fold_map comp_def case_prod_unfold)
    have "map fst ?kvs = map fst (fm_entries ?d)" by (simp add: case_prod_unfold comp_def)
    then have "distinct (map fst ?kvs)" by (simp only: distinct_fm_entries)
    then show ?thesis unfolding w by (simp add: fold_fmupd_lookup map_of_keyed map_of_fm_entries split: option.splits)
  qed
  have "section_id_wf i \<and> \<not> fm_has fmempty i" if "(i, slot) \<in> set (fm_entries ?d)" for i slot
    using that assms by (auto simp: directory_keys_ok_def set_fm_entries)
  then have "from_published_view_with_baseline view baseline =
    (if \<forall>(i, slot) \<in> set (fm_entries ?d). slot_readable baseline i slot then Inr ?w
     else Inl (qe_contract SECTION_ENCODING_MISMATCH))"
    unfolding from_published_view_with_baseline_def view_stamp_def
    by (intro materialize_all) (auto simp: distinct_fm_entries)
  moreover have "(\<forall>(i, slot) \<in> set (fm_entries ?d). slot_readable baseline i slot) \<longleftrightarrow>
      (\<forall>i slot. fmlookup ?d i = Some slot \<longrightarrow> slot_readable baseline i slot)"
    by (auto simp: set_fm_entries)
  ultimately show ?thesis using look by simp
qed

lemma materialized:
  assumes "directory_keys_ok (ps_directory (rv_root view))" "from_published_view_with_baseline view baseline = Inr w"
  shows "fmlookup w i = map_option (read_section_for (rv_root view) baseline i) (fmlookup (ps_directory (rv_root view)) i)"
  using materialize_view [OF assms(1), of baseline] assms(2) by (auto split: if_splits)

lemma materialized_reads:
  assumes "directory_keys_ok (ps_directory (rv_root view))" "from_published_view_with_baseline view baseline = Inr w"
  shows "seen_storage w i = Option.bind (fmlookup (ps_directory (rv_root view)) i) (slot_content baseline i)"
    and "fm_has (ps_directory (rv_root view)) i \<Longrightarrow> seen_revision w i = root_revision (rv_root view) (section_id_key i)"
proof -
  have look: "fmlookup w i = map_option (read_section_for (rv_root view) baseline i) (fmlookup (ps_directory (rv_root view)) i)"
    by (rule materialized [OF assms])
  show "seen_storage w i = Option.bind (fmlookup (ps_directory (rv_root view)) i) (slot_content baseline i)"
    by (cases "fmlookup (ps_directory (rv_root view)) i") (simp_all add: seen_storage_def look read_section_for_def)
  show "seen_revision w i = root_revision (rv_root view) (section_id_key i)" if "fm_has (ps_directory (rv_root view)) i"
    using that by (auto simp: seen_revision_def look read_section_for_def)
qed

lemma seen_storage_cells:
  assumes "directory_keys_ok (ps_directory (rv_root view))" "from_published_view_with_baseline view baseline = Inr w"
    "section_cells (rv_root view) i = Some s"
  shows "seen_storage w i = Some s" "fm_has (ps_directory (rv_root view)) i"
  using assms(3) materialized_reads(1) [OF assms(1,2), of i]
  by (auto simp: section_cells_Some slot_content_def)

section \<open>Properties\<close>

text \<open>
  The read source made from a published cut is complete or refused: it exists exactly
  when every ready section carries structured storage and every unchanged section has a baseline;
  every section of the directory then appears with its presence, its revision in the stamp (or the
  world revision) and its content, and no other section appears; otherwise the whole cut is refused
  with the encoding mismatch.
\<close>

theorem read_source_complete_or_refused:
  assumes "directory_keys_ok (ps_directory (rv_root view))"
  shows "if \<forall>i slot. fmlookup (ps_directory (rv_root view)) i = Some slot \<longrightarrow> slot_readable baseline i slot
    then \<exists>w. from_published_view_with_baseline view baseline = Inr w \<and> read_world_ok w \<and>
      (\<forall>i. fmlookup w i = map_option (read_section_for (rv_root view) baseline i) (fmlookup (ps_directory (rv_root view)) i))
    else from_published_view_with_baseline view baseline = Inl (qe_contract SECTION_ENCODING_MISMATCH)"
  using materialize_view [OF assms, of baseline] from_published_view_ok by (auto split: if_splits)

text \<open>A commit keeps a cut readable: the slots it replaces carry storage, the others stay.\<close>

lemma committed_cut_readable:
  assumes "\<And>i. section_id_wf i \<Longrightarrow> advanced q old new i"
    and "\<And>i. \<not> section_id_wf i \<Longrightarrow> fmlookup (ps_directory new) i = fmlookup (ps_directory old) i"
    and "directory_keys_ok (ps_directory old)"
    and "\<And>i slot. fmlookup (ps_directory old) i = Some slot \<Longrightarrow> slot_readable baseline i slot"
  shows "directory_keys_ok (ps_directory new)"
    and "fmlookup (ps_directory new) i = Some slot \<Longrightarrow> slot_readable baseline i slot"
proof -
  show "directory_keys_ok (ps_directory new)"
    unfolding directory_keys_ok_def using assms(2,3) by (metis directory_keys_ok_def)
  assume look: "fmlookup (ps_directory new) i = Some slot"
  show "slot_readable baseline i slot"
  proof (cases "section_id_wf i \<and> planned q (section_id_key i)")
    case True
    then obtain s where "section_cells new i = Some s"
      using assms(1) [of i] by (auto simp: advanced_def Let_def)
    with look show ?thesis by (auto simp: section_cells_Some slot_readable_def slot_content_def)
  next
    case False
    then have "fmlookup (ps_directory new) i = fmlookup (ps_directory old) i"
      using assms(1,2) [of i] by (auto simp: advanced_def Let_def)
    with look assms(4) show ?thesis by simp
  qed
qed

lemma cell_offset_in_section: "unat (cell_offset_of c) < cell_count"
proof -
  obtain x y z where c: "c = (x, y, z)" by (cases c)
  show ?thesis
    using cell_offset_from_world_max [of x "WorldY (of_int y)" z] by (simp add: c cell_offset_of_def word_le_nat_alt)
qed

lemma committed_cell:
  assumes keys: "directory_keys_ok (ps_directory (rv_root base))" "directory_keys_ok (ps_directory (rv_root after))"
    and w: "from_published_view_with_baseline base baseline = Inr w" "from_published_view_with_baseline after baseline = Inr w'"
    and adv: "advanced q (rv_root base) (rv_root after) (cell_section c)"
  shows "if planned q (section_id_key (cell_section c))
    then cell_block w' c =
        (case last_write (entries_of q (section_id_key (cell_section c))) (cell_offset_of c) of
           Some b \<Rightarrow> Some b | None \<Rightarrow> cell_block w c) \<and>
      checked_add (seen_revision w (cell_section c)) 1 = Some (seen_revision w' (cell_section c))
    else cell_block w' c = cell_block w c"
proof (cases "planned q (section_id_key (cell_section c))")
  let ?i = "cell_section c"
  case True
  with adv obtain s s' where s: "section_cells (rv_root base) ?i = Some s" "section_cells (rv_root after) ?i = Some s'"
    "checked_add (root_revision (rv_root base) (section_id_key ?i)) 1 = Some (root_revision (rv_root after) (section_id_key ?i))"
    and all: "\<forall>off. unat off < cell_count \<longrightarrow> storage_read s' off =
      (case last_write (entries_of q (section_id_key ?i)) off of Some b \<Rightarrow> b | None \<Rightarrow> storage_read s off)"
    by (auto simp: advanced_def Let_def)
  note rd = all [rule_format, OF cell_offset_in_section]
  note b = seen_storage_cells [OF keys(1) w(1) s(1)] and a = seen_storage_cells [OF keys(2) w(2) s(2)]
  from True s(3) rd a b show ?thesis
    by (simp add: cell_block_def materialized_reads(2) [OF keys(1) w(1)] materialized_reads(2) [OF keys(2) w(2)]
        split: option.splits)
next
  case False
  then have "fmlookup (ps_directory (rv_root after)) (cell_section c) = fmlookup (ps_directory (rv_root base)) (cell_section c)"
    using adv by (simp add: advanced_def Let_def)
  with False show ?thesis
    by (simp add: cell_block_def materialized_reads(1) [OF keys(1) w(1)] materialized_reads(1) [OF keys(2) w(2)])
qed


text \<open>The sample commit writes one cell of a section that was uniformly block 1.\<close>

definition sample_after :: "publication_authority \<Rightarrow> published_read_view" where
  "sample_after a = view_from_parts (pa_root a) (pa_pin a)"

lemma sample_base_read:
  "directory_keys_ok (view_directory sample_view)"
  "\<exists>w. from_published_view_with_baseline sample_view (\<lambda>_. None) = Inr w"
proof -
  have d: "ps_directory (rv_root sample_view) = fmupd (SectionId 1 2 3) (SlotReady sample_section) fmempty"
    using sample_view_simps(2) by (simp only: view_directory_def)
  show keys: "directory_keys_ok (view_directory sample_view)"
    by (simp add: directory_keys_ok_def section_id_wf_def)
  have "directory_keys_ok (ps_directory (rv_root sample_view))" using keys by (simp only: view_directory_def)
  from materialize_view [OF this, of "\<lambda>_. None"]
  show "\<exists>w. from_published_view_with_baseline sample_view (\<lambda>_. None) = Inr w"
    using sample_section_ok by (auto simp: d slot_readable_def slot_content_def split: if_splits)
qed

theorem read_source_complete_or_refused_witness:
  "\<exists>w. from_published_view_with_baseline sample_view (\<lambda>_. None) = Inr w \<and> read_world_ok w \<and>
     seen_storage w (SectionId 1 2 3) = Some (StUniform 1)"
proof -
  have d: "ps_directory (rv_root sample_view) = fmupd (SectionId 1 2 3) (SlotReady sample_section) fmempty"
    using sample_view_simps(2) by (simp only: view_directory_def)
  have "directory_keys_ok (ps_directory (rv_root sample_view))"
    using sample_base_read(1) by (simp only: view_directory_def)
  from read_source_complete_or_refused [OF this, of "\<lambda>_. None"] show ?thesis
    using sample_section_ok
    by (force simp: d slot_readable_def slot_content_def seen_storage_def read_section_for_def split: if_splits)
qed


end
