(* ===== verification/Pins.thy ===== *)
theory Pins
  imports Reads
begin

text \<open>
  Region pins (world crate, \<open>world/residency.rs\<close>, the part that knows no world): pin declarations
  under caller and host budgets, readiness, the gates on reads and evictions, and the expansion of a
  block region into section keys. The unload that the pins guard is in \<open>Residency\<close>.

  Two interfaces are stated as locales and provided by the pin manager: \<open>presence_policy\<close>, what a
  query walk relies on in a presence guard, and \<open>eviction_policy\<close>, what an unload relies on in a
  pin-exemption hook.
\<close>

section \<open>Errors\<close>

datatype pin_exemption_error = PinExemptionError (px_error_id: string)

definition px_invalid_handle :: pin_exemption_error where
  "px_invalid_handle = PinExemptionError ''InvalidHandle''"
definition px_pinned_section_evicted :: pin_exemption_error where
  "px_pinned_section_evicted = PinExemptionError (contract_error ''pinned_section_evicted'')"

datatype region_pin_error =
    RpInvalidHandle string | RpBudgetExceeded string | RpPinRegionNotReady string
  | RpPinnedReadReturnedPending string | RpWorldYOutOfRange string

fun region_pin_error_id :: "region_pin_error \<Rightarrow> string" where
  "region_pin_error_id (RpInvalidHandle i) = i"
| "region_pin_error_id (RpBudgetExceeded i) = i"
| "region_pin_error_id (RpPinRegionNotReady i) = i"
| "region_pin_error_id (RpPinnedReadReturnedPending i) = i"
| "region_pin_error_id (RpWorldYOutOfRange i) = i"

definition rp_invalid_handle :: region_pin_error where
  "rp_invalid_handle = RpInvalidHandle ''InvalidHandle''"
definition residency_pin_exceeds_budget :: region_pin_error where
  "residency_pin_exceeds_budget = RpBudgetExceeded (contract_error ''residency_pin_exceeds_budget'')"
definition pin_region_not_ready :: region_pin_error where
  "pin_region_not_ready = RpPinRegionNotReady (contract_error ''pin_region_not_ready'')"
definition rp_pinned_read_returned_pending :: region_pin_error where
  "rp_pinned_read_returned_pending = RpPinnedReadReturnedPending (contract_error ''pinned_read_returned_pending'')"
definition rp_world_y_out_of_range :: region_pin_error where
  "rp_world_y_out_of_range = RpWorldYOutOfRange (contract_error ''world_y_out_of_range'')"

section \<open>The pin manager\<close>

record region_budget =
  pb_caller_sections :: nat
  pb_host_sections :: nat

datatype pin_readiness = NotReady | PinReady | Released

fun readiness_as_str :: "pin_readiness \<Rightarrow> string" where
  "readiness_as_str NotReady = ''NotReady''"
| "readiness_as_str PinReady = ''Ready''"
| "readiness_as_str Released = ''Released''"

record region_pin_status =
  rst_pin_id :: u64
  rst_readiness :: pin_readiness
  rst_section_count :: nat

record region_pin =
  rgn_sections :: "string set"
  rgn_readiness :: pin_readiness

record region_pin_manager =
  rpm_budget :: region_budget
  rpm_next_pin_id :: u64
  rpm_pins :: "(u64, region_pin) fmap"

definition rpm_from_budget :: "region_budget \<Rightarrow> region_pin_manager" where
  "rpm_from_budget b = \<lparr>rpm_budget = b, rpm_next_pin_id = 1, rpm_pins = fmempty\<rparr>"

definition rpm_with_budgets :: "nat \<Rightarrow> nat \<Rightarrow> region_pin_manager" where
  "rpm_with_budgets caller_sections host_sections =
     rpm_from_budget \<lparr>pb_caller_sections = caller_sections, pb_host_sections = host_sections\<rparr>"

definition active_pins :: "region_pin_manager \<Rightarrow> region_pin list" where
  "active_pins m = filter (\<lambda>p. rgn_readiness p \<noteq> Released) (map snd (fm_entries (rpm_pins m)))"

definition active_sections :: "region_pin_manager \<Rightarrow> string set" where
  "active_sections m = \<Union> (set (map rgn_sections (active_pins m)))"

definition declare_step :: "nat \<Rightarrow> string \<Rightarrow> string set \<Rightarrow> region_pin_error + string set" where
  "declare_step max_requested raw sections =
     (if card sections \<ge> max_requested then Inl residency_pin_exceeds_budget
      else rbind (map_err (\<lambda>_. rp_invalid_handle) (section_id_parse raw)) (\<lambda>i.
        if section_id_key i \<in> sections then Inl rp_invalid_handle
        else Inr (insert (section_id_key i) sections)))"

definition declare_pin_with_budget ::
    "string list \<Rightarrow> region_budget \<Rightarrow> region_pin_manager \<Rightarrow> region_pin_error + u64 \<times> region_pin_manager" where
  "declare_pin_with_budget section_ids budget m =
     (let caller = min (pb_caller_sections budget) (pb_caller_sections (rpm_budget m));
          host = min (pb_host_sections budget) (pb_host_sections (rpm_budget m));
          max_requested = min caller host
      in rbind (rfold (declare_step max_requested) section_ids {}) (\<lambda>sections.
         if sections = {} then Inl rp_invalid_handle
         else
           let currently_pinned = active_sections m;
               additional = card (sections - currently_pinned)
           in rbind (ok_or residency_pin_exceeds_budget (usize_checked_add (card currently_pinned) additional)) (\<lambda>total.
              if card sections > caller \<or> card sections > host \<or> total > caller \<or> total > host
              then Inl residency_pin_exceeds_budget
              else rbind (ok_or rp_invalid_handle (checked_add (rpm_next_pin_id m) 1)) (\<lambda>n.
                Inr (rpm_next_pin_id m,
                     m\<lparr>rpm_next_pin_id := n,
                       rpm_pins := fmupd (rpm_next_pin_id m) \<lparr>rgn_sections = sections, rgn_readiness = NotReady\<rparr>
                         (rpm_pins m)\<rparr>)))))"

definition declare_pin ::
    "string list \<Rightarrow> region_pin_manager \<Rightarrow> region_pin_error + u64 \<times> region_pin_manager" where
  "declare_pin section_ids m = declare_pin_with_budget section_ids (rpm_budget m) m"

definition declare_with_budgets ::
    "string list \<Rightarrow> nat \<Rightarrow> nat \<Rightarrow> region_pin_manager \<Rightarrow> region_pin_error + u64 \<times> region_pin_manager" where
  "declare_with_budgets section_ids caller_sections host_sections m =
     declare_pin_with_budget section_ids
       \<lparr>pb_caller_sections = caller_sections, pb_host_sections = host_sections\<rparr> m"

definition pin_get :: "u64 \<Rightarrow> region_pin_manager \<Rightarrow> region_pin_error + region_pin" where
  "pin_get pin_id m = ok_or rp_invalid_handle (fmlookup (rpm_pins m) pin_id)"

definition pin_status :: "u64 \<Rightarrow> region_pin_manager \<Rightarrow> region_pin_error + region_pin_status" where
  "pin_status pin_id m =
     rbind (pin_get pin_id m) (\<lambda>pin.
     Inr \<lparr>rst_pin_id = pin_id, rst_readiness = rgn_readiness pin, rst_section_count = card (rgn_sections pin)\<rparr>)"

definition pin_readiness_of :: "u64 \<Rightarrow> region_pin_manager \<Rightarrow> region_pin_error + pin_readiness" where
  "pin_readiness_of pin_id m = rbind (pin_status pin_id m) (\<lambda>s. Inr (rst_readiness s))"

definition pin_is_ready :: "u64 \<Rightarrow> region_pin_manager \<Rightarrow> region_pin_error + bool" where
  "pin_is_ready pin_id m = rbind (pin_readiness_of pin_id m) (\<lambda>r. Inr (r = PinReady))"

definition pin_sections :: "u64 \<Rightarrow> region_pin_manager \<Rightarrow> region_pin_error + string list" where
  "pin_sections pin_id m = rbind (pin_get pin_id m) (\<lambda>pin. Inr (sorted_list_of_set (rgn_sections pin)))"

definition set_readiness :: "u64 \<Rightarrow> region_pin \<Rightarrow> pin_readiness \<Rightarrow> region_pin_manager \<Rightarrow> region_pin_manager" where
  "set_readiness pin_id pin r m = m\<lparr>rpm_pins := fmupd pin_id (pin\<lparr>rgn_readiness := r\<rparr>) (rpm_pins m)\<rparr>"

definition mark_ready :: "u64 \<Rightarrow> region_pin_manager \<Rightarrow> region_pin_error + region_pin_manager" where
  "mark_ready pin_id m =
     rbind (pin_get pin_id m) (\<lambda>pin.
     if rgn_readiness pin \<noteq> NotReady then Inl rp_invalid_handle
     else Inr (set_readiness pin_id pin PinReady m))"

definition settle :: "u64 \<Rightarrow> region_pin_manager \<Rightarrow> region_pin_error + unit" where
  "settle pin_id m =
     rbind (pin_status pin_id m) (\<lambda>s.
     case rst_readiness s of
       PinReady \<Rightarrow> Inr () | NotReady \<Rightarrow> Inl pin_region_not_ready | Released \<Rightarrow> Inl rp_invalid_handle)"

definition release_pin :: "u64 \<Rightarrow> region_pin_manager \<Rightarrow> region_pin_error + region_pin_manager" where
  "release_pin pin_id m =
     rbind (pin_get pin_id m) (\<lambda>pin.
     if rgn_readiness pin = Released then Inl rp_invalid_handle
     else Inr (set_readiness pin_id pin Released m))"

definition is_pinned :: "string \<Rightarrow> region_pin_manager \<Rightarrow> region_pin_error + bool" where
  "is_pinned sid m =
     rbind (map_err (\<lambda>_. rp_invalid_handle) (section_id_parse sid)) (\<lambda>i.
     Inr (fm_any (\<lambda>p. rgn_readiness p \<noteq> Released \<and> section_id_key i \<in> rgn_sections p) (rpm_pins m)))"

definition pinned_section_count :: "region_pin_manager \<Rightarrow> nat" where
  "pinned_section_count m = card (active_sections m)"

definition active_pin_count :: "region_pin_manager \<Rightarrow> nat" where
  "active_pin_count m = length (active_pins m)"

definition streaming_priority_eligible :: "string \<Rightarrow> region_pin_manager \<Rightarrow> region_pin_error + bool" where
  "streaming_priority_eligible sid m = rbind (is_pinned sid m) (\<lambda>b. Inr (\<not> b))"

definition excluded_from_streaming_priority :: "string \<Rightarrow> region_pin_manager \<Rightarrow> region_pin_error + bool" where
  "excluded_from_streaming_priority sid m = rbind (streaming_priority_eligible sid m) (\<lambda>b. Inr (\<not> b))"

definition validate_pinned_read ::
    "u64 \<Rightarrow> string \<Rightarrow> string \<Rightarrow> region_pin_manager \<Rightarrow> region_pin_error + unit" where
  "validate_pinned_read pin_id sid presence m =
     rbind (pin_get pin_id m) (\<lambda>pin.
     if rgn_readiness pin = Released then Inl rp_invalid_handle
     else rbind (map_err (\<lambda>_. rp_invalid_handle) (section_id_parse sid)) (\<lambda>i.
       if section_id_key i \<notin> rgn_sections pin then Inl rp_invalid_handle
       else if presence \<notin> set SECTION_PRESENCE then Inl rp_invalid_handle
       else if rgn_readiness pin = PinReady \<and> presence \<noteq> ''Ready'' then Inl rp_pinned_read_returned_pending
       else Inr ()))"

definition validate_presence :: "string \<Rightarrow> string \<Rightarrow> region_pin_manager \<Rightarrow> region_pin_error + unit" where
  "validate_presence sid presence m =
     (if presence \<notin> set SECTION_PRESENCE then Inl rp_invalid_handle
      else rbind (map_err (\<lambda>_. rp_invalid_handle) (section_id_parse sid)) (\<lambda>i.
        if fm_any (\<lambda>p. rgn_readiness p = PinReady \<and> section_id_key i \<in> rgn_sections p) (rpm_pins m) \<and>
           presence \<noteq> ''Ready''
        then Inl rp_pinned_read_returned_pending
        else Inr ()))"

text \<open>The manager as a pin-exemption hook and as a presence guard.\<close>

definition manager_exemption :: "region_pin_manager \<Rightarrow> string \<Rightarrow> pin_exemption_error + unit" where
  "manager_exemption m sid =
     rbind (map_err (\<lambda>_. px_invalid_handle) (is_pinned sid m)) (\<lambda>pinned.
     if pinned then Inl px_pinned_section_evicted else Inr ())"

definition no_pin_exemption :: "string \<Rightarrow> pin_exemption_error + unit" where
  "no_pin_exemption sid = Inl px_pinned_section_evicted"

definition manager_guard :: "region_pin_manager \<Rightarrow> presence_guard" where
  "manager_guard m sid presence = map_err region_pin_error_id (validate_presence sid presence m)"

section \<open>Regions as section keys\<close>

definition inclusive_span :: "int \<Rightarrow> int \<Rightarrow> nat" where
  "inclusive_span lo hi = (if 0 \<le> hi - lo + 1 then nat (hi - lo + 1) else usize_max)"

definition u8_range :: "u8 \<Rightarrow> u8 \<Rightarrow> u8 list" where
  "u8_range a b = map of_nat [unat a..<Suc (unat b)]"

text \<open>\<open>SectionId::new(x, y, z).unwrap().key()\<close>; \<open>None\<close> is the panic of the \<open>unwrap\<close>.\<close>

definition region_key :: "i32 \<times> u8 \<times> i32 \<Rightarrow> string option" where
  "region_key c =
     (let (x, y, z) = c in
      case section_id_new x (uint y) z of Inr i \<Rightarrow> Some (section_id_key i) | Inl _ \<Rightarrow> None)"

definition region_sections :: "i32 list \<Rightarrow> u8 list \<Rightarrow> i32 list \<Rightarrow> (i32 \<times> u8 \<times> i32) list" where
  "region_sections xs ys zs =
     concat (map (\<lambda>x. concat (map (\<lambda>y. map (\<lambda>z. (x, y, z)) zs) ys)) xs)"

definition section_keys_for_region ::
    "i32 \<Rightarrow> i32 \<Rightarrow> int \<Rightarrow> int \<Rightarrow> i32 \<Rightarrow> i32 \<Rightarrow> region_budget \<Rightarrow> (region_pin_error + string list) option" where
  "section_keys_for_region min_x max_x min_y max_y min_z max_z budget =
     (if sint min_x > sint max_x \<or> min_y > max_y \<or> sint min_z > sint max_z then Some (Inl rp_invalid_handle)
      else case world_y_new min_y of
        Inl _ \<Rightarrow> Some (Inl rp_world_y_out_of_range)
      | Inr lo \<Rightarrow>
       (case world_y_new max_y of
          Inl _ \<Rightarrow> Some (Inl rp_world_y_out_of_range)
        | Inr hi \<Rightarrow>
          (let x0 = div_euclid_16 min_x; x1 = div_euclid_16 max_x;
               y0 = world_y_section_y lo; y1 = world_y_section_y hi;
               z0 = div_euclid_16 min_z; z1 = div_euclid_16 max_z;
               span_x = inclusive_span (sint x0) (sint x1);
               span_y = inclusive_span (uint y0) (uint y1);
               span_z = inclusive_span (sint z0) (sint z1)
           in case Option.bind (usize_checked_mul span_x span_y) (\<lambda>c. usize_checked_mul c span_z) of
                None \<Rightarrow> Some (Inl residency_pin_exceeds_budget)
              | Some wanted \<Rightarrow>
                  if wanted > min (pb_caller_sections budget) (pb_host_sections budget)
                  then Some (Inl residency_pin_exceeds_budget)
                  else map_option (\<lambda>keys. Inr (sorted_list_of_set (set keys)))
                    (those (map region_key (region_sections (i32_range x0 x1) (u8_range y0 y1) (i32_range z0 z1)))))))"

section \<open>The interfaces\<close>

text \<open>A loop of checks that all fail the same way.\<close>

lemma rfold_checks:
  assumes "\<And>x. x \<in> set xs \<Longrightarrow> f x () = (if P x then Inl e else Inr ())"
  shows "rfold f xs () = (if \<exists>x \<in> set xs. P x then Inl e else Inr ())"
  using assms
proof (induction xs)
  case (Cons x xs)
  then show ?case by (cases "P x") auto
qed simp

text \<open>
  What readers rely on in a presence guard: some sections are held ready, and a result for one of them that
  is not \<open>Ready\<close> is refused with one error; every other known result passes.
\<close>

locale presence_policy =
  fixes guard :: presence_guard
    and held :: "string \<Rightarrow> bool"
  assumes guard_decides: "section_id_wf i \<Longrightarrow> presence \<in> set SECTION_PRESENCE \<Longrightarrow>
      guard (section_id_key i) presence =
        (if held (section_id_key i) \<and> presence \<noteq> ''Ready'' then Inl ''pinned_read_returned_pending'' else Inr ())"
begin

lemma guard_parsed:
  "section_id_parse sid = Inr i \<Longrightarrow> presence \<in> set SECTION_PRESENCE \<Longrightarrow>
     guard sid presence = (if held sid \<and> presence \<noteq> ''Ready'' then Inl ''pinned_read_returned_pending'' else Inr ())"
  using guard_decides [of i presence] by (simp add: section_parse_wf)

text \<open>A guarded query answers as the unguarded one, or refuses because a held section was not ready.\<close>

lemma guarded_query:
  assumes "planner_plan n q view config = Inr p" "qn_max_sections n \<le> usize_max"
    and "same_cut (view_stamp view) (view_stamp v)"
  shows "query_execute_guarded p v guard =
    (if \<exists>sid \<in> set (qp_canonical_sections p). held sid \<and> sa_presence (section_seen v sid) \<noteq> ''Ready''
     then Inl qe_pinned_read_returned_pending else query_execute p v)"
proof -
  note w = walk_of_plan [OF assms(1,3,2)]
  have parses: "\<exists>i. section_id_parse sid = Inr i" if "sid \<in> set (qp_canonical_sections p)" for sid
    using assms(1) that canonicalize_Inr [of "vq_section_ids q"] by (auto simp: planner_plan_Inr)
  have pres: "sa_presence (section_seen v sid) \<in> set SECTION_PRESENCE" for sid
    by (auto simp: section_seen_def SECTION_PRESENCE_def split: option.splits section_slot.splits)
  have "rfold (\<lambda>sid u. guard_check (Some guard) sid (sa_presence (section_seen v sid))) (qp_canonical_sections p) () =
      (if \<exists>sid \<in> set (qp_canonical_sections p). held sid \<and> sa_presence (section_seen v sid) \<noteq> ''Ready''
       then Inl qe_pinned_read_returned_pending else Inr ())"
  proof (rule rfold_checks)
    fix sid assume "sid \<in> set (qp_canonical_sections p)"
    then obtain i where "section_id_parse sid = Inr i" using parses by blast
    from guard_parsed [OF this pres]
    show "guard_check (Some guard) sid (sa_presence (section_seen v sid)) =
        (if held sid \<and> sa_presence (section_seen v sid) \<noteq> ''Ready'' then Inl qe_pinned_read_returned_pending else Inr ())"
      by (simp add: guard_check_def qe_pinned_read_returned_pending_def)
  qed
  with w(1) w(2) [of "Some guard"] w(2) [of None] show ?thesis
    by (simp add: query_execute_guarded_def query_walk_guarded_def query_execute_def query_walk_def guard_none)
qed

text \<open>The same for one cell read from a source.\<close>

lemma guarded_cell:
  assumes "read_one_cell w x y z = Inr r" "section_id_parse (cr_section_id r) = Inr i"
    and "cr_presence r \<in> set SECTION_PRESENCE"
  shows "read_one_cell_guarded w x y z guard =
    (if held (cr_section_id r) \<and> cr_presence r \<noteq> ''Ready''
     then Inl qe_pinned_read_returned_pending else Inr r)"
  using guard_parsed [OF assms(2,3)] assms(1)
  by (simp add: read_one_cell_guarded_def cell_guard_def qe_pinned_read_returned_pending_def)

end

text \<open>What an unload relies on in a pin-exemption hook.\<close>

locale eviction_policy =
  fixes exempt :: "string \<Rightarrow> pin_exemption_error + unit"
    and pinned :: "string \<Rightarrow> bool"
  assumes pinned_refused: "section_id_wf i \<Longrightarrow> pinned (section_id_key i) \<Longrightarrow>
      exempt (section_id_key i) = Inl px_pinned_section_evicted"
begin

lemma exempt_not_pinned: "exempt sid = Inr () \<Longrightarrow> section_id_parse sid = Inr i \<Longrightarrow> \<not> pinned sid"
  using pinned_refused [of i] by (auto simp: section_parse_wf)

end

section \<open>The pins of a manager\<close>

definition covered :: "pin_readiness set \<Rightarrow> region_pin_manager \<Rightarrow> string \<Rightarrow> bool" where
  "covered rs m sid \<longleftrightarrow>
     (\<exists>pin_id p. fmlookup (rpm_pins m) pin_id = Some p \<and> rgn_readiness p \<in> rs \<and> sid \<in> rgn_sections p)"

lemma contract_ids:
  "contract_error ''pinned_read_returned_pending'' = ''pinned_read_returned_pending''"
  "contract_error ''pinned_section_evicted'' = ''pinned_section_evicted''"
  "contract_error ''residency_pin_exceeds_budget'' = ''residency_pin_exceeds_budget''"
  by code_simp+

lemma active_sections_iff: "sid \<in> active_sections m \<longleftrightarrow> covered {NotReady, PinReady} m sid"
proof -
  have "r \<noteq> Released \<longleftrightarrow> r \<in> {NotReady, PinReady}" for r by (cases r) simp_all
  moreover have "p \<in> snd ` set (fm_entries (rpm_pins m)) \<longleftrightarrow> (\<exists>pin_id. fmlookup (rpm_pins m) pin_id = Some p)" for p
    by (force simp flip: set_fm_entries)
  ultimately show ?thesis by (auto simp: active_sections_def active_pins_def covered_def)
qed

lemma is_pinned_Inr:
  "section_id_parse sid = Inr i \<Longrightarrow> is_pinned sid m = Inr (covered {NotReady, PinReady} m sid)"
proof -
  have "r \<noteq> Released \<longleftrightarrow> r \<in> {NotReady, PinReady}" for r by (cases r) simp_all
  then show "section_id_parse sid = Inr i \<Longrightarrow> ?thesis"
    by (auto simp: is_pinned_def fm_any_iff covered_def section_parse_wf section_codec.decode_encode)
qed

interpretation manager: presence_policy "manager_guard m" "covered {PinReady} m" for m
  by unfold_locales
    (auto simp: manager_guard_def validate_presence_def section_codec.decode_encode fm_any_iff covered_def
      rp_pinned_read_returned_pending_def contract_ids)

interpretation manager: eviction_policy "manager_exemption m" "covered {NotReady, PinReady} m" for m
  by unfold_locales (simp add: manager_exemption_def is_pinned_Inr [OF section_codec.decode_encode])

interpretation nobody: eviction_policy no_pin_exemption "\<lambda>_. True"
  by unfold_locales (simp add: no_pin_exemption_def)

section \<open>Declarations\<close>

lemma declare_steps:
  assumes "finite acc"
  shows "rfold (declare_step n) raws acc = Inr s \<longleftrightarrow>
    (\<forall>raw \<in> set raws. \<exists>i. section_id_parse raw = Inr i) \<and> distinct raws \<and> set raws \<inter> acc = {} \<and>
    (raws \<noteq> [] \<longrightarrow> card acc + length raws \<le> n) \<and> s = acc \<union> set raws"
  using assms
proof (induction raws arbitrary: acc)
  case (Cons raw raws)
  have step: "declare_step n raw acc = Inr t \<longleftrightarrow>
      (\<exists>i. section_id_parse raw = Inr i) \<and> raw \<notin> acc \<and> card acc < n \<and> t = insert raw acc" for t
    by (auto simp: declare_step_def result_iff section_parse_wf)
  have card: "raw \<notin> acc \<Longrightarrow> card (insert raw acc) = Suc (card acc)" using Cons.prems by simp
  have "rfold (declare_step n) (raw # raws) acc = Inr s \<longleftrightarrow>
      (\<exists>i. section_id_parse raw = Inr i) \<and> raw \<notin> acc \<and> card acc < n \<and>
      rfold (declare_step n) raws (insert raw acc) = Inr s"
    by (auto simp: rbind_eq_Inr step)
  also have "\<dots> \<longleftrightarrow> (\<forall>r \<in> set (raw # raws). \<exists>i. section_id_parse r = Inr i) \<and> distinct (raw # raws) \<and>
      set (raw # raws) \<inter> acc = {} \<and> card acc + length (raw # raws) \<le> n \<and> s = acc \<union> set (raw # raws)"
    using card by (subst Cons.IH) (use Cons.prems in \<open>auto simp: Suc_le_eq\<close>)
  finally show ?case by simp
qed auto

text \<open>Both budgets bound the sections pinned together.\<close>

definition pin_limit :: "region_budget \<Rightarrow> region_budget \<Rightarrow> nat" where
  "pin_limit a b = min (min (pb_caller_sections a) (pb_caller_sections b)) (min (pb_host_sections a) (pb_host_sections b))"

definition manager_ok :: "region_pin_manager \<Rightarrow> bool" where
  "manager_ok m \<longleftrightarrow>
     (\<forall>pin_id p. fmlookup (rpm_pins m) pin_id = Some p \<longrightarrow> pin_id < rpm_next_pin_id m \<and>
        finite (rgn_sections p) \<and> rgn_sections p \<noteq> {} \<and> (\<forall>sid \<in> rgn_sections p. \<exists>i. section_id_parse sid = Inr i)) \<and>
     card (active_sections m) \<le> pin_limit (rpm_budget m) (rpm_budget m)"

lemma finite_active: "manager_ok m \<Longrightarrow> finite (active_sections m)"
proof -
  assume ok: "manager_ok m"
  have "finite (rgn_sections p)" if "p \<in> set (active_pins m)" for p
  proof -
    from that obtain pin_id where "(pin_id, p) \<in> set (fm_entries (rpm_pins m))" by (auto simp: active_pins_def)
    with ok show ?thesis unfolding manager_ok_def by (auto simp: set_fm_entries)
  qed
  then show ?thesis by (auto simp: active_sections_def)
qed

lemma checked_add_one_Some: "checked_add w 1 = Some n \<longleftrightarrow> w \<noteq> - 1 \<and> n = w + 1" for w n :: u64
proof -
  have "unat (- 1 :: u64) = 18446744073709551615" by (simp add: unsigned_minus_1_eq_mask mask_eq_exp_minus_1)
  then have "w = - 1 \<longleftrightarrow> unat w = 18446744073709551615" by (metis unsigned_word_eqI)
  then show ?thesis
    using checked_add_one_None [of w] by (cases "checked_add w 1") (auto simp: checked_add_def split: if_splits)
qed

lemma declare_pin_decides:
  assumes ok: "manager_ok m" and fit: "pin_limit b (rpm_budget m) \<le> usize_max"
  shows "declare_pin_with_budget raws b m = Inr (pin_id, m') \<longleftrightarrow>
    raws \<noteq> [] \<and> distinct raws \<and> (\<forall>raw \<in> set raws. \<exists>i. section_id_parse raw = Inr i) \<and>
    card (active_sections m \<union> set raws) \<le> pin_limit b (rpm_budget m) \<and>
    rpm_next_pin_id m \<noteq> - 1 \<and> pin_id = rpm_next_pin_id m \<and>
    m' = m\<lparr>rpm_next_pin_id := rpm_next_pin_id m + 1,
           rpm_pins := fmupd (rpm_next_pin_id m) \<lparr>rgn_sections = set raws, rgn_readiness = NotReady\<rparr> (rpm_pins m)\<rparr>"
proof -
  let ?A = "active_sections m" and ?S = "set raws"
  have fin: "finite ?A" by (rule finite_active [OF ok])
  have sum: "card ?A + card (?S - ?A) = card (?A \<union> ?S)"
    using fin by (subst card_Un_disjoint [symmetric]) (auto intro: arg_cong [where f = card])
  have mono: "card ?S \<le> card (?A \<union> ?S)" using fin by (intro card_mono) auto
  have dl: "distinct raws \<Longrightarrow> length raws = card ?S" by (simp add: distinct_card)
  show ?thesis
    unfolding declare_pin_with_budget_def Let_def rbind_eq_Inr
    using fit mono dl sum
    by (auto simp: declare_steps usize_checked_add_def rbind_eq_Inr ok_or_eq_Inr checked_add_one_Some pin_limit_def split: if_splits)
qed

section \<open>Every history of a manager\<close>

inductive pin_step :: "region_pin_manager \<Rightarrow> region_pin_manager \<Rightarrow> bool" where
  pin_declared: "declare_pin_with_budget raws b m = Inr (pin_id, m') \<Longrightarrow> pin_step m m'"
| pin_readied: "mark_ready pin_id m = Inr m' \<Longrightarrow> pin_step m m'"
| pin_released: "release_pin pin_id m = Inr m' \<Longrightarrow> pin_step m m'"

lemma set_readiness_covered:
  assumes "fmlookup (rpm_pins m) pin_id = Some p"
  shows "covered rs (set_readiness pin_id p r m) sid \<longleftrightarrow>
    (\<exists>q pin. fmlookup (rpm_pins m) q = Some pin \<and> (if q = pin_id then r else rgn_readiness pin) \<in> rs \<and> sid \<in> rgn_sections pin)"
  using assms unfolding covered_def set_readiness_def
  by (auto split: if_splits)

lemma manager_ok_readiness:
  assumes "manager_ok m" "fmlookup (rpm_pins m) pin_id = Some p" "rgn_readiness p \<noteq> Released"
  shows "manager_ok (set_readiness pin_id p r m) \<and> active_sections (set_readiness pin_id p r m) \<subseteq> active_sections m"
proof -
  have r: "q = pin_id \<Longrightarrow> fmlookup (rpm_pins m) q = Some pin \<Longrightarrow> rgn_readiness pin \<in> {NotReady, PinReady}" for q pin
    using assms(2,3) by (cases "rgn_readiness pin") auto
  have sub: "active_sections (set_readiness pin_id p r m) \<subseteq> active_sections m"
  proof
    fix sid assume "sid \<in> active_sections (set_readiness pin_id p r m)"
    then obtain q pin where q: "fmlookup (rpm_pins m) q = Some pin" "sid \<in> rgn_sections pin"
      "(if q = pin_id then r else rgn_readiness pin) \<in> {NotReady, PinReady}"
      unfolding active_sections_iff set_readiness_covered [OF assms(2)] by blast
    with r have "rgn_readiness pin \<in> {NotReady, PinReady}" by (cases "q = pin_id") auto
    with q show "sid \<in> active_sections m" unfolding active_sections_iff covered_def by blast
  qed
  then have "card (active_sections (set_readiness pin_id p r m)) \<le> card (active_sections m)"
    using finite_active [OF assms(1)] by (rule card_mono [rotated])
  with assms(1,2) sub show ?thesis by (auto simp: manager_ok_def set_readiness_def)
qed

lemma declared_active:
  assumes "m' = m\<lparr>rpm_next_pin_id := n,
      rpm_pins := fmupd pin_id \<lparr>rgn_sections = S, rgn_readiness = NotReady\<rparr> (rpm_pins m)\<rparr>"
    and "fmlookup (rpm_pins m) pin_id = None"
  shows "active_sections m' = active_sections m \<union> S"
  using assms by (auto simp: active_sections_iff covered_def split: if_splits) (metis option.distinct(1))+

lemma next_pin_fresh: "manager_ok m \<Longrightarrow> fmlookup (rpm_pins m) (rpm_next_pin_id m) = None"
  unfolding manager_ok_def by (metis less_irrefl not_Some_eq)

lemma pin_limit_self: "pin_limit b b = min (pb_caller_sections b) (pb_host_sections b)"
  by (simp add: pin_limit_def)

lemma pin_limit_le: "pin_limit b c \<le> pin_limit c c"
  by (auto simp: pin_limit_def min_def)

lemma manager_ok_declare:
  assumes "manager_ok m" "pin_limit (rpm_budget m) (rpm_budget m) \<le> usize_max"
    and "declare_pin_with_budget raws b m = Inr (pin_id, m')"
  shows "manager_ok m' \<and> active_sections m' = active_sections m \<union> set raws"
proof -
  have fit: "pin_limit b (rpm_budget m) \<le> usize_max" using assms(2) pin_limit_le [of b "rpm_budget m"] by linarith
  note d = assms(3) [unfolded declare_pin_decides [OF assms(1) fit]]
  have act: "active_sections m' = active_sections m \<union> set raws"
    using d next_pin_fresh [OF assms(1)] by (intro declared_active) auto
  have "rpm_next_pin_id m < rpm_next_pin_id m + 1"
    using d by (intro checked_add_one_greater) (simp add: checked_add_one_Some)
  then have less: "pin_id' < rpm_next_pin_id m \<Longrightarrow> pin_id' < rpm_next_pin_id m + 1" for pin_id' by simp
  from d act assms(1) pin_limit_le [of b "rpm_budget m"] \<open>rpm_next_pin_id m < rpm_next_pin_id m + 1\<close>
  show ?thesis unfolding manager_ok_def by (auto intro: less)
qed

lemma pin_steps_ok:
  assumes "pin_step\<^sup>*\<^sup>* m0 m" "manager_ok m0" "pin_limit (rpm_budget m0) (rpm_budget m0) \<le> usize_max"
  shows "manager_ok m \<and> rpm_budget m = rpm_budget m0"
  using assms(1)
proof (induction rule: rtranclp_induct)
  case base
  with assms(2) show ?case by simp
next
  case (step m m')
  from step.hyps(2) show ?case
  proof cases
    case (pin_declared raws b pin_id)
    have fit: "pin_limit b (rpm_budget m) \<le> usize_max"
      using assms(3) step.IH pin_limit_le [of b "rpm_budget m"] by simp
    from pin_declared have "rpm_budget m' = rpm_budget m"
      using step.IH declare_pin_decides [of m b, OF _ fit] by auto
    with manager_ok_declare [OF _ _ pin_declared] step.IH assms(3) show ?thesis by simp
  next
    case (pin_readied pin_id)
    then obtain p where "fmlookup (rpm_pins m) pin_id = Some p" "rgn_readiness p = NotReady" "m' = set_readiness pin_id p PinReady m"
      by (auto simp: mark_ready_def pin_get_def result_iff split: if_splits)
    with manager_ok_readiness [of m pin_id p PinReady] step.IH show ?thesis by (simp add: set_readiness_def)
  next
    case (pin_released pin_id)
    then obtain p where "fmlookup (rpm_pins m) pin_id = Some p" "rgn_readiness p \<noteq> Released" "m' = set_readiness pin_id p Released m"
      by (auto simp: release_pin_def pin_get_def result_iff split: if_splits)
    with manager_ok_readiness [of m pin_id p Released] step.IH show ?thesis by (simp add: set_readiness_def)
  qed
qed

lemma manager_ok_new: "manager_ok (rpm_with_budgets c h)"
proof -
  have "active_sections (rpm_with_budgets c h) = {}"
    by (auto simp: active_sections_iff covered_def rpm_with_budgets_def rpm_from_budget_def)
  then show ?thesis by (simp add: manager_ok_def) (simp add: rpm_with_budgets_def rpm_from_budget_def)
qed

section \<open>The sections of a region\<close>

lemma those_map: "(\<And>x. x \<in> set xs \<Longrightarrow> f x = Some (g x)) \<Longrightarrow> those (map f xs) = Some (map g xs)"
  by (induction xs) auto

lemma div_image: "a \<le> b \<Longrightarrow> (\<lambda>x. x div 16) ` {a..b} = {a div 16..b div (16 :: int)}"
proof (intro equalityI subsetI)
  fix s assume ab: "a \<le> b" and s: "s \<in> {a div 16..b div 16}"
  have "max a (16 * s) \<in> {a..b}" using ab s by auto
  moreover have "max a (16 * s) div 16 = s" using s by (auto simp: max_def)
  ultimately show "s \<in> (\<lambda>x. x div 16) ` {a..b}" by (metis image_eqI)
qed (auto intro: zdiv_mono1)

lemma i32_range_div:
  assumes "sint a \<le> sint b"
  shows "set (i32_range (div_euclid_16 a) (div_euclid_16 b)) = div_euclid_16 ` set (i32_range a b)"
proof -
  have "x \<in> set (i32_range (div_euclid_16 a) (div_euclid_16 b)) \<longleftrightarrow> sint x \<in> (\<lambda>v. v div 16) ` {sint a..sint b}" for x
    unfolding set_i32_range sint_div_euclid_16 div_image [OF assms] by simp
  also have "\<dots> x \<longleftrightarrow> (\<exists>v \<in> {sint a..sint b}. x = of_int (v div 16))" for x
  proof
    assume "sint x \<in> (\<lambda>v. v div 16) ` {sint a..sint b}"
    then obtain v where "v \<in> {sint a..sint b}" "sint x = v div 16" by blast
    moreover have "x = of_int (sint x)" by simp
    ultimately show "\<exists>v \<in> {sint a..sint b}. x = of_int (v div 16)" by metis
  next
    assume "\<exists>v \<in> {sint a..sint b}. x = of_int (v div 16)"
    then obtain v where v: "v \<in> {sint a..sint b}" "x = of_int (v div 16)" by blast
    then have "- 2147483648 \<le> v" "v < 2147483648"
      using sint_i32_range(1) [of a] sint_i32_range(2) [of b] by auto
    then have "- 2147483648 \<le> v div 16" "v div 16 < 2147483648" by auto
    then have "sint x = v div 16" unfolding v(2) by (intro sint_of_int_i32) simp_all
    with v(1) show "sint x \<in> (\<lambda>v. v div 16) ` {sint a..sint b}" by blast
  qed
  also have "\<dots> x \<longleftrightarrow> x \<in> div_euclid_16 ` set (i32_range a b)" for x
  proof
    assume "\<exists>v \<in> {sint a..sint b}. x = of_int (v div 16)"
    then obtain v where v: "v \<in> {sint a..sint b}" "x = of_int (v div 16)" by blast
    then have "sint (of_int v :: i32) = v"
      using sint_i32_range(1) [of a] sint_i32_range(2) [of b] by (simp add: sint_of_int_i32)
    with v have "of_int v \<in> set (i32_range a b)" "x = div_euclid_16 (of_int v)"
      by (simp_all add: set_i32_range div_euclid_16_def)
    then show "x \<in> div_euclid_16 ` set (i32_range a b)" by blast
  qed (force simp: set_i32_range div_euclid_16_def)
  finally show ?thesis by blast
qed

abbreviation y_section :: "int \<Rightarrow> u8" where
  "y_section y \<equiv> world_y_section_y (WorldY (of_int y))"

lemma y_section_div:
  assumes "0 \<le> y" "y \<le> 255"
  shows "int (unat (y_section y)) = y div 16"
proof -
  have "unat (of_int y :: u8) = nat y" using assms by (simp add: unat_of_int_u8)
  then have "unat (y_section y) = nat y div 16"
    unfolding world_y_section_y_def unat_drop_bit_eq by (simp add: drop_bit_eq_div)
  with assms show ?thesis by (simp add: zdiv_int)
qed

lemma u8_range_div:
  assumes "0 \<le> lo" "lo \<le> hi" "hi \<le> 255"
  shows "set (u8_range (y_section lo) (y_section hi)) = y_section ` {lo..hi}"
proof -
  note u = y_section_div
  have "x \<in> set (u8_range (y_section lo) (y_section hi)) \<longleftrightarrow> int (unat x) \<in> {lo div 16..hi div 16}" for x
  proof -
    have "x \<in> set (u8_range (y_section lo) (y_section hi)) \<longleftrightarrow> unat (y_section lo) \<le> unat x \<and> unat x \<le> unat (y_section hi)"
    proof
      assume "x \<in> set (u8_range (y_section lo) (y_section hi))"
      then obtain n where n: "unat (y_section lo) \<le> n" "n \<le> unat (y_section hi)" "x = of_nat n"
        by (auto simp: u8_range_def less_Suc_eq_le simp del: upt_Suc)
      moreover have "unat (of_nat n :: u8) = n"
        using n(2) unsigned_less [of "y_section hi", where 'a = nat] by (intro unat_of_nat_u8) simp
      ultimately show "unat (y_section lo) \<le> unat x \<and> unat x \<le> unat (y_section hi)" by simp
    next
      assume "unat (y_section lo) \<le> unat x \<and> unat x \<le> unat (y_section hi)"
      then have "unat x \<in> set [unat (y_section lo)..<Suc (unat (y_section hi))]"
        by (simp only: set_upt atLeastLessThan_iff less_Suc_eq_le)
      then have "of_nat (unat x) \<in> set (u8_range (y_section lo) (y_section hi))"
        unfolding u8_range_def set_map by (rule imageI)
      then show "x \<in> set (u8_range (y_section lo) (y_section hi))" by simp
    qed
    moreover have "unat (y_section lo) \<le> unat x \<longleftrightarrow> lo div 16 \<le> int (unat x)"
      "unat x \<le> unat (y_section hi) \<longleftrightarrow> int (unat x) \<le> hi div 16"
      using u [of lo] u [of hi] assms by linarith+
    ultimately show ?thesis by (simp only: atLeastAtMost_iff)
  qed
  also have "\<dots> x \<longleftrightarrow> x \<in> y_section ` {lo..hi}" for x
  proof
    assume "int (unat x) \<in> {lo div 16..hi div 16}"
    then have "int (unat x) \<in> (\<lambda>x. x div 16) ` {lo..hi}" unfolding div_image [OF assms(2)] .
    then obtain y where y: "y \<in> {lo..hi}" "int (unat x) = y div 16" by blast
    then have "int (unat x) = int (unat (y_section y))" using u [of y] assms(1,3) by (simp only: atLeastAtMost_iff) linarith
    then have "unat x = unat (y_section y)" by (simp only: of_nat_eq_iff)
    then show "x \<in> y_section ` {lo..hi}" using y(1) unsigned_word_eqI by blast
  next
    assume "x \<in> y_section ` {lo..hi}"
    then obtain y where "x = y_section y" "lo \<le> y" "y \<le> hi" by auto
    with u [of y] assms(1,3) show "int (unat x) \<in> {lo div 16..hi div 16}" by (auto intro: zdiv_mono1)
  qed
  finally show "set (u8_range (y_section lo) (y_section hi)) = y_section ` {lo..hi}" by blast
qed

definition region_of :: "cell_pos \<Rightarrow> cell_pos \<Rightarrow> section_id set" where
  "region_of lo hi = cell_section ` set (box_cells lo hi)"

lemma region_product:
  assumes "sint x0 \<le> sint x1" "0 \<le> y0" "y0 \<le> y1" "y1 \<le> 255" "sint z0 \<le> sint z1"
  defines "X \<equiv> i32_range (div_euclid_16 x0) (div_euclid_16 x1)"
    and "Y \<equiv> u8_range (y_section y0) (y_section y1)"
    and "Z \<equiv> i32_range (div_euclid_16 z0) (div_euclid_16 z1)"
  shows "region_of (x0, y0, z0) (x1, y1, z1) = (\<lambda>(x, y, z). SectionId x y z) ` (set X \<times> set Y \<times> set Z)"
proof -
  have "region_of (x0, y0, z0) (x1, y1, z1) = cell_section ` (set (i32_range x0 x1) \<times> {y0..y1} \<times> set (i32_range z0 z1))"
    by (auto simp: region_of_def set_box_cells set_i32_range intro!: arg_cong [where f = "\<lambda>s. cell_section ` s"])
  also have "\<dots> = (\<lambda>(x, y, z). SectionId x y z) `
      ((div_euclid_16 ` set (i32_range x0 x1)) \<times> (y_section ` {y0..y1}) \<times> (div_euclid_16 ` set (i32_range z0 z1)))"
    by (force simp: cell_section_def)
  finally show ?thesis
    unfolding X_def Y_def Z_def i32_range_div [OF assms(1)] i32_range_div [OF assms(5)] u8_range_div [OF assms(2,3,4)] .
qed

lemma card_i32_range_div:
  assumes "sint a \<le> sint b"
  shows "card (set (i32_range (div_euclid_16 a) (div_euclid_16 b))) = nat (sint b div 16 - sint a div 16 + 1)"
    and "inclusive_span (sint (div_euclid_16 a)) (sint (div_euclid_16 b)) = nat (sint b div 16 - sint a div 16 + 1)"
    and "nat (sint b div 16 - sint a div 16 + 1) \<le> 2 ^ 28"
proof -
  have "sint a div 16 \<le> sint b div 16" using assms by (rule zdiv_mono1) simp
  then show "inclusive_span (sint (div_euclid_16 a)) (sint (div_euclid_16 b)) = nat (sint b div 16 - sint a div 16 + 1)"
    by (simp add: inclusive_span_def sint_div_euclid_16)
  show "card (set (i32_range (div_euclid_16 a) (div_euclid_16 b))) = nat (sint b div 16 - sint a div 16 + 1)"
    by (simp add: distinct_card distinct_i32_range length_i32_range sint_div_euclid_16)
  have "- 134217728 \<le> sint a div 16" "sint b div 16 < 134217728"
    using sint_i32_range [of a] sint_i32_range [of b] by auto
  then show "nat (sint b div 16 - sint a div 16 + 1) \<le> 2 ^ 28" by simp
qed

lemma card_u8_range:
  "unat a \<le> unat b \<Longrightarrow> card (set (u8_range a b)) = unat b - unat a + 1"
proof -
  assume "unat a \<le> unat b"
  have "inj_on (of_nat :: nat \<Rightarrow> u8) {unat a..<Suc (unat b)}"
  proof (rule inj_onI)
    fix m n assume mn: "m \<in> {unat a..<Suc (unat b)}" "n \<in> {unat a..<Suc (unat b)}" "(of_nat m :: u8) = of_nat n"
    have "m < 256" "n < 256" using mn(1,2) unsigned_less [of b, where 'a = nat] by auto
    with mn(3) show "m = n" by (metis unat_of_nat_u8)
  qed
  then have "card (set (u8_range a b)) = card {unat a..<Suc (unat b)}"
    unfolding u8_range_def set_map set_upt by (rule card_image)
  with \<open>unat a \<le> unat b\<close> show ?thesis by simp
qed

lemma region_count:
  assumes "sint x0 \<le> sint x1" "0 \<le> y0" "y0 \<le> y1" "y1 \<le> 255" "sint z0 \<le> sint z1"
  shows "Option.bind (usize_checked_mul (inclusive_span (sint (div_euclid_16 x0)) (sint (div_euclid_16 x1)))
        (inclusive_span (uint (y_section y0)) (uint (y_section y1))))
      (\<lambda>c. usize_checked_mul c (inclusive_span (sint (div_euclid_16 z0)) (sint (div_euclid_16 z1)))) =
    Some (card (region_of (x0, y0, z0) (x1, y1, z1)))"
proof -
  let ?X = "set (i32_range (div_euclid_16 x0) (div_euclid_16 x1))" and ?Y = "set (u8_range (y_section y0) (y_section y1))"
    and ?Z = "set (i32_range (div_euclid_16 z0) (div_euclid_16 z1))"
  have y: "int (unat (y_section y0)) \<le> int (unat (y_section y1))" "int (unat (y_section y1)) \<le> 15"
    using y_section_div [of y0] y_section_div [of y1] assms(2-4) by (auto intro: zdiv_mono1)
  then have le: "unat (y_section y0) \<le> unat (y_section y1)" by (simp only: of_nat_le_iff)
  then have "uint (y_section y1) - uint (y_section y0) + 1 = int (unat (y_section y1) - unat (y_section y0) + 1)"
    by (simp add: of_nat_diff)
  then have sy: "inclusive_span (uint (y_section y0)) (uint (y_section y1)) = card ?Y"
    unfolding card_u8_range [OF le] inclusive_span_def by (simp only: nat_int of_nat_0_le_iff if_True)
  have "inj_on (\<lambda>(x, y, z). SectionId x y z) (?X \<times> ?Y \<times> ?Z)" by (auto simp: inj_on_def)
  then have c: "card (region_of (x0, y0, z0) (x1, y1, z1)) = card ?X * (card ?Y * card ?Z)"
    unfolding region_product [OF assms] by (simp add: card_image card_cartesian_product)
  have Y: "card ?Y \<le> 16" using y(2) unfolding card_u8_range [OF le] by linarith
  note X = card_i32_range_div [OF assms(1)] and Z = card_i32_range_div [OF assms(5)]
  have xy: "card ?X * card ?Y \<le> 2 ^ 28 * 16" unfolding X(1) by (rule mult_le_mono [OF X(3) Y])
  have "card ?X * card ?Y * card ?Z \<le> 2 ^ 28 * 16 * 2 ^ 28" unfolding Z(1) by (rule mult_le_mono [OF xy Z(3)])
  with xy have "card ?X * card ?Y \<le> usize_max" "card ?X * card ?Y * card ?Z \<le> usize_max"
    by (erule_tac [!] order_trans) simp_all
  then show ?thesis
    unfolding c sy X(2) Z(2) X(1) [symmetric] Z(1) [symmetric]
    by (simp add: usize_checked_mul_def mult.assoc)
qed

lemma section_keys_for_region_spec:
  "section_keys_for_region x0 x1 y0 y1 z0 z1 b =
    (if sint x1 < sint x0 \<or> y1 < y0 \<or> sint z1 < sint z0 then Some (Inl rp_invalid_handle)
     else if y0 < 0 \<or> 255 < y1 then Some (Inl rp_world_y_out_of_range)
     else if min (pb_caller_sections b) (pb_host_sections b) < card (region_of (x0, y0, z0) (x1, y1, z1))
     then Some (Inl residency_pin_exceeds_budget)
     else Some (Inr (sorted_list_of_set (section_id_key ` region_of (x0, y0, z0) (x1, y1, z1)))))"
proof (cases "sint x0 \<le> sint x1 \<and> y0 \<le> y1 \<and> sint z0 \<le> sint z1 \<and> 0 \<le> y0 \<and> y1 \<le> 255")
  case True
  then have ok: "sint x0 \<le> sint x1" "0 \<le> y0" "y0 \<le> y1" "y1 \<le> 255" "sint z0 \<le> sint z1" by simp_all
  let ?cs = "region_sections (i32_range (div_euclid_16 x0) (div_euclid_16 x1)) (u8_range (y_section y0) (y_section y1))
      (i32_range (div_euclid_16 z0) (div_euclid_16 z1))"
  let ?id = "\<lambda>(x, y, z). SectionId x y z"
  have set: "set ?cs = set (i32_range (div_euclid_16 x0) (div_euclid_16 x1)) \<times>
      set (u8_range (y_section y0) (y_section y1)) \<times> set (i32_range (div_euclid_16 z0) (div_euclid_16 z1))"
    by (auto simp: region_sections_def)
  have ids: "?id ` set ?cs = region_of (x0, y0, z0) (x1, y1, z1)"
    unfolding set by (rule region_product [OF ok, symmetric])
  have key: "region_key c = Some (section_id_key (?id c))" if "c \<in> set ?cs" for c
  proof -
    obtain x y z where c: "c = (x, y, z)" by (cases c)
    from that c have "y \<in> y_section ` {y0..y1}" unfolding set u8_range_div [OF ok(2,3,4)] by simp
    then have "unat y \<le> 15" using section_y_le by blast
    then show ?thesis by (simp add: c region_key_def section_id_new_def check_section_y_uint)
  qed
  have "those (map region_key ?cs) = Some (map (\<lambda>c. section_id_key (?id c)) ?cs)" by (rule those_map) (rule key)
  moreover have "set (map (\<lambda>c. section_id_key (?id c)) ?cs) = section_id_key ` region_of (x0, y0, z0) (x1, y1, z1)"
    unfolding ids [symmetric] by (simp add: image_image case_prod_unfold)
  ultimately show ?thesis
    using ok region_count [OF ok] unfolding section_keys_for_region_def
    by (simp add: world_y_new_def Let_def)
qed (auto simp: section_keys_for_region_def world_y_new_def split: sum.splits)

section \<open>Properties\<close>

text \<open>
  C17. Pinned sections never exceed the budgets. In every history of declarations (under any tighter budget),
  readiness marks and releases, the sections covered by unreleased pins stay within both budgets; a
  declaration is admitted exactly when its sections are canonical, distinct and not empty and fit beside
  the pinned ones, it then takes an id no pin ever had, and a refused one changes nothing.
\<close>

theorem region_pins_stay_within_budget:
  assumes "pin_step\<^sup>*\<^sup>* (rpm_with_budgets caller host) m" "min caller host \<le> usize_max"
  shows "pinned_section_count m \<le> min caller host \<and>
    fmlookup (rpm_pins m) (rpm_next_pin_id m) = None \<and>
    (declare_pin raws m = Inr (pin_id, m') \<longleftrightarrow>
      raws \<noteq> [] \<and> distinct raws \<and> list_all (\<lambda>raw. \<exists>i. section_id_parse raw = Inr i) raws \<and>
      card (active_sections m \<union> set raws) \<le> min caller host \<and> rpm_next_pin_id m \<noteq> - 1 \<and>
      pin_id = rpm_next_pin_id m \<and>
      m' = m\<lparr>rpm_next_pin_id := rpm_next_pin_id m + 1,
             rpm_pins := fmupd (rpm_next_pin_id m) \<lparr>rgn_sections = set raws, rgn_readiness = NotReady\<rparr> (rpm_pins m)\<rparr>)"
proof -
  let ?b = "\<lparr>pb_caller_sections = caller, pb_host_sections = host\<rparr>"
  have "manager_ok m \<and> rpm_budget m = ?b"
    using pin_steps_ok [OF assms(1) manager_ok_new] assms(2)
    by (simp add: rpm_with_budgets_def rpm_from_budget_def pin_limit_self)
  moreover from this have "pin_limit ?b (rpm_budget m) \<le> usize_max" using assms(2) by (simp add: pin_limit_self)
  ultimately show ?thesis
    using declare_pin_decides [of m ?b raws pin_id m'] next_pin_fresh [of m]
    by (auto simp: manager_ok_def pinned_section_count_def declare_pin_def pin_limit_self list_all_iff)
qed

lemma sample_section_key: "section_id_parse ''s:1:2:3'' = Inr (SectionId 1 2 3)"
proof -
  have "section_id_key (SectionId 1 2 3) = ''s:1:2:3''" by code_simp
  then show ?thesis by (simp add: section_parse_wf section_id_wf_def)
qed

definition sample_pins :: region_pin_manager where
  "sample_pins = \<lparr>rpm_budget = \<lparr>pb_caller_sections = 1, pb_host_sections = 2\<rparr>, rpm_next_pin_id = 2,
     rpm_pins = fmupd 1 \<lparr>rgn_sections = {''s:1:2:3''}, rgn_readiness = NotReady\<rparr> fmempty\<rparr>"

theorem region_pins_stay_within_budget_witness:
  "declare_pin [''s:1:2:3''] (rpm_with_budgets 1 2) = Inr (1, sample_pins) \<and>
     (\<nexists>m'. declare_pin [''s:0:0:0''] sample_pins = Inr (2, m'))"
proof -
  have "active_sections (rpm_with_budgets 1 2) = {}"
    by (auto simp: active_sections_iff covered_def rpm_with_budgets_def rpm_from_budget_def)
  then have d: "declare_pin [''s:1:2:3''] (rpm_with_budgets 1 2) = Inr (1, sample_pins)"
    using region_pins_stay_within_budget [of 1 2 "rpm_with_budgets 1 2" "[''s:1:2:3'']" 1 sample_pins] sample_section_key
    by (simp add: rpm_with_budgets_def rpm_from_budget_def sample_pins_def)
  then have "pin_step\<^sup>*\<^sup>* (rpm_with_budgets 1 2) sample_pins"
    by (auto simp: declare_pin_def intro: pin_declared)
  moreover have "active_sections sample_pins = {''s:1:2:3''}"
    by (auto simp: active_sections_iff covered_def sample_pins_def split: if_splits)
  ultimately show ?thesis
    using region_pins_stay_within_budget [of 1 2 sample_pins "[''s:0:0:0'']" 2] d by auto
qed

text \<open>
  C18. A ready pin is never answered with a section that is not there. A query walked with the manager as
  presence guard answers exactly as the unguarded walk of the same cut, unless some planned section is
  covered by a ready pin and is not \<open>Ready\<close> in the cut; then the whole query is refused with
  \<open>pinned_read_returned_pending\<close>. Pins that are declared but not ready, or released, never refuse.
\<close>

theorem pinned_queries_complete_or_refused:
  assumes "planner_plan n q view config = Inr p" "qn_max_sections n \<le> usize_max"
    and "same_cut (view_stamp view) (view_stamp v)"
  shows "query_execute_guarded p v (manager_guard m) =
    (if \<exists>sid \<in> set (qp_canonical_sections p). covered {PinReady} m sid \<and> sa_presence (section_seen v sid) \<noteq> ''Ready''
     then Inl qe_pinned_read_returned_pending else query_execute p v)"
  by (rule manager.guarded_query [OF assms])

theorem pinned_queries_complete_or_refused_witness:
  "\<exists>p o1. planner_plan sample_planner sample_query query_view sample_capable = Inr p \<and>
     query_execute_guarded p query_view (manager_guard sample_pins) = Inr o1 \<and> query_execute p query_view = Inr o1"
proof -
  obtain p where p: "planner_plan sample_planner sample_query query_view sample_capable = Inr p"
    using sample_plan_exists [of sample_capable] by (auto simp: sample_capable_def)
  have n: "qn_max_sections sample_planner \<le> usize_max" by (simp add: sample_planner_def)
  have "\<not> covered {PinReady} sample_pins sid" for sid by (auto simp: covered_def sample_pins_def split: if_splits)
  with pinned_queries_complete_or_refused [OF p n, of query_view sample_pins]
  have "query_execute_guarded p query_view (manager_guard sample_pins) = query_execute p query_view"
    by (simp add: same_cut_def)
  moreover have "\<exists>o1. query_execute p query_view = Inr o1"
    using walk_of_plan [OF p _ n, of query_view] by (simp add: same_cut_def query_execute_def query_walk_def guard_none)
  ultimately show ?thesis using p by auto
qed

text \<open>
  A block region expands to exactly the sections of its cells. An ordered region within the world's
  height yields the keys of the sections that hold at least one of its cells, each once, in key order, when
  both budgets admit that many sections; it is refused by the budget otherwise. The count of sections
  never overflows and the \<open>unwrap\<close> of a section id never panics.
\<close>

theorem region_expands_to_its_sections:
  "section_keys_for_region x0 x1 y0 y1 z0 z1 b =
    (if sint x1 < sint x0 \<or> y1 < y0 \<or> sint z1 < sint z0 then Some (Inl rp_invalid_handle)
     else if y0 < 0 \<or> 255 < y1 then Some (Inl rp_world_y_out_of_range)
     else if min (pb_caller_sections b) (pb_host_sections b) < card (region_of (x0, y0, z0) (x1, y1, z1))
     then Some (Inl residency_pin_exceeds_budget)
     else Some (Inr (sorted_list_of_set (section_id_key ` region_of (x0, y0, z0) (x1, y1, z1)))))"
  by (rule section_keys_for_region_spec)

end
