(* ===== verification/Async.thy ===== *)
theory Async
  imports Config Plumbing
begin

text \<open>
  Support for work that completes later (ops crate, \<open>async_support/\<close>): origin tokens, the bounded job
  port, and the classification of completions. The facts show that the port is a bounded first-in
  first-out queue whose budget always equals its occupancy.
\<close>

section \<open>Origin tokens\<close>

definition APPLY_PHASES :: "string list" where
  "APPLY_PHASES = [''IngressCapture'', ''DecodeAndCanonicalize'', ''ApplyInputs'', ''ProcessorPlan'',
     ''CrossWorldPrepare'', ''NativeJobBarrier'', ''CommitDecision'', ''VoxelCommit'',
     ''EcsCommandBufferCommit'', ''GasAndEventFinalize'', ''ReplicationProjection'',
     ''SnapshotHashMetrics'', ''EgressPublish'']"

record origin_token =
  ot_world_context_id :: string
  ot_instance_generation :: u64
  ot_request_id :: string
  ot_input_world_revision :: u64
  ot_input_section_revision_set :: "(string, u64) fmap"
  ot_apply_phase :: string

datatype origin_error = OriginError (oe_error_id: string)

definition origin_try_new ::
    "string \<Rightarrow> u64 \<Rightarrow> string \<Rightarrow> u64 \<Rightarrow> (string, u64) fmap \<Rightarrow> string \<Rightarrow> origin_error + origin_token" where
  "origin_try_new context_id generation request_id world_revision section_revisions apply_phase =
     (if context_id = [] \<or> request_id = [] then Inl (OriginError ''InvalidHandle'')
      else if apply_phase \<notin> set APPLY_PHASES then Inl (OriginError ''InvalidHandle'')
      else Inr \<lparr>ot_world_context_id = context_id, ot_instance_generation = generation,
                ot_request_id = request_id, ot_input_world_revision = world_revision,
                ot_input_section_revision_set = section_revisions, ot_apply_phase = apply_phase\<rparr>)"

record 't origin_envelope =
  en_origin :: origin_token
  en_config_hash :: string
  en_payload :: 't

section \<open>The bounded job port\<close>

datatype submit_error = SubmitError (sb_error_id: string)

definition full_load_action :: string where "full_load_action = ''QueueFull''"

record 't bounded_job_port =
  jp_snapshot :: voxel_config_snapshot
  jp_slots :: nat
  jp_bound :: bounded_buffer
  jp_queue :: "'t origin_envelope list"

text \<open>
  The budget rebuilt for an occupancy. The \<open>expect\<close> panics, \<open>None\<close> here, when the occupancy exceeds
  the slots.
\<close>

fun occupy :: "nat \<Rightarrow> bounded_buffer \<Rightarrow> bounded_buffer option" where
  "occupy 0 b = Some b"
| "occupy (Suc n) b = (case bounded_buffer_push 1 b of Inr b' \<Rightarrow> occupy n b' | Inl _ \<Rightarrow> None)"

definition occupancy_bound :: "nat \<Rightarrow> nat \<Rightarrow> bounded_buffer option" where
  "occupancy_bound slots occupancy = occupy occupancy (bounded_buffer_new slots)"

definition job_port_from_approved_snapshot ::
    "voxel_config_snapshot \<Rightarrow> nat \<Rightarrow> (submit_error + 't bounded_job_port) option" where
  "job_port_from_approved_snapshot snapshot slots =
     (if slots = 0 then Some (Inl (SubmitError full_load_action))
      else map_option (\<lambda>b. Inr \<lparr>jp_snapshot = snapshot, jp_slots = slots, jp_bound = b, jp_queue = []\<rparr>)
             (occupancy_bound slots 0))"

definition job_port_config_hash :: "'t bounded_job_port \<Rightarrow> string" where
  "job_port_config_hash p = cs_config_hash (jp_snapshot p)"

definition try_submit ::
    "'t origin_envelope \<Rightarrow> 't bounded_job_port \<Rightarrow> (submit_error + unit) \<times> 't bounded_job_port" where
  "try_submit job p =
     (if en_config_hash job \<noteq> cs_config_hash (jp_snapshot p)
      then (Inl (SubmitError ''EvidenceDigestMismatch''), p)
      else case bounded_buffer_push 1 (jp_bound p) of
        Inr b \<Rightarrow> (Inr (), p\<lparr>jp_bound := b, jp_queue := jp_queue p @ [job]\<rparr>)
      | Inl BufferFull \<Rightarrow> (Inl (SubmitError full_load_action), p))"

text \<open>The outer option is a panic.\<close>

definition job_port_pop ::
    "'t bounded_job_port \<Rightarrow> ('t origin_envelope option \<times> 't bounded_job_port) option" where
  "job_port_pop p =
     (case jp_queue p of
        [] \<Rightarrow> Some (None, p)
      | job # rest \<Rightarrow>
          map_option (\<lambda>b. (Some job, p\<lparr>jp_queue := rest, jp_bound := b\<rparr>))
            (occupancy_bound (jp_slots p) (length rest)))"

section \<open>Completions\<close>

datatype completion_disposition = AcceptCompletion | StaleCompletion | DuplicateCompletion | LateCompletion | CancelledCompletion | WrongWorld

record 'r completion_envelope =
  ce_origin :: origin_token
  ce_outcome :: "string + 'r"

definition validate_completion :: "origin_token \<Rightarrow> origin_token \<Rightarrow> completion_disposition" where
  "validate_completion expected current =
     (if ot_world_context_id expected \<noteq> ot_world_context_id current then WrongWorld
      else if ot_instance_generation current < ot_instance_generation expected then StaleCompletion
      else if ot_instance_generation current \<noteq> ot_instance_generation expected then WrongWorld
      else if ot_input_world_revision current < ot_input_world_revision expected then LateCompletion
      else if ot_apply_phase expected \<noteq> ot_apply_phase current then LateCompletion
      else if ot_request_id expected = ot_request_id current then DuplicateCompletion
      else AcceptCompletion)"

section \<open>The port is a bounded queue\<close>

text \<open>The invariant: the budget holds one mark per queued job, and never more than the slots.\<close>

definition port_ok :: "'t bounded_job_port \<Rightarrow> bool" where
  "port_ok p \<longleftrightarrow> jp_bound p = \<lparr>bb_inner = replicate (length (jp_queue p)) 1, bb_cap = jp_slots p\<rparr> \<and>
     length (jp_queue p) \<le> jp_slots p"

lemma occupy_fits:
  "length (bb_inner b) + n \<le> bb_cap b \<Longrightarrow> occupy n b = Some (b\<lparr>bb_inner := bb_inner b @ replicate n 1\<rparr>)"
  by (induction n arbitrary: b) (simp_all add: bounded_buffer_push_def)

lemma occupancy_bound_fits:
  "n \<le> slots \<Longrightarrow> occupancy_bound slots n = Some \<lparr>bb_inner = replicate n 1, bb_cap = slots\<rparr>"
  using occupy_fits [of "bounded_buffer_new slots" n] by (simp add: occupancy_bound_def bounded_buffer_new_def)

lemma port_ok_new:
  "job_port_from_approved_snapshot snapshot slots = Some (Inr p) \<Longrightarrow>
     port_ok p \<and> jp_queue p = [] \<and> jp_slots p = slots \<and> 0 < slots \<and> jp_snapshot p = snapshot"
  by (auto simp: job_port_from_approved_snapshot_def occupancy_bound_fits port_ok_def split: if_splits)

datatype 't port_op = Submit "'t origin_envelope" | Pop
datatype 't port_answer = Submitted | Refused submit_error | Popped "'t origin_envelope option"

text \<open>Operations run one after another on a port; a panic ends the run.\<close>

fun port_step :: "'t port_op \<Rightarrow> 't bounded_job_port \<Rightarrow> ('t port_answer \<times> 't bounded_job_port) option" where
  "port_step (Submit job) p =
     (case try_submit job p of (Inr _, p') \<Rightarrow> Some (Submitted, p') | (Inl e, p') \<Rightarrow> Some (Refused e, p'))"
| "port_step Pop p = map_option (\<lambda>(j, p'). (Popped j, p')) (job_port_pop p)"

fun port_run :: "'t port_op list \<Rightarrow> 't bounded_job_port \<Rightarrow> ('t port_answer list \<times> 't bounded_job_port) option" where
  "port_run [] p = Some ([], p)"
| "port_run (x # xs) p =
     (case port_step x p of None \<Rightarrow> None
      | Some (a, p') \<Rightarrow> map_option (\<lambda>(as, q). (a # as, q)) (port_run xs p'))"

text \<open>The specification: a list with a length bound.\<close>

fun queue_step :: "string \<Rightarrow> nat \<Rightarrow> 't port_op \<Rightarrow> 't origin_envelope list \<Rightarrow> 't port_answer \<times> 't origin_envelope list" where
  "queue_step h n (Submit job) q =
     (if en_config_hash job \<noteq> h then (Refused (SubmitError ''EvidenceDigestMismatch''), q)
      else if length q < n then (Submitted, q @ [job]) else (Refused (SubmitError ''QueueFull''), q))"
| "queue_step h n Pop q = (case q of [] \<Rightarrow> (Popped None, q) | j # r \<Rightarrow> (Popped (Some j), r))"

fun queue_run :: "string \<Rightarrow> nat \<Rightarrow> 't port_op list \<Rightarrow> 't origin_envelope list \<Rightarrow> 't port_answer list \<times> 't origin_envelope list" where
  "queue_run h n [] q = ([], q)"
| "queue_run h n (x # xs) q =
     (let (a, q') = queue_step h n x q; (as, r) = queue_run h n xs q' in (a # as, r))"

lemma port_step_refines:
  assumes "port_ok p"
  shows "\<exists>p'. port_step x p = Some (fst (queue_step (job_port_config_hash p) (jp_slots p) x (jp_queue p)), p') \<and>
     jp_queue p' = snd (queue_step (job_port_config_hash p) (jp_slots p) x (jp_queue p)) \<and>
     port_ok p' \<and> jp_slots p' = jp_slots p \<and> jp_snapshot p' = jp_snapshot p"
proof (cases x)
  case (Submit job)
  with assms show ?thesis
    by (auto simp: try_submit_def port_ok_def bounded_buffer_push_def job_port_config_hash_def full_load_action_def
        simp flip: replicate_append_same)
next
  case Pop
  with assms show ?thesis
    by (cases "jp_queue p") (auto simp: job_port_pop_def port_ok_def occupancy_bound_fits)
qed

lemma port_run_refines:
  assumes "port_ok p"
  shows "\<exists>p'. port_run xs p = Some (fst (queue_run (job_port_config_hash p) (jp_slots p) xs (jp_queue p)), p') \<and>
     jp_queue p' = snd (queue_run (job_port_config_hash p) (jp_slots p) xs (jp_queue p)) \<and>
     port_ok p' \<and> jp_slots p' = jp_slots p"
  using assms
proof (induction xs arbitrary: p)
  case (Cons x xs)
  from port_step_refines [OF Cons.prems, of x] obtain p1
    where p1: "port_step x p = Some (fst (queue_step (job_port_config_hash p) (jp_slots p) x (jp_queue p)), p1)"
      "jp_queue p1 = snd (queue_step (job_port_config_hash p) (jp_slots p) x (jp_queue p))"
      "port_ok p1" "jp_slots p1 = jp_slots p" "jp_snapshot p1 = jp_snapshot p" by blast
  from Cons.IH [OF p1(3)] obtain p2
    where "port_run xs p1 = Some (fst (queue_run (job_port_config_hash p) (jp_slots p) xs (jp_queue p1)), p2)"
      "jp_queue p2 = snd (queue_run (job_port_config_hash p) (jp_slots p) xs (jp_queue p1))"
      "port_ok p2" "jp_slots p2 = jp_slots p" using p1 by (auto simp: job_port_config_hash_def)
  with p1 show ?case by (auto simp: Let_def case_prod_unfold)
qed auto

text \<open>
  C40. The job port is a bounded first-in first-out queue. Whatever jobs are submitted and popped in
  whatever order, the port of \<open>n\<close> slots never panics, answers exactly as a list of at most \<open>n\<close> jobs
  would (jobs of another configuration are refused, a full port answers \<open>QueueFull\<close> and keeps
  its jobs, surplus pops return nothing and free no slot), and its budget equals its occupancy.
\<close>

theorem job_port_refines_bounded_queue:
  assumes "job_port_from_approved_snapshot snapshot n = Some (Inr p)"
  shows "\<exists>p'. port_run xs p = Some (fst (queue_run (cs_config_hash snapshot) n xs []), p') \<and>
     jp_queue p' = snd (queue_run (cs_config_hash snapshot) n xs []) \<and>
     length (jp_queue p') \<le> n \<and> length (bounded_buffer_as_slice (jp_bound p')) = length (jp_queue p')"
proof -
  note new = port_ok_new [OF assms]
  then obtain p' where "port_run xs p = Some (fst (queue_run (cs_config_hash snapshot) n xs []), p')"
    "jp_queue p' = snd (queue_run (cs_config_hash snapshot) n xs [])" "port_ok p'" "jp_slots p' = n"
    using port_run_refines [of p xs] by (auto simp: job_port_config_hash_def)
  then show ?thesis by (auto simp: port_ok_def bounded_buffer_as_slice_def)
qed

definition sample_job :: "nat origin_envelope" where
  "sample_job =
     \<lparr>en_origin = \<lparr>ot_world_context_id = ''ctx'', ot_instance_generation = 7, ot_request_id = ''r'',
        ot_input_world_revision = 3, ot_input_section_revision_set = fmempty, ot_apply_phase = ''VoxelCommit''\<rparr>,
      en_config_hash = ''h'', en_payload = 5\<rparr>"

theorem job_port_refines_bounded_queue_witness:
  "\<exists>p p'. job_port_from_approved_snapshot \<lparr>cs_config_hash = ''h'', cs_allow_list = []\<rparr> 1 =
       Some (Inr (p :: nat bounded_job_port)) \<and>
     port_run [Pop, Submit sample_job, Submit sample_job, Pop] p =
       Some (fst (queue_run ''h'' 1 [Pop, Submit sample_job, Submit sample_job, Pop] []), p')"
proof -
  obtain p :: "nat bounded_job_port"
    where "job_port_from_approved_snapshot \<lparr>cs_config_hash = ''h'', cs_allow_list = []\<rparr> 1 = Some (Inr p)"
    by (simp add: job_port_from_approved_snapshot_def occupancy_bound_fits)
  from job_port_refines_bounded_queue [OF this, of "[Pop, Submit sample_job, Submit sample_job, Pop]"] this show ?thesis by auto
qed

end
