(* ===== verification/World.thy ===== *)
theory World
  imports Pins Async Pipeline
begin

text \<open>
  One voxel world (world crate, \<open>world/\<close>): the session state machine, limits, creation and the
  generation counter, command admission, barrier scopes, the write lane and the router.

  An operation on \<open>&mut VoxelWorld\<close> is an \<open>action\<close>: it returns a result and the world after it, or
  \<open>None\<close> for a panic. A read view captured by an operation is dropped when the operation returns, on
  error paths too (\<open>act_with_view\<close>), and an exclusive lease or barrier gives its occupancy back the
  same way (\<open>act_occupied\<close>).
\<close>

section \<open>Errors\<close>

datatype world_error = WorldError (we_error_id: string)

definition intern_stable :: "string \<Rightarrow> string" where
  "intern_stable i = (case intern_error_code i of Some c \<Rightarrow> c | None \<Rightarrow> i)"

definition we_mapped :: "string \<Rightarrow> world_error" where "we_mapped i = WorldError (intern_stable i)"
definition we_invalid_handle :: world_error where "we_invalid_handle = we_mapped ''InvalidHandle''"
definition we_stale_epoch :: world_error where "we_stale_epoch = we_mapped ''StaleEpoch''"
definition we_session_mismatch :: world_error where "we_session_mismatch = we_mapped ''SessionMismatch''"
definition we_role_mismatch :: world_error where "we_role_mismatch = we_mapped ''RoleMismatch''"
definition we_claim_not_granted :: world_error where "we_claim_not_granted = we_mapped ''ClaimNotGranted''"

section \<open>The session machine\<close>

definition SIMULATION_SESSION_MACHINE :: string where "SIMULATION_SESSION_MACHINE = ''SimulationSession''"

definition SESSION_TRANSITIONS :: "(string \<times> string \<times> string) list" where
  "SESSION_TRANSITIONS =
     [(''Created'', ''Initialize'', ''Initialized''),
      (''Initialized'', ''Prime'', ''Ready''),
      (''Ready'', ''Start'', ''Running''),
      (''Running'', ''Pause'', ''Paused''),
      (''Paused'', ''Resume'', ''Running''),
      (''Running'', ''Drain'', ''Draining''),
      (''Paused'', ''Drain'', ''Draining''),
      (''Draining'', ''FinalSnapshotTaken'', ''Snapshotted''),
      (''Snapshotted'', ''Dispose'', ''Disposed'')]"

fun find_map :: "('a \<Rightarrow> 'b option) \<Rightarrow> 'a list \<Rightarrow> 'b option" where
  "find_map f [] = None"
| "find_map f (x # xs) = (case f x of Some y \<Rightarrow> Some y | None \<Rightarrow> find_map f xs)"

definition intern_session_state :: "string \<Rightarrow> string option" where
  "intern_session_state nm =
     find_map (\<lambda>(from, ev, to). if from = nm then Some from else if to = nm then Some to else None)
       SESSION_TRANSITIONS"

definition intern_session_event :: "string \<Rightarrow> string option" where
  "intern_session_event nm =
     find_map (\<lambda>(from, ev, to). if ev = nm then Some ev else None) SESSION_TRANSITIONS"

definition has_session_edge :: "string \<Rightarrow> string \<Rightarrow> string \<Rightarrow> bool" where
  "has_session_edge from ev to \<longleftrightarrow> list_ex (\<lambda>(f, e, t). f = from \<and> e = ev \<and> t = to) SESSION_TRANSITIONS"

text \<open>\<open>intern_or_bug\<close> and \<open>expect\<close> panic on a name that is no state; the names the code passes are states.\<close>

definition intern_or_bug :: "string \<Rightarrow> string" where
  "intern_or_bug nm = the (intern_session_state nm)"

definition session_created :: string where "session_created = the (intern_session_state ''Created'')"

definition session_apply :: "string \<Rightarrow> string \<Rightarrow> string \<Rightarrow> world_error + string" where
  "session_apply current ev to = (if \<not> has_session_edge current ev to then Inl we_invalid_handle else Inr to)"

definition query_admissible :: "string \<Rightarrow> bool" where
  "query_admissible state \<longleftrightarrow>
     state = intern_or_bug ''Ready'' \<or> state = intern_or_bug ''Running'' \<or> state = intern_or_bug ''Paused''"

definition write_admissible :: "string \<Rightarrow> bool" where
  "write_admissible state \<longleftrightarrow> state = intern_or_bug ''Running''"

section \<open>The instance\<close>

record world_limits =
  wl_max_pinned_revisions :: nat
  wl_max_receipts :: nat
  wl_max_query_sections :: nat

definition default_limits :: world_limits where
  "default_limits = \<lparr>wl_max_pinned_revisions = 64, wl_max_receipts = 4096, wl_max_query_sections = 256\<rparr>"

definition limits_validate :: "world_limits \<Rightarrow> world_error + world_limits" where
  "limits_validate l =
     (if wl_max_pinned_revisions l < 2 \<or> wl_max_receipts l = 0 \<or> wl_max_query_sections l = 0
      then Inl (we_mapped ''BudgetExceeded'') else Inr l)"

record world_descriptor =
  wd_role :: string
  wd_world_context_id :: string
  wd_capabilities :: "string list"
  wd_world_id :: string

record voxel_world =
  vw_role :: string
  vw_world_id :: string
  vw_context_id :: string
  vw_generation :: u64
  vw_snapshot :: voxel_config_snapshot
  vw_limits :: world_limits
  vw_state :: string
  vw_authority :: publication_authority
  vw_ledger :: receipt_ledger
  vw_planner :: query_planner
  vw_write_occupied :: bool
  vw_region_pins :: "region_pin_manager option"

record world_state_view =
  sv_lifecycle :: string
  sv_machine :: string
  sv_role :: string
  sv_world_context_id :: string
  sv_world_id :: string
  sv_instance_generation :: u64

record generation_guard =
  gg_world_context_id :: string
  gg_generation :: u64

definition generation_guard_of :: "voxel_world \<Rightarrow> generation_guard" where
  "generation_guard_of w = \<lparr>gg_world_context_id = vw_context_id w, gg_generation = vw_generation w\<rparr>"

definition world_state_view_of :: "voxel_world \<Rightarrow> world_state_view" where
  "world_state_view_of w =
     \<lparr>sv_lifecycle = vw_state w, sv_machine = SIMULATION_SESSION_MACHINE, sv_role = vw_role w,
      sv_world_context_id = vw_context_id w, sv_world_id = vw_world_id w,
      sv_instance_generation = vw_generation w\<rparr>"

definition check_origin :: "generation_guard \<Rightarrow> origin_token \<Rightarrow> world_error + unit" where
  "check_origin g origin =
     (if ot_world_context_id origin = [] \<or> ot_request_id origin = [] then Inl we_invalid_handle
      else if ot_world_context_id origin \<noteq> gg_world_context_id g then Inl we_session_mismatch
      else if ot_instance_generation origin \<noteq> gg_generation g then Inl we_stale_epoch
      else Inr ())"

definition VOXEL_WORLD_ROLES :: "string list" where "VOXEL_WORLD_ROLES = [''Authority'', ''Replica'']"

definition intern_role :: "string \<Rightarrow> world_error + string" where
  "intern_role role =
     (if role = [] then Inl we_invalid_handle
      else ok_or we_role_mismatch (find (\<lambda>item. item = role) VOXEL_WORLD_ROLES))"

definition intern_local_embedded_pair :: "string \<Rightarrow> string \<Rightarrow> world_error + string \<times> string" where
  "intern_local_embedded_pair first second =
     rbind (intern_role first) (\<lambda>first.
     rbind (intern_role second) (\<lambda>second.
     if first = second then Inl we_role_mismatch else Inr (first, second)))"

text \<open>\<open>fetch_update\<close> on the generation counter: the old value, or a refusal that leaves the counter.\<close>

definition allocate_from :: "u64 \<Rightarrow> (world_error + u64) \<times> u64" where
  "allocate_from counter =
     (case (if counter = 0 then None else checked_add counter 1) of
        None \<Rightarrow> (Inl we_invalid_handle, counter) | Some n \<Rightarrow> (Inr counter, n))"

definition validate_capabilities :: "string list \<Rightarrow> voxel_config_snapshot \<Rightarrow> world_error + unit" where
  "validate_capabilities requested snapshot =
     (if requested = [] then Inl we_claim_not_granted
      else rbind (map_err (\<lambda>e. we_mapped (capability_error_id e))
             (capability_derive (capability_set_from_names requested) snapshot)) (\<lambda>_. Inr ()))"

definition initial_root :: "string \<Rightarrow> string \<Rightarrow> u64 \<Rightarrow> world_error + published_state_root" where
  "initial_root world_id context_id generation =
     (let stamp = \<lparr>rs_schema_id = REVISION_STAMP_SCHEMA, rs_world_id = world_id, rs_context_id = context_id,
                   rs_generation = generation, rs_world_revision = 0, rs_section_revision_set = fmempty\<rparr>
      in rbind (map_err (\<lambda>e. we_mapped (dirty_error_id e)) (dirty_frontier_new world_id generation)) (\<lambda>dirty.
         Inr (published_root_new stamp directory_builder_new dirty)))"

definition bind_query_planner :: "voxel_config_snapshot \<Rightarrow> nat \<Rightarrow> world_error + query_planner" where
  "bind_query_planner snapshot max_sections =
     map_err (\<lambda>e. we_mapped (qe_error_id e)) (planner_from_approved_snapshot snapshot max_sections)"

text \<open>Everything after the generation has been allocated.\<close>

definition world_assemble ::
    "string \<Rightarrow> world_descriptor \<Rightarrow> voxel_config_snapshot \<Rightarrow> world_limits \<Rightarrow> u64 \<Rightarrow> world_error + voxel_world" where
  "world_assemble role d snapshot limits generation =
     (let world_id = wd_world_id d; context_id = wd_world_context_id d;
          pins = registry_from_approved_snapshot snapshot (wl_max_pinned_revisions limits) context_id generation
      in rbind (initial_root world_id context_id generation) (\<lambda>root.
         rbind (map_err (\<lambda>e. we_mapped (publish_error_id e)) (authority_new world_id context_id generation pins root)) (\<lambda>authority.
         rbind (map_err (\<lambda>e. we_mapped (le_error_id e)) (ledger_from_approved_snapshot snapshot (wl_max_receipts limits))) (\<lambda>ledger.
         rbind (bind_query_planner snapshot (wl_max_query_sections limits)) (\<lambda>planner.
         Inr \<lparr>vw_role = role, vw_world_id = world_id, vw_context_id = context_id, vw_generation = generation,
              vw_snapshot = snapshot, vw_limits = limits, vw_state = session_created, vw_authority = authority,
              vw_ledger = ledger, vw_planner = planner, vw_write_occupied = False, vw_region_pins = None\<rparr>)))))"

definition create_with_limits ::
    "world_descriptor \<Rightarrow> voxel_config_snapshot \<Rightarrow> world_limits \<Rightarrow> u64 \<Rightarrow> (world_error + voxel_world) \<times> u64" where
  "create_with_limits d snapshot limits counter =
     (case rbind (limits_validate limits) (\<lambda>limits.
           rbind (intern_role (wd_role d)) (\<lambda>role.
           if wd_world_context_id d = [] \<or> wd_world_id d = [] then Inl we_invalid_handle
           else rbind (validate_capabilities (wd_capabilities d) snapshot) (\<lambda>_. Inr (limits, role)))) of
        Inl e \<Rightarrow> (Inl e, counter)
      | Inr (limits, role) \<Rightarrow>
          (case allocate_from counter of
             (Inl e, counter') \<Rightarrow> (Inl e, counter')
           | (Inr generation, counter') \<Rightarrow> (world_assemble role d snapshot limits generation, counter')))"

definition world_create :: "world_descriptor \<Rightarrow> voxel_config_snapshot \<Rightarrow> u64 \<Rightarrow> (world_error + voxel_world) \<times> u64" where
  "world_create d snapshot counter = create_with_limits d snapshot default_limits counter"

definition retained_receipt_count :: "voxel_world \<Rightarrow> nat" where
  "retained_receipt_count w = fm_len (lg_entries (vw_ledger w))"

definition world_config_hash :: "voxel_world \<Rightarrow> string" where
  "world_config_hash w = cs_config_hash (vw_snapshot w)"

definition set_region_pin_manager :: "region_pin_manager \<Rightarrow> voxel_world \<Rightarrow> voxel_world" where
  "set_region_pin_manager m w = w\<lparr>vw_region_pins := Some m\<rparr>"

section \<open>Actions\<close>

type_synonym 'a action = "voxel_world \<Rightarrow> ((world_error + 'a) \<times> voxel_world) option"

definition act_lift :: "world_error + 'a \<Rightarrow> 'a action" where
  "act_lift r w = Some (r, w)"

definition act_bind :: "'a action \<Rightarrow> ('a \<Rightarrow> 'b action) \<Rightarrow> 'b action" where
  "act_bind m f w =
     (case m w of
        None \<Rightarrow> None
      | Some (Inl e, w') \<Rightarrow> Some (Inl e, w')
      | Some (Inr x, w') \<Rightarrow> f x w')"

definition world_capture :: "voxel_world \<Rightarrow> published_read_view \<times> voxel_world" where
  "world_capture w = (let (v, a) = authority_capture (vw_authority w) in (v, w\<lparr>vw_authority := a\<rparr>))"

definition world_drop :: "published_read_view \<Rightarrow> voxel_world \<Rightarrow> voxel_world" where
  "world_drop v w = w\<lparr>vw_authority := view_drop v (vw_authority w)\<rparr>"

definition act_with_view :: "(published_read_view \<Rightarrow> 'a action) \<Rightarrow> 'a action" where
  "act_with_view f w =
     (let (v, w1) = world_capture w in
      case f v w1 of None \<Rightarrow> None | Some (r, w2) \<Rightarrow> Some (r, world_drop v w2))"

definition act_occupied :: "'a action \<Rightarrow> 'a action" where
  "act_occupied body w =
     (if vw_write_occupied w then Some (Inl (we_mapped ''HandleDoubleRelease''), w)
      else case body (w\<lparr>vw_write_occupied := True\<rparr>) of
             None \<Rightarrow> None
           | Some (r, w') \<Rightarrow> Some (r, w'\<lparr>vw_write_occupied := False\<rparr>))"

text \<open>Prepare, seal and publish one cut; the identity published, with the returned view dropped.\<close>

definition act_publish :: "u64 \<Rightarrow> published_state_root \<Rightarrow> replacement \<Rightarrow> digest action" where
  "act_publish target root r w =
     (case authority_prepare target root r (vw_authority w) of
        Inl e \<Rightarrow> Some (Inl (we_mapped (publish_error_id e)), w)
      | Inr (p, a1) \<Rightarrow>
          (case prepared_seal p a1 of
             Inl e \<Rightarrow> Some (Inl (we_mapped (publish_error_id e)), w\<lparr>vw_authority := a1\<rparr>)
           | Inr (t, p', a2) \<Rightarrow>
               (case authority_publish_once t a2 of
                  (Inl e, a3) \<Rightarrow> Some (Inl (we_mapped (publish_error_id e)), w\<lparr>vw_authority := a3\<rparr>)
                | (Inr v, a3) \<Rightarrow> Some (Inr (ps_identity (rv_root v)), w\<lparr>vw_authority := view_drop v a3\<rparr>))))"

section \<open>Admission\<close>

datatype world_command =
    CmdLifecycle string string origin_token
  | CmdQuery origin_token query_request
  | CmdMutation origin_token mutation_request

datatype admitted_command = AdmittedLifecycle string string string | AdmittedQuery | AdmittedMutation

definition admit_lifecycle :: "string \<Rightarrow> string \<Rightarrow> origin_token \<Rightarrow> admitted_command action" where
  "admit_lifecycle ev to origin w =
     (case rbind (check_origin (generation_guard_of w) origin) (\<lambda>_.
           rbind (ok_or we_invalid_handle (intern_session_event ev)) (\<lambda>ev.
           rbind (ok_or we_invalid_handle (intern_session_state to)) (\<lambda>to.
           rbind (session_apply (vw_state w) ev to) (\<lambda>next_state. Inr (ev, to, next_state))))) of
        Inl e \<Rightarrow> Some (Inl e, w)
      | Inr (ev, to, next_state) \<Rightarrow> Some (Inr (AdmittedLifecycle (vw_state w) ev to), w\<lparr>vw_state := next_state\<rparr>))"

definition admit_query :: "origin_token \<Rightarrow> query_request \<Rightarrow> voxel_world \<Rightarrow> world_error + unit" where
  "admit_query origin q w =
     rbind (check_origin (generation_guard_of w) origin) (\<lambda>_.
     if vq_query_id q = [] \<or> vq_world_id q = [] \<or> vq_context q = [] then Inl we_invalid_handle
     else if vq_world_id q \<noteq> vw_world_id w then Inl we_session_mismatch
     else if vq_context q \<noteq> vw_context_id w then Inl we_session_mismatch
     else if \<not> query_admissible (vw_state w) then Inl we_claim_not_granted
     else if planner_config_hash (vw_planner w) \<noteq> cs_config_hash (vw_snapshot w) then Inl we_invalid_handle
     else Inr ())"

definition admit_mutation :: "origin_token \<Rightarrow> mutation_request \<Rightarrow> voxel_world \<Rightarrow> world_error + unit" where
  "admit_mutation origin q w =
     rbind (check_origin (generation_guard_of w) origin) (\<lambda>_.
     if mq_txn_id q = [] \<or> mq_world_id q = [] then Inl we_invalid_handle
     else if mq_world_id q \<noteq> vw_world_id w then Inl we_session_mismatch
     else if mq_generation q \<noteq> vw_generation w then Inl we_stale_epoch
     else if \<not> write_admissible (vw_state w) then Inl we_claim_not_granted
     else if ledger_config_hash (vw_ledger w) \<noteq> cs_config_hash (vw_snapshot w) then Inl we_invalid_handle
     else Inr ())"

fun endpoint_admit :: "world_command \<Rightarrow> admitted_command action" where
  "endpoint_admit (CmdLifecycle ev to origin) w = admit_lifecycle ev to origin w"
| "endpoint_admit (CmdQuery origin q) w = Some (rbind (admit_query origin q w) (\<lambda>_. Inr AdmittedQuery), w)"
| "endpoint_admit (CmdMutation origin q) w = Some (rbind (admit_mutation origin q w) (\<lambda>_. Inr AdmittedMutation), w)"

section \<open>Barrier scopes\<close>

datatype barrier_scope = ScopeMutation | ScopeCaptureCut | ScopeDurabilityAck | ScopeRestore | ScopeStreamingApply

datatype forbidden_work = WorkIo | WorkSleep | WorkUnboundedLoop | WorkCallback

fun reject_forbidden :: "forbidden_work \<Rightarrow> world_error" where
  "reject_forbidden WorkIo = we_mapped ''LoaderTimeout''"
| "reject_forbidden WorkSleep = we_mapped ''LoaderTimeout''"
| "reject_forbidden WorkUnboundedLoop = we_mapped ''BudgetExceeded''"
| "reject_forbidden WorkCallback = we_mapped ''InvalidHandle''"

definition admit_scope :: "barrier_scope \<Rightarrow> voxel_world \<Rightarrow> world_error + unit" where
  "admit_scope scope w =
     (let state = vw_state w;
          admitted = (case scope of ScopeCaptureCut \<Rightarrow> query_admissible state | _ \<Rightarrow> write_admissible state)
      in if admitted then Inr () else Inl we_claim_not_granted)"

section \<open>The write lane\<close>

definition map_mutation :: "mutation_error \<Rightarrow> world_error" where "map_mutation e = we_mapped (mx_error_id e)"
definition map_query :: "query_error \<Rightarrow> world_error" where "map_query e = we_mapped (qe_error_id e)"

text \<open>The scope a lease has entered.\<close>

type_synonym lease_scope = "barrier_scope option"

definition lease_enter :: "barrier_scope \<Rightarrow> lease_scope \<Rightarrow> voxel_world \<Rightarrow> world_error + lease_scope" where
  "lease_enter scope held w =
     (if held \<noteq> None then Inl we_invalid_handle else rbind (admit_scope scope w) (\<lambda>_. Inr (Some scope)))"

definition require_scope :: "barrier_scope \<Rightarrow> lease_scope \<Rightarrow> world_error + unit" where
  "require_scope expected held =
     (case held of Some scope \<Rightarrow> if scope = expected then Inr () else Inl we_invalid_handle
      | None \<Rightarrow> Inl we_invalid_handle)"

definition origin_for :: "voxel_world \<Rightarrow> string \<Rightarrow> world_error + origin_token" where
  "origin_for w request_id =
     map_err (\<lambda>e. we_mapped (oe_error_id e))
       (origin_try_new (vw_context_id w) (vw_generation w) request_id 0 fmempty ''VoxelCommit'')"

definition re_admit_mutation :: "mutation_request \<Rightarrow> unit action" where
  "re_admit_mutation q w =
     act_bind (act_lift (origin_for w (mq_txn_id q))) (\<lambda>origin.
     act_bind (endpoint_admit (CmdMutation origin q)) (\<lambda>_.
     act_lift (Inr ()))) w"

definition re_admit_query :: "query_request \<Rightarrow> unit action" where
  "re_admit_query q w =
     act_bind (act_lift (origin_for w (vq_query_id q))) (\<lambda>origin.
     act_bind (endpoint_admit (CmdQuery origin q)) (\<lambda>_.
     act_lift (Inr ()))) w"

definition lease_prepare :: "mutation_request \<Rightarrow> lease_scope \<Rightarrow> prepared_mutation action" where
  "lease_prepare q held =
     act_bind (act_lift (require_scope ScopeMutation held)) (\<lambda>_.
     act_bind (re_admit_mutation q) (\<lambda>_.
     act_with_view (\<lambda>view w.
       let (r, l) = prepare q view (vw_ledger w) in Some (map_err map_mutation r, w\<lparr>vw_ledger := l\<rparr>))))"

definition lease_commit :: "prepared_mutation \<Rightarrow> lease_scope \<Rightarrow> mutation_receipt action" where
  "lease_commit p held =
     act_bind (act_lift (require_scope ScopeMutation held)) (\<lambda>_.
     act_bind (\<lambda>w. re_admit_mutation \<lparr>mq_txn_id = pm_txn_id p, mq_world_id = vw_world_id w,
                                    mq_generation = vw_generation w, mq_entries = []\<rparr> w) (\<lambda>_ w.
       case mutation_commit p (vw_authority w) (vw_ledger w) of
         None \<Rightarrow> None
       | Some (r, a, l) \<Rightarrow> Some (map_err map_mutation r, w\<lparr>vw_authority := a, vw_ledger := l\<rparr>)))"

definition lease_abort :: "mutation_request \<Rightarrow> lease_scope \<Rightarrow> unit action" where
  "lease_abort q held =
     act_bind (act_lift (require_scope ScopeMutation held)) (\<lambda>_.
     act_bind (re_admit_mutation q) (\<lambda>_ w.
       case ledger_abort q (vw_ledger w) of
         Inl e \<Rightarrow> Some (Inl (we_mapped (le_error_id e)), w)
       | Inr l \<Rightarrow> Some (Inr (), w\<lparr>vw_ledger := l\<rparr>)))"

definition lease_query :: "query_request \<Rightarrow> lease_scope \<Rightarrow> query_outcome action" where
  "lease_query q held =
     act_bind (act_lift (require_scope ScopeCaptureCut held)) (\<lambda>_.
     act_bind (re_admit_query q) (\<lambda>_.
     act_with_view (\<lambda>view w.
       act_lift (rbind (map_err map_query (planner_plan (vw_planner w) q view (vw_snapshot w))) (\<lambda>plan.
         map_err map_query
           (case vw_region_pins w of
              Some pins \<Rightarrow> query_execute_guarded plan view (manager_guard pins)
            | None \<Rightarrow> query_execute plan view))) w)))"

section \<open>The router\<close>

definition with_scope :: "barrier_scope \<Rightarrow> (lease_scope \<Rightarrow> 'r action) \<Rightarrow> 'r action" where
  "with_scope scope work =
     act_occupied (\<lambda>w. act_bind (act_lift (lease_enter scope None w)) work w)"

definition check_config_hash :: "string \<Rightarrow> voxel_world \<Rightarrow> world_error + unit" where
  "check_config_hash h w = (if h \<noteq> cs_config_hash (vw_snapshot w) then Inl we_session_mismatch else Inr ())"

definition expected_origin :: "voxel_world \<Rightarrow> string \<Rightarrow> world_error + origin_token" where
  "expected_origin w phase =
     map_err (\<lambda>e. we_mapped (oe_error_id e))
       (origin_try_new (vw_context_id w) (vw_generation w) ''write-lane-basis'' 0 fmempty phase)"

fun require_accept :: "completion_disposition \<Rightarrow> world_error + unit" where
  "require_accept AcceptCompletion = Inr ()"
| "require_accept StaleCompletion = Inl we_stale_epoch"
| "require_accept LateCompletion = Inl we_stale_epoch"
| "require_accept WrongWorld = Inl we_session_mismatch"
| "require_accept DuplicateCompletion = Inl we_invalid_handle"
| "require_accept CancelledCompletion = Inl we_invalid_handle"

definition complete :: "origin_token \<Rightarrow> 't \<Rightarrow> voxel_world \<Rightarrow> 't origin_envelope" where
  "complete origin payload w =
     \<lparr>en_origin = origin, en_config_hash = cs_config_hash (vw_snapshot w), en_payload = payload\<rparr>"

definition act_complete :: "origin_token \<Rightarrow> 't \<Rightarrow> 't origin_envelope action" where
  "act_complete origin payload w = Some (Inr (complete origin payload w), w)"

text \<open>\<open>RoutedCommand::query\<close> and the two mutation forms accept the matching admission only.\<close>

definition require_admitted :: "admitted_command \<Rightarrow> admitted_command \<Rightarrow> world_error + unit" where
  "require_admitted expected admitted = (if admitted = expected then Inr () else Inl we_invalid_handle)"

definition require_basis :: "'t origin_envelope \<Rightarrow> voxel_world \<Rightarrow> world_error + unit" where
  "require_basis envelope w =
     rbind (expected_origin w (ot_apply_phase (en_origin envelope))) (\<lambda>expected.
     require_accept (validate_completion expected (en_origin envelope)))"

definition route_query :: "query_request origin_envelope \<Rightarrow> query_outcome origin_envelope action" where
  "route_query envelope =
     act_bind (\<lambda>w. act_lift (check_config_hash (en_config_hash envelope) w) w) (\<lambda>_.
     act_bind (endpoint_admit (CmdQuery (en_origin envelope) (en_payload envelope))) (\<lambda>admitted.
     act_bind (act_lift (require_admitted AdmittedQuery admitted)) (\<lambda>_.
     act_bind (with_scope ScopeCaptureCut (lease_query (en_payload envelope))) (\<lambda>payload.
     act_complete (en_origin envelope) payload))))"

definition route_prepare :: "mutation_request origin_envelope \<Rightarrow> prepared_mutation origin_envelope action" where
  "route_prepare envelope =
     act_bind (\<lambda>w. act_lift (check_config_hash (en_config_hash envelope) w) w) (\<lambda>_.
     act_bind (endpoint_admit (CmdMutation (en_origin envelope) (en_payload envelope))) (\<lambda>admitted.
     act_bind (act_lift (require_admitted AdmittedMutation admitted)) (\<lambda>_.
     act_bind (with_scope ScopeMutation (lease_prepare (en_payload envelope))) (\<lambda>payload.
     act_complete (en_origin envelope) payload))))"

definition route_commit :: "prepared_mutation origin_envelope \<Rightarrow> mutation_receipt origin_envelope action" where
  "route_commit envelope =
     act_bind (\<lambda>w. act_lift (check_config_hash (en_config_hash envelope) w) w) (\<lambda>_.
     act_bind (\<lambda>w. act_lift (require_basis envelope w) w) (\<lambda>_.
     act_bind (\<lambda>w. endpoint_admit (CmdMutation (en_origin envelope)
         \<lparr>mq_txn_id = pm_txn_id (en_payload envelope), mq_world_id = vw_world_id w,
          mq_generation = vw_generation w, mq_entries = []\<rparr>) w) (\<lambda>admitted.
     act_bind (act_lift (require_admitted AdmittedMutation admitted)) (\<lambda>_.
     act_bind (with_scope ScopeMutation (lease_commit (en_payload envelope))) (\<lambda>payload.
     act_complete (en_origin envelope) payload)))))"

definition route_abort :: "mutation_request origin_envelope \<Rightarrow> unit origin_envelope action" where
  "route_abort envelope =
     act_bind (\<lambda>w. act_lift (check_config_hash (en_config_hash envelope) w) w) (\<lambda>_.
     act_bind (\<lambda>w. act_lift (require_basis envelope w) w) (\<lambda>_.
     act_bind (endpoint_admit (CmdMutation (en_origin envelope) (en_payload envelope))) (\<lambda>admitted.
     act_bind (act_lift (require_admitted AdmittedMutation admitted)) (\<lambda>_.
     act_bind (with_scope ScopeMutation (lease_abort (en_payload envelope))) (\<lambda>_.
     act_complete (en_origin envelope) ())))))"

end
