(* ===== verification/Snapshot.thy ===== *)
theory Snapshot
  imports Canonical Publication
begin

text \<open>
  Captures of a published cut and their restoration (ops crate, \<open>snapshot/\<close>): the capture
  reference and its evidence check, the canonical manifest and the bounded writer it is encoded
  through, the strict decoding and preflight of the encoded bytes, and the unpublished root built
  from a decoded capture.

  A \<open>CaptureWriter\<close> is a pair of functions on a writer state, the cancellation test and the write;
  the in-memory writer is one. A capture owns its pin: dropping it is the owner's \<open>pin_drop\<close>.
\<close>

section \<open>Capture references\<close>

datatype capture_error = CaptureError (ce_error_id: string)

definition capture_invalid_handle :: capture_error where
  "capture_invalid_handle = CaptureError ''InvalidHandle''"

record cut_evidence =
  cv_world_id :: string
  cv_context_id :: string
  cv_generation :: u64
  cv_world_revision :: u64
  cv_config_hash :: string
  cv_artifact_hash :: digest

datatype pin_or_lease = PinHeld revision_pin | LeaseHeld read_view_lease

fun held_stamp :: "pin_or_lease \<Rightarrow> revision_stamp" where
  "held_stamp (PinHeld pin) = rp_stamp pin"
| "held_stamp (LeaseHeld lease) = lease_stamp lease"

record capture_ref =
  vc_root :: published_state_root
  vc_pin :: pin_or_lease
  vc_config_hash :: string

definition validate_evidence :: "published_read_view \<Rightarrow> pin_or_lease \<Rightarrow> cut_evidence \<Rightarrow> capture_error + unit" where
  "validate_evidence view pin ev =
     (if cv_world_id ev = [] \<or> cv_context_id ev = [] then Inl capture_invalid_handle
      else if \<not> is_hash256 (cv_config_hash ev) then Inl capture_invalid_handle
      else let stamp = view_stamp view in
        if cv_world_id ev \<noteq> rs_world_id stamp \<or> cv_context_id ev \<noteq> rs_context_id stamp \<or>
           cv_generation ev \<noteq> rs_generation stamp \<or> cv_world_revision ev \<noteq> rs_world_revision stamp
        then Inl capture_invalid_handle
        else if cv_artifact_hash ev \<noteq> ps_identity (rv_root view) then Inl capture_invalid_handle
        else if held_stamp pin \<noteq> stamp \<or> lease_stamp (rv_lease view) \<noteq> stamp
        then Inl capture_invalid_handle
        else Inr ())"

definition capture_ref_new :: "published_read_view \<Rightarrow> pin_or_lease \<Rightarrow> cut_evidence \<Rightarrow> capture_error + capture_ref" where
  "capture_ref_new view pin ev =
     rbind (validate_evidence view pin ev) (\<lambda>_.
     Inr \<lparr>vc_root = rv_root view, vc_pin = pin, vc_config_hash = cv_config_hash ev\<rparr>)"

definition capture_stamp :: "capture_ref \<Rightarrow> revision_stamp" where
  "capture_stamp c = ps_stamp (vc_root c)"

definition capture_root_identity :: "capture_ref \<Rightarrow> digest" where
  "capture_root_identity c = ps_identity (vc_root c)"

section \<open>The manifest\<close>

definition SNAPSHOT_MAGIC :: string where "SNAPSHOT_MAGIC = ''LUMIOSNP1''"
definition SNAPSHOT_CHECKSUM_OMIT :: "string list" where "SNAPSHOT_CHECKSUM_OMIT = [''checksum'', ''hash'']"
definition SNAPSHOT_SCHEMA_EPOCH :: u64 where "SNAPSHOT_SCHEMA_EPOCH = 1"
definition SNAPSHOT_HEADER_SCHEMA :: string where "SNAPSHOT_HEADER_SCHEMA = ''snapshot-header''"
definition SNAPSHOT_PAYLOAD_SCHEMA :: string where "SNAPSHOT_PAYLOAD_SCHEMA = ''voxel-snapshot-payload''"
definition SECTION_REVISION_PREFIX :: string where "SECTION_REVISION_PREFIX = ''sectionRevision.''"

datatype restore_error = RestoreError (re_error_id: string)

definition restore_invalid_handle :: restore_error where
  "restore_invalid_handle = RestoreError ''InvalidHandle''"
definition restore_artifact_digest_mismatch :: restore_error where
  "restore_artifact_digest_mismatch = RestoreError ''ArtifactDigestMismatch''"
definition restore_evidence_digest_mismatch :: restore_error where
  "restore_evidence_digest_mismatch = RestoreError ''EvidenceDigestMismatch''"
definition restore_manifest_unsupported_version :: restore_error where
  "restore_manifest_unsupported_version = RestoreError ''ManifestUnsupportedVersion''"
definition restore_session_mismatch :: restore_error where
  "restore_session_mismatch = RestoreError ''SessionMismatch''"
definition restore_stale_epoch :: restore_error where
  "restore_stale_epoch = RestoreError ''StaleEpoch''"
definition restore_mapped :: "string \<Rightarrow> restore_error" where
  "restore_mapped i = RestoreError i"

definition manifest_members :: "revision_stamp \<Rightarrow> string \<Rightarrow> digest \<Rightarrow> (string \<times> canonical_value) list" where
  "manifest_members stamp config_hash identity =
     [(''schemaId'', Text SNAPSHOT_PAYLOAD_SCHEMA),
      (''headerSchemaId'', Text SNAPSHOT_HEADER_SCHEMA),
      (''magic'', Text SNAPSHOT_MAGIC),
      (''schemaEpoch'', Uint SNAPSHOT_SCHEMA_EPOCH),
      (''worldId'', Text (rs_world_id stamp)),
      (''contextId'', Text (rs_context_id stamp)),
      (''generation'', Uint (rs_generation stamp)),
      (''worldRevision'', Uint (rs_world_revision stamp))] @
     map (\<lambda>(i, rev). (SECTION_REVISION_PREFIX @ i, Uint rev)) (fm_entries (rs_section_revision_set stamp)) @
     [(''configHash'', Text config_hash),
      (''rootIdentity'', Text (hex_string identity))]"

definition manifest_object :: "capture_ref \<Rightarrow> restore_error + canonical_object" where
  "manifest_object c =
     rfold (\<lambda>kv obj. map_err (\<lambda>_. restore_invalid_handle) (member_insert (fst kv) (snd kv) obj))
       (manifest_members (capture_stamp c) (vc_config_hash c) (capture_root_identity c)) fmempty"

section \<open>The codec port\<close>

datatype snapshot_error = SnapshotError (ss_error_id: string)

definition snapshot_invalid_handle :: snapshot_error where
  "snapshot_invalid_handle = SnapshotError ''InvalidHandle''"
definition snapshot_budget_exceeded :: snapshot_error where
  "snapshot_budget_exceeded = SnapshotError ''BudgetExceeded''"
definition snapshot_loader_cancelled :: snapshot_error where
  "snapshot_loader_cancelled = SnapshotError ''LoaderCancelled''"

record memory_writer =
  mw_buf :: bounded_buffer
  mw_cap :: nat
  mw_cancelled :: bool

definition memory_writer_new :: "nat \<Rightarrow> memory_writer" where
  "memory_writer_new c = \<lparr>mw_buf = bounded_buffer_new c, mw_cap = c, mw_cancelled = False\<rparr>"

definition memory_cancel :: "memory_writer \<Rightarrow> memory_writer" where
  "memory_cancel w = w\<lparr>mw_cancelled := True\<rparr>"

definition memory_as_slice :: "memory_writer \<Rightarrow> u8 list" where
  "memory_as_slice w = bounded_buffer_as_slice (mw_buf w)"

text \<open>A push that fails leaves the bytes pushed before it.\<close>

fun memory_push_all :: "u8 list \<Rightarrow> bounded_buffer \<Rightarrow> (snapshot_error + unit) \<times> bounded_buffer" where
  "memory_push_all [] b = (Inr (), b)"
| "memory_push_all (x # xs) b =
     (case bounded_buffer_push x b of
        Inr b' \<Rightarrow> memory_push_all xs b' | Inl _ \<Rightarrow> (Inl snapshot_budget_exceeded, b))"

definition memory_write :: "u8 list \<Rightarrow> memory_writer \<Rightarrow> (snapshot_error + unit) \<times> memory_writer" where
  "memory_write bs w =
     (if mw_cancelled w then (Inl snapshot_loader_cancelled, w)
      else let used = length (memory_as_slice w) in
        if usize_saturating_add used (length bs) > mw_cap w then (Inl snapshot_budget_exceeded, w)
        else let (r, b) = memory_push_all bs (mw_buf w) in (r, w\<lparr>mw_buf := b\<rparr>))"

record capture_metadata =
  cm_payload_hash :: digest
  cm_root_identity :: digest
  cm_world_revision :: u64
  cm_generation :: u64
  cm_config_hash :: string
  cm_byte_len :: nat

definition encode_capture ::
    "('w \<Rightarrow> bool) \<Rightarrow> (u8 list \<Rightarrow> 'w \<Rightarrow> (snapshot_error + unit) \<times> 'w) \<Rightarrow> capture_ref \<Rightarrow> 'w \<Rightarrow>
     (snapshot_error + capture_metadata) \<times> 'w" where
  "encode_capture is_cancelled write c w =
     (if is_cancelled w then (Inl snapshot_loader_cancelled, w)
      else if vc_config_hash c = [] \<or> rs_world_id (capture_stamp c) = [] then (Inl snapshot_invalid_handle, w)
      else case manifest_object c of
        Inl _ \<Rightarrow> (Inl snapshot_invalid_handle, w)
      | Inr obj \<Rightarrow>
          if fm_len obj = 0 then (Inl snapshot_invalid_handle, w)
          else let bs = encode_bytes obj in
            if bs = [] then (Inl snapshot_invalid_handle, w)
            else case write bs w of
              (Inl e, w') \<Rightarrow> (Inl e, w')
            | (Inr _, w') \<Rightarrow>
                (Inr \<lparr>cm_payload_hash = sha256 bs, cm_root_identity = capture_root_identity c,
                      cm_world_revision = rs_world_revision (capture_stamp c),
                      cm_generation = rs_generation (capture_stamp c),
                      cm_config_hash = vc_config_hash c, cm_byte_len = length bs\<rparr>, w'))"

section \<open>Preflight\<close>

definition decode_canonical_object :: "u8 list \<Rightarrow> restore_error + canonical_object" where
  "decode_canonical_object bs =
     (if bs = [] then Inl restore_invalid_handle
      else map_err (\<lambda>e. case e of NotCanonical \<Rightarrow> restore_artifact_digest_mismatch
                        | _ \<Rightarrow> restore_invalid_handle) (canonical_decode bs))"

record decoded_restore =
  dr_world_id :: string
  dr_context_id :: string
  dr_generation :: u64
  dr_world_revision :: u64
  dr_section_revision_set :: "(string, u64) fmap"
  dr_config_hash :: string
  dr_root_identity :: digest

definition require_text :: "canonical_object \<Rightarrow> string \<Rightarrow> restore_error + string" where
  "require_text obj key = ok_or restore_invalid_handle (Option.bind (fmlookup obj key) as_text)"

definition require_uint :: "canonical_object \<Rightarrow> string \<Rightarrow> restore_error + u64" where
  "require_uint obj key = ok_or restore_invalid_handle (Option.bind (fmlookup obj key) as_uint)"

definition is_known_field :: "string \<Rightarrow> bool" where
  "is_known_field key \<longleftrightarrow>
     key \<in> {''schemaId'', ''headerSchemaId'', ''magic'', ''schemaEpoch'', ''worldId'', ''contextId'',
            ''generation'', ''worldRevision'', ''configHash'', ''rootIdentity''}"

definition starts_with :: "string \<Rightarrow> string \<Rightarrow> bool" where
  "starts_with p s \<longleftrightarrow> take (length p) s = p"

definition collect_member ::
    "string \<times> canonical_value \<Rightarrow> (string, u64) fmap \<Rightarrow> restore_error + (string, u64) fmap" where
  "collect_member kv sections =
     (if \<not> starts_with SECTION_REVISION_PREFIX (fst kv)
      then (if \<not> is_known_field (fst kv) then Inl restore_manifest_unsupported_version else Inr sections)
      else let section_id = drop (length SECTION_REVISION_PREFIX) (fst kv) in
        if section_id = [] then Inl restore_invalid_handle
        else rbind (ok_or restore_invalid_handle (as_uint (snd kv))) (\<lambda>revision.
          if fm_has sections section_id then Inl restore_invalid_handle
          else Inr (fmupd section_id revision sections)))"

definition collect_section_revisions :: "canonical_object \<Rightarrow> restore_error + (string, u64) fmap" where
  "collect_section_revisions obj = rfold collect_member (fm_entries obj) fmempty"

text \<open>
  \<open>u8::from_str_radix(s, 16)\<close> on two characters; the leading plus sign it would also accept cannot
  occur in a checked hash.
\<close>

definition hex_pair :: "string \<Rightarrow> u8 option" where
  "hex_pair s = (if length s = 2 \<and> list_all is_hexdigit s then Some (of_nat (hex_val s)) else None)"

definition parse_hex32 :: "string \<Rightarrow> restore_error + digest" where
  "parse_hex32 value =
     (if \<not> is_hash256 value then Inl restore_artifact_digest_mismatch
      else rmap (\<lambda>i. ok_or restore_artifact_digest_mismatch (hex_pair (take 2 (drop (2 * i) value)))) [0..<32])"

definition preflight_validate ::
    "u8 list \<Rightarrow> string \<Rightarrow> u64 \<Rightarrow> voxel_config_snapshot \<Rightarrow> restore_error + decoded_restore" where
  "preflight_validate bs expected_world_id expected_generation snapshot =
     (if expected_world_id = [] then Inl restore_invalid_handle
      else
        rbind (decode_canonical_object bs) (\<lambda>obj.
        rbind (require_text obj ''schemaId'') (\<lambda>schema_id.
        rbind (require_text obj ''headerSchemaId'') (\<lambda>header_schema.
        rbind (require_text obj ''magic'') (\<lambda>magic.
        rbind (require_uint obj ''schemaEpoch'') (\<lambda>schema_epoch.
        if schema_id \<noteq> SNAPSHOT_PAYLOAD_SCHEMA \<or> header_schema \<noteq> SNAPSHOT_HEADER_SCHEMA \<or>
           magic \<noteq> SNAPSHOT_MAGIC \<or> schema_epoch \<noteq> SNAPSHOT_SCHEMA_EPOCH
        then Inl restore_manifest_unsupported_version
        else
          rbind (require_text obj ''worldId'') (\<lambda>world_id.
          rbind (require_text obj ''contextId'') (\<lambda>context_id.
          if world_id = [] \<or> context_id = [] then Inl restore_invalid_handle
          else if world_id \<noteq> expected_world_id then Inl restore_session_mismatch
          else
            rbind (require_uint obj ''generation'') (\<lambda>generation.
            if generation \<noteq> expected_generation then Inl restore_stale_epoch
            else
              rbind (require_uint obj ''worldRevision'') (\<lambda>world_revision.
              rbind (require_text obj ''configHash'') (\<lambda>config_hash.
              if \<not> is_hash256 config_hash \<or> config_hash \<noteq> cs_config_hash snapshot
              then Inl restore_evidence_digest_mismatch
              else
                rbind (require_text obj ''rootIdentity'') (\<lambda>root_hex.
                rbind (parse_hex32 root_hex) (\<lambda>root_identity.
                rbind (collect_section_revisions obj) (\<lambda>sections.
                Inr \<lparr>dr_world_id = world_id, dr_context_id = context_id, dr_generation = generation,
                     dr_world_revision = world_revision, dr_section_revision_set = sections,
                     dr_config_hash = config_hash, dr_root_identity = root_identity\<rparr>))))))))))))))"

section \<open>The restore shadow\<close>

record restore_candidate =
  rx_root :: published_state_root
  rx_replacement :: replacement
  rx_world_revision :: u64
  rx_config_hash :: string
  rx_candidate_hash :: digest

definition candidate_put ::
    "string \<times> canonical_value \<Rightarrow> canonical_object \<Rightarrow> restore_error + canonical_object" where
  "candidate_put kv obj = map_err (\<lambda>_. restore_invalid_handle) (member_insert (fst kv) (snd kv) obj)"

definition candidate_fingerprint ::
    "published_state_root \<Rightarrow> replacement \<Rightarrow> string \<Rightarrow> restore_error + digest" where
  "candidate_fingerprint root r config_hash =
     (let stamp = ps_stamp root in
      rbind (rfold candidate_put
        [(''configHash'', Text config_hash),
         (''contextId'', Text (rs_context_id stamp)),
         (''generation'', Uint (rs_generation stamp)),
         (''replacement'', Text (hex_string (rp_digest r))),
         (''rootIdentity'', Text (hex_string (ps_identity root))),
         (''worldId'', Text (rs_world_id stamp)),
         (''worldRevision'', Uint (rs_world_revision stamp))] fmempty) (\<lambda>obj.
      Inr (sha256 (encode_bytes obj))))"

definition candidate_hash_matches :: "restore_candidate \<Rightarrow> bool" where
  "candidate_hash_matches c =
     (case candidate_fingerprint (rx_root c) (rx_replacement c) (rx_config_hash c) of
        Inr h \<Rightarrow> h = rx_candidate_hash c | Inl _ \<Rightarrow> False)"

definition into_publication :: "restore_candidate \<Rightarrow> published_state_root \<times> replacement \<times> u64" where
  "into_publication c = (rx_root c, rx_replacement c, rx_world_revision c)"

definition shadow_section ::
    "string \<times> u64 \<Rightarrow> (string \<times> u64) list \<times> section_directory \<Rightarrow>
     restore_error + (string \<times> u64) list \<times> section_directory" where
  "shadow_section e st =
     (let (pairs, directory) = st in
      rbind (map_err (\<lambda>err. restore_mapped (section_error_id err)) (directory_insert (fst e) SlotUnchanged directory)) (\<lambda>d.
      Inr (pairs @ [e], d)))"

definition shadow_build :: "decoded_restore \<Rightarrow> restore_error + restore_candidate" where
  "shadow_build decoded =
     (let world = dr_world_revision decoded in
      rbind (rfold shadow_section (fm_entries (dr_section_revision_set decoded)) ([], directory_builder_new)) (\<lambda>(pairs, frozen).
      let stamp = to_revision_stamp (dr_world_id decoded) (dr_context_id decoded) (dr_generation decoded) world pairs in
      rbind (map_err (\<lambda>err. restore_mapped (dirty_error_id err))
               (dirty_frontier_new (dr_world_id decoded) (dr_generation decoded))) (\<lambda>dirty.
      rbind (map_err (\<lambda>err. restore_mapped (section_error_id err)) (delta_freeze (delta_builder_new frozen))) (\<lambda>r.
      let root = published_root_new stamp frozen dirty in
      rbind (candidate_fingerprint root r (dr_config_hash decoded)) (\<lambda>h.
      Inr \<lparr>rx_root = root, rx_replacement = r, rx_world_revision = world,
           rx_config_hash = dr_config_hash decoded, rx_candidate_hash = h\<rparr>)))))"

end
