(* ===== verification/Restore.thy ===== *)
theory Restore
  imports Snapshot Pipeline
begin

text \<open>
  Encoding a capture and restoring it: the manifest as a set of members, the exact set of bytes the
  preflight accepts, the bounded writer, and the root the restore shadow builds.
\<close>

section \<open>Hexadecimal digests\<close>

definition lower_hex :: "char \<Rightarrow> bool" where
  "lower_hex c \<longleftrightarrow> (CHR ''0'' \<le> c \<and> c \<le> CHR ''9'') \<or> (CHR ''a'' \<le> c \<and> c \<le> CHR ''f'')"

lemma is_hash256_iff: "is_hash256 s \<longleftrightarrow> length s = 64 \<and> list_all lower_hex s"
  by (simp add: is_hash256_def lower_hex_def [abs_def])

lemma lower_hex_digit: "lower_hex c \<longleftrightarrow> (\<exists>d < 16. c = hex_digit d)"
proof
  assume "lower_hex c"
  then have b: "(48 \<le> byte_of c \<and> byte_of c \<le> 57) \<or> (97 \<le> byte_of c \<and> byte_of c \<le> 102)"
    by (simp add: lower_hex_def less_eq_char_def byte_of_def)
  define d where "d = (if byte_of c \<le> 57 then byte_of c - 48 else byte_of c - 87)"
  have d: "d < 16" "byte_of (hex_digit d) = byte_of c"
    using b by (auto simp: d_def byte_hex_digit)
  then show "\<exists>d < 16. c = hex_digit d" by (auto simp: byte_of_def)
next
  assume "\<exists>d < 16. c = hex_digit d"
  then obtain d where "d < 16" "c = hex_digit d" by blast
  then show "lower_hex c"
    using byte_hex_digit [of d] by (simp add: lower_hex_def less_eq_char_def byte_of_def split: if_splits)
qed

lemma lower_hex_hexdigit: "lower_hex c \<Longrightarrow> is_hexdigit c \<and> hex_digit (hexdigit_val c) = c \<and> hexdigit_val c < 16"
  by (auto simp: lower_hex_digit hexdigit_val_hex_digit)

lemma hex_pair_lower:
  assumes "lower_hex c" "lower_hex d"
  shows "hex_pair [c, d] = Some b \<longleftrightarrow> hex_byte b = [c, d]"
proof -
  note c = lower_hex_hexdigit [OF assms(1)] and d = lower_hex_hexdigit [OF assms(2)]
  let ?n = "16 * hexdigit_val c + hexdigit_val d"
  have lt: "?n < 256" using c d by linarith
  then have n: "unat (of_nat ?n :: u8) = ?n" by (rule unat_of_nat_u8)
  have "hex_byte (of_nat ?n) = [c, d]" unfolding hex_byte_def n using c d by simp
  moreover have "hex_pair [c, d] = Some (of_nat ?n)" using c d by (simp add: hex_pair_def hex_val_def)
  ultimately show ?thesis by (metis hex_byte_inj option.inject)
qed

lemma lower_hex_hex_digit: "d < 16 \<Longrightarrow> lower_hex (hex_digit d)"
  unfolding lower_hex_digit by blast

lemma hex_byte_lower: "list_all lower_hex (hex_byte b)"
proof -
  have "unat b div 16 < 16" using unsigned_less [of b, where 'a = nat] by simp
  then show ?thesis by (simp add: hex_byte_def lower_hex_hex_digit)
qed

lemma nth_chunks_exact: "0 < n \<Longrightarrow> i < length xs div n \<Longrightarrow> chunks_exact n xs ! i = take n (drop (n * i) xs)"
proof (induction n xs arbitrary: i rule: chunks_exact.induct)
  case (1 n xs)
  then have "\<not> length xs < n" by auto
  with 1 show ?case
    by (subst chunks_exact.simps) (cases i, auto simp: le_div_geq add.commute not_less)
qed

lemma chunks_exact_nths:
  assumes "0 < n" "length xs = n * k"
  shows "chunks_exact n xs = map (\<lambda>i. take n (drop (n * i) xs)) [0..<k]"
  using assms by (intro nth_equalityI) (auto simp: length_chunks_exact nth_chunks_exact)

lemma rmap_hex_pairs:
  assumes "\<And>p. p \<in> set ps \<Longrightarrow> \<exists>c d. p = [c, d] \<and> lower_hex c \<and> lower_hex d"
  shows "rmap (\<lambda>p. ok_or e (hex_pair p)) ps = Inr bs \<longleftrightarrow> ps = map hex_byte bs"
  using assms
proof (induction ps arbitrary: bs)
  case (Cons p ps)
  obtain c d where p: "p = [c, d]" "lower_hex c" "lower_hex d" using Cons.prems [of p] by auto
  have IH: "rmap (\<lambda>p. ok_or e (hex_pair p)) ps = Inr cs \<longleftrightarrow> ps = map hex_byte cs" for cs
    using Cons.prems by (intro Cons.IH) simp
  have hd: "hex_pair p = Some b \<longleftrightarrow> p = hex_byte b" for b
    using hex_pair_lower [OF p(2,3), of b] unfolding p by metis
  have "rmap (\<lambda>p. ok_or e (hex_pair p)) (p # ps) = Inr bs \<longleftrightarrow>
      (\<exists>b cs. bs = b # cs \<and> hex_pair p = Some b \<and> rmap (\<lambda>p. ok_or e (hex_pair p)) ps = Inr cs)"
    by (auto simp: result_iff)
  also have "\<dots> \<longleftrightarrow> p # ps = map hex_byte bs" unfolding hd IH by (auto simp: Cons_eq_map_conv)
  finally show ?case .
qed auto

lemma parse_hex32_Inr: "parse_hex32 s = Inr bs \<longleftrightarrow> length bs = 32 \<and> s = hex_string bs"
proof (cases "is_hash256 s")
  case True
  then have len: "length s = 64" and low: "list_all lower_hex s" by (simp_all add: is_hash256_iff)
  have chunks: "chunks_exact 2 s = map (\<lambda>i. take 2 (drop (2 * i) s)) [0..<32]"
    using len by (intro chunks_exact_nths) simp_all
  have pair: "\<exists>c d. p = [c, d] \<and> lower_hex c \<and> lower_hex d" if p: "p \<in> set (chunks_exact 2 s)" for p
  proof -
    obtain c d where "p = [c, d]"
      using chunks_exact_length_each [OF p] by (metis length_0_conv length_Suc_conv numeral_2_eq_2)
    moreover have "set p \<subseteq> set s"
      using p by (auto simp: chunks dest: in_set_takeD in_set_dropD)
    ultimately show ?thesis using low by (auto simp: list_all_iff)
  qed
  have "rmap (\<lambda>p. ok_or restore_artifact_digest_mismatch (hex_pair p)) (chunks_exact 2 s) = Inr bs \<longleftrightarrow>
      chunks_exact 2 s = map hex_byte bs"
    using pair by (intro rmap_hex_pairs) blast
  then have iff: "rmap (\<lambda>i. ok_or restore_artifact_digest_mismatch (hex_pair (take 2 (drop (2 * i) s)))) [0..<32] = Inr bs \<longleftrightarrow>
      chunks_exact 2 s = map hex_byte bs"
    unfolding chunks by (simp only: rmap_map comp_def)
  have "chunks_exact 2 s = map hex_byte bs \<longleftrightarrow> length bs = 32 \<and> s = hex_string bs"
  proof
    assume "chunks_exact 2 s = map hex_byte bs"
    then have "concat (chunks_exact 2 s) = hex_string bs" by (simp add: hex_string_def)
    moreover have "concat (chunks_exact 2 s) = s" using len by (intro concat_chunks_exact) simp_all
    ultimately have "s = hex_string bs" by simp
    then show "length bs = 32 \<and> s = hex_string bs" using len by (simp add: length_hex_string)
  next
    assume "length bs = 32 \<and> s = hex_string bs"
    then show "chunks_exact 2 s = map hex_byte bs" by (simp add: hex_string_chunks)
  qed
  with True iff show ?thesis by (simp add: parse_hex32_def)
next
  case False
  have "is_hash256 (hex_string bs)" if "length bs = 32"
    using that hex_byte_lower by (simp add: is_hash256_iff length_hex_string) (auto simp: hex_string_def list_all_iff)
  with False show ?thesis by (auto simp: parse_hex32_def)
qed

section \<open>The manifest as a set of members\<close>

definition manifest_of :: "revision_stamp \<Rightarrow> string \<Rightarrow> digest \<Rightarrow> canonical_object" where
  "manifest_of stamp config_hash identity =
     fold (\<lambda>kv. fmupd (fst kv) (snd kv)) (manifest_members stamp config_hash identity) fmempty"

definition known_members :: "revision_stamp \<Rightarrow> string \<Rightarrow> digest \<Rightarrow> (string \<times> canonical_value) list" where
  "known_members stamp config_hash identity =
     [(''schemaId'', Text SNAPSHOT_PAYLOAD_SCHEMA), (''headerSchemaId'', Text SNAPSHOT_HEADER_SCHEMA),
      (''magic'', Text SNAPSHOT_MAGIC), (''schemaEpoch'', Uint SNAPSHOT_SCHEMA_EPOCH),
      (''worldId'', Text (rs_world_id stamp)), (''contextId'', Text (rs_context_id stamp)),
      (''generation'', Uint (rs_generation stamp)), (''worldRevision'', Uint (rs_world_revision stamp))] @
     [(''configHash'', Text config_hash), (''rootIdentity'', Text (hex_string identity))]"

abbreviation known_member :: "revision_stamp \<Rightarrow> string \<Rightarrow> digest \<Rightarrow> string \<Rightarrow> canonical_value option" where
  "known_member stamp config_hash identity \<equiv> map_of (known_members stamp config_hash identity)"

lemma known_names_distinct: "distinct (map fst (known_members stamp h idn))"
  by (simp add: known_members_def)

lemma known_member_at:
  "known_member stamp h idn ''schemaId'' = Some (Text SNAPSHOT_PAYLOAD_SCHEMA)"
  "known_member stamp h idn ''headerSchemaId'' = Some (Text SNAPSHOT_HEADER_SCHEMA)"
  "known_member stamp h idn ''magic'' = Some (Text SNAPSHOT_MAGIC)"
  "known_member stamp h idn ''schemaEpoch'' = Some (Uint SNAPSHOT_SCHEMA_EPOCH)"
  "known_member stamp h idn ''worldId'' = Some (Text (rs_world_id stamp))"
  "known_member stamp h idn ''contextId'' = Some (Text (rs_context_id stamp))"
  "known_member stamp h idn ''generation'' = Some (Uint (rs_generation stamp))"
  "known_member stamp h idn ''worldRevision'' = Some (Uint (rs_world_revision stamp))"
  "known_member stamp h idn ''configHash'' = Some (Text h)"
  "known_member stamp h idn ''rootIdentity'' = Some (Text (hex_string idn))"
  by (simp_all add: known_members_def)

lemma set_manifest_members:
  "set (manifest_members stamp h idn) =
     set (known_members stamp h idn) \<union>
     (\<lambda>(i, rev). (SECTION_REVISION_PREFIX @ i, Uint rev)) ` set (fm_entries (rs_section_revision_set stamp))"
proof -
  have "set (xs @ ys @ zs) = set (xs @ zs) \<union> set ys" for xs ys zs :: "(string \<times> canonical_value) list" by auto
  then show ?thesis unfolding manifest_members_def known_members_def set_map by (simp only: set_map)
qed

lemma starts_with_append: "starts_with p (p @ i)"
  by (simp add: starts_with_def)

lemma starts_withE:
  assumes "starts_with p k"
  obtains i where "k = p @ i"
  using assms append_take_drop_id [of "length p" k] unfolding starts_with_def by metis

lemma known_not_section: "is_known_field k \<Longrightarrow> \<not> starts_with SECTION_REVISION_PREFIX k"
  by (auto simp: is_known_field_def starts_with_def SECTION_REVISION_PREFIX_def)

lemma known_names: "fst ` set (known_members stamp h idn) = {k. is_known_field k}"
  unfolding is_known_field_def known_members_def
  by (simp only: append.simps list.set image_insert fst_conv image_empty Collect_mem_eq)

lemma all_known_fields:
  "(\<forall>k. is_known_field k \<longrightarrow> P k) \<longleftrightarrow>
     P ''schemaId'' \<and> P ''headerSchemaId'' \<and> P ''magic'' \<and> P ''schemaEpoch'' \<and> P ''worldId'' \<and> P ''contextId'' \<and>
     P ''generation'' \<and> P ''worldRevision'' \<and> P ''configHash'' \<and> P ''rootIdentity''"
  unfolding is_known_field_def insert_iff empty_iff by blast

lemma known_member_dom: "known_member stamp h idn k \<noteq> None \<longleftrightarrow> is_known_field k"
  using known_names [of stamp h idn] by (auto simp: map_of_eq_None_iff)

lemma manifest_names_distinct: "distinct (map fst (manifest_members stamp config_hash identity))"
proof -
  let ?rev = "map fst (fm_entries (rs_section_revision_set stamp))"
  have "distinct (map (\<lambda>i. SECTION_REVISION_PREFIX @ i) ?rev)"
    using distinct_fm_entries [of "rs_section_revision_set stamp"]
    by (subst distinct_map) (simp add: inj_on_def del: map_map)
  then show ?thesis
    by (auto simp: manifest_members_def SECTION_REVISION_PREFIX_def comp_def case_prod_unfold)
qed

lemma manifest_object_total:
  "manifest_object c = Inr (manifest_of (capture_stamp c) (vc_config_hash c) (capture_root_identity c))"
  unfolding manifest_object_def manifest_of_def by (subst insert_members [OF manifest_names_distinct]) simp_all

lemma manifest_lookup:
  "fmlookup (manifest_of stamp h idn) k =
     (if starts_with SECTION_REVISION_PREFIX k
      then map_option Uint (fmlookup (rs_section_revision_set stamp) (drop (length SECTION_REVISION_PREFIX) k))
      else known_member stamp h idn k)"
proof -
  let ?ms = "manifest_members stamp h idn"
  have m: "fmlookup (manifest_of stamp h idn) k = map_of ?ms k"
    using fold_fmupd_lookup [OF manifest_names_distinct, of stamp h idn fmempty k]
    unfolding manifest_of_def by (simp add: case_prod_unfold split: option.splits)
  show ?thesis
  proof (cases "starts_with SECTION_REVISION_PREFIX k")
    case True
    then obtain i where k: "k = SECTION_REVISION_PREFIX @ i" by (rule starts_withE)
    have "(k, v) \<in> set ?ms \<longleftrightarrow> (\<exists>n. v = Uint n \<and> fmlookup (rs_section_revision_set stamp) i = Some n)" for v
    proof -
      have "\<not> is_known_field k" using True known_not_section by blast
      then have "(k, v) \<notin> set (known_members stamp h idn)" using known_names [of stamp h idn] by force
      then have "(k, v) \<in> set ?ms \<longleftrightarrow>
          (k, v) \<in> (\<lambda>(i, rev). (SECTION_REVISION_PREFIX @ i, Uint rev)) ` set (fm_entries (rs_section_revision_set stamp))"
        unfolding set_manifest_members by blast
      also have "\<dots> \<longleftrightarrow> (\<exists>n. v = Uint n \<and> fmlookup (rs_section_revision_set stamp) i = Some n)"
        unfolding k by (force simp: set_fm_entries)
      finally show ?thesis .
    qed
    then have "map_of ?ms k = Some v \<longleftrightarrow> map_option Uint (fmlookup (rs_section_revision_set stamp) i) = Some v" for v
      using map_of_eq_Some_iff [OF manifest_names_distinct] by auto
    then have "map_of ?ms k = map_option Uint (fmlookup (rs_section_revision_set stamp) i)"
      by (metis not_Some_eq)
    with True m show ?thesis by (simp add: k)
  next
    case False
    then have "(k, v) \<notin> (\<lambda>(i, rev). (SECTION_REVISION_PREFIX @ i, Uint rev)) ` X" for v X
      by (auto simp: starts_with_append)
    then have "(k, v) \<in> set ?ms \<longleftrightarrow> known_member stamp h idn k = Some v" for v
      unfolding set_manifest_members map_of_eq_Some_iff [OF known_names_distinct] by blast
    then have "map_of ?ms k = Some v \<longleftrightarrow> known_member stamp h idn k = Some v" for v
      using map_of_eq_Some_iff [OF manifest_names_distinct] by auto
    then have "map_of ?ms k = known_member stamp h idn k" by (metis not_Some_eq)
    with False m show ?thesis by simp
  qed
qed

section \<open>Collecting the section members\<close>

definition member_allowed :: "string \<times> canonical_value \<Rightarrow> bool" where
  "member_allowed kv \<longleftrightarrow>
     (if starts_with SECTION_REVISION_PREFIX (fst kv)
      then fst kv \<noteq> SECTION_REVISION_PREFIX \<and> as_uint (snd kv) \<noteq> None else is_known_field (fst kv))"

definition member_sections :: "string \<times> canonical_value \<Rightarrow> (string, u64) fmap \<Rightarrow> (string, u64) fmap" where
  "member_sections kv acc =
     (if starts_with SECTION_REVISION_PREFIX (fst kv)
      then fmupd (drop (length SECTION_REVISION_PREFIX) (fst kv)) (the (as_uint (snd kv))) acc else acc)"

lemma collect_member_Inr:
  assumes "\<And>i. fst kv = SECTION_REVISION_PREFIX @ i \<Longrightarrow> \<not> fm_has acc i"
  shows "collect_member kv acc = Inr s \<longleftrightarrow> member_allowed kv \<and> s = member_sections kv acc"
proof (cases "starts_with SECTION_REVISION_PREFIX (fst kv)")
  case True
  then obtain i where i: "fst kv = SECTION_REVISION_PREFIX @ i" by (rule starts_withE)
  from assms [OF i] show ?thesis
    by (auto simp: collect_member_def member_allowed_def member_sections_def i starts_with_append result_iff)
qed (auto simp: collect_member_def member_allowed_def member_sections_def)

lemma member_sections_lookup:
  "fmlookup (member_sections kv acc) i =
     (if fst kv = SECTION_REVISION_PREFIX @ i then Some (the (as_uint (snd kv))) else fmlookup acc i)"
  by (auto simp: member_sections_def starts_with_append elim!: starts_withE)

lemma collect_members_Inr:
  assumes "distinct (map fst kvs)" "\<And>i. SECTION_REVISION_PREFIX @ i \<in> fst ` set kvs \<Longrightarrow> \<not> fm_has acc i"
  shows "rfold collect_member kvs acc = Inr s \<longleftrightarrow>
     list_all member_allowed kvs \<and> s = fold member_sections kvs acc"
  using assms
proof (induction kvs arbitrary: acc)
  case (Cons kv kvs)
  have "collect_member kv acc = Inr t \<longleftrightarrow> member_allowed kv \<and> t = member_sections kv acc" for t
    using Cons.prems(2) by (intro collect_member_Inr) force
  moreover have "\<not> fm_has (member_sections kv acc) i" if "SECTION_REVISION_PREFIX @ i \<in> fst ` set kvs" for i
  proof -
    from Cons.prems(1) have "fst kv \<notin> fst ` set kvs" by simp
    with that have "fst kv \<noteq> SECTION_REVISION_PREFIX @ i" by metis
    with that Cons.prems(2) show ?thesis by (simp add: member_sections_lookup)
  qed
  ultimately show ?case using Cons.IH [of "member_sections kv acc"] Cons.prems(1) by (auto simp: rbind_eq_Inr)
qed auto

lemma fold_member_sections_lookup:
  assumes "distinct (map fst kvs)" "list_all member_allowed kvs"
  shows "fmlookup (fold member_sections kvs acc) i =
     (case map_of kvs (SECTION_REVISION_PREFIX @ i) of Some v \<Rightarrow> as_uint v | None \<Rightarrow> fmlookup acc i)"
  using assms
proof (induction kvs arbitrary: acc)
  case (Cons kv kvs)
  then have "fst kv \<notin> fst ` set kvs" by simp
  then have "map_of kvs (fst kv) = None" by (simp add: map_of_eq_None_iff)
  with Cons show ?case
    by (cases "fst kv = SECTION_REVISION_PREFIX @ i")
      (auto simp: member_sections_lookup member_allowed_def starts_with_append fun_upd_def
        split: option.splits)
qed simp

lemma collect_section_revisions_Inr:
  "collect_section_revisions obj = Inr s \<longleftrightarrow>
     (\<forall>k v. fmlookup obj k = Some v \<longrightarrow> member_allowed (k, v)) \<and>
     (\<forall>i. fmlookup s i = Option.bind (fmlookup obj (SECTION_REVISION_PREFIX @ i)) as_uint)"
proof -
  let ?kvs = "fm_entries obj"
  have all: "list_all member_allowed ?kvs \<longleftrightarrow> (\<forall>k v. fmlookup obj k = Some v \<longrightarrow> member_allowed (k, v))"
    unfolding list_all_iff by (auto simp: set_fm_entries Ball_def)
  have look: "fmlookup (fold member_sections ?kvs fmempty) i =
      Option.bind (fmlookup obj (SECTION_REVISION_PREFIX @ i)) as_uint" if "list_all member_allowed ?kvs" for i
    using fold_member_sections_lookup [OF distinct_fm_entries that, of fmempty i]
    by (simp add: map_of_fm_entries split: option.splits)
  have "collect_section_revisions obj = Inr s \<longleftrightarrow>
      list_all member_allowed ?kvs \<and> s = fold member_sections ?kvs fmempty"
    unfolding collect_section_revisions_def by (intro collect_members_Inr) (simp_all add: distinct_fm_entries)
  also have "\<dots> \<longleftrightarrow> list_all member_allowed ?kvs \<and>
      (\<forall>i. fmlookup s i = Option.bind (fmlookup obj (SECTION_REVISION_PREFIX @ i)) as_uint)"
    using look by (auto intro!: fm_eqI)
  finally show ?thesis by (simp only: all)
qed

section \<open>The preflight\<close>

definition restored_stamp :: "decoded_restore \<Rightarrow> revision_stamp" where
  "restored_stamp d =
     to_revision_stamp (dr_world_id d) (dr_context_id d) (dr_generation d) (dr_world_revision d)
       (fm_entries (dr_section_revision_set d))"

definition restored_manifest :: "decoded_restore \<Rightarrow> canonical_object" where
  "restored_manifest d = manifest_of (restored_stamp d) (dr_config_hash d) (dr_root_identity d)"

lemma restored_stamp_simps:
  "rs_world_id (restored_stamp d) = dr_world_id d" "rs_context_id (restored_stamp d) = dr_context_id d"
  "rs_generation (restored_stamp d) = dr_generation d"
  "rs_world_revision (restored_stamp d) = dr_world_revision d"
  "rs_section_revision_set (restored_stamp d) = dr_section_revision_set d"
  "rs_schema_id (restored_stamp d) = REVISION_STAMP_SCHEMA"
  by (simp_all add: restored_stamp_def to_revision_stamp_def fold_fm_entries_pair)

lemma encode_bytes_nonempty: "encode_bytes obj \<noteq> []"
  by (simp add: encode_bytes_def canonical_encode_def str_bytes_def)

lemma decode_canonical_object_Inr:
  "decode_canonical_object bs = Inr obj \<longleftrightarrow> canonical_ok obj \<and> bs = encode_bytes obj"
  using encode_bytes_nonempty [of obj]
  by (cases "bs = []") (auto simp: decode_canonical_object_def result_iff canonical.decode_iff)

lemma as_text_Some: "as_text v = Some t \<longleftrightarrow> v = Text t"
  by (cases v) simp_all

lemma as_uint_Some: "as_uint v = Some n \<longleftrightarrow> v = Uint n"
  by (cases v) simp_all

lemma require_text_Inr: "require_text obj k = Inr t \<longleftrightarrow> fmlookup obj k = Some (Text t)"
  by (auto simp: require_text_def result_iff bind_eq_Some_conv as_text_Some)

lemma require_uint_Inr: "require_uint obj k = Inr n \<longleftrightarrow> fmlookup obj k = Some (Uint n)"
  by (auto simp: require_uint_def result_iff bind_eq_Some_conv as_uint_Some)

text \<open>The members an accepted object has, field by field, and the object they make up.\<close>

definition has_members :: "canonical_object \<Rightarrow> decoded_restore \<Rightarrow> bool" where
  "has_members obj d \<longleftrightarrow>
     fmlookup obj ''schemaId'' = Some (Text SNAPSHOT_PAYLOAD_SCHEMA) \<and>
     fmlookup obj ''headerSchemaId'' = Some (Text SNAPSHOT_HEADER_SCHEMA) \<and>
     fmlookup obj ''magic'' = Some (Text SNAPSHOT_MAGIC) \<and>
     fmlookup obj ''schemaEpoch'' = Some (Uint SNAPSHOT_SCHEMA_EPOCH) \<and>
     fmlookup obj ''worldId'' = Some (Text (dr_world_id d)) \<and>
     fmlookup obj ''contextId'' = Some (Text (dr_context_id d)) \<and>
     fmlookup obj ''generation'' = Some (Uint (dr_generation d)) \<and>
     fmlookup obj ''worldRevision'' = Some (Uint (dr_world_revision d)) \<and>
     fmlookup obj ''configHash'' = Some (Text (dr_config_hash d)) \<and>
     fmlookup obj ''rootIdentity'' = Some (Text (hex_string (dr_root_identity d))) \<and>
     collect_section_revisions obj = Inr (dr_section_revision_set d)"

lemma preflight_members:
  "preflight_validate bs wid gen snap = Inr d \<longleftrightarrow>
     (\<exists>obj. canonical_ok obj \<and> bs = encode_bytes obj \<and> has_members obj d) \<and>
     wid \<noteq> [] \<and> dr_world_id d = wid \<and> dr_context_id d \<noteq> [] \<and> dr_generation d = gen \<and>
     is_hash256 (dr_config_hash d) \<and> dr_config_hash d = cs_config_hash snap \<and>
     length (dr_root_identity d) = 32"
  unfolding preflight_validate_def has_members_def
  by (cases d) (auto simp: rbind_eq_Inr decode_canonical_object_Inr require_text_Inr require_uint_Inr
      parse_hex32_Inr split: if_splits)

lemma has_members_iff:
  "has_members obj d \<longleftrightarrow>
     obj = restored_manifest d \<and> \<not> fm_has (dr_section_revision_set d) []"
proof -
  let ?P = SECTION_REVISION_PREFIX and ?S = "dr_section_revision_set d"
  let ?known = "known_member (restored_stamp d) (dr_config_hash d) (dr_root_identity d)"
  have fields: "has_members obj d \<longleftrightarrow>
      (\<forall>k. is_known_field k \<longrightarrow> fmlookup obj k = ?known k) \<and> collect_section_revisions obj = Inr ?S"
    unfolding has_members_def all_known_fields known_member_at restored_stamp_simps by (simp only: conj_assoc)
  have look: "fmlookup (restored_manifest d) k =
      (if starts_with ?P k then map_option Uint (fmlookup ?S (drop (length ?P) k)) else ?known k)" for k
    unfolding restored_manifest_def manifest_lookup by (simp add: restored_stamp_simps)
  show ?thesis
  proof
    assume "has_members obj d"
    then have kn: "\<And>k. is_known_field k \<Longrightarrow> fmlookup obj k = ?known k"
      and al: "\<And>k v. fmlookup obj k = Some v \<Longrightarrow> member_allowed (k, v)"
      and sec: "\<And>i. fmlookup ?S i = Option.bind (fmlookup obj (?P @ i)) as_uint"
      unfolding fields collect_section_revisions_Inr by blast+
    have "obj = restored_manifest d"
    proof (rule fm_eqI)
      fix k
      show "fmlookup obj k = fmlookup (restored_manifest d) k"
      proof (cases "starts_with ?P k")
        case True
        then obtain i where k: "k = ?P @ i" by (rule starts_withE)
        show ?thesis
        proof (cases "fmlookup obj k")
          case (Some v)
          with al [OF Some] True obtain n where "v = Uint n" by (auto simp: member_allowed_def as_uint_Some)
          with Some sec [of i] True show ?thesis by (simp add: look k)
        qed (use sec [of i] True in \<open>simp add: look k\<close>)
      next
        case False
        show ?thesis
        proof (cases "is_known_field k")
          case True
          with False kn show ?thesis by (simp add: look)
        next
          case unknown: False
          with False al [of k] have "fmlookup obj k = None" by (cases "fmlookup obj k") (auto simp: member_allowed_def)
          moreover have "?known k = None" using known_member_dom unknown by blast
          ultimately show ?thesis using False by (simp add: look)
        qed
      qed
    qed
    moreover have "\<not> fm_has ?S []"
      using sec [of "[]"] al [of ?P] by (auto simp: member_allowed_def starts_with_def bind_eq_Some_conv)
    ultimately show "obj = restored_manifest d \<and> \<not> fm_has ?S []" ..
  next
    assume a: "obj = restored_manifest d \<and> \<not> fm_has ?S []"
    have "fmlookup obj k = ?known k" if "is_known_field k" for k
      using known_not_section [OF that] a by (simp add: look)
    moreover have "member_allowed (k, v)" if "fmlookup obj k = Some v" for k v
    proof (cases "starts_with ?P k")
      case True
      then obtain i where k: "k = ?P @ i" by (rule starts_withE)
      from that a show ?thesis by (auto simp: look k starts_with_append member_allowed_def)
    next
      case False
      with that a have "?known k \<noteq> None" by (auto simp: look)
      with False known_member_dom show ?thesis by (simp add: member_allowed_def)
    qed
    moreover have "fmlookup ?S i = Option.bind (fmlookup obj (?P @ i)) as_uint" for i
      using a by (cases "fmlookup ?S i") (simp_all add: look starts_with_append)
    ultimately show "has_members obj d" unfolding fields collect_section_revisions_Inr by blast
  qed
qed

lemma preflight_iff:
  "preflight_validate bs wid gen snap = Inr d \<longleftrightarrow>
     bs = encode_bytes (restored_manifest d) \<and> canonical_ok (restored_manifest d) \<and>
     \<not> fm_has (dr_section_revision_set d) [] \<and>
     wid \<noteq> [] \<and> dr_world_id d = wid \<and> dr_context_id d \<noteq> [] \<and> dr_generation d = gen \<and>
     is_hash256 (dr_config_hash d) \<and> dr_config_hash d = cs_config_hash snap \<and>
     length (dr_root_identity d) = 32"
  unfolding preflight_members has_members_iff by blast

section \<open>Writers\<close>

text \<open>
  What the encoder relies on in a \<open>CaptureWriter\<close>: a write appends the whole block or leaves the writer
  as it was.
\<close>

locale capture_writer =
  fixes is_cancelled :: "'w \<Rightarrow> bool"
    and put :: "u8 list \<Rightarrow> 'w \<Rightarrow> (snapshot_error + unit) \<times> 'w"
    and content :: "'w \<Rightarrow> u8 list"
    and inv :: "'w \<Rightarrow> bool"
  assumes write_ok: "inv w \<Longrightarrow> put bs w = (Inr u, w') \<Longrightarrow> content w' = content w @ bs \<and> inv w'"
    and write_err: "inv w \<Longrightarrow> put bs w = (Inl e, w') \<Longrightarrow> w' = w"
begin

lemma encode_capture_cases:
  assumes "encode_capture is_cancelled put c w = (r, w')"
    and "is_hash256 (vc_config_hash c)" "rs_world_id (capture_stamp c) \<noteq> []"
  defines "bs \<equiv> encode_bytes (manifest_of (capture_stamp c) (vc_config_hash c) (capture_root_identity c))"
  shows "if is_cancelled w then r = Inl snapshot_loader_cancelled \<and> w' = w
    else \<exists>u. put bs w = (u, w') \<and>
      r = rbind u (\<lambda>_. Inr \<lparr>cm_payload_hash = sha256 bs, cm_root_identity = capture_root_identity c,
                cm_world_revision = rs_world_revision (capture_stamp c),
                cm_generation = rs_generation (capture_stamp c),
                cm_config_hash = vc_config_hash c, cm_byte_len = length bs\<rparr>)"
proof -
  have h: "vc_config_hash c \<noteq> []" using assms(2) by (auto simp: is_hash256_def)
  have "fmlookup (manifest_of (capture_stamp c) (vc_config_hash c) (capture_root_identity c)) ''magic'' \<noteq> None"
    by (simp add: manifest_lookup known_member_at starts_with_def SECTION_REVISION_PREFIX_def)
  then have l: "fm_len (manifest_of (capture_stamp c) (vc_config_hash c) (capture_root_identity c)) \<noteq> 0"
    by (auto simp: fm_len_0_iff)
  from assms(1) h l assms(3) show ?thesis
    unfolding encode_capture_def manifest_object_total
    by (cases "put bs w") (auto simp: Let_def encode_bytes_nonempty bs_def split: sum.splits if_splits)
qed

text \<open>An encoding that fails has written nothing.\<close>

lemma encode_capture_all_or_nothing:
  assumes "inv w" "encode_capture is_cancelled put c w = (r, w')"
    and "is_hash256 (vc_config_hash c)" "rs_world_id (capture_stamp c) \<noteq> []"
  shows "content w' = content w @ (if isl r then []
      else encode_bytes (manifest_of (capture_stamp c) (vc_config_hash c) (capture_root_identity c)))"
proof (cases "is_cancelled w")
  case True
  with encode_capture_cases [OF assms(2-4)] show ?thesis by simp
next
  case False
  let ?bs = "encode_bytes (manifest_of (capture_stamp c) (vc_config_hash c) (capture_root_identity c))"
  obtain u f where u: "put ?bs w = (u, w')" "r = rbind u (\<lambda>_. Inr f)"
    using encode_capture_cases [OF assms(2-4)] False by auto
  then have "isl r \<longleftrightarrow> isl u" by (cases u) simp_all
  with u write_ok [OF assms(1), of ?bs] write_err [OF assms(1), of ?bs] show ?thesis by (cases u) auto
qed

end

definition writer_ok :: "memory_writer \<Rightarrow> bool" where
  "writer_ok w \<longleftrightarrow> bb_cap (mw_buf w) = mw_cap w \<and> length (memory_as_slice w) \<le> mw_cap w \<and> mw_cap w < usize_max"

lemma memory_push_all_fits:
  assumes "length (bb_inner b) + length bs \<le> bb_cap b"
  shows "memory_push_all bs b = (Inr (), b\<lparr>bb_inner := bb_inner b @ bs\<rparr>)"
  using assms by (induction bs arbitrary: b) (simp_all add: bounded_buffer_push_def)

lemma memory_write_cases:
  assumes "writer_ok w"
  shows "memory_write bs w =
     (if mw_cancelled w then (Inl snapshot_loader_cancelled, w)
      else if length (memory_as_slice w) + length bs \<le> mw_cap w
      then (Inr (), w\<lparr>mw_buf := (mw_buf w)\<lparr>bb_inner := memory_as_slice w @ bs\<rparr>\<rparr>)
      else (Inl snapshot_budget_exceeded, w))"
  using assms memory_push_all_fits [of "mw_buf w" bs]
  by (auto simp: memory_write_def Let_def writer_ok_def memory_as_slice_def bounded_buffer_as_slice_def
      usize_saturating_add_def min_def)

interpretation memory: capture_writer mw_cancelled memory_write memory_as_slice writer_ok
proof unfold_locales
  fix w bs u w'
  assume "writer_ok w" "memory_write bs w = (Inr u, w')"
  then show "memory_as_slice w' = memory_as_slice w @ bs \<and> writer_ok w'"
    by (auto simp: memory_write_cases memory_as_slice_def bounded_buffer_as_slice_def writer_ok_def split: if_splits)
next
  fix w bs e w'
  assume "writer_ok w" "memory_write bs w = (Inl e, w')"
  then show "w' = w" by (auto simp: memory_write_cases split: if_splits)
qed

lemma writer_ok_new: "n < usize_max \<Longrightarrow> writer_ok (memory_writer_new n)"
  by (simp add: writer_ok_def memory_writer_new_def memory_as_slice_def bounded_buffer_as_slice_def
      bounded_buffer_new_def)

section \<open>The restore shadow\<close>

lemma shadow_sections:
  assumes "\<And>e. e \<in> set es \<Longrightarrow> section_id_wf (sec (fst e)) \<and> fst e = section_id_key (sec (fst e))"
  shows "rfold shadow_section es (ps, dir) =
     Inr (ps @ es, fold (\<lambda>e. fmupd (sec (fst e)) SlotUnchanged) es dir)"
  using assms
proof (induction es arbitrary: ps dir)
  case (Cons e es)
  then have "section_key_of (fst e) = Inr (sec (fst e))" by (simp add: section_key_of_Inr)
  then have "shadow_section e (ps, dir) = Inr (ps @ [e], fmupd (sec (fst e)) SlotUnchanged dir)"
    by (simp add: shadow_section_def directory_insert_def)
  with Cons show ?case by simp
qed simp

lemma shadow_directory:
  assumes keys: "stamp_keys_ok stamp"
  shows "\<exists>dir. rfold shadow_section (fm_entries (rs_section_revision_set stamp)) ([], directory_builder_new) =
      Inr (fm_entries (rs_section_revision_set stamp), dir) \<and>
    (\<forall>i. section_id_wf i \<longrightarrow> fmlookup dir i =
      (if fm_has (rs_section_revision_set stamp) (section_id_key i) then Some SlotUnchanged else None))"
proof -
  let ?es = "fm_entries (rs_section_revision_set stamp)"
  define sec where "sec raw = projr (section_key_of raw)" for raw
  have sec: "section_id_wf (sec (fst e)) \<and> fst e = section_id_key (sec (fst e))" if "e \<in> set ?es" for e
  proof -
    have "fm_has (rs_section_revision_set stamp) (fst e)" using that set_fm_entries [of "fst e" "snd e"] by simp
    with keys obtain i where i: "section_key_of (fst e) = Inr i" unfolding stamp_keys_ok_def by blast
    then have "sec (fst e) = i" by (simp add: sec_def)
    then show ?thesis using i by (simp add: section_key_of_Inr)
  qed
  let ?dir = "fold (\<lambda>e. fmupd (sec (fst e)) SlotUnchanged) ?es directory_builder_new"
  have "fmlookup ?dir i = (if fm_has (rs_section_revision_set stamp) (section_id_key i) then Some SlotUnchanged else None)"
    if wf: "section_id_wf i" for i
  proof -
    have "i \<in> sec ` fst ` set ?es \<longleftrightarrow> section_id_key i \<in> fst ` set ?es"
      using sec section_codec.encode_inject wf by (force simp: sec_def section_key_of_key)
    also have "\<dots> \<longleftrightarrow> fm_has (rs_section_revision_set stamp) (section_id_key i)"
      using map_of_eq_None_iff [of "fm_entries (rs_section_revision_set stamp)"] by (simp add: map_of_fm_entries)
    finally have "i \<in> sec ` fst ` set ?es \<longleftrightarrow> fm_has (rs_section_revision_set stamp) (section_id_key i)" .
    moreover have "fmlookup (fold (\<lambda>e. fmupd (sec (fst e)) SlotUnchanged) es d) i =
        (if i \<in> sec ` fst ` set es then Some SlotUnchanged else fmlookup d i)" for es :: "(string \<times> u64) list" and d
      by (induction es arbitrary: d) auto
    ultimately show ?thesis by (simp add: directory_builder_new_def)
  qed
  with shadow_sections [of ?es sec "[]" directory_builder_new] sec show ?thesis by auto
qed

lemma candidate_hash_total:
  "\<exists>h. candidate_fingerprint root r config_hash = Inr h"
  unfolding candidate_fingerprint_def candidate_put_def Let_def
  by (subst insert_members) simp_all

text \<open>What the shadow makes of an accepted decoding.\<close>

definition shadow_of :: "revision_stamp \<Rightarrow> string \<Rightarrow> restore_candidate \<Rightarrow> bool" where
  "shadow_of stamp config_hash x \<longleftrightarrow>
     ps_stamp (rx_root x) = stamp \<and> rx_world_revision x = rs_world_revision stamp \<and>
     rx_config_hash x = config_hash \<and> candidate_hash_matches x \<and>
     df_entries (ps_dirty_frontier (rx_root x)) = fmempty \<and> rp_entries (rx_replacement x) = fmempty \<and>
     (\<forall>i. section_id_wf i \<longrightarrow> fmlookup (ps_directory (rx_root x)) i =
        (if fm_has (rs_section_revision_set stamp) (section_id_key i) then Some SlotUnchanged else None))"

lemma shadow_build_ok:
  assumes "stamp_keys_ok (restored_stamp d)" "dr_world_id d \<noteq> []"
  shows "\<exists>x. shadow_build d = Inr x \<and> shadow_of (restored_stamp d) (dr_config_hash d) x"
proof -
  from shadow_directory [OF assms(1)] obtain dir
    where dir: "rfold shadow_section (fm_entries (dr_section_revision_set d)) ([], directory_builder_new) =
        Inr (fm_entries (dr_section_revision_set d), dir)"
      "\<forall>i. section_id_wf i \<longrightarrow> fmlookup dir i =
        (if fm_has (dr_section_revision_set d) (section_id_key i) then Some SlotUnchanged else None)"
    unfolding restored_stamp_simps by blast
  let ?f = "\<lparr>df_world_id = dr_world_id d, df_generation = dr_generation d, df_entries = fmempty\<rparr>"
  let ?root = "published_root_new (restored_stamp d) dir ?f" and ?r = "replacement_from_slots fmempty"
  obtain h where h: "candidate_fingerprint ?root ?r (dr_config_hash d) = Inr h" using candidate_hash_total by blast
  have "fm_entries (fmempty :: section_directory) = []"
    by (simp flip: length_0_conv add: length_fm_entries)
  then have "delta_freeze (delta_builder_new dir) = Inr ?r" by (simp add: delta_freeze_def delta_builder_new_def)
  then have "shadow_build d = Inr \<lparr>rx_root = ?root, rx_replacement = ?r, rx_world_revision = dr_world_revision d,
      rx_config_hash = dr_config_hash d, rx_candidate_hash = h\<rparr>"
    using assms(2) h unfolding restored_stamp_def
    by (simp add: shadow_build_def Let_def dir(1) dirty_frontier_new_def)
  with dir(2) h show ?thesis
    by (auto simp: shadow_of_def published_root_new_def candidate_hash_matches_def replacement_from_slots_def
        restored_stamp_simps)
qed

section \<open>From a capture to its restoration\<close>

lemma section_key_str_ok: "section_key_of raw = Inr i \<Longrightarrow> str_ok raw"
proof -
  assume "section_key_of raw = Inr i"
  then have raw: "raw = section_id_key i" by (simp add: section_key_of_Inr)
  have d: "list_all (\<lambda>c. byte_of c < 0x80) (dec_nat n)" for n
    using dec_nat_digits [of n] by (auto simp: list_all_iff is_digit_def byte_of_def)
  show ?thesis
    unfolding raw by (rule str_ok_ascii_all) (simp add: section_id_key_def dec_int_def byte_of_def
      d [unfolded byte_of_def])
qed

lemma hash256_str_ok: "is_hash256 h \<Longrightarrow> str_ok h"
  by (rule str_ok_ascii_all)
    (auto simp: is_hash256_def list_all_iff less_eq_char_def byte_of_def)

lemma manifest_ok:
  assumes "str_ok (rs_world_id stamp)" "str_ok (rs_context_id stamp)" "stamp_keys_ok stamp"
    and "is_hash256 h" "length idn = 32"
  shows "canonical_ok (manifest_of stamp h idn)"
  unfolding canonical_ok_iff
proof (intro allI impI)
  fix k v assume kv: "fmlookup (manifest_of stamp h idn) k = Some v"
  show "str_ok k \<and> value_ok v"
  proof (cases "starts_with SECTION_REVISION_PREFIX k")
    case True
    then obtain i where k: "k = SECTION_REVISION_PREFIX @ i" by (rule starts_withE)
    with kv True obtain n where n: "fmlookup (rs_section_revision_set stamp) i = Some n" "v = Uint n"
      by (auto simp: manifest_lookup)
    then obtain j where "section_key_of i = Inr j" using assms(3) unfolding stamp_keys_ok_def by blast
    then have "str_ok i" by (rule section_key_str_ok)
    moreover have "str_ok SECTION_REVISION_PREFIX"
      by (rule str_ok_ascii_all) (simp add: SECTION_REVISION_PREFIX_def byte_of_def)
    ultimately show ?thesis by (simp add: k n str_ok_append)
  next
    case False
    with kv have m: "(k, v) \<in> set (known_members stamp h idn)" by (simp add: manifest_lookup map_of_SomeD)
    have names: "list_all (\<lambda>c. byte_of c < 0x80) k" using m by (auto simp: known_members_def byte_of_def)
    have "list_all (\<lambda>kv. value_ok (snd kv)) (known_members stamp h idn)"
      using assms str_ok_hex_string hash256_str_ok [OF assms(4)]
      by (simp add: known_members_def SNAPSHOT_PAYLOAD_SCHEMA_def SNAPSHOT_HEADER_SCHEMA_def SNAPSHOT_MAGIC_def
          str_ok_ascii byte_of_def)
    with m names show ?thesis by (auto simp: list_all_iff str_ok_ascii_all)
  qed
qed

lemma capture_ref_new_Inr:
  "capture_ref_new view pin ev = Inr c \<longleftrightarrow>
     c = \<lparr>vc_root = rv_root view, vc_pin = pin, vc_config_hash = cv_config_hash ev\<rparr> \<and>
     cv_world_id ev \<noteq> [] \<and> cv_context_id ev \<noteq> [] \<and> is_hash256 (cv_config_hash ev) \<and>
     rs_world_id (view_stamp view) = cv_world_id ev \<and> rs_context_id (view_stamp view) = cv_context_id ev \<and>
     rs_generation (view_stamp view) = cv_generation ev \<and>
     rs_world_revision (view_stamp view) = cv_world_revision ev \<and>
     ps_identity (rv_root view) = cv_artifact_hash ev \<and>
     held_stamp pin = view_stamp view \<and> lease_stamp (rv_lease view) = view_stamp view"
  by (auto simp: capture_ref_new_def validate_evidence_def Let_def split: if_splits)

text \<open>The decoding that a captured stamp's manifest stands for.\<close>

definition decoded_of :: "revision_stamp \<Rightarrow> string \<Rightarrow> digest \<Rightarrow> decoded_restore" where
  "decoded_of stamp h idn =
     \<lparr>dr_world_id = rs_world_id stamp, dr_context_id = rs_context_id stamp, dr_generation = rs_generation stamp,
      dr_world_revision = rs_world_revision stamp, dr_section_revision_set = rs_section_revision_set stamp,
      dr_config_hash = h, dr_root_identity = idn\<rparr>"

lemma decoded_of_stamp:
  "rs_schema_id stamp = REVISION_STAMP_SCHEMA \<Longrightarrow> restored_stamp (decoded_of stamp h idn) = stamp"
  by (cases stamp) (simp add: decoded_of_def restored_stamp_def to_revision_stamp_def fold_fm_entries_pair)

lemma stamp_keys_nonempty: "stamp_keys_ok stamp \<Longrightarrow> \<not> fm_has (rs_section_revision_set stamp) []"
  unfolding stamp_keys_ok_def by (auto simp: section_key_of_Inr section_id_key_def)

lemma preflight_decoded_of:
  assumes "rs_schema_id stamp = REVISION_STAMP_SCHEMA" "stamp_keys_ok stamp"
    and "str_ok (rs_world_id stamp)" "str_ok (rs_context_id stamp)"
    and "rs_world_id stamp \<noteq> []" "rs_context_id stamp \<noteq> []" "is_hash256 h" "length idn = 32" "cs_config_hash snap = h"
  shows "preflight_validate (encode_bytes (manifest_of stamp h idn)) (rs_world_id stamp) (rs_generation stamp) snap =
    Inr (decoded_of stamp h idn)"
  unfolding preflight_iff restored_manifest_def decoded_of_stamp [OF assms(1)]
  using manifest_ok [OF assms(3,4,2,7,8)] stamp_keys_nonempty [OF assms(2)] assms(5-)
  by (simp add: decoded_of_def)

lemma encode_into_memory:
  assumes "is_hash256 (vc_config_hash c)" "rs_world_id (capture_stamp c) \<noteq> []" "limit < usize_max"
  defines "bs \<equiv> encode_bytes (manifest_of (capture_stamp c) (vc_config_hash c) (capture_root_identity c))"
  assumes "encode_capture mw_cancelled memory_write c (memory_writer_new limit) = (r, w)"
  shows "if length bs \<le> limit
    then \<exists>m. r = Inr m \<and> cm_payload_hash m = sha256 bs \<and> cm_byte_len m = length bs \<and> memory_as_slice w = bs
    else r = Inl snapshot_budget_exceeded \<and> w = memory_writer_new limit"
  using memory.encode_capture_cases [OF assms(5,1,2)] memory_write_cases [OF writer_ok_new [OF assms(3)], of bs]
  unfolding bs_def [symmetric]
  by (auto simp: memory_writer_new_def memory_as_slice_def bounded_buffer_as_slice_def bounded_buffer_new_def
      split: if_splits)

section \<open>Properties\<close>

text \<open>
  C39. The preflight accepts exactly the canonical manifests of this world. Bytes decode to a restore
  value if and only if they are the canonical encoding of the manifest made of that value (the ten
  header members and one member per section revision, with no other member), every string in it is
  well formed, no section name is empty, the identity is 32 bytes, and the value names the expected
  world, a context, the expected generation and the approved configuration.
\<close>

theorem preflight_accepts_exactly:
  "preflight_validate bs wid gen snap = Inr d \<longleftrightarrow>
     bs = encode_bytes (restored_manifest d) \<and> canonical_ok (restored_manifest d) \<and>
     \<not> fm_has (dr_section_revision_set d) [] \<and>
     wid \<noteq> [] \<and> dr_world_id d = wid \<and> dr_context_id d \<noteq> [] \<and> dr_generation d = gen \<and>
     is_hash256 (dr_config_hash d) \<and> dr_config_hash d = cs_config_hash snap \<and>
     length (dr_root_identity d) = 32"
  by (rule preflight_iff)

text \<open>
  A capture restores to the cut it was taken of. A capture with matching evidence is encoded into
  a bounded memory writer; when the encoding does not fit the writer is left empty and the budget
  error returned, and otherwise the written bytes carry the reported hash, pass the preflight of the
  same world, generation and configuration, and the shadow built from them has the captured stamp, no dirty
  section, an \<open>Unchanged\<close> slot for exactly the sections of the stamp, and a matching candidate hash.
\<close>

theorem capture_restore_roundtrip:
  assumes "capture_ref_new view pin ev = Inr c"
    and "str_ok (cv_world_id ev)" "str_ok (cv_context_id ev)" "length (cv_artifact_hash ev) = 32"
    and "rs_schema_id (view_stamp view) = REVISION_STAMP_SCHEMA" "stamp_keys_ok (view_stamp view)"
    and "limit < usize_max" "cs_config_hash snap = cv_config_hash ev"
    and "encode_capture mw_cancelled memory_write c (memory_writer_new limit) = (r, w)"
  shows "if limit < length (encode_bytes (manifest_of (view_stamp view) (cv_config_hash ev) (cv_artifact_hash ev)))
    then r = Inl snapshot_budget_exceeded \<and> memory_as_slice w = []
    else \<exists>m d x. r = Inr m \<and> cm_payload_hash m = sha256 (memory_as_slice w) \<and>
      preflight_validate (memory_as_slice w) (cv_world_id ev) (cv_generation ev) snap = Inr d \<and>
      shadow_build d = Inr x \<and> shadow_of (view_stamp view) (cv_config_hash ev) x"
proof -
  let ?st = "view_stamp view" and ?h = "cv_config_hash ev" and ?id = "cv_artifact_hash ev"
  let ?bs = "encode_bytes (manifest_of ?st ?h ?id)" and ?d = "decoded_of ?st ?h ?id"
  note c = assms(1) [unfolded capture_ref_new_Inr]
  have cap: "capture_stamp c = ?st" "capture_root_identity c = ?id" "vc_config_hash c = ?h"
    using c by (simp_all add: capture_stamp_def capture_root_identity_def view_stamp_def)
  have enc: "if length ?bs \<le> limit
      then \<exists>m. r = Inr m \<and> cm_payload_hash m = sha256 ?bs \<and> cm_byte_len m = length ?bs \<and> memory_as_slice w = ?bs
      else r = Inl snapshot_budget_exceeded \<and> w = memory_writer_new limit"
    using encode_into_memory [OF _ _ assms(7,9)] c unfolding cap by simp
  have d: "preflight_validate ?bs (cv_world_id ev) (cv_generation ev) snap = Inr ?d"
    using preflight_decoded_of [of ?st ?h ?id snap] assms c by simp
  have "dr_world_id ?d \<noteq> []" using c by (simp add: decoded_of_def)
  then obtain x where x: "shadow_build ?d = Inr x" "shadow_of ?st ?h x"
    using shadow_build_ok [of ?d] assms(5,6) by (auto simp: decoded_of_stamp) (simp add: decoded_of_def)
  show ?thesis
  proof (cases "limit < length ?bs")
    case True
    with enc show ?thesis
      by (simp add: memory_writer_new_def memory_as_slice_def bounded_buffer_as_slice_def bounded_buffer_new_def)
  next
    case False
    with enc d x show ?thesis by auto
  qed
qed

definition sample_cut :: published_read_view where
  "sample_cut = sample_view\<lparr>rv_root := (rv_root sample_view)\<lparr>ps_identity := replicate 32 7\<rparr>\<rparr>"

definition sample_evidence :: cut_evidence where
  "sample_evidence = \<lparr>cv_world_id = ''w'', cv_context_id = ''ctx'', cv_generation = 7, cv_world_revision = 3,
     cv_config_hash = replicate 64 (CHR ''0''), cv_artifact_hash = replicate 32 7\<rparr>"

lemma sample_manifest_length:
  "length (encode_bytes (manifest_of (sample_stamp 3) (replicate 64 (CHR ''0'')) (replicate 32 7))) \<le> 4096"
  by code_simp

lemma sample_capture_new:
  "\<exists>c. capture_ref_new sample_cut (PinHeld \<lparr>rp_stamp = sample_stamp 3, rp_id = 0\<rparr>) sample_evidence = Inr c"
  by (simp add: capture_ref_new_Inr sample_evidence_def sample_cut_def sample_view_def view_from_parts_def
      view_stamp_def lease_stamp_def lease_from_pin_def published_root_new_def is_hash256_def list_all_iff)

theorem capture_restore_roundtrip_witness:
  "\<exists>c m w d x. capture_ref_new sample_cut (PinHeld \<lparr>rp_stamp = sample_stamp 3, rp_id = 0\<rparr>) sample_evidence = Inr c \<and>
     encode_capture mw_cancelled memory_write c (memory_writer_new 4096) = (Inr m, w) \<and>
     preflight_validate (memory_as_slice w) ''w'' 7 sample_snapshot = Inr d \<and>
     shadow_build d = Inr x \<and> ps_stamp (rx_root x) = sample_stamp 3"
proof -
  obtain c where c: "capture_ref_new sample_cut (PinHeld \<lparr>rp_stamp = sample_stamp 3, rp_id = 0\<rparr>) sample_evidence = Inr c"
    using sample_capture_new by blast
  obtain r w where e: "encode_capture mw_cancelled memory_write c (memory_writer_new 4096) = (r, w)" by force
  have st: "view_stamp sample_cut = sample_stamp 3"
    by (simp add: sample_cut_def sample_view_def view_from_parts_def view_stamp_def published_root_new_def)
  have keys: "stamp_keys_ok (sample_stamp 3)"
    using sample_setting(5) sample_world_new sample_view_simps(1) by (simp add: view_stamp_def)
  from capture_restore_roundtrip [OF c _ _ _ _ _ _ _ e, of sample_snapshot] keys sample_manifest_length c e
  show ?thesis
    by (auto simp: st sample_evidence_def sample_snapshot_def str_ok_ascii byte_of_def shadow_of_def)
qed

end
