(* ===== verification/WorldOps.thy ===== *)
theory WorldOps
  imports World Restore
begin

text \<open>
  The exclusive operations of a world (world crate): capturing the published cut, restoring a sealed
  candidate, clearing dirty sections under a durability receipt, and unloading a clean section. Each
  takes the write occupancy, rechecks under it, and publishes at most one cut.
\<close>

section \<open>Capture\<close>

record runtime_snapshot_cut =
  rc_cut_id :: string
  rc_world_id :: string
  rc_context_id :: string
  rc_generation :: u64
  rc_world_revision :: u64
  rc_config_hash :: string
  rc_artifact_hash :: digest

record capture_evidence =
  ev_cut_id :: string
  ev_voxel_stamp :: revision_stamp
  ev_root_hash :: digest
  ev_barrier_released :: bool

definition cut_from_live :: "string \<Rightarrow> runtime_snapshot_cut action" where
  "cut_from_live cut_id =
     act_with_view (\<lambda>view w.
       let stamp = view_stamp view in
       Some (Inr \<lparr>rc_cut_id = cut_id, rc_world_id = rs_world_id stamp, rc_context_id = rs_context_id stamp,
                  rc_generation = rs_generation stamp, rc_world_revision = rs_world_revision stamp,
                  rc_config_hash = cs_config_hash (vw_snapshot w),
                  rc_artifact_hash = ps_identity (rv_root view)\<rparr>, w))"

definition capture_admit :: "runtime_snapshot_cut \<Rightarrow> voxel_world \<Rightarrow> world_error + unit" where
  "capture_admit rtc w =
     (if rc_cut_id rtc = [] \<or> rc_world_id rtc = [] \<or> rc_context_id rtc = [] then Inl we_invalid_handle
      else if \<not> is_hash256 (rc_config_hash rtc) then Inl we_invalid_handle
      else if rc_world_id rtc \<noteq> vw_world_id w then Inl we_session_mismatch
      else if rc_context_id rtc \<noteq> vw_context_id w then Inl we_session_mismatch
      else if rc_generation rtc \<noteq> vw_generation w then Inl we_stale_epoch
      else if \<not> query_admissible (vw_state w) then Inl we_claim_not_granted
      else if rc_config_hash rtc \<noteq> cs_config_hash (vw_snapshot w) then Inl we_invalid_handle
      else Inr ())"

definition validate_against_view :: "runtime_snapshot_cut \<Rightarrow> published_read_view \<Rightarrow> world_error + unit" where
  "validate_against_view rtc view =
     (let stamp = view_stamp view in
      if rc_world_id rtc \<noteq> rs_world_id stamp \<or> rc_context_id rtc \<noteq> rs_context_id stamp then Inl we_session_mismatch
      else if rc_generation rtc \<noteq> rs_generation stamp then Inl we_stale_epoch
      else if rc_world_revision rtc \<noteq> rs_world_revision stamp then Inl we_invalid_handle
      else if rc_artifact_hash rtc \<noteq> ps_identity (rv_root view) then Inl we_invalid_handle
      else if lease_stamp (rv_lease view) \<noteq> stamp then Inl we_invalid_handle
      else Inr ())"

definition cut_evidence_of :: "runtime_snapshot_cut \<Rightarrow> cut_evidence" where
  "cut_evidence_of rtc =
     \<lparr>cv_world_id = rc_world_id rtc, cv_context_id = rc_context_id rtc, cv_generation = rc_generation rtc,
      cv_world_revision = rc_world_revision rtc, cv_config_hash = rc_config_hash rtc,
      cv_artifact_hash = rc_artifact_hash rtc\<rparr>"

text \<open>The lease of the view is cloned into the capture; a refused capture drops the clone.\<close>

definition capture_view :: "runtime_snapshot_cut \<Rightarrow> published_read_view \<Rightarrow> (capture_ref \<times> capture_evidence) action" where
  "capture_view rtc view w =
     (let a = vw_authority w;
          (pin, s) = pin_clone (rl_pin (rv_lease view)) (pa_registry a);
          w1 = w\<lparr>vw_authority := pa_with_registry s a\<rparr>
      in case capture_ref_new view (LeaseHeld \<lparr>rl_pin = pin\<rparr>) (cut_evidence_of rtc) of
           Inl e \<Rightarrow> Some (Inl (we_mapped (ce_error_id e)),
             w\<lparr>vw_authority := pa_with_registry (pin_drop pin s) a\<rparr>)
         | Inr c \<Rightarrow> Some (Inr (c, \<lparr>ev_cut_id = rc_cut_id rtc, ev_voxel_stamp = capture_stamp c,
                                  ev_root_hash = capture_root_identity c, ev_barrier_released = True\<rparr>), w1))"

definition capture_cut :: "runtime_snapshot_cut \<Rightarrow> (capture_ref \<times> capture_evidence) action" where
  "capture_cut rtc =
     act_bind (\<lambda>w. act_lift (capture_admit rtc w) w) (\<lambda>_.
     act_with_view (\<lambda>view.
       with_scope ScopeCaptureCut (\<lambda>_.
         act_bind (act_lift (validate_against_view rtc view)) (\<lambda>_. capture_view rtc view))))"

section \<open>Restore\<close>

record restore_receipt =
  rr_old_root :: digest
  rr_new_root :: digest

definition restore_recheck :: "restore_candidate \<Rightarrow> voxel_world \<Rightarrow> world_error + unit" where
  "restore_recheck c w =
     (let stamp = ps_stamp (rx_root c) in
      if rs_world_id stamp \<noteq> vw_world_id w then Inl we_session_mismatch
      else if rs_generation stamp \<noteq> vw_generation w then Inl we_stale_epoch
      else if rs_context_id stamp \<noteq> vw_context_id w then Inl we_session_mismatch
      else if rx_config_hash c \<noteq> cs_config_hash (vw_snapshot w) then Inl (we_mapped ''EvidenceDigestMismatch'')
      else if \<not> candidate_hash_matches c then Inl (we_mapped ''ArtifactDigestMismatch'')
      else Inr ())"

definition restore_publish :: "restore_candidate \<Rightarrow> restore_receipt action" where
  "restore_publish c =
     act_bind (\<lambda>w. act_lift (restore_recheck c w) w) (\<lambda>_.
     act_bind (act_with_view (\<lambda>view. act_lift (Inr (ps_identity (rv_root view))))) (\<lambda>old_root.
     let (new_root, r, world_revision) = into_publication c in
     act_bind (act_publish world_revision new_root r) (\<lambda>new_root w.
       Some (Inr \<lparr>rr_old_root = old_root, rr_new_root = new_root\<rparr>,
             w\<lparr>vw_ledger := ledger_abort_in_flight (vw_ledger w)\<rparr>))))"

definition world_restore :: "restore_candidate \<Rightarrow> restore_receipt action" where
  "world_restore c =
     act_occupied (act_bind (\<lambda>w. act_lift (admit_scope ScopeRestore w) w) (\<lambda>_. restore_publish c))"

section \<open>Durability acknowledgement\<close>

record durability_receipt =
  dc_coverage_len :: nat
  dc_old_root :: digest
  dc_new_root :: digest

definition validate_before_occupancy :: "ack_evidence \<Rightarrow> unit action" where
  "validate_before_occupancy ack w =
     (if ae_kind ack \<noteq> ACK_KIND then Some (Inl we_invalid_handle, w)
      else if ae_world_id ack \<noteq> vw_world_id w then Some (Inl we_session_mismatch, w)
      else if ac_context_id (ae_context ack) \<noteq> vw_context_id w then Some (Inl we_session_mismatch, w)
      else if ac_generation (ae_context ack) \<noteq> vw_generation w then Some (Inl we_stale_epoch, w)
      else act_with_view (\<lambda>view. act_lift
        (if ae_covered_world_revision ack > rs_world_revision (view_stamp view)
         then Inl (we_mapped ''EvidenceDigestMismatch'') else Inr ())) w)"

definition ack_publish :: "ack_evidence \<Rightarrow> published_read_view \<Rightarrow> durability_receipt action" where
  "ack_publish ack view =
     (let frontier = ps_dirty_frontier (rv_root view); old_root = ps_identity (rv_root view) in
      act_bind (act_lift (map_err (\<lambda>e. we_mapped (dirty_error_id e)) (dirty_covered_by frontier ack))) (\<lambda>coverage.
      let new_dirty = dirty_except_covered frontier coverage in
      if fm_len coverage = 0 \<and> new_dirty = frontier
      then act_lift (Inr \<lparr>dc_coverage_len = 0, dc_old_root = old_root, dc_new_root = old_root\<rparr>)
      else
        let stamp = view_stamp view; directory = ps_directory (rv_root view) in
        act_bind (act_lift (map_err (\<lambda>e. we_mapped (section_error_id e)) (delta_freeze (delta_builder_new directory)))) (\<lambda>r.
        act_bind (act_publish (rs_world_revision stamp) (published_root_new stamp directory new_dirty) r) (\<lambda>new_root.
        act_lift (Inr \<lparr>dc_coverage_len = fm_len coverage, dc_old_root = old_root, dc_new_root = new_root\<rparr>)))))"

definition apply_durability_ack :: "ack_evidence \<Rightarrow> durability_receipt action" where
  "apply_durability_ack ack =
     act_bind (validate_before_occupancy ack) (\<lambda>_.
     act_occupied
       (act_bind (\<lambda>w. act_lift (admit_scope ScopeDurabilityAck w) w) (\<lambda>_.
        act_bind (validate_before_occupancy ack) (\<lambda>_.
        act_with_view (ack_publish ack)))))"

section \<open>Unloading a section\<close>

record unload_receipt =
  ur_section_id :: string
  ur_old_root :: digest
  ur_new_root :: digest
  ur_pin_exemption_checked :: bool

text \<open>
  The caller's hook is asked at most once, so its answer to the one section is all of it that matters
  here; state it keeps is the caller's.
\<close>

type_synonym pin_exemption_hook = "string \<Rightarrow> pin_exemption_error + unit"

definition map_section_error :: "section_error \<Rightarrow> world_error" where
  "map_section_error e = we_mapped (section_error_id e)"

definition refuse_dirty :: "published_read_view \<Rightarrow> string \<Rightarrow> world_error + unit" where
  "refuse_dirty view sid =
     rbind (map_err (\<lambda>e. we_mapped (dirty_error_id e)) (dirty_latest_revision (ps_dirty_frontier (rv_root view)) sid)) (\<lambda>latest.
     if latest \<noteq> None then Inl (we_mapped ''dirty_section_not_durable'') else Inr ())"

definition resident_slot :: "published_read_view \<Rightarrow> string \<Rightarrow> world_error + section_slot" where
  "resident_slot view sid =
     rbind (map_err map_section_error (directory_lookup (ps_directory (rv_root view)) sid)) (\<lambda>found.
     ok_or (we_mapped ''section_unavailable'') found)"

definition keep_or_unload :: "string \<Rightarrow> section_id \<times> section_slot \<Rightarrow> section_directory \<times> bool \<Rightarrow> world_error + section_directory \<times> bool" where
  "keep_or_unload sid e st =
     (let (i, slot) = e; (builder, saw) = st in
      if section_id_key i = sid
      then rbind (map_err map_section_error (directory_insert (section_id_key i) SlotUnchanged builder)) (\<lambda>b. Inr (b, True))
      else rbind (map_err map_section_error (directory_insert (section_id_key i) slot builder)) (\<lambda>b. Inr (b, saw)))"

definition directory_with_unloaded_section :: "published_read_view \<Rightarrow> string \<Rightarrow> world_error + section_directory" where
  "directory_with_unloaded_section view sid =
     rbind (rfold (keep_or_unload sid) (fm_entries (ps_directory (rv_root view))) (directory_builder_new, False))
       (\<lambda>(builder, saw).
       if \<not> saw then map_err map_section_error (directory_insert sid SlotUnchanged builder) else Inr builder)"

definition unload_publish :: "string \<Rightarrow> published_read_view \<Rightarrow> unload_receipt action" where
  "unload_publish sid before =
     act_with_view (\<lambda>current.
       if ps_identity (rv_root current) \<noteq> ps_identity (rv_root before)
       then act_lift (Inl (we_mapped ''SnapshotBaseMismatch''))
       else
         act_bind (act_lift (refuse_dirty current sid)) (\<lambda>_.
         act_bind (act_lift (resident_slot current sid)) (\<lambda>slot.
         if slot_presence slot \<noteq> ''Ready'' then act_lift (Inl (we_mapped ''section_unavailable''))
         else
           act_bind (act_lift (map_err map_section_error
             (rbind (delta_stage \<lparr>se_section_id = sid, se_cell_ids = [], se_slot = SlotUnchanged\<rparr>
                (delta_builder_new (ps_directory (rv_root current)))) delta_freeze))) (\<lambda>r.
           act_bind (act_lift (directory_with_unloaded_section current sid)) (\<lambda>directory.
           act_bind (act_publish (rs_world_revision (view_stamp current))
             (published_root_new (view_stamp current) directory (ps_dirty_frontier (rv_root current))) r) (\<lambda>new_root.
           act_lift (Inr \<lparr>ur_section_id = sid, ur_old_root = ps_identity (rv_root current), ur_new_root = new_root,
                          ur_pin_exemption_checked = True\<rparr>)))))))"

definition check_pins :: "string \<Rightarrow> pin_exemption_hook \<Rightarrow> voxel_world \<Rightarrow> world_error + unit" where
  "check_pins sid hook w =
     rbind (case vw_region_pins w of
              Some m \<Rightarrow> map_err (\<lambda>e. we_mapped (px_error_id e)) (manager_exemption m sid)
            | None \<Rightarrow> Inr ()) (\<lambda>_.
     map_err (\<lambda>e. we_mapped (px_error_id e)) (hook sid))"

definition unload_admitted :: "string \<Rightarrow> pin_exemption_hook \<Rightarrow> unload_receipt action" where
  "unload_admitted sid hook =
     act_with_view (\<lambda>before.
       act_bind (act_lift (resident_slot before sid)) (\<lambda>slot.
       act_bind (act_lift (refuse_dirty before sid)) (\<lambda>_.
       let presence = slot_presence slot; identity = ps_identity (rv_root before) in
       if presence = ''Ready''
       then act_bind (\<lambda>w. act_lift (check_pins sid hook w) w) (\<lambda>_. unload_publish sid before)
       else if presence = ''Unchanged''
       then act_lift (Inr \<lparr>ur_section_id = sid, ur_old_root = identity, ur_new_root = identity,
                           ur_pin_exemption_checked = False\<rparr>)
       else if presence = ''Pending'' \<or> presence = ''Unavailable''
       then act_lift (Inl (we_mapped ''section_unavailable''))
       else act_lift (Inl we_invalid_handle))))"

definition unload_section :: "string \<Rightarrow> pin_exemption_hook \<Rightarrow> unload_receipt action" where
  "unload_section sid hook =
     act_occupied (act_bind (\<lambda>w. act_lift (admit_scope ScopeStreamingApply w) w) (\<lambda>_. unload_admitted sid hook))"

definition mark_ready_from_world ::
    "u64 \<Rightarrow> region_pin_manager \<Rightarrow> voxel_world \<Rightarrow> (region_pin_error + region_pin_manager) \<times> voxel_world" where
  "mark_ready_from_world pin_id m w =
     (case pin_sections pin_id m of
        Inl e \<Rightarrow> (Inl e, w)
      | Inr sections \<Rightarrow>
          (let (view, w1) = world_capture w;
               all_ready = list_all (\<lambda>sid. case directory_lookup (ps_directory (rv_root view)) sid of
                   Inr (Some slot) \<Rightarrow> slot_presence slot = ''Ready'' | _ \<Rightarrow> False) sections
           in (if all_ready then mark_ready pin_id m else Inl pin_region_not_ready, world_drop view w1)))"

end
