(* ===== verification/Lifecycle.thy ===== *)
theory Lifecycle
  imports WorldOps
begin

text \<open>
  Ending a session (world crate): the bounded event sink, the diagnostics view, the ordered shutdown
  and the fault port. These operations also write to an event sink, so they map a world and a sink
  to a result and both after it.
\<close>

section \<open>Events\<close>

definition FAILURE_BUNDLE_SCHEMA :: string where "FAILURE_BUNDLE_SCHEMA = ''failure-bundle''"
definition LOGGING_EVENT_SCHEMA :: string where "LOGGING_EVENT_SCHEMA = ''logging-event''"
definition INCIDENT_SIMULATION :: string where "INCIDENT_SIMULATION = ''Simulation''"

record failure_bundle =
  fb_schema_id :: string
  fb_incident_kind :: string
  fb_error_id :: string
  fb_world_id :: string
  fb_world_context_id :: string
  fb_generation :: u64
  fb_lifecycle :: string
  fb_last_world_revision :: u64
  fb_diagnostic_name :: string

definition failure_simulation ::
    "string \<Rightarrow> string \<Rightarrow> string \<Rightarrow> u64 \<Rightarrow> string \<Rightarrow> u64 \<Rightarrow> string \<Rightarrow> failure_bundle" where
  "failure_simulation error_id world_id context_id generation lifecycle revision diagnostic_name =
     \<lparr>fb_schema_id = FAILURE_BUNDLE_SCHEMA, fb_incident_kind = INCIDENT_SIMULATION, fb_error_id = error_id,
      fb_world_id = world_id, fb_world_context_id = context_id, fb_generation = generation,
      fb_lifecycle = lifecycle, fb_last_world_revision = revision, fb_diagnostic_name = diagnostic_name\<rparr>"

datatype world_event =
    EvLogging string string string u64
  | EvFailure failure_bundle

record world_event_sink =
  sk_capacity :: nat
  sk_events :: "world_event list"
  sk_dropped :: nat

definition sink_bounded :: "nat \<Rightarrow> world_event_sink" where
  "sink_bounded c = \<lparr>sk_capacity = c, sk_events = [], sk_dropped = 0\<rparr>"

definition sink_emit :: "world_event \<Rightarrow> world_event_sink \<Rightarrow> world_event_sink" where
  "sink_emit e s =
     (if sk_capacity s = 0 \<or> length (sk_events s) \<ge> sk_capacity s
      then s\<lparr>sk_dropped := usize_saturating_add (sk_dropped s) 1\<rparr>
      else s\<lparr>sk_events := sk_events s @ [e]\<rparr>)"

definition logging_event :: "string \<Rightarrow> string \<Rightarrow> u64 \<Rightarrow> world_event" where
  "logging_event ev lifecycle generation = EvLogging LOGGING_EVENT_SCHEMA ev lifecycle generation"

section \<open>Diagnostics\<close>

record diagnostics_view =
  dv_lifecycle :: string
  dv_lifecycle_machine :: string
  dv_generation :: u64
  dv_world_id :: string
  dv_world_context_id :: string
  dv_last_world_revision :: u64
  dv_published_root :: digest
  dv_in_flight_reservations :: nat
  dv_write_occupied :: bool

definition diagnostics_snapshot :: "voxel_world \<Rightarrow> diagnostics_view \<times> voxel_world" where
  "diagnostics_snapshot w =
     (let (view, w1) = world_capture w in
      (\<lparr>dv_lifecycle = vw_state w, dv_lifecycle_machine = SIMULATION_SESSION_MACHINE,
        dv_generation = vw_generation w, dv_world_id = vw_world_id w, dv_world_context_id = vw_context_id w,
        dv_last_world_revision = rs_world_revision (view_stamp view),
        dv_published_root = ps_identity (rv_root view),
        dv_in_flight_reservations = in_flight_count (vw_ledger w),
        dv_write_occupied = vw_write_occupied w\<rparr>, world_drop view w1))"

section \<open>Shutdown\<close>

definition emit_logging :: "world_event_sink \<Rightarrow> string \<Rightarrow> string \<Rightarrow> u64 \<Rightarrow> world_event_sink" where
  "emit_logging sink ev lifecycle generation =
     sink_emit (logging_event (the (intern_session_event ev)) lifecycle generation) sink"

definition emit_phase :: "voxel_world \<Rightarrow> world_event_sink \<Rightarrow> string \<Rightarrow> world_event_sink" where
  "emit_phase w sink ev = emit_logging sink ev (vw_state w) (vw_generation w)"

definition apply_session_transition :: "string \<Rightarrow> string \<Rightarrow> voxel_world \<Rightarrow> world_error + voxel_world" where
  "apply_session_transition ev to w =
     rbind (ok_or we_invalid_handle (intern_session_event ev)) (\<lambda>ev.
     rbind (ok_or we_invalid_handle (intern_session_state to)) (\<lambda>to.
     rbind (session_apply (vw_state w) ev to) (\<lambda>st. Inr (w\<lparr>vw_state := st\<rparr>))))"

definition can_apply :: "string \<Rightarrow> string \<Rightarrow> voxel_world \<Rightarrow> bool" where
  "can_apply ev to w =
     (case (intern_session_event ev, intern_session_state to) of
        (Some e, Some t) \<Rightarrow> has_session_edge (vw_state w) e t | _ \<Rightarrow> False)"

definition sequence_reached :: "string \<Rightarrow> voxel_world \<Rightarrow> bool" where
  "sequence_reached target w =
     (case intern_session_state target of
        None \<Rightarrow> False
      | Some target \<Rightarrow>
          (let current = vw_state w in
           if current = target then True
           else if target = intern_or_bug ''Draining''
           then current = intern_or_bug ''Snapshotted'' \<or> current = intern_or_bug ''Disposed''
           else if target = intern_or_bug ''Snapshotted'' then current = intern_or_bug ''Disposed''
           else False))"

definition invalidate_generation :: "voxel_world \<Rightarrow> voxel_world" where
  "invalidate_generation w =
     (let n = vw_generation w + 1 in w\<lparr>vw_generation := if n = 0 then 1 else n\<rparr>)"

definition shutdown_begin ::
    "voxel_world \<times> world_event_sink \<Rightarrow> (world_error + unit) \<times> voxel_world \<times> world_event_sink" where
  "shutdown_begin ws =
     (let (w, sink) = ws in
      if sequence_reached ''Draining'' w then (Inr (), w, sink)
      else case apply_session_transition ''Drain'' ''Draining'' w of
        Inl e \<Rightarrow> (Inl e, w, sink)
      | Inr w1 \<Rightarrow> (Inr (), w1, emit_phase w1 sink ''Drain''))"

definition shutdown_drain ::
    "voxel_world \<times> world_event_sink \<Rightarrow> (world_error + unit) \<times> voxel_world \<times> world_event_sink" where
  "shutdown_drain ws =
     (let (w, sink) = ws in
      if sequence_reached ''Snapshotted'' w then (Inr (), w, sink)
      else if \<not> can_apply ''FinalSnapshotTaken'' ''Snapshotted'' w then (Inl we_invalid_handle, w, sink)
      else
        let w1 = w\<lparr>vw_ledger := ledger_abort_in_flight (vw_ledger w)\<rparr>;
            (exported, w2) = diagnostics_snapshot w1
        in case apply_session_transition ''FinalSnapshotTaken'' ''Snapshotted'' w2 of
             Inl e \<Rightarrow> (Inl e, w2, sink)
           | Inr w3 \<Rightarrow> (Inr (), w3, emit_phase w3 sink ''FinalSnapshotTaken''))"

definition shutdown_finalize ::
    "voxel_world \<times> world_event_sink \<Rightarrow> (world_error + unit) \<times> voxel_world \<times> world_event_sink" where
  "shutdown_finalize ws =
     (let (w, sink) = ws in
      if sequence_reached ''Disposed'' w then (Inr (), w, sink)
      else if \<not> can_apply ''Dispose'' ''Disposed'' w then (Inl we_invalid_handle, w, sink)
      else
        let old_generation = vw_generation w in
        case apply_session_transition ''Dispose'' ''Disposed'' w of
          Inl e \<Rightarrow> (Inl e, w, sink)
        | Inr w1 \<Rightarrow>
            (let w2 = invalidate_generation (w1\<lparr>vw_write_occupied := False\<rparr>)
             in (Inr (), w2, emit_logging sink ''Dispose'' (vw_state w2) old_generation)))"

text \<open>One step after another, the first error ending the run.\<close>

fun run_steps ::
    "('s \<Rightarrow> ('e + unit) \<times> 's) list \<Rightarrow> 's \<Rightarrow> ('e + unit) \<times> 's" where
  "run_steps [] s = (Inr (), s)"
| "run_steps (f # fs) s = (case f s of (Inl e, s') \<Rightarrow> (Inl e, s') | (Inr _, s') \<Rightarrow> run_steps fs s')"

definition world_shutdown ::
    "voxel_world \<times> world_event_sink \<Rightarrow> (world_error + unit) \<times> voxel_world \<times> world_event_sink" where
  "world_shutdown = run_steps [shutdown_begin, shutdown_drain, shutdown_finalize]"

section \<open>Faults\<close>

definition intern_cause :: "string \<Rightarrow> world_error + string" where
  "intern_cause cause =
     (if cause = [] then Inl we_invalid_handle
      else Inr (case intern_error_code cause of Some c \<Rightarrow> c | None \<Rightarrow> cause))"

definition already_in_sequence :: "voxel_world \<Rightarrow> bool" where
  "already_in_sequence w \<longleftrightarrow>
     vw_state w = intern_or_bug ''Draining'' \<or> vw_state w = intern_or_bug ''Snapshotted'' \<or>
     vw_state w = intern_or_bug ''Disposed''"

definition already_disposed :: "voxel_world \<Rightarrow> bool" where
  "already_disposed w \<longleftrightarrow> vw_state w = intern_or_bug ''Disposed''"

definition can_drain :: "voxel_world \<Rightarrow> bool" where
  "can_drain w = can_apply ''Drain'' ''Draining'' w"

definition shutdown_admissible :: "voxel_world \<Rightarrow> bool" where
  "shutdown_admissible w \<longleftrightarrow> already_in_sequence w \<or> can_drain w"

definition failure_bundle_of :: "voxel_world \<Rightarrow> string \<Rightarrow> string \<Rightarrow> failure_bundle \<times> voxel_world" where
  "failure_bundle_of w cause diagnostic_name =
     (let (view, w1) = world_capture w in
      (failure_simulation cause (vw_world_id w) (vw_context_id w) (vw_generation w) (vw_state w)
         (rs_world_revision (view_stamp view)) diagnostic_name, world_drop view w1))"

definition fault_trip ::
    "string \<Rightarrow> string \<Rightarrow> voxel_world \<times> world_event_sink \<Rightarrow> (world_error + unit) \<times> voxel_world \<times> world_event_sink" where
  "fault_trip cause diagnostic_name ws =
     (let (w, sink) = ws in
      case intern_cause cause of
        Inl e \<Rightarrow> (Inl e, w, sink)
      | Inr cause \<Rightarrow>
          if diagnostic_name = [] then (Inl we_invalid_handle, w, sink)
          else if \<not> shutdown_admissible w then (Inl we_invalid_handle, w, sink)
          else
            let (w1, sink1) =
              (if already_disposed w then (w, sink)
               else let (bundle, w1) = failure_bundle_of w cause diagnostic_name
                    in (w1, sink_emit (EvFailure bundle) sink))
            in world_shutdown (w1, sink1))"

end
