(* ===== verification/WorldFacts.thy ===== *)
theory WorldFacts
  imports Lifecycle
begin

text \<open>
  What every operation of a world keeps. \<open>act_ok\<close> is the contract of an action: with room for the pins
  it takes, it returns, it changes the authority and the ledger only, the ledger by ledger steps, and
  it leaves the views held outside, the ones its own result holds included, accounted for; a refusal
  leaves the published cut. The contract is closed under the combinators operations are written with.
\<close>

section \<open>The invariant of a world\<close>

definition session_states :: "string list" where
  "session_states = [''Created'', ''Initialized'', ''Ready'', ''Running'', ''Paused'', ''Draining'',
     ''Snapshotted'', ''Disposed'']"

definition world_ok :: "voxel_world \<Rightarrow> published_read_view multiset \<Rightarrow> bool" where
  "world_ok w V \<longleftrightarrow>
     (\<exists>P. pub_reach (vw_authority w) P {#} V) \<and> ledger_ok (vw_ledger w) \<and>
     vw_state w \<in> set session_states \<and>
     pa_world_id (vw_authority w) = vw_world_id w \<and> pa_context_id (vw_authority w) = vw_context_id w \<and>
     (vw_state w \<noteq> ''Disposed'' \<longrightarrow> pa_generation (vw_authority w) = vw_generation w)"

definition moved :: "voxel_world \<Rightarrow> voxel_world \<Rightarrow> bool" where
  "moved w w' \<longleftrightarrow> (\<exists>a l. w' = w\<lparr>vw_authority := a, vw_ledger := l\<rparr> \<and> same_owner (vw_authority w) a \<and>
     ledger_step\<^sup>*\<^sup>* (vw_ledger w) l)"

abbreviation world_root :: "voxel_world \<Rightarrow> published_state_root" where
  "world_root w \<equiv> pa_root (vw_authority w)"

definition held :: "('a \<Rightarrow> published_read_view multiset) \<Rightarrow> 'e + 'a \<Rightarrow> published_read_view multiset" where
  "held G r = (case r of Inl _ \<Rightarrow> {#} | Inr x \<Rightarrow> G x)"

lemma held_simps [simp]: "held G (Inl e) = {#}" "held G (Inr x) = G x"
  by (simp_all add: held_def)

text \<open>\<open>A\<close>: views held by the operation itself; \<open>c\<close>: a success may replace the published cut.\<close>

definition act_ok ::
    "nat \<Rightarrow> published_read_view multiset \<Rightarrow> bool \<Rightarrow> ('a \<Rightarrow> published_read_view multiset) \<Rightarrow> 'a action \<Rightarrow> bool" where
  "act_ok n A c G f \<longleftrightarrow>
     (\<forall>w V. world_ok w (A + V) \<longrightarrow> size (A + V) + n < usize_max \<longrightarrow>
        (\<exists>r w'. f w = Some (r, w') \<and> moved w w' \<and> world_ok w' (A + V + held G r) \<and>
           (world_root w' = world_root w \<or> (c \<and> \<not> isl r))))"

abbreviation nothing :: "'a \<Rightarrow> published_read_view multiset" where "nothing \<equiv> \<lambda>_. {#}"

lemma moved_refl [intro, simp]: "moved w w"
  unfolding moved_def by (intro exI [of _ "vw_authority w"] exI [of _ "vw_ledger w"]) (simp add: same_owner_def)

lemma moved_trans: "moved u v \<Longrightarrow> moved v w \<Longrightarrow> moved u w"
  unfolding moved_def same_owner_def by force

lemma moved_fields:
  assumes "moved w w'"
  shows "vw_state w' = vw_state w" "vw_world_id w' = vw_world_id w" "vw_context_id w' = vw_context_id w"
    "vw_generation w' = vw_generation w" "vw_role w' = vw_role w" "vw_snapshot w' = vw_snapshot w"
    "vw_limits w' = vw_limits w" "vw_planner w' = vw_planner w" "vw_write_occupied w' = vw_write_occupied w"
    "vw_region_pins w' = vw_region_pins w" "ledger_step\<^sup>*\<^sup>* (vw_ledger w) (vw_ledger w')"
    "same_owner (vw_authority w) (vw_authority w')"
  using assms by (auto simp: moved_def)

lemma world_ok_move:
  assumes "world_ok w V" "same_owner (vw_authority w) a" "pub_reach a P {#} V'" "ledger_step\<^sup>*\<^sup>* (vw_ledger w) l"
  shows "world_ok (w\<lparr>vw_authority := a, vw_ledger := l\<rparr>) V' \<and> moved w (w\<lparr>vw_authority := a, vw_ledger := l\<rparr>)"
  using assms ledger_steps [OF assms(4)] unfolding world_ok_def moved_def same_owner_def by auto

lemma pub_reach_slots:
  assumes "pub_reach a P T V"
  shows "fm_len (rg_slots (pa_registry a)) \<le> 1 + size T + size V"
proof -
  have "pins_ok (pa_registry a) (handles a T V)" using pub_reach_ok [OF assms] by (simp add: pub_ok_def)
  then have "fm_len (rg_slots (pa_registry a)) = card (rp_id ` set_mset (handles a T V))" by (rule pins_ok_len)
  also have "\<dots> \<le> card (set_mset (handles a T V))" by (rule card_image_le) simp
  also have "\<dots> \<le> size (handles a T V)" by (rule card_set_mset_le)
  finally show ?thesis by (simp add: size_handles)
qed

text \<open>No operation of the authority changes whose it is.\<close>

lemma same_owner_trans: "same_owner a b \<Longrightarrow> same_owner b c \<Longrightarrow> same_owner a c"
  by (simp add: same_owner_def)

lemma owner_simps [simp]:
  "same_owner a a" "same_owner a (view_drop v b) \<longleftrightarrow> same_owner a b" "same_owner a (token_drop t b) \<longleftrightarrow> same_owner a b"
  "same_owner a (published t b) \<longleftrightarrow> same_owner a b"
  by (simp_all add: same_owner_def view_drop_def token_drop_def)

lemma owner_capture: "authority_capture a = (v, b) \<Longrightarrow> same_owner a b"
  by (simp add: authority_capture_iff)

lemma owner_new:
  "authority_new w c g pins root = Inr a \<Longrightarrow> pa_world_id a = w \<and> pa_context_id a = c \<and> pa_generation a = g \<and> pa_root a = root"
  by (auto simp: authority_new_def result_iff split: if_splits)

lemma owner_prepare: "authority_prepare target root r a = Inr (p, b) \<Longrightarrow> same_owner a b \<and> pa_root b = pa_root a"
  by (auto simp: authority_prepare_def result_iff Let_def same_owner_def split: if_splits)

lemma owner_seal: "prepared_seal p a = Inr (t, p', b) \<Longrightarrow> same_owner a b \<and> pa_root b = pa_root a"
  by (auto simp: prepared_seal_def result_iff split: if_splits)

lemma owner_publish: "authority_publish_once t a = (r, b) \<Longrightarrow> same_owner a b"
  by (auto simp: publish_once_cases split: option.splits)

section \<open>Closure of the contract\<close>

lemma act_okI:
  assumes "\<And>w V. world_ok w (A + V) \<Longrightarrow> size (A + V) + n < usize_max \<Longrightarrow>
    \<exists>r w'. f w = Some (r, w') \<and> moved w w' \<and> world_ok w' (A + V + held G r) \<and>
      (world_root w' = world_root w \<or> (c \<and> \<not> isl r))"
  shows "act_ok n A c G f"
  using assms unfolding act_ok_def by blast

lemma act_okE:
  assumes "act_ok n A c G f" "world_ok w (A + V)" "size (A + V) + n < usize_max"
  obtains r w' where "f w = Some (r, w')" "moved w w'" "world_ok w' (A + V + held G r)"
    "world_root w' = world_root w \<or> (c \<and> \<not> isl r)"
  using assms unfolding act_ok_def by blast

lemma act_ok_mono: "act_ok n A c G f \<Longrightarrow> n \<le> m \<Longrightarrow> (c \<Longrightarrow> d) \<Longrightarrow> act_ok m A d G f"
  unfolding act_ok_def by (meson add_le_mono le_refl order_le_less_trans)

lemma act_ok_weaken: "act_ok n A False G f \<Longrightarrow> act_ok n A c G f"
  unfolding act_ok_def by blast

lemma act_ok_return: "G x = {#} \<Longrightarrow> act_ok n A c G (\<lambda>w. Some (Inr x, w))"
  by (rule act_okI) auto

text \<open>An action that answers from the world and changes nothing.\<close>

lemma act_ok_pure: "(\<And>w x. r w = Inr x \<Longrightarrow> G x = {#}) \<Longrightarrow> act_ok n A c G (\<lambda>w. Some (r w, w))"
proof (rule act_okI)
  fix w V assume "world_ok w (A + V)" and g: "\<And>w x. r w = Inr x \<Longrightarrow> G x = {#}"
  moreover have "held G (r w) = {#}" using g by (cases "r w") auto
  ultimately show "\<exists>s w'. Some (r w, w) = Some (s, w') \<and> moved w w' \<and> world_ok w' (A + V + held G s) \<and>
      (world_root w' = world_root w \<or> (c \<and> \<not> isl s))" by auto
qed

lemma act_ok_lift: "(\<And>x. r = Inr x \<Longrightarrow> G x = {#}) \<Longrightarrow> act_ok n A c G (act_lift r)"
  using act_ok_pure [of "\<lambda>_. r"] by (simp add: act_lift_def [abs_def])

lemma act_ok_check: "act_ok n A c nothing (\<lambda>w. act_lift (r w) w)"
  using act_ok_pure [of r nothing] by (simp add: act_lift_def [abs_def])

lemma act_ok_bind:
  assumes m: "act_ok n A False nothing m" and f: "\<And>x. act_ok n A c G (f x)"
  shows "act_ok n A c G (act_bind m f)"
proof (rule act_okI)
  fix w V assume w: "world_ok w (A + V)" "size (A + V) + n < usize_max"
  obtain r w1 where r: "m w = Some (r, w1)" "moved w w1" "world_ok w1 (A + V + held nothing r)"
    "world_root w1 = world_root w" by (rule act_okE [OF m w]) blast
  show "\<exists>r w'. act_bind m f w = Some (r, w') \<and> moved w w' \<and> world_ok w' (A + V + held G r) \<and>
      (world_root w' = world_root w \<or> (c \<and> \<not> isl r))"
  proof (cases r)
    case (Inl e)
    with r show ?thesis by (auto simp: act_bind_def)
  next
    case (Inr x)
    with r(3) have w1: "world_ok w1 (A + V)" by simp
    obtain s w2 where s: "f x w1 = Some (s, w2)" "moved w1 w2" "world_ok w2 (A + V + held G s)"
      "world_root w2 = world_root w1 \<or> (c \<and> \<not> isl s)" by (rule act_okE [OF f w1 w(2)]) blast
    with r Inr moved_trans [OF r(2) s(2)] show ?thesis by (auto simp: act_bind_def)
  qed
qed

text \<open>After a step that may publish, only actions that succeed follow.\<close>

lemma act_ok_bind_write:
  assumes m: "act_ok n A c nothing m" and f: "\<And>x. act_ok n A c nothing (f x)"
    and t: "\<And>x w r w'. f x w = Some (r, w') \<Longrightarrow> \<not> isl r"
  shows "act_ok n A c nothing (act_bind m f)"
proof (rule act_okI)
  fix w V assume w: "world_ok w (A + V)" "size (A + V) + n < usize_max"
  obtain r w1 where r: "m w = Some (r, w1)" "moved w w1" "world_ok w1 (A + V + held nothing r)"
    "world_root w1 = world_root w \<or> (c \<and> \<not> isl r)" by (rule act_okE [OF m w]) blast
  show "\<exists>r w'. act_bind m f w = Some (r, w') \<and> moved w w' \<and> world_ok w' (A + V + held nothing r) \<and>
      (world_root w' = world_root w \<or> (c \<and> \<not> isl r))"
  proof (cases r)
    case (Inl e)
    with r show ?thesis by (auto simp: act_bind_def)
  next
    case (Inr x)
    with r(3) have w1: "world_ok w1 (A + V)" by simp
    obtain s w2 where s: "f x w1 = Some (s, w2)" "moved w1 w2" "world_ok w2 (A + V + held nothing s)"
      "world_root w2 = world_root w1 \<or> (c \<and> \<not> isl s)" by (rule act_okE [OF f w1 w(2)]) blast
    with r Inr t [OF s(1)] moved_trans [OF r(2) s(2)] show ?thesis by (auto simp: act_bind_def)
  qed
qed

lemma world_capture_iff:
  "world_capture w = (v, w') \<longleftrightarrow>
     (\<exists>a. authority_capture (vw_authority w) = (v, a) \<and> w' = w\<lparr>vw_authority := a\<rparr>)"
  by (auto simp: world_capture_def split: prod.splits)

lemma world_capture_ok:
  assumes "world_ok w V" "size V + 3 < usize_max" "world_capture w = (v, w')"
  shows "world_ok w' (add_mset v V)" "moved w w'" "rv_root v = world_root w" "world_root w' = world_root w"
proof -
  obtain a P where a: "authority_capture (vw_authority w) = (v, a)" "w' = w\<lparr>vw_authority := a\<rparr>"
    "pub_reach (vw_authority w) P {#} V" using assms by (auto simp: world_capture_iff world_ok_def)
  then have "pub_reach a P {#} (add_mset v V)" using assms(2)
    by (intro pub_capture [of "vw_authority w" P "{#}" V]) (simp_all add: size_handles)
  moreover from a(1) have o: "same_owner (vw_authority w) a" "pa_root a = world_root w" "rv_root v = world_root w"
    by (simp_all add: authority_capture_iff)
  ultimately have "world_ok (w\<lparr>vw_authority := a, vw_ledger := vw_ledger w\<rparr>) (add_mset v V) \<and>
      moved w (w\<lparr>vw_authority := a, vw_ledger := vw_ledger w\<rparr>)"
    by (intro world_ok_move [OF assms(1)]) simp_all
  then show "world_ok w' (add_mset v V)" "moved w w'" by (simp_all add: a(2))
  show "rv_root v = world_root w" "world_root w' = world_root w" using o by (simp_all add: a(2))
qed

lemma world_drop_ok:
  assumes "world_ok w (add_mset v V)"
  shows "world_ok (world_drop v w) V" "moved w (world_drop v w)" "world_root (world_drop v w) = world_root w"
proof -
  obtain P where "pub_reach (vw_authority w) P {#} (add_mset v V)" using assms by (auto simp: world_ok_def)
  then have "pub_reach (view_drop v (vw_authority w)) P {#} V" by (rule pub_view_drop)
  moreover have "same_owner (vw_authority w) (view_drop v (vw_authority w))" by (simp add: view_drop_def)
  ultimately have "world_ok (w\<lparr>vw_authority := view_drop v (vw_authority w), vw_ledger := vw_ledger w\<rparr>) V \<and>
      moved w (w\<lparr>vw_authority := view_drop v (vw_authority w), vw_ledger := vw_ledger w\<rparr>)"
    by (intro world_ok_move [OF assms]) simp_all
  then show "world_ok (world_drop v w) V" "moved w (world_drop v w)" by (simp_all add: world_drop_def)
  show "world_root (world_drop v w) = world_root w" by (simp add: world_drop_def)
qed

lemma act_ok_view:
  assumes f: "\<And>v. act_ok n (add_mset v A) c G (f v)" and n: "2 \<le> n"
  shows "act_ok (Suc n) A c G (act_with_view f)"
proof (rule act_okI)
  fix w V assume w: "world_ok w (A + V)" "size (A + V) + Suc n < usize_max"
  obtain v w1 where c: "world_capture w = (v, w1)" by (cases "world_capture w")
  have "size (A + V) + 3 < usize_max" using w(2) n by simp
  note cap = world_capture_ok [OF w(1) this c]
  have w1: "world_ok w1 (add_mset v A + V)" "size (add_mset v A + V) + n < usize_max" using cap(1) w(2) by simp_all
  obtain r w2 where r: "f v w1 = Some (r, w2)" "moved w1 w2" "world_ok w2 (add_mset v A + V + held G r)"
    "world_root w2 = world_root w1 \<or> (c \<and> \<not> isl r)" by (rule act_okE [OF f w1]) blast
  from r(3) have "world_ok w2 (add_mset v (A + V + held G r))" by simp
  note d = world_drop_ok [OF this]
  have "moved w (world_drop v w2)" by (rule moved_trans [OF cap(2) moved_trans [OF r(2) d(2)]])
  then show "\<exists>r w'. act_with_view f w = Some (r, w') \<and> moved w w' \<and> world_ok w' (A + V + held G r) \<and>
      (world_root w' = world_root w \<or> (c \<and> \<not> isl r))"
    using c r d cap(4) by (auto simp: act_with_view_def)
qed

lemma world_ok_occupied [simp]: "world_ok (w\<lparr>vw_write_occupied := b\<rparr>) V \<longleftrightarrow> world_ok w V"
  by (simp add: world_ok_def)

lemma moved_released:
  assumes "moved (w\<lparr>vw_write_occupied := True\<rparr>) w1" "\<not> vw_write_occupied w"
  shows "moved w (w1\<lparr>vw_write_occupied := False\<rparr>)"
proof -
  from assms(1) obtain a l where al: "w1 = w\<lparr>vw_write_occupied := True, vw_authority := a, vw_ledger := l\<rparr>"
    "same_owner (vw_authority w) a" "ledger_step\<^sup>*\<^sup>* (vw_ledger w) l" by (auto simp: moved_def)
  have "w1\<lparr>vw_write_occupied := False\<rparr> = w\<lparr>vw_authority := a, vw_ledger := l\<rparr>"
    using assms(2) by (cases w) (simp add: al(1))
  with al(2,3) show ?thesis unfolding moved_def by blast
qed

lemma act_ok_occupied:
  assumes "act_ok n A c G f"
  shows "act_ok n A c G (act_occupied f)"
proof (rule act_okI)
  fix w V assume w: "world_ok w (A + V)" "size (A + V) + n < usize_max"
  show "\<exists>r w'. act_occupied f w = Some (r, w') \<and> moved w w' \<and> world_ok w' (A + V + held G r) \<and>
      (world_root w' = world_root w \<or> (c \<and> \<not> isl r))"
  proof (cases "vw_write_occupied w")
    case True
    with w show ?thesis by (auto simp: act_occupied_def)
  next
    case False
    let ?w = "w\<lparr>vw_write_occupied := True\<rparr>"
    have ok: "world_ok ?w (A + V)" using w by simp
    obtain r w1 where r: "f ?w = Some (r, w1)" "moved ?w w1" "world_ok w1 (A + V + held G r)"
      "world_root w1 = world_root ?w \<or> (c \<and> \<not> isl r)" by (rule act_okE [OF assms ok w(2)]) blast
    from moved_released [OF r(2) False] False r show ?thesis by (auto simp: act_occupied_def)
  qed
qed

lemma act_ok_publish:
  assumes "5 \<le> n"
  shows "act_ok n A True nothing (act_publish target root r)"
proof (rule act_okI)
  fix w V assume w: "world_ok w (A + V)" "size (A + V) + n < usize_max"
  let ?a = "vw_authority w"
  obtain P where reach: "pub_reach ?a P {#} (A + V)" using w by (auto simp: world_ok_def)
  have mv: "world_ok (w\<lparr>vw_authority := b\<rparr>) (A + V) \<and> moved w (w\<lparr>vw_authority := b\<rparr>)"
    if "pub_reach b Q {#} (A + V)" "same_owner ?a b" for b Q
    using world_ok_move [OF w(1) that(2,1), of "vw_ledger w"] by simp
  show "\<exists>s w'. act_publish target root r w = Some (s, w') \<and> moved w w' \<and> world_ok w' (A + V + held nothing s) \<and>
      (world_root w' = world_root w \<or> (True \<and> \<not> isl s))"
  proof (cases "authority_prepare target root r ?a")
    case (Inl e)
    with w show ?thesis by (auto simp: act_publish_def)
  next
    case (Inr pa)
    obtain pub a1 where prep: "authority_prepare target root r ?a = Inr (pub, a1)" using Inr by (cases pa) auto
    note pub = authority_prepare_Inr [OF prep]
    have o1: "same_owner ?a a1" "pa_root a1 = pa_root ?a" using owner_prepare [OF prep] by auto
    have r1: "pub_reach a1 (add_mset pub P) {#} (A + V)" by (rule pub_prepare [OF reach prep])
    show ?thesis
    proof (cases "prepared_seal pub a1")
      case (Inl e)
      with prep mv [OF r1 o1(1)] o1 show ?thesis by (auto simp: act_publish_def)
    next
      case (Inr x)
      then obtain t pub' a2 where seal: "prepared_seal pub a1 = Inr (t, pub', a2)" by (cases x) auto
      note tok = prepared_seal_Inr [OF seal]
      have o2: "same_owner ?a a2" "pa_root a2 = pa_root ?a"
        using owner_seal [OF seal] o1 by (auto intro: same_owner_trans)
      have r2: "pub_reach a2 (add_mset pub' P) (add_mset t {#}) (A + V)" by (rule pub_seal [OF r1 seal])
      have "tk_base_identity t = ps_identity (pa_root a2)" using tok pub o2 by auto
      moreover have "size ({#} :: publication_token multiset) + size (A + V) + 4 < usize_max" using w(2) assms by simp
      ultimately obtain v a3 where v: "authority_publish_once t a2 = (Inr v, a3)"
        "pub_reach a3 (add_mset pub' P) {#} (add_mset v (A + V))"
        using publish_current [OF r2] by blast
      have "same_owner ?a (view_drop v a3)"
        using o2 owner_publish [OF v(1)] by (auto intro: same_owner_trans)
      from mv [OF pub_view_drop [OF v(2)] this] prep seal v(1) show ?thesis
        by (auto simp: act_publish_def)
    qed
  qed
qed

end
