(* ===== verification/WorldReach.thy ===== *)
theory WorldReach
  imports WorldFacts
begin

text \<open>
  The contract of every operation of a world, the histories of a world, and what holds in all of
  them: no operation panics, the write occupancy is always given back, no pin is lost, a refusal
  leaves the published cut, and a world that is not running refuses every write.
\<close>

section \<open>Every operation meets the contract\<close>

lemma prepare_ledger: "ledger_step\<^sup>*\<^sup>* l (snd (prepare q base l))"
proof -
  have one: "ledger_step\<^sup>*\<^sup>* l m" if "ledger_reserve q l = Inr (r, m)" for r m
    using step_reserve [OF that] by (rule r_into_rtranclp)
  have two: "ledger_step\<^sup>*\<^sup>* l n" if "ledger_reserve q l = Inr (r, m)" "ledger_abort q m = Inr n" for r m n
    by (rule rtranclp.rtrancl_into_rtrancl [OF one [OF that(1)] step_abort [OF that(2)]])
  have r: "ledger_step\<^sup>*\<^sup>* l (snd (prepare_replay q base l receipt))" for receipt
    by (cases "ledger_reserve q l") (auto simp: prepare_replay_def intro: one)
  show ?thesis
    by (auto simp: prepare_def Let_def r result_iff split: sum.splits lookup_outcome.splits intro: one two)
qed

lemma ledger_move:
  assumes "world_ok w V" "ledger_step\<^sup>*\<^sup>* (vw_ledger w) l"
  shows "world_ok (w\<lparr>vw_ledger := l\<rparr>) V" "moved w (w\<lparr>vw_ledger := l\<rparr>)"
proof -
  obtain P where "pub_reach (vw_authority w) P {#} V" using assms by (auto simp: world_ok_def)
  from world_ok_move [OF assms(1) _ this assms(2)]
  show "world_ok (w\<lparr>vw_ledger := l\<rparr>) V" "moved w (w\<lparr>vw_ledger := l\<rparr>)" by (simp_all add: same_owner_def)
qed

text \<open>An action that answers from the ledger and takes it some steps further.\<close>

lemma act_ok_ledger:
  assumes "\<And>w. ledger_step\<^sup>*\<^sup>* (vw_ledger w) (g w)"
  shows "act_ok n A c nothing (\<lambda>w. Some (r w, w\<lparr>vw_ledger := g w\<rparr>))"
proof (rule act_okI)
  fix w V assume "world_ok w (A + V)"
  note m = ledger_move [OF this assms]
  have "held nothing (r w) = {#}" by (simp add: held_def split: sum.splits)
  with m show "\<exists>s w'. Some (r w, w\<lparr>vw_ledger := g w\<rparr>) = Some (s, w') \<and> moved w w' \<and>
      world_ok w' (A + V + held nothing s) \<and> (world_root w' = world_root w \<or> (c \<and> \<not> isl s))"
    by auto
qed

text \<open>The action depends on the world it runs in.\<close>

lemma act_ok_dep: "(\<And>x. act_ok n A c G (F x)) \<Longrightarrow> act_ok n A c G (\<lambda>w. F (g w) w)"
  unfolding act_ok_def by blast

lemma act_ok_if: "act_ok n A c G f \<Longrightarrow> act_ok n A c G g \<Longrightarrow> act_ok n A c G (\<lambda>w. if b w then f w else g w)"
  unfolding act_ok_def by (simp split: if_split)

lemma if_act_ok: "act_ok n A c G f \<Longrightarrow> act_ok n A c G g \<Longrightarrow> act_ok n A c G (if b then f else g)"
  by simp

lemma admit_ok:
  "act_ok n A c nothing (endpoint_admit (CmdQuery origin q))"
  "act_ok n A c nothing (endpoint_admit (CmdMutation origin m))"
proof -
  have "endpoint_admit (CmdQuery origin q) = (\<lambda>w. Some (rbind (admit_query origin q w) (\<lambda>_. Inr AdmittedQuery), w))"
    "endpoint_admit (CmdMutation origin m) = (\<lambda>w. Some (rbind (admit_mutation origin m w) (\<lambda>_. Inr AdmittedMutation), w))"
    by (rule ext, simp)+
  then show "act_ok n A c nothing (endpoint_admit (CmdQuery origin q))"
    "act_ok n A c nothing (endpoint_admit (CmdMutation origin m))"
    by (simp_all add: act_ok_pure)
qed

lemma act_ok_complete: "act_ok n A c nothing (act_complete origin payload)"
  unfolding act_complete_def [abs_def] by (rule act_ok_pure) simp

lemma complete_succeeds: "act_complete origin payload w = Some (r, w') \<Longrightarrow> \<not> isl r"
  by (auto simp: act_complete_def)

lemma re_admit_ok:
  "act_ok n A c nothing (re_admit_query q)"
  "act_ok n A c nothing (re_admit_mutation m)"
  unfolding re_admit_query_def [abs_def] re_admit_mutation_def [abs_def]
  by (rule act_ok_dep, intro act_ok_bind act_ok_lift admit_ok; simp)+

lemma lease_query_ok: "2 \<le> n \<Longrightarrow> act_ok (Suc n) A False nothing (lease_query q h)"
  unfolding lease_query_def by (intro act_ok_bind act_ok_view act_ok_lift re_admit_ok act_ok_check) simp_all

lemma lease_prepare_ok: "2 \<le> n \<Longrightarrow> act_ok (Suc n) A False nothing (lease_prepare q h)"
  unfolding lease_prepare_def case_prod_beta Let_def
  by (intro act_ok_bind act_ok_view act_ok_lift re_admit_ok act_ok_ledger prepare_ledger) simp_all

lemma lease_abort_ok: "act_ok n A False nothing (lease_abort q h)"
proof -
  have "act_ok n A False nothing (\<lambda>w. case ledger_abort q (vw_ledger w) of
      Inl e \<Rightarrow> Some (Inl (we_mapped (le_error_id e)), w) | Inr l \<Rightarrow> Some (Inr (), w\<lparr>vw_ledger := l\<rparr>))"
  proof (rule act_okI)
    fix w V assume w: "world_ok w (A + V)"
    show "\<exists>r w'. (case ledger_abort q (vw_ledger w) of
        Inl e \<Rightarrow> Some (Inl (we_mapped (le_error_id e)), w) | Inr l \<Rightarrow> Some (Inr (), w\<lparr>vw_ledger := l\<rparr>)) = Some (r, w') \<and>
      moved w w' \<and> world_ok w' (A + V + held nothing r) \<and> (world_root w' = world_root w \<or> (False \<and> \<not> isl r))"
    proof (cases "ledger_abort q (vw_ledger w)")
      case (Inr l)
      have "ledger_step\<^sup>*\<^sup>* (vw_ledger w) l" using step_abort [OF Inr] by (rule r_into_rtranclp)
      from ledger_move [OF w this] Inr show ?thesis by auto
    qed (use w in auto)
  qed
  then show ?thesis unfolding lease_abort_def by (intro act_ok_bind act_ok_lift re_admit_ok) simp_all
qed

lemma commit_publish_owner:
  assumes "commit_publish p root a l = Some (r, a', l')"
  shows "same_owner a a'"
  using assms
  by (auto simp: commit_publish_def publish_once_and_finalize_def owner_simps Let_def
      split: sum.splits option.splits prod.splits
      dest!: owner_prepare owner_seal owner_publish intro: same_owner_trans)

lemma mutation_commit_owner:
  assumes "mutation_commit p a l = Some (r, a', l')"
  shows "same_owner a a'"
  using assms
  by (auto simp: mutation_commit_def owner_simps Let_def
      split: sum.splits option.splits prod.splits lookup_outcome.splits
      dest!: owner_capture commit_publish_owner intro: same_owner_trans)

lemma mutation_commit_moves:
  assumes "pub_reach a P T V" "size T + size V + 5 < usize_max" "ledger_ok l"
  shows "\<exists>r a' l' Q. mutation_commit p a l = Some (r, a', l') \<and> pub_reach a' Q T V \<and> same_owner a a' \<and>
    ledger_step\<^sup>*\<^sup>* l l' \<and> (isl r \<longrightarrow> pa_root a' = pa_root a)"
proof -
  obtain r a' l' Q where c: "mutation_commit p a l = Some (r, a', l')" "pub_reach a' Q T V"
    and e: "r = Inl e \<Longrightarrow> pa_root a' = pa_root a \<and> l' = l"
    and s: "r = Inr rc \<Longrightarrow> ledger_step\<^sup>*\<^sup>* l l'" for e rc
    using mutation_commit_effect [OF assms, of p]
    by (elim exE conjE) (simp split: sum.splits if_splits; fastforce)
  have "ledger_step\<^sup>*\<^sup>* l l'" "isl r \<longrightarrow> pa_root a' = pa_root a"
    using e s by (cases r; auto)+
  with c mutation_commit_owner [OF c(1)] show ?thesis by blast
qed

lemma lease_commit_ok:
  assumes "5 \<le> n"
  shows "act_ok n A True nothing (lease_commit p h)"
proof -
  have "act_ok n A True nothing (\<lambda>w. case mutation_commit p (vw_authority w) (vw_ledger w) of
         None \<Rightarrow> None | Some (r, a, l) \<Rightarrow> Some (map_err map_mutation r, w\<lparr>vw_authority := a, vw_ledger := l\<rparr>))"
  proof (rule act_okI)
    fix w V assume w: "world_ok w (A + V)" "size (A + V) + n < usize_max"
    then obtain P where P: "pub_reach (vw_authority w) P {#} (A + V)" "ledger_ok (vw_ledger w)"
      by (auto simp: world_ok_def)
    have room: "size ({#} :: publication_token multiset) + size (A + V) + 5 < usize_max" using w(2) assms by simp
    obtain r a l Q where c: "mutation_commit p (vw_authority w) (vw_ledger w) = Some (r, a, l)"
      "pub_reach a Q {#} (A + V)" and eff: "isl r \<longrightarrow> pa_root a = world_root w"
      and steps: "ledger_step\<^sup>*\<^sup>* (vw_ledger w) l" "same_owner (vw_authority w) a"
      using mutation_commit_moves [OF P(1) room P(2), of p] by blast
    note mv = world_ok_move [OF w(1) steps(2) c(2) steps(1)]
    have "held nothing (map_err map_mutation r) = {#}" "isl (map_err map_mutation r) = isl r"
      by (cases r; simp)+
    with c(1) mv eff show "\<exists>r w'. (case mutation_commit p (vw_authority w) (vw_ledger w) of
         None \<Rightarrow> None | Some (r, a, l) \<Rightarrow> Some (map_err map_mutation r, w\<lparr>vw_authority := a, vw_ledger := l\<rparr>)) = Some (r, w') \<and>
       moved w w' \<and> world_ok w' (A + V + held nothing r) \<and> (world_root w' = world_root w \<or> (True \<and> \<not> isl r))"
      by auto
  qed
  then show ?thesis
    unfolding lease_commit_def
    by (intro act_ok_bind act_ok_lift re_admit_ok act_ok_dep [where F = re_admit_mutation]) simp_all
qed

lemma act_ok_bind_check: "(\<And>x. act_ok n A c G (f x)) \<Longrightarrow> act_ok n A c G (\<lambda>w. act_bind (act_lift (r w)) f w)"
  by (rule act_ok_dep [where F = "\<lambda>r. act_bind (act_lift r) f"]) (intro act_ok_bind act_ok_lift; simp)

lemma with_scope_ok:
  "(\<And>h. act_ok n A c G (work h)) \<Longrightarrow> act_ok n A c G (with_scope scope work)"
  unfolding with_scope_def by (intro act_ok_occupied act_ok_bind_check)

lemma route_query_ok: "act_ok 7 A False nothing (route_query e)"
  unfolding route_query_def
  by (intro act_ok_bind act_ok_check admit_ok act_ok_lift with_scope_ok act_ok_complete
      lease_query_ok [of 6, simplified]) simp_all

lemma route_prepare_ok: "act_ok 7 A False nothing (route_prepare e)"
  unfolding route_prepare_def
  by (intro act_ok_bind act_ok_check admit_ok act_ok_lift with_scope_ok act_ok_complete
      lease_prepare_ok [of 6, simplified]) simp_all

lemma route_abort_ok: "act_ok 7 A False nothing (route_abort e)"
  unfolding route_abort_def
  by (intro act_ok_bind act_ok_check admit_ok act_ok_lift with_scope_ok act_ok_complete lease_abort_ok) simp_all

lemma route_commit_ok: "act_ok 7 A True nothing (route_commit e)"
proof -
  have admit: "act_ok 7 A False nothing (\<lambda>w. endpoint_admit (CmdMutation (en_origin e)
      \<lparr>mq_txn_id = pm_txn_id (en_payload e), mq_world_id = vw_world_id w,
       mq_generation = vw_generation w, mq_entries = []\<rparr>) w)"
    by (rule act_ok_dep [where F = "\<lambda>m. endpoint_admit (CmdMutation (en_origin e) m)"]) (rule admit_ok)
  have tail: "act_ok 7 A True nothing
      (act_bind (with_scope ScopeMutation (lease_commit (en_payload e))) (act_complete (en_origin e)))"
    by (intro act_ok_bind_write with_scope_ok lease_commit_ok act_ok_complete complete_succeeds) simp
  show ?thesis
    unfolding route_commit_def
    by (rule act_ok_bind [OF act_ok_check], rule act_ok_bind [OF act_ok_check], rule act_ok_bind [OF admit],
        rule act_ok_bind [OF act_ok_lift], simp, rule tail)
qed

lemma validate_before_ok: "2 \<le> n \<Longrightarrow> act_ok (Suc n) A False nothing (validate_before_occupancy ack)"
  unfolding validate_before_occupancy_def [abs_def]
  by (intro act_ok_if act_ok_view act_ok_lift act_ok_pure) simp_all

lemma ack_publish_ok: "act_ok 5 A True nothing (ack_publish ack view)"
  unfolding ack_publish_def Let_def
  by (intro act_ok_bind act_ok_lift if_act_ok act_ok_bind_write act_ok_publish) (simp_all add: act_lift_def)

lemma durability_ack_ok: "act_ok 7 A True nothing (apply_durability_ack ack)"
  unfolding apply_durability_ack_def
  by (intro act_ok_bind act_ok_occupied act_ok_check validate_before_ok [of 6, simplified]
      act_ok_view [of 6, simplified] act_ok_mono [OF ack_publish_ok]) simp_all

lemma restore_publish_ok: "act_ok 7 A True nothing (restore_publish c)"
proof -
  have "act_ok 7 A True nothing (\<lambda>w. Some (Inr r, w\<lparr>vw_ledger := ledger_abort_in_flight (vw_ledger w)\<rparr>))"
    for r :: restore_receipt
    by (rule act_ok_ledger [where r = "\<lambda>_. Inr r"]) (rule r_into_rtranclp, rule step_abort_all)
  then have "act_ok 7 A True nothing (act_bind (act_publish t root d) (\<lambda>new_root w.
       Some (Inr \<lparr>rr_old_root = old_root, rr_new_root = new_root\<rparr>,
             w\<lparr>vw_ledger := ledger_abort_in_flight (vw_ledger w)\<rparr>)))" for t root d old_root
    by (intro act_ok_bind_write act_ok_publish) auto
  then show ?thesis
    unfolding restore_publish_def case_prod_beta Let_def
    by (intro act_ok_bind [OF act_ok_check] act_ok_bind [OF act_ok_view [of 6, simplified]] act_ok_lift) simp_all
qed

lemma restore_ok: "act_ok 7 A True nothing (world_restore c)"
  unfolding world_restore_def by (intro act_ok_occupied act_ok_bind act_ok_check restore_publish_ok)

lemma unload_publish_ok: "act_ok 6 A True nothing (unload_publish sid before)"
  unfolding unload_publish_def
  by (intro act_ok_view [of 5, simplified] if_act_ok act_ok_bind act_ok_lift act_ok_bind_write act_ok_publish)
    (simp_all add: act_lift_def)

lemma unload_ok: "act_ok 7 A True nothing (unload_section sid hook)"
  unfolding unload_section_def unload_admitted_def Let_def
  by (intro act_ok_occupied act_ok_bind act_ok_check act_ok_view [of 6, simplified] if_act_ok act_ok_lift
      unload_publish_ok) simp_all

lemma cut_from_live_ok: "act_ok 7 A False nothing (cut_from_live cut_id)"
  unfolding cut_from_live_def Let_def by (intro act_ok_view [of 6, simplified] act_ok_pure) simp_all

text \<open>A capture keeps a lease of the captured cut: the one view an operation leaves behind.\<close>

definition capture_views :: "capture_ref \<times> capture_evidence \<Rightarrow> published_read_view multiset" where
  "capture_views x =
     (case vc_pin (fst x) of LeaseHeld lease \<Rightarrow> {#\<lparr>rv_root = vc_root (fst x), rv_lease = lease\<rparr>#} | PinHeld _ \<Rightarrow> {#})"

lemma capture_view_ok: "act_ok 6 (add_mset v A) False capture_views (capture_view rtc v)"
proof (rule act_okI)
  fix w V assume w: "world_ok w (add_mset v A + V)" "size (add_mset v A + V) + 6 < usize_max"
  let ?a = "vw_authority w" and ?V = "add_mset v A + V"
  obtain P where P: "pub_reach ?a P {#} ?V" using w by (auto simp: world_ok_def)
  define s where "s = snd (pin_clone (view_pin v) (pa_registry ?a))"
  have clone: "pin_clone (rl_pin (rv_lease v)) (pa_registry ?a) = (view_pin v, s)"
    by (simp add: s_def view_pin_def pin_clone_def)
  have "pub_reach (pa_with_registry s ?a) P {#} (add_mset v ?V)"
    unfolding s_def using P w(2) by (intro pub_clone) (simp_all add: size_handles)
  then have "world_ok (w\<lparr>vw_authority := pa_with_registry s ?a, vw_ledger := vw_ledger w\<rparr>) (add_mset v ?V) \<and>
      moved w (w\<lparr>vw_authority := pa_with_registry s ?a, vw_ledger := vw_ledger w\<rparr>)"
    by (intro world_ok_move [OF w(1)]) simp_all
  then have c: "world_ok (w\<lparr>vw_authority := pa_with_registry s ?a\<rparr>) (add_mset v ?V)"
    "moved w (w\<lparr>vw_authority := pa_with_registry s ?a\<rparr>)" by simp_all
  note d = world_drop_ok [OF c(1)]
  have drop: "world_drop v (w\<lparr>vw_authority := pa_with_registry s ?a\<rparr>) =
      w\<lparr>vw_authority := pa_with_registry (pin_drop (view_pin v) s) ?a\<rparr>"
    by (simp add: world_drop_def view_drop_def view_pin_def pa_with_registry_def)
  show "\<exists>r w'. capture_view rtc v w = Some (r, w') \<and> moved w w' \<and> world_ok w' (?V + held capture_views r) \<and>
      (world_root w' = world_root w \<or> (False \<and> \<not> isl r))"
  proof (cases "capture_ref_new v (LeaseHeld \<lparr>rl_pin = view_pin v\<rparr>) (cut_evidence_of rtc)")
    case (Inl e)
    with d moved_trans [OF c(2) d(2)] show ?thesis by (simp add: capture_view_def clone drop)
  next
    case (Inr c')
    then have "vc_root c' = rv_root v" "vc_pin c' = LeaseHeld \<lparr>rl_pin = view_pin v\<rparr>"
      by (auto simp: capture_ref_new_def result_iff)
    then have "capture_views (c', ev) = {#v#}" for ev
      by (cases v; cases "rv_lease v") (simp add: capture_views_def view_pin_def)
    with Inr c show ?thesis by (simp add: capture_view_def clone)
  qed
qed

lemma capture_cut_ok: "act_ok 7 A False capture_views (capture_cut rtc)"
proof -
  have "act_ok 7 A False capture_views
      (act_with_view (\<lambda>view. with_scope ScopeCaptureCut (\<lambda>_.
         act_bind (act_lift (validate_against_view rtc view)) (\<lambda>_. capture_view rtc view))))"
    by (intro act_ok_view [of 6, simplified] with_scope_ok act_ok_bind act_ok_lift capture_view_ok) simp_all
  then show ?thesis unfolding capture_cut_def by (intro act_ok_bind act_ok_check)
qed

end
