(* ===== verification/WorldSafe.thy ===== *)
theory WorldSafe
  imports WorldReach
begin

text \<open>
  The histories of a world and what holds in every one of them. A history is a creation followed by
  any calls of the world's operations, by captures of its authority and by drops of what was captured.
\<close>

section \<open>Histories\<close>

text \<open>The operations that leave nothing held behind.\<close>

inductive world_step :: "voxel_world \<Rightarrow> voxel_world \<Rightarrow> bool" where
  step_query: "route_query eq w = Some (rq, w') \<Longrightarrow> world_step w w'"
| step_prepare: "route_prepare ep w = Some (rp, w') \<Longrightarrow> world_step w w'"
| step_commit: "route_commit ec w = Some (rc, w') \<Longrightarrow> world_step w w'"
| step_mutation_abort: "route_abort ea w = Some (ra, w') \<Longrightarrow> world_step w w'"
| step_cut: "cut_from_live cut_id w = Some (rt, w') \<Longrightarrow> world_step w w'"
| step_restore: "world_restore cand w = Some (rr, w') \<Longrightarrow> world_step w w'"
| step_ack: "apply_durability_ack ack w = Some (rd, w') \<Longrightarrow> world_step w w'"
| step_unload: "unload_section sid hook w = Some (ru, w') \<Longrightarrow> world_step w w'"
| step_set_pins: "world_step w (set_region_pin_manager m w)"
| step_lifecycle: "admit_lifecycle ev to origin w = Some (rl, w') \<Longrightarrow> world_step w w'"
| step_shutdown: "world_shutdown (w, sink) = (rs, w', sink') \<Longrightarrow> world_step w w'"
| step_fault: "fault_trip cause diagnostic_name (w, sink) = (rf, w', sink') \<Longrightarrow> world_step w w'"

inductive_cases world_stepE: "world_step w w'"

definition op_room :: nat where "op_room = 7"

inductive world_reach :: "voxel_world \<Rightarrow> published_read_view multiset \<Rightarrow> bool" where
  reach_create: "create_with_limits d snapshot limits counter = (Inr w, counter') \<Longrightarrow> world_reach w {#}"
| reach_step: "world_reach w V \<Longrightarrow> size V + op_room < usize_max \<Longrightarrow> world_step w w' \<Longrightarrow> world_reach w' V"
| reach_cut: "world_reach w V \<Longrightarrow> size V + op_room < usize_max \<Longrightarrow> capture_cut rtc w = Some (r, w') \<Longrightarrow>
    world_reach w' (V + held capture_views r)"
| reach_capture: "world_reach w V \<Longrightarrow> size V + op_room < usize_max \<Longrightarrow> world_capture w = (v, w') \<Longrightarrow>
    world_reach w' (add_mset v V)"
| reach_drop: "world_reach w (add_mset v V) \<Longrightarrow> world_reach (world_drop v w) V"

section \<open>Session steps\<close>

lemma session_edge:
  assumes "has_session_edge f e t"
  shows "t \<in> set session_states" "f \<noteq> ''Disposed''" "f \<in> set session_states"
  using assms by (auto simp: has_session_edge_def SESSION_TRANSITIONS_def session_states_def)

lemma session_apply_Inr: "session_apply c e t = Inr s \<longleftrightarrow> has_session_edge c e t \<and> s = t"
  by (auto simp: session_apply_def)

lemma world_ok_state:
  assumes "world_ok w V" "t \<in> set session_states" "vw_state w \<noteq> ''Disposed''"
  shows "world_ok (w\<lparr>vw_state := t\<rparr>) V"
  using assms by (simp add: world_ok_def)

lemma admit_lifecycle_cases:
  assumes "admit_lifecycle ev to origin w = Some (r, w')"
  shows "w' = w \<or> (\<exists>e t. has_session_edge (vw_state w) e t \<and> w' = w\<lparr>vw_state := t\<rparr>)"
  using assms by (auto simp: admit_lifecycle_def result_iff session_apply_Inr split: sum.splits)

lemma apply_session_transition_cases:
  "apply_session_transition ev to w = Inr w' \<Longrightarrow> \<exists>e t. has_session_edge (vw_state w) e t \<and> w' = w\<lparr>vw_state := t\<rparr>"
  by (auto simp: apply_session_transition_def result_iff session_apply_Inr)

text \<open>The invariant of every world between operations.\<close>

definition world_inv :: "voxel_world \<Rightarrow> published_read_view multiset \<Rightarrow> bool" where
  "world_inv w V \<longleftrightarrow> world_ok w V \<and> \<not> vw_write_occupied w"

lemma inv_edge: "world_inv w V \<Longrightarrow> has_session_edge (vw_state w) e t \<Longrightarrow> world_inv (w\<lparr>vw_state := t\<rparr>) V"
  using session_edge [of "vw_state w" e t] by (simp add: world_inv_def world_ok_state)

lemma inv_act:
  assumes "act_ok 7 {#} c G f" "world_inv w V" "size V + op_room < usize_max" "f w = Some (r, w')"
  shows "world_inv w' (V + held G r)"
proof -
  have "world_ok w ({#} + V)" "size ({#} + V) + 7 < usize_max" using assms by (simp_all add: world_inv_def op_room_def)
  with assms(1) obtain r' w1 where "f w = Some (r', w1)" "moved w w1" "world_ok w1 ({#} + V + held G r')"
    by (rule act_okE)
  with assms(2,4) moved_fields(9) [of w w1] show ?thesis by (auto simp: world_inv_def)
qed

lemma inv_nothing:
  assumes "act_ok 7 {#} c nothing f" "world_inv w V" "size V + op_room < usize_max" "f w = Some (r, w')"
  shows "world_inv w' V"
  using inv_act [OF assms] by (simp add: held_def split: sum.splits)

lemma inv_drop: "world_inv w (add_mset v V) \<Longrightarrow> world_inv (world_drop v w) V"
  using world_drop_ok [of w v V] moved_fields(9) [of w "world_drop v w"] by (auto simp: world_inv_def)

lemma inv_capture:
  assumes "world_inv w V" "size V + op_room < usize_max" "world_capture w = (v, w')"
  shows "world_inv w' (add_mset v V)"
proof -
  have "world_ok w V" "size V + 3 < usize_max" using assms by (simp_all add: world_inv_def op_room_def)
  from world_capture_ok [OF this assms(3)] moved_fields(9) [of w w'] assms(1) show ?thesis
    by (auto simp: world_inv_def)
qed

text \<open>A look at the world: capture, read, drop.\<close>

lemma inv_look:
  "world_inv w V \<Longrightarrow> size V + op_room < usize_max \<Longrightarrow> world_capture w = (v, w1) \<Longrightarrow> world_inv (world_drop v w1) V"
  by (intro inv_drop inv_capture)

lemma inv_ledger: "world_inv w V \<Longrightarrow> ledger_step\<^sup>*\<^sup>* (vw_ledger w) l \<Longrightarrow> world_inv (w\<lparr>vw_ledger := l\<rparr>) V"
  using ledger_move [of w V l] by (simp add: world_inv_def)

lemma shutdown_steps_inv:
  assumes inv: "world_inv w V" and room: "size V + op_room < usize_max"
  shows "shutdown_begin (w, s) = (r, w', s') \<Longrightarrow> world_inv w' V"
    "shutdown_drain (w, s) = (r, w', s') \<Longrightarrow> world_inv w' V"
    "shutdown_finalize (w, s) = (r, w', s') \<Longrightarrow> world_inv w' V"
proof -
  have app: "world_inv u' V" if "world_inv u V" "apply_session_transition ev to u = Inr u'" for u u' ev to
    using apply_session_transition_cases [OF that(2)] inv_edge [OF that(1)] by auto
  show "shutdown_begin (w, s) = (r, w', s') \<Longrightarrow> world_inv w' V"
    using app [OF inv] inv by (auto simp: shutdown_begin_def split: if_splits sum.splits)
  have aborted: "world_inv (w\<lparr>vw_ledger := ledger_abort_in_flight (vw_ledger w)\<rparr>) V"
    by (rule inv_ledger [OF inv r_into_rtranclp]) (rule step_abort_all)
  have look: "world_inv w2 V" if "diagnostics_snapshot (w\<lparr>vw_ledger := ledger_abort_in_flight (vw_ledger w)\<rparr>) = (d, w2)" for d w2
    using inv_look [OF aborted room] that by (auto simp: diagnostics_snapshot_def split: prod.splits)
  show "shutdown_drain (w, s) = (r, w', s') \<Longrightarrow> world_inv w' V"
    using inv app [OF look] look by (auto simp: shutdown_drain_def Let_def split: if_splits sum.splits prod.splits)
  show "world_inv w' V" if f: "shutdown_finalize (w, s) = (r, w', s')"
  proof (cases "w' = w")
    case False
    with f obtain w1 where w1: "apply_session_transition ''Dispose'' ''Disposed'' w = Inr w1"
      "w' = invalidate_generation (w1\<lparr>vw_write_occupied := False\<rparr>)"
      by (auto simp: shutdown_finalize_def Let_def split: if_splits sum.splits)
    have "world_inv w1 V" by (rule app [OF inv w1(1)])
    moreover have "vw_state w1 = ''Disposed''"
      using w1(1) by (auto simp: apply_session_transition_def result_iff session_apply_Inr has_session_edge_def
          SESSION_TRANSITIONS_def intern_session_state_def)
    ultimately show ?thesis
      by (simp add: w1(2) world_inv_def world_ok_def invalidate_generation_def Let_def)
  qed (use inv in simp)
qed

lemma shutdown_inv:
  assumes "world_inv w V" "size V + op_room < usize_max" "world_shutdown (w, s) = (r, w', s')"
  shows "world_inv w' V"
proof -
  obtain r1 w1 s1 where b: "shutdown_begin (w, s) = (r1, w1, s1)" by (metis prod_cases3)
  obtain r2 w2 s2 where d: "shutdown_drain (w1, s1) = (r2, w2, s2)" by (metis prod_cases3)
  obtain r3 w3 s3 where f: "shutdown_finalize (w2, s2) = (r3, w3, s3)" by (metis prod_cases3)
  note i1 = shutdown_steps_inv(1) [OF assms(1,2) b]
  note i2 = shutdown_steps_inv(2) [OF i1 assms(2) d]
  note i3 = shutdown_steps_inv(3) [OF i2 assms(2) f]
  from assms(3) b d f i1 i2 i3 show ?thesis
    by (auto simp: world_shutdown_def split: sum.splits)
qed

lemma fault_inv:
  assumes "world_inv w V" "size V + op_room < usize_max" "fault_trip cause dn (w, s) = (r, w', s')"
  shows "world_inv w' V"
proof -
  obtain v w1 where c: "world_capture w = (v, w1)" by (cases "world_capture w")
  note look = inv_look [OF assms(1,2) c]
  from assms(1,3) c show ?thesis
    by (auto simp: fault_trip_def failure_bundle_of_def Let_def split: sum.splits if_splits
        intro: shutdown_inv [OF assms(1,2)] shutdown_inv [OF look assms(2)])
qed

lemma step_inv:
  assumes "world_inv w V" "size V + op_room < usize_max" "world_step w w'"
  shows "world_inv w' V"
  using assms(3)
proof (cases rule: world_step.cases)
  case (step_lifecycle ev to origin rl)
  then show ?thesis using admit_lifecycle_cases [OF step_lifecycle(1)] inv_edge [OF assms(1)] assms(1) by auto
next
  case (step_set_pins m)
  with assms(1) show ?thesis by (simp add: world_inv_def world_ok_def set_region_pin_manager_def)
qed (blast intro: inv_nothing [OF route_query_ok assms(1,2)] inv_nothing [OF route_prepare_ok assms(1,2)]
    inv_nothing [OF route_commit_ok assms(1,2)] inv_nothing [OF route_abort_ok assms(1,2)]
    inv_nothing [OF cut_from_live_ok assms(1,2)] inv_nothing [OF restore_ok assms(1,2)]
    inv_nothing [OF durability_ack_ok assms(1,2)] inv_nothing [OF unload_ok assms(1,2)]
    shutdown_inv [OF assms(1,2)] fault_inv [OF assms(1,2)])+

lemma create_cases:
  assumes "create_with_limits d snapshot limits counter = (Inr w, counter')"
  obtains root where "initial_root (wd_world_id d) (wd_world_context_id d) counter = Inr root"
    "authority_new (wd_world_id d) (wd_world_context_id d) counter
       (registry_from_approved_snapshot snapshot (wl_max_pinned_revisions limits) (wd_world_context_id d) counter) root =
       Inr (vw_authority w)"
    "ledger_from_approved_snapshot snapshot (wl_max_receipts limits) = Inr (vw_ledger w)"
    "vw_world_id w = wd_world_id d" "vw_context_id w = wd_world_context_id d" "vw_generation w = counter"
    "vw_state w = session_created" "\<not> vw_write_occupied w" "vw_snapshot w = snapshot" "vw_limits w = limits"
    "counter \<noteq> 0" "checked_add counter 1 = Some counter'" "vw_region_pins w = None"
proof -
  from assms obtain l role where pre: "limits_validate limits = Inr l" "intern_role (wd_role d) = Inr role"
    and a: "allocate_from counter = (Inr counter, counter')" "world_assemble role d snapshot l counter = Inr w"
    by (auto simp: create_with_limits_def result_iff allocate_from_def
        split: sum.splits prod.splits option.splits if_splits)
  have l: "l = limits" using pre(1) by (auto simp: limits_validate_def split: if_splits)
  have c: "counter \<noteq> 0" "checked_add counter 1 = Some counter'"
    using a(1) by (auto simp: allocate_from_def split: option.splits if_splits)
  from a(2) obtain root auth led where "initial_root (wd_world_id d) (wd_world_context_id d) counter = Inr root"
    "authority_new (wd_world_id d) (wd_world_context_id d) counter
       (registry_from_approved_snapshot snapshot (wl_max_pinned_revisions limits) (wd_world_context_id d) counter) root =
       Inr auth" "ledger_from_approved_snapshot snapshot (wl_max_receipts limits) = Inr led"
    and w: "vw_authority w = auth" "vw_ledger w = led" "vw_world_id w = wd_world_id d"
      "vw_context_id w = wd_world_context_id d" "vw_generation w = counter" "vw_state w = session_created"
      "\<not> vw_write_occupied w" "vw_snapshot w = snapshot" "vw_limits w = limits" "vw_region_pins w = None"
    by (auto simp: world_assemble_def Let_def result_iff l)
  with c that show ?thesis by metis
qed

lemma create_inv:
  assumes "create_with_limits d snapshot limits counter = (Inr w, counter')"
  shows "world_inv w {#}"
proof -
  from assms obtain root where a: "authority_new (wd_world_id d) (wd_world_context_id d) counter
       (registry_from_approved_snapshot snapshot (wl_max_pinned_revisions limits) (wd_world_context_id d) counter) root =
       Inr (vw_authority w)"
    "ledger_from_approved_snapshot snapshot (wl_max_receipts limits) = Inr (vw_ledger w)"
    "vw_world_id w = wd_world_id d" "vw_context_id w = wd_world_context_id d" "vw_generation w = counter"
    "vw_state w = session_created" "\<not> vw_write_occupied w"
    by (rule create_cases)
  moreover have "session_created = ''Created''"
    by (simp add: session_created_def intern_session_state_def SESSION_TRANSITIONS_def)
  moreover have "pa_world_id (vw_authority w) = wd_world_id d" "pa_context_id (vw_authority w) = wd_world_context_id d"
    "pa_generation (vw_authority w) = counter"
    using owner_new [OF a(1)] by blast+
  ultimately show ?thesis
    using pub_new [OF a(1)] ledger_ok_new [OF a(2)]
    by (auto simp: world_inv_def world_ok_def session_states_def)
qed

lemma world_reach_inv: "world_reach w V \<Longrightarrow> world_inv w V"
proof (induction rule: world_reach.induct)
  case (reach_create d snapshot limits counter w counter')
  then show ?case by (rule create_inv)
next
  case (reach_step w V w')
  then show ?case by (blast intro: step_inv)
next
  case (reach_cut w V rtc r w')
  then show ?case by (intro inv_act [OF capture_cut_ok])
next
  case (reach_capture w V v w')
  then show ?case by (blast intro: inv_capture)
next
  case (reach_drop w v V)
  then show ?case by (intro inv_drop)
qed

section \<open>Properties\<close>

text \<open>
  C12. A world keeps its books on every path. In any history of a world, whatever its operations
  returned, no operation is left holding the write lane, the session is in a declared state, the
  authority serves the world's own identity, the ledger holds no more transactions than it was
  created with room for, and the pins in use are those of the published cut and of the views and
  captures still held: an operation that fails half way leaks none.
\<close>

theorem world_keeps_its_books:
  assumes "world_reach w V"
  shows "\<not> vw_write_occupied w \<and> vw_state w \<in> set session_states \<and>
    pa_world_id (vw_authority w) = vw_world_id w \<and> pa_context_id (vw_authority w) = vw_context_id w \<and>
    (vw_state w \<noteq> ''Disposed'' \<longrightarrow> pa_generation (vw_authority w) = vw_generation w) \<and>
    fm_len (lg_entries (vw_ledger w)) \<le> lg_max_entries (vw_ledger w) \<and>
    pins_ok (pa_registry (vw_authority w)) (add_mset (pa_pin (vw_authority w)) (image_mset view_pin V)) \<and>
    fm_len (rg_slots (pa_registry (vw_authority w))) \<le> 1 + size V \<and>
    (\<forall>v. v \<in># V \<longrightarrow> lease_stamp (rv_lease v) = view_stamp v)"
proof -
  have inv: "world_ok w V" "\<not> vw_write_occupied w" using world_reach_inv [OF assms] by (simp_all add: world_inv_def)
  then obtain P where P: "pub_reach (vw_authority w) P {#} V" by (auto simp: world_ok_def)
  have "pins_ok (pa_registry (vw_authority w)) (add_mset (pa_pin (vw_authority w)) (image_mset view_pin V))"
    "\<forall>v. v \<in># V \<longrightarrow> lease_stamp (rv_lease v) = view_stamp v"
    "fm_len (rg_slots (pa_registry (vw_authority w))) \<le> 1 + size V"
    using pub_reach_ok [OF P] pub_reach_slots [OF P]
    by (auto simp: pub_ok_def handles_def view_ok_def view_pin_def lease_stamp_def view_stamp_def)
  with inv show ?thesis by (simp add: world_ok_def ledger_ok_def)
qed

text \<open>What an operation may do to a world at most: answer, and on success perhaps publish.\<close>

definition answers :: "bool \<Rightarrow> 'a action \<Rightarrow> voxel_world \<Rightarrow> bool" where
  "answers may_publish f w \<longleftrightarrow>
     (\<exists>r w'. f w = Some (r, w') \<and> moved w w' \<and> (world_root w' = world_root w \<or> (may_publish \<and> \<not> isl r)))"

lemma reach_answers:
  assumes "world_reach w V" "size V + op_room < usize_max" "act_ok 7 {#} c G f"
  shows "answers c f w"
proof -
  have w: "world_ok w ({#} + V)" "size ({#} + V) + 7 < usize_max"
    using world_reach_inv [OF assms(1)] assms(2) by (simp_all add: world_inv_def op_room_def)
  show ?thesis by (rule act_okE [OF assms(3) w]) (auto simp: answers_def)
qed

text \<open>
  C11. No operation of a world panics, and a refusal leaves the published cut. In any history, every
  operation returns, with arguments of the caller's choice; it changes nothing of the world but the
  authority and the ledger, the ledger only by steps that never drop a receipt; queries, prepares,
  aborts and captures never change the published cut, and commits, restores, acknowledgements and
  unloads change it only when they succeed.
\<close>

theorem world_operations_answer:
  assumes "world_reach w V" "size V + op_room < usize_max"
  shows "answers False (route_query eq) w \<and> answers False (route_prepare ep) w \<and>
    answers False (route_abort ea) w \<and> answers False (cut_from_live cut_id) w \<and>
    answers False (capture_cut rtc) w \<and> answers True (route_commit ec) w \<and>
    answers True (world_restore cand) w \<and> answers True (apply_durability_ack ack) w \<and>
    answers True (unload_section sid hook) w"
  by (intro conjI; rule reach_answers [OF assms],
      rule route_query_ok route_prepare_ok route_abort_ok cut_from_live_ok capture_cut_ok
        route_commit_ok restore_ok durability_ack_ok unload_ok)

text \<open>The world refuses, and nothing of its content changes.\<close>

definition refuses :: "'a action \<Rightarrow> voxel_world \<Rightarrow> bool" where
  "refuses f w \<longleftrightarrow> (\<exists>e w'. f w = Some (Inl e, w') \<and> vw_ledger w' = vw_ledger w \<and> world_root w' = world_root w \<and>
     vw_state w' = vw_state w \<and> vw_write_occupied w' = vw_write_occupied w)"

lemma bind_refuses: "refuses m w \<Longrightarrow> refuses (act_bind m f) w"
  by (auto simp: refuses_def act_bind_def)

lemma check_refuses: "r w = Inl e \<Longrightarrow> refuses (\<lambda>w. act_lift (r w) w) w"
  by (auto simp: refuses_def act_lift_def)

text \<open>A check that passes leaves the rest to refuse.\<close>

lemma bind_check_refuses:
  "(\<And>x. r w = Inr x \<Longrightarrow> refuses (f x) w) \<Longrightarrow> refuses (act_bind (\<lambda>w. act_lift (r w) w) f) w"
  by (cases "r w") (auto simp: refuses_def act_bind_def act_lift_def)

lemma occupied_refuses: "(\<And>b. refuses f (w\<lparr>vw_write_occupied := b\<rparr>)) \<Longrightarrow> refuses (act_occupied f) w"
proof -
  assume "\<And>b. refuses f (w\<lparr>vw_write_occupied := b\<rparr>)"
  from this [of True] show ?thesis by (auto simp: refuses_def act_occupied_def)
qed

lemma scope_refuses:
  "\<not> write_admissible (vw_state w) \<Longrightarrow> scope \<noteq> ScopeCaptureCut \<Longrightarrow>
   refuses (\<lambda>w. act_lift (admit_scope scope w) w) w"
  by (cases scope) (simp_all add: admit_scope_def refuses_def act_lift_def)

lemma mutation_refused:
  assumes "\<not> write_admissible (vw_state w)"
  shows "refuses (endpoint_admit (CmdMutation origin q)) w"
  using assms by (cases "check_origin (generation_guard_of w) origin") (auto simp: refuses_def admit_mutation_def)

lemma query_refused:
  assumes "\<not> query_admissible (vw_state w)"
  shows "refuses (endpoint_admit (CmdQuery origin q)) w"
  using assms by (cases "check_origin (generation_guard_of w) origin") (auto simp: refuses_def admit_query_def)

lemma validate_before_keeps:
  assumes "validate_before_occupancy ack w = Some (r, w')"
  shows "vw_ledger w' = vw_ledger w" "world_root w' = world_root w" "vw_state w' = vw_state w"
    "vw_write_occupied w' = vw_write_occupied w"
  using assms
  by (auto simp: validate_before_occupancy_def act_with_view_def act_lift_def world_drop_def world_capture_iff
      authority_capture_iff split: if_splits prod.splits)

lemma ack_refused:
  assumes "\<not> write_admissible (vw_state w)"
  shows "refuses (apply_durability_ack ack) w"
proof -
  have "\<exists>r w'. validate_before_occupancy ack w = Some (r, w')"
    by (auto simp: validate_before_occupancy_def act_with_view_def act_lift_def split: prod.splits)
  then obtain r w1 where v: "validate_before_occupancy ack w = Some (r, w1)" by blast
  note keep = validate_before_keeps [OF v]
  have "refuses (act_occupied (act_bind (\<lambda>w. act_lift (admit_scope ScopeDurabilityAck w) w) (\<lambda>_.
      act_bind (validate_before_occupancy ack) (\<lambda>_. act_with_view (ack_publish ack))))) w1"
    using assms by (intro occupied_refuses bind_refuses scope_refuses) (simp_all add: keep)
  with v keep show ?thesis
    by (cases r) (auto simp: apply_durability_ack_def act_bind_def refuses_def)
qed

text \<open>
  C13. A world that is not running refuses every write. Whatever the caller asks, preparing,
  committing or aborting a mutation, restoring a candidate, acknowledging durability and unloading a
  section are refused outside the state \<open>Running\<close>, and a query or a capture outside \<open>Ready\<close>,
  \<open>Running\<close> and \<open>Paused\<close>; the published cut, the ledger and the session stay as they are.
\<close>

theorem stopped_world_refuses:
  "(write_admissible (vw_state w) \<or>
      (refuses (route_prepare ep) w \<and> refuses (route_commit ec) w \<and> refuses (route_abort ea) w \<and>
       refuses (world_restore cand) w \<and> refuses (apply_durability_ack ack) w \<and>
       refuses (unload_section sid hook) w)) \<and>
   (query_admissible (vw_state w) \<or> (refuses (route_query eq) w \<and> refuses (capture_cut rtc) w))"
proof -
  have "refuses (route_prepare ep) w" "refuses (route_commit ec) w" "refuses (route_abort ea) w"
    "refuses (world_restore cand) w" "refuses (apply_durability_ack ack) w" "refuses (unload_section sid hook) w"
    if n: "\<not> write_admissible (vw_state w)"
  proof -
    note m = mutation_refused [OF n]
    show "refuses (route_prepare ep) w"
      unfolding route_prepare_def by (rule bind_check_refuses, rule bind_refuses, rule m)
    show "refuses (route_abort ea) w"
      unfolding route_abort_def by (rule bind_check_refuses, rule bind_check_refuses, rule bind_refuses, rule m)
    have "refuses (\<lambda>w. endpoint_admit (CmdMutation (en_origin ec) (q w)) w) w" for q
      using m [of "en_origin ec" "q w"] by (simp add: refuses_def)
    then show "refuses (route_commit ec) w"
      unfolding route_commit_def by (intro bind_check_refuses bind_refuses)
    show "refuses (world_restore cand) w" "refuses (unload_section sid hook) w"
      unfolding world_restore_def unload_section_def
      using n by (intro occupied_refuses bind_refuses scope_refuses; simp)+
    show "refuses (apply_durability_ack ack) w" by (rule ack_refused [OF n])
  qed
  moreover have "refuses (route_query eq) w" "refuses (capture_cut rtc) w" if n: "\<not> query_admissible (vw_state w)"
  proof -
    show "refuses (route_query eq) w"
      unfolding route_query_def
      by (rule bind_check_refuses, rule bind_refuses, rule query_refused [OF n])
    have "\<exists>e. capture_admit rtc w = Inl e" using n by (auto simp: capture_admit_def)
    then show "refuses (capture_cut rtc) w"
      unfolding capture_cut_def by (elim exE) (intro bind_refuses check_refuses)
  qed
  ultimately show ?thesis by blast
qed

section \<open>A world to try it on\<close>

definition live_snapshot :: voxel_config_snapshot where
  "live_snapshot = \<lparr>cs_config_hash = replicate 64 (CHR ''0''), cs_allow_list = [''voxel'']\<rparr>"

definition live_descriptor :: world_descriptor where
  "live_descriptor = \<lparr>wd_role = ''Authority'', wd_world_context_id = ''ctx'', wd_capabilities = [''voxel''],
     wd_world_id = ''w''\<rparr>"

definition live_world :: voxel_world where
  "live_world = projr (fst (world_create live_descriptor live_snapshot 7))"

definition live_origin :: origin_token where
  "live_origin = \<lparr>ot_world_context_id = ''ctx'', ot_instance_generation = 7, ot_request_id = ''r'',
     ot_input_world_revision = 0, ot_input_section_revision_set = fmempty, ot_apply_phase = ''VoxelCommit''\<rparr>"

definition running_world :: voxel_world where
  "running_world = live_world\<lparr>vw_state := ''Running''\<rparr>"

lemma live_created: "world_create live_descriptor live_snapshot 7 = (Inr live_world, 8)"
proof -
  obtain view where cap: "capability_derive (capability_set_from_names [''voxel'']) live_snapshot = Inr view"
    using capability_derive_ok_iff [of "capability_set_from_names [''voxel'']" live_snapshot]
    by (auto simp: live_snapshot_def)
  have chk: "checked_add (7::u64) 1 = Some 8" by (simp add: checked_add_def)
  obtain root where root: "initial_root ''w'' ''ctx'' 7 = Inr root" "ps_stamp root =
      \<lparr>rs_schema_id = REVISION_STAMP_SCHEMA, rs_world_id = ''w'', rs_context_id = ''ctx'',
       rs_generation = 7, rs_world_revision = 0, rs_section_revision_set = fmempty\<rparr>"
    by (simp add: initial_root_def dirty_frontier_new_def published_root_new_def Let_def)
  let ?r = "registry_from_approved_snapshot live_snapshot 64 ''ctx'' 7"
  have "\<exists>p s. try_pin (ps_stamp root) (pr_inner ?r) = Inr (p, s)"
    by (simp add: try_pin_def root(2) registry_from_approved_snapshot_def checked_add_def)
  then obtain a where auth: "authority_new ''w'' ''ctx'' 7 ?r root = Inr a"
    by (auto simp: authority_new_def check_stamp_def root(2))
  have "\<exists>w. world_create live_descriptor live_snapshot 7 = (Inr w, 8)"
    by (simp add: world_create_def create_with_limits_def limits_validate_def default_limits_def live_descriptor_def
        intern_role_def VOXEL_WORLD_ROLES_def validate_capabilities_def cap allocate_from_def chk world_assemble_def
        root(1) auth ledger_from_approved_snapshot_def bind_query_planner_def planner_from_approved_snapshot_def)
  then show ?thesis by (auto simp: live_world_def)
qed

lemma live_fields:
  "vw_world_id live_world = ''w''" "vw_context_id live_world = ''ctx''" "vw_generation live_world = 7"
  "vw_state live_world = ''Created''" "\<not> vw_write_occupied live_world"
  "vw_snapshot live_world = live_snapshot" "vw_region_pins live_world = None"
proof -
  note c = create_cases [OF live_created [unfolded world_create_def]]
  show "vw_world_id live_world = ''w''" "vw_context_id live_world = ''ctx''"
    by (rule c, simp add: live_descriptor_def)+
  show "vw_generation live_world = 7" "\<not> vw_write_occupied live_world" "vw_snapshot live_world = live_snapshot"
    "vw_region_pins live_world = None" by (rule c, assumption)+
  have "session_created = ''Created''"
    by (simp add: session_created_def intern_session_state_def SESSION_TRANSITIONS_def)
  note created = this
  show "vw_state live_world = ''Created''" by (rule c) (simp add: created)
qed

lemma session_table:
  "list_all (\<lambda>(f, e, t). has_session_edge f e t \<and> intern_session_event e = Some e \<and> intern_session_state t = Some t)
     SESSION_TRANSITIONS"
  by code_simp

lemma live_lifecycle:
  assumes "vw_context_id w = ''ctx''" "vw_generation w = 7" "(vw_state w, ev, t) \<in> set SESSION_TRANSITIONS"
  shows "\<exists>r. admit_lifecycle ev t live_origin w = Some (r, w\<lparr>vw_state := t\<rparr>)"
proof -
  have "has_session_edge (vw_state w) ev t" "intern_session_event ev = Some ev" "intern_session_state t = Some t"
    using assms(3) session_table by (auto simp: list_all_iff)
  with assms(1,2) show ?thesis
    by (simp add: admit_lifecycle_def check_origin_def generation_guard_of_def live_origin_def session_apply_def)
qed

lemma live_reach: "world_reach live_world {#}" "world_reach running_world {#}"
proof -
  show r0: "world_reach live_world {#}"
    using live_created by (auto simp: world_create_def intro: reach_create)
  have room: "size ({#} :: published_read_view multiset) + op_room < usize_max" by (simp add: op_room_def)
  have go: "world_reach (w\<lparr>vw_state := t\<rparr>) {#}"
    if "world_reach w {#}" "vw_context_id w = ''ctx''" "vw_generation w = 7"
      "(vw_state w, ev, t) \<in> set SESSION_TRANSITIONS" for w ev t
    using live_lifecycle [OF that(2-4)] by (auto intro: reach_step [OF that(1) room] step_lifecycle)
  have "world_reach (live_world\<lparr>vw_state := ''Initialized''\<rparr>) {#}"
    by (rule go [OF r0, where ev = "''Initialize''"]) (simp_all add: live_fields SESSION_TRANSITIONS_def)
  then have "world_reach (live_world\<lparr>vw_state := ''Initialized'', vw_state := ''Ready''\<rparr>) {#}"
    by (rule go [where ev = "''Prime''"]) (simp_all add: live_fields SESSION_TRANSITIONS_def)
  then have "world_reach (live_world\<lparr>vw_state := ''Initialized'', vw_state := ''Ready'', vw_state := ''Running''\<rparr>) {#}"
    by (rule go [where ev = "''Start''"]) (simp_all add: live_fields SESSION_TRANSITIONS_def)
  then show "world_reach running_world {#}" by (simp add: running_world_def)
qed

theorem world_keeps_its_books_witness:
  "fm_len (rg_slots (pa_registry (vw_authority running_world))) \<le> 1 \<and> vw_state running_world = ''Running''"
  using world_keeps_its_books [OF live_reach(2)] by (simp add: running_world_def)

theorem world_operations_answer_witness:
  "\<exists>r w'. unload_section ''s:0:0:0'' (\<lambda>_. Inr ()) running_world = Some (r, w') \<and> moved running_world w'"
proof -
  have "size ({#} :: published_read_view multiset) + op_room < usize_max" by (simp add: op_room_def)
  from world_operations_answer [OF live_reach(2) this] show ?thesis unfolding answers_def by blast
qed

end
