(* ===== verification/LifecycleFacts.thy ===== *)
theory LifecycleFacts
  imports WorldSafe
begin

text \<open>
  The life of a session: every operation moves it along declared transitions only, a shutdown or a
  fault always ends it in order, and no two worlds are created with one generation.
\<close>

section \<open>Moves of the session\<close>

definition session_edges :: "(string \<times> string) set" where
  "session_edges = {(f, t). \<exists>e. has_session_edge f e t}"

text \<open>How far along its life a session is; pausing and resuming stay level.\<close>

definition session_rank :: "string \<Rightarrow> nat" where
  "session_rank st =
     (if st = ''Created'' then 0 else if st = ''Initialized'' then 1 else if st = ''Ready'' then 2
      else if st = ''Running'' \<or> st = ''Paused'' then 3 else if st = ''Draining'' then 4
      else if st = ''Snapshotted'' then 5 else 6)"

lemma edge_rank: "(f, t) \<in> session_edges \<Longrightarrow> session_rank f \<le> session_rank t"
proof -
  have "list_all (\<lambda>(f, e, t). session_rank f \<le> session_rank t) SESSION_TRANSITIONS" by code_simp
  then show "(f, t) \<in> session_edges \<Longrightarrow> session_rank f \<le> session_rank t"
    by (auto simp: session_edges_def has_session_edge_def list_all_iff list_ex_iff)
qed

lemma edges_rank: "(f, t) \<in> session_edges\<^sup>* \<Longrightarrow> session_rank f \<le> session_rank t"
  by (induction rule: rtrancl_induct) (auto dest: edge_rank)

lemma edge_step: "has_session_edge f e t \<Longrightarrow> (f, t) \<in> session_edges\<^sup>*"
  by (rule r_into_rtrancl) (auto simp: session_edges_def)

lemma transition_edges: "apply_session_transition ev to w = Inr w' \<Longrightarrow> (vw_state w, vw_state w') \<in> session_edges\<^sup>*"
  by (auto dest!: apply_session_transition_cases intro: edge_step)

lemma snapshot_state:
  "diagnostics_snapshot w = (d, w') \<Longrightarrow> vw_state w' = vw_state w \<and> world_root w' = world_root w \<and>
     vw_ledger w' = vw_ledger w \<and> vw_generation w' = vw_generation w \<and> vw_write_occupied w' = vw_write_occupied w \<and>
     vw_context_id w' = vw_context_id w \<and> vw_world_id w' = vw_world_id w"
  by (auto simp: diagnostics_snapshot_def world_capture_def world_drop_def authority_capture_def split: prod.splits)

lemma begin_edges: "shutdown_begin (w, s) = (r, w', s') \<Longrightarrow> (vw_state w, vw_state w') \<in> session_edges\<^sup>*"
  by (auto simp: shutdown_begin_def transition_edges split: if_splits sum.splits)

lemma drain_edges: "shutdown_drain (w, s) = (r, w', s') \<Longrightarrow> (vw_state w, vw_state w') \<in> session_edges\<^sup>*"
  by (auto simp: shutdown_drain_def Let_def split: if_splits sum.splits prod.splits
      dest!: snapshot_state transition_edges)

lemma finalize_edges: "shutdown_finalize (w, s) = (r, w', s') \<Longrightarrow> (vw_state w, vw_state w') \<in> session_edges\<^sup>*"
  by (auto simp: shutdown_finalize_def Let_def invalidate_generation_def split: if_splits sum.splits
      dest!: transition_edges)

lemma shutdown_edges:
  assumes "world_shutdown (w, s) = (r, w', s')"
  shows "(vw_state w, vw_state w') \<in> session_edges\<^sup>*"
proof -
  obtain r1 w1 s1 where b: "shutdown_begin (w, s) = (r1, w1, s1)" by (metis prod_cases3)
  obtain r2 w2 s2 where d: "shutdown_drain (w1, s1) = (r2, w2, s2)" by (metis prod_cases3)
  obtain r3 w3 s3 where f: "shutdown_finalize (w2, s2) = (r3, w3, s3)" by (metis prod_cases3)
  from assms b d f begin_edges [OF b] drain_edges [OF d] finalize_edges [OF f] show ?thesis
    by (auto simp: world_shutdown_def split: sum.splits intro: rtrancl_trans)
qed

lemma fault_edges:
  assumes "fault_trip cause dn (w, s) = (r, w', s')"
  shows "(vw_state w, vw_state w') \<in> session_edges\<^sup>*"
proof -
  have "vw_state (world_drop v w1) = vw_state w" if "world_capture w = (v, w1)" for v w1
    using that by (auto simp: world_capture_iff world_drop_def)
  with assms show ?thesis
    by (auto simp: fault_trip_def failure_bundle_of_def Let_def split: sum.splits if_splits prod.splits
        dest!: shutdown_edges)
qed

lemma step_edges:
  assumes "world_inv w V" "size V + op_room < usize_max" "world_step w w'"
  shows "(vw_state w, vw_state w') \<in> session_edges\<^sup>*"
proof -
  have w: "world_ok w ({#} + V)" "size ({#} + V) + 7 < usize_max" using assms by (simp_all add: world_inv_def op_room_def)
  have act: "(vw_state w, vw_state w') \<in> session_edges\<^sup>*" 
    if a: "act_ok 7 {#} c G f" "f w = Some (r, w')" for c G f r
  proof -
    obtain r1 w1 where "f w = Some (r1, w1)" "moved w w1" by (rule act_okE [OF a(1) w])
    with a(2) moved_fields(1) [of w w1] show ?thesis by simp
  qed
  from assms(3) show ?thesis
  proof (cases rule: world_step.cases)
    case (step_lifecycle ev to origin rl)
    then show ?thesis using admit_lifecycle_cases [OF step_lifecycle(1)] by (auto intro: edge_step)
  next
    case (step_set_pins m)
    then show ?thesis by (simp add: set_region_pin_manager_def)
  qed (blast intro: act [OF route_query_ok] act [OF route_prepare_ok] act [OF route_commit_ok] act [OF route_abort_ok]
      act [OF cut_from_live_ok] act [OF restore_ok] act [OF durability_ack_ok] act [OF unload_ok]
      shutdown_edges fault_edges)+
qed

text \<open>
  C15. The session moves along declared transitions only, and never back. Whatever operation is called
  in whatever history, the state of the session after it is reached from the state before it by
  declared transitions, so a session that has begun to drain can never run again, and a disposed
  one stays disposed.
\<close>

theorem session_never_moves_back:
  assumes "world_reach w V" "size V + op_room < usize_max" "world_step w w'"
  shows "(vw_state w, vw_state w') \<in> session_edges\<^sup>* \<and> session_rank (vw_state w) \<le> session_rank (vw_state w') \<and>
    (vw_state w = ''Disposed'' \<longrightarrow> vw_state w' = ''Disposed'')"
proof -
  note e = step_edges [OF world_reach_inv [OF assms(1)] assms(2,3)]
  have "vw_state w' = ''Disposed''" if "vw_state w = ''Disposed''"
    using e that by (cases rule: converse_rtranclE) (auto simp: session_edges_def dest: session_edge(2))
  with e edges_rank [OF e] show ?thesis by blast
qed

theorem session_never_moves_back_witness:
  "world_step running_world (running_world\<lparr>vw_state := ''Paused''\<rparr>) \<and>
     (''Running'', ''Paused'') \<in> session_edges\<^sup>*"
proof -
  obtain r where "admit_lifecycle ''Pause'' ''Paused'' live_origin running_world =
      Some (r, running_world\<lparr>vw_state := ''Paused''\<rparr>)"
    using live_lifecycle [of running_world "''Pause''" "''Paused''"] live_fields
    by (auto simp: running_world_def SESSION_TRANSITIONS_def)
  then have s: "world_step running_world (running_world\<lparr>vw_state := ''Paused''\<rparr>)" by (rule step_lifecycle)
  have "size ({#} :: published_read_view multiset) + op_room < usize_max" by (simp add: op_room_def)
  from session_never_moves_back [OF live_reach(2) this s] s show ?thesis by (simp add: running_world_def)
qed

section \<open>Shutdown\<close>

lemma aborted_none: "in_flight_count (ledger_abort_in_flight l) = 0"
proof -
  have "ln_receipt e \<noteq> None" if "(t, e) \<in> set (fm_entries (lg_entries (ledger_abort_in_flight l)))" for t e
    using that by (auto simp: set_fm_entries ledger_abort_in_flight_def split: if_splits)
  then show ?thesis by (auto simp: in_flight_count_def filter_empty_conv)
qed

text \<open>Which steps of a shutdown are still due, as the code decides it, state by state.\<close>

lemma session_tests:
  "intern_or_bug ''Draining'' = ''Draining''" "intern_or_bug ''Snapshotted'' = ''Snapshotted''"
  "intern_or_bug ''Disposed'' = ''Disposed''"
  "intern_session_state ''Draining'' = Some ''Draining''" "intern_session_state ''Snapshotted'' = Some ''Snapshotted''"
  "intern_session_state ''Disposed'' = Some ''Disposed''"
  "intern_session_event ''Drain'' = Some ''Drain''" "intern_session_event ''Dispose'' = Some ''Dispose''"
  "intern_session_event ''FinalSnapshotTaken'' = Some ''FinalSnapshotTaken''"
  "has_session_edge f ''Drain'' ''Draining'' \<longleftrightarrow> f = ''Running'' \<or> f = ''Paused''"
  "has_session_edge f ''FinalSnapshotTaken'' ''Snapshotted'' \<longleftrightarrow> f = ''Draining''"
  "has_session_edge f ''Dispose'' ''Disposed'' \<longleftrightarrow> f = ''Snapshotted''"
  by (auto simp: intern_or_bug_def intern_session_state_def intern_session_event_def has_session_edge_def
      SESSION_TRANSITIONS_def)

lemma begin_effect:
  "shutdown_begin (w, s) =
     (if vw_state w \<in> {''Draining'', ''Snapshotted'', ''Disposed''} then (Inr (), w, s)
      else if vw_state w \<in> {''Running'', ''Paused''}
      then (Inr (), w\<lparr>vw_state := ''Draining''\<rparr>, emit_phase (w\<lparr>vw_state := ''Draining''\<rparr>) s ''Drain'')
      else (Inl we_invalid_handle, w, s))"
  by (auto simp: shutdown_begin_def sequence_reached_def apply_session_transition_def session_apply_def
      session_tests Let_def)

lemma drain_effect:
  assumes "diagnostics_snapshot (w\<lparr>vw_ledger := ledger_abort_in_flight (vw_ledger w)\<rparr>) = (d, u)"
  shows "shutdown_drain (w, s) =
     (if vw_state w \<in> {''Snapshotted'', ''Disposed''} then (Inr (), w, s)
      else if vw_state w = ''Draining''
      then (Inr (), u\<lparr>vw_state := ''Snapshotted''\<rparr>, emit_phase (u\<lparr>vw_state := ''Snapshotted''\<rparr>) s ''FinalSnapshotTaken'')
      else (Inl we_invalid_handle, w, s))"
  using snapshot_state [OF assms] assms
  by (auto simp: shutdown_drain_def sequence_reached_def can_apply_def apply_session_transition_def session_apply_def
      session_tests Let_def)

lemma finalize_effect:
  "shutdown_finalize (w, s) =
     (if vw_state w = ''Disposed'' then (Inr (), w, s)
      else if vw_state w = ''Snapshotted''
      then (let w' = invalidate_generation (w\<lparr>vw_state := ''Disposed'', vw_write_occupied := False\<rparr>)
            in (Inr (), w', emit_logging s ''Dispose'' (vw_state w') (vw_generation w)))
      else (Inl we_invalid_handle, w, s))"
  by (auto simp: shutdown_finalize_def sequence_reached_def can_apply_def apply_session_transition_def session_apply_def
      session_tests Let_def)

lemma admissible_states:
  "shutdown_admissible w \<longleftrightarrow> vw_state w \<in> {''Running'', ''Paused'', ''Draining'', ''Snapshotted'', ''Disposed''}"
  by (auto simp: shutdown_admissible_def already_in_sequence_def can_drain_def can_apply_def session_tests)

lemma successor_generation: "(if n + 1 = 0 then 1 else n + 1) \<noteq> (n :: u64)"
  by (auto simp: eq_neg_iff_add_eq_0 [symmetric])

text \<open>What a finished session looks like.\<close>

definition session_over :: "voxel_world \<Rightarrow> voxel_world \<Rightarrow> bool" where
  "session_over w w' \<longleftrightarrow> vw_state w' = ''Disposed'' \<and> world_root w' = world_root w \<and>
     (if vw_state w = ''Disposed'' then w' = w
      else \<not> vw_write_occupied w' \<and> vw_generation w' \<noteq> vw_generation w \<and> vw_generation w' \<noteq> 0 \<and>
        vw_ledger w' = (if vw_state w = ''Snapshotted'' then vw_ledger w else ledger_abort_in_flight (vw_ledger w)))"

lemma shutdown_effect:
  "case world_shutdown (w, s) of (r, w', s') \<Rightarrow>
     if shutdown_admissible w then r = Inr () \<and> session_over w w'
     else r = Inl we_invalid_handle \<and> w' = w \<and> s' = s"
proof -
  define d where "d st = fst (diagnostics_snapshot (w\<lparr>vw_state := st, vw_ledger := ledger_abort_in_flight (vw_ledger w)\<rparr>))" for st
  define u where "u st = snd (diagnostics_snapshot (w\<lparr>vw_state := st, vw_ledger := ledger_abort_in_flight (vw_ledger w)\<rparr>))" for st
  have snap: "diagnostics_snapshot (w\<lparr>vw_state := st, vw_ledger := ledger_abort_in_flight (vw_ledger w)\<rparr>) = (d st, u st)" for st
    by (simp add: d_def u_def)
  have snap0: "diagnostics_snapshot (w\<lparr>vw_ledger := ledger_abort_in_flight (vw_ledger w)\<rparr>) = (d (vw_state w), u (vw_state w))"
    using snap [of "vw_state w"] by simp
  note u = snapshot_state [OF snap] snapshot_state [OF snap0]
  consider (run) "vw_state w \<in> {''Running'', ''Paused''}" | (drain) "vw_state w = ''Draining''"
    | (taken) "vw_state w = ''Snapshotted''" | (over) "vw_state w = ''Disposed''" | (no) "\<not> shutdown_admissible w"
    by (auto simp: admissible_states)
  then show ?thesis
  proof cases
    case run
    have b: "shutdown_begin (w, s) = (Inr (), w\<lparr>vw_state := ''Draining''\<rparr>, emit_phase (w\<lparr>vw_state := ''Draining''\<rparr>) s ''Drain'')"
      using run by (auto simp: begin_effect)
    have "(w\<lparr>vw_state := ''Draining''\<rparr>)\<lparr>vw_ledger := ledger_abort_in_flight (vw_ledger (w\<lparr>vw_state := ''Draining''\<rparr>))\<rparr> =
        w\<lparr>vw_state := ''Draining'', vw_ledger := ledger_abort_in_flight (vw_ledger w)\<rparr>" by simp
    then have d: "diagnostics_snapshot ((w\<lparr>vw_state := ''Draining''\<rparr>)\<lparr>vw_ledger :=
        ledger_abort_in_flight (vw_ledger (w\<lparr>vw_state := ''Draining''\<rparr>))\<rparr>) = (d ''Draining'', u ''Draining'')"
      by (simp only: snap)
    show ?thesis
      using run u(1) [of "''Draining''"] successor_generation [of "vw_generation w"]
      by (auto simp: world_shutdown_def b drain_effect [OF d] finalize_effect Let_def admissible_states session_over_def
          invalidate_generation_def)
  next
    case drain
    with u(2) successor_generation [of "vw_generation w"] show ?thesis
      by (auto simp: world_shutdown_def begin_effect drain_effect [OF snap0] finalize_effect Let_def admissible_states
          session_over_def invalidate_generation_def)
  next
    case taken
    with successor_generation [of "vw_generation w"] show ?thesis
      by (auto simp: world_shutdown_def begin_effect drain_effect [OF snap0] finalize_effect Let_def admissible_states
          session_over_def invalidate_generation_def)
  next
    case over
    then show ?thesis
      by (simp add: world_shutdown_def begin_effect drain_effect [OF snap0] finalize_effect admissible_states session_over_def)
  next
    case no
    then show ?thesis by (simp add: world_shutdown_def begin_effect admissible_states)
  qed
qed

lemma over_refuses:
  assumes "session_over w w'"
  shows "\<not> write_admissible (vw_state w') \<and> \<not> query_admissible (vw_state w') \<and> shutdown_admissible w'"
proof -
  have "vw_state w' = ''Disposed''" using assms by (simp add: session_over_def)
  moreover have "\<not> write_admissible ''Disposed''" "\<not> query_admissible ''Disposed''" by code_simp+
  ultimately show ?thesis by (simp add: admissible_states)
qed

text \<open>
  C14. A shutdown always finishes, and nothing runs after it. From any state in which the session can
  drain or has begun to, one shutdown brings it to \<open>Disposed\<close> whatever the sink holds: no
  reservation stays in flight, receipts stay, the published cut is left, the write lane is free, the
  generation is a new one, so tokens of the old one are stale; a second shutdown succeeds and
  changes nothing, and no later write or query is admitted. From any other state it is refused and
  changes nothing.
\<close>

theorem shutdown_finishes:
  "case world_shutdown (w, s) of (r, w', s') \<Rightarrow>
     if shutdown_admissible w
     then r = Inr () \<and> session_over w w' \<and>
       (vw_state w \<in> {''Running'', ''Paused'', ''Draining''} \<longrightarrow> in_flight_count (vw_ledger w') = 0) \<and>
       world_shutdown (w', again) = (Inr (), w', again) \<and>
       \<not> write_admissible (vw_state w') \<and> \<not> query_admissible (vw_state w')
     else r = Inl we_invalid_handle \<and> w' = w \<and> s' = s"
proof -
  obtain r w' s' where e: "world_shutdown (w, s) = (r, w', s')" by (metis prod_cases3)
  note eff = shutdown_effect [of w s, unfolded e prod.case]
  show ?thesis
  proof (cases "shutdown_admissible w")
    case True
    with eff have over: "session_over w w'" "r = Inr ()" by simp_all
    then have d: "vw_state w' = ''Disposed''" by (simp add: session_over_def)
    obtain x y where "diagnostics_snapshot (w'\<lparr>vw_ledger := ledger_abort_in_flight (vw_ledger w')\<rparr>) = (x, y)" by fastforce
    from drain_effect [OF this] d have "world_shutdown (w', again) = (Inr (), w', again)"
      by (simp add: world_shutdown_def begin_effect finalize_effect)
    with True over over_refuses [OF over(1)] aborted_none show ?thesis
      by (auto simp: e session_over_def split: if_splits)
  next
    case False
    with eff show ?thesis by (simp add: e)
  qed
qed

text \<open>A sink keeps its events and never exceeds its capacity.\<close>

definition sink_grows :: "world_event_sink \<Rightarrow> world_event_sink \<Rightarrow> bool" where
  "sink_grows s t \<longleftrightarrow> sk_capacity t = sk_capacity s \<and> (\<exists>later. sk_events t = sk_events s @ later) \<and>
     (length (sk_events s) \<le> sk_capacity s \<longrightarrow> length (sk_events t) \<le> sk_capacity t)"

lemma sink_grows_refl [simp]: "sink_grows s s"
  by (simp add: sink_grows_def)

lemma sink_grows_trans: "sink_grows r s \<Longrightarrow> sink_grows s t \<Longrightarrow> sink_grows r t"
  by (auto simp: sink_grows_def)

lemma sink_grows_emit: "sink_grows s (sink_emit e s)"
  by (auto simp: sink_grows_def sink_emit_def)

lemma shutdown_sink:
  assumes "world_shutdown (w, s) = (r, w', s')"
  shows "sink_grows s s'"
proof -
  obtain r1 w1 s1 where b: "shutdown_begin (w, s) = (r1, w1, s1)" by (metis prod_cases3)
  obtain r2 w2 s2 where d: "shutdown_drain (w1, s1) = (r2, w2, s2)" by (metis prod_cases3)
  obtain r3 w3 s3 where f: "shutdown_finalize (w2, s2) = (r3, w3, s3)" by (metis prod_cases3)
  have "sink_grows s s1" "sink_grows s1 s2" "sink_grows s2 s3"
    using b d f by (auto simp: shutdown_begin_def shutdown_drain_def shutdown_finalize_def Let_def emit_phase_def
        emit_logging_def sink_grows_emit split: if_splits sum.splits prod.splits)
  with assms b d f show ?thesis
    by (auto simp: world_shutdown_def split: sum.splits intro: sink_grows_trans)
qed

lemma look_state:
  assumes "world_capture w = (v, w1)"
  shows "vw_state (world_drop v w1) = vw_state w" "world_root (world_drop v w1) = world_root w"
    "vw_ledger (world_drop v w1) = vw_ledger w" "vw_generation (world_drop v w1) = vw_generation w"
    "rv_root v = world_root w" "shutdown_admissible (world_drop v w1) = shutdown_admissible w"
  using assms by (auto simp: world_capture_iff world_drop_def authority_capture_iff admissible_states)

lemma fault_effect:
  assumes "fault_trip cause dn (w, s) = (r, w', s')" "cause \<noteq> []" "dn \<noteq> []" "shutdown_admissible w"
    "vw_state w \<noteq> ''Disposed''"
  shows "\<exists>id u. r = Inr () \<and> session_over u w' \<and> vw_state u = vw_state w \<and> world_root u = world_root w \<and>
    vw_generation u = vw_generation w \<and>
    sink_grows (sink_emit (EvFailure (failure_simulation id (vw_world_id w) (vw_context_id w) (vw_generation w)
      (vw_state w) (rs_world_revision (ps_stamp (world_root w))) dn)) s) s'"
proof -
  obtain v w1 where c: "world_capture w = (v, w1)" by (cases "world_capture w")
  note look = look_state [OF c]
  obtain id where id: "intern_cause cause = Inr id" using assms(2) by (auto simp: intern_cause_def)
  let ?u = "world_drop v w1"
  let ?b = "failure_simulation id (vw_world_id w) (vw_context_id w) (vw_generation w) (vw_state w)
      (rs_world_revision (ps_stamp (world_root w))) dn"
  have sh: "world_shutdown (?u, sink_emit (EvFailure ?b) s) = (r, w', s')"
    using assms c id look by (simp add: fault_trip_def failure_bundle_of_def already_disposed_def session_tests view_stamp_def)
  have "r = Inr () \<and> session_over ?u w'"
    using shutdown_effect [of ?u "sink_emit (EvFailure ?b) s"] sh look(6) assms(4) by simp
  with shutdown_sink [OF sh] look show ?thesis by blast
qed

text \<open>
  C23. A fault is recorded before it ends the session. Tripping the fault port with a cause and a name
  is refused, with nothing changed, exactly where a shutdown is; otherwise the session ends as by a
  shutdown, and unless it was already disposed the sink, given room, receives first the failure
  bundle, with the identity, generation and state the world had and the revision it had published.
\<close>

theorem fault_ends_session:
  "case fault_trip cause dn (w, s) of (r, w', s') \<Rightarrow>
     if cause \<noteq> [] \<and> dn \<noteq> [] \<and> shutdown_admissible w
     then r = Inr () \<and> vw_state w' = ''Disposed'' \<and> world_root w' = world_root w \<and>
       (vw_state w = ''Disposed'' \<longrightarrow> w' = w \<and> s' = s) \<and>
       (vw_state w \<noteq> ''Disposed'' \<longrightarrow>
          \<not> vw_write_occupied w' \<and> vw_generation w' \<noteq> vw_generation w \<and> sk_capacity s' = sk_capacity s \<and>
          (length (sk_events s) < sk_capacity s \<longrightarrow>
             (\<exists>id later. sk_events s' = sk_events s @
                EvFailure (failure_simulation id (vw_world_id w) (vw_context_id w) (vw_generation w) (vw_state w)
                  (rs_world_revision (ps_stamp (world_root w))) dn) # later)))
     else isl r \<and> w' = w \<and> s' = s"
proof -
  obtain r w' s' where e: "fault_trip cause dn (w, s) = (r, w', s')" by (metis prod_cases3)
  consider (no) "\<not> (cause \<noteq> [] \<and> dn \<noteq> [] \<and> shutdown_admissible w)"
    | (over) "cause \<noteq> []" "dn \<noteq> []" "shutdown_admissible w" "vw_state w = ''Disposed''"
    | (live) "cause \<noteq> []" "dn \<noteq> []" "shutdown_admissible w" "vw_state w \<noteq> ''Disposed''" by blast
  then show ?thesis
  proof cases
    case no
    with e have "isl r \<and> w' = w \<and> s' = s" by (auto simp: fault_trip_def intern_cause_def Let_def split: if_splits)
    with no show ?thesis by (simp only: e prod.case if_not_P [OF no] if_False simp_thms)
  next
    case over
    then have "fault_trip cause dn (w, s) = world_shutdown (w, s)"
      by (simp add: fault_trip_def intern_cause_def already_disposed_def session_tests)
    with e shutdown_effect [of w s] over have "r = Inr () \<and> session_over w w'" by simp
    moreover obtain x y where "diagnostics_snapshot (w\<lparr>vw_ledger := ledger_abort_in_flight (vw_ledger w)\<rparr>) = (x, y)"
      by fastforce
    from drain_effect [OF this] over have "world_shutdown (w, s) = (Inr (), w, s)"
      by (simp add: world_shutdown_def begin_effect finalize_effect)
    ultimately show ?thesis using over e \<open>fault_trip cause dn (w, s) = world_shutdown (w, s)\<close>
      by (simp add: session_over_def)
  next
    case live
    from fault_effect [OF e live] obtain id u where f: "r = Inr ()" "session_over u w'" "vw_state u = vw_state w"
      "world_root u = world_root w" "vw_generation u = vw_generation w"
      and g: "sink_grows (sink_emit (EvFailure (failure_simulation id (vw_world_id w) (vw_context_id w) (vw_generation w)
        (vw_state w) (rs_world_revision (ps_stamp (world_root w))) dn)) s) s'" by blast
    have "length (sk_events s) < sk_capacity s \<longrightarrow>
        (\<exists>id later. sk_events s' = sk_events s @ EvFailure (failure_simulation id (vw_world_id w) (vw_context_id w)
          (vw_generation w) (vw_state w) (rs_world_revision (ps_stamp (world_root w))) dn) # later)"
      "sk_capacity s' = sk_capacity s"
      using g by (auto simp: sink_grows_def sink_emit_def split: if_splits)
    with f live show ?thesis by (auto simp: e session_over_def)
  qed
qed

text \<open>A running world shut down once, and the same world tripped by a fault.\<close>

lemma running_tests: "vw_state running_world = ''Running''" "shutdown_admissible running_world"
  by (simp_all add: running_world_def admissible_states)

theorem shutdown_finishes_witness:
  "\<exists>w' s'. world_shutdown (running_world, sink_bounded 16) = (Inr (), w', s') \<and> vw_state w' = ''Disposed'' \<and>
     in_flight_count (vw_ledger w') = 0 \<and> world_shutdown (w', s') = (Inr (), w', s')"
proof -
  obtain r w' s' where e: "world_shutdown (running_world, sink_bounded 16) = (r, w', s')" by (metis prod_cases3)
  from shutdown_finishes [where w = running_world and s = "sink_bounded 16" and again = s'] running_tests e show ?thesis
    by (auto simp: session_over_def)
qed

theorem fault_ends_session_witness:
  "\<exists>w' s'. fault_trip ''InvalidHandle'' ''probe'' (running_world, sink_bounded 16) = (Inr (), w', s') \<and>
     vw_state w' = ''Disposed'' \<and> sk_events s' \<noteq> []"
proof -
  obtain r w' s' where e: "fault_trip ''InvalidHandle'' ''probe'' (running_world, sink_bounded 16) = (r, w', s')"
    by (metis prod_cases3)
  from fault_ends_session [where cause = "''InvalidHandle''" and dn = "''probe''" and w = running_world and
    s = "sink_bounded 16"] running_tests e
  show ?thesis by (auto simp: sink_bounded_def)
qed

section \<open>Generations\<close>

text \<open>One request for a world after another, over the one counter; the worlds created.\<close>

fun create_all ::
    "(world_descriptor \<times> voxel_config_snapshot \<times> world_limits) list \<Rightarrow> u64 \<Rightarrow> voxel_world list \<times> u64" where
  "create_all [] c = ([], c)"
| "create_all ((d, snapshot, limits) # rs) c =
     (let (r, c1) = create_with_limits d snapshot limits c; (ws, c2) = create_all rs c1
      in (case r of Inr w \<Rightarrow> w # ws | Inl _ \<Rightarrow> ws, c2))"

lemma allocate_cases:
  "allocate_from c = (r, c') \<Longrightarrow>
     (\<exists>e. r = Inl e) \<and> c' = c \<or> r = Inr c \<and> c \<noteq> 0 \<and> c < c' \<and> c \<noteq> - 1"
  using unsigned_minus_1_eq_mask [where 'a = nat and 'b = 64, unfolded mask_eq_exp_minus_1]
  by (auto simp: allocate_from_def checked_add_one_greater checked_add_def split: if_splits option.splits)

lemma create_counter:
  assumes "create_with_limits d snapshot limits c = (r, c')"
  shows "c \<le> c'" "r = Inr w \<Longrightarrow> vw_generation w = c \<and> c < c' \<and> c \<noteq> 0" "c = - 1 \<Longrightarrow> c' = c \<and> isl r"
proof -
  show "r = Inr w \<Longrightarrow> vw_generation w = c \<and> c < c' \<and> c \<noteq> 0"
    using assms by (auto elim!: create_cases dest!: checked_add_one_greater)
  show "c \<le> c'" "c = - 1 \<Longrightarrow> c' = c \<and> isl r"
    using assms allocate_cases [of c]
    by (auto simp: create_with_limits_def split: sum.splits prod.splits)
qed

lemma create_all_counter:
  "create_all rs c = (ws, c') \<Longrightarrow>
     c \<le> c' \<and> sorted_wrt (\<lambda>u v. vw_generation u < vw_generation v) ws \<and>
     (\<forall>w \<in> set ws. c \<le> vw_generation w \<and> vw_generation w < c' \<and> vw_generation w \<noteq> 0) \<and>
     (c = - 1 \<longrightarrow> ws = [] \<and> c' = c)"
proof (induction rs c arbitrary: ws c' rule: create_all.induct)
  case (1 c)
  then show ?case by simp
next
  case (2 d snapshot limits rs c)
  obtain r c1 where r: "create_with_limits d snapshot limits c = (r, c1)" by (cases "create_with_limits d snapshot limits c")
  obtain us c2 where us: "create_all rs c1 = (us, c2)" by (cases "create_all rs c1")
  note IH = 2(1) [OF r [symmetric] refl us]
  note cc = create_counter [OF r]
  have ws: "ws = (case r of Inr w \<Rightarrow> w # us | Inl _ \<Rightarrow> us)" "c' = c2" using 2(2) r us by auto
  show ?case
  proof (cases r)
    case (Inl e)
    with IH cc(1,3) ws show ?thesis by (auto intro: order_trans)
  next
    case (Inr w)
    with cc(2,3) have w: "vw_generation w = c" "c < c1" "c \<noteq> 0" "c \<noteq> - 1" by auto
    with IH ws Inr show ?thesis by (auto intro: order.strict_trans1 order.strict_trans2 less_imp_le)
  qed
qed

text \<open>
  C16. Generations are never handed out twice. Whatever worlds are requested, one after another,
  and whichever of them are refused, the worlds created carry strictly increasing generations, none
  of them zero; and once the counter is at its last value every request is refused and the counter
  stays, so it never wraps around to a generation in use.
\<close>

theorem generations_never_repeat:
  "case create_all rs c of (ws, c') \<Rightarrow>
     c \<le> c' \<and> sorted_wrt (\<lambda>u v. vw_generation u < vw_generation v) ws \<and>
     (\<forall>w \<in> set ws. c \<le> vw_generation w \<and> vw_generation w < c' \<and> vw_generation w \<noteq> 0) \<and>
     (c = - 1 \<longrightarrow> ws = [] \<and> c' = c)"
proof -
  obtain ws c' where e: "create_all rs c = (ws, c')" by (cases "create_all rs c")
  show ?thesis unfolding e prod.case by (rule create_all_counter [OF e])
qed

theorem generations_never_repeat_witness:
  "create_all [(live_descriptor, live_snapshot, default_limits)] 7 = ([live_world], 8) \<and>
     vw_generation live_world < (8 :: u64)"
proof -
  have e: "create_all [(live_descriptor, live_snapshot, default_limits)] 7 = ([live_world], 8)"
    using live_created by (simp add: world_create_def)
  with generations_never_repeat [where rs = "[(live_descriptor, live_snapshot, default_limits)]" and c = 7] show ?thesis by simp
qed

end
