(* ===== verification/Port.thy ===== *)
theory Port
  imports LifecycleFacts
begin

text \<open>
  The port of a world (world crate, \<open>port/\<close>): the mapping of error identifiers, the adapter that
  routes each method of the port to the world's operation, and the owned result buffer. The lemmas
  show that an error crosses the port under its own identifier, what \<open>quiesce\<close> does in every state,
  and that a result buffer is handed out at most once.
\<close>

section \<open>Error identifiers\<close>

datatype port_error = PortError (pe_error_id: string)

definition port_error_registered :: "port_error \<Rightarrow> bool" where
  "port_error_registered e = is_error_code (pe_error_id e)"

text \<open>The engine's own identifiers; each arm of the match returns the identifier it matched.\<close>

definition engine_error_ids :: "string list" where
  "engine_error_ids =
     [''RevisionConflict'', ''MaintenanceKick'', ''ReleaseMismatch'', ''NativeAbiMismatch'', ''StaleEpoch'',
      ''FencingTokenStale'', ''ManifestMalformed'', ''ManifestUnsupportedVersion'', ''ManifestDigestMismatch'',
      ''ArtifactMissing'', ''ArtifactDigestMismatch'', ''SignatureMissing'', ''SignatureInvalid'',
      ''TrustRootUnknown'', ''TrustPolicyRejected'', ''KeyRevoked'', ''EvidenceMissing'',
      ''EvidenceDigestMismatch'', ''TargetProfileMismatch'', ''CapabilityMissing'', ''SymbolMissing'',
      ''SymbolCollision'', ''PackageIdentityConflict'', ''WorkerPoolDuplicate'', ''LoaderTimeout'',
      ''LoaderCancelled'', ''LoaderOutOfMemory'', ''PartialLoadRolledBack'', ''InvalidHandle'',
      ''HandleDoubleRelease'', ''MessagePermissionDenied'', ''StaleConnectionGeneration'',
      ''TargetRevisionUnavailable'', ''BudgetExceeded'', ''QueueFull'', ''CoordinateOutOfBounds'',
      ''SnapshotBaseMismatch'', ''SessionMismatch'', ''RoleMismatch'', ''ClaimNotGranted'',
      ''SessionAntiReplay'', ''InvalidArgument'', ''WrongContext'', ''BufferTooSmall'', ''CapacityExceeded'',
      ''Cancelled'', ''TimedOut'', ''ContextClosing'', ''ContextDestroyed'', ''PanicBoundary'',
      ''InternalInvariant'']"

definition map_internal_error :: "string \<Rightarrow> port_error" where
  "map_internal_error i =
     (case intern_error_code i of
        Some code \<Rightarrow> PortError code
      | None \<Rightarrow> (if list_ex (\<lambda>e. e = i) engine_error_ids then PortError (intern_stable i) else PortError i))"

definition map_world_error :: "world_error \<Rightarrow> port_error" where
  "map_world_error e = map_internal_error (we_error_id e)"

definition map_query_error :: "query_error \<Rightarrow> port_error" where
  "map_query_error e = map_internal_error (qe_error_id e)"

definition map_mutation_error :: "mutation_error \<Rightarrow> port_error" where
  "map_mutation_error e = map_internal_error (mx_error_id e)"

section \<open>The adapter\<close>

definition PORT_SCHEMA :: string where "PORT_SCHEMA = ''voxel-world-port''"
definition PORT_RUST_TYPE :: string where "PORT_RUST_TYPE = ''VoxelWorldPort''"

definition PORT_METHODS :: "string list" where
  "PORT_METHODS = [''createWorld'', ''query'', ''prepareMutation'', ''commit'', ''abort'', ''status'', ''capture'',
     ''applyDurabilityAck'', ''restore'', ''quiesce'', ''destroy'']"

datatype mutation_status = MutationUnknown | MutationPrepared | MutationApplied | MutationAborted | MutationResultPruned

fun mutation_status_str :: "mutation_status \<Rightarrow> string" where
  "mutation_status_str MutationUnknown = ''Unknown''"
| "mutation_status_str MutationPrepared = ''Prepared''"
| "mutation_status_str MutationApplied = ''Applied''"
| "mutation_status_str MutationAborted = ''Aborted''"
| "mutation_status_str MutationResultPruned = ''ResultPruned''"

fun mutation_status_from :: "receipt_status \<Rightarrow> mutation_status" where
  "mutation_status_from StatusUnknown = MutationUnknown"
| "mutation_status_from StatusPrepared = MutationPrepared"
| "mutation_status_from StatusApplied = MutationApplied"

record port_evidence =
  pv_schema_id :: string
  pv_binding_rust_type :: string

definition port_evidence_of :: port_evidence where
  "port_evidence_of = \<lparr>pv_schema_id = PORT_SCHEMA, pv_binding_rust_type = PORT_RUST_TYPE\<rparr>"

type_synonym 'a port_action = "voxel_world \<Rightarrow> ((port_error + 'a) \<times> voxel_world) option"

text \<open>\<open>map_err(PortError::from)\<close> on the result of a world operation.\<close>

definition port_call :: "'a action \<Rightarrow> 'a port_action" where
  "port_call f w = (case f w of None \<Rightarrow> None | Some (r, w') \<Rightarrow> Some (map_err map_world_error r, w'))"

definition port_create_world ::
    "world_descriptor \<Rightarrow> voxel_config_snapshot \<Rightarrow> u64 \<Rightarrow> (port_error + voxel_world) \<times> u64" where
  "port_create_world d snapshot counter =
     (let (r, counter') = world_create d snapshot counter in (map_err map_world_error r, counter'))"

definition port_create_world_with_limits ::
    "world_descriptor \<Rightarrow> voxel_config_snapshot \<Rightarrow> world_limits \<Rightarrow> u64 \<Rightarrow> (port_error + voxel_world) \<times> u64" where
  "port_create_world_with_limits d snapshot limits counter =
     (let (r, counter') = create_with_limits d snapshot limits counter in (map_err map_world_error r, counter'))"

definition port_admit :: "world_command \<Rightarrow> admitted_command port_action" where
  "port_admit command = port_call (endpoint_admit command)"

definition port_query :: "query_request origin_envelope \<Rightarrow> query_outcome origin_envelope port_action" where
  "port_query envelope = port_call (route_query envelope)"

definition port_prepare_mutation :: "mutation_request origin_envelope \<Rightarrow> prepared_mutation origin_envelope port_action" where
  "port_prepare_mutation envelope = port_call (route_prepare envelope)"

definition port_commit :: "prepared_mutation origin_envelope \<Rightarrow> mutation_receipt origin_envelope port_action" where
  "port_commit envelope = port_call (route_commit envelope)"

definition port_abort :: "mutation_request origin_envelope \<Rightarrow> unit origin_envelope port_action" where
  "port_abort envelope = port_call (route_abort envelope)"

definition port_status :: "string \<Rightarrow> voxel_world \<Rightarrow> port_error + mutation_status" where
  "port_status txn w =
     (if txn = [] then Inl (map_internal_error ''InvalidHandle'')
      else Inr (mutation_status_from (ledger_status txn (vw_ledger w))))"

definition port_capture :: "runtime_snapshot_cut \<Rightarrow> (capture_ref \<times> capture_evidence) port_action" where
  "port_capture rtc = port_call (capture_cut rtc)"

definition port_restore :: "restore_candidate \<Rightarrow> restore_receipt port_action" where
  "port_restore candidate = port_call (world_restore candidate)"

definition port_apply_durability_ack :: "ack_evidence \<Rightarrow> durability_receipt port_action" where
  "port_apply_durability_ack ack = port_call (apply_durability_ack ack)"

definition quiesce :: "string \<Rightarrow> unit port_action" where
  "quiesce reason w =
     (if reason = [] then Some (Inl (map_internal_error ''InvalidArgument''), w)
      else if vw_state w = ''Paused'' then Some (Inr (), w)
      else case origin_try_new (vw_context_id w) (vw_generation w) (''quiesce:'' @ reason) 0 fmempty ''VoxelCommit'' of
        Inl e \<Rightarrow> Some (Inl (map_internal_error (oe_error_id e)), w)
      | Inr origin \<Rightarrow>
          (case port_call (endpoint_admit (CmdLifecycle ''Pause'' ''Paused'' origin)) w of
             None \<Rightarrow> None
           | Some (r, w') \<Rightarrow> Some (rbind r (\<lambda>_. Inr ()), w')))"

text \<open>\<open>shutdown\<close> of the adapter: the three steps, each error mapped and ending the run.\<close>

definition adapter_step ::
    "('s \<Rightarrow> (world_error + unit) \<times> 's) \<Rightarrow> 's \<Rightarrow> (port_error + unit) \<times> 's" where
  "adapter_step f s = (let (r, s') = f s in (map_err map_world_error r, s'))"

definition port_shutdown ::
    "voxel_world \<times> world_event_sink \<Rightarrow> (port_error + unit) \<times> voxel_world \<times> world_event_sink" where
  "port_shutdown = run_steps [adapter_step shutdown_begin, adapter_step shutdown_drain, adapter_step shutdown_finalize]"

definition destroy :: "voxel_world \<Rightarrow> (port_error + unit) \<times> voxel_world" where
  "destroy w = (let (r, w', sink) = port_shutdown (w, sink_bounded 16) in (r, w'))"

section \<open>The owned result buffer\<close>

record owned_result_buffer =
  ob_inner :: "bounded_buffer option"

definition owned_buffer_new :: "nat \<Rightarrow> owned_result_buffer" where
  "owned_buffer_new capacity = \<lparr>ob_inner = Some (bounded_buffer_new capacity)\<rparr>"

definition owned_as_slice :: "owned_result_buffer \<Rightarrow> port_error + u8 list" where
  "owned_as_slice b =
     (case ob_inner b of Some buffer \<Rightarrow> Inr (bounded_buffer_as_slice buffer) | None \<Rightarrow> Inl (map_internal_error ''InvalidHandle''))"

definition owned_transfer :: "owned_result_buffer \<Rightarrow> (port_error + bounded_buffer) \<times> owned_result_buffer" where
  "owned_transfer b =
     (ok_or (map_internal_error ''InvalidHandle'') (ob_inner b), b\<lparr>ob_inner := None\<rparr>)"

definition owned_release :: "owned_result_buffer \<Rightarrow> (port_error + unit) \<times> owned_result_buffer" where
  "owned_release b =
     ((case ob_inner b of Some _ \<Rightarrow> Inr () | None \<Rightarrow> Inl (map_internal_error ''HandleDoubleRelease'')),
      b\<lparr>ob_inner := None\<rparr>)"

section \<open>Properties\<close>

lemma intern_stable_id [simp]: "intern_stable i = i"
  by (simp add: intern_stable_def intern_error_code_iff)

lemma map_internal_error_eq: "map_internal_error i = PortError i"
  by (simp add: map_internal_error_def intern_error_code_iff)

lemma port_call_eq:
  "port_call f w = (case f w of None \<Rightarrow> None
     | Some (r, w') \<Rightarrow> Some (case r of Inl e \<Rightarrow> Inl (PortError (we_error_id e)) | Inr x \<Rightarrow> Inr x, w'))"
  by (auto simp: port_call_def map_world_error_def map_internal_error_eq split: option.splits sum.splits)

text \<open>
  An error crosses the port under its own identifier. Whatever identifier a component reports,
  known to the contract, to the engine or to neither, the port error carries that identifier
  unchanged, and it counts as registered exactly when the contract's table has it; and a port method
  returns and changes what the world's operation does, success values untouched.
\<close>

theorem port_keeps_error_identity:
  "pe_error_id (map_internal_error i) = i \<and>
   (port_error_registered (map_internal_error i) \<longleftrightarrow> i \<in> set VOXEL_WORLD_ERROR_CODES) \<and>
   we_error_id (we_mapped i) = i \<and>
   port_call f w = (case f w of None \<Rightarrow> None
     | Some (r, w') \<Rightarrow> Some (case r of Inl e \<Rightarrow> Inl (map_internal_error (we_error_id e)) | Inr x \<Rightarrow> Inr x, w'))"
  by (auto simp: map_internal_error_eq port_error_registered_def is_error_code_def we_mapped_def port_call_eq
      split: option.splits sum.splits)

lemma pause_tests:
  "intern_session_event ''Pause'' = Some ''Pause''" "intern_session_state ''Paused'' = Some ''Paused''"
  "has_session_edge f ''Pause'' ''Paused'' \<longleftrightarrow> f = ''Running''"
  "\<not> write_admissible ''Paused''" "query_admissible ''Paused''"
  by (auto simp: intern_session_event_def intern_session_state_def has_session_edge_def SESSION_TRANSITIONS_def
      write_admissible_def query_admissible_def intern_or_bug_def)

text \<open>
  Quiescing closes the world to writes and leaves it readable. It returns in every state. With a
  reason and a valid identity it succeeds exactly when the session is running or already paused; the
  session is then paused, so every write is refused and queries are still admitted, and nothing else
  of the world has changed. In every other case it fails and changes nothing.
\<close>

theorem quiesce_closes_ingress:
  "\<exists>r w'. quiesce reason w = Some (r, w') \<and>
     (case r of
        Inr _ \<Rightarrow> w' = w\<lparr>vw_state := ''Paused''\<rparr> \<and> reason \<noteq> [] \<and> vw_state w \<in> {''Running'', ''Paused''} \<and>
          \<not> write_admissible (vw_state w') \<and> query_admissible (vw_state w')
      | Inl e \<Rightarrow> w' = w \<and>
          (reason = [] \<or> vw_state w \<notin> {''Running'', ''Paused''} \<or> vw_context_id w = []))"
  by (auto simp: quiesce_def origin_try_new_def APPLY_PHASES_def port_call_eq admit_lifecycle_def check_origin_def
      generation_guard_of_def session_apply_def pause_tests split: sum.splits)

theorem quiesce_closes_ingress_witness:
  "\<exists>w'. quiesce ''maintenance'' running_world = Some (Inr (), w') \<and> vw_state w' = ''Paused'' \<and>
     \<not> write_admissible (vw_state w')"
proof -
  have "vw_context_id running_world = ''ctx''" "vw_state running_world = ''Running''"
    by (simp_all add: running_world_def live_fields)
  with quiesce_closes_ingress [of "''maintenance''" running_world] show ?thesis
    apply (elim exE conjE)
    subgoal for r w' by (cases r) auto
    done
qed

text \<open>What a caller does with a result buffer, one call after another, and which calls succeed.\<close>

datatype buffer_call = CallSlice | CallTransfer | CallRelease

fun buffer_run :: "buffer_call list \<Rightarrow> owned_result_buffer \<Rightarrow> bool list" where
  "buffer_run [] b = []"
| "buffer_run (CallSlice # cs) b = (\<not> isl (owned_as_slice b)) # buffer_run cs b"
| "buffer_run (CallTransfer # cs) b = (let (r, b') = owned_transfer b in (\<not> isl r) # buffer_run cs b')"
| "buffer_run (CallRelease # cs) b = (let (r, b') = owned_release b in (\<not> isl r) # buffer_run cs b')"

lemma buffer_run_empty: "ob_inner b = None \<Longrightarrow> buffer_run cs b = replicate (length cs) False"
proof (induction cs arbitrary: b)
  case (Cons c cs)
  then show ?case
    by (cases c) (simp_all add: owned_as_slice_def owned_transfer_def owned_release_def)
qed simp

lemma buffer_run_held:
  "ob_inner b = Some x \<Longrightarrow>
     (let n = length (takeWhile (\<lambda>c. c = CallSlice) cs)
      in buffer_run cs b = replicate (min (length cs) (Suc n)) True @ replicate (length cs - Suc n) False)"
proof (induction cs)
  case (Cons c cs)
  then show ?case
    by (cases c)
      (simp_all add: owned_as_slice_def owned_transfer_def owned_release_def buffer_run_empty Let_def)
qed simp

text \<open>
  A result buffer is owned once. In any sequence of calls on a new buffer, reads succeed until the
  first transfer or release, which succeeds too, and every call after it fails: the bytes are
  neither handed out twice, nor released twice, nor read after they are gone.
\<close>

theorem result_buffer_owned_once:
  "(let n = length (takeWhile (\<lambda>c. c = CallSlice) cs)
    in buffer_run cs (owned_buffer_new capacity) =
         replicate (min (length cs) (Suc n)) True @ replicate (length cs - Suc n) False) \<and>
   owned_as_slice (owned_buffer_new capacity) = Inr [] \<and>
   fst (owned_transfer (owned_buffer_new capacity)) = Inr (bounded_buffer_new capacity) \<and>
   (ob_inner b = None \<longleftrightarrow> fst (owned_release b) = Inl (map_internal_error ''HandleDoubleRelease''))"
  using buffer_run_held [of "owned_buffer_new capacity" "bounded_buffer_new capacity" cs]
  by (auto simp: owned_buffer_new_def owned_as_slice_def owned_transfer_def owned_release_def
      bounded_buffer_as_slice_def bounded_buffer_new_def split: option.splits)

end
