(* ===== verification/WorldWrites.thy ===== *)
theory WorldWrites
  imports Port
begin

text \<open>
  What the operations that publish leave behind when they succeed, over the whole path from the call
  to the published cut: a routed prepare and commit, a restore, a durability acknowledgement and the
  unloading of a section.
\<close>

section \<open>Successful actions, taken apart\<close>

lemma act_bind_Inr:
  "act_bind m f w = Some (Inr y, w') \<longleftrightarrow> (\<exists>x w1. m w = Some (Inr x, w1) \<and> f x w1 = Some (Inr y, w'))"
  by (auto simp: act_bind_def split: option.splits prod.splits sum.splits)

lemma act_lift_Inr: "act_lift r w = Some (Inr x, w') \<longleftrightarrow> r = Inr x \<and> w' = w"
  by (auto simp: act_lift_def)

lemma act_with_view_Some:
  "act_with_view f w = Some (r, w') \<longleftrightarrow>
     (\<exists>v w1 w2. world_capture w = (v, w1) \<and> f v w1 = Some (r, w2) \<and> w' = world_drop v w2)"
  by (auto simp: act_with_view_def split: option.splits prod.splits)

lemma act_occupied_Inr:
  "act_occupied body w = Some (Inr x, w') \<longleftrightarrow> \<not> vw_write_occupied w \<and>
     (\<exists>w1. body (w\<lparr>vw_write_occupied := True\<rparr>) = Some (Inr x, w1) \<and> w' = w1\<lparr>vw_write_occupied := False\<rparr>)"
  by (auto simp: act_occupied_def split: option.splits prod.splits)

lemma admit_mutation_Some:
  "endpoint_admit (CmdMutation origin q) w = Some (Inr x, w') \<longleftrightarrow>
     admit_mutation origin q w = Inr () \<and> x = AdmittedMutation \<and> w' = w"
  by (auto simp: result_iff)

lemma act_complete_Some:
  "act_complete origin payload w = Some (r, w') \<longleftrightarrow> r = Inr (complete origin payload w) \<and> w' = w"
  by (auto simp: act_complete_def)

lemmas act_success = act_bind_Inr act_lift_Inr act_with_view_Some act_occupied_Inr admit_mutation_Some
  act_complete_Some

text \<open>What a capture or a drop of a view leaves alone.\<close>

lemma capture_keeps:
  assumes "world_capture w = (v, w1)"
  shows "vw_ledger w1 = vw_ledger w" "world_root w1 = world_root w" "rv_root v = world_root w"
    "vw_state w1 = vw_state w" "vw_region_pins w1 = vw_region_pins w" "vw_snapshot w1 = vw_snapshot w"
    "vw_world_id w1 = vw_world_id w" "vw_generation w1 = vw_generation w" "vw_context_id w1 = vw_context_id w"
  using assms by (auto simp: world_capture_iff authority_capture_iff)

lemma drop_keeps [simp]:
  "vw_ledger (world_drop v w) = vw_ledger w" "world_root (world_drop v w) = world_root w"
  "vw_state (world_drop v w) = vw_state w" "vw_region_pins (world_drop v w) = vw_region_pins w"
  "vw_snapshot (world_drop v w) = vw_snapshot w"
  by (simp_all add: world_drop_def)

lemma re_admit_mutation_Inr:
  "re_admit_mutation q w = Some (Inr x, w') \<Longrightarrow> w' = w"
  by (auto simp: re_admit_mutation_def act_success)

text \<open>A successful publication installs the given cut, with the identity the replacement gives it.\<close>

lemma act_publish_Inr:
  assumes "act_publish target root r w = Some (Inr idn, w')"
  shows "world_root w' = incorporate_replacement r root" "idn = ps_identity (incorporate_replacement r root)"
    "vw_ledger w' = vw_ledger w" "vw_state w' = vw_state w" "vw_region_pins w' = vw_region_pins w"
proof -
  obtain p a1 t p' a2 v a3 where e: "authority_prepare target root r (vw_authority w) = Inr (p, a1)"
    "prepared_seal p a1 = Inr (t, p', a2)" "authority_publish_once t a2 = (Inr v, a3)"
    "w' = w\<lparr>vw_authority := view_drop v a3\<rparr>" "idn = ps_identity (rv_root v)"
    using assms by (auto simp: act_publish_def split: sum.splits prod.splits)
  have "tk_new_root t = incorporate_replacement r root"
    using authority_prepare_Inr [OF e(1)] prepared_seal_Inr [OF e(2)] by auto
  moreover have "rv_root v = tk_new_root t" "pa_root a3 = tk_new_root t"
    using e(3) by (auto simp: publish_once_cases split: option.splits)
  ultimately show "world_root w' = incorporate_replacement r root"
    "idn = ps_identity (incorporate_replacement r root)" using e(4,5) by simp_all
  show "vw_ledger w' = vw_ledger w" "vw_state w' = vw_state w" "vw_region_pins w' = vw_region_pins w"
    by (simp_all add: e(4))
qed

section \<open>A routed mutation\<close>

lemma route_prepare_Inr:
  assumes "route_prepare e w = Some (Inr pe, w')"
  obtains v p l where "prepare (en_payload e) v (vw_ledger w) = (Inr p, l)" "rv_root v = world_root w"
    "vw_ledger w' = l" "world_root w' = world_root w" "en_payload pe = p" "vw_state w' = vw_state w"
proof -
  from assms obtain p w1 where l: "lease_prepare (en_payload e) (Some ScopeMutation) (w\<lparr>vw_write_occupied := True\<rparr>) =
      Some (Inr p, w1)" "w' = w1\<lparr>vw_write_occupied := False\<rparr>" "en_payload pe = p"
    by (auto simp: route_prepare_def with_scope_def act_success lease_enter_def result_iff complete_def)
  from l(1) obtain v w2 where c: "world_capture (w\<lparr>vw_write_occupied := True\<rparr>) = (v, w2)"
    and p: "map_err map_mutation (fst (prepare (en_payload e) v (vw_ledger w2))) = Inr p"
      "w1 = world_drop v (w2\<lparr>vw_ledger := snd (prepare (en_payload e) v (vw_ledger w2))\<rparr>)"
    by (auto simp: lease_prepare_def act_success case_prod_beta Let_def dest!: re_admit_mutation_Inr)
  note k = capture_keeps [OF c]
  show thesis
  proof (rule that)
    show "prepare (en_payload e) v (vw_ledger w) = (Inr p, snd (prepare (en_payload e) v (vw_ledger w)))"
      using p(1) k(1) by (auto simp: result_iff prod_eq_iff)
  qed (use l p(2) k in simp_all)
qed

lemma route_commit_Inr:
  assumes "route_commit e w = Some (Inr re, w')"
  obtains a l where "mutation_commit (en_payload e) (vw_authority w) (vw_ledger w) = Some (Inr (en_payload re), a, l)"
    "vw_authority w' = a" "vw_ledger w' = l" "vw_state w' = vw_state w"
proof -
  from assms obtain r w1 where l: "lease_commit (en_payload e) (Some ScopeMutation) (w\<lparr>vw_write_occupied := True\<rparr>) =
      Some (Inr r, w1)" "w' = w1\<lparr>vw_write_occupied := False\<rparr>" "en_payload re = r"
    by (auto simp: route_commit_def with_scope_def act_success lease_enter_def result_iff complete_def)
  from l(1) obtain a m where "mutation_commit (en_payload e) (vw_authority w) (vw_ledger w) = Some (Inr r, a, m)"
    "w1 = w\<lparr>vw_write_occupied := True, vw_authority := a, vw_ledger := m\<rparr>"
    by (auto simp: lease_commit_def act_success result_iff dest!: re_admit_mutation_Inr split: option.splits)
  with l(2,3) show thesis by (intro that) simp_all
qed

text \<open>
  C2. A routed mutation is published whole, and answered once. In any history of a world whose cut is
  well formed, when a new request is prepared through the router and what the router returned is
  then committed through it, the published cut has in every cell the request's last write and
  everything else as it was, its world revision is the next one, the planned sections are dirty, and
  the stored receipt is the one returned, so every replay of the request is answered with it.
\<close>

theorem routed_mutation_published:
  assumes "world_reach w V" "size V + op_room < usize_max"
    and "ledger_lookup (en_payload e) (vw_ledger w) = Inr LookupVacant"
    and "directory_ok (ps_directory (world_root w))" "cells_ok (mq_entries (en_payload e))"
    and "route_prepare e w = Some (Inr pe, w1)" "route_commit pe w1 = Some (Inr re, w2)"
  shows "(\<forall>i. section_id_wf i \<longrightarrow> advanced (en_payload e) (world_root w) (world_root w2) i) \<and>
    checked_add (rs_world_revision (ps_stamp (world_root w))) 1 = Some (rs_world_revision (ps_stamp (world_root w2))) \<and>
    (\<exists>sids. set sids = {sid. planned (en_payload e) sid} \<and>
       dirtied (ps_stamp (world_root w)) sids (ps_dirty_frontier (world_root w)) (ps_dirty_frontier (world_root w2))) \<and>
    directory_ok (ps_directory (world_root w2)) \<and>
    ledger_lookup (en_payload e) (vw_ledger w2) = Inr (LookupDuplicate (mt_receipt (en_payload re)))"
proof -
  obtain v p l where p: "prepare (en_payload e) v (vw_ledger w) = (Inr p, l)" "rv_root v = world_root w"
    "vw_ledger w1 = l" "world_root w1 = world_root w" "en_payload pe = p"
    by (rule route_prepare_Inr [OF assms(6)])
  obtain a m where c: "mutation_commit p (vw_authority w1) l = Some (Inr (en_payload re), a, m)"
    "vw_authority w2 = a" "vw_ledger w2 = m"
    using route_commit_Inr [OF assms(7)] p(3,5) by metis
  have "world_reach w1 V" by (rule reach_step [OF assms(1,2) step_prepare [OF assms(6)]])
  then obtain P where P: "pub_reach (vw_authority w1) P {#} V"
    using world_reach_inv by (auto simp: world_inv_def world_ok_def)
  have lok: "ledger_ok (vw_ledger w)" using world_reach_inv [OF assms(1)] by (simp add: world_inv_def world_ok_def)
  have room: "size ({#} :: publication_token multiset) + size V + 5 < usize_max" using assms(2) by (simp add: op_room_def)
  have dir: "directory_ok (view_directory v)" using assms(4) p(2) by (simp add: view_directory_def)
  have same: "rv_root v = pa_root (vw_authority w1)" using p(2,4) by simp
  note adv = committed_root_advances [OF P room lok assms(3) dir assms(5) p(1) same c(1)]
  note prep = prepare_vacant_InrD [OF assms(3) dir assms(5) p(1)]
  then obtain r where "token_for (en_payload e) v (vw_ledger w) r p" by blast
  then have req: "pm_request p = en_payload e" by (rule token_simps(1))
  have lok1: "ledger_ok l" by (rule ledger_ok_step [OF prep(4) lok])
  have "ledger_lookup (en_payload e) m = Inr (LookupDuplicate (mt_receipt (en_payload re)))"
    using mutation_commit_effect [OF P room lok1, of p] c(1) prep(3) by (auto simp: req)
  with adv c p(4) show ?thesis by simp
qed

text \<open>A request that writes nothing, sent twice through the router of the running sample world.\<close>

definition still_request :: mutation_request where
  "still_request = \<lparr>mq_txn_id = ''t1'', mq_world_id = ''w'', mq_generation = 7, mq_entries = []\<rparr>"

definition still_origin :: origin_token where
  "still_origin = \<lparr>ot_world_context_id = ''ctx'', ot_instance_generation = 7, ot_request_id = ''t1'',
     ot_input_world_revision = 0, ot_input_section_revision_set = fmempty, ot_apply_phase = ''VoxelCommit''\<rparr>"

lemma running_parts:
  "ps_stamp (world_root running_world) =
     \<lparr>rs_schema_id = REVISION_STAMP_SCHEMA, rs_world_id = ''w'', rs_context_id = ''ctx'',
      rs_generation = 7, rs_world_revision = 0, rs_section_revision_set = fmempty\<rparr>"
  "ps_directory (world_root running_world) = fmempty"
  "vw_ledger running_world = \<lparr>lg_snapshot = live_snapshot, lg_max_entries = 4096, lg_entries = fmempty,
     lg_reserve_count = 0, lg_bound_world_id = None, lg_bound_generation = None\<rparr>"
  "can_publish (vw_authority running_world)" "rg_max_pins (pa_registry (vw_authority running_world)) = 64"
proof -
  note c = create_cases [OF live_created [unfolded world_create_def]]
  show "vw_ledger running_world = \<lparr>lg_snapshot = live_snapshot, lg_max_entries = 4096, lg_entries = fmempty,
     lg_reserve_count = 0, lg_bound_world_id = None, lg_bound_generation = None\<rparr>"
    by (rule c) (simp add: running_world_def ledger_from_approved_snapshot_def default_limits_def)
  obtain root where root: "initial_root ''w'' ''ctx'' 7 = Inr root"
    "authority_new ''w'' ''ctx'' 7 (registry_from_approved_snapshot live_snapshot 64 ''ctx'' 7) root = Inr (vw_authority live_world)"
    by (rule c) (simp add: live_descriptor_def default_limits_def)
  show "ps_stamp (world_root running_world) =
     \<lparr>rs_schema_id = REVISION_STAMP_SCHEMA, rs_world_id = ''w'', rs_context_id = ''ctx'',
      rs_generation = 7, rs_world_revision = 0, rs_section_revision_set = fmempty\<rparr>"
    "ps_directory (world_root running_world) = fmempty"
    using root(1) owner_new [OF root(2)]
    by (auto simp: running_world_def initial_root_def dirty_frontier_new_def published_root_new_def Let_def
        directory_builder_new_def)
  have slots: "fm_len (rg_slots (pa_registry (vw_authority running_world))) \<le> 1"
    using world_reach_inv [OF live_reach(2)] pub_reach_slots
    by (fastforce simp: world_inv_def world_ok_def running_world_def)
  moreover obtain s where "pa_next_token_id (vw_authority live_world) = 0" "pa_registry (vw_authority live_world) = s"
    "\<not> rg_destroyed s" "rg_next_id s = 1" "rg_max_pins s = 64"
    using root(2) by (auto simp: authority_new_def result_iff try_pin_def registry_from_approved_snapshot_def
        checked_add_def split: if_splits dest!: sym [where t = "vw_authority live_world"])
  ultimately show "can_publish (vw_authority running_world)" "rg_max_pins (pa_registry (vw_authority running_world)) = 64"
    by (simp_all add: can_publish_def checked_add_def running_world_def)
qed

text \<open>Looking at a world keeps every count of its authority but the pins in use.\<close>

lemma pin_counts_kept:
  "rg_next_id (snd (pin_clone p s)) = rg_next_id s" "rg_destroyed (snd (pin_clone p s)) = rg_destroyed s"
  "rg_max_pins (snd (pin_clone p s)) = rg_max_pins s" "rg_next_id (pin_drop p s) = rg_next_id s"
  "rg_destroyed (pin_drop p s) = rg_destroyed s" "rg_max_pins (pin_drop p s) = rg_max_pins s"
  by (simp_all add: pin_clone_def pin_drop_def split: option.splits)

lemma look_can_publish:
  assumes "world_capture w = (v, w1)" "can_publish (vw_authority w)" "world_reach (world_drop v (w1\<lparr>vw_ledger := l\<rparr>)) {#}"
    "1 < rg_max_pins (pa_registry (vw_authority w))"
  shows "can_publish (vw_authority (world_drop v (w1\<lparr>vw_ledger := l\<rparr>)))"
proof -
  have "fm_len (rg_slots (pa_registry (vw_authority (world_drop v (w1\<lparr>vw_ledger := l\<rparr>))))) \<le> 1"
    using world_reach_inv [OF assms(3)] pub_reach_slots by (fastforce simp: world_inv_def world_ok_def)
  with assms(1,2,4) show ?thesis
    by (auto simp: can_publish_def world_drop_def view_drop_def world_capture_iff authority_capture_iff
        pa_with_registry_def pin_counts_kept)
qed

lemma still_admitted:
  assumes "vw_world_id w = ''w''" "vw_context_id w = ''ctx''" "vw_generation w = 7" "vw_state w = ''Running''"
    "ledger_config_hash (vw_ledger w) = cs_config_hash (vw_snapshot w)"
  shows "admit_mutation still_origin still_request w = Inr ()" "re_admit_mutation still_request w = Some (Inr (), w)"
    "admit_scope ScopeMutation w = Inr ()"
proof -
  have run: "write_admissible ''Running''"
    by (simp add: write_admissible_def intern_or_bug_def intern_session_state_def SESSION_TRANSITIONS_def)
  then show "admit_scope ScopeMutation w = Inr ()" by (simp add: admit_scope_def assms)
  have adm: "admit_mutation origin still_request w = Inr ()"
    if "check_origin (generation_guard_of w) origin = Inr ()" for origin
    using that assms run by (simp add: admit_mutation_def still_request_def)
  show "admit_mutation still_origin still_request w = Inr ()"
    by (rule adm) (simp add: check_origin_def generation_guard_of_def still_origin_def assms)
  have origin: "origin_for w (mq_txn_id still_request) = Inr still_origin"
    by (simp add: origin_for_def origin_try_new_def assms still_request_def still_origin_def APPLY_PHASES_def)
  have "admit_mutation still_origin still_request w = Inr ()"
    by (rule adm) (simp add: check_origin_def generation_guard_of_def still_origin_def assms)
  then show "re_admit_mutation still_request w = Some (Inr (), w)"
    by (simp add: re_admit_mutation_def act_bind_def act_lift_def origin)
qed

definition enveloped :: "'t \<Rightarrow> 't origin_envelope" where
  "enveloped x = \<lparr>en_origin = still_origin, en_config_hash = cs_config_hash live_snapshot, en_payload = x\<rparr>"

lemma running_fields:
  "vw_world_id running_world = ''w''" "vw_context_id running_world = ''ctx''" "vw_generation running_world = 7"
  "vw_state running_world = ''Running''" "\<not> vw_write_occupied running_world" "vw_snapshot running_world = live_snapshot"
  "ledger_config_hash (vw_ledger running_world) = cs_config_hash live_snapshot"
  by (simp_all add: live_fields running_parts(3) ledger_config_hash_def, simp_all add: running_world_def live_fields)

lemma still_route_prepare:
  obtains p v l w1 w2 where "route_prepare (enveloped still_request) running_world = Some (Inr (enveloped p), w1)"
    "world_capture running_world = (v, w2)" "w1 = world_drop v (w2\<lparr>vw_ledger := l\<rparr>)"
    "prepare still_request v (vw_ledger running_world) = (Inr p, l)" "rv_root v = world_root running_world"
proof -
  let ?w = "running_world\<lparr>vw_write_occupied := True\<rparr>"
  obtain v w2 where c: "world_capture running_world = (v, w2)" by (cases "world_capture running_world")
  note k = capture_keeps [OF c]
  have c': "world_capture ?w = (v, w2\<lparr>vw_write_occupied := True\<rparr>)"
    using c by (auto simp: world_capture_iff)
  have "view_directory v = fmempty" by (simp add: view_directory_def k(3) running_parts)
  then have d: "directory_ok (view_directory v)" by (simp add: directory_ok_def)
  have "ledger_lookup still_request (vw_ledger running_world) = Inr LookupVacant"
    by (simp add: ledger_lookup_Vacant check_request_Inr running_parts still_request_def)
  moreover have "admissible still_request v"
    by (simp add: admissible_def view_stamp_def k(3) running_parts still_request_def can_advance_def planned_iff checked_add_def)
  ultimately obtain p l where p: "prepare still_request v (vw_ledger running_world) = (Inr p, l)"
    using prepare_vacant [of still_request "vw_ledger running_world" v] d
    by (cases "prepare still_request v (vw_ledger running_world)";
        cases "fst (prepare still_request v (vw_ledger running_world))")
      (auto simp: cells_ok_def still_request_def running_parts)
  note adm = still_admitted [OF running_fields(1-4), unfolded running_fields(6,7), OF refl]
  have occ: "re_admit_mutation still_request ?w = Some (Inr (), ?w)" "admit_scope ScopeMutation ?w = Inr ()"
    by (rule still_admitted; simp add: running_fields)+
  have "w2\<lparr>vw_ledger := l, vw_authority := b, vw_write_occupied := False\<rparr> = w2\<lparr>vw_ledger := l, vw_authority := b\<rparr>" for b
    using c running_fields(5) by (cases running_world) (auto simp: world_capture_iff)
  then have "route_prepare (enveloped still_request) running_world =
      Some (Inr (enveloped p), world_drop v (w2\<lparr>vw_ledger := l\<rparr>))"
    using p k(1) adm(1) running_fields(5)
    by (simp add: route_prepare_def enveloped_def act_bind_def act_lift_def check_config_hash_def running_fields(6)
        require_admitted_def with_scope_def act_occupied_def lease_enter_def occ lease_prepare_def require_scope_def
        act_with_view_def c' act_complete_def complete_def k(6) world_drop_def)
  with c p k(3) show thesis by (intro that) auto
qed

lemma still_route_commit:
  assumes "world_reach w {#}" "mutation_commit p (vw_authority w) (vw_ledger w) = Some (Inr rc, a, l)"
    and "pm_txn_id p = ''t1''" "vw_world_id w = ''w''" "vw_context_id w = ''ctx''" "vw_generation w = 7"
    and "vw_state w = ''Running''" "vw_snapshot w = live_snapshot" "ledger_config_hash (vw_ledger w) = cs_config_hash live_snapshot"
  shows "\<exists>w2. route_commit (enveloped p) w = Some (Inr (enveloped rc), w2)"
proof -
  have q: "\<lparr>mq_txn_id = ''t1'', mq_world_id = ''w'', mq_generation = 7, mq_entries = []\<rparr> = still_request"
    by (simp add: still_request_def)
  have free: "\<not> vw_write_occupied w" using world_reach_inv [OF assms(1)] by (simp add: world_inv_def)
  let ?w = "w\<lparr>vw_write_occupied := True\<rparr>"
  note adm = still_admitted [of w, unfolded assms, OF refl refl refl refl refl]
  have occ: "re_admit_mutation still_request ?w = Some (Inr (), ?w)" "admit_scope ScopeMutation ?w = Inr ()"
    by (rule still_admitted; simp add: assms)+
  have "require_basis (enveloped p) w = Inr ()"
    by (simp add: require_basis_def expected_origin_def enveloped_def still_origin_def origin_try_new_def assms
        APPLY_PHASES_def validate_completion_def)
  then show ?thesis
    using assms free adm(1)
    by (simp add: route_commit_def act_bind_def act_lift_def check_config_hash_def enveloped_def
        require_admitted_def with_scope_def act_occupied_def lease_enter_def occ lease_commit_def require_scope_def
        act_complete_def complete_def q)
qed

theorem routed_mutation_published_witness:
  "\<exists>pe re w1 w2. route_prepare (enveloped still_request) running_world = Some (Inr pe, w1) \<and>
     route_commit pe w1 = Some (Inr re, w2) \<and> rs_world_revision (ps_stamp (world_root w2)) = 1"
proof -
  obtain p v l w1 w2 where c: "route_prepare (enveloped still_request) running_world = Some (Inr (enveloped p), w1)"
    "world_capture running_world = (v, w2)" "w1 = world_drop v (w2\<lparr>vw_ledger := l\<rparr>)"
    "prepare still_request v (vw_ledger running_world) = (Inr p, l)" "rv_root v = world_root running_world"
    by (rule still_route_prepare)
  have room: "size ({#} :: published_read_view multiset) + op_room < usize_max" by (simp add: op_room_def)
  have vac: "ledger_lookup still_request (vw_ledger running_world) = Inr LookupVacant"
    by (simp add: ledger_lookup_Vacant check_request_Inr running_parts still_request_def)
  have dir: "directory_ok (ps_directory (world_root running_world))" "directory_ok (view_directory v)"
    by (simp_all add: view_directory_def c(5) running_parts directory_ok_def)
  have cells: "cells_ok (mq_entries still_request)" by (simp add: cells_ok_def still_request_def)
  have reach: "world_reach w1 {#}" by (rule reach_step [OF live_reach(2) room step_prepare [OF c(1)]])
  have can: "can_publish (vw_authority w1)"
    using look_can_publish [OF c(2) running_parts(4)] reach by (simp add: c(3) running_parts(5))
  obtain P where P: "pub_reach (vw_authority w1) P {#} {#}"
    using world_reach_inv [OF reach] by (auto simp: world_inv_def world_ok_def)
  have w1: "world_root w1 = world_root running_world" "vw_ledger w1 = l" "vw_state w1 = ''Running''"
    "vw_world_id w1 = ''w''" "vw_context_id w1 = ''ctx''" "vw_generation w1 = 7" "vw_snapshot w1 = live_snapshot"
    using capture_keeps [OF c(2)] running_fields by (simp_all add: c(3) world_drop_def)
  have lok: "ledger_ok (vw_ledger running_world)"
    using world_reach_inv [OF live_reach(2)] by (simp add: world_inv_def world_ok_def)
  have keys: "stamp_keys_ok (ps_stamp (pa_root (vw_authority w1)))" using w1(1) by (simp add: running_parts stamp_keys_ok_def)
  obtain rc a m where m: "mutation_commit p (vw_authority w1) l = Some (Inr rc, a, m)"
    using prepared_commit_decides [OF P _ lok vac dir(2) cells c(4) _ keys] can room c(5) w1(1)
    by (auto simp: op_room_def)
  note prep = prepare_vacant_InrD [OF vac dir(2) cells c(4)]
  then obtain r where "token_for still_request v (vw_ledger running_world) r p" by blast
  then have "pm_txn_id p = ''t1''" by (simp add: token_for_def still_request_def)
  moreover have "ledger_config_hash l = cs_config_hash live_snapshot"
    using running_fields(7) ledger_step_config [OF prep(4)] by (simp add: ledger_config_hash_def)
  ultimately obtain u where u: "route_commit (enveloped p) w1 = Some (Inr (enveloped rc), u)"
    using still_route_commit [OF reach m [folded w1(2)]] w1 by auto
  note res = routed_mutation_published [OF live_reach(2) room _ dir(1) _ c(1) u]
  have "checked_add (rs_world_revision (ps_stamp (world_root running_world))) 1 = Some (rs_world_revision (ps_stamp (world_root u)))"
    using res vac cells by (simp add: enveloped_def)
  then have "rs_world_revision (ps_stamp (world_root u)) = 1" by (simp add: running_parts checked_add_def)
  with c(1) u show ?thesis by blast
qed

end
