(* ===== verification/WorldEffects.thy ===== *)
theory WorldEffects
  imports WorldWrites
begin

text \<open>
  The other operations that publish: unloading a section, clearing dirty sections under a durability
  receipt, and restoring a sealed candidate. For each, what the published cut is afterwards; for the
  unloading also exactly when it succeeds.
\<close>

section \<open>Unloading\<close>

text \<open>Rebuilding the directory with one slot replaced, when every id in it is well formed.\<close>

lemma keep_or_unload_all:
  assumes "section_key_of sid = Inr i" "\<forall>e \<in> set es. section_id_wf (fst e)"
  shows "rfold (keep_or_unload sid) es (b, saw) =
    Inr (fold (\<lambda>(k, s). fmupd k (if k = i then SlotUnchanged else s)) es b, saw \<or> i \<in> fst ` set es)"
  using assms(2)
proof (induction es arbitrary: b saw)
  case (Cons e es)
  have i: "section_id_wf i" "sid = section_id_key i" using assms(1) by (simp_all add: section_key_of_Inr)
  obtain k s where e: "e = (k, s)" by (cases e)
  with Cons.prems have wf: "section_id_wf k" by simp
  note k = wf section_key_of_key [OF wf]
  have "section_id_key k = sid \<longleftrightarrow> k = i" by (metis i(2) k(2) section_key_of_key [OF i(1)] sum.inject(2))
  then have "keep_or_unload sid e (b, saw) = Inr (fmupd k (if k = i then SlotUnchanged else s) b, saw \<or> k = i)"
    using k(2) by (cases "k = i") (simp_all add: e keep_or_unload_def directory_insert_def)
  moreover have "rfold (keep_or_unload sid) es (b', saw') =
      Inr (fold (\<lambda>(k, s). fmupd k (if k = i then SlotUnchanged else s)) es b', saw' \<or> i \<in> fst ` set es)" for b' saw'
    using Cons.IH Cons.prems by simp
  ultimately show ?case by (simp add: e) blast
qed simp

lemma map_of_by_key: "map_of (map (\<lambda>(k, s). (k, g k s)) es) j = map_option (g j) (map_of es j)"
  by (induction es) auto

lemma fold_replace_lookup:
  "fmlookup (fold (\<lambda>(k, s). fmupd k (if k = i then SlotUnchanged else s)) (fm_entries d) fmempty) j =
     (if j = i \<and> fm_has d i then Some SlotUnchanged else fmlookup d j)"
proof -
  let ?es = "map (\<lambda>(k, s). (k, if k = i then SlotUnchanged else s)) (fm_entries d)"
  have "fold (\<lambda>(k, s). fmupd k (if k = i then SlotUnchanged else s)) (fm_entries d) fmempty =
      fold (\<lambda>(k, v). fmupd k v) ?es fmempty"
    by (simp add: fold_map comp_def case_prod_unfold)
  moreover have "distinct (map fst ?es)" using distinct_fm_entries [of d] by (simp add: comp_def case_prod_unfold)
  ultimately show ?thesis
    by (simp add: fold_fmupd_lookup map_of_by_key [where g = "\<lambda>k s. if k = i then SlotUnchanged else s"]
        map_of_fm_entries split: option.split)
qed

lemma directory_unloaded:
  assumes "section_key_of sid = Inr i" "\<forall>k. fm_has (ps_directory (rv_root v)) k \<longrightarrow> section_id_wf k"
  shows "\<exists>d. directory_with_unloaded_section v sid = Inr d \<and>
    (\<forall>j. fmlookup d j = (if j = i then Some SlotUnchanged else fmlookup (ps_directory (rv_root v)) j))"
proof -
  let ?d = "ps_directory (rv_root v)"
  have "\<forall>e \<in> set (fm_entries ?d). section_id_wf (fst e)" using assms(2) by (auto simp: set_fm_entries)
  from keep_or_unload_all [OF assms(1) this, of fmempty False]
  have run: "rfold (keep_or_unload sid) (fm_entries ?d) (directory_builder_new, False) =
      Inr (fold (\<lambda>(k, s). fmupd k (if k = i then SlotUnchanged else s)) (fm_entries ?d) fmempty, i \<in> fst ` set (fm_entries ?d))"
    by (simp only: directory_builder_new_def simp_thms)
  have "i \<in> fst ` set (fm_entries ?d) \<longleftrightarrow> fm_has ?d i"
    using map_fst_fm_entries [of ?d] set_fm_keys [of ?d] by (metis fm_has_iff image_set)
  then show ?thesis
    by (cases "fm_has ?d i") (simp_all add: directory_with_unloaded_section_def run directory_insert_def assms(1) fold_replace_lookup)
qed

text \<open>A publication of the authority's own world goes through exactly when there is room for a cut.\<close>

lemma act_publish_decides:
  assumes reach: "pub_reach (vw_authority w) P {#} V" and room: "size V + 4 < usize_max"
    and chk: "check_stamp (pa_world_id (vw_authority w)) (pa_context_id (vw_authority w)) (pa_generation (vw_authority w))
        (ps_stamp root) = Inr ()"
  shows "(\<exists>i w'. act_publish (rs_world_revision (ps_stamp root)) root r w = Some (Inr i, w')) \<longleftrightarrow>
    can_publish (vw_authority w)"
proof -
  let ?a = "vw_authority w" and ?rev = "rs_world_revision (ps_stamp root)"
  note reg = reach_registry [OF reach]
  show ?thesis
  proof (cases "checked_add (pa_next_token_id ?a) 1")
    case None
    then have "authority_prepare ?rev root r ?a = Inl pub_invalid_handle"
      using chk by (simp add: authority_prepare_def Let_def)
    then show ?thesis using None by (simp add: act_publish_def can_publish_def)
  next
    case (Some n)
    then obtain pub a1 where prep: "authority_prepare ?rev root r ?a = Inr (pub, a1)"
      using chk by (auto simp: authority_prepare_def Let_def)
    note pub = authority_prepare_Inr [OF prep]
    then have a1: "a1 = ?a\<lparr>pa_next_token_id := pa_next_token_id a1\<rparr>" by blast
    have reg1: "pa_registry a1 = pa_registry ?a" by (subst a1) simp
    have stamp: "ps_stamp (pp_new_root pub) = ps_stamp root" using pub by simp
    have own: "rs_schema_id (ps_stamp root) = REVISION_STAMP_SCHEMA"
      "rs_context_id (ps_stamp root) = rg_context_id (pa_registry ?a)" "rs_generation (ps_stamp root) = rg_generation (pa_registry ?a)"
      using chk reg by (auto simp: check_stamp_def split: if_splits)
    have pin: "(\<exists>t s. try_pin (ps_stamp root) (pa_registry ?a) = Inr (t, s)) \<longleftrightarrow> can_publish ?a"
      using Some own by (auto simp: try_pin_def can_publish_def Let_def not_le result_iff)
    show ?thesis
    proof (cases "can_publish ?a")
      case False
      then obtain e where "try_pin (ps_stamp root) (pa_registry ?a) = Inl e"
        using pin by (cases "try_pin (ps_stamp root) (pa_registry ?a)") auto
      then have "prepared_seal pub a1 = Inl (map_pin e)"
        using pub by (simp add: prepared_seal_def reg1 stamp)
      with prep False show ?thesis by (simp add: act_publish_def)
    next
      case True
      with pin obtain t s where "try_pin (ps_stamp root) (pa_registry ?a) = Inr (t, s)" by blast
      then obtain tk pub' a2 where seal: "prepared_seal pub a1 = Inr (tk, pub', a2)"
        using pub by (simp add: prepared_seal_def reg1 stamp)
      have r1: "pub_reach a1 (add_mset pub P) {#} V" by (rule pub_prepare [OF reach prep])
      have r2: "pub_reach a2 (add_mset pub' P) (add_mset tk {#}) V" by (rule pub_seal [OF r1 seal])
      have "pa_root a2 = pa_root a1" "pa_root a1 = pa_root ?a"
        using prepared_seal_Inr [OF seal] by (auto, subst a1, simp)
      then have base: "tk_base_identity tk = ps_identity (pa_root a2)"
        using prepared_seal_Inr [OF seal] pub by auto
      obtain v a3 where "authority_publish_once tk a2 = (Inr v, a3)"
        using publish_current [OF r2 base] room by auto
      with prep seal True show ?thesis by (simp add: act_publish_def)
    qed
  qed
qed

text \<open>The staged replacement of an unloading always freezes: a ready slot may become unchanged.\<close>

lemma unload_freezes:
  assumes "section_key_of sid = Inr i" "fmlookup d i = Some (SlotReady pl)"
  shows "\<exists>r. rbind (delta_stage \<lparr>se_section_id = sid, se_cell_ids = [], se_slot = SlotUnchanged\<rparr> (delta_builder_new d))
    delta_freeze = Inr r"
proof -
  have wf: "section_id_wf i" using assms(1) by (simp add: section_key_of_Inr)
  have "\<exists>t. slot_try_convert (SlotReady pl) ''Unchanged'' None = Inr t" by (simp add: slot_try_convert_def slot_intern_presence_def intern_presence_def SECTION_PRESENCE_def)
  then have "delta_freeze_check d (i, SlotUnchanged) () = Inr ()"
    using freeze_check_one [OF wf, of d SlotUnchanged] assms(2) by auto
  then have "rfold (delta_freeze_check d) (fm_entries (fmupd i SlotUnchanged fmempty)) () = Inr ()"
    unfolding freeze_check_all by (auto simp: set_fm_entries split: if_splits)
  then show ?thesis
    by (simp add: delta_stage_def assms(1) delta_builder_new_def delta_freeze_def)
qed

text \<open>
  When unloading is due: the session is running, the section is durable, and it is either already
  unloaded, or ready with every pin rule agreeing and room for one more cut.
\<close>

definition unloadable :: "string \<Rightarrow> pin_exemption_hook \<Rightarrow> voxel_world \<Rightarrow> section_id \<Rightarrow> bool" where
  "unloadable sid hook w i \<longleftrightarrow>
     write_admissible (vw_state w) \<and> section_key_of sid = Inr i \<and>
     \<not> fm_has (df_entries (ps_dirty_frontier (world_root w))) i \<and>
     (fmlookup (ps_directory (world_root w)) i = Some SlotUnchanged \<or>
      (\<exists>pl. fmlookup (ps_directory (world_root w)) i = Some (SlotReady pl)) \<and>
      (case vw_region_pins w of None \<Rightarrow> True | Some m \<Rightarrow> manager_exemption m sid = Inr ()) \<and> hook sid = Inr () \<and>
      can_publish (vw_authority w))"

lemma check_pins_Inr:
  "check_pins sid hook w = Inr () \<longleftrightarrow>
     (case vw_region_pins w of None \<Rightarrow> True | Some m \<Rightarrow> manager_exemption m sid = Inr ()) \<and> hook sid = Inr ()"
  by (auto simp: check_pins_def result_iff split: option.splits)

lemma resident_slot_Inr:
  "resident_slot v sid = Inr s \<longleftrightarrow> (\<exists>i. section_key_of sid = Inr i \<and> fmlookup (ps_directory (rv_root v)) i = Some s)"
  by (auto simp: resident_slot_def result_iff directory_lookup_def)

lemma refuse_dirty_Inr:
  "section_key_of sid = Inr i \<Longrightarrow>
     refuse_dirty v sid = Inr () \<longleftrightarrow> \<not> fm_has (df_entries (ps_dirty_frontier (rv_root v))) i"
  using dirty_parse_section_Inr [of sid i]
  by (auto simp: refuse_dirty_def result_iff dirty_latest_revision_def section_key_of_Inr split: if_splits)

lemma unload_publish_Inr:
  assumes "unload_publish sid before w = Some (Inr rc, w')" "rv_root before = world_root w"
    "\<forall>k. fm_has (ps_directory (world_root w)) k \<longrightarrow> section_id_wf k"
  shows "\<exists>i pl d. section_key_of sid = Inr i \<and> fmlookup (ps_directory (world_root w)) i = Some (SlotReady pl) \<and>
    (\<forall>j. fmlookup (ps_directory (world_root w')) j =
      (if j = i then Some SlotUnchanged else fmlookup (ps_directory (world_root w)) j)) \<and>
    ps_stamp (world_root w') = ps_stamp (world_root w) \<and>
    ps_dirty_frontier (world_root w') = ps_dirty_frontier (world_root w) \<and> ur_pin_exemption_checked rc \<and>
    ur_section_id rc = sid \<and> ur_old_root rc = ps_identity (world_root w) \<and>
    ur_new_root rc = ps_identity (world_root w') \<and> vw_ledger w' = vw_ledger w"
proof -
  from assms(1) obtain v w1 s r d n w2 where c: "world_capture w = (v, w1)" and slot: "resident_slot v sid = Inr s"
    "slot_presence s = ''Ready''" and d: "directory_with_unloaded_section v sid = Inr d"
      "act_publish (rs_world_revision (view_stamp v)) (published_root_new (view_stamp v) d (ps_dirty_frontier (rv_root v))) r w1
        = Some (Inr n, w2)"
    and rc: "w' = world_drop v w2" "rc = \<lparr>ur_section_id = sid, ur_old_root = ps_identity (rv_root before), ur_new_root = n,
      ur_pin_exemption_checked = True\<rparr>"
    by (auto simp: unload_publish_def act_success split: if_splits)
  note k = capture_keeps [OF c]
  from slot obtain i pl where i: "section_key_of sid = Inr i" "fmlookup (ps_directory (world_root w)) i = Some (SlotReady pl)"
    by (auto simp: resident_slot_Inr slot_presence_iff k(3))
  have "\<forall>j. fmlookup d j = (if j = i then Some SlotUnchanged else fmlookup (ps_directory (world_root w)) j)"
    using directory_unloaded [OF i(1), of v] assms(3) d(1) by (auto simp: k(3))
  with act_publish_Inr [OF d(2)] i show ?thesis
    by (auto simp: rc k assms(2) view_stamp_def published_root_new_def Let_def)
qed

text \<open>What a world looks like where the section of the id is unloaded, and the receipt that says so.\<close>

definition unloaded :: "section_id \<Rightarrow> string \<Rightarrow> voxel_world \<Rightarrow> unload_receipt \<Rightarrow> voxel_world \<Rightarrow> bool" where
  "unloaded i sid w rc w' \<longleftrightarrow>
     (\<forall>j. fmlookup (ps_directory (world_root w')) j =
        (if j = i then Some SlotUnchanged else fmlookup (ps_directory (world_root w)) j)) \<and>
     ps_stamp (world_root w') = ps_stamp (world_root w) \<and>
     ps_dirty_frontier (world_root w') = ps_dirty_frontier (world_root w) \<and> vw_ledger w' = vw_ledger w \<and>
     ur_section_id rc = sid \<and> ur_old_root rc = ps_identity (world_root w) \<and>
     ur_new_root rc = ps_identity (world_root w') \<and>
     (\<not> ur_pin_exemption_checked rc \<longrightarrow> world_root w' = world_root w)"

lemma unload_section_Inr:
  assumes "unload_section sid hook w = Some (Inr rc, w')" "\<forall>k. fm_has (ps_directory (world_root w)) k \<longrightarrow> section_id_wf k"
    and dec: "can_publish (vw_authority w) \<or> fmlookup (ps_directory (world_root w)) i = Some SlotUnchanged"
      "section_key_of sid = Inr i"
  shows "unloadable sid hook w i \<and> unloaded i sid w rc w'"
proof -
  let ?w = "w\<lparr>vw_write_occupied := True\<rparr>"
  from assms(1) obtain u where run: "admit_scope ScopeStreamingApply ?w = Inr ()"
    "unload_admitted sid hook ?w = Some (Inr rc, u)" "w' = u\<lparr>vw_write_occupied := False\<rparr>"
    by (auto simp: unload_section_def act_success)
  then obtain v w1 s where c: "world_capture ?w = (v, w1)" and slot: "resident_slot v sid = Inr s"
    and dirty: "refuse_dirty v sid = Inr ()"
    and body: "slot_presence s = ''Ready'' \<and> check_pins sid hook w1 = Inr () \<and>
        (\<exists>w2. unload_publish sid v w1 = Some (Inr rc, w2) \<and> u = world_drop v w2) \<or>
      slot_presence s = ''Unchanged'' \<and> u = world_drop v w1 \<and>
        rc = \<lparr>ur_section_id = sid, ur_old_root = ps_identity (rv_root v), ur_new_root = ps_identity (rv_root v),
              ur_pin_exemption_checked = False\<rparr>"
    by (auto simp: unload_admitted_def act_success Let_def split: if_splits)
  note k = capture_keeps [OF c]
  have pins: "check_pins sid hook w1 = check_pins sid hook w" using k(5) by (simp add: check_pins_def)
  have i: "fmlookup (ps_directory (world_root w)) i = Some s" "\<not> fm_has (df_entries (ps_dirty_frontier (world_root w))) i"
    using slot dirty dec(2) k(3) refuse_dirty_Inr [OF dec(2), of v] by (auto simp: resident_slot_Inr)
  have run_state: "write_admissible (vw_state w)" using run(1) by (simp add: admit_scope_def split: if_splits)
  from body show ?thesis
  proof (elim disjE conjE exE)
    fix w2 assume b: "slot_presence s = ''Ready''" "check_pins sid hook w1 = Inr ()"
      "unload_publish sid v w1 = Some (Inr rc, w2)" "u = world_drop v w2"
    have "rv_root v = world_root w1" "\<forall>k. fm_has (ps_directory (world_root w1)) k \<longrightarrow> section_id_wf k"
      using k(2,3) assms(2) by simp_all
    from unload_publish_Inr [OF b(3) this] b dec i pins run_state run(3) k show ?thesis
      by (auto simp: unloadable_def unloaded_def slot_presence_iff check_pins_Inr)
  qed (use dec i run_state run(3) k in \<open>auto simp: unloadable_def unloaded_def slot_presence_iff\<close>)
qed

lemma captured_can_publish:
  "world_capture w = (v, w1) \<Longrightarrow> can_publish (vw_authority w1) \<longleftrightarrow> can_publish (vw_authority w)"
  by (auto simp: world_capture_iff authority_capture_iff can_publish_def pin_clone_same)

lemma unload_publish_decides:
  assumes ok: "world_ok w V" "size V + 6 < usize_max" and i: "section_key_of sid = Inr i"
    and wf: "\<forall>k. fm_has (ps_directory (world_root w)) k \<longrightarrow> section_id_wf k"
    and ready: "fmlookup (ps_directory (world_root w)) i = Some (SlotReady pl)"
    and clean: "\<not> fm_has (df_entries (ps_dirty_frontier (world_root w))) i"
    and before: "rv_root before = world_root w"
  shows "(\<exists>rc w'. unload_publish sid before w = Some (Inr rc, w')) \<longleftrightarrow> can_publish (vw_authority w)"
proof -
  obtain v w1 where c: "world_capture w = (v, w1)" by (cases "world_capture w")
  note k = capture_keeps [OF c]
  have ok1: "world_ok w1 (add_mset v V)" using world_capture_ok(1) [OF ok(1) _ c] ok(2) by simp
  then obtain P where P: "pub_reach (vw_authority w1) P {#} (add_mset v V)" by (auto simp: world_ok_def)
  have slot: "resident_slot v sid = Inr (SlotReady pl)" using i ready k(3) by (auto simp: resident_slot_Inr)
  have dirty: "refuse_dirty v sid = Inr ()" using refuse_dirty_Inr [OF i, of v] clean k(3) by simp
  obtain r where r: "map_err map_section_error (rbind (delta_stage \<lparr>se_section_id = sid, se_cell_ids = [], se_slot = SlotUnchanged\<rparr>
      (delta_builder_new (ps_directory (rv_root v)))) delta_freeze) = Inr r"
    using unload_freezes [OF i, of "ps_directory (rv_root v)" pl] ready k(3) by auto
  obtain d where d: "directory_with_unloaded_section v sid = Inr d"
    using directory_unloaded [OF i, of v] wf k(3) by auto
  let ?root = "published_root_new (view_stamp v) d (ps_dirty_frontier (rv_root v))"
  have st: "ps_stamp ?root = view_stamp v" "ps_stamp ?root = ps_stamp (world_root w1)"
    using k(2,3) by (simp_all add: view_stamp_def published_root_new_def Let_def)
  have same: "ps_identity (rv_root v) = ps_identity (rv_root before)" using before k(3) by simp
  have "(\<exists>rc w'. unload_publish sid before w = Some (Inr rc, w')) \<longleftrightarrow>
      (\<exists>n w2. act_publish (rs_world_revision (ps_stamp ?root)) ?root r w1 = Some (Inr n, w2))"
    unfolding st(1) by (auto simp: unload_publish_def act_success c slot dirty r d same)
  also have "\<dots> \<longleftrightarrow> can_publish (vw_authority w1)"
    using ok(2) reach_registry(3) [OF P] st(2) by (intro act_publish_decides [OF P]) simp_all
  finally show ?thesis using captured_can_publish [OF c] by simp
qed

lemma unload_section_decides:
  assumes "world_inv w V" "size V + op_room < usize_max" "\<forall>k. fm_has (ps_directory (world_root w)) k \<longrightarrow> section_id_wf k"
  shows "(\<exists>rc w'. unload_section sid hook w = Some (Inr rc, w')) \<longleftrightarrow> (\<exists>i. unloadable sid hook w i)"
proof -
  let ?w = "w\<lparr>vw_write_occupied := True\<rparr>"
  obtain v w1 where c: "world_capture ?w = (v, w1)" by (cases "world_capture ?w")
  note k = capture_keeps [OF c]
  have free: "\<not> vw_write_occupied w" and ok: "world_ok ?w V" using assms(1) by (simp_all add: world_inv_def world_ok_def)
  have room: "size V + 3 < usize_max" "size (add_mset v V) + 6 < usize_max" using assms(2) by (simp_all add: op_room_def)
  have ok1: "world_ok w1 (add_mset v V)" by (rule world_capture_ok(1) [OF ok room(1) c])
  have pins: "check_pins sid hook w1 = check_pins sid hook w" using k(5) by (simp add: check_pins_def)
  have scope: "admit_scope ScopeStreamingApply ?w = Inr () \<longleftrightarrow> write_admissible (vw_state w)"
    by (simp add: admit_scope_def)
  have can: "can_publish (vw_authority w1) \<longleftrightarrow> can_publish (vw_authority w)" using captured_can_publish [OF c] by simp
  have unl: "(\<exists>rc u. unload_section sid hook w = Some (Inr rc, u)) \<longleftrightarrow>
      write_admissible (vw_state w) \<and> (\<exists>s. resident_slot v sid = Inr s \<and> refuse_dirty v sid = Inr () \<and>
        (slot_presence s = ''Unchanged'' \<or> slot_presence s = ''Ready'' \<and> check_pins sid hook w = Inr () \<and>
          (\<exists>rc w2. unload_publish sid v w1 = Some (Inr rc, w2))))"
  proof -
    have "(\<exists>rc u. unload_section sid hook w = Some (Inr rc, u)) \<longleftrightarrow>
        write_admissible (vw_state w) \<and> (\<exists>rc u. unload_admitted sid hook ?w = Some (Inr rc, u))"
      using free scope by (auto simp: unload_section_def act_success)
    also have "(\<exists>rc u. unload_admitted sid hook ?w = Some (Inr rc, u)) \<longleftrightarrow>
        (\<exists>s. resident_slot v sid = Inr s \<and> refuse_dirty v sid = Inr () \<and>
        (slot_presence s = ''Unchanged'' \<or> slot_presence s = ''Ready'' \<and> check_pins sid hook w = Inr () \<and>
          (\<exists>rc w2. unload_publish sid v w1 = Some (Inr rc, w2))))"
    proof (cases "resident_slot v sid")
      case (Inr s)
      then show ?thesis
        by (cases s; cases "refuse_dirty v sid = Inr ()")
          (auto simp: unload_admitted_def act_success c pins Let_def)
    qed (simp add: unload_admitted_def act_success c)
    finally show ?thesis .
  qed
  have one: "resident_slot v sid = Inr s \<and> refuse_dirty v sid = Inr () \<and>
        (slot_presence s = ''Unchanged'' \<or> slot_presence s = ''Ready'' \<and> check_pins sid hook w = Inr () \<and>
          (\<exists>rc w2. unload_publish sid v w1 = Some (Inr rc, w2))) \<longleftrightarrow>
      (\<exists>i. section_key_of sid = Inr i \<and> fmlookup (ps_directory (world_root w)) i = Some s \<and>
        \<not> fm_has (df_entries (ps_dirty_frontier (world_root w))) i \<and>
        (s = SlotUnchanged \<or> (\<exists>pl. s = SlotReady pl) \<and> check_pins sid hook w = Inr () \<and> can_publish (vw_authority w)))" for s
  proof (cases "\<exists>i. section_key_of sid = Inr i \<and> fmlookup (ps_directory (world_root w)) i = Some s \<and>
      \<not> fm_has (df_entries (ps_dirty_frontier (world_root w))) i")
    case True
    then obtain i where i: "section_key_of sid = Inr i" "fmlookup (ps_directory (world_root w)) i = Some s"
      "\<not> fm_has (df_entries (ps_dirty_frontier (world_root w))) i" by blast
    then have "resident_slot v sid = Inr s" "refuse_dirty v sid = Inr ()"
      using refuse_dirty_Inr [OF i(1), of v] k(3) by (auto simp: resident_slot_Inr)
    moreover have "(\<exists>rc w2. unload_publish sid v w1 = Some (Inr rc, w2)) \<longleftrightarrow> can_publish (vw_authority w)"
      if "s = SlotReady pl" for pl
      using unload_publish_decides [OF ok1 room(2) i(1), of pl v] i that assms(3) k(2,3) can by simp
    ultimately show ?thesis using i by (auto simp: slot_presence_iff)
  next
    case False
    then show ?thesis using refuse_dirty_Inr [of sid _ v] k(3) by (auto simp: resident_slot_Inr)
  qed
  show ?thesis unfolding unl one by (auto simp: unloadable_def check_pins_Inr)
qed

section \<open>Restoring\<close>

text \<open>
  When a candidate can replace the world: it is sealed for this world, generation, context and
  configuration, and there is room for one more cut.
\<close>

definition restorable :: "restore_candidate \<Rightarrow> voxel_world \<Rightarrow> bool" where
  "restorable c w \<longleftrightarrow>
     write_admissible (vw_state w) \<and>
     rs_world_id (ps_stamp (rx_root c)) = vw_world_id w \<and> rs_generation (ps_stamp (rx_root c)) = vw_generation w \<and>
     rs_context_id (ps_stamp (rx_root c)) = vw_context_id w \<and> rx_config_hash c = cs_config_hash (vw_snapshot w) \<and>
     candidate_hash_matches c \<and> rs_schema_id (ps_stamp (rx_root c)) = REVISION_STAMP_SCHEMA \<and>
     rx_world_revision c = rs_world_revision (ps_stamp (rx_root c)) \<and> can_publish (vw_authority w)"

lemma restore_recheck_Inr:
  "restore_recheck c w = Inr () \<longleftrightarrow>
     rs_world_id (ps_stamp (rx_root c)) = vw_world_id w \<and> rs_generation (ps_stamp (rx_root c)) = vw_generation w \<and>
     rs_context_id (ps_stamp (rx_root c)) = vw_context_id w \<and> rx_config_hash c = cs_config_hash (vw_snapshot w) \<and>
     candidate_hash_matches c"
  by (auto simp: restore_recheck_def Let_def split: if_splits)

text \<open>A world that holds exactly the candidate's cut, with its receipts and without requests in flight.\<close>

definition restored :: "restore_candidate \<Rightarrow> voxel_world \<Rightarrow> restore_receipt \<Rightarrow> voxel_world \<Rightarrow> bool" where
  "restored c w rc w' \<longleftrightarrow>
     world_root w' = incorporate_replacement (rx_replacement c) (rx_root c) \<and>
     rr_old_root rc = ps_identity (world_root w) \<and> rr_new_root rc = ps_identity (world_root w') \<and>
     (\<forall>txn e. fmlookup (lg_entries (vw_ledger w')) txn = Some e \<longleftrightarrow>
        fmlookup (lg_entries (vw_ledger w)) txn = Some e \<and> ln_receipt e \<noteq> None) \<and>
     vw_state w' = vw_state w"

lemma act_publish_Some:
  assumes "act_publish target root r w = Some (res, w')"
  shows "vw_ledger w' = vw_ledger w" "vw_state w' = vw_state w"
  using assms by (auto simp: act_publish_def split: sum.splits prod.splits)

lemma act_publish_target:
  "act_publish target root r w = Some (Inr n, w') \<Longrightarrow>
     target = rs_world_revision (ps_stamp root) \<and> rs_schema_id (ps_stamp root) = REVISION_STAMP_SCHEMA"
  by (auto simp: act_publish_def authority_prepare_def check_stamp_def result_iff split: sum.splits prod.splits if_splits)

lemma abort_in_flight_lookup:
  "fmlookup (lg_entries (ledger_abort_in_flight l)) txn = Some e \<longleftrightarrow>
     fmlookup (lg_entries l) txn = Some e \<and> ln_receipt e \<noteq> None"
  by (auto simp: ledger_abort_in_flight_def split: if_splits)

text \<open>Capturing the cut and dropping the view again leaves no trace.\<close>

lemma look_leaves_nothing:
  assumes "world_ok w V" "size V + 2 < usize_max" "world_capture w = (v, w1)"
  shows "world_drop v w1 = w"
proof -
  let ?a = "vw_authority w"
  obtain P where P: "pub_reach ?a P {#} V" using assms(1) by (auto simp: world_ok_def)
  have ok: "pins_ok (pa_registry ?a) (handles ?a {#} V)" using pub_reach_ok [OF P] by (simp add: pub_ok_def)
  have "pa_pin ?a \<in># handles ?a {#} V" by (simp add: handles_def)
  with ok obtain slot where s: "fmlookup (rg_slots (pa_registry ?a)) (rp_id (pa_pin ?a)) = Some slot"
    "slot_ok (pa_registry ?a) (handles ?a {#} V) (rp_id (pa_pin ?a)) slot"
    by (auto elim: pins_okD)
  have "lp_refs slot \<le> size (handles ?a {#} V)" "0 < lp_refs slot"
    using s(2) count_le_size [of "image_mset rp_id (handles ?a {#} V)"] by (auto simp: slot_ok_def handles_of_def)
  then have refs: "usize_saturating_add (lp_refs slot) 1 = Suc (lp_refs slot)" "0 < lp_refs slot"
    using assms(2) by (auto simp: usize_saturating_add_def size_handles)
  have "pin_drop (pa_pin ?a) (snd (pin_clone (pa_pin ?a) (pa_registry ?a))) = pa_registry ?a"
    using s(1) refs by (cases "pa_registry ?a"; cases slot) (auto simp: pin_clone_def pin_drop_def intro!: fm_eqI)
  then show ?thesis
    using assms(3) by (auto simp: world_drop_def view_drop_def world_capture_iff authority_capture_iff
        view_from_parts_def lease_from_pin_def pa_with_registry_def)
qed

text \<open>The body of a restore, from a world in which the lane is held.\<close>

lemma restore_publish_run:
  assumes "world_ok w V" "size V + 5 < usize_max" "vw_state w \<noteq> ''Disposed''" "restore_publish c w = Some (r, w')"
  shows "case r of
      Inr rc \<Rightarrow> restore_recheck c w = Inr () \<and> rs_schema_id (ps_stamp (rx_root c)) = REVISION_STAMP_SCHEMA \<and>
        rx_world_revision c = rs_world_revision (ps_stamp (rx_root c)) \<and> can_publish (vw_authority w) \<and> restored c w rc w'
    | Inl e \<Rightarrow> \<not> (restore_recheck c w = Inr () \<and> rs_schema_id (ps_stamp (rx_root c)) = REVISION_STAMP_SCHEMA \<and>
        rx_world_revision c = rs_world_revision (ps_stamp (rx_root c)) \<and> can_publish (vw_authority w)) \<and>
        vw_ledger w' = vw_ledger w"
proof -
  let ?st = "ps_stamp (rx_root c)" and ?rev = "rx_world_revision c"
  obtain P where P: "pub_reach (vw_authority w) P {#} V" using assms(1) by (auto simp: world_ok_def)
  have look: "act_with_view (\<lambda>view. act_lift (Inr (ps_identity (rv_root view)))) w = Some (Inr (ps_identity (world_root w)), w)"
    using look_leaves_nothing [OF assms(1)] assms(2) capture_keeps(3)
    by (auto simp: act_with_view_def act_lift_def split: prod.splits)
  show ?thesis
  proof (cases "restore_recheck c w = Inr ()")
    case False
    then obtain e where "restore_recheck c w = Inl e" by (cases "restore_recheck c w") auto
    with assms(4) show ?thesis by (auto simp: restore_publish_def act_bind_def act_lift_def)
  next
    case True
    obtain q w1 where pub: "act_publish ?rev (rx_root c) (rx_replacement c) w = Some (q, w1)"
      and res: "r = map_sum id (\<lambda>n. \<lparr>rr_old_root = ps_identity (world_root w), rr_new_root = n\<rparr>) q"
      "w' = (if isl q then w1 else w1\<lparr>vw_ledger := ledger_abort_in_flight (vw_ledger w1)\<rparr>)"
      using assms(4) True look
      by (auto simp: restore_publish_def act_bind_def act_lift_def into_publication_def split: option.splits prod.splits sum.splits)
    have dec: "(\<exists>n w'. act_publish ?rev (rx_root c) (rx_replacement c) w = Some (Inr n, w')) \<longleftrightarrow>
        rs_schema_id ?st = REVISION_STAMP_SCHEMA \<and> ?rev = rs_world_revision ?st \<and> can_publish (vw_authority w)"
    proof (cases "rs_schema_id ?st = REVISION_STAMP_SCHEMA \<and> ?rev = rs_world_revision ?st")
      case yes: True
      have "check_stamp (pa_world_id (vw_authority w)) (pa_context_id (vw_authority w)) (pa_generation (vw_authority w)) ?st = Inr ()"
        using assms(1,3) True yes by (auto simp: check_stamp_def world_ok_def restore_recheck_Inr)
      with yes act_publish_decides [OF P, of "rx_root c" "rx_replacement c"] assms(2) show ?thesis by simp
    qed (use act_publish_target in blast)
    show ?thesis
    proof (cases q)
      case (Inl e)
      then show ?thesis using pub res dec act_publish_Some(1) [OF pub] by auto
    next
      case (Inr n)
      with pub act_publish_Inr [OF pub [unfolded Inr]] dec True res show ?thesis
        by (auto simp: restored_def abort_in_flight_lookup)
    qed
  qed
qed

lemma restore_decides:
  assumes "world_reach w V" "size V + op_room < usize_max"
  shows "\<exists>r w'. world_restore c w = Some (r, w') \<and>
    (case r of Inr rc \<Rightarrow> restorable c w \<and> restored c w rc w'
     | Inl e \<Rightarrow> \<not> restorable c w \<and> world_root w' = world_root w \<and> vw_ledger w' = vw_ledger w)"
proof -
  let ?w = "w\<lparr>vw_write_occupied := True\<rparr>"
  have inv: "world_inv w V" by (rule world_reach_inv [OF assms(1)])
  then have free: "\<not> vw_write_occupied w" and ok: "world_ok ?w V" by (simp_all add: world_inv_def world_ok_def)
  obtain r w' where run: "world_restore c w = Some (r, w')" "world_root w' = world_root w \<or> \<not> isl r"
    using reach_answers [OF assms restore_ok] unfolding answers_def by blast
  have scope: "admit_scope ScopeRestore ?w = (if write_admissible (vw_state w) then Inr () else Inl we_claim_not_granted)"
    by (simp add: admit_scope_def)
  have same: "restore_recheck c ?w = restore_recheck c w" by (simp add: restore_recheck_def Let_def)
  show ?thesis
  proof (cases "write_admissible (vw_state w)")
    case False
    with run free scope have "isl r \<and> vw_ledger w' = vw_ledger w"
      by (auto simp: world_restore_def act_occupied_def act_bind_def act_lift_def)
    with run False show ?thesis by (cases r) (auto simp: restorable_def)
  next
    case True
    with run free scope obtain u where u: "restore_publish c ?w = Some (r, u)" "w' = u\<lparr>vw_write_occupied := False\<rparr>"
      by (auto simp: world_restore_def act_occupied_def act_bind_def act_lift_def split: option.splits)
    have "vw_state ?w \<noteq> ''Disposed''"
      using True by (auto simp: write_admissible_def intern_or_bug_def intern_session_state_def SESSION_TRANSITIONS_def)
    from restore_publish_run [OF ok _ this u(1)] assms(2) run True u(2) same show ?thesis
      by (cases r) (auto simp: restorable_def restored_def op_room_def restore_recheck_Inr)
  qed
qed

text \<open>A captured cut, and what its sealed capture holds.\<close>

lemma capture_cut_Inr:
  assumes "capture_cut rtc w = Some (Inr (c, ev), w')"
  shows "vc_root c = world_root w" "vc_config_hash c = cs_config_hash (vw_snapshot w)" "is_hash256 (vc_config_hash c)"
    "rs_world_id (capture_stamp c) = vw_world_id w" "rs_context_id (capture_stamp c) = vw_context_id w"
    "rs_generation (capture_stamp c) = vw_generation w" "vw_world_id w \<noteq> []" "vw_context_id w \<noteq> []"
proof -
  from assms have adm: "capture_admit rtc w = Inr ()" by (auto simp: capture_cut_def act_success)
  from assms obtain v w1 w2 w3 where c: "world_capture w = (v, w1)"
    and cap: "capture_view rtc v w2 = Some (Inr (c, ev), w3)"
    by (auto simp: capture_cut_def act_success with_scope_def)
  note k = capture_keeps [OF c]
  from cap obtain pin where new: "capture_ref_new v (LeaseHeld \<lparr>rl_pin = pin\<rparr>) (cut_evidence_of rtc) = Inr c"
    by (auto simp: capture_view_def Let_def split: prod.splits sum.splits)
  from new adm show "vc_root c = world_root w" "vc_config_hash c = cs_config_hash (vw_snapshot w)"
    "is_hash256 (vc_config_hash c)" "rs_world_id (capture_stamp c) = vw_world_id w"
    "rs_context_id (capture_stamp c) = vw_context_id w" "rs_generation (capture_stamp c) = vw_generation w"
    "vw_world_id w \<noteq> []" "vw_context_id w \<noteq> []"
    by (auto simp: capture_ref_new_Inr cut_evidence_of_def capture_admit_def k(3) capture_stamp_def view_stamp_def
        split: if_splits)
qed

section \<open>Acknowledging durability\<close>

text \<open>When a durability receipt is due: it names this world, nothing beyond the cut, and all it clears is covered.\<close>

definition acknowledgeable :: "ack_evidence \<Rightarrow> voxel_world \<Rightarrow> dirty_coverage \<Rightarrow> bool" where
  "acknowledgeable ack w cov \<longleftrightarrow>
     ae_kind ack = ACK_KIND \<and> ae_world_id ack = vw_world_id w \<and>
     ac_context_id (ae_context ack) = vw_context_id w \<and> ac_generation (ae_context ack) = vw_generation w \<and>
     ae_covered_world_revision ack \<le> rs_world_revision (ps_stamp (world_root w)) \<and> write_admissible (vw_state w) \<and>
     dirty_covered_by (ps_dirty_frontier (world_root w)) ack = Inr cov \<and> (fm_len cov = 0 \<or> can_publish (vw_authority w))"

definition acknowledged :: "ack_evidence \<Rightarrow> dirty_coverage \<Rightarrow> voxel_world \<Rightarrow> durability_receipt \<Rightarrow> voxel_world \<Rightarrow> bool" where
  "acknowledged ack cov w rc w' \<longleftrightarrow>
     ps_stamp (world_root w') = ps_stamp (world_root w) \<and> ps_directory (world_root w') = ps_directory (world_root w) \<and>
     vw_ledger w' = vw_ledger w \<and> dc_coverage_len rc = fm_len cov \<and>
     dc_old_root rc = ps_identity (world_root w) \<and> dc_new_root rc = ps_identity (world_root w') \<and>
     (\<forall>i. fmlookup (df_entries (ps_dirty_frontier (world_root w'))) i =
        (if \<exists>b. declares ack i b then None else fmlookup (df_entries (ps_dirty_frontier (world_root w))) i)) \<and>
     (\<forall>i b e. declares ack i b \<longrightarrow> fmlookup (df_entries (ps_dirty_frontier (world_root w))) i = Some e \<longrightarrow> de_latest e \<le> b)"

lemma cleared_lookup:
  assumes "dirty_covered_by f ack = Inr cov"
  shows "fmlookup (df_entries (dirty_except_covered f cov)) i =
    (if \<exists>b. declares ack i b then None else fmlookup (df_entries f) i)"
  using covered_by_Inr(1) [OF assms, of i] by (auto simp: except_covered_lookup split: option.splits if_splits)

lemma fm_len_0: "fm_len m = 0 \<longleftrightarrow> m = fmempty"
  by (metis fcard_0_eq fm_len_def fm_len_empty fmrestrict_fset_dom fmrestrict_fset_null)

lemma fm_entries_empty [simp]: "fm_entries (fmempty :: ('k::linorder, 'v) fmap) = []"
  using map_fst_fm_entries [of "fmempty :: ('k, 'v) fmap"] by (simp add: fm_keys_sorted_set)

lemma except_nothing [simp]: "dirty_except_covered f fmempty = f"
  by (simp add: dirty_except_covered_def fm_keys_sorted_set)

lemma freeze_nothing: "\<exists>r. delta_freeze (delta_builder_new d) = Inr r"
  by (simp add: delta_freeze_def delta_builder_new_def)

lemma ack_publish_run:
  assumes "world_ok w V" "size V + 4 < usize_max" "rv_root v = world_root w" "ack_publish ack v w = Some (r, w')"
  shows "case r of
      Inr rc \<Rightarrow> \<exists>cov. dirty_covered_by (ps_dirty_frontier (world_root w)) ack = Inr cov \<and>
        (fm_len cov = 0 \<or> can_publish (vw_authority w)) \<and> acknowledged ack cov w rc w'
    | Inl e \<Rightarrow> (\<nexists>cov. dirty_covered_by (ps_dirty_frontier (world_root w)) ack = Inr cov \<and>
        (fm_len cov = 0 \<or> can_publish (vw_authority w)))"
proof -
  let ?f = "ps_dirty_frontier (world_root w)" and ?d = "ps_directory (world_root w)" and ?st = "ps_stamp (world_root w)"
  obtain P where P: "pub_reach (vw_authority w) P {#} V" using assms(1) by (auto simp: world_ok_def)
  show ?thesis
  proof (cases "dirty_covered_by ?f ack")
    case (Inl e)
    with assms(3,4) show ?thesis by (auto simp: ack_publish_def act_bind_def act_lift_def Let_def)
  next
    case (Inr cov)
    note clear = cleared_lookup [OF Inr] and bound = covered_by_Inr(2) [OF Inr]
    show ?thesis
    proof (cases "fm_len cov = 0")
      case True
      then have "r = Inr \<lparr>dc_coverage_len = 0, dc_old_root = ps_identity (world_root w), dc_new_root = ps_identity (world_root w)\<rparr>"
        "w' = w" using Inr assms(3,4) by (auto simp: ack_publish_def act_bind_def act_lift_def Let_def fm_len_0)
      with Inr True bound clear show ?thesis by (auto simp: acknowledged_def fm_len_0)
    next
      case False
      let ?root = "published_root_new ?st ?d (dirty_except_covered ?f cov)"
      obtain rp where rp: "delta_freeze (delta_builder_new ?d) = Inr rp" using freeze_nothing by blast
      obtain q where pub: "act_publish (rs_world_revision ?st) ?root rp w = Some (q, w')"
        and r: "r = map_sum id (\<lambda>n. \<lparr>dc_coverage_len = fm_len cov, dc_old_root = ps_identity (world_root w), dc_new_root = n\<rparr>) q"
        using False Inr rp assms(3,4)
        by (auto simp: ack_publish_def act_bind_def act_lift_def Let_def view_stamp_def split: option.splits prod.splits sum.splits)
      have st: "ps_stamp ?root = ?st" "ps_directory ?root = ?d" "ps_dirty_frontier ?root = dirty_except_covered ?f cov"
        by (simp_all add: published_root_new_def Let_def)
      have dec: "(\<exists>n w'. act_publish (rs_world_revision ?st) ?root rp w = Some (Inr n, w')) \<longleftrightarrow> can_publish (vw_authority w)"
        using act_publish_decides [OF P, of ?root rp] assms(2) reach_registry(3) [OF P] st(1) by simp
      show ?thesis
      proof (cases q)
        case ql: (Inl e)
        with pub dec r Inr False show ?thesis by auto
      next
        case qr: (Inr n)
        with pub act_publish_Inr [OF pub [unfolded qr]] dec r Inr clear bound st show ?thesis
          by (auto simp: acknowledged_def)
      qed
    qed
  qed
qed

definition ack_named :: "ack_evidence \<Rightarrow> voxel_world \<Rightarrow> bool" where
  "ack_named ack w \<longleftrightarrow>
     ae_kind ack = ACK_KIND \<and> ae_world_id ack = vw_world_id w \<and>
     ac_context_id (ae_context ack) = vw_context_id w \<and> ac_generation (ae_context ack) = vw_generation w \<and>
     ae_covered_world_revision ack \<le> rs_world_revision (ps_stamp (world_root w))"

lemma validate_decides:
  assumes "world_ok w V" "size V + 2 < usize_max"
  shows "ack_named ack w \<Longrightarrow> validate_before_occupancy ack w = Some (Inr (), w)"
    "\<not> ack_named ack w \<Longrightarrow> \<exists>e. validate_before_occupancy ack w = Some (Inl e, w)"
proof -
  obtain v w1 where c: "world_capture w = (v, w1)" by (cases "world_capture w")
  have "act_with_view (\<lambda>view. act_lift (f (rs_world_revision (view_stamp view)))) w =
      Some (f (rs_world_revision (ps_stamp (world_root w))), w)" for f :: "u64 \<Rightarrow> world_error + unit"
    using look_leaves_nothing [OF assms c] capture_keeps(3) [OF c]
    by (simp add: act_with_view_def c act_lift_def view_stamp_def)
  note look = this [of "\<lambda>rev. if ae_covered_world_revision ack > rev then Inl (we_mapped ''EvidenceDigestMismatch'') else Inr ()"]
  show "ack_named ack w \<Longrightarrow> validate_before_occupancy ack w = Some (Inr (), w)"
    "\<not> ack_named ack w \<Longrightarrow> \<exists>e. validate_before_occupancy ack w = Some (Inl e, w)"
    using look by (auto simp: validate_before_occupancy_def ack_named_def not_less)
qed

section \<open>Properties\<close>

text \<open>
  C8. A section is unloaded exactly when that is due, and nothing else moves. In any history of a world
  whose directory holds well-formed ids, unloading returns; it succeeds exactly when the session is
  running, the id names a section that is not dirty, and the section is already unloaded or is ready
  while the pin manager and the caller's hook agree and there is room for one more cut. On success
  that one slot is unchanged and the stamp, the dirty sections, every other slot and the ledger are
  as before; a refusal leaves the published cut.
\<close>

theorem unload_exactly_when_due:
  assumes "world_reach w V" "size V + op_room < usize_max"
    and "\<forall>k. fm_has (ps_directory (world_root w)) k \<longrightarrow> section_id_wf k"
  shows "\<exists>r w'. unload_section sid hook w = Some (r, w') \<and>
    (case r of Inr rc \<Rightarrow> \<exists>i. unloadable sid hook w i \<and> unloaded i sid w rc w'
     | Inl e \<Rightarrow> (\<nexists>i. unloadable sid hook w i) \<and> world_root w' = world_root w)"
proof -
  have inv: "world_inv w V" by (rule world_reach_inv [OF assms(1)])
  from reach_answers [OF assms(1,2) unload_ok] obtain r w' where run: "unload_section sid hook w = Some (r, w')"
    "world_root w' = world_root w \<or> \<not> isl r" unfolding answers_def by blast
  have dec: "(\<exists>rc w'. unload_section sid hook w = Some (Inr rc, w')) \<longleftrightarrow> (\<exists>i. unloadable sid hook w i)"
    by (rule unload_section_decides [OF inv assms(2,3)])
  show ?thesis
  proof (cases r)
    case (Inl e)
    with run dec show ?thesis by auto
  next
    case (Inr rc)
    with run dec obtain i where i: "unloadable sid hook w i" by blast
    then have "unloaded i sid w rc w'"
      using unload_section_Inr [of sid hook w rc w' i] run(1) Inr assms(3) by (auto simp: unloadable_def)
    with run Inr i show ?thesis by auto
  qed
qed

text \<open>
  C10. A restore replaces the whole world or nothing. In any history of a world a restore returns; it
  succeeds exactly when the session is running, the candidate is sealed for this world, generation,
  context and configuration with a matching hash, its stamp has the declared revision, and there is
  room for one more cut. On success the published cut is the candidate's, no request is left in
  flight and every finished receipt is kept; a refusal leaves cut and ledger.
\<close>

theorem restore_all_or_nothing:
  assumes "world_reach w V" "size V + op_room < usize_max"
  shows "\<exists>r w'. world_restore c w = Some (r, w') \<and>
    (case r of Inr rc \<Rightarrow> restorable c w \<and> restored c w rc w'
     | Inl e \<Rightarrow> \<not> restorable c w \<and> world_root w' = world_root w \<and> vw_ledger w' = vw_ledger w)"
  by (rule restore_decides [OF assms])

text \<open>
  C7. A world restores to what was captured of it. When a cut is captured, its capture encoded into a
  memory writer, and the written bytes later decoded, built and restored, in any later state of the same
  world that is running with room for one more cut, every step succeeds. The published cut then has the
  captured stamp, an unchanged slot for exactly its sections, and no dirty section; no request is left
  in flight, and every receipt stored before the restore is still there.
\<close>

theorem world_restores_to_capture:
  assumes "capture_cut rtc w = Some (Inr (c, ev), w')" "world_reach u V" "size V + op_room < usize_max"
    and "vw_world_id u = vw_world_id w" "vw_context_id u = vw_context_id w" "vw_generation u = vw_generation w"
    and "vw_snapshot u = vw_snapshot w" "write_admissible (vw_state u)" "can_publish (vw_authority u)"
    and "world_reach w W" "stamp_keys_ok (capture_stamp c)"
    and "length (capture_root_identity c) = 32" "str_ok (vw_world_id w)" "str_ok (vw_context_id w)"
    and "limit < usize_max" "encode_capture mw_cancelled memory_write c (memory_writer_new limit) = (Inr m, buf)"
  shows "\<exists>d x rc u'. preflight_validate (memory_as_slice buf) (vw_world_id u) (vw_generation u) (vw_snapshot u) = Inr d \<and>
    shadow_build d = Inr x \<and> world_restore x u = Some (Inr rc, u') \<and>
    ps_stamp (world_root u') = ps_stamp (world_root w) \<and>
    (\<forall>i. section_id_wf i \<longrightarrow> fmlookup (ps_directory (world_root u')) i =
      (if fm_has (rs_section_revision_set (ps_stamp (world_root w))) (section_id_key i) then Some SlotUnchanged else None)) \<and>
    df_entries (ps_dirty_frontier (world_root u')) = fmempty \<and>
    (\<forall>txn e. fmlookup (lg_entries (vw_ledger u')) txn = Some e \<longleftrightarrow>
      fmlookup (lg_entries (vw_ledger u)) txn = Some e \<and> ln_receipt e \<noteq> None)"
proof -
  note c = capture_cut_Inr [OF assms(1)]
  let ?st = "capture_stamp c" and ?h = "vc_config_hash c" and ?idn = "capture_root_identity c"
  have st: "?st = ps_stamp (world_root w)" by (simp add: capture_stamp_def c(1))
  have "rs_schema_id (ps_stamp (world_root w)) = REVISION_STAMP_SCHEMA"
    using world_reach_inv [OF assms(10)] reach_registry(3)
    by (fastforce simp: world_inv_def world_ok_def check_stamp_def split: if_splits)
  then have schema: "rs_schema_id ?st = REVISION_STAMP_SCHEMA" by (simp add: st)
  have "memory_as_slice buf = encode_bytes (manifest_of ?st ?h ?idn)"
    using encode_into_memory [OF c(3) _ assms(15,16)] c(4,7) by (auto split: if_splits)
  moreover have "preflight_validate (encode_bytes (manifest_of ?st ?h ?idn)) (rs_world_id ?st) (rs_generation ?st) (vw_snapshot u) =
      Inr (decoded_of ?st ?h ?idn)"
    using assms c schema by (intro preflight_decoded_of) simp_all
  ultimately have d: "preflight_validate (memory_as_slice buf) (vw_world_id u) (vw_generation u) (vw_snapshot u) =
      Inr (decoded_of ?st ?h ?idn)" using assms(4,6) c by simp
  have "dr_world_id (decoded_of ?st ?h ?idn) \<noteq> []" using c by (simp add: decoded_of_def)
  then obtain x where x: "shadow_build (decoded_of ?st ?h ?idn) = Inr x" "shadow_of ?st ?h x"
    using shadow_build_ok [of "decoded_of ?st ?h ?idn"] schema assms(11) by (auto simp: decoded_of_stamp) (simp add: decoded_of_def)
  then have "restorable x u"
    using assms c schema by (simp add: restorable_def shadow_of_def)
  then obtain rc u' where r: "world_restore x u = Some (Inr rc, u')" "restored x u rc u'"
    using restore_decides [OF assms(2,3), of x] by (fastforce split: sum.split_asm)
  with x d show ?thesis
    by (auto simp: restored_def shadow_of_def st)
qed


text \<open>
  C9. A durability receipt clears exactly what it covers. In any history of a world an acknowledgement
  returns; it succeeds exactly when the receipt names this world, context and generation, claims no
  revision the cut has not reached, the session is running, every dirty section it names is covered by
  its bound, and, when it clears one, there is room for one more cut. On success the named dirty
  sections and no others are clean, and stamp, directory and ledger are as before; a refusal leaves
  the published cut.
\<close>

theorem ack_exactly_when_due:
  assumes "world_reach w V" "size V + op_room < usize_max"
  shows "\<exists>r w'. apply_durability_ack ack w = Some (r, w') \<and>
    (case r of Inr rc \<Rightarrow> \<exists>cov. acknowledgeable ack w cov \<and> acknowledged ack cov w rc w'
     | Inl e \<Rightarrow> (\<nexists>cov. acknowledgeable ack w cov) \<and> world_root w' = world_root w)"
proof -
  let ?w = "w\<lparr>vw_write_occupied := True\<rparr>"
  have inv: "world_inv w V" by (rule world_reach_inv [OF assms(1)])
  then have free: "\<not> vw_write_occupied w" and ok: "world_ok w V" "world_ok ?w V"
    by (simp_all add: world_inv_def world_ok_def)
  have room: "size V + 2 < usize_max" "size V + 3 < usize_max" "size (add_mset v V) + 4 < usize_max" for v
    using assms(2) by (simp_all add: op_room_def)
  obtain r w' where run: "apply_durability_ack ack w = Some (r, w')" "world_root w' = world_root w \<or> \<not> isl r"
    using reach_answers [OF assms durability_ack_ok] unfolding answers_def by blast
  show ?thesis
  proof (cases "ack_named ack w")
    case False
    then obtain e where "validate_before_occupancy ack w = Some (Inl e, w)"
      using validate_decides [OF ok(1) room(1)] by blast
    then have "isl r" using run(1) by (auto simp: apply_durability_ack_def act_bind_def)
    with run(2) False run(1) show ?thesis by (cases r) (auto simp: acknowledgeable_def ack_named_def)
  next
    case True
    then have v: "validate_before_occupancy ack w = Some (Inr (), w)" "validate_before_occupancy ack ?w = Some (Inr (), ?w)"
      using validate_decides(1) [OF ok(1) room(1)] validate_decides(1) [OF ok(2) room(1)] by (auto simp: ack_named_def)
    obtain x w1 where c: "world_capture ?w = (x, w1)" by (cases "world_capture ?w")
    note k = capture_keeps [OF c]
    have ok1: "world_ok w1 (add_mset x V)" by (rule world_capture_ok(1) [OF ok(2) room(2) c])
    show ?thesis
    proof (cases "write_admissible (vw_state w)")
      case False
      then have "isl r" using run(1) v free
        by (auto simp: apply_durability_ack_def act_bind_def act_lift_def act_occupied_def admit_scope_def)
      with run False show ?thesis by (cases r) (auto simp: acknowledgeable_def)
    next
      case admitted: True
      obtain u where u: "ack_publish ack x w1 = Some (r, u)" "w' = (world_drop x u)\<lparr>vw_write_occupied := False\<rparr>"
        using run(1) v free admitted c
        by (auto simp: apply_durability_ack_def act_bind_def act_lift_def act_occupied_def admit_scope_def act_with_view_def
            split: option.splits prod.splits)
      have "rv_root x = world_root w1" using k by simp
      from ack_publish_run [OF ok1 room(3) this u(1)] run True admitted u(2) k captured_can_publish [OF c] show ?thesis
        by (cases r) (auto simp: acknowledgeable_def acknowledged_def ack_named_def)
    qed
  qed
qed


section \<open>Witnesses\<close>

text \<open>A bound on the length of an encoding.\<close>

fun text_size :: "canonical_value \<Rightarrow> nat" where
  "text_size (Text t) = length t"
| "text_size (Uint n) = 4"
| "text_size (TextArray ts) = usize_max"

lemma length_quoted: "length (quoted s) \<le> 6 * length s + 2"
proof -
  have "length (concat (map escaped_char s)) \<le> 6 * length s"
    by (induction s) (simp_all add: escaped_char_def)
  then show ?thesis by (simp add: quoted_def)
qed

lemma length_member_text:
  assumes "length k \<le> n" "text_size v \<le> n" "n < usize_max"
  shows "length (member_text (k, v)) \<le> 12 * n + 25"
proof (cases v)
  case (Text t)
  with assms length_quoted [of k] length_quoted [of t] show ?thesis by (simp add: member_text_def)
next
  case (Uint u)
  have "length (dec_nat (unat u)) \<le> 20" using unsigned_less [of u, where ?'a = nat] by (simp add: length_dec_nat_le)
  with assms length_quoted [of k] Uint show ?thesis by (simp add: member_text_def)
next
  case (TextArray ts)
  with assms(2,3) show ?thesis by simp
qed

lemma length_join_with: "list_all (\<lambda>p. length p \<le> n) ps \<Longrightarrow> length (join_with c ps) \<le> length ps * Suc n"
  by (induction c ps rule: join_with.induct) auto

lemma encode_bytes_bound:
  assumes "\<And>k v. fmlookup obj k = Some v \<Longrightarrow> length k \<le> n \<and> text_size v \<le> n" "n < usize_max"
  shows "length (encode_bytes obj) \<le> 2 + fm_len obj * (26 + 12 * n)"
proof -
  have "list_all (\<lambda>p. length p \<le> 12 * n + 25) (map member_text (fm_entries obj))"
    using assms length_member_text by (auto simp: list_all_iff set_fm_entries)
  from length_join_with [OF this, of "CHR '',''"] show ?thesis
    by (simp add: encode_bytes_def canonical_encode_def length_fm_entries)
qed

lemma sectionless_manifest_bound:
  assumes "rs_section_revision_set stamp = fmempty" "length (rs_world_id stamp) \<le> 64" "length (rs_context_id stamp) \<le> 64"
    "length h \<le> 64" "length idn = 32"
  shows "length (encode_bytes (manifest_of stamp h idn)) \<le> 9000"
proof -
  let ?m = "manifest_of stamp h idn"
  have look: "fmlookup ?m k = Some v \<Longrightarrow> (k, v) \<in> set (known_members stamp h idn)" for k v
    by (auto simp: manifest_lookup assms(1) map_of_SomeD split: if_splits)
  have "fset (fmdom ?m) \<subseteq> fst ` set (known_members stamp h idn)"
    using look by (force simp: fmlookup_dom_iff)
  then have "card (fset (fmdom ?m)) \<le> length (known_members stamp h idn)"
    by (meson List.finite_set card_image_le card_length card_mono finite_imageI le_trans)
  then have n: "fm_len ?m \<le> 10" by (simp add: fm_len_def fcard.rep_eq known_members_def)
  have "length k \<le> 64 \<and> text_size v \<le> 64" if "fmlookup ?m k = Some v" for k v
    using look [OF that] assms
    by (auto simp: known_members_def SNAPSHOT_PAYLOAD_SCHEMA_def SNAPSHOT_HEADER_SCHEMA_def SNAPSHOT_MAGIC_def length_hex_string)
  from encode_bytes_bound [of ?m 64, OF this] n show ?thesis by simp
qed


lemma act_publish_counts:
  assumes "act_publish target root r w = Some (Inr n, w')"
  shows "checked_add (pa_next_token_id (vw_authority w)) 1 = Some (pa_next_token_id (vw_authority w'))"
    "checked_add (rg_next_id (pa_registry (vw_authority w))) 1 = Some (rg_next_id (pa_registry (vw_authority w')))"
    "rg_destroyed (pa_registry (vw_authority w')) = rg_destroyed (pa_registry (vw_authority w))"
    "rg_max_pins (pa_registry (vw_authority w')) = rg_max_pins (pa_registry (vw_authority w))"
proof -
  let ?a = "vw_authority w"
  from assms obtain p a1 t p' a2 v a3 where e: "authority_prepare target root r ?a = Inr (p, a1)"
    "prepared_seal p a1 = Inr (t, p', a2)" "authority_publish_once t a2 = (Inr v, a3)"
    and w': "vw_authority w' = view_drop v a3"
    by (auto simp: act_publish_def split: sum.splits prod.splits)
  have 1: "checked_add (pa_next_token_id ?a) 1 = Some (pa_next_token_id a1)" "pa_pins a1 = pa_pins ?a"
    using e(1) by (auto simp: authority_prepare_def result_iff Let_def split: if_splits)
  have 2: "pa_next_token_id a2 = pa_next_token_id a1" "checked_add (rg_next_id (pa_registry a1)) 1 = Some (rg_next_id (pa_registry a2))"
    "rg_destroyed (pa_registry a2) = rg_destroyed (pa_registry a1)" "rg_max_pins (pa_registry a2) = rg_max_pins (pa_registry a1)"
    using e(2) by (auto simp: prepared_seal_def result_iff try_pin_def Let_def pa_with_registry_def split: if_splits)
  have 3: "pa_next_token_id a3 = pa_next_token_id a2" "rg_next_id (pa_registry a3) = rg_next_id (pa_registry a2)"
    "rg_destroyed (pa_registry a3) = rg_destroyed (pa_registry a2)" "rg_max_pins (pa_registry a3) = rg_max_pins (pa_registry a2)"
    using e(3) by (auto simp: authority_publish_once_def Let_def pa_with_registry_def pin_counts_kept split: if_splits prod.splits)
      (metis pin_counts_kept snd_conv)+
  from 1 2 3 show "checked_add (pa_next_token_id ?a) 1 = Some (pa_next_token_id (vw_authority w'))"
    "checked_add (rg_next_id (pa_registry ?a)) 1 = Some (rg_next_id (pa_registry (vw_authority w')))"
    "rg_destroyed (pa_registry (vw_authority w')) = rg_destroyed (pa_registry ?a)"
    "rg_max_pins (pa_registry (vw_authority w')) = rg_max_pins (pa_registry ?a)"
    by (simp_all add: w' view_drop_def pa_with_registry_def pin_counts_kept)
qed


text \<open>A sealed candidate for the running sample world: one ready section, and another one dirty.\<close>

definition stocked_root :: published_state_root where
  "stocked_root = published_root_new
     \<lparr>rs_schema_id = REVISION_STAMP_SCHEMA, rs_world_id = ''w'', rs_context_id = ''ctx'',
      rs_generation = 7, rs_world_revision = 3, rs_section_revision_set = fmempty\<rparr>
     (fmupd (SectionId 1 2 3) (SlotReady sample_section) fmempty)
     \<lparr>df_world_id = ''w'', df_generation = 7, df_entries = fmupd (SectionId 0 0 0)
        \<lparr>de_first = 2, de_latest = 3, de_reason = ''mutation''\<rparr> fmempty\<rparr>"

definition stocked_candidate :: restore_candidate where
  "stocked_candidate = \<lparr>rx_root = stocked_root, rx_replacement = replacement_from_slots fmempty, rx_world_revision = 3,
     rx_config_hash = cs_config_hash live_snapshot,
     rx_candidate_hash = projr (candidate_fingerprint stocked_root (replacement_from_slots fmempty) (cs_config_hash live_snapshot))\<rparr>"

lemma stocked_parts:
  "rs_world_revision (ps_stamp stocked_root) = 3" "rs_schema_id (ps_stamp stocked_root) = REVISION_STAMP_SCHEMA"
  "rs_world_id (ps_stamp stocked_root) = ''w''" "rs_context_id (ps_stamp stocked_root) = ''ctx''"
  "rs_generation (ps_stamp stocked_root) = 7"
  "ps_directory stocked_root = fmupd (SectionId 1 2 3) (SlotReady sample_section) fmempty"
  "df_entries (ps_dirty_frontier stocked_root) = fmupd (SectionId 0 0 0) \<lparr>de_first = 2, de_latest = 3, de_reason = ''mutation''\<rparr> fmempty"
  "df_world_id (ps_dirty_frontier stocked_root) = ''w''" "df_generation (ps_dirty_frontier stocked_root) = 7"
  by (simp_all add: stocked_root_def published_root_new_def Let_def)

lemma run_admits: "write_admissible ''Running''" "query_admissible ''Running''"
  by (simp_all add: write_admissible_def query_admissible_def intern_or_bug_def intern_session_state_def SESSION_TRANSITIONS_def)

lemma stocked_restorable: "restorable stocked_candidate running_world"
proof -
  obtain h where "candidate_fingerprint stocked_root (replacement_from_slots fmempty) (cs_config_hash live_snapshot) = Inr h"
    using candidate_hash_total by blast
  then have "candidate_hash_matches stocked_candidate" by (simp add: candidate_hash_matches_def stocked_candidate_def)
  then show ?thesis
    using running_fields running_parts(4) run_admits stocked_parts
    by (simp add: restorable_def stocked_candidate_def)
qed

lemma no_room_needed: "size ({#} :: published_read_view multiset) + op_room < usize_max"
  by (simp add: op_room_def)

lemma running_identity: "length (ps_identity (world_root running_world)) = 32"
proof -
  note c = create_cases [OF live_created [unfolded world_create_def]]
  obtain root where root: "initial_root ''w'' ''ctx'' 7 = Inr root"
    "authority_new ''w'' ''ctx'' 7 (registry_from_approved_snapshot live_snapshot 64 ''ctx'' 7) root = Inr (vw_authority live_world)"
    by (rule c) (simp add: live_descriptor_def default_limits_def)
  then show ?thesis using owner_new [OF root(2)]
    by (auto simp: running_world_def initial_root_def dirty_frontier_new_def published_root_new_def Let_def fingerprint_def)
qed

theorem restore_all_or_nothing_witness:
  "\<exists>rc w'. world_restore stocked_candidate running_world = Some (Inr rc, w') \<and>
     rs_world_revision (ps_stamp (world_root w')) = 3"
  using restore_all_or_nothing [OF live_reach(2) no_room_needed, of stocked_candidate] stocked_restorable stocked_parts(1)
  by (fastforce simp: restored_def stocked_candidate_def split: sum.split_asm)

text \<open>The world after that restore.\<close>

lemma restore_publish_success:
  assumes "world_ok w V" "size V + 2 < usize_max" "restore_publish c w = Some (Inr rc, w')"
  shows "\<exists>n w1. act_publish (rx_world_revision c) (rx_root c) (rx_replacement c) w = Some (Inr n, w1) \<and>
    vw_authority w' = vw_authority w1"
proof -
  from assms(3) obtain v w1 w2 n w3 where "world_capture w = (v, w1)" "w2 = world_drop v w1"
    "act_publish (rx_world_revision c) (rx_root c) (rx_replacement c) w2 = Some (Inr n, w3)" "vw_authority w' = vw_authority w3"
    by (auto simp: restore_publish_def act_success into_publication_def)
  with look_leaves_nothing [OF assms(1,2)] show ?thesis by auto
qed

lemma running_counts:
  "pa_next_token_id (vw_authority running_world) = 0 \<and> rg_next_id (pa_registry (vw_authority running_world)) = 1"
proof -
  note c = create_cases [OF live_created [unfolded world_create_def]]
  obtain root where "authority_new ''w'' ''ctx'' 7 (registry_from_approved_snapshot live_snapshot 64 ''ctx'' 7) root = Inr (vw_authority live_world)"
    by (rule c) (simp add: live_descriptor_def default_limits_def)
  then show ?thesis
    by (auto simp: running_world_def authority_new_def result_iff try_pin_def registry_from_approved_snapshot_def
        checked_add_def split: if_splits dest!: sym [where t = "vw_authority live_world"])
qed

lemma stocked_world:
  obtains u where "world_reach u {#}" "vw_state u = ''Running''" "vw_world_id u = ''w''" "vw_context_id u = ''ctx''"
    "vw_generation u = 7" "world_root u = incorporate_replacement (replacement_from_slots fmempty) stocked_root"
    "can_publish (vw_authority u)" "vw_region_pins u = None"
proof -
  obtain r u where run: "world_restore stocked_candidate running_world = Some (r, u)" "moved running_world u"
    using reach_answers [OF live_reach(2) no_room_needed restore_ok] unfolding answers_def by blast
  then obtain rc where r: "r = Inr rc" and res: "restored stocked_candidate running_world rc u"
    using restore_decides [OF live_reach(2) no_room_needed, of stocked_candidate] stocked_restorable
    by (cases r) auto
  have reach: "world_reach u {#}" by (rule reach_step [OF live_reach(2) no_room_needed step_restore [OF run(1)]])
  let ?w = "running_world\<lparr>vw_write_occupied := True\<rparr>"
  have ok: "world_ok ?w {#}" using world_reach_inv [OF live_reach(2)] by (simp add: world_inv_def world_ok_def)
  obtain b where b: "restore_publish stocked_candidate ?w = Some (Inr rc, b)" "vw_authority u = vw_authority b"
    using run(1) unfolding r by (auto simp: world_restore_def act_success)
  obtain n w1 where pub: "act_publish 3 stocked_root (replacement_from_slots fmempty) ?w = Some (Inr n, w1)"
    "vw_authority b = vw_authority w1"
    using restore_publish_success [OF ok _ b(1)] by (auto simp: stocked_candidate_def)
  note counts = act_publish_counts [OF pub(1), folded pub(2) b(2)]
  have t: "pa_next_token_id (vw_authority running_world) = 0" "rg_next_id (pa_registry (vw_authority running_world)) = 1"
    using running_counts by simp_all
  have "fm_len (rg_slots (pa_registry (vw_authority u))) \<le> 1"
    using world_reach_inv [OF reach] pub_reach_slots by (fastforce simp: world_inv_def world_ok_def)
  with counts t running_parts(4,5) have "can_publish (vw_authority u)"
    by (auto simp: can_publish_def checked_add_def split: if_splits)
  then show thesis
    using that [OF reach] res moved_fields [OF run(2)] running_fields
    by (simp add: restored_def stocked_candidate_def running_world_def live_fields)
qed


theorem unload_exactly_when_due_witness:
  "\<exists>u rc u'. world_reach u {#} \<and> unload_section ''s:1:2:3'' (\<lambda>_. Inr ()) u = Some (Inr rc, u') \<and>
     fmlookup (ps_directory (world_root u)) (SectionId 1 2 3) = Some (SlotReady sample_section) \<and>
     fmlookup (ps_directory (world_root u')) (SectionId 1 2 3) = Some SlotUnchanged"
proof -
  obtain u where u: "world_reach u {#}" "vw_state u = ''Running''" "can_publish (vw_authority u)" "vw_region_pins u = None"
    "world_root u = incorporate_replacement (replacement_from_slots fmempty) stocked_root" by (rule stocked_world)
  have wf: "\<forall>k. fm_has (ps_directory (world_root u)) k \<longrightarrow> section_id_wf k"
    using sample_key by (auto simp: u(5) stocked_parts section_key_of_Inr split: if_splits)
  have due: "unloadable ''s:1:2:3'' (\<lambda>_. Inr ()) u (SectionId 1 2 3)"
    using u run_admits sample_key by (simp add: unloadable_def stocked_parts)
  obtain q u' where q: "unload_section ''s:1:2:3'' (\<lambda>_. Inr ()) u = Some (q, u')"
    "case q of Inr rc \<Rightarrow> \<exists>i. unloadable ''s:1:2:3'' (\<lambda>_. Inr ()) u i \<and> unloaded i ''s:1:2:3'' u rc u'
     | Inl e \<Rightarrow> (\<nexists>i. unloadable ''s:1:2:3'' (\<lambda>_. Inr ()) u i) \<and> world_root u' = world_root u"
    using unload_exactly_when_due [OF u(1) no_room_needed wf, of "''s:1:2:3''" "\<lambda>_. Inr ()"] by blast
  from q due obtain rc i where r: "unload_section ''s:1:2:3'' (\<lambda>_. Inr ()) u = Some (Inr rc, u')"
    "unloadable ''s:1:2:3'' (\<lambda>_. Inr ()) u i" "unloaded i ''s:1:2:3'' u rc u'" by (cases q) auto
  have "i = SectionId 1 2 3" using r(2) sample_key by (simp add: unloadable_def)
  with r(3) have "fmlookup (ps_directory (world_root u')) (SectionId 1 2 3) = Some SlotUnchanged"
    by (simp add: unloaded_def)
  moreover have "fmlookup (ps_directory (world_root u)) (SectionId 1 2 3) = Some (SlotReady sample_section)"
    by (simp add: u(5) stocked_parts)
  ultimately show ?thesis using r(1) u(1) by blast
qed

definition stocked_ack :: ack_evidence where
  "stocked_ack = \<lparr>ae_kind = ACK_KIND, ae_world_id = ''w'',
     ae_context = \<lparr>ac_context_id = ''ctx'', ac_generation = 7\<rparr>, ae_covered_world_revision = 3,
     ae_covered_sections = [\<lparr>ca_section_id = ''s:0:0:0'', ca_up_to_section_revision = 3\<rparr>]\<rparr>"

lemma zero_key: "dirty_parse_section ''s:0:0:0'' = Inr (SectionId 0 0 0)"
proof -
  have "section_id_key (SectionId 0 0 0) = ''s:0:0:0''" by code_simp
  then show ?thesis by (simp add: dirty_parse_section_Inr section_id_wf_def)
qed

theorem ack_exactly_when_due_witness:
  "\<exists>u rc u'. world_reach u {#} \<and> apply_durability_ack stocked_ack u = Some (Inr rc, u') \<and>
     fm_has (df_entries (ps_dirty_frontier (world_root u))) (SectionId 0 0 0) \<and>
     \<not> fm_has (df_entries (ps_dirty_frontier (world_root u'))) (SectionId 0 0 0)"
proof -
  obtain u where u: "world_reach u {#}" "vw_state u = ''Running''" "can_publish (vw_authority u)"
    "world_root u = incorporate_replacement (replacement_from_slots fmempty) stocked_root"
    "vw_world_id u = ''w''" "vw_context_id u = ''ctx''" "vw_generation u = 7" by (rule stocked_world)
  have bound: "rfold collect_bound (ae_covered_sections stocked_ack) fmempty = Inr (fmupd (SectionId 0 0 0) 3 fmempty)"
    by (simp add: stocked_ack_def collect_bound_def zero_key)
  have "\<exists>cov. rfold (cover_entry (fmupd (SectionId 0 0 0) 3 fmempty)) (fm_entries (df_entries (ps_dirty_frontier stocked_root))) fmempty = Inr cov"
    unfolding cover_entries by (auto simp: set_fm_entries stocked_parts split: if_splits)
  moreover have ack: "ae_kind stocked_ack = ACK_KIND" "ae_world_id stocked_ack = ''w''" "ac_context_id (ae_context stocked_ack) = ''ctx''"
    "ac_generation (ae_context stocked_ack) = 7" "ae_covered_world_revision stocked_ack = 3"
    by (simp_all add: stocked_ack_def)
  ultimately obtain cov where cov: "dirty_covered_by (ps_dirty_frontier stocked_root) stocked_ack = Inr cov"
    using bound stocked_parts(8,9) by (auto simp: dirty_covered_by_def)
  have due: "acknowledgeable stocked_ack u cov"
    using u cov run_admits by (simp add: acknowledgeable_def stocked_parts(1) ack)
  obtain q u' where q: "apply_durability_ack stocked_ack u = Some (q, u')"
    "case q of Inr rc \<Rightarrow> \<exists>d. acknowledgeable stocked_ack u d \<and> acknowledged stocked_ack d u rc u'
     | Inl e \<Rightarrow> (\<nexists>d. acknowledgeable stocked_ack u d) \<and> world_root u' = world_root u"
    using ack_exactly_when_due [OF u(1) no_room_needed, of stocked_ack] by blast
  from q due obtain rc d where r: "apply_durability_ack stocked_ack u = Some (Inr rc, u')" "acknowledged stocked_ack d u rc u'"
    by (cases q) auto
  have "declares stocked_ack (SectionId 0 0 0) 3" by (simp add: declares_def stocked_ack_def zero_key)
  with r(2) have "fmlookup (df_entries (ps_dirty_frontier (world_root u'))) (SectionId 0 0 0) = None"
    unfolding acknowledged_def by auto
  moreover have "fm_has (df_entries (ps_dirty_frontier (world_root u))) (SectionId 0 0 0)"
    by (simp add: u(4) stocked_parts)
  ultimately show ?thesis using r(1) u(1) by auto
qed

lemma running_capture:
  "\<exists>rtc c ev w'. capture_cut rtc running_world = Some (Inr (c, ev), w')"
proof -
  define rtc where "rtc = \<lparr>rc_cut_id = ''cut'', rc_world_id = ''w'', rc_context_id = ''ctx'', rc_generation = 7,
    rc_world_revision = 0, rc_config_hash = cs_config_hash live_snapshot, rc_artifact_hash = ps_identity (world_root running_world)\<rparr>"
  have hash: "is_hash256 (cs_config_hash live_snapshot)" by (simp add: live_snapshot_def is_hash256_def list_all_iff)
  have adm: "capture_admit rtc running_world = Inr ()"
    using hash running_fields run_admits by (simp add: capture_admit_def rtc_def)
  obtain v w1 where c: "world_capture running_world = (v, w1)" by (cases "world_capture running_world")
  note k = capture_keeps [OF c]
  obtain P where P: "pub_reach (vw_authority running_world) P {#} {#}"
    using world_reach_inv [OF live_reach(2)] by (auto simp: world_inv_def world_ok_def)
  have lease: "lease_stamp (rv_lease v) = view_stamp v"
    using c pub_reach_ok [OF P] by (auto simp: world_capture_iff authority_capture_iff pub_ok_def cut_ok_def view_from_parts_def
        lease_from_pin_def lease_stamp_def view_stamp_def)
  let ?w = "w1\<lparr>vw_write_occupied := True\<rparr>"
  have valid: "validate_against_view rtc v = Inr ()"
    using lease running_parts(1) k(3) by (simp add: validate_against_view_def Let_def view_stamp_def rtc_def)
  have "\<exists>x w2. capture_view rtc v ?w = Some (Inr x, w2)"
  proof -
    have "capture_ref_new v (LeaseHeld \<lparr>rl_pin = rl_pin (rv_lease v)\<rparr>) (cut_evidence_of rtc) =
        Inr \<lparr>vc_root = rv_root v, vc_pin = LeaseHeld \<lparr>rl_pin = rl_pin (rv_lease v)\<rparr>, vc_config_hash = cs_config_hash live_snapshot\<rparr>"
      using lease hash running_parts(1) k(3)
      by (simp add: capture_ref_new_Inr cut_evidence_of_def rtc_def view_stamp_def lease_stamp_def)
    then show ?thesis by (simp add: capture_view_def pin_clone_def Let_def)
  qed
  then obtain x w2 where "capture_view rtc v ?w = Some (Inr x, w2)" by blast
  moreover have "\<not> vw_write_occupied w1" "admit_scope ScopeCaptureCut ?w = Inr ()"
    using c k(4) running_fields run_admits by (auto simp: world_capture_iff admit_scope_def)
  ultimately have "capture_cut rtc running_world = Some (Inr x, world_drop v (w2\<lparr>vw_write_occupied := False\<rparr>))"
    using adm valid c by (simp add: capture_cut_def act_bind_def act_lift_def act_with_view_def with_scope_def act_occupied_def
        lease_enter_def)
  then show ?thesis by (cases x) blast
qed


theorem world_restores_to_capture_witness:
  "\<exists>rtc c ev w' m buf d x rc u'. capture_cut rtc running_world = Some (Inr (c, ev), w') \<and>
     encode_capture mw_cancelled memory_write c (memory_writer_new 9000) = (Inr m, buf) \<and>
     preflight_validate (memory_as_slice buf) ''w'' 7 live_snapshot = Inr d \<and> shadow_build d = Inr x \<and>
     world_restore x running_world = Some (Inr rc, u') \<and>
     ps_stamp (world_root u') = ps_stamp (world_root running_world)"
proof -
  obtain rtc c ev w' where cap: "capture_cut rtc running_world = Some (Inr (c, ev), w')" using running_capture by blast
  note c = capture_cut_Inr [OF cap]
  have st: "capture_stamp c = ps_stamp (world_root running_world)" by (simp add: capture_stamp_def c(1))
  have keys: "stamp_keys_ok (capture_stamp c)" by (simp add: st running_parts stamp_keys_ok_def)
  have len: "length (capture_root_identity c) = 32"
    by (simp add: capture_root_identity_def c(1) running_identity)
  have h: "length (vc_config_hash c) \<le> 64" by (simp add: c(2) running_fields live_snapshot_def)
  obtain r buf where e: "encode_capture mw_cancelled memory_write c (memory_writer_new 9000) = (r, buf)" by force
  have "length (encode_bytes (manifest_of (capture_stamp c) (vc_config_hash c) (capture_root_identity c))) \<le> 9000"
    by (rule sectionless_manifest_bound [OF _ _ _ h len]) (simp_all add: st running_parts)
  then obtain m where m: "r = Inr m" using encode_into_memory [OF c(3) _ _ e] c(4,7) by auto
  have str: "str_ok (vw_world_id running_world)" "str_ok (vw_context_id running_world)"
    by (simp_all add: running_fields str_ok_ascii byte_of_def)
  have run: "write_admissible (vw_state running_world)" by (simp add: running_fields run_admits)
  have limit: "9000 < usize_max" by simp
  from world_restores_to_capture [OF cap live_reach(2) no_room_needed refl refl refl refl run running_parts(4) live_reach(2)
      keys len str limit e [unfolded m]]
  obtain d x rc u' where "preflight_validate (memory_as_slice buf) (vw_world_id running_world) (vw_generation running_world)
      (vw_snapshot running_world) = Inr d" "shadow_build d = Inr x" "world_restore x running_world = Some (Inr rc, u')"
    "ps_stamp (world_root u') = ps_stamp (world_root running_world)" by blast
  with cap e m show ?thesis unfolding running_fields by blast
qed

end
