(* ===== verification/Float32.thy ===== *)
theory Float32
  imports Prelude
begin

text \<open>
  The language's \<open>f32\<close>: IEEE 754 binary32 with rounding to nearest, ties to even. A finite value
  is a sign and a magnitude in units of \<open>2 ^ -149\<close>, the least positive value; the representable
  magnitudes are the integers below \<open>2 ^ 277\<close> with at most 24 significant bits. There is one NaN:
  its sign and payload are not fixed by the language and nothing here depends on them.
\<close>

section \<open>Values and rounding\<close>

datatype f32 = FNaN | FInf bool | FFin bool int

definition f_unit :: int where "f_unit = 2 ^ 149"
definition f_limit :: int where "f_limit = 2 ^ 277"
definition f_precision :: int where "f_precision = 2 ^ 24"

text \<open>The quotient rounded to the nearest integer, a tie to the even one.\<close>

definition round_even :: "int \<Rightarrow> int \<Rightarrow> int" where
  "round_even p q =
     (let d = p div q; r = p mod q in
      if 2 * r < q \<or> (2 * r = q \<and> even d) then d else d + 1)"

text \<open>The weight of the last bit kept of an integer: how far it exceeds the precision.\<close>

function last_bit :: "int \<Rightarrow> int" where
  "last_bit a = (if f_precision \<le> a then 2 * last_bit (a div 2) else 1)"
  by pat_completeness auto
termination by (relation "measure nat") (simp_all add: f_precision_def)

declare last_bit.simps [simp del]

text \<open>The value \<open>p / q\<close> units away from zero, rounded.\<close>

definition f_round :: "bool \<Rightarrow> int \<Rightarrow> int \<Rightarrow> f32" where
  "f_round neg p q =
     (let w = last_bit (p div q); n = round_even p (q * w) * w in
      if f_limit \<le> n then FInf neg else FFin neg n)"

definition f_of_quotient :: "int \<Rightarrow> int \<Rightarrow> f32" where
  "f_of_quotient p q = f_round (p < 0) (\<bar>p\<bar> * f_unit) q"

definition f_of_int :: "int \<Rightarrow> f32" where
  "f_of_int i = f_of_quotient i 1"

section \<open>Operations\<close>

fun signed_units :: "bool \<Rightarrow> int \<Rightarrow> int" where
  "signed_units neg n = (if neg then - n else n)"

fun f_neg :: "f32 \<Rightarrow> f32" where
  "f_neg FNaN = FNaN"
| "f_neg (FInf s) = FInf (\<not> s)"
| "f_neg (FFin s n) = FFin (\<not> s) n"

fun f_abs :: "f32 \<Rightarrow> f32" where
  "f_abs FNaN = FNaN"
| "f_abs (FInf s) = FInf False"
| "f_abs (FFin s n) = FFin False n"

text \<open>An exact sum of units over a common divisor; an exact zero is negative only if both terms are.\<close>

definition f_sum :: "bool \<Rightarrow> bool \<Rightarrow> int \<Rightarrow> int \<Rightarrow> f32" where
  "f_sum s t units q = (if units = 0 then FFin (s \<and> t) 0 else f_round (units < 0) \<bar>units\<bar> q)"

fun f_add :: "f32 \<Rightarrow> f32 \<Rightarrow> f32" where
  "f_add (FFin s n) (FFin t m) = f_sum s t (signed_units s n + signed_units t m) 1"
| "f_add (FInf s) (FFin t m) = FInf s"
| "f_add (FFin s n) (FInf t) = FInf t"
| "f_add (FInf s) (FInf t) = (if s = t then FInf s else FNaN)"
| "f_add FNaN y = FNaN"
| "f_add x FNaN = FNaN"

definition f_sub :: "f32 \<Rightarrow> f32 \<Rightarrow> f32" where
  "f_sub x y = f_add x (f_neg y)"

fun f_mul :: "f32 \<Rightarrow> f32 \<Rightarrow> f32" where
  "f_mul (FFin s n) (FFin t m) = f_round (s \<noteq> t) (n * m) f_unit"
| "f_mul (FInf s) (FFin t m) = (if m = 0 then FNaN else FInf (s \<noteq> t))"
| "f_mul (FFin s n) (FInf t) = (if n = 0 then FNaN else FInf (s \<noteq> t))"
| "f_mul (FInf s) (FInf t) = FInf (s \<noteq> t)"
| "f_mul FNaN y = FNaN"
| "f_mul x FNaN = FNaN"

fun f_div :: "f32 \<Rightarrow> f32 \<Rightarrow> f32" where
  "f_div (FFin s n) (FFin t m) =
     (if m = 0 then (if n = 0 then FNaN else FInf (s \<noteq> t)) else f_round (s \<noteq> t) (n * f_unit) m)"
| "f_div (FInf s) (FFin t m) = FInf (s \<noteq> t)"
| "f_div (FFin s n) (FInf t) = FFin (s \<noteq> t) 0"
| "f_div (FInf s) (FInf t) = FNaN"
| "f_div FNaN y = FNaN"
| "f_div x FNaN = FNaN"

text \<open>\<open>x.mul_add(y, z)\<close>: one rounding of the exact product and sum.\<close>

fun f_mul_add :: "f32 \<Rightarrow> f32 \<Rightarrow> f32 \<Rightarrow> f32" where
  "f_mul_add (FFin s n) (FFin t m) (FFin u k) =
     f_sum (s \<noteq> t) u (signed_units (s \<noteq> t) (n * m) + signed_units u k * f_unit) f_unit"
| "f_mul_add (FFin s n) (FFin t m) z = z"
| "f_mul_add x y z = f_add (f_mul x y) z"

text \<open>The integer square root, and the square root rounded from it.\<close>

fun int_sqrt :: "int \<Rightarrow> int" where
  "int_sqrt n =
     (if n \<le> 0 then 0
      else let r = 2 * int_sqrt (n div 4) in if (r + 1) * (r + 1) \<le> n then r + 1 else r)"

declare int_sqrt.simps [simp del]

definition round_sqrt :: "int \<Rightarrow> int \<Rightarrow> int" where
  "round_sqrt n w =
     (let d = int_sqrt n div w; half = (2 * d + 1) * w in
      if 4 * n < half * half \<or> (4 * n = half * half \<and> even d) then d else d + 1)"

fun f_sqrt :: "f32 \<Rightarrow> f32" where
  "f_sqrt FNaN = FNaN"
| "f_sqrt (FInf s) = (if s then FNaN else FInf False)"
| "f_sqrt (FFin s n) =
     (if n = 0 then FFin s 0 else if s then FNaN
      else let w = last_bit (int_sqrt (n * f_unit)) in FFin False (round_sqrt (n * f_unit) w * w))"

section \<open>Comparisons\<close>

text \<open>The order of the values that are not NaN; the two zeros are equal.\<close>

fun f_key :: "f32 \<Rightarrow> int" where
  "f_key FNaN = 0"
| "f_key (FInf s) = signed_units s f_limit"
| "f_key (FFin s n) = signed_units s n"

definition f_lt :: "f32 \<Rightarrow> f32 \<Rightarrow> bool" where
  "f_lt x y \<longleftrightarrow> x \<noteq> FNaN \<and> y \<noteq> FNaN \<and> f_key x < f_key y"

definition f_le :: "f32 \<Rightarrow> f32 \<Rightarrow> bool" where
  "f_le x y \<longleftrightarrow> x \<noteq> FNaN \<and> y \<noteq> FNaN \<and> f_key x \<le> f_key y"

abbreviation f_gt :: "f32 \<Rightarrow> f32 \<Rightarrow> bool" where "f_gt x y \<equiv> f_lt y x"
abbreviation f_ge :: "f32 \<Rightarrow> f32 \<Rightarrow> bool" where "f_ge x y \<equiv> f_le y x"

text \<open>\<open>total_cmp\<close> also orders the zeros, and puts a NaN of positive sign last.\<close>

fun f_total_key :: "f32 \<Rightarrow> int" where
  "f_total_key FNaN = f_limit + 1"
| "f_total_key (FInf s) = (if s then - f_limit - 1 else f_limit)"
| "f_total_key (FFin s n) = (if s then - n - 1 else n)"

definition f_is_finite :: "f32 \<Rightarrow> bool" where
  "f_is_finite x \<longleftrightarrow> (case x of FFin _ _ \<Rightarrow> True | _ \<Rightarrow> False)"

text \<open>
  \<open>max\<close>, \<open>min\<close> and \<open>clamp\<close>; which of two equal zeros is returned is not fixed by the language, and
  nothing here depends on it.
\<close>

definition f_max :: "f32 \<Rightarrow> f32 \<Rightarrow> f32" where
  "f_max x y = (if x = FNaN then y else if y = FNaN then x else if f_lt x y then y else x)"

definition f_min :: "f32 \<Rightarrow> f32 \<Rightarrow> f32" where
  "f_min x y = (if x = FNaN then y else if y = FNaN then x else if f_lt y x then y else x)"

definition f_clamp :: "f32 \<Rightarrow> f32 \<Rightarrow> f32 \<Rightarrow> f32" where
  "f_clamp lo hi x = (if f_lt x lo then lo else if f_lt hi x then hi else x)"

fun f_floor :: "f32 \<Rightarrow> f32" where
  "f_floor FNaN = FNaN"
| "f_floor (FInf s) = FInf s"
| "f_floor (FFin s n) =
     (if s then FFin True (- (- n div f_unit) * f_unit) else FFin False (n div f_unit * f_unit))"

fun f_signum :: "f32 \<Rightarrow> f32" where
  "f_signum FNaN = FNaN"
| "f_signum (FInf s) = FFin s f_unit"
| "f_signum (FFin s n) = FFin s f_unit"

text \<open>\<open>as i32\<close> truncates and saturates, and takes NaN to zero.\<close>

fun f_truncated :: "f32 \<Rightarrow> int" where
  "f_truncated FNaN = 0"
| "f_truncated (FInf s) = signed_units s (2 ^ 31)"
| "f_truncated (FFin s n) = signed_units s (n div f_unit)"

definition f_to_i32 :: "f32 \<Rightarrow> i32" where
  "f_to_i32 x = of_int (max (- (2 ^ 31)) (min (2 ^ 31 - 1) (f_truncated x)))"

definition f_of_i32 :: "i32 \<Rightarrow> f32" where
  "f_of_i32 i = f_of_int (sint i)"

section \<open>The constants of the code\<close>

definition f_zero :: f32 where "f_zero = FFin False 0"
definition f_one :: f32 where "f_one = f_of_int 1"
definition f_half :: f32 where "f_half = f_of_quotient 1 2"
definition f_infinity :: f32 where "f_infinity = FInf False"

section \<open>Rounding is to the nearest representable value\<close>

text \<open>The magnitudes a finite value can have.\<close>

definition f_magnitude :: "int \<Rightarrow> bool" where
  "f_magnitude n \<longleftrightarrow> 0 \<le> n \<and> n < f_limit \<and> (\<exists>k m. n = m * 2 ^ k \<and> 0 \<le> m \<and> m < f_precision)"

lemma last_bit_spec:
  assumes "0 \<le> a"
  shows "\<exists>k. last_bit a = 2 ^ k \<and> a div 2 ^ k < f_precision \<and> (k = 0 \<or> f_precision \<le> 2 * (a div 2 ^ k))"
  using assms
proof (induction a rule: last_bit.induct)
  case (1 a)
  show ?case
  proof (cases "f_precision \<le> a")
    case True
    then obtain k where k: "last_bit (a div 2) = 2 ^ k" "a div 2 div 2 ^ k < f_precision"
      "k = 0 \<or> f_precision \<le> 2 * (a div 2 div 2 ^ k)" using 1 by auto
    have eq: "a div 2 div 2 ^ k = a div 2 ^ Suc k" by (simp add: zdiv_zmult2_eq)
    have "f_precision \<le> 2 * (a div 2)" using True by (simp add: f_precision_def)
    then have "f_precision \<le> 2 * (a div 2 ^ Suc k)" using k(3) eq by auto
    with True k eq show ?thesis
      by (intro exI [of _ "Suc k"]) (simp add: last_bit.simps [of a])
  qed (auto simp: last_bit.simps [of a] intro: exI [of _ 0])
qed

lemma round_even_close:
  assumes "0 < q"
  shows "2 * \<bar>round_even p q * q - p\<bar> \<le> q"
proof -
  have m: "p = p div q * q + p mod q" "0 \<le> p mod q" "p mod q < q" using assms by simp_all
  have "round_even p q * q - p = (if round_even p q = p div q then - (p mod q) else q - p mod q)"
    using m(1) by (auto simp: round_even_def Let_def algebra_simps)
  moreover have "round_even p q = p div q \<Longrightarrow> 2 * (p mod q) \<le> q"
    "round_even p q \<noteq> p div q \<Longrightarrow> q \<le> 2 * (p mod q)"
    by (auto simp: round_even_def Let_def split: if_splits)
  ultimately show ?thesis using m(2,3) by (auto split: if_splits)
qed

lemma round_even_nearest:
  assumes "0 < q"
  shows "\<bar>round_even p q * q - p\<bar> \<le> \<bar>m * q - p\<bar>"
proof (cases "m = round_even p q")
  case False
  then have "q \<le> \<bar>(m - round_even p q) * q\<bar>" using assms by (simp add: abs_mult)
  also have "\<dots> \<le> \<bar>m * q - p\<bar> + \<bar>round_even p q * q - p\<bar>" by (simp add: left_diff_distrib)
  finally have "2 * \<bar>round_even p q * q - p\<bar> \<le> \<bar>m * q - p\<bar> + \<bar>round_even p q * q - p\<bar>"
    using round_even_close [OF assms, of p] by (rule order_trans [rotated])
  then show ?thesis by (simp only: mult_2 add_le_cancel_right)
qed simp

lemma round_even_exact: "0 < q \<Longrightarrow> round_even (n * q) q = n"
  by (simp add: round_even_def)

lemma round_even_bounds:
  assumes "0 < q" "0 \<le> p" "p div q < b"
  shows "0 \<le> round_even p q" "round_even p q \<le> b"
  using assms by (auto simp: round_even_def Let_def pos_imp_zdiv_nonneg_iff)

text \<open>The last bit of a quotient, with what is left of the quotient above it.\<close>

lemma quotient_bits:
  assumes "0 \<le> p" "0 < q"
  obtains k where "last_bit (p div q) = 2 ^ k" "p div (q * 2 ^ k) < f_precision"
    "k = 0 \<or> f_precision \<le> 2 * (p div (q * 2 ^ k))"
  using last_bit_spec [of "p div q"] assms by (auto simp: zdiv_zmult2_eq pos_imp_zdiv_nonneg_iff)

lemma f_round_magnitude:
  assumes "0 \<le> p" "0 < q" "f_round neg p q = FFin s n"
  shows "f_magnitude n"
proof -
  obtain k where k: "last_bit (p div q) = 2 ^ k" "p div (q * 2 ^ k) < f_precision" by (rule quotient_bits [OF assms(1,2)])
  let ?r = "round_even p (q * 2 ^ k)"
  have n: "n = ?r * 2 ^ k" "n < f_limit" using assms(3) k(1) by (auto simp: f_round_def Let_def split: if_splits)
  have r: "0 \<le> ?r" "?r \<le> f_precision" using round_even_bounds [of "q * 2 ^ k" p f_precision] assms k(2) by simp_all
  show ?thesis
  proof (cases "?r = f_precision")
    case True
    then have "n = 1 * 2 ^ (24 + k)" by (simp add: n(1) f_precision_def power_add)
    then show ?thesis unfolding f_magnitude_def using n(2)
      by (metis f_precision_def one_less_numeral_iff power_one_right semiring_norm(76) zero_le_one zero_le_numeral zero_le_power
          mult_1 one_less_power zero_less_numeral)
  next
    case False
    with r have "?r < f_precision" by simp
    with n r(1) show ?thesis unfolding f_magnitude_def by (metis mult_nonneg_nonneg zero_le_numeral zero_le_power)
  qed
qed

definition f_rounded :: "int \<Rightarrow> int \<Rightarrow> int" where
  "f_rounded p q = round_even p (q * last_bit (p div q)) * last_bit (p div q)"

lemma f_round_alt: "f_round neg p q = (if f_limit \<le> f_rounded p q then FInf neg else FFin neg (f_rounded p q))"
  by (simp add: f_round_def f_rounded_def Let_def)

lemma f_rounded_nearest:
  assumes "0 \<le> p" "0 < q" "f_magnitude m"
  shows "\<bar>f_rounded p q * q - p\<bar> \<le> \<bar>m * q - p\<bar>"
proof -
  obtain k where k: "last_bit (p div q) = 2 ^ k" "k = 0 \<or> f_precision \<le> 2 * (p div (q * 2 ^ k))"
    by (rule quotient_bits [OF assms(1,2)])
  let ?w = "2 ^ k :: int" and ?n = "f_rounded p q"
  have near: "\<bar>?n * q - p\<bar> \<le> \<bar>x * ?w * q - p\<bar>" for x
    using round_even_nearest [of "q * ?w" p x] assms(2) by (simp add: f_rounded_def k(1) algebra_simps)
  obtain j c where m: "m = c * 2 ^ j" "0 \<le> c" "c < f_precision" using assms(3) by (auto simp: f_magnitude_def)
  show ?thesis
  proof (cases "k \<le> j")
    case True
    then have "m = c * 2 ^ (j - k) * ?w" by (simp add: m(1) mult.assoc flip: power_add)
    then show ?thesis using near [of "c * 2 ^ (j - k)"] by simp
  next
    case False
    then have "k \<noteq> 0" by simp
    then have big: "f_precision \<le> 2 * (p div (q * ?w))" using k(2) by simp
    let ?h = "2 ^ 23 :: int"
    have "?h * (q * ?w) \<le> p"
    proof -
      have "?h \<le> p div (q * ?w)" using big by (simp add: f_precision_def)
      then have "?h * (q * ?w) \<le> p div (q * ?w) * (q * ?w)" using assms(2) by (intro mult_right_mono) simp_all
      also have "\<dots> \<le> p" using assms(2) by (metis minus_mod_eq_div_mult diff_le_eq le_add_same_cancel1
        Euclidean_Rings.pos_mod_sign zero_less_numeral zero_less_power mult_pos_pos)
      finally show ?thesis .
    qed
    moreover have "m * q \<le> ?h * ?w * q"
    proof -
      have "c * 2 ^ j \<le> f_precision * 2 ^ (k - 1)" using False m by (intro mult_mono) (simp_all add: power_increasing f_precision_def)
      also have "\<dots> = ?h * ?w" using \<open>k \<noteq> 0\<close> by (cases k) (simp_all add: f_precision_def)
      finally show ?thesis using assms(2) m(1) by (intro mult_right_mono) simp_all
    qed
    ultimately have "\<bar>?h * ?w * q - p\<bar> \<le> \<bar>m * q - p\<bar>" by (simp add: algebra_simps)
    then show ?thesis using near [of ?h] by simp
  qed
qed

lemma f_round_exact:
  assumes "f_magnitude n" "0 < q"
  shows "f_round neg (n * q) q = FFin neg n"
proof -
  have n: "0 \<le> n" "n < f_limit" using assms(1) by (simp_all add: f_magnitude_def)
  then have "\<bar>f_rounded (n * q) q * q - n * q\<bar> \<le> \<bar>n * q - n * q\<bar>"
    using assms by (intro f_rounded_nearest) simp_all
  then have "f_rounded (n * q) q = n" using assms(2) by simp
  with n show ?thesis by (simp add: f_round_alt)
qed

end
