(* ===== verification/Physics.thy ===== *)
theory Physics
  imports Float32 Pins
begin

text \<open>
  Physics queries over a snapshot of the published cut (project crate, \<open>physics_query.rs\<close>): rays
  through the block grid, boxes that overlap it and boxes swept through it, against the blocks whose
  material class the caller's mask selects and against registered bodies.
\<close>

section \<open>Vectors and boxes\<close>

definition EPSILON :: f32 where "EPSILON = f_of_quotient 1 1000000"

record vec3 =
  v_x :: f32
  v_y :: f32
  v_z :: f32

definition vec3_new :: "f32 \<Rightarrow> f32 \<Rightarrow> f32 \<Rightarrow> vec3" where
  "vec3_new x y z = \<lparr>v_x = x, v_y = y, v_z = z\<rparr>"

definition vec3_zero :: vec3 where "vec3_zero = vec3_new f_zero f_zero f_zero"

definition vec3_add :: "vec3 \<Rightarrow> vec3 \<Rightarrow> vec3" where
  "vec3_add a b = vec3_new (f_add (v_x a) (v_x b)) (f_add (v_y a) (v_y b)) (f_add (v_z a) (v_z b))"

definition vec3_scale :: "vec3 \<Rightarrow> f32 \<Rightarrow> vec3" where
  "vec3_scale a s = vec3_new (f_mul (v_x a) s) (f_mul (v_y a) s) (f_mul (v_z a) s)"

definition vec3_length :: "vec3 \<Rightarrow> f32" where
  "vec3_length a =
     f_sqrt (f_mul_add (v_x a) (v_x a) (f_mul_add (v_y a) (v_y a) (f_mul (v_z a) (v_z a))))"

definition vec3_normalized :: "vec3 \<Rightarrow> vec3 option" where
  "vec3_normalized a =
     (let len = vec3_length a in
      if \<not> f_is_finite len \<or> f_le len EPSILON then None else Some (vec3_scale a (f_div f_one len)))"

record aabb =
  bb_center :: vec3
  bb_half_extents :: vec3

definition aabb_new :: "vec3 \<Rightarrow> vec3 \<Rightarrow> aabb" where
  "aabb_new c h = \<lparr>bb_center = c, bb_half_extents = h\<rparr>"

definition aabb_min :: "aabb \<Rightarrow> vec3" where
  "aabb_min b = vec3_new (f_sub (v_x (bb_center b)) (v_x (bb_half_extents b)))
     (f_sub (v_y (bb_center b)) (v_y (bb_half_extents b))) (f_sub (v_z (bb_center b)) (v_z (bb_half_extents b)))"

definition aabb_max :: "aabb \<Rightarrow> vec3" where
  "aabb_max b = vec3_new (f_add (v_x (bb_center b)) (v_x (bb_half_extents b)))
     (f_add (v_y (bb_center b)) (v_y (bb_half_extents b))) (f_add (v_z (bb_center b)) (v_z (bb_half_extents b)))"

section \<open>Materials\<close>

datatype query_material = MaterialSolid | MaterialLiquid

fun material_bit :: "query_material \<Rightarrow> u8" where
  "material_bit MaterialSolid = 1"
| "material_bit MaterialLiquid = 2"

type_synonym material_lookup = "block_type \<Rightarrow> query_material option"
type_synonym material_table = "(u32, query_material) fmap"

definition material_insert :: "block_type \<Rightarrow> query_material \<Rightarrow> material_table \<Rightarrow> material_table" where
  "material_insert t c table = fmupd t c table"

definition material_with :: "material_table \<Rightarrow> block_type \<Rightarrow> query_material \<Rightarrow> material_table" where
  "material_with table t c = material_insert t c table"

definition table_class_for :: "material_table \<Rightarrow> material_lookup" where
  "table_class_for table t = fmlookup table t"

type_synonym material_mask = u8

definition mask_of :: "query_material \<Rightarrow> material_mask" where "mask_of c = material_bit c"
definition mask_empty :: material_mask where "mask_empty = 0"
definition mask_solid :: material_mask where "mask_solid = mask_of MaterialSolid"
definition mask_liquid :: material_mask where "mask_liquid = mask_of MaterialLiquid"

definition mask_all :: material_mask where
  "mask_all = material_bit MaterialSolid OR material_bit MaterialLiquid"

definition mask_contains :: "material_mask \<Rightarrow> query_material \<Rightarrow> bool" where
  "mask_contains m c \<longleftrightarrow> m AND material_bit c \<noteq> 0"

definition mask_or :: "material_mask \<Rightarrow> material_mask \<Rightarrow> material_mask" where
  "mask_or a b = a OR b"

section \<open>Errors\<close>

text \<open>An error id the contract does not declare makes the constructor panic.\<close>

datatype physics_error = PhysicsError (pq_error_id: string) | PhysicsPanic

definition pq_contract :: "string \<Rightarrow> physics_error" where
  "pq_contract i = (case intern_error_code i of Some e \<Rightarrow> PhysicsError e | None \<Rightarrow> PhysicsPanic)"

definition unresolved_hit_treated_as_air :: physics_error where
  "unresolved_hit_treated_as_air = pq_contract ''unresolved_hit_treated_as_air''"
definition unresolved_hit_treated_as_solid :: physics_error where
  "unresolved_hit_treated_as_solid = pq_contract ''unresolved_hit_treated_as_solid''"
definition query_buffer_overflow :: physics_error where
  "query_buffer_overflow = pq_contract ''query_buffer_overflow''"
definition query_result_divergence :: physics_error where
  "query_result_divergence = pq_contract ''query_result_divergence''"
definition query_mutates_world :: physics_error where
  "query_mutates_world = pq_contract ''query_mutates_world''"
definition unknown_material_class :: physics_error where
  "unknown_material_class = pq_contract UNKNOWN_MATERIAL_CLASS"
definition pq_world_y_out_of_range :: physics_error where
  "pq_world_y_out_of_range = pq_contract ''world_y_out_of_range''"

section \<open>The snapshot\<close>

record cell_coord =
  cc_x :: i32
  cc_y :: i32
  cc_z :: i32

definition cell_coord_new :: "i32 \<Rightarrow> i32 \<Rightarrow> i32 \<Rightarrow> cell_coord" where
  "cell_coord_new x y z = \<lparr>cc_x = x, cc_y = y, cc_z = z\<rparr>"

type_synonym body_id = u64

datatype hit_target = HitBlock | HitBody body_id

text \<open>The derived order: a block before every body, bodies by their id.\<close>

instantiation hit_target :: linorder
begin

fun less_eq_hit_target :: "hit_target \<Rightarrow> hit_target \<Rightarrow> bool" where
  "less_eq_hit_target HitBlock t = True"
| "less_eq_hit_target (HitBody a) HitBlock = False"
| "less_eq_hit_target (HitBody a) (HitBody b) = (a \<le> b)"

definition less_hit_target :: "hit_target \<Rightarrow> hit_target \<Rightarrow> bool" where
  "less_hit_target a b \<longleftrightarrow> a \<le> b \<and> \<not> b \<le> a"

instance
proof
  fix a b c :: hit_target
  show "(a < b) = (a \<le> b \<and> \<not> b \<le> a)" by (rule less_hit_target_def)
  show "a \<le> a" by (cases a) simp_all
  show "a \<le> b \<Longrightarrow> b \<le> c \<Longrightarrow> a \<le> c" by (cases a; cases b; cases c) simp_all
  show "a \<le> b \<Longrightarrow> b \<le> a \<Longrightarrow> a = b" by (cases a; cases b) simp_all
  show "a \<le> b \<or> b \<le> a" by (cases a; cases b) (simp_all add: linear)
qed

end

datatype section_state = SectionReady storage_state | SectionPending | SectionUnavailable

record physics_world =
  pw_sections :: "(section_id, section_state) fmap"
  pw_bodies :: "(body_id, aabb) fmap"

definition physics_world_new :: physics_world where
  "physics_world_new = \<lparr>pw_sections = fmempty, pw_bodies = fmempty\<rparr>"

definition insert_ready :: "section_id \<Rightarrow> storage_state \<Rightarrow> physics_world \<Rightarrow> physics_world" where
  "insert_ready i s w = w\<lparr>pw_sections := fmupd i (SectionReady s) (pw_sections w)\<rparr>"

definition insert_pending :: "section_id \<Rightarrow> physics_world \<Rightarrow> physics_world" where
  "insert_pending i w = w\<lparr>pw_sections := fmupd i SectionPending (pw_sections w)\<rparr>"

definition insert_unavailable :: "section_id \<Rightarrow> physics_world \<Rightarrow> physics_world" where
  "insert_unavailable i w = w\<lparr>pw_sections := fmupd i SectionUnavailable (pw_sections w)\<rparr>"

definition remove_section :: "section_id \<Rightarrow> physics_world \<Rightarrow> section_state option \<times> physics_world" where
  "remove_section i w = (fmlookup (pw_sections w) i, w\<lparr>pw_sections := fmdrop i (pw_sections w)\<rparr>)"

definition register_body :: "body_id \<Rightarrow> aabb \<Rightarrow> physics_world \<Rightarrow> physics_world" where
  "register_body i shape w = w\<lparr>pw_bodies := fmupd i shape (pw_bodies w)\<rparr>"

definition unregister_body :: "body_id \<Rightarrow> physics_world \<Rightarrow> aabb option \<times> physics_world" where
  "unregister_body i w = (fmlookup (pw_bodies w) i, w\<lparr>pw_bodies := fmdrop i (pw_bodies w)\<rparr>)"

definition section_state_of :: "section_id \<Rightarrow> physics_world \<Rightarrow> section_state option" where
  "section_state_of i w = fmlookup (pw_sections w) i"

text \<open>One slot of the directory, with the baseline for the zero-byte \<open>Unchanged\<close> slots.\<close>

definition materialize_slot ::
    "(section_id \<Rightarrow> storage_state option) \<Rightarrow> section_id \<times> section_slot \<Rightarrow> physics_world \<Rightarrow> physics_error + physics_world" where
  "materialize_slot baseline e w =
     (let (i, slot) = e; presence = slot_presence slot in
      if presence = ''Ready''
      then rbind (ok_or (pq_contract SECTION_ENCODING_MISMATCH) (Option.bind (slot_payload slot) pl_storage))
             (\<lambda>s. Inr (insert_ready i s w))
      else if presence = ''Pending'' then Inr (insert_pending i w)
      else if presence = ''Unchanged''
      then rbind (ok_or (pq_contract SECTION_ENCODING_MISMATCH) (baseline i)) (\<lambda>s. Inr (insert_ready i s w))
      else if presence = ''Unavailable'' then Inr (insert_unavailable i w)
      else Inl (pq_contract SECTION_ENCODING_MISMATCH))"

definition physics_from_view_with_baseline ::
    "published_read_view \<Rightarrow> (section_id \<Rightarrow> storage_state option) \<Rightarrow> physics_error + physics_world" where
  "physics_from_view_with_baseline view baseline =
     rfold (materialize_slot baseline) (fm_entries (ps_directory (rv_root view))) physics_world_new"

definition physics_from_view :: "published_read_view \<Rightarrow> physics_error + physics_world" where
  "physics_from_view view = physics_from_view_with_baseline view (\<lambda>_. None)"

section \<open>Results\<close>

datatype 'a query_resolution = QueryHit 'a | QueryMiss | QueryUnresolved section_id

definition resolution_hit :: "'a query_resolution \<Rightarrow> 'a option" where
  "resolution_hit r = (case r of QueryHit h \<Rightarrow> Some h | _ \<Rightarrow> None)"

definition unresolved_section :: "'a query_resolution \<Rightarrow> section_id option" where
  "unresolved_section r = (case r of QueryUnresolved s \<Rightarrow> Some s | _ \<Rightarrow> None)"

definition unresolved_section_key :: "'a query_resolution \<Rightarrow> string option" where
  "unresolved_section_key r = map_option section_id_key (unresolved_section r)"

definition interpret_as_miss :: "'a query_resolution \<Rightarrow> physics_error + 'a option" where
  "interpret_as_miss r =
     (case r of QueryUnresolved _ \<Rightarrow> Inl unresolved_hit_treated_as_air
      | QueryHit h \<Rightarrow> Inr (Some h) | QueryMiss \<Rightarrow> Inr None)"

definition interpret_as_hit :: "'a query_resolution \<Rightarrow> physics_error + 'a option" where
  "interpret_as_hit r =
     (case r of QueryUnresolved _ \<Rightarrow> Inl unresolved_hit_treated_as_solid
      | QueryHit h \<Rightarrow> Inr (Some h) | QueryMiss \<Rightarrow> Inr None)"

record raycast_hit =
  rh_cell :: cell_coord
  rh_block_id :: "block_id option"
  rh_point :: vec3
  rh_normal :: vec3
  rh_distance :: f32
  rh_target :: hit_target

record sweep_hit =
  sh_cell :: cell_coord
  sh_block_id :: "block_id option"
  sh_point :: vec3
  sh_normal :: vec3
  sh_fraction :: f32
  sh_target :: hit_target

record overlap_hit =
  oh_cell :: cell_coord
  oh_block_id :: "block_id option"
  oh_target :: hit_target

record overlap_result =
  or_resolution :: "unit query_resolution"
  or_actual_count :: nat
  or_written_count :: nat
  or_truncated :: bool

definition require_complete :: "overlap_result \<Rightarrow> physics_error + unit" where
  "require_complete r = (if or_truncated r then Inl query_buffer_overflow else Inr ())"

definition verify_deterministic :: "'a \<Rightarrow> 'a \<Rightarrow> physics_error + unit" where
  "verify_deterministic l r = (if l = r then Inr () else Inl query_result_divergence)"

section \<open>One cell\<close>

record physics_query =
  pq_world :: physics_world
  pq_materials :: material_lookup
  pq_guard :: "presence_guard option"

definition physics_query_new :: "physics_world \<Rightarrow> material_lookup \<Rightarrow> physics_query" where
  "physics_query_new w ms = \<lparr>pq_world = w, pq_materials = ms, pq_guard = None\<rparr>"

definition with_presence_guard :: "physics_world \<Rightarrow> material_lookup \<Rightarrow> presence_guard \<Rightarrow> physics_query" where
  "with_presence_guard w ms g = \<lparr>pq_world = w, pq_materials = ms, pq_guard = Some g\<rparr>"

datatype cell_visit = VisitHit block_id | VisitEmpty | VisitUnresolved section_id

definition pq_guard_check :: "physics_query \<Rightarrow> section_id \<Rightarrow> string \<Rightarrow> physics_error + unit" where
  "pq_guard_check q i presence =
     (case pq_guard q of Some g \<Rightarrow> map_err pq_contract (g (section_id_key i) presence) | None \<Rightarrow> Inr ())"

definition block_at :: "physics_query \<Rightarrow> cell_coord \<Rightarrow> material_mask \<Rightarrow> physics_error + cell_visit" where
  "block_at q cell filt =
     (if sint (cc_y cell) < 0 \<or> sint (cc_y cell) > WORLD_Y_MAX then Inr VisitEmpty
      else
        rbind (map_err (\<lambda>_. pq_world_y_out_of_range) (world_y_new (sint (cc_y cell)))) (\<lambda>wy.
        rbind (map_err (\<lambda>_. pq_world_y_out_of_range)
                 (section_id_new (div_euclid_16 (cc_x cell)) (sint (div_euclid_16 (cc_y cell))) (div_euclid_16 (cc_z cell)))) (\<lambda>i.
        case fmlookup (pw_sections (pq_world q)) i of
          None \<Rightarrow> rbind (pq_guard_check q i ''Unavailable'') (\<lambda>_. Inr (VisitUnresolved i))
        | Some st \<Rightarrow>
            rbind (pq_guard_check q i
                     (case st of SectionReady _ \<Rightarrow> ''Ready'' | SectionPending \<Rightarrow> ''Pending'' | SectionUnavailable \<Rightarrow> ''Unavailable'')) (\<lambda>_.
            case st of
              SectionReady storage \<Rightarrow>
                (let b = storage_read_world storage (cc_x cell) wy (cc_z cell) in
                 if block_id_type b = 0 then Inr VisitEmpty
                 else case pq_materials q (block_id_type b) of
                        Some c \<Rightarrow> Inr (if mask_contains filt c then VisitHit b else VisitEmpty)
                      | None \<Rightarrow> Inl unknown_material_class)
            | _ \<Rightarrow> Inr (VisitUnresolved i)))))"

section \<open>Geometry\<close>

datatype axis = AxisX | AxisY | AxisZ

definition floor_i32 :: "f32 \<Rightarrow> i32" where "floor_i32 x = f_to_i32 (f_floor x)"

definition i32_saturating_sub :: "i32 \<Rightarrow> i32 \<Rightarrow> i32" where
  "i32_saturating_sub a b = of_int (max (- (2 ^ 31)) (min (2 ^ 31 - 1) (sint a - sint b)))"

definition i32_checked_add :: "i32 \<Rightarrow> i32 \<Rightarrow> i32 option" where
  "i32_checked_add a b = i32_try_from (sint a + sint b)"

definition initial_cell :: "f32 \<Rightarrow> f32 \<Rightarrow> i32" where
  "initial_cell origin direction =
     (let cell = floor_i32 origin in
      if f_lt direction (f_neg EPSILON) \<and> f_le (f_abs (f_sub origin (f_of_i32 cell))) EPSILON
      then i32_saturating_sub cell 1 else cell)"

fun axis_vec :: "axis \<Rightarrow> f32 \<Rightarrow> vec3" where
  "axis_vec AxisX v = vec3_new v f_zero f_zero"
| "axis_vec AxisY v = vec3_new f_zero v f_zero"
| "axis_vec AxisZ v = vec3_new f_zero f_zero v"

definition boundary_entry_normal :: "vec3 \<Rightarrow> vec3 \<Rightarrow> vec3" where
  "boundary_entry_normal origin direction =
     (case find (\<lambda>(coordinate, component, a). f_gt (f_abs component) EPSILON \<and>
             f_le (f_abs (f_sub coordinate (f_floor coordinate))) EPSILON)
         [(v_x origin, v_x direction, AxisX), (v_y origin, v_y direction, AxisY), (v_z origin, v_z direction, AxisZ)] of
        Some (coordinate, component, a) \<Rightarrow> axis_vec a (f_neg (f_signum component))
      | None \<Rightarrow> vec3_zero)"

definition dda_axis :: "f32 \<Rightarrow> f32 \<Rightarrow> i32 \<Rightarrow> i32 \<times> f32 \<times> f32" where
  "dda_axis origin direction cell =
     (if f_gt direction EPSILON
      then (1, f_div (f_sub (f_add (f_of_i32 cell) f_one) origin) direction, f_div f_one direction)
      else if f_lt direction (f_neg EPSILON)
      then (- 1, f_div (f_sub origin (f_of_i32 cell)) (f_neg direction), f_div f_one (f_neg direction))
      else (0, f_infinity, f_infinity))"

definition min_axis :: "f32 \<Rightarrow> f32 \<Rightarrow> f32 \<Rightarrow> axis \<times> f32" where
  "min_axis x y z =
     (if f_le x y \<and> f_le x z then (AxisX, x) else if f_le y z then (AxisY, y) else (AxisZ, z))"

definition MAX_PHYSICS_QUERY_CELLS :: nat where
  "MAX_PHYSICS_QUERY_CELLS = MAX_CELLS_PER_READ_REQUEST"

definition cell_range :: "aabb \<Rightarrow> physics_error + (cell_coord \<times> cell_coord) option" where
  "cell_range shape =
     (let lo = aabb_min shape; hi = aabb_max shape in
      if \<not> list_all f_is_finite [v_x lo, v_y lo, v_z lo, v_x hi, v_y hi, v_z hi] \<or>
         f_gt (v_x lo) (v_x hi) \<or> f_gt (v_y lo) (v_y hi) \<or> f_gt (v_z lo) (v_z hi)
      then Inr None
      else
        let x_min = f_to_i32 (f_floor (v_x lo));
            y_min = f_to_i32 (f_max (f_floor (v_y lo)) f_zero);
            z_min = f_to_i32 (f_floor (v_z lo));
            x_max = f_to_i32 (f_floor (f_sub (v_x hi) EPSILON));
            y_max = f_to_i32 (f_min (f_floor (f_sub (v_y hi) EPSILON)) (f_of_int WORLD_Y_MAX));
            z_max = f_to_i32 (f_floor (f_sub (v_z hi) EPSILON))
        in if sint x_min > sint x_max \<or> sint y_min > sint y_max \<or> sint z_min > sint z_max then Inr None
           else
             let x_count = nat (sint x_max - sint x_min + 1);
                 y_count = nat (sint y_max - sint y_min + 1);
                 z_count = nat (sint z_max - sint z_min + 1)
             in rbind (ok_or query_buffer_overflow
                   (Option.bind (usize_checked_mul x_count y_count) (\<lambda>n. usize_checked_mul n z_count))) (\<lambda>cells.
                if cells > MAX_PHYSICS_QUERY_CELLS then Inl query_buffer_overflow
                else Inr (Some (cell_coord_new x_min y_min z_min, cell_coord_new x_max y_max z_max))))"

definition swept_axis :: "(vec3 \<Rightarrow> f32) \<Rightarrow> aabb \<Rightarrow> aabb \<Rightarrow> f32 \<times> f32" where
  "swept_axis v start end =
     (let lo = f_min (v (aabb_min start)) (v (aabb_min end)); hi = f_max (v (aabb_max start)) (v (aabb_max end)) in
      (f_mul (f_add lo hi) f_half, f_mul (f_sub hi lo) f_half))"

definition swept_cell_range :: "aabb \<Rightarrow> aabb \<Rightarrow> physics_error + (cell_coord \<times> cell_coord) option" where
  "swept_cell_range start end =
     (let (cx, hx) = swept_axis v_x start end; (cy, hy) = swept_axis v_y start end; (cz, hz) = swept_axis v_z start end in
      cell_range (aabb_new (vec3_new cx cy cz) (vec3_new hx hy hz)))"

text \<open>The cells of a range in the canonical order: by \<open>y\<close>, then \<open>z\<close>, then \<open>x\<close>.\<close>

definition range_cells :: "cell_coord \<Rightarrow> cell_coord \<Rightarrow> cell_coord list" where
  "range_cells lo hi =
     concat (map (\<lambda>y. concat (map (\<lambda>z. map (\<lambda>x. cell_coord_new x y z) (i32_range (cc_x lo) (cc_x hi)))
       (i32_range (cc_z lo) (cc_z hi)))) (i32_range (cc_y lo) (cc_y hi)))"

definition aabb_intersects :: "aabb \<Rightarrow> aabb \<Rightarrow> bool" where
  "aabb_intersects l r \<longleftrightarrow>
     f_le (v_x (aabb_min l)) (v_x (aabb_max r)) \<and> f_ge (v_x (aabb_max l)) (v_x (aabb_min r)) \<and>
     f_le (v_y (aabb_min l)) (v_y (aabb_max r)) \<and> f_ge (v_y (aabb_max l)) (v_y (aabb_min r)) \<and>
     f_le (v_z (aabb_min l)) (v_z (aabb_max r)) \<and> f_ge (v_z (aabb_max l)) (v_z (aabb_min r))"

text \<open>One axis of the slab test; \<open>None\<close> is the early return.\<close>

definition slab_axis :: "f32 \<times> f32 \<times> f32 \<times> f32 \<times> axis \<Rightarrow> f32 \<times> f32 \<times> vec3 \<Rightarrow> (f32 \<times> f32 \<times> vec3) option" where
  "slab_axis s acc =
     (let (o_axis, d_axis, lo, hi, a) = s; (entry, exit, normal) = acc in
      if f_le (f_abs d_axis) EPSILON then (if f_lt o_axis lo \<or> f_gt o_axis hi then None else Some acc)
      else
        let inverse = f_div f_one d_axis;
            near = f_mul (f_sub lo o_axis) inverse;
            far = f_mul (f_sub hi o_axis) inverse;
            (near, far, near_normal) =
              (if f_gt near far then (far, near, axis_vec a (f_signum d_axis))
               else (near, far, axis_vec a (f_neg (f_signum d_axis))));
            (entry, normal) = (if f_gt near entry then (near, near_normal) else (entry, normal));
            exit = f_min exit far
        in if f_gt entry exit then None else Some (entry, exit, normal))"

definition ray_aabb :: "vec3 \<Rightarrow> vec3 \<Rightarrow> aabb \<Rightarrow> (f32 \<times> vec3) option" where
  "ray_aabb origin direction shape =
     (let lo = aabb_min shape; hi = aabb_max shape in
      Option.bind (slab_axis (v_x origin, v_x direction, v_x lo, v_x hi, AxisX) (f_zero, f_infinity, vec3_zero)) (\<lambda>acc.
      Option.bind (slab_axis (v_y origin, v_y direction, v_y lo, v_y hi, AxisY) acc) (\<lambda>acc.
      Option.bind (slab_axis (v_z origin, v_z direction, v_z lo, v_z hi, AxisZ) acc) (\<lambda>(entry, exit, normal).
      if f_lt exit f_zero then None else Some (f_max entry f_zero, normal)))))"

definition sweep_aabb :: "aabb \<Rightarrow> vec3 \<Rightarrow> cell_coord \<Rightarrow> (f32 \<times> vec3) option" where
  "sweep_aabb shape displacement cell =
     (let expanded = aabb_new
            (vec3_new (f_add (f_of_i32 (cc_x cell)) f_half) (f_add (f_of_i32 (cc_y cell)) f_half) (f_add (f_of_i32 (cc_z cell)) f_half))
            (vec3_new (f_add f_half (v_x (bb_half_extents shape))) (f_add f_half (v_y (bb_half_extents shape)))
               (f_add f_half (v_z (bb_half_extents shape))))
      in case ray_aabb (bb_center shape) displacement expanded of
           Some (fraction, normal) \<Rightarrow> if f_le fraction (f_add f_one EPSILON) then Some (fraction, normal) else None
         | None \<Rightarrow> None)"

section \<open>Rays\<close>

definition center_cell :: "aabb \<Rightarrow> cell_coord" where
  "center_cell shape =
     cell_coord_new (floor_i32 (v_x (bb_center shape))) (floor_i32 (v_y (bb_center shape))) (floor_i32 (v_z (bb_center shape)))"

definition ray_body_hit :: "vec3 \<Rightarrow> vec3 \<Rightarrow> body_id \<times> aabb \<Rightarrow> raycast_hit option" where
  "ray_body_hit origin direction e =
     (case ray_aabb origin direction (snd e) of
        Some (distance, normal) \<Rightarrow>
          Some \<lparr>rh_cell = center_cell (snd e), rh_block_id = None, rh_point = vec3_add origin (vec3_scale direction distance),
                rh_normal = normal, rh_distance = distance, rh_target = HitBody (fst e)\<rparr>
      | None \<Rightarrow> None)"

text \<open>\<open>min_by\<close> over the distance by \<open>total_cmp\<close>, then the target; the first of equal elements.\<close>

definition ray_hit_less :: "raycast_hit \<Rightarrow> raycast_hit \<Rightarrow> bool" where
  "ray_hit_less a b \<longleftrightarrow> f_total_key (rh_distance a) < f_total_key (rh_distance b) \<or>
     (f_total_key (rh_distance a) = f_total_key (rh_distance b) \<and> rh_target a < rh_target b)"

definition min_ray_hit :: "raycast_hit list \<Rightarrow> raycast_hit option" where
  "min_ray_hit hits =
     fold (\<lambda>h best. case best of None \<Rightarrow> Some h | Some b \<Rightarrow> if ray_hit_less h b then Some h else Some b) hits None"

definition body_hit :: "physics_query \<Rightarrow> vec3 \<Rightarrow> vec3 \<Rightarrow> f32 \<Rightarrow> raycast_hit option" where
  "body_hit q origin direction max_distance =
     min_ray_hit
       (filter (\<lambda>h. f_ge (rh_distance h) f_zero \<and> f_le (rh_distance h) max_distance)
         (List.map_filter (ray_body_hit origin direction) (fm_entries (pw_bodies (pq_world q)))))"

text \<open>What a ray holds fixed, and what changes from cell to cell.\<close>

record ray_frame =
  rf_origin :: vec3
  rf_direction :: vec3
  rf_max_distance :: f32
  rf_body_distance :: f32
  rf_step :: "axis \<Rightarrow> i32"
  rf_delta :: "axis \<Rightarrow> f32"

record ray_state =
  rs_cell :: cell_coord
  rs_t :: f32
  rs_next :: "axis \<Rightarrow> f32"
  rs_normal :: vec3

fun cell_axis :: "axis \<Rightarrow> cell_coord \<Rightarrow> i32" where
  "cell_axis AxisX c = cc_x c"
| "cell_axis AxisY c = cc_y c"
| "cell_axis AxisZ c = cc_z c"

fun cell_with :: "axis \<Rightarrow> i32 \<Rightarrow> cell_coord \<Rightarrow> cell_coord" where
  "cell_with AxisX i c = c\<lparr>cc_x := i\<rparr>"
| "cell_with AxisY i c = c\<lparr>cc_y := i\<rparr>"
| "cell_with AxisZ i c = c\<lparr>cc_z := i\<rparr>"

definition ray_goes_on :: "ray_frame \<Rightarrow> ray_state \<Rightarrow> bool" where
  "ray_goes_on f st \<longleftrightarrow>
     f_le (rs_t st) (f_add (rf_max_distance f) EPSILON) \<and> f_le (rs_t st) (f_add (rf_body_distance f) EPSILON)"

definition ray_advance :: "ray_frame \<Rightarrow> ray_state \<Rightarrow> ray_state option" where
  "ray_advance f st =
     (let (a, next_t) = min_axis (rs_next st AxisX) (rs_next st AxisY) (rs_next st AxisZ) in
      if \<not> f_is_finite next_t \<or> f_gt next_t (f_add (rf_max_distance f) EPSILON) then None
      else
        case i32_checked_add (cell_axis a (rs_cell st)) (rf_step f a) of
          None \<Rightarrow> None
        | Some i \<Rightarrow>
            Some \<lparr>rs_cell = cell_with a i (rs_cell st), rs_t = next_t,
                  rs_next = (rs_next st)(a := f_add (rs_next st a) (rf_delta f a)),
                  rs_normal = axis_vec a (f_of_i32 (- rf_step f a))\<rparr>)"

definition ray_block_hit :: "ray_frame \<Rightarrow> ray_state \<Rightarrow> block_id \<Rightarrow> raycast_hit" where
  "ray_block_hit f st b =
     \<lparr>rh_cell = rs_cell st, rh_block_id = Some b,
      rh_point = vec3_add (rf_origin f) (vec3_scale (rf_direction f) (f_max (rs_t st) f_zero)),
      rh_normal = rs_normal st, rh_distance = f_max (rs_t st) f_zero, rh_target = HitBlock\<rparr>"

text \<open>The traversal; the result is \<open>None\<close> when the loop is left without one.\<close>

function ray_loop ::
    "physics_query \<Rightarrow> material_mask \<Rightarrow> ray_frame \<Rightarrow> nat \<Rightarrow> ray_state \<Rightarrow> physics_error + raycast_hit query_resolution option" where
  "ray_loop q filt f steps st =
     (if \<not> ray_goes_on f st then Inr None
      else if steps \<ge> MAX_PHYSICS_QUERY_CELLS then Inl query_buffer_overflow
      else
        rbind (block_at q (rs_cell st) filt) (\<lambda>v.
        case v of
          VisitUnresolved i \<Rightarrow> Inr (Some (QueryUnresolved i))
        | VisitHit b \<Rightarrow> Inr (Some (QueryHit (ray_block_hit f st b)))
        | VisitEmpty \<Rightarrow>
            (case ray_advance f st of
               None \<Rightarrow> Inr None
             | Some st' \<Rightarrow> ray_loop q filt f (steps + 1) st')))"
  by pat_completeness auto
termination by (relation "measure (\<lambda>(q, filt, f, steps, st). MAX_PHYSICS_QUERY_CELLS - steps)") auto

declare ray_loop.simps [simp del]

fun axis_choice :: "'a \<Rightarrow> 'a \<Rightarrow> 'a \<Rightarrow> axis \<Rightarrow> 'a" where
  "axis_choice x y z AxisX = x"
| "axis_choice x y z AxisY = y"
| "axis_choice x y z AxisZ = z"

definition ray_start :: "physics_query \<Rightarrow> vec3 \<Rightarrow> vec3 \<Rightarrow> f32 \<Rightarrow> ray_frame \<times> ray_state" where
  "ray_start q origin direction max_distance =
     (let cell = cell_coord_new (initial_cell (v_x origin) (v_x direction)) (initial_cell (v_y origin) (v_y direction))
            (initial_cell (v_z origin) (v_z direction));
          (step_x, next_x, delta_x) = dda_axis (v_x origin) (v_x direction) (cc_x cell);
          (step_y, next_y, delta_y) = dda_axis (v_y origin) (v_y direction) (cc_y cell);
          (step_z, next_z, delta_z) = dda_axis (v_z origin) (v_z direction) (cc_z cell)
      in (\<lparr>rf_origin = origin, rf_direction = direction, rf_max_distance = max_distance,
           rf_body_distance = (case body_hit q origin direction max_distance of
                                 Some h \<Rightarrow> rh_distance h | None \<Rightarrow> f_infinity),
           rf_step = axis_choice step_x step_y step_z, rf_delta = axis_choice delta_x delta_y delta_z\<rparr>,
          \<lparr>rs_cell = cell, rs_t = f_zero, rs_next = axis_choice next_x next_y next_z,
           rs_normal = boundary_entry_normal origin direction\<rparr>))"

definition raycast ::
    "physics_query \<Rightarrow> vec3 \<Rightarrow> vec3 \<Rightarrow> f32 \<Rightarrow> material_mask \<Rightarrow> physics_error + raycast_hit query_resolution" where
  "raycast q origin direction max_distance filt =
     (if \<not> f_is_finite (v_x origin) \<or> \<not> f_is_finite (v_y origin) \<or> \<not> f_is_finite (v_z origin) \<or>
         \<not> f_is_finite max_distance \<or> f_lt max_distance f_zero
      then Inr QueryMiss
      else
        case vec3_normalized direction of
          None \<Rightarrow> Inr QueryMiss
        | Some direction \<Rightarrow>
            (let (f, st) = ray_start q origin direction max_distance in
             rbind (ray_loop q filt f 0 st) (\<lambda>found.
             case found of
               Some r \<Rightarrow> Inr r
             | None \<Rightarrow>
                 (case body_hit q origin direction max_distance of
                    Some h \<Rightarrow> if f_le (rh_distance h) (f_add max_distance EPSILON) then Inr (QueryHit h) else Inr QueryMiss
                  | None \<Rightarrow> Inr QueryMiss))))"

section \<open>Overlaps\<close>

record overlap_acc =
  oa_actual :: nat
  oa_written :: nat
  oa_buffer :: "overlap_hit list"

definition write_overlap :: "overlap_hit \<Rightarrow> overlap_acc \<Rightarrow> overlap_acc" where
  "write_overlap h acc =
     (if oa_written acc < length (oa_buffer acc)
      then acc\<lparr>oa_buffer := (oa_buffer acc)[oa_written acc := h], oa_written := oa_written acc + 1\<rparr> else acc)"

definition count_overlap :: "overlap_hit \<Rightarrow> overlap_acc \<Rightarrow> overlap_acc" where
  "count_overlap h acc = write_overlap h (acc\<lparr>oa_actual := oa_actual acc + 1\<rparr>)"

text \<open>The cells in order; the early return carries the unresolved section.\<close>

fun overlap_cells ::
    "physics_query \<Rightarrow> material_mask \<Rightarrow> cell_coord list \<Rightarrow> overlap_acc \<Rightarrow> (physics_error + section_id option) \<times> overlap_acc" where
  "overlap_cells q filt [] acc = (Inr None, acc)"
| "overlap_cells q filt (c # cs) acc =
     (case block_at q c filt of
        Inl e \<Rightarrow> (Inl e, acc)
      | Inr (VisitUnresolved i) \<Rightarrow> (Inr (Some i), acc)
      | Inr (VisitHit b) \<Rightarrow>
          overlap_cells q filt cs
            (count_overlap \<lparr>oh_cell = c, oh_block_id = Some b, oh_target = HitBlock\<rparr> acc)
      | Inr VisitEmpty \<Rightarrow> overlap_cells q filt cs acc)"

definition overlap_body :: "aabb \<Rightarrow> body_id \<times> aabb \<Rightarrow> overlap_acc \<Rightarrow> overlap_acc" where
  "overlap_body shape e acc =
     (if aabb_intersects shape (snd e)
      then count_overlap \<lparr>oh_cell = center_cell (snd e), oh_block_id = None, oh_target = HitBody (fst e)\<rparr> acc
      else acc)"

definition overlap_result_of :: "unit query_resolution \<Rightarrow> overlap_acc \<Rightarrow> overlap_result" where
  "overlap_result_of r acc =
     \<lparr>or_resolution = r, or_actual_count = oa_actual acc, or_written_count = oa_written acc,
      or_truncated = (oa_actual acc > length (oa_buffer acc))\<rparr>"

definition overlap ::
    "physics_query \<Rightarrow> aabb \<Rightarrow> material_mask \<Rightarrow> overlap_hit list \<Rightarrow> (physics_error + overlap_result) \<times> overlap_hit list" where
  "overlap q shape filt buffer =
     (let acc0 = \<lparr>oa_actual = 0, oa_written = 0, oa_buffer = buffer\<rparr> in
      case cell_range shape of
        Inl e \<Rightarrow> (Inl e, buffer)
      | Inr None \<Rightarrow>
          (Inr \<lparr>or_resolution = QueryMiss, or_actual_count = 0, or_written_count = 0, or_truncated = False\<rparr>, buffer)
      | Inr (Some (lo, hi)) \<Rightarrow>
          (case overlap_cells q filt (range_cells lo hi) acc0 of
             (Inl e, acc) \<Rightarrow> (Inl e, oa_buffer acc)
           | (Inr (Some i), acc) \<Rightarrow> (Inr (overlap_result_of (QueryUnresolved i) acc), oa_buffer acc)
           | (Inr None, acc) \<Rightarrow>
               (let acc = fold (overlap_body shape) (fm_entries (pw_bodies (pq_world q))) acc in
                (Inr (overlap_result_of (if oa_actual acc = 0 then QueryMiss else QueryHit ()) acc), oa_buffer acc))))"

section \<open>Sweeps\<close>

type_synonym sweep_state = "(f32 \<times> sweep_hit) option \<times> (f32 \<times> section_id) option"

definition take_better :: "f32 \<Rightarrow> sweep_hit \<Rightarrow> (f32 \<times> sweep_hit) option \<Rightarrow> (f32 \<times> sweep_hit) option" where
  "take_better fraction hit best =
     (case best of
        None \<Rightarrow> Some (fraction, hit)
      | Some (old, _) \<Rightarrow> if f_total_key fraction < f_total_key old then Some (fraction, hit) else best)"

definition take_nearer :: "f32 \<Rightarrow> section_id \<Rightarrow> (f32 \<times> section_id) option \<Rightarrow> (f32 \<times> section_id) option" where
  "take_nearer fraction i best =
     (case best of
        None \<Rightarrow> Some (fraction, i)
      | Some (old, j) \<Rightarrow>
          if f_total_key fraction < f_total_key old \<or> (f_total_key fraction = f_total_key old \<and> i < j)
          then Some (fraction, i) else best)"

definition sweep_point :: "aabb \<Rightarrow> vec3 \<Rightarrow> f32 \<Rightarrow> vec3" where
  "sweep_point shape displacement fraction = vec3_add (bb_center shape) (vec3_scale displacement fraction)"

definition sweep_cell ::
    "physics_query \<Rightarrow> aabb \<Rightarrow> vec3 \<Rightarrow> material_mask \<Rightarrow> cell_coord \<Rightarrow> sweep_state \<Rightarrow> physics_error + sweep_state" where
  "sweep_cell q shape displacement filt cell st =
     (let (best, unresolved) = st in
      case sweep_aabb shape displacement cell of
        None \<Rightarrow> Inr st
      | Some (fraction, normal) \<Rightarrow>
          rbind (block_at q cell filt) (\<lambda>v.
          case v of
            VisitUnresolved i \<Rightarrow> Inr (best, take_nearer fraction i unresolved)
          | VisitEmpty \<Rightarrow> Inr st
          | VisitHit b \<Rightarrow>
              Inr (take_better fraction
                     \<lparr>sh_cell = cell, sh_block_id = Some b, sh_point = sweep_point shape displacement fraction,
                      sh_normal = normal, sh_fraction = f_clamp f_zero f_one fraction, sh_target = HitBlock\<rparr> best,
                   unresolved)))"

definition sweep_body ::
    "aabb \<Rightarrow> vec3 \<Rightarrow> body_id \<times> aabb \<Rightarrow> (f32 \<times> sweep_hit) option \<Rightarrow> (f32 \<times> sweep_hit) option" where
  "sweep_body shape displacement e best =
     (let h = bb_half_extents (snd e); g = bb_half_extents shape;
          body_shape = aabb_new (bb_center (snd e)) (vec3_new (f_add (v_x h) (v_x g)) (f_add (v_y h) (v_y g)) (f_add (v_z h) (v_z g)))
      in case ray_aabb (bb_center shape) displacement body_shape of
           None \<Rightarrow> best
         | Some (fraction, normal) \<Rightarrow>
             (let fraction = f_clamp f_zero f_one fraction in
              take_better fraction
                \<lparr>sh_cell = center_cell (snd e), sh_block_id = None, sh_point = sweep_point shape displacement fraction,
                 sh_normal = normal, sh_fraction = fraction, sh_target = HitBody (fst e)\<rparr> best))"

definition sweep ::
    "physics_query \<Rightarrow> aabb \<Rightarrow> vec3 \<Rightarrow> material_mask \<Rightarrow> physics_error + sweep_hit query_resolution" where
  "sweep q shape displacement filt =
     rbind (swept_cell_range shape (aabb_new (vec3_add (bb_center shape) displacement) (bb_half_extents shape))) (\<lambda>range.
     case range of
       None \<Rightarrow> Inr QueryMiss
     | Some (lo, hi) \<Rightarrow>
         rbind (rfold (sweep_cell q shape displacement filt) (range_cells lo hi) (None, None)) (\<lambda>(best, unresolved).
         let best = fold (sweep_body shape displacement) (fm_entries (pw_bodies (pq_world q))) best in
         case (unresolved, best) of
           (Some (u, i), None) \<Rightarrow> Inr (QueryUnresolved i)
         | (Some (u, i), Some (b, hit)) \<Rightarrow> Inr (if \<not> f_total_key u > f_total_key b then QueryUnresolved i else QueryHit hit)
         | (None, Some (_, hit)) \<Rightarrow> Inr (QueryHit hit)
         | (None, None) \<Rightarrow> Inr QueryMiss))"

end
