(* ===== verification/PhysicsFacts.thy ===== *)
theory PhysicsFacts
  imports Physics
begin

text \<open>
  What the physics queries answer: a ray is the first cell on its path that is not empty, an overlap is
  the list of its cells and bodies, a sweep is the nearest of its candidates; and what a guard adds.
\<close>

section \<open>One cell\<close>

text \<open>Where a cell lives, and what is seen there without a guard.\<close>

definition in_slab :: "cell_coord \<Rightarrow> bool" where
  "in_slab c \<longleftrightarrow> 0 \<le> sint (cc_y c) \<and> sint (cc_y c) \<le> WORLD_Y_MAX"

definition query_section :: "cell_coord \<Rightarrow> section_id" where
  "query_section c = SectionId (div_euclid_16 (cc_x c)) (of_int (sint (cc_y c) div 16)) (div_euclid_16 (cc_z c))"

definition seen_block :: "physics_world \<Rightarrow> cell_coord \<Rightarrow> block_id option" where
  "seen_block w c =
     (case fmlookup (pw_sections w) (query_section c) of
        Some (SectionReady s) \<Rightarrow> Some (storage_read_world s (cc_x c) (WorldY (of_int (sint (cc_y c)))) (cc_z c))
      | _ \<Rightarrow> None)"

definition plain_visit :: "physics_query \<Rightarrow> cell_coord \<Rightarrow> material_mask \<Rightarrow> physics_error + cell_visit" where
  "plain_visit q c filt =
     (if \<not> in_slab c then Inr VisitEmpty
      else case seen_block (pq_world q) c of
        None \<Rightarrow> Inr (VisitUnresolved (query_section c))
      | Some b \<Rightarrow>
          if block_id_type b = 0 then Inr VisitEmpty
          else case pq_materials q (block_id_type b) of
            None \<Rightarrow> Inl unknown_material_class
          | Some k \<Rightarrow> Inr (if mask_contains filt k then VisitHit b else VisitEmpty))"

lemma slab_section:
  assumes "in_slab c"
  shows "section_id_new (div_euclid_16 (cc_x c)) (sint (div_euclid_16 (cc_y c))) (div_euclid_16 (cc_z c)) = Inr (query_section c)"
    "section_id_wf (query_section c)"
proof -
  let ?y = "sint (cc_y c)"
  have y: "0 \<le> ?y div 16" "?y div 16 \<le> 15" using assms zdiv_mono1 [of ?y 255 16] by (simp_all add: in_slab_def pos_imp_zdiv_nonneg_iff)
  have "sint (div_euclid_16 (cc_y c)) = ?y div 16"
    using y by (simp add: div_euclid_16_def sint_of_int_i32)
  then show "section_id_new (div_euclid_16 (cc_x c)) (sint (div_euclid_16 (cc_y c))) (div_euclid_16 (cc_z c)) = Inr (query_section c)"
    using y by (simp add: section_id_new_def check_section_y_def query_section_def)
  have "uint (of_int (?y div 16) :: u8) = ?y div 16" using y by (simp add: unsigned_of_int take_bit_int_eq_self)
  then show "section_id_wf (query_section c)"
    using y by (simp add: section_id_wf_def query_section_def flip: nat_uint_eq)
qed

lemma block_at_unguarded:
  assumes "pq_guard q = None"
  shows "block_at q c filt = plain_visit q c filt"
proof (cases "in_slab c")
  case True
  then have "world_y_new (sint (cc_y c)) = Inr (WorldY (of_int (sint (cc_y c))))" by (simp add: world_y_new_def in_slab_def)
  with True slab_section [OF True] assms show ?thesis
    by (auto simp: block_at_def plain_visit_def seen_block_def in_slab_def pq_guard_check_def
        split: option.splits section_state.splits)
qed (auto simp: block_at_def plain_visit_def in_slab_def)

text \<open>What a guard of the section-presence interface adds: a held section that is not ready is refused.\<close>

context presence_policy
begin

lemma guarded_block_at:
  assumes "pq_guard q = Some guard"
  shows "block_at q c filt =
    (if in_slab c \<and> held (section_id_key (query_section c)) \<and> seen_block (pq_world q) c = None
     then Inl (pq_contract ''pinned_read_returned_pending'') else plain_visit q c filt)"
proof (cases "in_slab c")
  case True
  then have wy: "world_y_new (sint (cc_y c)) = Inr (WorldY (of_int (sint (cc_y c))))" by (simp add: world_y_new_def in_slab_def)
  have g: "pq_guard_check q (query_section c) presence =
      (if held (section_id_key (query_section c)) \<and> presence \<noteq> ''Ready''
       then Inl (pq_contract ''pinned_read_returned_pending'') else Inr ())"
    if "presence \<in> set SECTION_PRESENCE" for presence
    using guard_decides [OF slab_section(2) [OF True] that] assms by (simp add: pq_guard_check_def)
  have "''Ready'' \<in> set SECTION_PRESENCE" "''Pending'' \<in> set SECTION_PRESENCE" "''Unavailable'' \<in> set SECTION_PRESENCE"
    by (simp_all add: SECTION_PRESENCE_def)
  note g = this [THEN g]
  show ?thesis
    using True wy slab_section(1) [OF True] g
    by (auto simp: block_at_def plain_visit_def seen_block_def in_slab_def split: option.splits section_state.splits)
qed (auto simp: block_at_def plain_visit_def in_slab_def)

end

section \<open>Rays\<close>

text \<open>
  The path of a ray by geometry alone, at most \<open>n\<close> cells of it, and the cell a ray stops in: the
  first of the path that is not empty.
\<close>

fun ray_path :: "nat \<Rightarrow> ray_frame \<Rightarrow> ray_state \<Rightarrow> ray_state list" where
  "ray_path 0 f st = []"
| "ray_path (Suc n) f st =
     (if ray_goes_on f st
      then st # (case ray_advance f st of None \<Rightarrow> [] | Some st' \<Rightarrow> ray_path n f st') else [])"

definition ray_stop :: "physics_query \<Rightarrow> material_mask \<Rightarrow> ray_state list \<Rightarrow> ray_state option" where
  "ray_stop q filt path = find (\<lambda>st. block_at q (rs_cell st) filt \<noteq> Inr VisitEmpty) path"

definition stop_result :: "physics_query \<Rightarrow> material_mask \<Rightarrow> ray_frame \<Rightarrow> ray_state \<Rightarrow> physics_error + raycast_hit query_resolution" where
  "stop_result q filt f st =
     rbind (block_at q (rs_cell st) filt) (\<lambda>v. Inr (case v of
       VisitUnresolved i \<Rightarrow> QueryUnresolved i | VisitHit b \<Rightarrow> QueryHit (ray_block_hit f st b) | VisitEmpty \<Rightarrow> QueryMiss))"

lemma ray_loop_path:
  "steps \<le> MAX_PHYSICS_QUERY_CELLS \<Longrightarrow> ray_loop q filt f steps st =
    (let path = ray_path (Suc (MAX_PHYSICS_QUERY_CELLS - steps)) f st in
     case ray_stop q filt (take (MAX_PHYSICS_QUERY_CELLS - steps) path) of
       Some s \<Rightarrow> rbind (stop_result q filt f s) (\<lambda>r. Inr (Some r))
     | None \<Rightarrow> if length path > MAX_PHYSICS_QUERY_CELLS - steps then Inl query_buffer_overflow else Inr None)"
proof (induction q filt f steps st rule: ray_loop.induct)
  case (1 q filt f steps st)
  show ?case
  proof (cases "ray_goes_on f st \<and> steps < MAX_PHYSICS_QUERY_CELLS")
    case False
    with 1(2) ray_loop.simps [of q filt f steps st] show ?thesis
      by (cases "ray_goes_on f st") (auto simp: ray_stop_def split: option.splits)
  next
    case True
    then obtain n where n: "MAX_PHYSICS_QUERY_CELLS - steps = Suc n" "MAX_PHYSICS_QUERY_CELLS - (steps + 1) = n"
      by (metis Suc_diff_Suc Suc_eq_plus1)
    show ?thesis
    proof (cases "block_at q (rs_cell st) filt = Inr VisitEmpty")
      case False
      with True n show ?thesis
        by (cases "block_at q (rs_cell st) filt"; cases "projr (block_at q (rs_cell st) filt)")
          (auto simp: ray_loop.simps [of q filt f steps st] ray_stop_def stop_result_def Let_def split: option.splits)
    next
      case empty: True
      show ?thesis
      proof (cases "ray_advance f st")
        case None
        with True n empty show ?thesis
          by (simp add: ray_loop.simps [of q filt f steps st] ray_stop_def Let_def)
      next
        case (Some st')
        have "ray_loop q filt f (steps + 1) st' =
            (let path = ray_path (Suc n) f st' in
             case ray_stop q filt (take n path) of Some s \<Rightarrow> rbind (stop_result q filt f s) (\<lambda>r. Inr (Some r))
             | None \<Rightarrow> if length path > n then Inl query_buffer_overflow else Inr None)"
          using 1(1) [OF _ _ empty refl Some, unfolded n(2)] True by (simp del: ray_path.simps)
        with True n(1) empty Some show ?thesis
          by (simp add: ray_loop.simps [of q filt f steps st] ray_stop_def Let_def del: ray_path.simps(2))
            (simp add: ray_path.simps(2) [of "Suc n"] Let_def del: ray_path.simps(2))
      qed
    qed
  qed
qed

text \<open>Cells that share a face.\<close>

definition face_neighbours :: "cell_coord \<Rightarrow> cell_coord \<Rightarrow> bool" where
  "face_neighbours c d \<longleftrightarrow> (\<exists>a. \<bar>sint (cell_axis a d) - sint (cell_axis a c)\<bar> = 1 \<and> (\<forall>b. b \<noteq> a \<longrightarrow> cell_axis b d = cell_axis b c))"

text \<open>The directions a ray does not move in are never the nearest boundary.\<close>

definition frame_ok :: "ray_frame \<Rightarrow> ray_state \<Rightarrow> bool" where
  "frame_ok f st \<longleftrightarrow> (\<forall>a. rf_step f a \<in> {1, 0, - 1} \<and> (rf_step f a = 0 \<longrightarrow> rs_next st a = FInf False))"

lemma cell_axis_with: "cell_axis b (cell_with a i c) = (if b = a then i else cell_axis b c)"
  by (cases a; cases b) simp_all

lemma i32_checked_add_Some: "i32_checked_add a b = Some c \<Longrightarrow> sint c = sint a + sint b"
  using sint_of_int_i32 [of "sint a + sint b"] by (auto simp: i32_checked_add_def i32_try_from_def split: if_splits)

lemma min_axis_eq: "min_axis (g AxisX) (g AxisY) (g AxisZ) = (a, t) \<Longrightarrow> t = g a"
  by (auto simp: min_axis_def split: if_splits)

lemma ray_advance_ok:
  assumes "ray_advance f st = Some st'" "frame_ok f st"
  shows "frame_ok f st'" "face_neighbours (rs_cell st) (rs_cell st')"
proof -
  obtain a t i where a: "min_axis (rs_next st AxisX) (rs_next st AxisY) (rs_next st AxisZ) = (a, t)" "f_is_finite t"
    "i32_checked_add (cell_axis a (rs_cell st)) (rf_step f a) = Some i"
    and st': "rs_cell st' = cell_with a i (rs_cell st)" "rs_next st' = (rs_next st)(a := f_add (rs_next st a) (rf_delta f a))"
    using assms(1) by (auto simp: ray_advance_def Let_def split: prod.splits if_splits option.splits)
  have "rs_next st a \<noteq> FInf False" using a(1,2) min_axis_eq [of "rs_next st" a t] by (auto simp: f_is_finite_def)
  with assms(2) have step: "rf_step f a = 1 \<or> rf_step f a = - 1" by (auto simp: frame_ok_def)
  with assms(2) st'(2) show "frame_ok f st'" by (auto simp: frame_ok_def)
  have "sint (1 :: i32) = 1" "sint (- 1 :: i32) = - 1" by simp_all
  with step i32_checked_add_Some [OF a(3)] have "\<bar>sint i - sint (cell_axis a (rs_cell st))\<bar> = 1" by auto
  then show "face_neighbours (rs_cell st) (rs_cell st')"
    unfolding face_neighbours_def st'(1) cell_axis_with by (intro exI [of _ a]) auto
qed

lemma ray_path_connected:
  assumes "frame_ok f st"
  shows "Suc i < length (ray_path n f st) \<Longrightarrow>
    face_neighbours (rs_cell (ray_path n f st ! i)) (rs_cell (ray_path n f st ! Suc i))"
  using assms
proof (induction n f st arbitrary: i rule: ray_path.induct)
  case (2 n f st)
  show ?case
  proof (cases "ray_advance f st")
    case (Some st')
    note ok = ray_advance_ok(1,2) [OF Some 2(3)]
    show ?thesis
    proof (cases i)
      case 0
      with 2 Some ok show ?thesis by (cases n) (auto split: if_splits)
    next
      case (Suc j)
      with 2 Some ok show ?thesis by (auto split: if_splits)
    qed
  qed (use 2 in \<open>auto split: if_splits\<close>)
qed simp

lemma all_axis: "(\<forall>a. P a) \<longleftrightarrow> P AxisX \<and> P AxisY \<and> P AxisZ"
  by (metis axis.exhaust)

lemma ray_start_ok: "ray_start q origin direction m = (f, st) \<Longrightarrow> frame_ok f st"
  by (simp add: ray_start_def frame_ok_def all_axis Let_def split: prod.splits)
    (auto simp: dda_axis_def f_infinity_def split: if_splits)

section \<open>The best of a list\<close>

text \<open>
  Keeping the best of what comes by: under a strict weak order what is left is the first of the
  elements below which there is none.
\<close>

definition keep_best :: "('a \<Rightarrow> 'a \<Rightarrow> bool) \<Rightarrow> 'a \<Rightarrow> 'a option \<Rightarrow> 'a option" where
  "keep_best R x best = (case best of None \<Rightarrow> Some x | Some b \<Rightarrow> if R x b then Some x else Some b)"

lemma keep_best_None: "keep_best R x None = Some x"
  by (simp add: keep_best_def)

definition weak_order :: "('a \<Rightarrow> 'a \<Rightarrow> bool) \<Rightarrow> bool" where
  "weak_order R \<longleftrightarrow> (\<forall>x y z. (R x y \<longrightarrow> R y z \<longrightarrow> R x z) \<and> (R x z \<longrightarrow> R x y \<or> R y z))"

definition first_best :: "('a \<Rightarrow> 'a \<Rightarrow> bool) \<Rightarrow> 'a list \<Rightarrow> 'a \<Rightarrow> bool" where
  "first_best R xs b \<longleftrightarrow>
     (\<exists>us vs. xs = us @ b # vs \<and> list_all (R b) us \<and> list_all (\<lambda>x. \<not> R x b) vs)"

definition is_best :: "('a \<Rightarrow> 'a \<Rightarrow> bool) \<Rightarrow> 'a list \<Rightarrow> 'a option \<Rightarrow> bool" where
  "is_best R xs best = (case best of None \<Rightarrow> xs = [] | Some b \<Rightarrow> first_best R xs b)"

lemma first_best_intro: "list_all (R b) us \<Longrightarrow> list_all (\<lambda>x. \<not> R x b) vs \<Longrightarrow> first_best R (us @ b # vs) b"
  by (auto simp: first_best_def)

lemma is_best_snoc:
  assumes "weak_order R" "is_best R xs best"
  shows "is_best R (xs @ [x]) (keep_best R x best)"
proof (cases best)
  case None
  with assms(2) first_best_intro [of R x "[]" "[]"] show ?thesis by (simp add: is_best_def keep_best_def)
next
  case (Some b)
  with assms(2) obtain us vs where b: "xs = us @ b # vs" "list_all (R b) us" "list_all (\<lambda>x. \<not> R x b) vs"
    by (auto simp: is_best_def first_best_def)
  show ?thesis
  proof (cases "R x b")
    case True
    then have "list_all (R x) xs" using b assms(1) by (auto simp: list_all_iff weak_order_def) blast+
    with True Some first_best_intro [of R x xs "[]"] show ?thesis by (simp add: is_best_def keep_best_def)
  next
    case False
    with b first_best_intro [of R b us "vs @ [x]"] Some show ?thesis by (simp add: is_best_def keep_best_def)
  qed
qed

lemma is_best_fold:
  assumes "weak_order R" "is_best R xs best"
  shows "is_best R (xs @ ys) (fold (keep_best R) ys best)"
  using assms(2)
proof (induction ys arbitrary: xs best)
  case (Cons y ys)
  show ?case using Cons.IH [OF is_best_snoc [OF assms(1) Cons.prems, of y]] by simp
qed simp

lemma weak_order_key: "weak_order (\<lambda>x y. key x < (key y :: 'b :: linorder))"
  by (auto simp: weak_order_def)

lemma weak_order_keys:
  "weak_order (\<lambda>x y. key x < (key y :: 'b :: linorder) \<or> (key x = key y \<and> snd_key x < (snd_key y :: 'c :: linorder)))"
  by (auto simp: weak_order_def)

section \<open>What a ray answers\<close>

definition body_candidates :: "physics_query \<Rightarrow> vec3 \<Rightarrow> vec3 \<Rightarrow> f32 \<Rightarrow> raycast_hit list" where
  "body_candidates q origin direction max_distance =
     filter (\<lambda>h. f_ge (rh_distance h) f_zero \<and> f_le (rh_distance h) max_distance)
       (List.map_filter (ray_body_hit origin direction) (fm_entries (pw_bodies (pq_world q))))"

lemma body_hit_best: "is_best ray_hit_less (body_candidates q origin direction m) (body_hit q origin direction m)"
proof -
  have "min_ray_hit hits = fold (keep_best ray_hit_less) hits None" for hits
    by (simp add: min_ray_hit_def keep_best_def [abs_def])
  moreover have "weak_order ray_hit_less"
    unfolding ray_hit_less_def [abs_def] by (rule weak_order_keys)
  ultimately show ?thesis
    using is_best_fold [of ray_hit_less "[]" None "body_candidates q origin direction m"]
    by (simp add: body_hit_def body_candidates_def is_best_def)
qed

definition ray_cells :: "physics_query \<Rightarrow> vec3 \<Rightarrow> vec3 \<Rightarrow> f32 \<Rightarrow> ray_state list" where
  "ray_cells q origin direction m =
     (let (f, st) = ray_start q origin direction m in ray_path (Suc MAX_PHYSICS_QUERY_CELLS) f st)"

text \<open>The answer in one piece: nothing without a direction or a distance, else the first cell that is
  not empty, else the nearest body.\<close>

definition ray_admitted :: "vec3 \<Rightarrow> f32 \<Rightarrow> bool" where
  "ray_admitted origin m \<longleftrightarrow>
     list_all f_is_finite [v_x origin, v_y origin, v_z origin, m] \<and> \<not> f_lt m f_zero"

definition ray_answer ::
    "physics_query \<Rightarrow> vec3 \<Rightarrow> vec3 \<Rightarrow> f32 \<Rightarrow> material_mask \<Rightarrow> physics_error + raycast_hit query_resolution" where
  "ray_answer q origin direction m filt =
     (case (if ray_admitted origin m then vec3_normalized direction else None) of
        None \<Rightarrow> Inr QueryMiss
      | Some d \<Rightarrow>
          (case ray_stop q filt (take MAX_PHYSICS_QUERY_CELLS (ray_cells q origin d m)) of
             Some st \<Rightarrow> stop_result q filt (fst (ray_start q origin d m)) st
           | None \<Rightarrow>
               if length (ray_cells q origin d m) > MAX_PHYSICS_QUERY_CELLS then Inl query_buffer_overflow
               else Inr (case body_hit q origin d m of
                  Some h \<Rightarrow> if f_le (rh_distance h) (f_add m EPSILON) then QueryHit h else QueryMiss
                | None \<Rightarrow> QueryMiss)))"

lemma raycast_answer: "raycast q origin direction m filt = ray_answer q origin direction m filt"
proof (cases "if ray_admitted origin m then vec3_normalized direction else None")
  case None
  then show ?thesis by (auto simp: raycast_def ray_answer_def ray_admitted_def split: option.splits if_splits)
next
  case (Some d)
  obtain f st where fs: "ray_start q origin d m = (f, st)" by (cases "ray_start q origin d m")
  have adm: "ray_admitted origin m" "vec3_normalized direction = Some d" using Some by (auto split: if_splits)
  define stop where "stop = ray_stop q filt (take MAX_PHYSICS_QUERY_CELLS (ray_cells q origin d m))"
  have "ray_loop q filt f 0 st =
      (case stop of Some s \<Rightarrow> rbind (stop_result q filt f s) (\<lambda>r. Inr (Some r))
       | None \<Rightarrow> if length (ray_cells q origin d m) > MAX_PHYSICS_QUERY_CELLS then Inl query_buffer_overflow else Inr None)"
    using ray_loop_path [of 0 q filt f st] by (simp add: ray_cells_def fs Let_def stop_def del: ray_path.simps)
  with adm fs show ?thesis
    by (cases stop; cases "stop_result q filt f (the stop)")
      (auto simp: raycast_def ray_answer_def ray_admitted_def stop_def [symmetric] split: option.splits if_splits)
qed

lemma ray_cells_connected: "successively face_neighbours (map rs_cell (ray_cells q origin d m))"
proof -
  obtain f st where fs: "ray_start q origin d m = (f, st)" by (cases "ray_start q origin d m")
  show ?thesis
    using ray_path_connected [OF ray_start_ok [OF fs], of _ "Suc MAX_PHYSICS_QUERY_CELLS"]
    by (simp add: ray_cells_def fs successively_conv_nth del: ray_path.simps)
qed

end
