(* ===== verification/PhysicsAnswers.thy ===== *)
theory PhysicsAnswers
  imports PhysicsFacts
begin

text \<open>
  The answers of the three queries as properties: rays, overlaps and sweeps against their references,
  what a presence guard changes, and where bodies and blocks are treated differently.
\<close>

section \<open>The cells of a range\<close>

lemma set_range_cells:
  "c \<in> set (range_cells lo hi) \<longleftrightarrow>
     (sint (cc_x lo) \<le> sint (cc_x c) \<and> sint (cc_x c) \<le> sint (cc_x hi)) \<and>
     (sint (cc_y lo) \<le> sint (cc_y c) \<and> sint (cc_y c) \<le> sint (cc_y hi)) \<and>
     (sint (cc_z lo) \<le> sint (cc_z c) \<and> sint (cc_z c) \<le> sint (cc_z hi))"
  unfolding range_cells_def set_i32_range [symmetric]
  by (cases c) (auto simp: cell_coord_new_def image_iff)

lemma distinct_range_cells: "distinct (range_cells lo hi)"
proof -
  have layer: "distinct (concat (map (\<lambda>z. map (\<lambda>x. cell_coord_new x y z) xs) zs))"
    if "distinct xs" "distinct zs" for xs zs y
    using that by (induction zs) (auto simp: distinct_map inj_on_def cell_coord_new_def)
  have "distinct (concat (map (\<lambda>y. concat (map (\<lambda>z. map (\<lambda>x. cell_coord_new x y z) xs) zs)) ys))"
    if "distinct xs" "distinct zs" "distinct ys" for xs ys zs
    using that(3) layer [OF that(1,2)] by (induction ys) (auto simp: cell_coord_new_def)
  then show ?thesis unfolding range_cells_def by (simp add: distinct_i32_range)
qed

lemma length_range_cells:
  "length (range_cells lo hi) = nat (sint (cc_y hi) - sint (cc_y lo) + 1) *
     (nat (sint (cc_z hi) - sint (cc_z lo) + 1) * nat (sint (cc_x hi) - sint (cc_x lo) + 1))"
  unfolding range_cells_def by (simp add: length_concat_same length_i32_range)

lemma cell_range_cells:
  assumes "cell_range shape = Inr (Some (lo, hi))"
  shows "0 < length (range_cells lo hi)" "length (range_cells lo hi) \<le> MAX_PHYSICS_QUERY_CELLS"
proof -
  from assms have "sint (cc_x lo) \<le> sint (cc_x hi)" "sint (cc_y lo) \<le> sint (cc_y hi)" "sint (cc_z lo) \<le> sint (cc_z hi)"
    and "nat (sint (cc_x hi) - sint (cc_x lo) + 1) * nat (sint (cc_y hi) - sint (cc_y lo) + 1) *
        nat (sint (cc_z hi) - sint (cc_z lo) + 1) \<le> MAX_PHYSICS_QUERY_CELLS"
    by (auto simp: cell_range_def Let_def cell_coord_new_def usize_checked_mul_def result_iff ok_or_def
        split: if_splits option.splits bind_splits)
  then show "0 < length (range_cells lo hi)" "length (range_cells lo hi) \<le> MAX_PHYSICS_QUERY_CELLS"
    by (simp_all add: length_range_cells ac_simps)
qed

lemma cell_range_budget:
  "case cell_range shape of
     Inr (Some (lo, hi)) \<Rightarrow> length (range_cells lo hi) \<in> {0<..MAX_PHYSICS_QUERY_CELLS} | _ \<Rightarrow> True"
  using cell_range_cells by (simp split: sum.splits option.splits prod.splits)

section \<open>What an overlap answers\<close>

definition clear_visit :: "physics_query \<Rightarrow> material_mask \<Rightarrow> cell_coord \<Rightarrow> bool" where
  "clear_visit q filt c =
     (case block_at q c filt of Inl _ \<Rightarrow> False | Inr (VisitUnresolved _) \<Rightarrow> False | _ \<Rightarrow> True)"

definition overlap_block :: "physics_query \<Rightarrow> material_mask \<Rightarrow> cell_coord \<Rightarrow> overlap_hit option" where
  "overlap_block q filt c =
     (case block_at q c filt of
        Inr (VisitHit b) \<Rightarrow> Some \<lparr>oh_cell = c, oh_block_id = Some b, oh_target = HitBlock\<rparr> | _ \<Rightarrow> None)"

definition overlapped_bodies :: "physics_query \<Rightarrow> aabb \<Rightarrow> overlap_hit list" where
  "overlapped_bodies q shape =
     map (\<lambda>e. \<lparr>oh_cell = center_cell (snd e), oh_block_id = None, oh_target = HitBody (fst e)\<rparr>)
       (filter (\<lambda>e. aabb_intersects shape (snd e)) (fm_entries (pw_bodies (pq_world q))))"

text \<open>What the caller's buffer holds after \<open>hits\<close> were offered to it, and the counts that go with it.\<close>

definition filled :: "overlap_hit list \<Rightarrow> overlap_hit list \<Rightarrow> overlap_hit list" where
  "filled hits buffer = take (length buffer) hits @ drop (length hits) buffer"

definition overlap_summary :: "unit query_resolution \<Rightarrow> overlap_hit list \<Rightarrow> overlap_hit list \<Rightarrow> overlap_result" where
  "overlap_summary r hits buffer =
     \<lparr>or_resolution = r, or_actual_count = length hits, or_written_count = min (length hits) (length buffer),
      or_truncated = (length hits > length buffer)\<rparr>"

definition overlap_answer ::
    "physics_query \<Rightarrow> aabb \<Rightarrow> material_mask \<Rightarrow> overlap_hit list \<Rightarrow> (physics_error + overlap_result) \<times> overlap_hit list" where
  "overlap_answer q shape filt buffer =
     (case cell_range shape of
        Inl e \<Rightarrow> (Inl e, buffer)
      | Inr None \<Rightarrow> (Inr (overlap_summary QueryMiss [] buffer), buffer)
      | Inr (Some (lo, hi)) \<Rightarrow>
          (let cells = range_cells lo hi;
               blocks = List.map_filter (overlap_block q filt) (takeWhile (clear_visit q filt) cells) in
           case find (\<lambda>c. \<not> clear_visit q filt c) cells of
             Some c \<Rightarrow>
               (map_sum id (\<lambda>v. case v of VisitUnresolved i \<Rightarrow> overlap_summary (QueryUnresolved i) blocks buffer
                  | _ \<Rightarrow> overlap_summary QueryMiss blocks buffer) (block_at q c filt), filled blocks buffer)
           | None \<Rightarrow>
               (let hits = blocks @ overlapped_bodies q shape in
                (Inr (overlap_summary (if hits = [] then QueryMiss else QueryHit ()) hits buffer), filled hits buffer))))"

definition overlap_after :: "overlap_hit list \<Rightarrow> overlap_hit list \<Rightarrow> overlap_acc" where
  "overlap_after hits buffer =
     \<lparr>oa_actual = length hits, oa_written = min (length hits) (length buffer), oa_buffer = filled hits buffer\<rparr>"

lemma length_filled: "length (filled hits buffer) = length buffer"
  by (simp add: filled_def min_def)

lemma count_overlap_after: "count_overlap h (overlap_after hits buffer) = overlap_after (hits @ [h]) buffer"
proof (cases "length hits < length buffer")
  case True
  then obtain b bs where d: "drop (length hits) buffer = b # bs" by (metis drop_eq_Nil leD neq_Nil_conv)
  then have "drop (length hits + 1) buffer = bs" by (metis One_nat_def add.commute drop_drop drop_0 drop_Suc_Cons)
  with True d show ?thesis
    by (simp add: count_overlap_def write_overlap_def overlap_after_def length_filled) (simp add: filled_def list_update_append)
qed (simp add: count_overlap_def write_overlap_def overlap_after_def length_filled, simp add: filled_def)

lemma overlap_cells_after:
  "overlap_cells q filt cells (overlap_after hits buffer) =
     (let blocks = List.map_filter (overlap_block q filt) (takeWhile (clear_visit q filt) cells);
          acc = overlap_after (hits @ blocks) buffer in
      case find (\<lambda>c. \<not> clear_visit q filt c) cells of
        None \<Rightarrow> (Inr None, acc)
      | Some c \<Rightarrow> (map_sum id (\<lambda>v. case v of VisitUnresolved i \<Rightarrow> Some i | _ \<Rightarrow> None) (block_at q c filt), acc))"
proof (induction cells arbitrary: hits)
  case (Cons c cells)
  show ?case
  proof (cases "block_at q c filt")
    case (Inl e)
    then have "\<not> clear_visit q filt c" by (simp add: clear_visit_def)
    with Inl show ?thesis by (simp)
  next
    case (Inr v)
    show ?thesis
    proof (cases v)
      case (VisitHit b)
      with Inr have "clear_visit q filt c"
        "overlap_block q filt c = Some \<lparr>oh_cell = c, oh_block_id = Some b, oh_target = HitBlock\<rparr>"
        by (simp_all add: clear_visit_def overlap_block_def)
      with Inr VisitHit show ?thesis by (simp add: count_overlap_after Cons)
    next
      case VisitEmpty
      with Inr have "clear_visit q filt c" "overlap_block q filt c = None"
        by (simp_all add: clear_visit_def overlap_block_def)
      with Inr VisitEmpty show ?thesis by (simp add: Cons)
    next
      case (VisitUnresolved i)
      with Inr have "\<not> clear_visit q filt c" by (simp add: clear_visit_def)
      with Inr VisitUnresolved show ?thesis by (simp)
    qed
  qed
qed (simp)

lemma overlap_bodies_after:
  "fold (overlap_body shape) es (overlap_after hits buffer) =
     overlap_after (hits @ map (\<lambda>e. \<lparr>oh_cell = center_cell (snd e), oh_block_id = None, oh_target = HitBody (fst e)\<rparr>)
       (filter (\<lambda>e. aabb_intersects shape (snd e)) es)) buffer"
  by (induction es arbitrary: hits) (simp_all add: overlap_body_def count_overlap_after)

lemma not_clear: "\<not> clear_visit q filt c \<longleftrightarrow> isl (block_at q c filt) \<or> (\<exists>i. block_at q c filt = Inr (VisitUnresolved i))"
  by (auto simp: clear_visit_def split: sum.splits cell_visit.splits)

lemma overlap_result_after: "overlap_result_of r (overlap_after hits buffer) = overlap_summary r hits buffer"
  by (simp add: overlap_result_of_def overlap_after_def overlap_summary_def length_filled)

lemma overlap_answered: "overlap q shape filt buffer = overlap_answer q shape filt buffer"
proof -
  have start: "\<lparr>oa_actual = 0, oa_written = 0, oa_buffer = buffer\<rparr> = overlap_after [] buffer"
    by (simp add: overlap_after_def filled_def)
  have buf: "oa_buffer (overlap_after hits buffer) = filled hits buffer" "oa_actual (overlap_after hits buffer) = length hits" for hits
    by (simp_all add: overlap_after_def)
  have found: "\<exists>e. block_at q c filt = Inl e \<or> (\<exists>i. block_at q c filt = Inr (VisitUnresolved i))"
    if "find (\<lambda>c. \<not> clear_visit q filt c) cells = Some c" for cells c
    using that unfolding find_Some_iff not_clear by (auto simp: isl_def)
  show ?thesis
  proof (cases "cell_range shape")
    case (Inr r)
    show ?thesis
    proof (cases r)
      case None
      with Inr show ?thesis by (simp add: overlap_def overlap_answer_def overlap_summary_def)
    next
      case (Some lh)
      obtain lo hi where lh: "lh = (lo, hi)" by (cases lh)
      show ?thesis
      proof (cases "find (\<lambda>c. \<not> clear_visit q filt c) (range_cells lo hi)")
        case None
        with Inr Some lh show ?thesis
          by (simp add: overlap_def overlap_answer_def start overlap_cells_after overlap_bodies_after Let_def
              overlap_result_after buf overlapped_bodies_def)
      next
        case (Some c)
        with found [OF Some] Inr \<open>r = Some lh\<close> lh show ?thesis
          by (auto simp: overlap_def overlap_answer_def start overlap_cells_after Let_def overlap_result_after buf)
      qed
    qed
  qed (simp add: overlap_def overlap_answer_def)
qed

section \<open>What a sweep answers\<close>

text \<open>Of each cell of the range the sweep meets: the error there, the hit there, or the missing section.\<close>

definition sweep_error :: "physics_query \<Rightarrow> aabb \<Rightarrow> vec3 \<Rightarrow> material_mask \<Rightarrow> cell_coord \<Rightarrow> physics_error option" where
  "sweep_error q shape displacement filt c =
     (case (sweep_aabb shape displacement c, block_at q c filt) of (Some _, Inl e) \<Rightarrow> Some e | _ \<Rightarrow> None)"

definition sweep_block ::
    "physics_query \<Rightarrow> aabb \<Rightarrow> vec3 \<Rightarrow> material_mask \<Rightarrow> cell_coord \<Rightarrow> (f32 \<times> sweep_hit) option" where
  "sweep_block q shape displacement filt c =
     (case (sweep_aabb shape displacement c, block_at q c filt) of
        (Some (fraction, normal), Inr (VisitHit b)) \<Rightarrow>
          Some (fraction, \<lparr>sh_cell = c, sh_block_id = Some b, sh_point = sweep_point shape displacement fraction,
            sh_normal = normal, sh_fraction = f_clamp f_zero f_one fraction, sh_target = HitBlock\<rparr>)
      | _ \<Rightarrow> None)"

definition sweep_missing ::
    "physics_query \<Rightarrow> aabb \<Rightarrow> vec3 \<Rightarrow> material_mask \<Rightarrow> cell_coord \<Rightarrow> (f32 \<times> section_id) option" where
  "sweep_missing q shape displacement filt c =
     (case (sweep_aabb shape displacement c, block_at q c filt) of
        (Some (fraction, normal), Inr (VisitUnresolved i)) \<Rightarrow> Some (fraction, i) | _ \<Rightarrow> None)"

text \<open>The candidate of one body: the entry of the ray from the centre into the grown body, at most 1.\<close>

definition sweep_body_hit :: "aabb \<Rightarrow> vec3 \<Rightarrow> body_id \<times> aabb \<Rightarrow> (f32 \<times> sweep_hit) option" where
  "sweep_body_hit shape displacement e = sweep_body shape displacement e None"

definition nearer :: "f32 \<times> sweep_hit \<Rightarrow> f32 \<times> sweep_hit \<Rightarrow> bool" where
  "nearer x y \<longleftrightarrow> f_total_key (fst x) < f_total_key (fst y)"

definition nearer_section :: "f32 \<times> section_id \<Rightarrow> f32 \<times> section_id \<Rightarrow> bool" where
  "nearer_section x y \<longleftrightarrow>
     f_total_key (fst x) < f_total_key (fst y) \<or> (f_total_key (fst x) = f_total_key (fst y) \<and> snd x < snd y)"

definition sweep_choice :: "(f32 \<times> sweep_hit) option \<Rightarrow> (f32 \<times> section_id) option \<Rightarrow> sweep_hit query_resolution" where
  "sweep_choice best missing =
     (case (best, missing) of
        (None, None) \<Rightarrow> QueryMiss
      | (Some (t, h), None) \<Rightarrow> QueryHit h
      | (None, Some (u, i)) \<Rightarrow> QueryUnresolved i
      | (Some (t, h), Some (u, i)) \<Rightarrow> if f_total_key t < f_total_key u then QueryHit h else QueryUnresolved i)"

lemma take_better_keep: "take_better t h best = keep_best nearer (t, h) best"
  by (auto simp: take_better_def keep_best_def nearer_def split: option.splits)

lemma take_nearer_keep: "take_nearer t i best = keep_best nearer_section (t, i) best"
  by (auto simp: take_nearer_def keep_best_def nearer_section_def split: option.splits)

lemma sweep_orders: "weak_order nearer" "weak_order nearer_section"
  unfolding nearer_def [abs_def] nearer_section_def [abs_def] by (rule weak_order_key weak_order_keys)+

lemma sweep_body_keep:
  "sweep_body shape displacement e best =
     (case sweep_body_hit shape displacement e of None \<Rightarrow> best | Some h \<Rightarrow> keep_best nearer h best)"
  by (auto simp: sweep_body_hit_def sweep_body_def Let_def take_better_keep keep_best_None split: option.splits prod.splits)

lemma sweep_bodies_keep:
  "fold (sweep_body shape displacement) es best =
     fold (keep_best nearer) (List.map_filter (sweep_body_hit shape displacement) es) best"
  by (induction es arbitrary: best) (auto simp: sweep_body_keep split: option.splits)

lemma sweep_cell_keep:
  "sweep_cell q shape displacement filt c (best, missing) =
     (case sweep_error q shape displacement filt c of
        Some e \<Rightarrow> Inl e
      | None \<Rightarrow>
          Inr (case sweep_block q shape displacement filt c of None \<Rightarrow> best | Some h \<Rightarrow> keep_best nearer h best,
               case sweep_missing q shape displacement filt c of None \<Rightarrow> missing | Some u \<Rightarrow> keep_best nearer_section u missing))"
  by (auto simp: sweep_cell_def sweep_error_def sweep_block_def sweep_missing_def take_better_keep take_nearer_keep
      split: option.splits sum.splits cell_visit.splits prod.splits)

lemma sweep_cells_keep:
  "rfold (sweep_cell q shape displacement filt) cells (best, missing) =
     (case List.map_filter (sweep_error q shape displacement filt) cells of
        e # _ \<Rightarrow> Inl e
      | [] \<Rightarrow>
          Inr (fold (keep_best nearer) (List.map_filter (sweep_block q shape displacement filt) cells) best,
               fold (keep_best nearer_section) (List.map_filter (sweep_missing q shape displacement filt) cells) missing))"
proof (induction cells arbitrary: best missing)
  case (Cons c cells)
  show ?case
    by (cases "sweep_error q shape displacement filt c"; cases "sweep_block q shape displacement filt c";
        cases "sweep_missing q shape displacement filt c")
      (simp_all add: sweep_cell_keep Cons split: list.splits)
qed (simp)

lemma sweep_answer:
  "sweep q shape displacement filt =
     (case swept_cell_range shape (aabb_new (vec3_add (bb_center shape) displacement) (bb_half_extents shape)) of
        Inl e \<Rightarrow> Inl e
      | Inr None \<Rightarrow> Inr QueryMiss
      | Inr (Some (lo, hi)) \<Rightarrow>
          (let cells = range_cells lo hi in
           case List.map_filter (sweep_error q shape displacement filt) cells of
             e # _ \<Rightarrow> Inl e
           | [] \<Rightarrow>
               Inr (sweep_choice
                 (fold (keep_best nearer) (List.map_filter (sweep_block q shape displacement filt) cells @
                    List.map_filter (sweep_body_hit shape displacement) (fm_entries (pw_bodies (pq_world q)))) None)
                 (fold (keep_best nearer_section) (List.map_filter (sweep_missing q shape displacement filt) cells) None))))"
  by (auto simp: sweep_def sweep_cells_keep sweep_bodies_keep sweep_choice_def Let_def not_less
      split: sum.splits option.splits list.splits prod.splits)

section \<open>What a guard changes\<close>

text \<open>Two outcomes that agree unless the first is the given refusal.\<close>

definition same_or :: "'e \<Rightarrow> 'e + 'a \<Rightarrow> 'e + 'a \<Rightarrow> bool" where
  "same_or e r s \<longleftrightarrow> r = s \<or> r = Inl e"

lemma same_or_bind: "same_or e r s \<Longrightarrow> (\<And>x. same_or e (f x) (g x)) \<Longrightarrow> same_or e (rbind r f) (rbind s g)"
  unfolding same_or_def by (cases s) force+

lemma same_or_rfold: "(\<And>x s. same_or e (f x s) (g x s)) \<Longrightarrow> same_or e (rfold f xs s) (rfold g xs s)"
  by (induction xs arbitrary: s) (auto intro!: same_or_bind simp: same_or_def [of e "Inr s" for s])

definition rq_refused :: physics_error where
  "rq_refused = pq_contract ''pinned_read_returned_pending''"

text \<open>No answer of these names a section for which \<open>held\<close> is true.\<close>

definition no_held :: "(string \<Rightarrow> bool) \<Rightarrow> physics_error + 'a query_resolution \<Rightarrow> bool" where
  "no_held held r = (case r of Inr (QueryUnresolved i) \<Rightarrow> \<not> held (section_id_key i) | _ \<Rightarrow> True)"

lemma raycast_unresolved:
  assumes "raycast q origin direction m filt = Inr (QueryUnresolved i)"
  shows "\<exists>c. block_at q c filt = Inr (VisitUnresolved i)"
proof -
  from assms obtain f st where "stop_result q filt f st = Inr (QueryUnresolved i)"
    by (auto simp: raycast_answer ray_answer_def split: option.splits if_splits)
  then have "block_at q (rs_cell st) filt = Inr (VisitUnresolved i)"
    by (cases "block_at q (rs_cell st) filt") (auto simp: stop_result_def split: cell_visit.splits)
  then show ?thesis ..
qed

lemma overlap_unresolved:
  assumes "fst (overlap q shape filt buffer) = Inr r" "or_resolution r = QueryUnresolved i"
  shows "\<exists>c. block_at q c filt = Inr (VisitUnresolved i)"
proof -
  from assms obtain lo hi c where c: "find (\<lambda>c. \<not> clear_visit q filt c) (range_cells lo hi) = Some c"
    and r: "or_resolution r = QueryUnresolved i" "cell_range shape = Inr (Some (lo, hi))"
    by (auto simp: overlap_answered overlap_answer_def overlap_summary_def Let_def split: sum.splits option.splits if_splits)
  with assms(1) show ?thesis
    by (cases "block_at q c filt")
      (auto simp: overlap_answered overlap_answer_def overlap_summary_def Let_def split: cell_visit.splits)
qed

lemma sweep_unresolved:
  assumes "sweep q shape displacement filt = Inr (QueryUnresolved i)"
  shows "\<exists>c. block_at q c filt = Inr (VisitUnresolved i)"
proof -
  from assms obtain cells u where
    "fold (keep_best nearer_section) (List.map_filter (sweep_missing q shape displacement filt) cells) None = Some (u, i)"
    by (auto simp: sweep_answer sweep_choice_def Let_def split: sum.splits option.splits list.splits if_splits)
  with is_best_fold [OF sweep_orders(2), of "[]" None "List.map_filter (sweep_missing q shape displacement filt) cells"]
  have "(u, i) \<in> set (List.map_filter (sweep_missing q shape displacement filt) cells)"
    by (auto simp: is_best_def first_best_def)
  then obtain c where "sweep_missing q shape displacement filt c = Some (u, i)"
    by (auto simp: List.map_filter_def)
  then show ?thesis
    by (auto simp: sweep_missing_def split: option.splits sum.splits cell_visit.splits)
qed

text \<open>A query that answers each cell as another does, or refuses, answers as the other does, or refuses.\<close>

lemma ray_loop_same_or:
  assumes "\<And>c. same_or e (block_at q' c filt) (block_at q c filt)"
  shows "same_or e (ray_loop q' filt f steps st) (ray_loop q filt f steps st)"
  using assms
proof (induction q filt f steps st rule: ray_loop.induct)
  case (1 q filt f steps st)
  show ?case
  proof (cases "ray_goes_on f st \<and> steps < MAX_PHYSICS_QUERY_CELLS")
    case True
    have "same_or e
        (case v of VisitUnresolved i \<Rightarrow> Inr (Some (QueryUnresolved i)) | VisitHit b \<Rightarrow> Inr (Some (QueryHit (ray_block_hit f st b)))
         | VisitEmpty \<Rightarrow> (case ray_advance f st of None \<Rightarrow> Inr None | Some st' \<Rightarrow> ray_loop q' filt f (steps + 1) st'))
        (case v of VisitUnresolved i \<Rightarrow> Inr (Some (QueryUnresolved i)) | VisitHit b \<Rightarrow> Inr (Some (QueryHit (ray_block_hit f st b)))
         | VisitEmpty \<Rightarrow> (case ray_advance f st of None \<Rightarrow> Inr None | Some st' \<Rightarrow> ray_loop q filt f (steps + 1) st'))"
      if "block_at q (rs_cell st) filt = Inr v" for v
      using 1(1) [OF _ _ that _ _ 1(2)] True
      by (auto simp: same_or_def split: cell_visit.splits option.splits)
    with 1(2) [of "rs_cell st"] True show ?thesis
      by (subst (1 2) ray_loop.simps) (cases "block_at q (rs_cell st) filt"; auto simp: same_or_def)
  qed (auto simp: ray_loop.simps [of _ filt f steps st] same_or_def)
qed

text \<open>The other two scans, and the whole queries.\<close>

lemma overlap_cells_same_or:
  assumes "\<And>c. same_or e (block_at q' c filt) (block_at q c filt)"
  shows "fst (overlap_cells q' filt cells acc) = Inl e \<or> overlap_cells q' filt cells acc = overlap_cells q filt cells acc"
proof (induction cells arbitrary: acc)
  case (Cons c cells)
  show ?case
  proof (cases "block_at q' c filt = Inl e")
    case False
    with assms [of c] have same: "block_at q' c filt = block_at q c filt" by (simp add: same_or_def)
    show ?thesis
    proof (cases "block_at q c filt")
      case (Inr v)
      with same Cons show ?thesis by (cases v) simp_all
    qed (simp add: same)
  qed simp
qed simp

lemma sweep_cell_same_or:
  assumes "\<And>c. same_or e (block_at q' c filt) (block_at q c filt)"
  shows "same_or e (sweep_cell q' shape displacement filt c st) (sweep_cell q shape displacement filt c st)"
  unfolding sweep_cell_def Let_def
  by (auto split: prod.splits option.splits intro!: same_or_bind assms) (auto simp: same_or_def)

lemma queries_same_or:
  assumes "\<And>c. same_or e (block_at q' c filt) (block_at q c filt)" and world: "pq_world q' = pq_world q"
  shows "same_or e (raycast q' origin direction m filt) (raycast q origin direction m filt)"
    "same_or e (fst (overlap q' shape filt buffer)) (fst (overlap q shape filt buffer))"
    "same_or e (sweep q' shape displacement filt) (sweep q shape displacement filt)"
proof -
  have body: "body_hit q' x d m = body_hit q x d m" for x d m by (simp add: body_hit_def world)
  then have start: "ray_start q' x d m = ray_start q x d m" for x d m by (simp add: ray_start_def)
  show "same_or e (raycast q' origin direction m filt) (raycast q origin direction m filt)"
    unfolding raycast_def start body Let_def
    by (auto split: option.splits prod.splits intro!: same_or_bind ray_loop_same_or [OF assms(1)])
      (auto simp: same_or_def)
  have "fst (overlap_cells q' filt cells acc) = Inl e \<or> overlap_cells q' filt cells acc = overlap_cells q filt cells acc"
    for cells acc by (rule overlap_cells_same_or [OF assms(1)])
  note cells = this
  show "same_or e (fst (overlap q' shape filt buffer)) (fst (overlap q shape filt buffer))"
  proof (cases "\<exists>lo hi. cell_range shape = Inr (Some (lo, hi))")
    case True
    then obtain lo hi where range: "cell_range shape = Inr (Some (lo, hi))" by blast
    from cells [of "range_cells lo hi" "\<lparr>oa_actual = 0, oa_written = 0, oa_buffer = buffer\<rparr>"] show ?thesis
    proof
      assume "fst (overlap_cells q' filt (range_cells lo hi) \<lparr>oa_actual = 0, oa_written = 0, oa_buffer = buffer\<rparr>) = Inl e"
      with range show ?thesis by (auto simp: overlap_def same_or_def split: prod.splits)
    qed (simp add: overlap_def same_or_def world range cong: prod.case_cong sum.case_cong option.case_cong)
  next
    case False
    then have "overlap q' shape filt buffer = overlap q shape filt buffer"
      by (auto simp: overlap_def Let_def split: sum.splits option.splits)
    then show ?thesis by (simp add: same_or_def)
  qed
  show "same_or e (sweep q' shape displacement filt) (sweep q shape displacement filt)"
    unfolding sweep_def world
    by (cases "swept_cell_range shape (aabb_new (vec3_add (bb_center shape) displacement) (bb_half_extents shape))")
      (auto split: option.splits prod.splits intro!: same_or_bind same_or_rfold sweep_cell_same_or [OF assms(1)],
       auto simp: same_or_def)
qed

text \<open>A guard from the section-presence interface refuses, and never lets a held section be unresolved.\<close>

context presence_policy
begin

lemma guarded_same_or:
  "same_or rq_refused (block_at (with_presence_guard w ms guard) c filt) (block_at (physics_query_new w ms) c filt)"
proof -
  have "plain_visit (with_presence_guard w ms guard) c filt = plain_visit (physics_query_new w ms) c filt"
    by (simp add: plain_visit_def with_presence_guard_def physics_query_new_def split: option.splits)
  moreover have "pq_guard (with_presence_guard w ms guard) = Some guard" "pq_guard (physics_query_new w ms) = None"
    by (simp_all add: with_presence_guard_def physics_query_new_def)
  ultimately show ?thesis
    using guarded_block_at [of "with_presence_guard w ms guard" c filt] block_at_unguarded [of "physics_query_new w ms" c filt]
    by (simp add: same_or_def rq_refused_def)
qed

lemma guarded_unresolved:
  assumes "block_at (with_presence_guard w ms guard) c filt = Inr (VisitUnresolved i)"
  shows "\<not> held (section_id_key i)"
  using assms guarded_block_at [of "with_presence_guard w ms guard" c filt]
  by (auto simp: with_presence_guard_def plain_visit_def split: if_splits option.splits)

lemma guarded_queries:
  "same_or rq_refused (raycast (with_presence_guard w ms guard) origin direction m filt) (raycast (physics_query_new w ms) origin direction m filt)"
  "same_or rq_refused (fst (overlap (with_presence_guard w ms guard) shape filt buffer)) (fst (overlap (physics_query_new w ms) shape filt buffer))"
  "same_or rq_refused (sweep (with_presence_guard w ms guard) shape displacement filt) (sweep (physics_query_new w ms) shape displacement filt)"
proof -
  have world: "pq_world (with_presence_guard w ms guard) = pq_world (physics_query_new w ms)"
    by (simp add: with_presence_guard_def physics_query_new_def)
  note same = queries_same_or [OF guarded_same_or world]
  show "same_or rq_refused (raycast (with_presence_guard w ms guard) origin direction m filt) (raycast (physics_query_new w ms) origin direction m filt)"
    "same_or rq_refused (fst (overlap (with_presence_guard w ms guard) shape filt buffer)) (fst (overlap (physics_query_new w ms) shape filt buffer))"
    "same_or rq_refused (sweep (with_presence_guard w ms guard) shape displacement filt) (sweep (physics_query_new w ms) shape displacement filt)"
    by (rule same)+
qed

lemma guarded_no_held:
  "no_held held (raycast (with_presence_guard w ms guard) origin direction m filt)"
  "no_held held (map_sum id or_resolution (fst (overlap (with_presence_guard w ms guard) shape filt buffer)))"
  "no_held held (sweep (with_presence_guard w ms guard) shape displacement filt)"
proof -
  let ?q = "with_presence_guard w ms guard"
  show "no_held held (raycast ?q origin direction m filt)"
    using raycast_unresolved [of ?q origin direction m filt] guarded_unresolved [of w ms _ filt]
    by (fastforce simp: no_held_def split: sum.splits query_resolution.splits)
  show "no_held held (map_sum id or_resolution (fst (overlap ?q shape filt buffer)))"
    using overlap_unresolved [of ?q shape filt buffer] guarded_unresolved [of w ms _ filt]
    by (cases "fst (overlap ?q shape filt buffer)") (fastforce simp: no_held_def split: query_resolution.splits)+
  show "no_held held (sweep ?q shape displacement filt)"
    using sweep_unresolved [of ?q shape displacement filt] guarded_unresolved [of w ms _ filt]
    by (fastforce simp: no_held_def split: sum.splits query_resolution.splits)
qed

end

section \<open>Where bodies and blocks differ\<close>

text \<open>
  A world of one section of air and one body, and boxes in quarter units. The body is a hundred cells
  away along the x axis.
\<close>

definition quarters :: "int \<Rightarrow> f32" where "quarters n = f_of_quotient n 4"

definition sample_box_at :: "int \<Rightarrow> int \<Rightarrow> int \<Rightarrow> int \<Rightarrow> aabb" where
  "sample_box_at x y z h = aabb_new (vec3_new (quarters x) (quarters y) (quarters z)) (vec3_new (quarters h) (quarters h) (quarters h))"

definition sample_step :: vec3 where "sample_step = vec3_new f_one f_zero f_zero"

definition far_world :: physics_world where
  "far_world = register_body 7 (sample_box_at 402 2 2 1) (insert_ready (SectionId 0 0 0) (StUniform 0) physics_world_new)"

lemma far_world_bodies: "fm_entries (pw_bodies far_world) = [(7, sample_box_at 402 2 2 1)]"
proof -
  have "fm_keys (pw_bodies far_world) = [7]"
    by (simp add: fm_keys_sorted_set far_world_def register_body_def insert_ready_def physics_world_new_def)
  moreover have "fmlookup (pw_bodies far_world) 7 = Some (sample_box_at 402 2 2 1)"
    by (simp add: far_world_def register_body_def insert_ready_def physics_world_new_def)
  ultimately show ?thesis by (simp add: sorted_list_of_fmap_def fm_keys_def)
qed

lemma far_world_air:
  "x \<in> {0, 1} \<Longrightarrow> block_at (physics_query_new far_world ms) (cell_coord_new x 0 0) filt = Inr VisitEmpty"
  by (subst block_at_unguarded)
    (auto simp: physics_query_new_def plain_visit_def in_slab_def cell_coord_new_def seen_block_def query_section_def
      far_world_def register_body_def insert_ready_def physics_world_new_def storage_read_world_def div_euclid_16_def
      block_id_type_def)

text \<open>The box that holds the start and the end: a cell and three quarters along the x axis.\<close>

definition sample_swept :: aabb where
  "sample_swept = aabb_new (vec3_new f_one f_half f_half) (vec3_new (quarters 3) (quarters 1) (quarters 1))"

lemma sample_swept_axes:
  "(let s = sample_box_at 2 2 2 1; e = aabb_new (vec3_add (bb_center s) sample_step) (bb_half_extents s);
       (cx, hx) = swept_axis v_x s e; (cy, hy) = swept_axis v_y s e; (cz, hz) = swept_axis v_z s e
     in aabb_new (vec3_new cx cy cz) (vec3_new hx hy hz)) = sample_swept"
  by code_simp

lemma sample_swept_corners:
  "aabb_min sample_swept = vec3_new (quarters 1) (quarters 1) (quarters 1)"
  "aabb_max sample_swept = vec3_new (quarters 7) (quarters 3) (quarters 3)"
  by code_simp+

lemma sample_swept_finite:
  "list_all f_is_finite [quarters 1, quarters 7, quarters 3]" "\<not> f_gt (quarters 1) (quarters 7)" "\<not> f_gt (quarters 1) (quarters 3)"
  by code_simp+

lemma sample_swept_low: "f_to_i32 (f_floor (quarters 1)) = 0" "f_to_i32 (f_max (f_floor (quarters 1)) f_zero) = 0"
  by code_simp+

lemma sample_swept_high:
  "f_to_i32 (f_floor (f_sub (quarters 7) EPSILON)) = 1" "f_to_i32 (f_floor (f_sub (quarters 3) EPSILON)) = 0"
  by code_simp+

lemma sample_swept_top: "f_to_i32 (f_min (f_floor (f_sub (quarters 3) EPSILON)) (f_of_int WORLD_Y_MAX)) = 0"
  by code_simp

lemma sample_swept_range:
  "swept_cell_range (sample_box_at 2 2 2 1)
      (aabb_new (vec3_add (bb_center (sample_box_at 2 2 2 1)) sample_step) (bb_half_extents (sample_box_at 2 2 2 1))) =
     Inr (Some (cell_coord_new 0 0 0, cell_coord_new 1 0 0))"
proof -
  have "cell_range sample_swept = Inr (Some (cell_coord_new 0 0 0, cell_coord_new 1 0 0))"
    unfolding cell_range_def Let_def sample_swept_corners vec3_new_def vec3.simps
      sample_swept_low sample_swept_high sample_swept_top
    using sample_swept_finite by (simp add: usize_checked_mul_def MAX_PHYSICS_QUERY_CELLS_def)
  then show ?thesis
    using sample_swept_axes by (simp add: swept_cell_range_def Let_def case_prod_beta)
qed

lemma sample_far_entry:
  "ray_aabb (bb_center (sample_box_at 2 2 2 1)) sample_step (sample_box_at 402 2 2 2) =
     Some (f_of_quotient 199 2, axis_vec AxisX (f_neg f_one))"
  by code_simp

lemma sample_far_body:
  "map_option (\<lambda>(t, h). (t, sh_fraction h, sh_target h)) (sweep_body_hit (sample_box_at 2 2 2 1) sample_step (7, sample_box_at 402 2 2 1)) =
     Some (f_one, f_one, HitBody 7)"
  by code_simp

text \<open>The sweep over one cell is stopped by the body, 99.5 steps further than the displacement reaches.\<close>

lemma sweep_hits_body_beyond_displacement:
  "\<exists>h. sweep (physics_query_new far_world ms) (sample_box_at 2 2 2 1) sample_step filt = Inr (QueryHit h) \<and>
     sh_fraction h = f_one \<and> sh_target h = HitBody 7"
proof -
  let ?q = "physics_query_new far_world ms" and ?box = "sample_box_at 2 2 2 1"
  have cells: "range_cells (cell_coord_new 0 0 0) (cell_coord_new 1 0 0) = [cell_coord_new 0 0 0, cell_coord_new 1 0 0]"
    by (simp add: range_cells_def i32_range_def cell_coord_new_def upto.simps)
  have air: "sweep_error ?q ?box sample_step filt (cell_coord_new x 0 0) = None"
    "sweep_block ?q ?box sample_step filt (cell_coord_new x 0 0) = None"
    "sweep_missing ?q ?box sample_step filt (cell_coord_new x 0 0) = None" if "x \<in> {0, 1}" for x
    using far_world_air [OF that] by (auto simp: sweep_error_def sweep_block_def sweep_missing_def split: option.splits)
  obtain t h where h: "sweep_body_hit ?box sample_step (7, sample_box_at 402 2 2 1) = Some (t, h)"
    "sh_fraction h = f_one" "sh_target h = HitBody 7"
    using sample_far_body by auto
  have "pw_world_bodies = fm_entries (pw_bodies (pq_world ?q)) \<Longrightarrow> pw_world_bodies = [(7, sample_box_at 402 2 2 1)]" for pw_world_bodies
    using far_world_bodies by (simp add: physics_query_new_def)
  then have "sweep ?q ?box sample_step filt = Inr (QueryHit h)"
    by (simp add: sweep_answer sample_swept_range Let_def cells air h(1) sweep_choice_def keep_best_None)
  with h(2,3) show ?thesis by blast
qed

text \<open>Above the world's height no cell is in the range, and an overlap answers before it looks at the bodies.\<close>

lemma overlap_misses_body_above_world:
  "aabb_intersects (sample_box_at 2 1202 2 1) (sample_box_at 2 1202 2 1)"
  "overlap (physics_query_new (register_body 7 (sample_box_at 2 1202 2 1) w) ms) (sample_box_at 2 1202 2 1) filt buffer =
     (Inr (overlap_summary QueryMiss [] buffer), buffer)"
proof -
  show "aabb_intersects (sample_box_at 2 1202 2 1) (sample_box_at 2 1202 2 1)" by code_simp
  have "cell_range (sample_box_at 2 1202 2 1) = Inr None" by code_simp
  then show "overlap (physics_query_new (register_body 7 (sample_box_at 2 1202 2 1) w) ms) (sample_box_at 2 1202 2 1) filt buffer =
     (Inr (overlap_summary QueryMiss [] buffer), buffer)"
    by (simp add: overlap_answered overlap_answer_def)
qed

section \<open>The properties\<close>

text \<open>The queries as a caller builds them over the residency manager.\<close>

abbreviation pinned_physics :: "region_pin_manager \<Rightarrow> physics_world \<Rightarrow> material_lookup \<Rightarrow> physics_query" where
  "pinned_physics m w ms \<equiv> with_presence_guard w ms (manager_guard m)"




lemma pinned_cell:
  "block_at (pinned_physics m w ms) c filt =
     (if in_slab c \<and> covered {PinReady} m (section_id_key (query_section c)) \<and> seen_block w c = None
      then Inl rq_refused else block_at (physics_query_new w ms) c filt)"
proof -
  have "plain_visit (pinned_physics m w ms) c filt = plain_visit (physics_query_new w ms) c filt"
    "pq_guard (pinned_physics m w ms) = Some (manager_guard m)" "pq_world (pinned_physics m w ms) = w"
    "pq_guard (physics_query_new w ms) = None"
    by (simp_all add: plain_visit_def with_presence_guard_def physics_query_new_def split: option.splits)
  then show ?thesis
    using manager.guarded_block_at [of "pinned_physics m w ms" m c filt] block_at_unguarded [of "physics_query_new w ms" c filt]
    by (simp add: rq_refused_def)
qed

text \<open>
  C22. A physics query under the residency manager's guard is answered as without it, or refused with
  \<open>pinned_read_returned_pending\<close>; and no answer says that a section covered by a ready pin is
  unresolved. One cell is refused exactly when it lies in such a section and the snapshot has no blocks there.
\<close>

theorem pinned_physics_answered_or_refused:
  "same_or rq_refused (raycast (pinned_physics m w ms) origin direction d filt) (raycast (physics_query_new w ms) origin direction d filt) \<and>
   same_or rq_refused (fst (overlap (pinned_physics m w ms) shape filt buffer)) (fst (overlap (physics_query_new w ms) shape filt buffer)) \<and>
   same_or rq_refused (sweep (pinned_physics m w ms) shape displacement filt) (sweep (physics_query_new w ms) shape displacement filt) \<and>
   no_held (covered {PinReady} m) (raycast (pinned_physics m w ms) origin direction d filt) \<and>
   no_held (covered {PinReady} m) (map_sum id or_resolution (fst (overlap (pinned_physics m w ms) shape filt buffer))) \<and>
   no_held (covered {PinReady} m) (sweep (pinned_physics m w ms) shape displacement filt) \<and>
   (block_at (pinned_physics m w ms) c filt =
     (if in_slab c \<and> covered {PinReady} m (section_id_key (query_section c)) \<and> seen_block w c = None
      then Inl rq_refused else block_at (physics_query_new w ms) c filt))"
  by (intro conjI manager.guarded_queries manager.guarded_no_held pinned_cell)

end
