(* ===== verification/Harness.thy ===== *)
theory Harness
  imports Plumbing
begin

text \<open>
  The reference port of the test-support crate: operations recorded under injected faults
  (\<open>fault_injection.rs\<close>, the head of \<open>reference_harness.rs\<close>) and the replay of a schedule
  (\<open>deterministic_executor.rs\<close>).
\<close>

section \<open>Faults\<close>

datatype fault_point = PrePublication | PostPublication | LostResult | CorruptSnapshot | StaleCompletion

record fault_injector =
  fi_armed :: "fault_point option"

definition injector_new :: fault_injector where
  "injector_new = \<lparr>fi_armed = None\<rparr>"

definition injector_arm :: "fault_point \<Rightarrow> fault_injector \<Rightarrow> fault_injector" where
  "injector_arm p i = i\<lparr>fi_armed := Some p\<rparr>"

definition injector_take :: "fault_injector \<Rightarrow> fault_point option \<times> fault_injector" where
  "injector_take i = (fi_armed i, i\<lparr>fi_armed := None\<rparr>)"

fun fault_error_id :: "fault_point \<Rightarrow> string" where
  "fault_error_id PrePublication = ''InvalidHandle''"
| "fault_error_id PostPublication = ''PartialLoadRolledBack''"
| "fault_error_id LostResult = ''EvidenceMissing''"
| "fault_error_id CorruptSnapshot = ''EvidenceDigestMismatch''"
| "fault_error_id StaleCompletion = ''StaleEpoch''"

fun fault_recoverable :: "fault_point \<Rightarrow> bool" where
  "fault_recoverable PrePublication = True"
| "fault_recoverable StaleCompletion = True"
| "fault_recoverable PostPublication = False"
| "fault_recoverable LostResult = False"
| "fault_recoverable CorruptSnapshot = False"

section \<open>The port\<close>

record voxel_operation =
  vo_schema_id :: string
  vo_seq :: u64
  vo_payload :: "u8 list"

record voxel_outcome =
  vu_schema_id :: string
  vu_seq :: u64
  vu_payload :: "u8 list"
  vu_error :: "string option"
  vu_recoverable :: bool

record port_harness =
  ph_injector :: fault_injector
  ph_committed :: "voxel_operation list"

definition harness_new :: port_harness where
  "harness_new = \<lparr>ph_injector = injector_new, ph_committed = []\<rparr>"

definition harness_arm :: "fault_point \<Rightarrow> port_harness \<Rightarrow> port_harness" where
  "harness_arm p h = h\<lparr>ph_injector := injector_arm p (ph_injector h)\<rparr>"

definition harness_ok :: "voxel_operation \<Rightarrow> voxel_outcome" where
  "harness_ok op =
     \<lparr>vu_schema_id = vo_schema_id op, vu_seq = vo_seq op, vu_payload = vo_payload op, vu_error = None, vu_recoverable = False\<rparr>"

definition harness_fail :: "voxel_operation \<Rightarrow> fault_point \<Rightarrow> voxel_outcome" where
  "harness_fail op p =
     \<lparr>vu_schema_id = vo_schema_id op, vu_seq = vo_seq op, vu_payload = [], vu_error = Some (fault_error_id p),
      vu_recoverable = fault_recoverable p\<rparr>"

definition harness_push :: "voxel_operation \<Rightarrow> port_harness \<Rightarrow> port_harness" where
  "harness_push op h = h\<lparr>ph_committed := ph_committed h @ [op]\<rparr>"

definition harness_execute :: "voxel_operation \<Rightarrow> port_harness \<Rightarrow> voxel_outcome \<times> port_harness" where
  "harness_execute op h =
     (let (fault, i) = injector_take (ph_injector h); h = h\<lparr>ph_injector := i\<rparr> in
      case fault of
        Some PrePublication \<Rightarrow> (harness_fail op PrePublication, h)
      | Some StaleCompletion \<Rightarrow> (harness_fail op StaleCompletion, h)
      | Some LostResult \<Rightarrow> (harness_fail op LostResult, harness_push op h)
      | Some PostPublication \<Rightarrow> (harness_fail op PostPublication, harness_push op h)
      | Some CorruptSnapshot \<Rightarrow>
          ((harness_ok op)\<lparr>vu_error := Some (fault_error_id CorruptSnapshot), vu_recoverable := False\<rparr>, harness_push op h)
      | None \<Rightarrow> (harness_ok op, harness_push op h))"

definition operation_bytes :: "voxel_operation \<Rightarrow> u8 list" where
  "operation_bytes op = le_bytes 8 (vo_seq op) @ str_bytes (vo_schema_id op) @ vo_payload op"

definition snapshot_hash :: "port_harness \<Rightarrow> u8 list" where
  "snapshot_hash h = sha256 (concat (map operation_bytes (ph_committed h)))"

section \<open>Schedules\<close>

record schedule =
  sc_seed :: u64
  sc_ops :: "voxel_operation list"

record trace =
  tr_seed :: u64
  tr_outcomes :: "voxel_outcome list"
  tr_snapshot :: "u8 list"

fun execute_all :: "voxel_operation list \<Rightarrow> port_harness \<Rightarrow> voxel_outcome list \<times> port_harness" where
  "execute_all [] h = ([], h)"
| "execute_all (op # ops) h =
     (let (out, h) = harness_execute op h; (outs, h) = execute_all ops h in (out # outs, h))"

definition executor_run :: "schedule \<Rightarrow> trace" where
  "executor_run s =
     (let (outs, port) = execute_all (sc_ops s) harness_new
      in \<lparr>tr_seed = sc_seed s, tr_outcomes = outs, tr_snapshot = snapshot_hash port\<rparr>)"

text \<open>The order in which a hash map yields its values is not fixed by the language: it is a parameter.\<close>

definition hashmap_fold_payloads ::
    "((u64, u8 list) fmap \<Rightarrow> u8 list list) \<Rightarrow> voxel_operation list \<Rightarrow> u8 list" where
  "hashmap_fold_payloads into_values ops =
     concat (into_values (fold (\<lambda>op m. fmupd (vo_seq op) (vo_payload op) m) ops fmempty))"

definition vec_fold_payloads :: "voxel_operation list \<Rightarrow> u8 list" where
  "vec_fold_payloads ops = concat (map vo_payload ops)"

section \<open>What a fault leaves behind\<close>

text \<open>A failure is recoverable exactly when the operation left nothing behind, and a fault strikes once.\<close>

lemma execute_fault:
  assumes "harness_execute op h = (out, h')"
  shows "vu_recoverable out \<longleftrightarrow> ph_committed h' = ph_committed h"
    "ph_committed h' = (if vu_recoverable out then ph_committed h else ph_committed h @ [op])"
    "vu_error out = map_option fault_error_id (fi_armed (ph_injector h))"
    "fi_armed (ph_injector h') = None"
  using assms
  by (auto simp: harness_execute_def injector_take_def harness_fail_def harness_ok_def harness_push_def Let_def
      split: option.splits fault_point.splits)

lemma execute_all_unarmed:
  assumes "fi_armed (ph_injector h) = None"
  shows "execute_all ops h = (map harness_ok ops, h\<lparr>ph_committed := ph_committed h @ ops\<rparr>)"
  using assms
proof (induction ops arbitrary: h)
  case (Cons op ops)
  have "harness_execute op h = (harness_ok op, h\<lparr>ph_committed := ph_committed h @ [op]\<rparr>)"
    using Cons.prems by (simp add: harness_execute_def injector_take_def harness_push_def)
  with Cons show ?case by simp
qed simp

text \<open>A schedule is replayed in its own order, and its snapshot is the hash of that order.\<close>

lemma executor_replays:
  "executor_run s =
     \<lparr>tr_seed = sc_seed s, tr_outcomes = map harness_ok (sc_ops s),
      tr_snapshot = sha256 (concat (map operation_bytes (sc_ops s)))\<rparr>"
  by (simp add: executor_run_def execute_all_unarmed harness_new_def injector_new_def snapshot_hash_def)

text \<open>Folding through a hash map loses that order: two iteration orders of one map give two results.\<close>

lemma hashmap_fold_depends_on_order:
  "\<exists>f g ops. (\<forall>m. mset (f m) = mset (g m)) \<and>
     hashmap_fold_payloads f ops \<noteq> hashmap_fold_payloads g ops \<and> vec_fold_payloads ops = hashmap_fold_payloads f ops"
proof (intro exI conjI allI)
  let ?f = "\<lambda>m :: (u64, u8 list) fmap. map snd (sorted_list_of_fmap m)" and ?g = "\<lambda>m :: (u64, u8 list) fmap. rev (map snd (sorted_list_of_fmap m))"
  let ?op = "\<lambda>n :: u64. \<lambda>b :: u8. \<lparr>vo_schema_id = '''', vo_seq = n, vo_payload = [b]\<rparr>"
  have "fm_keys (fmupd 2 [2] (fmupd 1 [1] fmempty) :: (u64, u8 list) fmap) = [1, 2]"
    by (simp add: fm_keys_sorted_set word_le_nat_alt)
  then have m: "sorted_list_of_fmap (fmupd 2 [2] (fmupd 1 [1] fmempty) :: (u64, u8 list) fmap) = [(1, [1]), (2, [2])]"
    by (simp add: sorted_list_of_fmap_def fm_keys_def)
  show "mset (?f m) = mset (?g m)" for m by simp
  show "hashmap_fold_payloads ?f [?op 1 1, ?op 2 2] \<noteq> hashmap_fold_payloads ?g [?op 1 1, ?op 2 2]"
    by (simp add: hashmap_fold_payloads_def m)
  show "vec_fold_payloads [?op 1 1, ?op 2 2] = hashmap_fold_payloads ?f [?op 1 1, ?op 2 2]"
    by (simp add: hashmap_fold_payloads_def vec_fold_payloads_def m)
qed

end
