(* ===== verification/Spec2Isabelle.thy ===== *)
theory Spec2Isabelle
  imports Binding ReadBack WorldEffects PhysicsAnswers Harness
begin

text \<open>
  A voxel world engine, modelled as it is written.

  \<^bold>\<open>The program.\<close> The workspace (\<open>crates/\<close>) holds a contract crate, a domain crate, an
  operations crate, a world crate, a query crate for physics and a test-support crate. A world is made
  of sections of 16x16x16 cells. What readers see is one published cut: an immutable root with a
  directory of section slots and a revision stamp, held by a publication authority. A mutation is
  prepared on a captured view (validated, planned, staged in private) and committed by publishing a
  new root once; a receipt ledger gives every request one final outcome, also when it is replayed. A
  dirty frontier remembers which sections are not yet durable and a durability receipt clears it.
  A cut can be captured, encoded, checked, rebuilt and restored. Region pins keep sections resident.
  The session of a world goes through declared states only and ends in \<open>Disposed\<close>.

  \<^bold>\<open>Conventions.\<close> Machine integers are words; \<open>usize\<close> is \<open>nat\<close> with
  \<open>usize_max = 2 ^ 64 - 1\<close> written out; byte strings are lists of \<open>u8\<close>, texts are \<open>string\<close>.
  \<open>Result\<close> is a sum with the error on the left, \<open>?\<close> is \<open>rbind\<close>, a \<open>for\<close> loop with \<open>?\<close> is
  \<open>rfold\<close>. \<open>BTreeMap\<close> and \<open>BTreeSet\<close> are finite maps and sets read in key order. Shared immutable
  values (\<open>Arc\<close>) are values. State behind a lock is passed explicitly; an operation on it is one
  step. A panic is \<open>None\<close> where it is not excluded by the types; an operation that may panic returns
  an option around its result.

  \<^bold>\<open>Shared ground.\<close> \<open>Prelude\<close> holds the machine types, the result monad, loops and finite maps with
  the lemma collection \<open>result_iff\<close>; \<open>Strings\<close> the standard library's text routines; \<open>Interfaces\<close> the
  locales (codecs, cell stores, bounded sinks, handle tables), interpreted by the theories that provide
  them. \<open>Pins\<close> adds the locales of presence and eviction policies, \<open>Restore\<close> the one of capture
  writers.

  \<^bold>\<open>Contract and domain.\<close>
  \<^item> \<open>Contract\<close>: limits, names and error ids of \<open>contracts/src/voxel_world.rs\<close>. Every id the code
    interns is declared, so the constructors never panic.
  \<^item> \<open>Plumbing\<close>: SHA-256 bit for bit and the bounded buffer of \<open>plumbing.rs\<close>. Nothing is assumed of
    the hash; where equal digests matter, the statement is about the hashed bytes.
  \<^item> \<open>Keys\<close>: \<open>domain/src/key.rs\<close>. Keys and their parsers are strict inverse pairs.
  \<^item> \<open>Blocks\<close>, \<open>Catalog\<close>: \<open>block.rs\<close>. Packing of block ids, cell offsets, state layouts; materials,
    behaviour templates, the official and the room catalogs and their resolution.
  \<^item> \<open>Storage\<close>: \<open>section/block_storage.rs\<close>. The three representations refine a function from
    offsets to blocks; the raw form is used only when 256 slots are live.
  \<^item> \<open>Payload\<close>, \<open>Page\<close>, \<open>Directory\<close>, \<open>Dispatch\<close>, \<open>Dirty\<close>: the other files of \<open>section/\<close>. Full
    and delta envelopes, sealed pages and slots, the directory and staged replacements, the responses
    to receivers and the modification layer, the dirty frontier.
  \<^item> \<open>Revision\<close>: \<open>revision/\<close>. The allocator, the pin registry (its reachable states account for the
    multiset of live pins), the stamp and the retention frontier.
  \<^item> \<open>Publication\<close>: \<open>publication/\<close>. Prepare, seal, publish once, capture and drop; \<open>pub_reach\<close> lists
    the reachable authorities with the prepared publications, tokens and views that are alive.
  \<^item> \<open>Config\<close>, \<open>Binding\<close>: \<open>config_snapshot.rs\<close> and \<open>binding.rs\<close>. The type policy of the entity
    component system is a parameter.

  \<^bold>\<open>Operations.\<close>
  \<^item> \<open>Canonical\<close>: \<open>canonical.rs\<close>; the decoder accepts exactly the encoder's output.
  \<^item> \<open>Ledger\<close>: \<open>mutation/fingerprint.rs\<close>, \<open>reservation.rs\<close>, \<open>receipt_ledger.rs\<close>; \<open>ledger_step\<close> is the
    step relation of the ledger and receipts are final along it.
  \<^item> \<open>Prepare\<close>: \<open>plan.rs\<close>, \<open>preconditions.rs\<close>, \<open>prepare.rs\<close>, \<open>prepared_token.rs\<close>. \<open>Commit\<close>:
    \<open>commit.rs\<close>, \<open>commit_finalize.rs\<close>. \<open>Pipeline\<close>: the two together, exactly when a commit succeeds and
    what it publishes.
  \<^item> \<open>Query\<close>: \<open>query/\<close> apart from block reads; \<open>BlockRead\<close>, \<open>Reads\<close>: \<open>block_read.rs\<close> and what it
    observes; \<open>ReadBack\<close>: what is committed is what is read.
  \<^item> \<open>Snapshot\<close>, \<open>Restore\<close>: \<open>snapshot/\<close>; the accepted byte strings, exactly, and the rebuilt root.
  \<^item> \<open>Async\<close>: \<open>async_support/\<close>; the job port refines a bounded queue.

  \<^bold>\<open>The world.\<close>
  \<^item> \<open>Pins\<close>: the region pin manager of \<open>world/residency.rs\<close>, its history relation \<open>pin_step\<close> and the
    queries it guards.
  \<^item> \<open>World\<close>: \<open>instance.rs\<close>, \<open>state.rs\<close>, \<open>limits.rs\<close>, \<open>admission.rs\<close>, \<open>barrier.rs\<close>,
    \<open>command.rs\<close>, \<open>write_lane.rs\<close>, \<open>routing.rs\<close>. An operation is an action, a function from a world to
    an outcome and the world after it; \<open>act_occupied\<close> is the write lease with its drop,
    \<open>act_with_view\<close> a captured view with its drop, \<open>act_publish\<close> the prepare, seal and publish sequence.
  \<^item> \<open>WorldOps\<close>: capture, restore, durability receipts and unloading. \<open>Lifecycle\<close>: events, diagnostics,
    shutdown and faults. \<open>Port\<close>: error mapping, the adapter and owned result buffers.
  \<^item> \<open>WorldFacts\<close>, \<open>WorldReach\<close>, \<open>WorldSafe\<close>: the contract \<open>act_ok\<close> of an action and its proof for
    every operation; the histories \<open>world_step\<close> and \<open>world_reach\<close> and what holds in all of them.
  \<^item> \<open>WorldWrites\<close>, \<open>WorldEffects\<close>: what the operations that publish do, in any history.
    \<open>LifecycleFacts\<close>: sessions and generations.

  \<^bold>\<open>Physics.\<close> \<open>Float32\<close> models \<open>f32\<close> as binary32 with rounding to nearest even, executable, with
  lemmas that the rounded value is a nearest representable one. \<open>Physics\<close> is
  \<open>project/src/physics_query.rs\<close>. \<open>PhysicsFacts\<close> relates the grid walk of a ray to a path of cells that
  share faces; \<open>PhysicsAnswers\<close> gives the answers of rays, overlaps and sweeps against references and
  the effect of the residency guard, and two cases in which bodies and blocks are treated differently.

  \<^bold>\<open>Test support.\<close> \<open>Harness\<close> models the reference port under injected faults and the replay of a
  schedule: a failure is recoverable exactly when it left nothing behind.

  \<^bold>\<open>Bounds and termination.\<close> Every definition is total; there is no fuel. Loops of the code are structural
  recursions or have a measure: the ray's is the rest of the budget \<open>MAX_PHYSICS_QUERY_CELLS\<close>, which the
  code counts itself. The pin registry counts handles with checked additions, so theorems
  about histories assume room for the handles one call takes: \<open>op_room = 7\<close> below \<open>usize_max\<close>, the
  most any operation holds at a time. The witnesses discharge it on reachable worlds.

  \<^bold>\<open>Not modelled.\<close>
  \<^item> Interleavings of threads inside one operation: the locks make an operation on shared state one step,
    and the atomic generation counter is threaded through the creations. A poisoned lock is recovered by
    the code and cannot be observed.
  \<^item> \<open>Display\<close> texts of errors, derived \<open>Debug\<close> where nothing hashes it, accessors (they are the
    record fields) and methods that only forward to another one.
  \<^item> Callers that reach around the world through its publication authority, and state that a caller keeps
    inside an unload hook.
  \<^item> The sign and payload of a NaN.
  \<^item> The scenario harnesses of the test-support crate (\<open>b0_harness.rs\<close>, \<open>b2_harness.rs\<close>,
    \<open>mvp_harness.rs\<close>, the differential part of \<open>reference_harness.rs\<close> with its oracle, a second
    implementation of a fragment of the operations for fixed test vectors) and the workspace guard
    \<open>crate_dag.rs\<close>. Tests, examples and build tools.
\<close>

end
